(* ===== verification/Prelude.thy ===== *)
theory Prelude
  imports Main "HOL-Library.Word" "HOL-Library.Multiset" "HOL-Library.Char_ord"
    "HOL-Library.List_Lexorder" "HOL-Library.Sublist"
begin

text \<open>
  Shared vocabulary of the development: the collections of rewrite rules, Go's
  \<open>sort.SliceStable\<close> with the contract its callers rely on, and the small facts about
  lists and association lists that several components use.

  Go strings are byte strings, and so is \<open>string\<close> (a list of 8-bit characters); the order
  \<open><\<close> of Go strings is the bytewise lexicographic one that \<open>Char_ord\<close> and
  \<open>List_Lexorder\<close> give.
\<close>

named_theorems gostr \<open>facts on Go's string functions\<close>
named_theorems ubits \<open>bits of 128-bit addresses\<close>
named_theorems netwf \<open>well-formedness of networks\<close>
named_theorems ymap_simps \<open>ordered mappings\<close>
named_theorems gate_simps \<open>the tier gate\<close>

section \<open>Stable sorting by a less function\<close>

text \<open>
  \<open>sort.SliceStable(xs, less)\<close>: insertion from the right, an element goes before the first
  element that is not less than it, so equal elements keep their order.
\<close>

primrec insert_stable :: "('a \<Rightarrow> 'a \<Rightarrow> bool) \<Rightarrow> 'a \<Rightarrow> 'a list \<Rightarrow> 'a list" where
  "insert_stable lt x [] = [x]"
| "insert_stable lt x (y # ys) = (if lt y x then y # insert_stable lt x ys else x # y # ys)"

definition slice_stable :: "('a \<Rightarrow> 'a \<Rightarrow> bool) \<Rightarrow> 'a list \<Rightarrow> 'a list" where
  "slice_stable lt xs = foldr (insert_stable lt) xs []"

lemma slice_stable_simps [simp]:
  "slice_stable lt [] = []"
  "slice_stable lt (x # xs) = insert_stable lt x (slice_stable lt xs)"
  by (simp_all add: slice_stable_def)

lemma mset_insert_stable [simp]: "mset (insert_stable lt x xs) = {#x#} + mset xs"
  by (induction xs) auto

lemma mset_slice_stable [simp]: "mset (slice_stable lt xs) = mset xs"
  by (induction xs) auto

lemma set_insert_stable [simp]: "set (insert_stable lt x xs) = insert x (set xs)"
  by (induction xs) auto

lemma set_slice_stable [simp]: "set (slice_stable lt xs) = set xs"
  by (metis mset_slice_stable set_mset_mset)

lemma distinct_slice_stable [simp]: "distinct (slice_stable lt xs) = distinct xs"
  by (rule mset_eq_imp_distinct_iff) simp

lemma length_slice_stable [simp]: "length (slice_stable lt xs) = length xs"
  by (metis mset_slice_stable size_mset)

text \<open>The contract of a less function: a strict weak order.\<close>

locale strict_weak =
  fixes lt :: "'a \<Rightarrow> 'a \<Rightarrow> bool"
  assumes irrefl: "\<not> lt x x"
    and trans: "lt x y \<Longrightarrow> lt y z \<Longrightarrow> lt x z"
    and incomp_trans: "\<not> lt x y \<Longrightarrow> \<not> lt y z \<Longrightarrow> \<not> lt x z"
begin

lemma asym: "lt x y \<Longrightarrow> \<not> lt y x"
  using irrefl trans by blast

lemma insert_sorted:
  "sorted_wrt (\<lambda>x y. \<not> lt y x) xs \<Longrightarrow> sorted_wrt (\<lambda>x y. \<not> lt y x) (insert_stable lt a xs)"
proof (induction xs)
  case Nil
  then show ?case by simp
next
  case (Cons b xs)
  show ?case
  proof (cases "lt b a")
    case True
    with Cons show ?thesis by (auto dest: asym)
  next
    case False
    moreover have "\<not> lt y a" if "y \<in> set xs" for y
      using Cons.prems that False incomp_trans [of y b a] by simp
    ultimately show ?thesis using Cons.prems by simp
  qed
qed

lemma sorted: "sorted_wrt (\<lambda>x y. \<not> lt y x) (slice_stable lt xs)"
  by (induction xs) (simp_all add: insert_sorted)

lemma insert_head: "\<forall>y \<in> set ys. \<not> lt y x \<Longrightarrow> insert_stable lt x ys = x # ys"
  by (cases ys) auto

lemma sorted_id: "sorted_wrt (\<lambda>x y. \<not> lt y x) xs \<Longrightarrow> slice_stable lt xs = xs"
  by (induction xs) (simp_all add: insert_head)

lemma idem: "slice_stable lt (slice_stable lt xs) = slice_stable lt xs"
  by (rule sorted_id [OF sorted])

lemma insert_filter:
  assumes "\<And>y z. P y \<Longrightarrow> P z \<Longrightarrow> \<not> lt y z"
  shows "filter P (insert_stable lt a xs) = (if P a then a # filter P xs else filter P xs)"
  using assms by (induction xs) auto

lemma stable:
  assumes "\<And>y z. P y \<Longrightarrow> P z \<Longrightarrow> \<not> lt y z"
  shows "filter P (slice_stable lt xs) = filter P xs"
  using insert_filter [OF assms] by (induction xs) auto

lemma first_minimal:
  "x \<in> set (slice_stable lt xs) \<Longrightarrow> \<not> lt x (hd (slice_stable lt xs))"
  using sorted [of xs] irrefl by (cases "slice_stable lt xs") auto

end

text \<open>Sorting by a key into a linear order, in particular \<open>sort.Strings\<close>.\<close>

lemma strict_weak_key: "strict_weak (\<lambda>x y. f x < (f y :: 'k :: linorder))"
  by unfold_locales auto

lemma strict_weak_image: "strict_weak lt \<Longrightarrow> strict_weak (\<lambda>x y. lt (f x) (f y))"
  unfolding strict_weak_def by blast

text \<open>Two orders one after the other.\<close>

lemma strict_weak_lex:
  assumes a: "strict_weak lt" and b: "strict_weak lt'"
  shows "strict_weak (\<lambda>x y. if lt x y then True else if lt y x then False else lt' x y)"
proof -
  note at = strict_weak.trans [OF a] and ai = strict_weak.incomp_trans [OF a] and aa = strict_weak.asym [OF a]
  show ?thesis
  proof (unfold_locales, goal_cases)
    case (1 x)
    then show ?case by (simp add: strict_weak.irrefl [OF a] strict_weak.irrefl [OF b])
  next
    case (2 x y z)
    then consider "lt x y" "lt y z" | "lt x y" "\<not> lt y z" "\<not> lt z y" | "\<not> lt x y" "\<not> lt y x" "lt y z"
      | "\<not> lt x y" "\<not> lt y x" "lt' x y" "\<not> lt y z" "\<not> lt z y" "lt' y z"
      by (auto split: if_splits)
    then show ?case
    proof cases
      case 4
      then have "\<not> lt x z" "\<not> lt z x" "lt' x z" using ai strict_weak.trans [OF b] by blast+
      then show ?thesis by simp
    qed (use at ai in metis)+
  next
    case (3 x y z)
    then have n: "\<not> lt x y" "\<not> lt y z" by (auto split: if_splits)
    then have xz: "\<not> lt x z" by (rule ai)
    show ?case
    proof (cases "lt z x")
      case True
      with xz show ?thesis by simp
    next
      case False
      then have "\<not> lt y x" "\<not> lt z y" using n ai by blast+
      with 3 n have "\<not> lt' x y" "\<not> lt' y z" by auto
      then have "\<not> lt' x z" by (rule strict_weak.incomp_trans [OF b])
      with xz False show ?thesis by simp
    qed
  qed
qed

interpretation bytes_order: strict_weak "(<) :: string \<Rightarrow> string \<Rightarrow> bool"
  by unfold_locales auto

definition sort_strings :: "string list \<Rightarrow> string list" where
  "sort_strings xs = slice_stable (<) xs"

lemma set_sort_strings [simp]: "set (sort_strings xs) = set xs"
  by (simp add: sort_strings_def)

lemma distinct_sort_strings [simp]: "distinct (sort_strings xs) = distinct xs"
  by (simp add: sort_strings_def)

lemma sort_strings_sorted: "sorted (sort_strings xs)"
  unfolding sort_strings_def sorted_wrt_iff_nth_less
  using bytes_order.sorted [of xs] by (simp add: sorted_wrt_iff_nth_less not_less)

section \<open>Small facts on lists\<close>

text \<open>The first element of a list that satisfies a predicate, as a scan with an early exit.\<close>

primrec first_where :: "('a \<Rightarrow> bool) \<Rightarrow> 'a list \<Rightarrow> 'a option" where
  "first_where P [] = None"
| "first_where P (x # xs) = (if P x then Some x else first_where P xs)"

lemma first_where_None [simp]: "first_where P xs = None \<longleftrightarrow> (\<forall>x \<in> set xs. \<not> P x)"
  by (induction xs) auto

lemma first_where_Some: "first_where P xs = Some x \<Longrightarrow> x \<in> set xs \<and> P x"
  by (induction xs) (auto split: if_splits)

lemma first_where_split:
  "first_where P xs = Some x \<longleftrightarrow>
     (\<exists>us vs. xs = us @ x # vs \<and> P x \<and> (\<forall>u \<in> set us. \<not> P u))"
proof
  assume "first_where P xs = Some x"
  then show "\<exists>us vs. xs = us @ x # vs \<and> P x \<and> (\<forall>u \<in> set us. \<not> P u)"
  proof (induction xs)
    case Nil
    then show ?case by simp
  next
    case (Cons a xs)
    show ?case
    proof (cases "P a")
      case True
      with Cons.prems have "a # xs = [] @ x # xs \<and> P x" by simp
      then show ?thesis by force
    next
      case False
      with Cons obtain us vs where "xs = us @ x # vs" "P x" "\<forall>u \<in> set us. \<not> P u" by auto
      with False have "a # xs = (a # us) @ x # vs \<and> P x \<and> (\<forall>u \<in> set (a # us). \<not> P u)" by simp
      then show ?thesis by blast
    qed
  qed
next
  have "first_where P (us @ x # vs) = Some x" if "P x" "\<forall>u \<in> set us. \<not> P u" for us vs
    using that by (induction us) auto
  then show "\<exists>us vs. xs = us @ x # vs \<and> P x \<and> (\<forall>u \<in> set us. \<not> P u) \<Longrightarrow> first_where P xs = Some x"
    by blast
qed

lemma sorted_wrt_first:
  assumes "sorted_wrt R xs" "first_where P xs = Some x" "y \<in> set xs" "P y"
  shows "y = x \<or> R x y"
  using assms by (induction xs) (auto split: if_splits)

text \<open>Appending what is not there yet: the order of first occurrences.\<close>

definition add_new :: "'a list \<Rightarrow> 'a \<Rightarrow> 'a list" where
  "add_new seen x = (if x \<in> set seen then seen else seen @ [x])"

definition dedup :: "'a list \<Rightarrow> 'a list" where
  "dedup xs = foldl add_new [] xs"

lemma set_foldl_add_new [simp]: "set (foldl add_new acc xs) = set acc \<union> set xs"
  by (induction xs arbitrary: acc) (auto simp: add_new_def)

lemma distinct_foldl_add_new: "distinct acc \<Longrightarrow> distinct (foldl add_new acc xs)"
  by (induction xs arbitrary: acc) (auto simp: add_new_def)

lemma set_dedup [simp]: "set (dedup xs) = set xs"
  by (simp add: dedup_def)

lemma distinct_dedup [simp]: "distinct (dedup xs)"
  by (simp add: dedup_def distinct_foldl_add_new)

lemma foldl_add_new_distinct:
  "distinct (acc @ xs) \<Longrightarrow> foldl add_new acc xs = acc @ xs"
  by (induction xs arbitrary: acc) (auto simp: add_new_def)

lemma dedup_distinct_id [simp]: "distinct xs \<Longrightarrow> dedup xs = xs"
  by (simp add: dedup_def foldl_add_new_distinct)

end
