(* ===== verification/GoStrings.thy ===== *)
theory GoStrings
  imports Prelude
begin

text \<open>
  The functions of Go's \<open>strings\<close>, \<open>strconv\<close> and \<open>unicode/utf8\<close> packages that the
  modelled code calls, on byte strings, with the facts (splitting against joining, printing
  against reading numbers, trimming) that the components use.
\<close>

section \<open>Characters\<close>

abbreviation code_of :: "char \<Rightarrow> nat" where
  "code_of c \<equiv> of_char c"

definition is_digit :: "char \<Rightarrow> bool" where
  "is_digit c \<longleftrightarrow> 48 \<le> code_of c \<and> code_of c \<le> 57"

definition is_lower :: "char \<Rightarrow> bool" where
  "is_lower c \<longleftrightarrow> 97 \<le> code_of c \<and> code_of c \<le> 122"

definition is_upper :: "char \<Rightarrow> bool" where
  "is_upper c \<longleftrightarrow> 65 \<le> code_of c \<and> code_of c \<le> 90"

definition is_letter :: "char \<Rightarrow> bool" where
  "is_letter c \<longleftrightarrow> is_lower c \<or> is_upper c"

text \<open>The class \<open>[A-Za-z0-9_-]\<close> of the name patterns.\<close>

definition is_word :: "char \<Rightarrow> bool" where
  "is_word c \<longleftrightarrow> is_letter c \<or> is_digit c \<or> c = CHR ''_'' \<or> c = CHR ''-''"

definition ascii_lower :: "char \<Rightarrow> char" where
  "ascii_lower c = (if is_upper c then char_of (code_of c + 32) else c)"

lemma code_of_char_of [simp]: "n < 256 \<Longrightarrow> code_of (char_of n) = n"
  by simp

lemma code_of_less: "code_of c < 256"
  using of_char_mod_256 [of c, where 'a = nat] by (metis mod_less_divisor zero_less_numeral)

lemma code_of_inj: "code_of c = code_of d \<longleftrightarrow> c = d"
  by (simp add: of_char_eq_iff)

lemma ascii_lower_idem [simp]: "ascii_lower (ascii_lower c) = ascii_lower c"
  by (auto simp: ascii_lower_def is_upper_def)

lemma ascii_lower_id: "\<not> is_upper c \<Longrightarrow> ascii_lower c = c"
  by (simp add: ascii_lower_def)

section \<open>Splitting and joining\<close>

text \<open>\<open>strings.Split(s, sep)\<close> for a separator of one byte.\<close>

fun split_on :: "char \<Rightarrow> string \<Rightarrow> string list" where
  "split_on c [] = [[]]"
| "split_on c (x # xs) =
     (if x = c then [] # split_on c xs
      else (case split_on c xs of [] \<Rightarrow> [[x]] | w # ws \<Rightarrow> (x # w) # ws))"

text \<open>\<open>strings.Join(ws, sep)\<close>.\<close>

fun join :: "string \<Rightarrow> string list \<Rightarrow> string" where
  "join sep [] = []"
| "join sep [w] = w"
| "join sep (w # v # vs) = w @ sep @ join sep (v # vs)"

text \<open>\<open>strings.Cut(s, sep)\<close> for one byte: the part before, the part after, and whether it
  was found.\<close>

definition cut_at :: "char \<Rightarrow> string \<Rightarrow> string \<times> string \<times> bool" where
  "cut_at c s = (let a = takeWhile (\<lambda>x. x \<noteq> c) s; b = dropWhile (\<lambda>x. x \<noteq> c) s
     in if b = [] then (s, [], False) else (a, tl b, True))"

lemma split_on_nonempty [simp]: "split_on c s \<noteq> []"
  by (cases s) (auto split: list.splits)

lemma split_on_no_sep: "c \<notin> set s \<Longrightarrow> split_on c s = [s]"
  by (induction s) auto

lemma split_on_append_sep: "c \<notin> set w \<Longrightarrow> split_on c (w @ c # s) = w # split_on c s"
  by (induction w) auto

lemma split_on_parts: "w \<in> set (split_on c s) \<Longrightarrow> c \<notin> set w \<and> set w \<subseteq> set s"
proof (induction s arbitrary: w)
  case Nil
  then show ?case by simp
next
  case (Cons x s)
  obtain v vs where "split_on c s = v # vs"
    using split_on_nonempty [of c s] by (cases "split_on c s") auto
  with Cons.prems Cons.IH [of v] Cons.IH [of w] show ?case by (auto split: if_splits)
qed

lemma split_join [gostr]:
  "ws \<noteq> [] \<Longrightarrow> \<forall>w \<in> set ws. c \<notin> set w \<Longrightarrow> split_on c (join [c] ws) = ws"
  by (induction "[c]" ws rule: join.induct) (simp_all add: split_on_no_sep split_on_append_sep)

lemma join_Cons: "ws \<noteq> [] \<Longrightarrow> join sep (w # ws) = w @ sep @ join sep ws"
  by (cases ws) auto

lemma join_split: "join [c] (split_on c s) = s"
proof (induction s)
  case Nil
  then show ?case by simp
next
  case (Cons x xs)
  obtain w ws where w: "split_on c xs = w # ws"
    using split_on_nonempty [of c xs] by (cases "split_on c xs") auto
  show ?case
  proof (cases "x = c")
    case True
    then show ?thesis using Cons w by (simp add: join_Cons)
  next
    case False
    then show ?thesis using Cons w by (cases ws) (simp_all add: join_Cons)
  qed
qed

lemma set_join: "set (join sep ws) \<subseteq> set sep \<union> (\<Union>w \<in> set ws. set w)"
  by (induction sep ws rule: join.induct) auto

lemma cut_at_found: "c \<notin> set w \<Longrightarrow> cut_at c (w @ c # s) = (w, s, True)"
  proof -
  assume c: "c \<notin> set w"
  then have "dropWhile (\<lambda>x. x \<noteq> c) (w @ c # s) = c # s" by (induction w) auto
  moreover from c have "takeWhile (\<lambda>x. x \<noteq> c) (w @ c # s) = w" by (induction w) auto
  ultimately show ?thesis by (simp add: cut_at_def)
qed

lemma cut_at_none: "c \<notin> set s \<Longrightarrow> cut_at c s = (s, [], False)"
  by (auto simp: cut_at_def)

lemma cut_at_True: "cut_at c s = (a, b, True) \<Longrightarrow> s = a @ c # b \<and> c \<notin> set a"
proof -
  assume c: "cut_at c s = (a, b, True)"
  let ?d = "dropWhile (\<lambda>x. x \<noteq> c) s"
  from c have d: "?d \<noteq> []" and ab: "a = takeWhile (\<lambda>x. x \<noteq> c) s" "b = tl ?d"
    by (auto simp: cut_at_def Let_def split: if_splits)
  from d have "hd ?d = c" using hd_dropWhile [of "\<lambda>x. x \<noteq> c" s] by blast
  with d ab have "?d = c # b" by (cases ?d) auto
  then have "s = a @ c # b" using takeWhile_dropWhile_id [of "\<lambda>x. x \<noteq> c" s] ab by simp
  moreover have "c \<notin> set a" using ab by (auto dest: set_takeWhileD)
  ultimately show ?thesis by blast
qed

section \<open>Numbers\<close>

text \<open>\<open>strconv.Itoa\<close> of a non-negative number and \<open>%d\<close>.\<close>

fun itoa :: "nat \<Rightarrow> string" where
  "itoa n = (if n < 10 then [char_of (48 + n)] else itoa (n div 10) @ [char_of (48 + n mod 10)])"

declare itoa.simps [simp del]

definition digit_val :: "char \<Rightarrow> nat" where
  "digit_val c = code_of c - 48"

text \<open>The loop \<open>n = n*10 + int(s[i]-'0')\<close>.\<close>

definition dec_val :: "string \<Rightarrow> nat" where
  "dec_val s = foldl (\<lambda>n c. n * 10 + digit_val c) 0 s"

lemma itoa_small: "n < 10 \<Longrightarrow> itoa n = [char_of (48 + n)]"
  by (simp add: itoa.simps)

lemma itoa_step: "10 \<le> n \<Longrightarrow> itoa n = itoa (n div 10) @ [char_of (48 + n mod 10)]"
  by (subst itoa.simps) simp

lemma itoa_nonempty [simp]: "itoa n \<noteq> []"
  by (subst itoa.simps) simp

lemma digit_mod: "48 + n mod 10 < (256::nat)"
  by (rule le_less_trans [of _ "48 + 9"]) auto

lemma itoa_digits: "c \<in> set (itoa n) \<Longrightarrow> is_digit c"
proof (induction n rule: itoa.induct)
  case (1 n)
  show ?case
  proof (cases "n < 10")
    case True
    with 1 show ?thesis by (auto simp: itoa_small is_digit_def)
  next
    case False
    have "n mod 10 < 10" by simp
    then have "is_digit (char_of (48 + n mod 10))" using digit_mod [of n]
      by (auto simp: is_digit_def simp del: mod_less_divisor)
    with 1 False show ?thesis by (auto simp: itoa_step)
  qed
qed

lemma dec_val_append: "dec_val (s @ [c]) = dec_val s * 10 + digit_val c"
  by (simp add: dec_val_def)

lemma dec_val_itoa [gostr]: "dec_val (itoa n) = n"
proof (induction n rule: itoa.induct)
  case (1 n)
  show ?case
  proof (cases "n < 10")
    case True
    then show ?thesis by (simp add: itoa_small dec_val_def digit_val_def)
  next
    case False
    with 1 digit_mod [of n] show ?thesis
      by (simp add: itoa_step dec_val_append digit_val_def)
  qed
qed

lemma itoa_inj: "itoa m = itoa n \<longleftrightarrow> m = n"
  by (metis dec_val_itoa)

lemma length_itoa_le: "n < 10 ^ k \<Longrightarrow> 0 < k \<Longrightarrow> length (itoa n) \<le> k"
proof (induction k arbitrary: n)
  case 0
  then show ?case by simp
next
  case (Suc k)
  show ?case
  proof (cases "n < 10")
    case True
    then show ?thesis by (simp add: itoa_small)
  next
    case False
    with Suc.prems have "n div 10 < 10 ^ k" "0 < k" by (auto simp: less_mult_imp_div_less mult.commute intro: gr0I)
    then have "length (itoa (n div 10)) \<le> k" by (rule Suc.IH)
    with False show ?thesis by (simp add: itoa_step)
  qed
qed

lemma hd_itoa: "0 < n \<Longrightarrow> hd (itoa n) \<noteq> CHR ''0''"
proof (induction n rule: itoa.induct)
  case (1 n)
  show ?case
  proof (cases "n < 10")
    case True
    have "char_of (48 + n) \<noteq> CHR ''0''"
    proof
      assume "char_of (48 + n) = CHR ''0''"
      then have "code_of (char_of (48 + n)) = code_of (CHR ''0'')" by simp
      with True 1(2) show False by simp
    qed
    with True show ?thesis by (simp add: itoa_small)
  next
    case False
    then have "0 < n div 10" by (simp add: div_greater_zero_iff)
    with 1 False show ?thesis by (simp add: itoa_step)
  qed
qed

text \<open>The same for lower-case hexadecimal.\<close>

definition hex_char :: "nat \<Rightarrow> char" where
  "hex_char d = (if d < 10 then char_of (48 + d) else char_of (87 + d))"

fun hex_digits :: "nat \<Rightarrow> string" where
  "hex_digits n = (if n < 16 then [hex_char n] else hex_digits (n div 16) @ [hex_char (n mod 16)])"

declare hex_digits.simps [simp del]

definition is_hex :: "char \<Rightarrow> bool" where
  "is_hex c \<longleftrightarrow> is_digit c \<or> (97 \<le> code_of c \<and> code_of c \<le> 102) \<or> (65 \<le> code_of c \<and> code_of c \<le> 70)"

definition hex_digit_val :: "char \<Rightarrow> nat" where
  "hex_digit_val c =
     (if is_digit c then code_of c - 48
      else if 97 \<le> code_of c \<and> code_of c \<le> 102 then code_of c - 97 + 10
      else code_of c - 65 + 10)"

lemma hex_char_is_hex [simp]: "d < 16 \<Longrightarrow> is_hex (hex_char d)"
  by (auto simp: hex_char_def is_hex_def is_digit_def)

lemma hex_digit_val_hex_char [simp]: "d < 16 \<Longrightarrow> hex_digit_val (hex_char d) = d"
  by (auto simp: hex_char_def hex_digit_val_def is_digit_def)

lemma hex_digit_val_less: "is_hex c \<Longrightarrow> hex_digit_val c < 16"
  by (auto simp: is_hex_def hex_digit_val_def is_digit_def)

lemma hex_digits_small: "n < 16 \<Longrightarrow> hex_digits n = [hex_char n]"
  by (simp add: hex_digits.simps)

lemma hex_digits_step: "16 \<le> n \<Longrightarrow> hex_digits n = hex_digits (n div 16) @ [hex_char (n mod 16)]"
  by (subst hex_digits.simps) simp

lemma hex_digits_nonempty [simp]: "hex_digits n \<noteq> []"
  by (subst hex_digits.simps) simp

lemma hex_digits_hex: "c \<in> set (hex_digits n) \<Longrightarrow> is_hex c"
proof (induction n rule: hex_digits.induct)
  case (1 n)
  then show ?case by (cases "n < 16") (auto simp: hex_digits_small hex_digits_step)
qed

lemma length_hex_digits_le: "n < 16 ^ k \<Longrightarrow> 0 < k \<Longrightarrow> length (hex_digits n) \<le> k"
proof (induction k arbitrary: n)
  case 0
  then show ?case by simp
next
  case (Suc k)
  show ?case
  proof (cases "n < 16")
    case True
    then show ?thesis by (simp add: hex_digits_small)
  next
    case False
    with Suc.prems have "n div 16 < 16 ^ k" "0 < k" by (auto simp: less_mult_imp_div_less mult.commute intro: gr0I)
    then have "length (hex_digits (n div 16)) \<le> k" by (rule Suc.IH)
    with False show ?thesis by (simp add: hex_digits_step)
  qed
qed


section \<open>Trimming\<close>

text \<open>
  \<open>strings.TrimFunc\<close> with a predicate on runes, the predicate given by the UTF-8 encodings of
  the runes that satisfy it. A rune is read at the front by its first byte and at the back from
  its last start byte, so for valid encodings trimming runes is removing one of these byte
  sequences as a prefix or as a suffix.
\<close>

definition strip_one :: "string list \<Rightarrow> string \<Rightarrow> string option" where
  "strip_one seqs s =
     (case first_where (\<lambda>p. p \<noteq> [] \<and> take (length p) s = p) seqs of
        None \<Rightarrow> None | Some p \<Rightarrow> Some (drop (length p) s))"

lemma strip_one_shorter: "strip_one seqs s = Some t \<Longrightarrow> length t < length s"
  by (cases s) (auto simp: strip_one_def split: option.splits dest!: first_where_Some)

lemma strip_one_suffix: "strip_one seqs s = Some t \<Longrightarrow> suffix t s"
  by (auto simp: strip_one_def suffix_drop split: option.splits)

function trim_front :: "string list \<Rightarrow> string \<Rightarrow> string" where
  "trim_front seqs s = (case strip_one seqs s of None \<Rightarrow> s | Some t \<Rightarrow> trim_front seqs t)"
  by pat_completeness auto
termination
  by (relation "measure (\<lambda>(_, s). length s)") (auto dest: strip_one_shorter)

declare trim_front.simps [simp del]

definition trim_seqs :: "string list \<Rightarrow> string \<Rightarrow> string" where
  "trim_seqs seqs s = rev (trim_front (map rev seqs) (rev (trim_front seqs s)))"

text \<open>\<open>unicode.IsSpace\<close>: the ASCII blanks, U+0085, U+00A0, U+1680, U+2000 to U+200A, U+2028,
  U+2029, U+202F, U+205F and U+3000.\<close>

definition ascii_space :: "char \<Rightarrow> bool" where
  "ascii_space c \<longleftrightarrow> (9 \<le> code_of c \<and> code_of c \<le> 13) \<or> code_of c = 32"

definition space_seqs :: "string list" where
  "space_seqs =
     [[CHR 0x09], [CHR 0x0A], [CHR 0x0B], [CHR 0x0C], [CHR 0x0D], [CHR 0x20],
      [CHR 0xC2, CHR 0x85], [CHR 0xC2, CHR 0xA0], [CHR 0xE1, CHR 0x9A, CHR 0x80],
      [CHR 0xE2, CHR 0x80, CHR 0x80], [CHR 0xE2, CHR 0x80, CHR 0x81], [CHR 0xE2, CHR 0x80, CHR 0x82],
      [CHR 0xE2, CHR 0x80, CHR 0x83], [CHR 0xE2, CHR 0x80, CHR 0x84], [CHR 0xE2, CHR 0x80, CHR 0x85],
      [CHR 0xE2, CHR 0x80, CHR 0x86], [CHR 0xE2, CHR 0x80, CHR 0x87], [CHR 0xE2, CHR 0x80, CHR 0x88],
      [CHR 0xE2, CHR 0x80, CHR 0x89], [CHR 0xE2, CHR 0x80, CHR 0x8A], [CHR 0xE2, CHR 0x80, CHR 0xA8],
      [CHR 0xE2, CHR 0x80, CHR 0xA9], [CHR 0xE2, CHR 0x80, CHR 0xAF], [CHR 0xE2, CHR 0x81, CHR 0x9F],
      [CHR 0xE3, CHR 0x80, CHR 0x80]]"

text \<open>\<open>strings.TrimSpace\<close>, and \<open>pyStrip\<close> of \<open>internal/store/pyfmt.go\<close>, which also takes the
  separators U+001C to U+001F.\<close>

definition trim_space :: "string \<Rightarrow> string" where
  "trim_space = trim_seqs space_seqs"

definition py_strip :: "string \<Rightarrow> string" where
  "py_strip = trim_seqs (space_seqs @ [[CHR 0x1C], [CHR 0x1D], [CHR 0x1E], [CHR 0x1F]])"

lemma trim_front_id: "strip_one seqs s = None \<Longrightarrow> trim_front seqs s = s"
  by (subst trim_front.simps) simp

lemma trim_front_stops: "strip_one seqs (trim_front seqs s) = None"
proof (induction seqs s rule: trim_front.induct)
  case (1 seqs s)
  then show ?case by (subst trim_front.simps) (auto split: option.splits simp: trim_front_id)
qed

lemma trim_front_suffix: "suffix (trim_front seqs s) s"
proof (induction seqs s rule: trim_front.induct)
  case (1 seqs s)
  show ?case
  proof (cases "strip_one seqs s")
    case None
    then show ?thesis by (simp add: trim_front_id)
  next
    case (Some t)
    with 1 have "suffix (trim_front seqs t) t" by blast
    with strip_one_suffix [OF Some] have "suffix (trim_front seqs t) s" by (blast intro: suffix_order.trans)
    with Some show ?thesis by (subst trim_front.simps) simp
  qed
qed

text \<open>A string whose first and last byte start and end no blank is not changed.\<close>

lemma strip_one_none:
  "s = [] \<or> (\<forall>p \<in> set seqs. p = [] \<or> hd p \<noteq> hd s) \<Longrightarrow> strip_one seqs s = None"
proof -
  assume h: "s = [] \<or> (\<forall>p \<in> set seqs. p = [] \<or> hd p \<noteq> hd s)"
  have "p = [] \<or> take (length p) s \<noteq> p" if "p \<in> set seqs" for p
    using h that by (cases p; cases s) auto
  then show ?thesis by (auto simp: strip_one_def split: option.splits dest!: first_where_Some)
qed

definition plain_char :: "char \<Rightarrow> bool" where
  "plain_char c \<longleftrightarrow> 33 \<le> code_of c \<and> code_of c \<le> 126"

lemma trim_seqs_plain:
  assumes "\<forall>p \<in> set seqs. p = [] \<or> (\<not> plain_char (hd p) \<and> \<not> plain_char (last p))"
    and "\<forall>c \<in> set s. plain_char c"
  shows "trim_seqs seqs s = s"
proof (cases "s = []")
  case True
  then show ?thesis by (simp add: trim_seqs_def trim_front_id strip_one_none)
next
  case False
  then have "plain_char (hd s)" "plain_char (last s)" using assms(2) by auto
  then have "\<forall>p \<in> set seqs. p = [] \<or> hd p \<noteq> hd s" "\<forall>p \<in> set seqs. p = [] \<or> last p \<noteq> last s"
    using assms(1) by metis+
  then have "\<forall>p \<in> set seqs. p = [] \<or> hd p \<noteq> hd s"
    and "\<forall>p \<in> set (map rev seqs). p = [] \<or> hd p \<noteq> hd (rev s)"
    by (simp_all add: hd_rev)
  then have "strip_one seqs s = None" "strip_one (map rev seqs) (rev s) = None"
    by (simp_all add: strip_one_none)
  then show ?thesis by (simp add: trim_seqs_def trim_front_id)
qed

lemma trim_space_plain [gostr]: "\<forall>c \<in> set s. plain_char c \<Longrightarrow> trim_space s = s"
  unfolding trim_space_def by (rule trim_seqs_plain) (auto simp: space_seqs_def plain_char_def)

lemma py_strip_plain [gostr]: "\<forall>c \<in> set s. plain_char c \<Longrightarrow> py_strip s = s"
  unfolding py_strip_def by (rule trim_seqs_plain) (auto simp: space_seqs_def plain_char_def)

end
