(* ===== verification/Yaml.thy ===== *)
theory Yaml
  imports GoStrings "HOL-Library.AList"
begin

text \<open>
  \<open>internal/yamlpy\<close>: the decoded values of a YAML document and the ordered string-keyed mapping
  \<open>Map\<close> (\<open>value.go\<close>), and \<open>Equal\<close> (\<open>check.go\<close>). A mapping is the list of its pairs in insertion
  order; \<open>Set\<close> keeps the keys distinct.
\<close>

section \<open>Values\<close>

datatype yval =
    YNull
  | YBool bool
  | YInt int
  | YFloat "64 word"
  | YStr string
  | YDate int int int
  | YList "yval list"
  | YMap "(string \<times> yval) list"

type_synonym ymap = "(string \<times> yval) list"

definition yget :: "ymap \<Rightarrow> string \<Rightarrow> yval option" where
  "yget m k = map_of m k"

definition yhas :: "ymap \<Rightarrow> string \<Rightarrow> bool" where
  "yhas m k \<longleftrightarrow> yget m k \<noteq> None"

primrec yset :: "ymap \<Rightarrow> string \<Rightarrow> yval \<Rightarrow> ymap" where
  "yset [] k v = [(k, v)]"
| "yset (p # m) k v = (if fst p = k then (k, v) # m else p # yset m k v)"

definition ydel :: "ymap \<Rightarrow> string \<Rightarrow> ymap" where
  "ydel m k = filter (\<lambda>p. fst p \<noteq> k) m"

definition ykeys :: "ymap \<Rightarrow> string list" where
  "ykeys m = map fst m"

text \<open>\<open>NewMap\<close> and the loop of \<open>cloneMap\<close>: pairs set one after the other.\<close>

definition ymake :: "(string \<times> yval) list \<Rightarrow> ymap" where
  "ymake ps = foldl (\<lambda>m p. yset m (fst p) (snd p)) [] ps"

text \<open>The helper \<open>get\<close> of \<open>internal/store\<close>: nil for a missing key; \<open>mapOf\<close>.\<close>

definition yval_at :: "ymap \<Rightarrow> string \<Rightarrow> yval" where
  "yval_at m k = (case yget m k of None \<Rightarrow> YNull | Some v \<Rightarrow> v)"

fun map_of_val :: "yval \<Rightarrow> ymap option" where
  "map_of_val (YMap m) = Some m"
| "map_of_val _ = None"

fun str_of_val :: "yval \<Rightarrow> string option" where
  "str_of_val (YStr s) = Some s"
| "str_of_val _ = None"

fun list_of_val :: "yval \<Rightarrow> yval list option" where
  "list_of_val (YList l) = Some l"
| "list_of_val _ = None"

lemma of_val_Some [simp]:
  "map_of_val v = Some m \<longleftrightarrow> v = YMap m" "str_of_val v = Some s \<longleftrightarrow> v = YStr s" "list_of_val v = Some l \<longleftrightarrow> v = YList l"
  by (cases v; auto)+

section \<open>The laws of ordered mappings\<close>

definition wf_ymap :: "ymap \<Rightarrow> bool" where
  "wf_ymap m \<longleftrightarrow> distinct (ykeys m)"

locale ordered_map =
  fixes ok :: "'m \<Rightarrow> bool"
    and keys :: "'m \<Rightarrow> 'k list"
    and get :: "'m \<Rightarrow> 'k \<Rightarrow> 'v option"
    and put :: "'m \<Rightarrow> 'k \<Rightarrow> 'v \<Rightarrow> 'm"
    and del :: "'m \<Rightarrow> 'k \<Rightarrow> 'm"
  assumes keys_distinct: "ok m \<Longrightarrow> distinct (keys m)"
    and get_dom: "get m k \<noteq> None \<longleftrightarrow> k \<in> set (keys m)"
    and get_put: "get (put m k v) j = (if j = k then Some v else get m j)"
    and get_del: "get (del m k) j = (if j = k then None else get m j)"
    and keys_put: "keys (put m k v) = (if k \<in> set (keys m) then keys m else keys m @ [k])"
    and keys_del: "keys (del m k) = filter (\<lambda>j. j \<noteq> k) (keys m)"
    and ok_put: "ok m \<Longrightarrow> ok (put m k v)"
    and ok_del: "ok m \<Longrightarrow> ok (del m k)"
    and ext: "ok m \<Longrightarrow> ok n \<Longrightarrow> keys m = keys n \<Longrightarrow> (\<And>k. get m k = get n k) \<Longrightarrow> m = n"
begin

lemma put_get: "ok m \<Longrightarrow> get m k = Some v \<Longrightarrow> put m k v = m"
  by (rule ext) (auto simp: ok_put keys_put get_put get_dom [symmetric])

lemma put_put: "ok m \<Longrightarrow> put (put m k v) k w = put m k w"
  by (rule ext) (auto simp: ok_put keys_put get_put)

lemma put_commute: "ok m \<Longrightarrow> j \<noteq> k \<Longrightarrow> j \<in> set (keys m) \<Longrightarrow> put (put m j v) k w = put (put m k w) j v"
  by (rule ext) (auto simp: ok_put keys_put get_put)

lemma del_none: "ok m \<Longrightarrow> get m k = None \<Longrightarrow> del m k = m"
proof (rule ext)
  assume "ok m" "get m k = None"
  then have "k \<notin> set (keys m)" using get_dom [of m k] by simp
  then show "keys (del m k) = keys m" by (auto simp: keys_del filter_id_conv)
qed (auto simp: ok_del get_del)

lemma del_put: "ok m \<Longrightarrow> get m k = None \<Longrightarrow> del (put m k v) k = m"
proof (rule ext)
  assume "ok m" "get m k = None"
  then have "k \<notin> set (keys m)" using get_dom [of m k] by simp
  then show "keys (del (put m k v) k) = keys m" by (auto simp: keys_del keys_put filter_id_conv)
qed (auto simp: ok_del ok_put get_del get_put)

lemma del_put_other: "ok m \<Longrightarrow> j \<noteq> k \<Longrightarrow> del (put m j v) k = put (del m k) j v"
  by (rule ext) (auto simp: ok_del ok_put keys_del keys_put get_del get_put)

lemma keys_put_same: "get m k \<noteq> None \<Longrightarrow> keys (put m k v) = keys m"
  by (simp add: keys_put get_dom [symmetric])

end

lemma yget_Nil [simp]: "yget [] k = None"
  by (simp add: yget_def)

lemma yget_Cons: "yget (p # m) k = (if fst p = k then Some (snd p) else yget m k)"
  by (cases p) (simp add: yget_def)

lemma yget_dom: "yget m k \<noteq> None \<longleftrightarrow> k \<in> set (ykeys m)"
  by (induction m) (auto simp: yget_Cons ykeys_def)

lemma yget_yset [simp]: "yget (yset m k v) j = (if j = k then Some v else yget m j)"
  by (induction m) (auto simp: yget_Cons)

lemma yget_ydel [simp]: "yget (ydel m k) j = (if j = k then None else yget m j)"
  by (induction m) (auto simp: yget_Cons ydel_def)

lemma ykeys_yset: "ykeys (yset m k v) = (if k \<in> set (ykeys m) then ykeys m else ykeys m @ [k])"
  by (induction m) (auto simp: ykeys_def)

lemma ykeys_ydel: "ykeys (ydel m k) = filter (\<lambda>j. j \<noteq> k) (ykeys m)"
  by (induction m) (auto simp: ykeys_def ydel_def)

lemma ymap_ext:
  "wf_ymap m \<Longrightarrow> ykeys m = ykeys n \<Longrightarrow> (\<And>k. yget m k = yget n k) \<Longrightarrow> m = n"
proof (induction m arbitrary: n)
  case Nil
  then show ?case by (simp add: ykeys_def)
next
  case (Cons p m)
  then obtain q n' where n: "n = q # n'" "fst q = fst p" "ykeys m = ykeys n'"
    by (cases n) (auto simp: ykeys_def)
  from Cons.prems(3) [of "fst p"] n have "snd p = snd q" by (simp add: yget_Cons)
  moreover have "yget m k = yget n' k" for k
  proof (cases "k = fst p")
    case True
    with Cons.prems(1) have "k \<notin> set (ykeys m)" by (simp add: wf_ymap_def ykeys_def)
    with n(3) yget_dom show ?thesis by metis
  next
    case False
    with Cons.prems(3) [of k] n show ?thesis by (simp add: yget_Cons)
  qed
  with Cons n have "m = n'" by (simp add: wf_ymap_def ykeys_def)
  ultimately show ?case using n by (simp add: prod_eq_iff)
qed

interpretation ymap: ordered_map wf_ymap ykeys yget yset ydel
proof (unfold_locales, goal_cases)
  case (9 m n)
  then show ?case using ymap_ext by blast
qed (simp_all add: wf_ymap_def yget_dom [simplified] ykeys_yset ykeys_ydel)

lemma wf_yset [simp]: "wf_ymap m \<Longrightarrow> wf_ymap (yset m k v)"
  by (rule ymap.ok_put)

lemma wf_ydel [simp]: "wf_ymap m \<Longrightarrow> wf_ymap (ydel m k)"
  by (rule ymap.ok_del)

lemma wf_Nil [simp]: "wf_ymap []"
  by (simp add: wf_ymap_def ykeys_def)

lemma yval_at_yset [simp]: "yval_at (yset m k v) j = (if j = k then v else yval_at m j)"
  by (simp add: yval_at_def)

lemma yval_at_ydel [simp]: "yval_at (ydel m k) j = (if j = k then YNull else yval_at m j)"
  by (simp add: yval_at_def)

lemma yhas_yset [simp]: "yhas (yset m k v) j \<longleftrightarrow> j = k \<or> yhas m j"
  by (simp add: yhas_def)

lemma yhas_ydel [simp]: "yhas (ydel m k) j \<longleftrightarrow> j \<noteq> k \<and> yhas m j"
  by (simp add: yhas_def)

lemma yhas_keys: "yhas m k \<longleftrightarrow> k \<in> set (ykeys m)"
  unfolding yhas_def by (rule yget_dom)

lemma yget_mem: "wf_ymap m \<Longrightarrow> (k, v) \<in> set m \<longleftrightarrow> yget m k = Some v"
  by (simp add: yget_def wf_ymap_def ykeys_def)

lemma yget_in_set: "yget m k = Some v \<Longrightarrow> (k, v) \<in> set m"
  by (simp add: yget_def map_of_SomeD)

lemma ymake_append: "ymake (ps @ [p]) = yset (ymake ps) (fst p) (snd p)"
  by (simp add: ymake_def)

lemma wf_ymake [simp]: "wf_ymap (ymake ps)"
  by (induction ps rule: rev_induct) (simp_all add: ymake_append, simp add: ymake_def)

lemma yset_append: "k \<notin> set (ykeys m) \<Longrightarrow> yset m k v = m @ [(k, v)]"
  by (induction m) (auto simp: ykeys_def)

lemma foldl_yset_distinct:
  "distinct (ykeys (m @ ps)) \<Longrightarrow> foldl (\<lambda>m p. yset m (fst p) (snd p)) m ps = m @ ps"
proof (induction ps arbitrary: m)
  case Nil
  then show ?case by simp
next
  case (Cons p ps)
  then have "yset m (fst p) (snd p) = m @ [p]" by (intro trans [OF yset_append]) (auto simp: ykeys_def)
  with Cons show ?case by (simp add: ykeys_def)
qed

lemma ymake_distinct: "wf_ymap ps \<Longrightarrow> ymake ps = ps"
  using foldl_yset_distinct [of "[]" ps] by (simp add: ymake_def wf_ymap_def)

text \<open>Changing every value, the keys kept: the loops of the form \<open>for k, v := range m.All()\<close> that
  set \<open>k\<close> again.\<close>

definition ymap_vals :: "(string \<Rightarrow> yval \<Rightarrow> yval) \<Rightarrow> ymap \<Rightarrow> ymap" where
  "ymap_vals f m = map (\<lambda>(k, v). (k, f k v)) m"

lemma ykeys_ymap_vals [simp]: "ykeys (ymap_vals f m) = ykeys m"
  by (auto simp: ykeys_def ymap_vals_def)

lemma wf_ymap_vals [simp]: "wf_ymap (ymap_vals f m) = wf_ymap m"
  by (simp add: wf_ymap_def)

lemma yget_ymap_vals [simp]: "yget (ymap_vals f m) k = map_option (f k) (yget m k)"
  by (induction m) (auto simp: yget_Cons ymap_vals_def yget_def)

lemma yhas_ymap_vals [simp]: "yhas (ymap_vals f m) k = yhas m k"
  by (simp add: yhas_def)

section \<open>\<open>Equal\<close>\<close>

definition max_depth :: nat where
  "max_depth = 64"

definition float_nan :: "64 word \<Rightarrow> bool" where
  "float_nan x \<longleftrightarrow> take_bit 11 (drop_bit 52 x) = 0x7FF \<and> take_bit 52 x \<noteq> 0"

definition leap_year :: "int \<Rightarrow> bool" where
  "leap_year y \<longleftrightarrow> y mod 4 = 0 \<and> (y mod 100 \<noteq> 0 \<or> y mod 400 = 0)"

definition days_in_month :: "int \<Rightarrow> int \<Rightarrow> int" where
  "days_in_month y m =
     (if m = 2 then (if leap_year y then 29 else 28) else if m \<in> {4, 6, 9, 11} then 30 else 31)"

text \<open>A day that \<open>time.Date\<close> does not move to another month.\<close>

definition calendar_day :: "int \<Rightarrow> int \<Rightarrow> int \<Rightarrow> bool" where
  "calendar_day y m d \<longleftrightarrow> 1 \<le> m \<and> m \<le> 12 \<and> 1 \<le> d \<and> d \<le> days_in_month y m"

fun scalar_equal :: "yval \<Rightarrow> yval \<Rightarrow> bool" where
  "scalar_equal YNull YNull = True"
| "scalar_equal (YBool a) (YBool b) = (a = b)"
| "scalar_equal (YInt a) (YInt b) = (a = b)"
| "scalar_equal (YFloat a) (YFloat b) = (a = b \<or> float_nan a \<and> float_nan b)"
| "scalar_equal (YStr a) (YStr b) = (a = b)"
| "scalar_equal (YDate y m d) (YDate y' m' d') =
     (y = y' \<and> m = m' \<and> d = d' \<and> 1 \<le> y \<and> y \<le> 9999 \<and> calendar_day y m d)"
| "scalar_equal _ _ = False"

function equal_at :: "nat \<Rightarrow> yval \<Rightarrow> yval \<Rightarrow> bool" where
  "equal_at d a b =
     (if d > max_depth then False
      else (case a of
              YMap xs \<Rightarrow>
                (case b of
                   YMap ys \<Rightarrow> length xs = length ys \<and>
                     list_all (\<lambda>(p, q). fst p = fst q \<and> equal_at (d + 1) (snd p) (snd q)) (zip xs ys)
                 | _ \<Rightarrow> False)
            | YList xs \<Rightarrow>
                (case b of
                   YList ys \<Rightarrow> length xs = length ys \<and> list_all (\<lambda>(x, y). equal_at (d + 1) x y) (zip xs ys)
                 | _ \<Rightarrow> False)
            | _ \<Rightarrow> scalar_equal a b))"
  by pat_completeness auto
termination
  by (relation "measure (\<lambda>(d, _, _). Suc max_depth - d)") auto

declare equal_at.simps [simp del]

definition yequal :: "yval \<Rightarrow> yval \<Rightarrow> bool" where
  "yequal a b = equal_at 0 a b"

lemma yequal_str [simp]: "yequal (YStr s) v \<longleftrightarrow> v = YStr s" "yequal v (YStr s) \<longleftrightarrow> v = YStr s"
  by (cases v; auto simp: yequal_def equal_at.simps max_depth_def)+

end
