(* ===== verification/Hash.thy ===== *)
theory Hash
  imports GoStrings
begin

text \<open>
  \<open>internal/hash/hash.go\<close>: hex-encoded bcrypt hashes. The bcrypt functions themselves
  (\<open>golang.org/x/crypto/bcrypt\<close>) are parameters: \<open>gen\<close> makes a raw hash, \<open>cmp\<close> compares one with
  a password (\<open>None\<close> for any error but a mismatch).
\<close>

section \<open>Hex\<close>

fun hex_encode :: "string \<Rightarrow> string" where
  "hex_encode [] = []"
| "hex_encode (c # s) = hex_char (code_of c div 16) # hex_char (code_of c mod 16) # hex_encode s"

fun hex_decode :: "string \<Rightarrow> string option" where
  "hex_decode [] = Some []"
| "hex_decode [c] = None"
| "hex_decode (c # d # s) =
     (if is_hex c \<and> is_hex d
      then map_option (\<lambda>t. char_of (hex_digit_val c * 16 + hex_digit_val d) # t) (hex_decode s)
      else None)"

lemma code_div_16: "code_of c div 16 < 16"
  by (rule less_mult_imp_div_less) (use code_of_less [of c] in linarith)

lemma hex_decode_encode [simp]: "hex_decode (hex_encode s) = Some s"
  by (induction s) (use code_div_16 in \<open>simp_all add: code_of_inj [symmetric]\<close>)

lemma hex_decode_hex: "hex_decode s = Some t \<Longrightarrow> list_all is_hex s \<and> length s = 2 * length t"
  by (induction s arbitrary: t rule: hex_decode.induct) (auto split: if_splits)

lemma is_hex_lower: "is_hex c \<Longrightarrow> is_hex (ascii_lower c) \<and> hex_digit_val (ascii_lower c) = hex_digit_val c"
proof -
  assume h: "is_hex c"
  show ?thesis
  proof (cases "is_upper c")
    case False
    then show ?thesis using h by (simp add: ascii_lower_id)
  next
    case True
    with h have "65 \<le> code_of c" "code_of c \<le> 70" by (auto simp: is_hex_def is_digit_def is_upper_def)
    with True show ?thesis by (auto simp: ascii_lower_def is_hex_def is_digit_def hex_digit_val_def)
  qed
qed

lemma hex_decode_lower: "hex_decode s = Some t \<Longrightarrow> hex_decode (map ascii_lower s) = Some t"
  by (induction s arbitrary: t rule: hex_decode.induct) (auto simp: is_hex_lower split: if_splits)

definition lower_hex :: "char \<Rightarrow> bool" where
  "lower_hex c \<longleftrightarrow> is_digit c \<or> (97 \<le> code_of c \<and> code_of c \<le> 102)"

lemma hex_encode_lower: "list_all lower_hex (hex_encode s)"
proof -
  have "lower_hex (hex_char d)" if "d < 16" for d
    using that by (auto simp: lower_hex_def hex_char_def is_digit_def)
  then show ?thesis by (induction s) (simp_all add: code_div_16)
qed

lemma lower_hex_lower: "is_hex c \<Longrightarrow> lower_hex (ascii_lower c)"
  by (auto simp: lower_hex_def is_hex_def ascii_lower_def is_upper_def is_digit_def)

section \<open>The stored form of a hash\<close>

definition disabled_marker_raw :: string where
  "disabled_marker_raw = ''$2b$12$'' @ replicate 53 (CHR ''.'')"

definition disabled_marker_hex :: string where
  "disabled_marker_hex = ''24326224313224'' @ concat (replicate 53 ''2e'')"

definition is_disabled_hash :: "string \<Rightarrow> bool" where
  "is_disabled_hash h \<longleftrightarrow> h = disabled_marker_hex"

definition has_raw_prefix :: "string \<Rightarrow> bool" where
  "has_raw_prefix s \<longleftrightarrow> 4 \<le> length s \<and> s ! 0 = CHR ''$'' \<and> s ! 1 = CHR ''2'' \<and>
     (s ! 2 = CHR ''a'' \<or> s ! 2 = CHR ''b'' \<or> s ! 2 = CHR ''y'') \<and> s ! 3 = CHR ''$''"

definition all_ascii :: "string \<Rightarrow> bool" where
  "all_ascii s \<longleftrightarrow> list_all (\<lambda>c. code_of c < 0x80) s"

definition hash_normalize :: "string \<Rightarrow> string option" where
  "hash_normalize input =
     (if has_raw_prefix input then Some (hex_encode input)
      else case hex_decode input of
        None \<Rightarrow> None
      | Some dec \<Rightarrow>
          if \<not> all_ascii dec then None
          else if \<not> has_raw_prefix dec then None
          else Some (map ascii_lower input))"

definition type_prefix :: "string \<Rightarrow> string" where
  "type_prefix hh =
     (case hex_decode (if length hh > 14 then take 14 hh else hh) of
        None \<Rightarrow> []
      | Some b \<Rightarrow> if all_ascii b then b else [])"

text \<open>\<open>BcryptHexOK\<close> of \<open>internal/store/validate.go\<close>, on a string.\<close>

definition bcrypt_hex_str_ok :: "string \<Rightarrow> bool" where
  "bcrypt_hex_str_ok h =
     (if length h mod 2 \<noteq> 0 \<or> h = [] \<or> \<not> list_all lower_hex h then False
      else case hex_decode h of
        None \<Rightarrow> False
      | Some raw \<Rightarrow> all_ascii raw \<and> has_raw_prefix raw)"

section \<open>Generating and verifying\<close>

definition max_password_bytes :: nat where
  "max_password_bytes = 72"

definition min_cost :: nat where "min_cost = 4"
definition max_cost :: nat where "max_cost = 31"

datatype hash_error = PasswordTooLong | CostOutside nat | BcryptFailed | UnexpectedPrefix string

type_synonym bcrypt_gen = "string \<Rightarrow> nat \<Rightarrow> string option"
type_synonym bcrypt_cmp = "string \<Rightarrow> string \<Rightarrow> bool option"

definition generate_raw :: "bcrypt_gen \<Rightarrow> string \<Rightarrow> nat \<Rightarrow> hash_error + string" where
  "generate_raw gen password cost =
     (if length password > max_password_bytes then Inl PasswordTooLong
      else if cost < min_cost \<or> cost > max_cost then Inl (CostOutside cost)
      else case gen password cost of
        None \<Rightarrow> Inl BcryptFailed
      | Some s \<Rightarrow>
          if take 4 s \<noteq> ''$2a$'' then Inl (UnexpectedPrefix (take 4 s))
          else Inr (''$2b$'' @ drop 4 s))"

definition generate :: "bcrypt_gen \<Rightarrow> string \<Rightarrow> nat \<Rightarrow> hash_error + string" where
  "generate gen password cost =
     (case generate_raw gen password cost of Inl e \<Rightarrow> Inl e | Inr raw \<Rightarrow> Inr (hex_encode raw))"

definition bcrypt_alphabet :: string where
  "bcrypt_alphabet = ''./ABCDEFGHIJKLMNOPQRSTUVWXYZabcdefghijklmnopqrstuvwxyz0123456789''"

definition b64_val :: "char \<Rightarrow> nat" where
  "b64_val c = length (takeWhile (\<lambda>d. d \<noteq> c) bcrypt_alphabet)"

text \<open>Base64 without padding: four characters for three bytes, a rest of two or three characters
  for one or two bytes (the unused low bits of the last character are not looked at).\<close>

fun b64_decode :: "string \<Rightarrow> nat list option" where
  "b64_decode [] = Some []"
| "b64_decode [a] = None"
| "b64_decode [a, b] = Some [b64_val a * 4 + b64_val b div 16]"
| "b64_decode [a, b, c] =
     Some [b64_val a * 4 + b64_val b div 16, (b64_val b mod 16) * 16 + b64_val c div 4]"
| "b64_decode (a # b # c # d # s) =
     map_option (\<lambda>t. (b64_val a * 4 + b64_val b div 16) # ((b64_val b mod 16) * 16 + b64_val c div 4) #
       ((b64_val c mod 4) * 64 + b64_val d) # t) (b64_decode s)"

fun b64_encode :: "nat list \<Rightarrow> string" where
  "b64_encode [] = []"
| "b64_encode [x] = [bcrypt_alphabet ! (x div 4), bcrypt_alphabet ! ((x mod 4) * 16)]"
| "b64_encode [x, y] =
     [bcrypt_alphabet ! (x div 4), bcrypt_alphabet ! ((x mod 4) * 16 + y div 16), bcrypt_alphabet ! ((y mod 16) * 4)]"
| "b64_encode (x # y # z # s) =
     bcrypt_alphabet ! (x div 4) # bcrypt_alphabet ! ((x mod 4) * 16 + y div 16) #
     bcrypt_alphabet ! ((y mod 16) * 4 + z div 64) # bcrypt_alphabet ! (z mod 64) # b64_encode s"

definition salt_chars :: nat where "salt_chars = 22"
definition raw_hash_len :: nat where "raw_hash_len = 60"

definition cost_of :: "string \<Rightarrow> nat" where
  "cost_of h = digit_val (h ! 4) * 10 + digit_val (h ! 5)"

definition parse_salt :: "string \<Rightarrow> nat list option" where
  "parse_salt h =
     (if length h < 7 \<or> h ! 0 \<noteq> CHR ''$'' \<or> h ! 1 \<noteq> CHR ''2'' \<or>
         (h ! 2 \<noteq> CHR ''a'' \<and> h ! 2 \<noteq> CHR ''b'' \<and> h ! 2 \<noteq> CHR ''y'') \<or> h ! 3 \<noteq> CHR ''$'' then None
      else if \<not> is_digit (h ! 4) \<or> \<not> is_digit (h ! 5) \<or> h ! 6 \<noteq> CHR ''$'' then None
      else if cost_of h < min_cost \<or> cost_of h > 31 then None
      else let rest = drop 7 h
           in if length rest < salt_chars then None
              else if \<not> list_all (\<lambda>c. c \<in> set bcrypt_alphabet) (take salt_chars rest) then None
              else case b64_decode (take salt_chars rest) of
                None \<Rightarrow> None
              | Some salt \<Rightarrow> if length salt \<noteq> 16 then None else Some salt)"

datatype verify_result = Match | NoMatch | InvalidHash

definition verify_hash :: "bcrypt_cmp \<Rightarrow> string \<Rightarrow> string \<Rightarrow> verify_result" where
  "verify_hash cmp password hh =
     (case hex_decode hh of
        None \<Rightarrow> InvalidHash
      | Some h \<Rightarrow>
          (case parse_salt h of
             None \<Rightarrow> InvalidHash
           | Some salt \<Rightarrow>
               if length h \<noteq> raw_hash_len \<or> b64_encode salt \<noteq> take salt_chars (drop 7 h) then NoMatch
               else let pw = (if length password > max_password_bytes then take max_password_bytes password else password)
                    in (case cmp h pw of Some True \<Rightarrow> Match | Some False \<Rightarrow> NoMatch | None \<Rightarrow> InvalidHash)))"

definition max_verify_cost :: nat where "max_verify_cost = 16"

definition verify_cost_error :: "string \<Rightarrow> nat option" where
  "verify_cost_error hh =
     (case hex_decode hh of
        None \<Rightarrow> None
      | Some h \<Rightarrow>
          (case parse_salt h of
             None \<Rightarrow> None
           | Some _ \<Rightarrow> if cost_of h > max_verify_cost then Some (cost_of h) else None))"

section \<open>What it promises\<close>

lemma disabled_marker: "hex_encode disabled_marker_raw = disabled_marker_hex"
  by code_simp

lemma lower_hex_lower_id: "lower_hex c \<Longrightarrow> ascii_lower c = c"
  by (auto simp: lower_hex_def ascii_lower_def is_upper_def is_digit_def)

lemma map_lower_hex_id: "list_all lower_hex s \<Longrightarrow> map ascii_lower s = s"
  by (induction s) (simp_all add: lower_hex_lower_id)

lemma not_raw_hex: "list_all is_hex s \<Longrightarrow> \<not> has_raw_prefix s"
  by (cases s) (auto simp: has_raw_prefix_def is_hex_def is_digit_def)

lemma lower_hex_is_hex: "lower_hex c \<Longrightarrow> is_hex c"
  by (auto simp: lower_hex_def is_hex_def)

lemma bcrypt_hex_fix: "bcrypt_hex_str_ok h \<Longrightarrow> hash_normalize h = Some h"
proof -
  assume h: "bcrypt_hex_str_ok h"
  then have l: "list_all lower_hex h" by (auto simp: bcrypt_hex_str_ok_def split: if_splits)
  then have "list_all is_hex h" by (auto simp: list_all_iff lower_hex_is_hex)
  then have "\<not> has_raw_prefix h" by (rule not_raw_hex)
  with h l show ?thesis
    by (auto simp: bcrypt_hex_str_ok_def hash_normalize_def map_lower_hex_id split: if_splits option.splits)
qed

lemma bcrypt_hexI:
  assumes "list_all lower_hex h" "hex_decode h = Some raw" "all_ascii raw" "has_raw_prefix raw"
  shows "bcrypt_hex_str_ok h"
proof -
  have "length h = 2 * length raw" using hex_decode_hex [OF assms(2)] by simp
  moreover have "h \<noteq> []" using assms(2,4) by (auto simp: has_raw_prefix_def)
  ultimately show ?thesis using assms by (simp add: bcrypt_hex_str_ok_def)
qed

text \<open>
  A hash that \<open>Normalize\<close> accepts is, if its text is ASCII, in the one stored form the validator
  takes: lower-case hex of a bcrypt text; normalising the stored form changes nothing.
\<close>

theorem normalized_hash_is_stored_form:
  assumes "hash_normalize input = Some h" "all_ascii input"
  shows "bcrypt_hex_str_ok h \<and> hash_normalize h = Some h"
proof -
  have "bcrypt_hex_str_ok h"
  proof (cases "has_raw_prefix input")
    case True
    with assms have "h = hex_encode input" by (simp add: hash_normalize_def)
    with True assms(2) show ?thesis by (intro bcrypt_hexI [of h input]) (simp_all add: hex_encode_lower)
  next
    case False
    with assms(1) obtain dec where d: "hex_decode input = Some dec" "all_ascii dec" "has_raw_prefix dec"
      "h = map ascii_lower input"
      by (auto simp: hash_normalize_def split: option.splits if_splits)
    have "list_all lower_hex h"
      using hex_decode_hex [OF d(1)] lower_hex_lower by (auto simp: d(4) list_all_iff)
    with d hex_decode_lower [OF d(1)] show ?thesis by (intro bcrypt_hexI [of h dec]) simp_all
  qed
  then show ?thesis by (simp add: bcrypt_hex_fix)
qed

theorem normalized_hash_is_stored_form_witness: "bcrypt_hex_str_ok ''24326224''"
proof -
  have "hash_normalize ''$2b$'' = Some ''24326224''" "all_ascii ''$2b$''" by code_simp+
  then show ?thesis using normalized_hash_is_stored_form by blast
qed

text \<open>
  A generated hash verifies, provided bcrypt returns a 60-character hash of the documented form
  with a canonical salt and accepts it again under the \<open>$2b$\<close> prefix.
\<close>

theorem generated_hash_verifies:
  assumes "generate gen pw cost = Inr hh" "gen pw cost = Some raw"
    and "length raw = raw_hash_len" "parse_salt (''$2b$'' @ drop 4 raw) = Some salt"
    and "b64_encode salt = take salt_chars (drop 7 raw)" "cmp (''$2b$'' @ drop 4 raw) pw = Some True"
  shows "verify_hash cmp pw hh = Match \<and> is_disabled_hash hh = (''$2b$'' @ drop 4 raw = disabled_marker_raw)"
proof -
  have len: "length pw \<le> max_password_bytes" and hh: "hh = hex_encode (''$2b$'' @ drop 4 raw)"
    using assms(1,2) by (auto simp: generate_def generate_raw_def split: if_splits)
  have "verify_hash cmp pw hh = Match"
    unfolding verify_hash_def hh hex_decode_encode option.case assms(4)
    using assms(3,5,6) len by (simp add: raw_hash_len_def)
  moreover have "hex_encode a = hex_encode b \<longleftrightarrow> a = b" for a b using hex_decode_encode by (metis option.inject)
  then have "is_disabled_hash hh = (''$2b$'' @ drop 4 raw = disabled_marker_raw)"
    unfolding hh is_disabled_hash_def disabled_marker [symmetric] .
  ultimately show ?thesis by blast
qed

theorem generated_hash_verifies_witness:
  "verify_hash (\<lambda>h p. Some (p = ''pw'')) ''pw'' (hex_encode (''$2b$12$'' @ replicate 53 (CHR ''.''))) = Match"
proof -
  let ?raw = "''$2a$12$'' @ replicate 53 (CHR ''.'')"
  let ?gen = "\<lambda>p c. Some ?raw"
  have 1: "generate ?gen ''pw'' 12 = Inr (hex_encode (''$2b$12$'' @ replicate 53 (CHR ''.'')))"
    by (simp add: generate_def generate_raw_def max_password_bytes_def min_cost_def max_cost_def)
  have 2: "parse_salt (''$2b$'' @ drop 4 ?raw) = Some (replicate 16 0)" by code_simp
  have 3: "b64_encode (replicate 16 0) = take salt_chars (drop 7 ?raw)" by code_simp
  show ?thesis
    using generated_hash_verifies [OF 1 refl _ 2 3, of "\<lambda>h p. Some (p = ''pw'')"] by (simp add: raw_hash_len_def)
qed



end
