(* ===== verification/Names.thy ===== *)
theory Names
  imports GoStrings
begin

text \<open>
  \<open>internal/names\<close>: the validators of names and short strings. A pattern of the package is anchored
  and ASCII, so it is a predicate on bytes. A refusal is a value of \<open>name_error\<close>, one constructor
  per message with the values the message shows.
\<close>

datatype name_error =
    InvalidName | InvalidNameShown string
  | UsernameShape
  | ReservedRoot | ReservedTacquito
  | GroupNameShape
  | InvalidScopeName string
  | AclEmpty | AclTooLong nat | AclInvalid string
  | CommandInvalid string
  | PrivEmpty | PrivBlankEnds string | PrivInvalid string | PrivTooLong nat
  | NotLower string
  | UnknownPrivMode string string
  | NotAnEmail

section \<open>Runes\<close>

definition cont_byte :: "char \<Rightarrow> bool" where
  "cont_byte c \<longleftrightarrow> 0x80 \<le> code_of c \<and> code_of c \<le> 0xBF"

text \<open>The range of the second byte of a sequence, by its first byte.\<close>

definition second_ok :: "nat \<Rightarrow> nat \<Rightarrow> bool" where
  "second_ok b0 b1 \<longleftrightarrow>
     (if b0 = 0xE0 then 0xA0 \<le> b1 \<and> b1 \<le> 0xBF
      else if b0 = 0xED then 0x80 \<le> b1 \<and> b1 \<le> 0x9F
      else if b0 = 0xF0 then 0x90 \<le> b1 \<and> b1 \<le> 0xBF
      else if b0 = 0xF4 then 0x80 \<le> b1 \<and> b1 \<le> 0x8F
      else 0x80 \<le> b1 \<and> b1 \<le> 0xBF)"

text \<open>\<open>utf8.DecodeRuneInString\<close> of a non-empty string: the rune and its width, (U+FFFD, 1) for a
  byte that starts no valid sequence.\<close>

definition decode_rune :: "string \<Rightarrow> nat \<times> nat" where
  "decode_rune s =
     (let b = (\<lambda>i. code_of (s ! i)); n = length s
      in if n = 0 then (0xFFFD, 0)
         else if b 0 < 0x80 then (b 0, 1)
         else if 0xC2 \<le> b 0 \<and> b 0 \<le> 0xDF \<and> 2 \<le> n \<and> cont_byte (s ! 1)
           then ((b 0 - 0xC0) * 64 + (b 1 - 0x80), 2)
         else if 0xE0 \<le> b 0 \<and> b 0 \<le> 0xEF \<and> 3 \<le> n \<and> second_ok (b 0) (b 1) \<and> cont_byte (s ! 2)
           then ((b 0 - 0xE0) * 4096 + (b 1 - 0x80) * 64 + (b 2 - 0x80), 3)
         else if 0xF0 \<le> b 0 \<and> b 0 \<le> 0xF4 \<and> 4 \<le> n \<and> second_ok (b 0) (b 1) \<and> cont_byte (s ! 2) \<and> cont_byte (s ! 3)
           then ((b 0 - 0xF0) * 262144 + (b 1 - 0x80) * 4096 + (b 2 - 0x80) * 64 + (b 3 - 0x80), 4)
         else (0xFFFD, 1))"

lemma decode_rune_width: "s \<noteq> [] \<Longrightarrow> 0 < snd (decode_rune s)"
  by (simp add: decode_rune_def Let_def)

text \<open>\<open>range s\<close>.\<close>

function runes_of :: "string \<Rightarrow> nat list" where
  "runes_of s =
     (if s = [] then [] else let (r, w) = decode_rune s in r # runes_of (drop w s))"
  by pat_completeness auto
termination
proof (relation "measure length", goal_cases)
  case (2 s x xa y)
  then show ?case using decode_rune_width [of s] by (cases s) (auto simp: prod_eq_iff)
qed simp_all

declare runes_of.simps [simp del]

lemma runes_of_Nil [simp]: "runes_of [] = []"
  by (simp add: runes_of.simps)

lemma runes_of_ascii: "code_of c < 0x80 \<Longrightarrow> runes_of (c # s) = code_of c # runes_of s"
  by (subst runes_of.simps) (simp add: decode_rune_def Let_def)

lemma runes_of_all_ascii: "list_all (\<lambda>c. code_of c < 0x80) s \<Longrightarrow> runes_of s = map code_of s"
  by (induction s) (simp_all add: runes_of_ascii)

definition rune_count :: "string \<Rightarrow> nat" where
  "rune_count s = length (runes_of s)"

text \<open>\<open>isShellSpace\<close>: the runes of \<open>unicode.IsSpace\<close> without U+0085, U+00A0, U+2007 and U+202F, by
  their encodings.\<close>

definition shell_space_seqs :: "string list" where
  "shell_space_seqs =
     filter (\<lambda>p. p \<notin> {[CHR 0xC2, CHR 0x85], [CHR 0xC2, CHR 0xA0], [CHR 0xE2, CHR 0x80, CHR 0x87],
                       [CHR 0xE2, CHR 0x80, CHR 0xAF]}) space_seqs"

definition starts_shell_space :: "string \<Rightarrow> bool" where
  "starts_shell_space s \<longleftrightarrow> strip_one shell_space_seqs s \<noteq> None"

definition ends_shell_space :: "string \<Rightarrow> bool" where
  "ends_shell_space s \<longleftrightarrow> strip_one (map rev shell_space_seqs) (rev s) \<noteq> None"

section \<open>The name patterns\<close>

definition match_user :: "string \<Rightarrow> bool" where
  "match_user s \<longleftrightarrow> s \<noteq> [] \<and> list_all is_word s"

definition match_group :: "string \<Rightarrow> bool" where
  "match_group s \<longleftrightarrow> s \<noteq> [] \<and> is_lower (hd s) \<and>
     list_all (\<lambda>c. is_lower c \<or> is_digit c \<or> c = CHR ''_'' \<or> c = CHR ''-'') (tl s)"

definition match_scope :: "string \<Rightarrow> bool" where
  "match_scope s \<longleftrightarrow> s \<noteq> [] \<and> is_letter (hd s) \<and> list_all is_word (tl s) \<and> length s \<le> 32"

definition match_class :: "string \<Rightarrow> bool" where
  "match_class s \<longleftrightarrow> s \<noteq> [] \<and> list_all is_word s"

definition match_acl :: "string \<Rightarrow> bool" where
  "match_acl s \<longleftrightarrow> s \<noteq> [] \<and> is_letter (hd s) \<and> list_all is_word (tl s)"

definition match_cmd :: "string \<Rightarrow> bool" where
  "match_cmd s \<longleftrightarrow> s \<noteq> [] \<and> is_letter (hd s) \<and> list_all is_word (tl s) \<and> length s \<le> 32"

definition match_priv :: "string \<Rightarrow> bool" where
  "match_priv s \<longleftrightarrow> 2 \<le> length s \<and> is_letter (hd s) \<and> list_all (\<lambda>c. is_word c \<or> c = CHR '' '') (tl s)"

definition match_break_glass :: "string \<Rightarrow> bool" where
  "match_break_glass s \<longleftrightarrow> s \<noteq> [] \<and> is_letter (hd s) \<and> list_all is_word (tl s) \<and> length s \<le> 32"

definition match_server_name :: "string \<Rightarrow> bool" where
  "match_server_name s \<longleftrightarrow> s \<noteq> [] \<and> is_lower (hd s) \<and>
     (length s = 1 \<or>
      length s \<le> 63 \<and> list_all (\<lambda>c. is_lower c \<or> is_digit c \<or> c = CHR ''-'') (butlast (tl s)) \<and>
      (is_lower (last s) \<or> is_digit (last s)))"

definition has_upper :: "string \<Rightarrow> bool" where
  "has_upper s \<longleftrightarrow> list_ex is_upper s"

definition require_lower :: "string \<Rightarrow> name_error option" where
  "require_lower name = (if has_upper name then Some (NotLower name) else None)"

definition validate_class_name :: "string \<Rightarrow> name_error option" where
  "validate_class_name v =
     (if \<not> match_class v then
        (if CHR ''@'' \<in> set v then Some InvalidName else Some (InvalidNameShown v))
      else None)"

definition validate_username :: "string \<Rightarrow> name_error option" where
  "validate_username v = (if \<not> match_user v then Some UsernameShape else None)"

definition reject_reserved_username :: "string \<Rightarrow> name_error option" where
  "reject_reserved_username v =
     (if v = ''root'' then Some ReservedRoot else if v = ''tacquito'' then Some ReservedTacquito else None)"

definition validate_group_name :: "string \<Rightarrow> name_error option" where
  "validate_group_name v = (if \<not> match_group v then Some GroupNameShape else None)"

definition validate_scope_name :: "string \<Rightarrow> name_error option" where
  "validate_scope_name v = (if \<not> match_scope v then Some (InvalidScopeName v) else None)"

definition validate_acl_name :: "string \<Rightarrow> name_error option" where
  "validate_acl_name v =
     (if v = [] then Some AclEmpty
      else if rune_count v > 63 then Some (AclTooLong (rune_count v))
      else if \<not> match_acl v then Some (AclInvalid v)
      else None)"

definition validate_command_name :: "string \<Rightarrow> name_error option" where
  "validate_command_name v = (if v = ''*'' \<or> match_cmd v then None else Some (CommandInvalid v))"

definition validate_priv_command_string :: "string \<Rightarrow> name_error option" where
  "validate_priv_command_string cmd =
     (if cmd = [] then Some PrivEmpty
      else if starts_shell_space cmd \<or> ends_shell_space cmd then Some (PrivBlankEnds cmd)
      else if \<not> match_priv cmd then Some (PrivInvalid cmd)
      else if rune_count cmd > 64 then Some (PrivTooLong (rune_count cmd))
      else None)"

datatype server_name_problem = RemovesTheName | HasUpperCase | LongerThan63 | NotAServerName

definition server_name_problem_of :: "string \<Rightarrow> server_name_problem option" where
  "server_name_problem_of s =
     (if s = ''unset'' then Some RemovesTheName
      else if has_upper s then Some HasUpperCase
      else if length s > 63 then Some LongerThan63
      else if \<not> match_server_name s then Some NotAServerName
      else None)"

section \<open>Command rules that never match\<close>

text \<open>\<open>isPySpace\<close> of the first rune, or the two characters of an escaped \<open>s\<close> class.\<close>

definition py_space_seqs :: "string list" where
  "py_space_seqs = space_seqs @ [[CHR 0x1C], [CHR 0x1D], [CHR 0x1E], [CHR 0x1F]]"

definition has_prefix :: "string \<Rightarrow> string \<Rightarrow> bool" where
  "has_prefix s p \<longleftrightarrow> take (length p) s = p"

definition starts_space :: "string \<Rightarrow> bool" where
  "starts_space s \<longleftrightarrow> s \<noteq> [] \<and> (strip_one py_space_seqs s \<noteq> None \<or> has_prefix s [CHR 0x5C, CHR ''s''])"

definition command_match_is_dead :: "string \<Rightarrow> string \<Rightarrow> bool" where
  "command_match_is_dead name rx =
     (if name = ''*'' then False
      else let body = (if has_prefix rx ''^'' then drop 1 rx else rx)
           in if \<not> has_prefix body name then False
              else let t = drop (length name) body
                   in if starts_space t \<or> has_prefix t ''$'' then True
                      else if has_prefix t ''('' then
                        (let u = drop 1 t
                         in starts_space u \<or> (has_prefix u ''?:'' \<and> starts_space (drop 2 u)))
                      else False)"

end
