(* ===== verification/NameFormats.thy ===== *)
theory NameFormats
  imports Names
begin

text \<open>
  The structured strings of \<open>internal/names\<close>: privilege entries (\<open>privmode.go\<close>), email addresses
  (\<open>email.go\<close>), the limits of the stored reports (\<open>report_limits.go\<close>) and SNMP words (\<open>snmp.go\<close>).
\<close>

section \<open>Privilege entries\<close>

text \<open>\<open>strings.Fields\<close>: the maximal runs without a Unicode space.\<close>

function fields_from :: "string \<Rightarrow> string \<Rightarrow> string list" where
  "fields_from cur s =
     (case strip_one space_seqs s of
        Some t \<Rightarrow> (if cur = [] then [] else [cur]) @ fields_from [] t
      | None \<Rightarrow> (case s of [] \<Rightarrow> (if cur = [] then [] else [cur]) | c # t \<Rightarrow> fields_from (cur @ [c]) t))"
  by pat_completeness auto
termination
  by (relation "measure (\<lambda>(_, s). length s)") (auto dest: strip_one_shorter)

declare fields_from.simps [simp del]

definition go_fields :: "string \<Rightarrow> string list" where
  "go_fields s = fields_from [] s"

definition priv_modes :: "string list" where
  "priv_modes = [''exec'', ''exec all'', ''configure'', ''configure all'']"

definition split_priv_entry :: "string \<Rightarrow> string \<times> string \<times> bool" where
  "split_priv_entry entry =
     (case cut_at (CHR '':'') entry of
        (pfx, rest, found) \<Rightarrow>
          if \<not> found then (''exec'', entry, True)
          else let mode = join '' '' (go_fields pfx)
               in if mode \<in> set priv_modes then (mode, trim_space rest, True)
                  else (trim_space pfx, trim_space rest, False))"

definition priv_entry :: "string \<Rightarrow> string \<Rightarrow> string" where
  "priv_entry mode cmd = (if mode = ''exec'' then cmd else mode @ '': '' @ cmd)"

definition validate_priv_entry :: "string \<Rightarrow> name_error + string" where
  "validate_priv_entry entry =
     (case split_priv_entry entry of
        (mode, cmd, ok) \<Rightarrow>
          if \<not> ok then Inl (UnknownPrivMode mode entry)
          else case validate_priv_command_string cmd of
            Some e \<Rightarrow> Inl e
          | None \<Rightarrow> Inr (priv_entry mode cmd))"

section \<open>Email addresses\<close>

text \<open>
  What the code takes from Go's Unicode tables: which runes from U+0080 on are printable and neither
  a space, a control nor a format character, and the lower case of a string that is not ASCII.
\<close>

record unicode =
  u_plain :: "nat \<Rightarrow> bool"
  u_lower :: "string \<Rightarrow> string"

definition ascii_string :: "string \<Rightarrow> bool" where
  "ascii_string s \<longleftrightarrow> list_all (\<lambda>c. code_of c < 0x80) s"

definition to_lower :: "unicode \<Rightarrow> string \<Rightarrow> string" where
  "to_lower U s = (if ascii_string s then map ascii_lower s else u_lower U s)"

definition email_rune :: "unicode \<Rightarrow> nat \<Rightarrow> bool" where
  "email_rune U r \<longleftrightarrow>
     (if r < 0x80 then 0x20 < r \<and> r < 0x7F \<and> r \<notin> {0x3C, 0x3E, 0x22, 0x27} else u_plain U r)"

definition email_max :: nat where
  "email_max = 254"

definition match_email :: "unicode \<Rightarrow> string \<Rightarrow> bool" where
  "match_email U s =
     (if s = [] \<or> length s > email_max \<or> hd s = CHR ''-'' \<or> length (filter (\<lambda>c. c = CHR ''@'') s) \<noteq> 1 then False
      else if list_ex (\<lambda>r. \<not> email_rune U r) (runes_of s) then False
      else case cut_at (CHR ''@'') s of
        (lcl, domain, _) \<Rightarrow>
          if lcl = [] \<or> CHR ''.'' \<notin> set domain then False
          else \<not> list_ex (\<lambda>label. label = []) (split_on (CHR ''.'') domain))"

definition validate_email :: "unicode \<Rightarrow> string \<Rightarrow> name_error option" where
  "validate_email U v = (if \<not> match_email U v then Some NotAnEmail else None)"

definition email_key :: "unicode \<Rightarrow> string \<Rightarrow> string" where
  "email_key U s = to_lower U s"

definition same_email :: "unicode \<Rightarrow> string \<Rightarrow> string \<Rightarrow> bool" where
  "same_email U a b \<longleftrightarrow> email_key U a = email_key U b"

section \<open>Limits of the stored reports\<close>

definition report_max_size_cap :: int where
  "report_max_size_cap = 2 ^ 30"

definition report_max_count_cap :: int where
  "report_max_count_cap = 100000"

datatype limit_error = NotASize string | OverSize string | NotACount string | OverCount string

definition cut_suffix :: "string \<Rightarrow> string \<Rightarrow> string option" where
  "cut_suffix s suf =
     (if length suf \<le> length s \<and> drop (length s - length suf) s = suf
      then Some (take (length s - length suf) s) else None)"

definition size_digits :: "string \<Rightarrow> string \<times> int" where
  "size_digits s =
     (case cut_suffix s ''Ki'' of Some d \<Rightarrow> (d, 2 ^ 10) | None \<Rightarrow>
     (case cut_suffix s ''Mi'' of Some d \<Rightarrow> (d, 2 ^ 20) | None \<Rightarrow>
     (case cut_suffix s ''Gi'' of Some d \<Rightarrow> (d, 2 ^ 30) | None \<Rightarrow> (s, 1))))"

text \<open>\<open>strconv.ParseInt(s, 10, 64)\<close> of a string of digits: an error above the largest 64-bit value.\<close>

definition parse_int64 :: "string \<Rightarrow> int option" where
  "parse_int64 s = (if int (dec_val s) \<ge> 2 ^ 63 then None else Some (int (dec_val s)))"

text \<open>\<open>strconv.Atoi\<close>.\<close>

definition go_atoi :: "string \<Rightarrow> int option" where
  "go_atoi s =
     (let neg = has_prefix s ''-''; ds = (if neg \<or> has_prefix s ''+'' then drop 1 s else s);
          n = (if neg then - int (dec_val ds) else int (dec_val ds))
      in if ds = [] \<or> \<not> list_all is_digit ds \<or> n < - (2 ^ 63) \<or> n \<ge> 2 ^ 63 then None else Some n)"

definition parse_report_size :: "string \<Rightarrow> limit_error + int" where
  "parse_report_size s =
     (case size_digits s of
        (digits, unit) \<Rightarrow>
          if digits = [] \<or> \<not> list_all is_digit digits then Inl (NotASize s)
          else case parse_int64 digits of
            None \<Rightarrow> Inl (NotASize s)
          | Some n \<Rightarrow> if n > report_max_size_cap div unit then Inl (OverSize s) else Inr (n * unit))"

definition parse_report_count :: "string \<Rightarrow> limit_error + int" where
  "parse_report_count s =
     (if s = [] \<or> \<not> list_all is_digit s then Inl (NotACount s)
      else case parse_int64 s of
        None \<Rightarrow> Inl (OverCount s)
      | Some n \<Rightarrow> if n > report_max_count_cap then Inl (OverCount s) else Inr n)"

definition format_report_size :: "int \<Rightarrow> string" where
  "format_report_size n =
     (if n \<le> 0 then ''no cap''
      else if n mod 2 ^ 30 = 0 then itoa (nat (n div 2 ^ 30)) @ '' GiB''
      else if n mod 2 ^ 20 = 0 then itoa (nat (n div 2 ^ 20)) @ '' MiB''
      else if n mod 2 ^ 10 = 0 then itoa (nat (n div 2 ^ 10)) @ '' KiB''
      else if n = 1 then ''1 byte''
      else itoa (nat n) @ '' bytes'')"

definition format_report_count :: "int \<Rightarrow> string" where
  "format_report_count n =
     (if n \<le> 0 then ''no cap'' else itoa (nat n) @ '' '' @ (if n = 1 then ''report'' else ''reports''))"

section \<open>SNMP words\<close>

definition is_tacctl_snmp_name :: "string \<Rightarrow> bool" where
  "is_tacctl_snmp_name s \<longleftrightarrow> s = ''TACCTL-SNMP'' \<or> s = ''TACCTL-VIEW'' \<or> s = ''TACCTL-GROUP''"

datatype snmp_token_problem = TokenTooLong nat | HoldsBlank | HoldsQuestionMark | HoldsQuote | NotPrintableAscii

definition snmp_byte_problem :: "char \<Rightarrow> snmp_token_problem option" where
  "snmp_byte_problem c =
     (if c = CHR '' '' \<or> c = CHR 0x09 then Some HoldsBlank
      else if c = CHR ''?'' then Some HoldsQuestionMark
      else if c = CHR 0x22 then Some HoldsQuote
      else if code_of c < 0x21 \<or> code_of c > 0x7E then Some NotPrintableAscii
      else None)"

fun first_problem :: "('a \<Rightarrow> 'p option) \<Rightarrow> 'a list \<Rightarrow> 'p option" where
  "first_problem f [] = None"
| "first_problem f (x # xs) = (case f x of None \<Rightarrow> first_problem f xs | Some p \<Rightarrow> Some p)"

definition snmp_token_problem_of :: "string \<Rightarrow> nat \<Rightarrow> snmp_token_problem option" where
  "snmp_token_problem_of s mx =
     (if length s > mx then Some (TokenTooLong mx) else first_problem snmp_byte_problem s)"

lemma first_problem_None: "first_problem f xs = None \<longleftrightarrow> (\<forall>x \<in> set xs. f x = None)"
  by (induction xs) (auto split: option.splits)

section \<open>What they promise\<close>

lemma is_word_plain: "is_word c \<Longrightarrow> plain_char c"
  by (auto simp: is_word_def is_letter_def is_lower_def is_upper_def is_digit_def plain_char_def)

lemma trim_seqs_ends:
  assumes "\<forall>p \<in> set seqs. p = [] \<or> (\<not> plain_char (hd p) \<and> \<not> plain_char (last p))"
    and "s \<noteq> []" "plain_char (hd s)" "plain_char (last s)"
  shows "strip_one seqs s = None \<and> strip_one (map rev seqs) (rev s) = None"
proof -
  have "\<forall>p \<in> set seqs. p = [] \<or> hd p \<noteq> hd s" "\<forall>p \<in> set seqs. p = [] \<or> last p \<noteq> last s"
    using assms by metis+
  then have "\<forall>p \<in> set seqs. p = [] \<or> hd p \<noteq> hd s"
    and "\<forall>p \<in> set (map rev seqs). p = [] \<or> hd p \<noteq> hd (rev s)"
    by (auto simp: hd_rev)
  then show ?thesis by (simp add: strip_one_none)
qed

lemma space_seqs_blank: "\<forall>p \<in> set space_seqs. p = [] \<or> (\<not> plain_char (hd p) \<and> \<not> plain_char (last p))"
  by (auto simp: space_seqs_def plain_char_def)

lemma trim_space_led:
  assumes "s \<noteq> []" "plain_char (hd s)" "plain_char (last s)"
  shows "trim_space ('' '' @ s) = s" "trim_space s = s"
proof -
  note e = trim_seqs_ends [OF space_seqs_blank assms]
  have "strip_one space_seqs ('' '' @ s) = Some s" by (simp add: strip_one_def space_seqs_def)
  then have "trim_front space_seqs ('' '' @ s) = trim_front space_seqs s"
    by (subst trim_front.simps) simp
  then show "trim_space ('' '' @ s) = s" using e by (simp add: trim_space_def trim_seqs_def trim_front_id)
  show "trim_space s = s" using e by (simp add: trim_space_def trim_seqs_def trim_front_id)
qed

lemma shell_space_blank: "[CHR '' ''] \<in> set shell_space_seqs"
  by code_simp

lemma strip_one_SomeI: "p \<in> set seqs \<Longrightarrow> p \<noteq> [] \<Longrightarrow> take (length p) s = p \<Longrightarrow> strip_one seqs s \<noteq> None"
  by (auto simp: strip_one_def split: option.splits)

lemma valid_priv_command:
  assumes "validate_priv_command_string cmd = None"
  shows "cmd \<noteq> []" "plain_char (hd cmd)" "plain_char (last cmd)" "CHR '':'' \<notin> set cmd" "match_priv cmd"
proof -
  from assms show m: "cmd \<noteq> []" "match_priv cmd"
    by (auto simp: validate_priv_command_string_def split: if_splits)
  then obtain c t where c: "cmd = c # t" "is_letter c" "list_all (\<lambda>c. is_word c \<or> c = CHR '' '') t"
    by (cases cmd) (auto simp: match_priv_def)
  then show "plain_char (hd cmd)" by (simp add: is_word_plain is_word_def)
  have w: "\<forall>x \<in> set cmd. is_word x \<or> x = CHR '' ''" using c by (auto simp: list_all_iff is_word_def)
  then show "CHR '':'' \<notin> set cmd"
    by (auto simp: is_word_def is_letter_def is_lower_def is_upper_def is_digit_def)
  have "last cmd \<noteq> CHR '' ''"
  proof
    assume "last cmd = CHR '' ''"
    then have "take (length [CHR '' '']) (rev cmd) = [CHR '' '']" using m(1) by (cases cmd rule: rev_cases) auto
    moreover have "[CHR '' ''] \<in> set (map rev shell_space_seqs)" using shell_space_blank by force
    ultimately have "ends_shell_space cmd" unfolding ends_shell_space_def by (intro strip_one_SomeI) auto
    with assms m show False by (auto simp: validate_priv_command_string_def split: if_splits)
  qed
  with w last_in_set [OF m(1)] show "plain_char (last cmd)" by (auto intro: is_word_plain)
qed

lemma fields_modes: "mode \<in> set priv_modes \<Longrightarrow> join '' '' (go_fields mode) = mode"
proof -
  have "join '' '' (go_fields ''exec'') = ''exec''" "join '' '' (go_fields ''exec all'') = ''exec all''"
    "join '' '' (go_fields ''configure'') = ''configure''" "join '' '' (go_fields ''configure all'') = ''configure all''"
    by code_simp+
  then show "mode \<in> set priv_modes \<Longrightarrow> join '' '' (go_fields mode) = mode" by (auto simp: priv_modes_def)
qed

lemma split_priv_entry_stored:
  assumes "mode \<in> set priv_modes" "validate_priv_command_string cmd = None"
  shows "split_priv_entry (priv_entry mode cmd) = (mode, cmd, True)"
proof (cases "mode = ''exec''")
  case True
  with valid_priv_command(4) [OF assms(2)] show ?thesis
    by (simp add: split_priv_entry_def priv_entry_def cut_at_none)
next
  case False
  have "CHR '':'' \<notin> set mode" using assms(1) by (auto simp: priv_modes_def)
  then have "cut_at (CHR '':'') (mode @ CHR '':'' # CHR '' '' # cmd) = (mode, CHR '' '' # cmd, True)"
    by (rule cut_at_found)
  with False assms(1) trim_space_led(1) [of cmd] valid_priv_command [OF assms(2)] show ?thesis
    by (simp add: split_priv_entry_def priv_entry_def fields_modes)
qed

text \<open>
  An accepted privilege entry is stored as a known mode and a valid command, and the stored form
  splits into exactly that mode and command and is itself accepted unchanged.
\<close>

theorem priv_entry_stored_form:
  assumes "validate_priv_entry entry = Inr stored"
  shows "\<exists>mode cmd. mode \<in> set priv_modes \<and> validate_priv_command_string cmd = None \<and>
    stored = priv_entry mode cmd \<and> split_priv_entry stored = (mode, cmd, True) \<and>
    validate_priv_entry stored = Inr stored"
proof -
  obtain mode cmd ok where sp: "split_priv_entry entry = (mode, cmd, ok)" by (cases "split_priv_entry entry") auto
  with assms have ok: "ok" "validate_priv_command_string cmd = None" "stored = priv_entry mode cmd"
    by (auto simp: validate_priv_entry_def split: if_splits option.splits)
  with sp have mode: "mode \<in> set priv_modes"
    by (auto simp: split_priv_entry_def Let_def priv_modes_def split: prod.splits if_splits)
  have st: "split_priv_entry stored = (mode, cmd, True)"
    unfolding ok(3) using mode ok(2) by (rule split_priv_entry_stored)
  then have "validate_priv_entry stored = Inr stored" using ok by (simp add: validate_priv_entry_def)
  with mode ok st show ?thesis by blast
qed

theorem priv_entry_stored_form_witness:
  "validate_priv_entry ''configure  all: router bgp '' = Inr ''configure all: router bgp'' \<and>
   split_priv_entry ''configure all: router bgp'' = (''configure all'', ''router bgp'', True)"
proof -
  have v: "validate_priv_entry ''configure  all: router bgp '' = Inr ''configure all: router bgp''" by code_simp
  from priv_entry_stored_form [OF v] obtain mode cmd where m: "mode \<in> set priv_modes"
    "split_priv_entry ''configure all: router bgp'' = (mode, cmd, True)" by blast
  moreover have "split_priv_entry ''configure all: router bgp'' = (''configure all'', ''router bgp'', True)" by code_simp
  ultimately show ?thesis using v by simp
qed

text \<open>
  \<open>MatchEmail\<close> accepts exactly the strings of at most 254 bytes and allowed runes that are a
  local part, not empty and not starting with a hyphen, one at-sign, and at least two non-empty
  labels joined with periods.
\<close>

theorem match_email_shape:
  "match_email U s \<longleftrightarrow>
     length s \<le> email_max \<and> (\<forall>r \<in> set (runes_of s). email_rune U r) \<and>
     (\<exists>lcl labels. s = lcl @ ''@'' @ join ''.'' labels \<and> lcl \<noteq> [] \<and> hd lcl \<noteq> CHR ''-'' \<and> CHR ''@'' \<notin> set lcl \<and>
        2 \<le> length labels \<and> (\<forall>l \<in> set labels. l \<noteq> [] \<and> CHR ''.'' \<notin> set l \<and> CHR ''@'' \<notin> set l))"
  (is "_ \<longleftrightarrow> ?R")
proof
  assume m: "match_email U s"
  then have one: "length (filter (\<lambda>c. c = CHR ''@'') s) = 1" and len: "length s \<le> email_max"
    and runes: "\<forall>r \<in> set (runes_of s). email_rune U r" and hd: "hd s \<noteq> CHR ''-''"
    by (auto simp: match_email_def list_ex_iff split: if_splits)
  have "CHR ''@'' \<in> set s"
  proof (rule ccontr)
    assume "CHR ''@'' \<notin> set s"
    then have "filter (\<lambda>c. c = CHR ''@'') s = []" by (auto simp: filter_empty_conv)
    with one show False by simp
  qed
  then obtain l d where s: "s = l @ CHR ''@'' # d" "CHR ''@'' \<notin> set l" by (meson split_list_first)
  from one have "filter (\<lambda>c. c = CHR ''@'') d = []" unfolding s(1) filter_append by simp
  then have d: "CHR ''@'' \<notin> set d" by (auto simp: filter_empty_conv)
  let ?ls = "split_on (CHR ''.'') d"
  from m s have l: "l \<noteq> []" and dot: "CHR ''.'' \<in> set d" and lab: "\<forall>x \<in> set ?ls. x \<noteq> []"
    by (auto simp: match_email_def cut_at_found list_ex_iff split: if_splits)
  have "2 \<le> length ?ls"
  proof (rule ccontr)
    assume "\<not> 2 \<le> length ?ls"
    moreover have "?ls \<noteq> []" by simp
    ultimately obtain w where "?ls = [w]" by (cases ?ls) (auto simp: not_le less_Suc_eq)
    with join_split [of "CHR ''.''" d] have "w = d" by simp
    with \<open>?ls = [w]\<close> split_on_parts [of w "CHR ''.''" d] dot show False by simp
  qed
  moreover have "s = l @ ''@'' @ join ''.'' ?ls" using s by (simp add: join_split)
  moreover have "\<forall>x \<in> set ?ls. x \<noteq> [] \<and> CHR ''.'' \<notin> set x \<and> CHR ''@'' \<notin> set x"
    using split_on_parts d lab by blast
  moreover have "hd l \<noteq> CHR ''-''" using hd s l by simp
  ultimately show ?R using len runes l s(2) by blast
next
  assume ?R
  then obtain lcl labels where s: "s = lcl @ CHR ''@'' # join ''.'' labels" and l: "lcl \<noteq> []" "hd lcl \<noteq> CHR ''-''" "CHR ''@'' \<notin> set lcl"
    and n: "2 \<le> length labels" and lab: "\<forall>l \<in> set labels. l \<noteq> [] \<and> CHR ''.'' \<notin> set l \<and> CHR ''@'' \<notin> set l"
    and r: "length s \<le> email_max" "\<forall>r \<in> set (runes_of s). email_rune U r" by auto
  have ne: "labels \<noteq> []" using n by auto
  then have sp: "split_on (CHR ''.'') (join ''.'' labels) = labels" using lab by (intro split_join) auto
  have at: "CHR ''@'' \<notin> set (join ''.'' labels)" using set_join [of "''.''" labels] lab by auto
  have dot: "CHR ''.'' \<in> set (join ''.'' labels)"
  proof (rule ccontr)
    assume "CHR ''.'' \<notin> set (join ''.'' labels)"
    then have "split_on (CHR ''.'') (join ''.'' labels) = [join ''.'' labels]" by (rule split_on_no_sep)
    with sp n show False by (metis One_nat_def Suc_1 Suc_n_not_le_n length_Cons list.size(3))
  qed
  have one: "length (filter (\<lambda>c. c = CHR ''@'') s) = 1"
    using l(3) at by (auto simp: s filter_empty_conv)
  have cut: "cut_at (CHR ''@'') s = (lcl, join ''.'' labels, True)" unfolding s by (rule cut_at_found [OF l(3)])
  have hd: "s \<noteq> []" "hd s \<noteq> CHR ''-''" using s l by simp_all
  have no: "\<not> list_ex (\<lambda>label. label = []) labels" "\<not> list_ex (\<lambda>r. \<not> email_rune U r) (runes_of s)"
    using lab r(2) by (auto simp: list_ex_iff)
  show "match_email U s"
    unfolding match_email_def cut prod.case sp using hd no one l(1) dot r(1) by simp
qed

lemma parse_int64_bounds: "parse_int64 s = Some n \<Longrightarrow> 0 \<le> n \<and> n < 2 ^ 63"
  by (auto simp: parse_int64_def split: if_splits)

lemma parse_int64_itoa [simp]: "k < 2 ^ 63 \<Longrightarrow> parse_int64 (itoa k) = Some (int k)"
  by (auto simp: parse_int64_def dec_val_itoa)

lemma itoa_all_digits [simp]: "list_all is_digit (itoa n)"
  by (auto simp: list_all_iff dest: itoa_digits)

lemma cut_suffix_append [simp]: "cut_suffix (s @ suf) suf = Some s"
  by (simp add: cut_suffix_def)

lemma cut_suffix_None: "s \<noteq> [] \<Longrightarrow> suf \<noteq> [] \<Longrightarrow> last s \<noteq> last suf \<Longrightarrow> cut_suffix s suf = None"
  by (auto simp: cut_suffix_def) (metis append_take_drop_id last_appendR)

lemma cut_suffix_two: "c \<noteq> d \<Longrightarrow> cut_suffix (s @ [c, e]) [d, f] = None"
  by (simp add: cut_suffix_def)

lemma size_digits_units:
  "size_digits (itoa k) = (itoa k, 1)"
  "size_digits (itoa k @ ''Ki'') = (itoa k, 2 ^ 10)"
  "size_digits (itoa k @ ''Mi'') = (itoa k, 2 ^ 20)"
  "size_digits (itoa k @ ''Gi'') = (itoa k, 2 ^ 30)"
proof -
  have "is_digit (last (itoa k))" by (rule itoa_digits [OF last_in_set]) simp
  then have "last (itoa k) \<noteq> CHR ''i''" by (auto simp: is_digit_def)
  then show "size_digits (itoa k) = (itoa k, 1)" by (simp add: size_digits_def cut_suffix_None)
  show "size_digits (itoa k @ ''Ki'') = (itoa k, 2 ^ 10)" by (simp add: size_digits_def)
  show "size_digits (itoa k @ ''Mi'') = (itoa k, 2 ^ 20)" by (simp add: size_digits_def cut_suffix_two)
  show "size_digits (itoa k @ ''Gi'') = (itoa k, 2 ^ 30)" by (simp add: size_digits_def cut_suffix_two)
qed

lemma size_digits_unit: "size_digits s = (d, u) \<Longrightarrow> u \<in> {1, 2 ^ 10, 2 ^ 20, 2 ^ 30}"
  by (auto simp: size_digits_def split: option.splits)

lemma parse_size_of_digits:
  assumes "size_digits s = (itoa k, u)" "int k * u \<le> 2 ^ 30"
  shows "parse_report_size s = Inr (int k * u)"
proof -
  have u: "u \<in> {1, 2 ^ 10, 2 ^ 20, 2 ^ 30}" using assms(1) by (rule size_digits_unit)
  then have "int k \<le> 2 ^ 30 div u" using assms(2) by auto
  moreover have "int k < 2 ^ 63" using assms(2) u by auto
  then have "k < 2 ^ 63" by simp
  ultimately show ?thesis
    using assms(1) by (simp add: parse_report_size_def report_max_size_cap_def)
qed

text \<open>
  C40: a size limit that is read lies between 0 and 1 GiB and was computed without 64-bit overflow;
  every number of bytes, KiB, MiB or GiB up to that cap is read as its value.
\<close>

theorem parse_report_size_bounds:
  "(parse_report_size s = Inr n \<longrightarrow> 0 \<le> n \<and> n \<le> report_max_size_cap) \<and>
   (int k \<le> 2 ^ 30 \<longrightarrow> parse_report_size (itoa k) = Inr (int k)) \<and>
   (int k * 2 ^ 10 \<le> 2 ^ 30 \<longrightarrow> parse_report_size (itoa k @ ''Ki'') = Inr (int k * 2 ^ 10)) \<and>
   (int k * 2 ^ 20 \<le> 2 ^ 30 \<longrightarrow> parse_report_size (itoa k @ ''Mi'') = Inr (int k * 2 ^ 20)) \<and>
   (int k * 2 ^ 30 \<le> 2 ^ 30 \<longrightarrow> parse_report_size (itoa k @ ''Gi'') = Inr (int k * 2 ^ 30))"
proof -
  have "0 \<le> n \<and> n \<le> report_max_size_cap" if p: "parse_report_size s = Inr n"
  proof -
    obtain d u where du: "size_digits s = (d, u)" by (cases "size_digits s") auto
    with p obtain m where m: "parse_int64 d = Some m" "m \<le> 2 ^ 30 div u" "n = m * u"
      by (auto simp: parse_report_size_def report_max_size_cap_def split: if_splits option.splits)
    have "u \<in> {1, 2 ^ 10, 2 ^ 20, 2 ^ 30}" using du by (rule size_digits_unit)
    with m parse_int64_bounds [OF m(1)] show ?thesis by (auto simp: report_max_size_cap_def)
  qed
  then show ?thesis
    using parse_size_of_digits [OF size_digits_units(1), of k] parse_size_of_digits [OF size_digits_units(2), of k]
      parse_size_of_digits [OF size_digits_units(3), of k] parse_size_of_digits [OF size_digits_units(4), of k]
    by simp
qed

theorem parse_report_size_bounds_witness:
  "parse_report_size ''20Mi'' = Inr (20 * 2 ^ 20) \<and> 20 * 2 ^ 20 \<le> report_max_size_cap"
proof -
  have p: "parse_report_size ''20Mi'' = Inr (20 * 2 ^ 20)" by code_simp
  with parse_report_size_bounds [of "''20Mi''" "20 * 2 ^ 20"] show ?thesis by simp
qed

text \<open>Two suffixes after numbers: the texts are equal only when the numbers and the suffixes are.\<close>

lemma itoa_suffix_eq:
  assumes "itoa a @ CHR '' '' # s = itoa b @ CHR '' '' # t"
  shows "a = b \<and> s = t"
proof -
  have n: "CHR '' '' \<notin> set (itoa k)" for k using itoa_digits by (force simp: is_digit_def)
  have "cut_at (CHR '' '') (itoa a @ CHR '' '' # s) = cut_at (CHR '' '') (itoa b @ CHR '' '' # t)"
    using assms by simp
  then have "itoa a = itoa b" "s = t" by (simp_all add: cut_at_found [OF n])
  then show ?thesis by (simp add: itoa_inj)
qed

definition size_parts :: "int \<Rightarrow> nat \<times> string" where
  "size_parts n =
     (if n mod 2 ^ 30 = 0 then (nat (n div 2 ^ 30), ''GiB'')
      else if n mod 2 ^ 20 = 0 then (nat (n div 2 ^ 20), ''MiB'')
      else if n mod 2 ^ 10 = 0 then (nat (n div 2 ^ 10), ''KiB'')
      else (nat n, if n = 1 then ''byte'' else ''bytes''))"

lemma itoa_1: "itoa 1 = ''1''"
  by code_simp

lemma format_report_size_parts:
  "0 < n \<Longrightarrow> format_report_size n = itoa (fst (size_parts n)) @ CHR '' '' # snd (size_parts n)"
  using itoa_1 by (auto simp: format_report_size_def size_parts_def)

lemma size_parts_inj: "0 < n \<Longrightarrow> 0 < m \<Longrightarrow> size_parts n = size_parts m \<Longrightarrow> n = m"
proof -
  assume p: "0 < n" "0 < m" "size_parts n = size_parts m"
  have e: "int (fst (size_parts k)) * (if snd (size_parts k) = ''GiB'' then 2 ^ 30
      else if snd (size_parts k) = ''MiB'' then 2 ^ 20 else if snd (size_parts k) = ''KiB'' then 2 ^ 10 else 1) = k"
    if "0 < k" for k :: int
    using that by (auto simp: size_parts_def)
  show "n = m" using e [OF p(1)] e [OF p(2)] unfolding p(3) by (rule trans [OF sym])
qed

text \<open>
  The words shown for a size limit identify it: two limits from 0 up print the same only when
  they are the same.
\<close>

theorem format_report_size_injective:
  assumes "0 \<le> n" "0 \<le> m" "format_report_size n = format_report_size m"
  shows "n = m"
proof -
  have cap: "format_report_size 0 \<noteq> format_report_size k" if "0 < k" for k
  proof -
    have "is_digit (hd (itoa (fst (size_parts k))))" by (rule itoa_digits [OF hd_in_set]) simp
    then have "is_digit (hd (format_report_size k))" using that by (simp add: format_report_size_parts)
    moreover have "\<not> is_digit (hd (format_report_size 0))" by code_simp
    ultimately show ?thesis by auto
  qed
  consider "n = 0" "m = 0" | "n = 0" "0 < m" | "0 < n" "m = 0" | "0 < n" "0 < m" using assms by linarith
  then show ?thesis
  proof cases
    case 4
    with assms(3) have "size_parts n = size_parts m"
      by (auto simp: format_report_size_parts prod_eq_iff dest: itoa_suffix_eq)
    with 4 show ?thesis by (rule size_parts_inj)
  qed (use cap assms in force)+
qed

theorem format_report_size_injective_witness:
  "format_report_size (10 * 2 ^ 20) \<noteq> format_report_size (10 * 2 ^ 20 + 1)"
  using format_report_size_injective [of "10 * 2 ^ 20" "10 * 2 ^ 20 + 1"] by fastforce

end
