(* ===== verification/Addr128.thy ===== *)
theory Addr128
  imports GoStrings
begin

text \<open>
  The 128-bit addresses of \<open>internal/cidr/parse.go\<close> (type \<open>u128\<close>): two 64-bit words and
  their bitwise operations, the masks \<open>ones\<close>, the comparison \<open>cmp\<close>. The proofs about
  networks go through two views of an address: its bits (\<open>ubit\<close>, counted from the least
  significant) and its numeric value (\<open>uval\<close>).
\<close>

unbundle bit_operations_syntax

record u128 =
  u_hi :: "64 word"
  u_lo :: "64 word"

definition mk128 :: "64 word \<Rightarrow> 64 word \<Rightarrow> u128" where
  "mk128 h l = \<lparr>u_hi = h, u_lo = l\<rparr>"

definition u_and :: "u128 \<Rightarrow> u128 \<Rightarrow> u128" where
  "u_and a b = mk128 (u_hi a AND u_hi b) (u_lo a AND u_lo b)"

definition u_or :: "u128 \<Rightarrow> u128 \<Rightarrow> u128" where
  "u_or a b = mk128 (u_hi a OR u_hi b) (u_lo a OR u_lo b)"

definition u_not :: "u128 \<Rightarrow> u128" where
  "u_not a = mk128 (NOT (u_hi a)) (NOT (u_lo a))"

definition u_cmp :: "u128 \<Rightarrow> u128 \<Rightarrow> int" where
  "u_cmp a b =
     (if u_hi a < u_hi b then -1
      else if u_hi b < u_hi a then 1
      else if u_lo a < u_lo b then -1
      else if u_lo b < u_lo a then 1
      else 0)"

text \<open>
  \<open>ones(width, prefix)\<close>: the top \<open>prefix\<close> bits of a \<open>width\<close>-bit address. Callers pass
  width 32 or 128 and a prefix within it, so Go's shifts are never by a negative amount.
\<close>

definition ones :: "nat \<Rightarrow> nat \<Rightarrow> u128" where
  "ones width plen =
     (if width = 32 then
        (if plen = 0 then mk128 0 0
         else mk128 0 (ucast (push_bit (32 - plen) (NOT 0 :: 32 word))))
      else if plen = 0 then mk128 0 0
      else if plen \<le> 64 then mk128 (push_bit (64 - plen) (NOT 0)) 0
      else mk128 (NOT 0) (push_bit (128 - plen) (NOT 0)))"

definition all_ones :: "nat \<Rightarrow> u128" where
  "all_ones width = ones width width"

text \<open>\<open>flipBit(a, width, pos)\<close>: the bit at position \<open>pos\<close>, 0 being the first, inverted.\<close>

definition flip_bit_at :: "u128 \<Rightarrow> nat \<Rightarrow> nat \<Rightarrow> u128" where
  "flip_bit_at a width pos =
     (let l = width - 1 - pos
      in if l < 64 then a\<lparr>u_lo := u_lo a XOR push_bit l 1\<rparr>
         else a\<lparr>u_hi := u_hi a XOR push_bit (l - 64) 1\<rparr>)"

section \<open>The bits of an address\<close>

definition ubit :: "u128 \<Rightarrow> nat \<Rightarrow> bool" where
  "ubit a i = (if i < 64 then bit (u_lo a) i else bit (u_hi a) (i - 64))"

lemma mk128_sel [simp]: "u_hi (mk128 h l) = h" "u_lo (mk128 h l) = l"
  by (simp_all add: mk128_def)

lemma mk128_eta [simp]: "mk128 (u_hi a) (u_lo a) = a"
  by (simp add: mk128_def)

lemma mk128_eq [simp]: "mk128 h l = mk128 h' l' \<longleftrightarrow> h = h' \<and> l = l'"
  by (simp add: mk128_def)

lemma u128_eq: "a = (b :: u128) \<longleftrightarrow> u_hi a = u_hi b \<and> u_lo a = u_lo b"
  by (cases a; cases b) simp

lemma ubit_ge: "128 \<le> i \<Longrightarrow> \<not> ubit a i"
  using bit_imp_le_length [of "u_hi a" "i - 64"] by (auto simp: ubit_def)

lemma ubit_eqI: "(\<And>i. i < 128 \<Longrightarrow> ubit a i = ubit b i) \<Longrightarrow> a = b"
proof -
  assume h: "\<And>i. i < 128 \<Longrightarrow> ubit a i = ubit b i"
  have "u_lo a = u_lo b"
  proof (rule bit_word_eqI)
    fix n assume "n < LENGTH(64)"
    then show "bit (u_lo a) n = bit (u_lo b) n" using h [of n] by (simp add: ubit_def)
  qed
  moreover have "u_hi a = u_hi b"
  proof (rule bit_word_eqI)
    fix n assume "n < LENGTH(64)"
    then show "bit (u_hi a) n = bit (u_hi b) n" using h [of "n + 64"] by (simp add: ubit_def)
  qed
  ultimately show ?thesis by (simp add: u128_eq)
qed

lemma ubit_zero [simp, ubits]: "ubit (mk128 0 0) i = False"
  by (simp add: ubit_def)

lemma ubit_and [simp, ubits]: "ubit (u_and a b) i = (ubit a i \<and> ubit b i)"
  by (simp add: ubit_def u_and_def bit_and_iff)

lemma ubit_or [simp, ubits]: "ubit (u_or a b) i = (ubit a i \<or> ubit b i)"
  by (simp add: ubit_def u_or_def bit_or_iff)

lemma ubit_not [simp, ubits]: "i < 128 \<Longrightarrow> ubit (u_not a) i = (\<not> ubit a i)"
  by (auto simp: ubit_def u_not_def bit_not_iff)

lemma ubit_ones32 [ubits]: "p \<le> 32 \<Longrightarrow> ubit (ones 32 p) i \<longleftrightarrow> 32 - p \<le> i \<and> i < 32"
  by (auto simp: ubit_def ones_def bit_ucast_iff bit_push_bit_iff bit_not_iff bit_mask_iff)

lemma ubit_ones128 [ubits]: "p \<le> 128 \<Longrightarrow> ubit (ones 128 p) i \<longleftrightarrow> 128 - p \<le> i \<and> i < 128"
  by (auto simp: ubit_def ones_def bit_push_bit_iff bit_not_iff bit_mask_iff)

lemma ubit_flip [ubits]:
  "pos < width \<Longrightarrow> width \<le> 128 \<Longrightarrow> i < 128 \<Longrightarrow>
     ubit (flip_bit_at a width pos) i = (if i = width - 1 - pos then \<not> ubit a i else ubit a i)"
  by (auto simp: ubit_def flip_bit_at_def Let_def bit_xor_iff bit_push_bit_iff bit_1_iff bit_exp_iff)

section \<open>The numeric value of an address\<close>

definition uval :: "u128 \<Rightarrow> nat" where
  "uval a = unat (u_hi a) * 2 ^ 64 + unat (u_lo a)"

lemma unat_u_lo_less: "unat (u_lo a) < 2 ^ 64" "unat (u_hi a) < 2 ^ 64"
  using unsigned_less [of "u_lo a", where 'a = nat] unsigned_less [of "u_hi a", where 'a = nat] by simp_all

lemma uval_bit: "bit (uval a) i = ubit a i"
proof (cases "i < 64")
  case True
  have "bit (uval a) i = bit (take_bit 64 (uval a)) i" using True by (simp add: bit_take_bit_iff)
  also have "take_bit 64 (uval a) = unat (u_lo a)"
    using unat_u_lo_less [of a] by (simp add: uval_def take_bit_eq_mod)
  finally show ?thesis using True by (simp add: ubit_def bit_unsigned_iff)
next
  case False
  have "bit (uval a) i = bit (drop_bit 64 (uval a)) (i - 64)" using False by (simp add: bit_drop_bit_eq)
  also have "drop_bit 64 (uval a) = unat (u_hi a)"
    using unat_u_lo_less [of a] by (simp add: uval_def drop_bit_eq_div)
  finally show ?thesis using False by (simp add: ubit_def bit_unsigned_iff)
qed

lemma uval_inj: "uval a = uval b \<longleftrightarrow> a = b"
  by (metis ubit_eqI uval_bit)

lemma u_cmp_uval: "u_cmp a b = (if uval a < uval b then -1 else if uval b < uval a then 1 else 0)"
proof -
  have "uval a < uval b \<longleftrightarrow> u_hi a < u_hi b \<or> u_hi a = u_hi b \<and> u_lo a < u_lo b" for a b
    using unat_u_lo_less [of a] unat_u_lo_less [of b]
    by (auto simp: uval_def word_less_nat_alt word_unat_eq_iff)
  then show ?thesis by (auto simp: u_cmp_def)
qed

lemma u_cmp_eq_0 [simp]: "u_cmp a b = 0 \<longleftrightarrow> a = b"
  by (auto simp: u_cmp_uval uval_inj [symmetric])

lemma u_cmp_neg: "u_cmp a b < 0 \<longleftrightarrow> uval a < uval b"
  by (simp add: u_cmp_uval)

lemma uval_mono: "(\<And>i. ubit a i \<Longrightarrow> ubit b i) \<Longrightarrow> uval a \<le> uval b"
proof -
  assume h: "\<And>i. ubit a i \<Longrightarrow> ubit b i"
  then have "uval a AND uval b = uval a"
    by (intro bit_eqI) (auto simp: bit_and_iff uval_bit)
  then have "int (uval a) = int (uval a) AND int (uval b)" by (metis of_nat_and_eq)
  also have "\<dots> \<le> int (uval b)" by (rule AND_upper2) simp
  finally show ?thesis by simp
qed

lemma u_assoc_simps:
  "u_and (u_and a b) c = u_and a (u_and b c)"
  "u_and a b = u_and b a"
  "u_and a a = a"
  by (rule ubit_eqI; auto)+

end
