(* ===== verification/Cidr.thy ===== *)
theory Cidr
  imports Addr128
begin

text \<open>
  \<open>internal/cidr\<close>: the parser of IPv4 and IPv6 networks (a port of CPython's
  \<open>ip_network(s, strict=False)\<close>), the canonical printer, the sort key of
  \<open>sort_cidrs_by_specificity\<close> and the list parser. A parse error carries only the input, so
  it is \<open>None\<close>.
\<close>

record network =
  n_v6 :: bool
  n_ip :: u128
  n_plen :: nat
  n_scope :: string

definition net_width :: "network \<Rightarrow> nat" where
  "net_width n = (if n_v6 n then 128 else 32)"

section \<open>The parsers\<close>

definition is_ascii_digits :: "string \<Rightarrow> bool" where
  "is_ascii_digits s \<longleftrightarrow> s \<noteq> [] \<and> list_all is_digit s"

text \<open>\<open>prefixFromString\<close>: digits, leading zeros dropped, at most three left, at most \<open>max\<close>.\<close>

definition prefix_from_string :: "string \<Rightarrow> nat \<Rightarrow> nat option" where
  "prefix_from_string s mx =
     (if \<not> is_ascii_digits s then None
      else let t = dropWhile (\<lambda>c. c = CHR ''0'') s
           in if length t > 3 then None
              else let n = dec_val t in if n > mx then None else Some n)"

fun ip4_octets :: "32 word \<Rightarrow> string list \<Rightarrow> 32 word option" where
  "ip4_octets v [] = Some v"
| "ip4_octets v (q # qs) =
     (if \<not> is_ascii_digits q \<or> length q > 3 then None
      else if q \<noteq> ''0'' \<and> hd q = CHR ''0'' then None
      else let n = dec_val q
           in if n > 255 then None
              else ip4_octets (push_bit 8 v OR of_nat n) qs)"

definition ip4 :: "string \<Rightarrow> 32 word option" where
  "ip4 s =
     (if s = [] then None
      else let octets = split_on (CHR ''.'') s
           in if length octets \<noteq> 4 then None else ip4_octets 0 octets)"

text \<open>\<open>bits.TrailingZeros32\<close>.\<close>

definition trailing_zeros32 :: "32 word \<Rightarrow> nat" where
  "trailing_zeros32 x = length (takeWhile (\<lambda>i. \<not> bit x i) [0..<32])"

definition prefix_from_int_mask :: "32 word \<Rightarrow> nat option" where
  "prefix_from_int_mask x =
     (let tz = trailing_zeros32 x;
          plen = 32 - tz;
          leading = (if tz < 32 then ucast (drop_bit tz x) else 0 :: 64 word)
      in if leading \<noteq> push_bit plen 1 - 1 then None else Some plen)"

definition prefix_from_ip_string :: "string \<Rightarrow> nat option" where
  "prefix_from_ip_string s =
     (case ip4 s of
        None \<Rightarrow> None
      | Some x \<Rightarrow> (case prefix_from_int_mask x of
                     Some p \<Rightarrow> Some p
                   | None \<Rightarrow> prefix_from_int_mask (NOT x)))"

definition parse4 :: "string \<Rightarrow> string \<Rightarrow> bool \<Rightarrow> network option" where
  "parse4 addr msk has_mask =
     (case ip4 addr of
        None \<Rightarrow> None
      | Some ip \<Rightarrow>
          (case (if has_mask then
                   (case prefix_from_string msk 32 of
                      Some p \<Rightarrow> Some p
                    | None \<Rightarrow> prefix_from_ip_string msk)
                 else Some 32) of
             None \<Rightarrow> None
           | Some plen \<Rightarrow>
               Some \<lparr>n_v6 = False, n_ip = u_and (mk128 0 (ucast ip)) (ones 32 plen),
                     n_plen = plen, n_scope = []\<rparr>))"

definition hextet :: "string \<Rightarrow> 64 word option" where
  "hextet s =
     (if s = [] \<or> \<not> list_all is_hex s \<or> length s > 4 then None
      else Some (foldl (\<lambda>n c. push_bit 4 n OR of_nat (hex_digit_val c)) 0 s))"

definition format_hex :: "64 word \<Rightarrow> string" where
  "format_hex v = (if v = 0 then ''0'' else hex_digits (unat v))"

definition pack4 :: "64 word list \<Rightarrow> 64 word" where
  "pack4 h = push_bit 48 (h ! 0) OR push_bit 32 (h ! 1) OR push_bit 16 (h ! 2) OR h ! 3"

text \<open>
  The position of \<open>::\<close> in the parts: \<open>Inl ()\<close> for more than one empty inner part,
  \<open>Inr None\<close> for none. Then the number of parts before and after it that are hextets: at a
  leading or trailing \<open>::\<close> the part beside it is empty too and is not counted.
\<close>

definition ip6_skip :: "string list \<Rightarrow> unit + nat option" where
  "ip6_skip parts =
     (case filter (\<lambda>i. parts ! i = []) [1..<length parts - 1] of
        [] \<Rightarrow> Inr None
      | [i] \<Rightarrow> Inr (Some i)
      | _ \<Rightarrow> Inl ())"

definition ip6_layout :: "string list \<Rightarrow> nat option \<Rightarrow> (nat \<times> nat \<times> nat) option" where
  "ip6_layout parts skip =
     (case skip of
        Some k \<Rightarrow>
          (let hi0 = k; lo0 = length parts - k - 1;
               hi = (if hd parts = [] then hi0 - 1 else hi0);
               lo = (if last parts = [] then lo0 - 1 else lo0)
           in if hd parts = [] \<and> hi \<noteq> 0 then None
              else if last parts = [] \<and> lo \<noteq> 0 then None
              else if hi + lo > 7 then None
              else Some (hi, 8 - (hi + lo), lo))
      | None \<Rightarrow>
          if length parts \<noteq> 8 \<or> hd parts = [] \<or> last parts = [] then None
          else Some (length parts, 0, 0))"

definition ip6_hextets :: "string list \<Rightarrow> nat \<times> nat \<times> nat \<Rightarrow> u128 option" where
  "ip6_hextets parts l =
     (case l of (hi, skipped, lo) \<Rightarrow>
        (case those (map hextet (take hi parts)) of
           None \<Rightarrow> None
         | Some hs \<Rightarrow>
             (case those (map hextet (drop (length parts - lo) parts)) of
                None \<Rightarrow> None
              | Some ls \<Rightarrow>
                  (let h = hs @ replicate skipped 0 @ ls
                   in Some (mk128 (pack4 h) (pack4 (drop 4 h)))))))"

text \<open>A dotted quad as the last part stands for two hextets.\<close>

definition ip6_parts :: "string \<Rightarrow> string list option" where
  "ip6_parts s =
     (let parts = split_on (CHR '':'') s
      in if length parts < 3 then None
         else if CHR ''.'' \<in> set (last parts) then
           (case ip4 (last parts) of
              None \<Rightarrow> None
            | Some v4 \<Rightarrow>
                Some (butlast parts @
                      [format_hex (ucast (drop_bit 16 v4) AND 0xFFFF), format_hex (ucast v4 AND 0xFFFF)]))
         else Some parts)"

definition ip6_addr :: "string \<Rightarrow> u128 option" where
  "ip6_addr s =
     (if s = [] then None
      else case ip6_parts s of
        None \<Rightarrow> None
      | Some parts \<Rightarrow>
          if length parts > 9 then None
          else case ip6_skip parts of
            Inl _ \<Rightarrow> None
          | Inr skip \<Rightarrow>
              (case ip6_layout parts skip of
                 None \<Rightarrow> None
               | Some l \<Rightarrow> ip6_hextets parts l))"

definition ip6 :: "string \<Rightarrow> (u128 \<times> string) option" where
  "ip6 s =
     (case cut_at (CHR ''%'') s of
        (a, scope, has_scope) \<Rightarrow>
          if has_scope \<and> (scope = [] \<or> CHR ''%'' \<in> set scope) then None
          else case ip6_addr a of None \<Rightarrow> None | Some ip \<Rightarrow> Some (ip, scope))"

definition parse6 :: "string \<Rightarrow> string \<Rightarrow> bool \<Rightarrow> network option" where
  "parse6 addr msk has_mask =
     (case ip6 addr of
        None \<Rightarrow> None
      | Some (ip, scope) \<Rightarrow>
          (case (if has_mask then prefix_from_string msk 128 else Some 128) of
             None \<Rightarrow> None
           | Some plen \<Rightarrow>
               (let m = ones 128 plen
                in if u_and ip m \<noteq> ip
                   then Some \<lparr>n_v6 = True, n_ip = u_and ip m, n_plen = plen, n_scope = []\<rparr>
                   else Some \<lparr>n_v6 = True, n_ip = ip, n_plen = plen, n_scope = scope\<rparr>)))"

text \<open>\<open>Parse\<close>: at most one slash; IPv4 is tried first.\<close>

definition parse_net :: "string \<Rightarrow> network option" where
  "parse_net s =
     (case cut_at (CHR ''/'') s of
        (addr, msk, has_mask) \<Rightarrow>
          if has_mask \<and> CHR ''/'' \<in> set msk then None
          else case parse4 addr msk has_mask of
            Some n \<Rightarrow> Some n
          | None \<Rightarrow> parse6 addr msk has_mask)"

section \<open>The canonical form\<close>

definition dotted_quad :: "32 word \<Rightarrow> string" where
  "dotted_quad a =
     join ''.'' (map (\<lambda>w. itoa (unat w))
       [drop_bit 24 a, drop_bit 16 a AND 0xff, drop_bit 8 a AND 0xff, a AND 0xff])"

definition raw_hextets :: "u128 \<Rightarrow> 64 word list" where
  "raw_hextets a =
     map (\<lambda>i. drop_bit (48 - 16 * i) (u_hi a) AND 0xffff) [0..<4] @
     map (\<lambda>i. drop_bit (48 - 16 * i) (u_lo a) AND 0xffff) [0..<4]"

text \<open>The state of the loop that looks for the longest run of zero hextets: the best start
  (\<open>None\<close> for -1) and length, the current start and length.\<close>

type_synonym run_state = "nat option \<times> nat \<times> nat option \<times> nat"

definition run_step :: "nat \<times> string \<Rightarrow> run_state \<Rightarrow> run_state" where
  "run_step p st =
     (case (p, st) of ((i, s), (best_start, best_len, start, run)) \<Rightarrow>
        if s = ''0'' then
          (let run' = run + 1; start' = (case start of None \<Rightarrow> Some i | Some j \<Rightarrow> Some j)
           in if run' > best_len then (start', run', start', run')
              else (best_start, best_len, start', run'))
        else (best_start, best_len, None, 0))"

definition best_run :: "string list \<Rightarrow> nat option \<times> nat" where
  "best_run h =
     (case fold run_step (zip [0..<length h] h) (None, 0, None, 0) of
        (best_start, best_len, _) \<Rightarrow> (best_start, best_len))"

definition compress6 :: "string list \<Rightarrow> string" where
  "compress6 h =
     (case best_run h of
        (Some b, l) \<Rightarrow>
          if l > 1 then join '':'' (take b h) @ ''::'' @ join '':'' (drop (b + l) h)
          else join '':'' h
      | (None, l) \<Rightarrow> join '':'' h)"

definition net_string :: "network \<Rightarrow> string" where
  "net_string n =
     (if \<not> n_v6 n then dotted_quad (ucast (u_lo (n_ip n))) @ ''/'' @ itoa (n_plen n)
      else compress6 (map format_hex (raw_hextets (n_ip n))) @
           (if n_scope n \<noteq> [] then ''%'' @ n_scope n else []) @ ''/'' @ itoa (n_plen n))"

text \<open>\<open>Validate\<close> and \<open>Canonical\<close> ("" for what does not parse).\<close>

definition cidr_valid :: "string \<Rightarrow> bool" where
  "cidr_valid s \<longleftrightarrow> parse_net s \<noteq> None"

definition canonical :: "string \<Rightarrow> string" where
  "canonical s = (case parse_net s of None \<Rightarrow> [] | Some n \<Rightarrow> net_string n)"

section \<open>The sort key\<close>

record cidr_key =
  k_version :: nat
  k_bcast :: u128
  k_net :: u128

definition net_version :: "network \<Rightarrow> nat" where
  "net_version n = (if n_v6 n then 6 else 4)"

definition broadcast :: "network \<Rightarrow> u128" where
  "broadcast n =
     u_or (n_ip n) (u_and (u_not (ones (net_width n) (n_plen n))) (all_ones (net_width n)))"

definition sort_key_of :: "network \<Rightarrow> cidr_key" where
  "sort_key_of n = \<lparr>k_version = net_version n, k_bcast = broadcast n, k_net = n_ip n\<rparr>"

definition key_less :: "cidr_key \<Rightarrow> cidr_key \<Rightarrow> bool" where
  "key_less a b =
     (if k_version a \<noteq> k_version b then k_version a < k_version b
      else if k_bcast a \<noteq> k_bcast b then u_cmp (k_bcast a) (k_bcast b) < 0
      else u_cmp (k_net a) (k_net b) < 0)"

definition cidr_sort_key :: "string \<Rightarrow> cidr_key option" where
  "cidr_sort_key s = map_option sort_key_of (parse_net s)"

text \<open>\<open>SortBySpecificity\<close>: entries are trimmed, empty and unparsable ones dropped, the rest
  ordered by key, stably, each keeping its text.\<close>

definition specificity_items :: "string list \<Rightarrow> (string \<times> cidr_key) list" where
  "specificity_items cidrs =
     List.map_filter (\<lambda>c. let s = trim_space c
                     in if s = [] then None else map_option (\<lambda>k. (s, k)) (cidr_sort_key s)) cidrs"

definition sort_by_specificity :: "string list \<Rightarrow> string list" where
  "sort_by_specificity cidrs =
     map fst (slice_stable (\<lambda>x y. key_less (snd x) (snd y)) (specificity_items cidrs))"

end
