(* ===== verification/NetSets.thy ===== *)
theory NetSets
  imports Cidr
begin

text \<open>
  \<open>internal/cidr/subtract.go\<close>: containment and subtraction of networks, against the set of
  addresses a network stands for. \<open>net_addrs\<close> is the abstract specification: a network covers
  the addresses of its family that agree with it on its prefix.
\<close>

section \<open>The operations\<close>

definition net_contains :: "network \<Rightarrow> network \<Rightarrow> bool" where
  "net_contains n m =
     (if n_v6 n \<noteq> n_v6 m \<or> n_plen n > n_plen m then False
      else u_cmp (u_and (n_ip m) (ones (net_width n) (n_plen n))) (n_ip n) = 0)"

definition contains_addr :: "string \<Rightarrow> string \<Rightarrow> bool" where
  "contains_addr net addr =
     (case parse_net net of
        None \<Rightarrow> False
      | Some n \<Rightarrow> (case parse_net addr of None \<Rightarrow> False | Some a \<Rightarrow> net_contains n a))"

definition minus_piece :: "network \<Rightarrow> network \<Rightarrow> nat \<Rightarrow> network" where
  "minus_piece n h i =
     (let w = net_width n
      in \<lparr>n_v6 = n_v6 n, n_ip = u_and (flip_bit_at (n_ip h) w (i - 1)) (ones w i),
          n_plen = i, n_scope = n_scope n\<rparr>)"

definition net_minus :: "network \<Rightarrow> network \<Rightarrow> network list" where
  "net_minus n h =
     (if n_v6 n \<noteq> n_v6 h \<or> (\<not> net_contains n h \<and> \<not> net_contains h n) then [n]
      else if net_contains h n then []
      else map (minus_piece n h) [n_plen n + 1..<n_plen h + 1])"

text \<open>\<open>Subtract\<close>: the holes that parse, then each prefix: as written when it does not parse or
  meets no hole, else its pieces after each hole in turn.\<close>

definition parsed_holes :: "string list \<Rightarrow> network list" where
  "parsed_holes holes = List.map_filter parse_net holes"

definition minus_holes :: "network list \<Rightarrow> network list \<Rightarrow> network list" where
  "minus_holes hs pieces = foldl (\<lambda>ps h. concat (map (\<lambda>q. net_minus q h) ps)) pieces hs"

definition subtract_one :: "network list \<Rightarrow> string \<Rightarrow> string list" where
  "subtract_one hs p =
     (case parse_net p of
        None \<Rightarrow> [p]
      | Some n \<Rightarrow>
          if \<not> list_ex (\<lambda>h. net_contains n h \<or> net_contains h n) hs then [p]
          else map net_string (minus_holes hs [n]))"

definition subtract :: "string list \<Rightarrow> string list \<Rightarrow> string list" where
  "subtract plist holes = concat (map (subtract_one (parsed_holes holes)) plist)"

section \<open>Networks as sets of addresses\<close>

definition fits :: "nat \<Rightarrow> u128 \<Rightarrow> bool" where
  "fits w a \<longleftrightarrow> (\<forall>i < 128. w \<le> i \<longrightarrow> \<not> ubit a i)"

definition wf_net :: "network \<Rightarrow> bool" where
  "wf_net n \<longleftrightarrow> n_plen n \<le> net_width n \<and> fits (net_width n) (n_ip n) \<and>
     u_and (n_ip n) (ones (net_width n) (n_plen n)) = n_ip n \<and> (\<not> n_v6 n \<longrightarrow> n_scope n = []) \<and>
     CHR ''/'' \<notin> set (n_scope n) \<and> CHR ''%'' \<notin> set (n_scope n)"

text \<open>An address of a family: the flag and the bits, IPv4 in the low 32.\<close>

type_synonym fam_addr = "bool \<times> u128"

definition net_addrs :: "network \<Rightarrow> fam_addr set" where
  "net_addrs n = {(f, a). f = n_v6 n \<and> fits (net_width n) a \<and>
     u_and a (ones (net_width n) (n_plen n)) = n_ip n}"

lemma net_width_cases: "net_width n = 32 \<or> net_width n = 128"
  by (simp add: net_width_def)

lemma net_width_le [simp]: "net_width n \<le> 128"
  by (simp add: net_width_def)

lemma ubit_ones_net:
  "w = 32 \<or> w = 128 \<Longrightarrow> p \<le> w \<Longrightarrow> ubit (ones w p) i \<longleftrightarrow> w - p \<le> i \<and> i < w"
  by (auto simp: ubit_ones32 ubit_ones128)

lemma and_ones_eq_iff:
  assumes w: "w = 32 \<or> w = 128" "p \<le> w" and ip: "u_and ip (ones w p) = ip"
  shows "u_and a (ones w p) = ip \<longleftrightarrow> (\<forall>i. w - p \<le> i \<and> i < w \<longrightarrow> ubit a i = ubit ip i)"
proof -
  have low: "\<not> ubit ip i" if "\<not> (w - p \<le> i \<and> i < w)" for i
    using ubit_and [of ip "ones w p" i] that w ip by (simp add: ubit_ones_net)
  show ?thesis
  proof
    assume eq: "u_and a (ones w p) = ip"
    show "\<forall>i. w - p \<le> i \<and> i < w \<longrightarrow> ubit a i = ubit ip i"
      using w by (auto simp: eq [symmetric] ubit_ones_net)
  next
    assume "\<forall>i. w - p \<le> i \<and> i < w \<longrightarrow> ubit a i = ubit ip i"
    then show "u_and a (ones w p) = ip"
      using low w by (intro ubit_eqI) (auto simp: ubit_ones_net)
  qed
qed

lemma mem_net_addrs:
  assumes "wf_net n"
  shows "(f, a) \<in> net_addrs n \<longleftrightarrow> f = n_v6 n \<and> fits (net_width n) a \<and>
     (\<forall>i. net_width n - n_plen n \<le> i \<and> i < net_width n \<longrightarrow> ubit a i = ubit (n_ip n) i)"
  using assms and_ones_eq_iff [OF net_width_cases, of "n_plen n" n "n_ip n" a]
  by (simp add: net_addrs_def wf_net_def)

lemma net_ip_mem [netwf]: "wf_net n \<Longrightarrow> (n_v6 n, n_ip n) \<in> net_addrs n"
  by (simp add: net_addrs_def wf_net_def)

lemma contains_bits:
  assumes "wf_net n"
  shows "net_contains n m \<longleftrightarrow> n_v6 n = n_v6 m \<and> n_plen n \<le> n_plen m \<and>
     (\<forall>i. net_width n - n_plen n \<le> i \<and> i < net_width n \<longrightarrow> ubit (n_ip m) i = ubit (n_ip n) i)"
  using assms and_ones_eq_iff [OF net_width_cases, of "n_plen n" n "n_ip n" "n_ip m"]
  by (auto simp: net_contains_def wf_net_def)

lemma wf_netD [netwf]:
  assumes "wf_net n"
  shows "n_plen n \<le> net_width n" "fits (net_width n) (n_ip n)"
    "u_and (n_ip n) (ones (net_width n) (n_plen n)) = n_ip n" "\<not> n_v6 n \<Longrightarrow> n_scope n = []"
    "CHR ''/'' \<notin> set (n_scope n)" "CHR ''%'' \<notin> set (n_scope n)"
  using assms by (simp_all add: wf_net_def)

lemma same_width: "n_v6 n = n_v6 m \<Longrightarrow> net_width n = net_width m"
  by (simp add: net_width_def)

lemma contains_subset:
  assumes "wf_net n" "wf_net m" "net_contains n m"
  shows "net_addrs m \<subseteq> net_addrs n"
proof
  fix x assume "x \<in> net_addrs m"
  then obtain f a where x: "x = (f, a)" "(f, a) \<in> net_addrs m" by (cases x) auto
  from assms(3) have c: "n_v6 n = n_v6 m" "n_plen n \<le> n_plen m"
    "\<forall>i. net_width n - n_plen n \<le> i \<and> i < net_width n \<longrightarrow> ubit (n_ip m) i = ubit (n_ip n) i"
    using contains_bits [OF assms(1)] by auto
  with x(2) same_width [OF c(1)] show "x \<in> net_addrs n"
    by (auto simp: x(1) mem_net_addrs assms)
qed

lemma flip_fits: "fits w a \<Longrightarrow> pos < w \<Longrightarrow> w \<le> 128 \<Longrightarrow> fits w (flip_bit_at a w pos)"
  by (auto simp: fits_def ubit_flip)

lemma subset_contains:
  assumes "wf_net n" "wf_net m" "net_addrs m \<subseteq> net_addrs n"
  shows "net_contains n m"
proof -
  from net_ip_mem [OF assms(2)] assms(3) have ip: "(n_v6 m, n_ip m) \<in> net_addrs n" by blast
  then have fam: "n_v6 m = n_v6 n" using mem_net_addrs [OF assms(1)] by blast
  then have w: "net_width m = net_width n" by (rule same_width)
  let ?w = "net_width n" and ?p = "n_plen n - 1"
  have "n_plen n \<le> n_plen m"
  proof (rule ccontr)
    assume "\<not> n_plen n \<le> n_plen m"
    then have lt: "n_plen m < n_plen n" by simp
    with assms(1) have pw: "?p < ?w" "n_plen n \<le> ?w" by (auto simp: wf_net_def)
    let ?a = "flip_bit_at (n_ip m) ?w ?p"
    have "fits ?w (n_ip m)" using assms(2) w by (simp add: wf_net_def)
    then have fa: "fits ?w ?a" using pw by (intro flip_fits) auto
    have "ubit ?a i = ubit (n_ip m) i" if "?w - n_plen m \<le> i" "i < ?w" for i
    proof -
      have "i < 128" using that(2) net_width_le by (rule less_le_trans)
      then show ?thesis using that pw lt by (subst ubit_flip) auto
    qed
    with fa have "(n_v6 m, ?a) \<in> net_addrs m" by (simp add: mem_net_addrs [OF assms(2)] w)
    with assms(3) have an: "(n_v6 m, ?a) \<in> net_addrs n" by blast
    let ?i = "?w - n_plen n"
    have i: "?i < ?w" "?i < 128" "?i = ?w - 1 - ?p" using lt pw net_width_cases [of n] by auto
    have "ubit ?a ?i = (\<not> ubit (n_ip m) ?i)"
      by (rule trans [OF ubit_flip [OF pw(1) net_width_le i(2)] if_P [OF i(3)]])
    moreover have "ubit ?a ?i = ubit (n_ip n) ?i" "ubit (n_ip m) ?i = ubit (n_ip n) ?i"
      using an ip i mem_net_addrs [OF assms(1)] by blast+
    ultimately show False by blast
  qed
  with ip fam show ?thesis
    unfolding contains_bits [OF assms(1)] mem_net_addrs [OF assms(1)] by simp
qed

lemma contains_iff_subset:
  "wf_net n \<Longrightarrow> wf_net m \<Longrightarrow> net_contains n m \<longleftrightarrow> net_addrs m \<subseteq> net_addrs n"
  using contains_subset subset_contains by blast

lemma nested_or_disjoint:
  assumes "wf_net n" "wf_net m"
  shows "net_contains n m \<or> net_contains m n \<or> net_addrs n \<inter> net_addrs m = {}"
proof (rule ccontr)
  assume h: "\<not> ?thesis"
  then obtain f a where a: "(f, a) \<in> net_addrs n" "(f, a) \<in> net_addrs m" by auto
  note an = a(1) [unfolded mem_net_addrs [OF assms(1)]] and am = a(2) [unfolded mem_net_addrs [OF assms(2)]]
  from an am have fam: "n_v6 n = n_v6 m" by simp
  then have w: "net_width n = net_width m" by (rule same_width)
  have agree: "ubit (n_ip m) i = ubit (n_ip n) i"
    if "net_width n - n_plen n \<le> i" "net_width n - n_plen m \<le> i" "i < net_width n" for i
    using an am that w by metis
  show False
  proof (cases "n_plen n \<le> n_plen m")
    case True
    then have "net_contains n m"
    proof -
      have "ubit (n_ip m) i = ubit (n_ip n) i" if "net_width n - n_plen n \<le> i" "i < net_width n" for i
        by (rule agree) (use that True in linarith)+
      with True fam show ?thesis by (simp add: contains_bits assms(1))
    qed
    with h show False by blast
  next
    case False
    then have "n_plen m \<le> n_plen n" by simp
    then have "net_contains m n"
    proof -
      have "ubit (n_ip m) i = ubit (n_ip n) i" if "net_width n - n_plen m \<le> i" "i < net_width n" for i
        by (rule agree) (use that False in linarith)+
      with False fam w show ?thesis by (simp add: contains_bits assms(2))
    qed
    with h show False by blast
  qed
qed


section \<open>Subtraction\<close>

text \<open>A strict containment: the hole has the longer prefix.\<close>

lemma strict_contains_plen:
  assumes "wf_net n" "wf_net h" "net_contains n h" "\<not> net_contains h n"
  shows "n_plen n < n_plen h"
proof (rule ccontr)
  assume "\<not> n_plen n < n_plen h"
  with assms(1,3) have "n_plen n = n_plen h" by (simp add: contains_bits)
  with assms same_width [of n h] show False by (auto simp: contains_bits)
qed

lemma mem_minus_piece:
  assumes "wf_net n" "wf_net h" "net_contains n h" "n_plen n < i" "i \<le> n_plen h"
  shows "(f, a) \<in> net_addrs (minus_piece n h i) \<longleftrightarrow> f = n_v6 n \<and> fits (net_width n) a \<and>
     ubit a (net_width n - i) \<noteq> ubit (n_ip h) (net_width n - i) \<and>
     (\<forall>j. net_width n - i < j \<and> j < net_width n \<longrightarrow> ubit a j = ubit (n_ip h) j)"
    and "wf_net (minus_piece n h i)"
proof -
  let ?w = "net_width n"
  have "n_v6 n = n_v6 h" using assms(1,3) by (simp add: contains_bits)
  then have w: "?w = net_width h" by (rule same_width)
  have iw: "i \<le> ?w" "0 < i" "i - 1 < ?w" using assms(4,5) w wf_netD(1) [OF assms(2)] by linarith+
  have wp: "net_width (minus_piece n h i) = ?w"
    by (simp add: minus_piece_def Let_def net_width_def)
  have "fits ?w (n_ip h)" using assms(2) w by (simp add: wf_net_def)
  then have ff: "fits ?w (flip_bit_at (n_ip h) ?w (i - 1))" using iw by (simp add: flip_fits)
  have sel: "n_v6 (minus_piece n h i) = n_v6 n" "n_plen (minus_piece n h i) = i"
    "n_scope (minus_piece n h i) = n_scope n"
    and ip: "n_ip (minus_piece n h i) = u_and (flip_bit_at (n_ip h) ?w (i - 1)) (ones ?w i)"
    by (simp_all add: minus_piece_def Let_def)
  have "u_and (u_and x m) m = u_and x m" for x m by (rule ubit_eqI) auto
  moreover have "fits ?w (u_and x m)" if "fits ?w x" for x m using that by (simp add: fits_def)
  moreover have "(\<not> n_v6 n \<longrightarrow> n_scope n = []) \<and> CHR ''/'' \<notin> set (n_scope n) \<and>
      CHR ''%'' \<notin> set (n_scope n)"
    using wf_netD(4-6) [OF assms(1)] by blast
  ultimately show wf: "wf_net (minus_piece n h i)"
    unfolding wf_net_def wp sel ip using ff iw(1) by blast
  have flip: "ubit (flip_bit_at (n_ip h) ?w (i - 1)) j =
      (if j = ?w - i then \<not> ubit (n_ip h) j else ubit (n_ip h) j)" if "j < ?w" for j
  proof -
    have "j < 128" using that net_width_le by (rule less_le_trans)
    then show ?thesis using iw by (subst ubit_flip) auto
  qed
  have bits: "ubit (n_ip (minus_piece n h i)) j =
      (if j = ?w - i then \<not> ubit (n_ip h) j else ubit (n_ip h) j)" if "?w - i \<le> j" "j < ?w" for j
    using that iw flip net_width_cases [of n] by (simp add: ip ubit_ones_net)
  have "(\<forall>j. ?w - i \<le> j \<and> j < ?w \<longrightarrow> ubit a j = ubit (n_ip (minus_piece n h i)) j) \<longleftrightarrow>
      ubit a (?w - i) \<noteq> ubit (n_ip h) (?w - i) \<and>
      (\<forall>j. ?w - i < j \<and> j < ?w \<longrightarrow> ubit a j = ubit (n_ip h) j)"
    using bits iw by (auto simp: le_less)
  then show "(f, a) \<in> net_addrs (minus_piece n h i) \<longleftrightarrow> f = n_v6 n \<and> fits ?w a \<and>
      ubit a (?w - i) \<noteq> ubit (n_ip h) (?w - i) \<and>
      (\<forall>j. ?w - i < j \<and> j < ?w \<longrightarrow> ubit a j = ubit (n_ip h) j)"
    unfolding mem_net_addrs [OF wf] sel wp by simp
qed

lemma last_difference:
  assumes "\<not> (\<forall>j. m \<le> j \<and> j < (k :: nat) \<longrightarrow> P j)"
  shows "\<exists>j. m \<le> j \<and> j < k \<and> \<not> P j \<and> (\<forall>l. j < l \<and> l < k \<longrightarrow> P l)"
proof -
  let ?S = "{j. m \<le> j \<and> j < k \<and> \<not> P j}"
  have fin: "finite ?S" "?S \<noteq> {}" using assms by auto
  then have mx: "Max ?S \<in> ?S" by (rule Max_in)
  moreover have "P l" if "Max ?S < l" "l < k" for l
  proof (rule ccontr)
    assume "\<not> P l"
    with that mx have "l \<in> ?S" by auto
    with fin(1) have "l \<le> Max ?S" by (rule Max_ge)
    with that show False by simp
  qed
  ultimately show ?thesis by blast
qed

lemma covers_net_minus:
  assumes "wf_net n" "wf_net h"
  shows "\<Union> (net_addrs ` set (net_minus n h)) = net_addrs n - net_addrs h"
proof -
  consider "n_v6 n \<noteq> n_v6 h \<or> (\<not> net_contains n h \<and> \<not> net_contains h n)"
    | "net_contains h n" | "net_contains n h" "\<not> net_contains h n" "n_v6 n = n_v6 h" by blast
  then show ?thesis
  proof cases
    case 1
    then have "net_addrs n \<inter> net_addrs h = {}"
      using nested_or_disjoint [OF assms] by (auto simp: net_addrs_def)
    with 1 show ?thesis by (auto simp: net_minus_def)
  next
    case 2
    then have "n_v6 n = n_v6 h" "net_addrs n \<subseteq> net_addrs h"
      using contains_subset [OF assms(2,1)] contains_bits [OF assms(2)] by auto
    with 2 show ?thesis by (simp add: net_minus_def)
  next
    case 3
    let ?w = "net_width n"
    have w: "?w = net_width h" using 3(3) by (rule same_width)
    have hw: "n_plen h \<le> ?w" using assms(2) w by (simp add: wf_net_def)
    note piece = mem_minus_piece(1) [OF assms 3(1)]
    have out: "(f, a) \<in> \<Union> (net_addrs ` set (net_minus n h)) \<longleftrightarrow>
        (\<exists>i. n_plen n < i \<and> i \<le> n_plen h \<and> (f, a) \<in> net_addrs (minus_piece n h i))" for f a
      using 3 by (auto simp: net_minus_def less_Suc_eq_le Suc_le_eq)
    have nb: "\<forall>j. ?w - n_plen n \<le> j \<and> j < ?w \<longrightarrow> ubit (n_ip h) j = ubit (n_ip n) j"
      using 3(1) contains_bits [OF assms(1)] by blast
    have "(f, a) \<in> \<Union> (net_addrs ` set (net_minus n h)) \<longleftrightarrow> (f, a) \<in> net_addrs n - net_addrs h" for f a
    proof
      assume "(f, a) \<in> \<Union> (net_addrs ` set (net_minus n h))"
      then obtain i where i: "n_plen n < i" "i \<le> n_plen h" "(f, a) \<in> net_addrs (minus_piece n h i)"
        using out by blast
      note p = i(3) [unfolded piece [OF i(1,2)]]
      have "?w - i < ?w - n_plen n" "?w - n_plen h \<le> ?w - i" "?w - i < ?w" using i hw by auto
      then have "(f, a) \<notin> net_addrs h"
        using p unfolding mem_net_addrs [OF assms(2)] w [symmetric] by blast
      moreover have "ubit a j = ubit (n_ip n) j" if "?w - n_plen n \<le> j" "j < ?w" for j
        using p nb that \<open>?w - i < ?w - n_plen n\<close> less_le_trans by metis
      then have "(f, a) \<in> net_addrs n"
        using p by (simp add: mem_net_addrs [OF assms(1)])
      ultimately show "(f, a) \<in> net_addrs n - net_addrs h" by blast
    next
      assume "(f, a) \<in> net_addrs n - net_addrs h"
      then have a: "f = n_v6 n" "fits ?w a" "\<forall>j. ?w - n_plen n \<le> j \<and> j < ?w \<longrightarrow> ubit a j = ubit (n_ip n) j"
        "\<not> (\<forall>j. ?w - n_plen h \<le> j \<and> j < ?w \<longrightarrow> ubit a j = ubit (n_ip h) j)"
        using 3(3) by (auto simp: mem_net_addrs assms w)
      from last_difference [OF a(4)] obtain j where j: "?w - n_plen h \<le> j" "j < ?w"
        "ubit a j \<noteq> ubit (n_ip h) j" "\<forall>l. j < l \<and> l < ?w \<longrightarrow> ubit a l = ubit (n_ip h) l" by blast
      have "j < ?w - n_plen n" using j a(3) nb by (metis not_le)
      then have i: "n_plen n < ?w - j" "?w - j \<le> n_plen h" "?w - (?w - j) = j" using j hw by auto
      have "(f, a) \<in> net_addrs (minus_piece n h (?w - j))"
        unfolding piece [OF i(1,2)] i(3) using a j by blast
      with i out show "(f, a) \<in> \<Union> (net_addrs ` set (net_minus n h))" by blast
    qed
    then show ?thesis by auto
  qed
qed

lemma wf_net_minus:
  assumes "wf_net n" "wf_net h" "q \<in> set (net_minus n h)"
  shows "wf_net q"
  using assms mem_minus_piece(2) [OF assms(1,2)]
  by (auto simp: net_minus_def less_Suc_eq_le Suc_le_eq split: if_splits)

lemma disjoint_net_minus:
  assumes "wf_net n" "wf_net h"
  shows "sorted_wrt (\<lambda>p q. net_addrs p \<inter> net_addrs q = {}) (net_minus n h)"
proof (cases "net_contains n h \<and> \<not> net_contains h n \<and> n_v6 n = n_v6 h")
  case False
  then show ?thesis by (auto simp: net_minus_def)
next
  case True
  then have c: "net_contains n h" by simp
  let ?w = "net_width n"
  have hw: "n_plen h \<le> ?w" using assms(2) True same_width by (metis wf_net_def)
  have "net_addrs (minus_piece n h i) \<inter> net_addrs (minus_piece n h k) = {}"
    if "n_plen n < i" "i < k" "k \<le> n_plen h" for i k
  proof -
    have "i \<le> n_plen h" "n_plen n < k" "?w - k < ?w - i" "?w - i < ?w" using that hw by auto
    then show ?thesis using that mem_minus_piece(1) [OF assms c] by fastforce
  qed
  then have "sorted_wrt (\<lambda>i k. net_addrs (minus_piece n h i) \<inter> net_addrs (minus_piece n h k) = {})
      [n_plen n + 1..<n_plen h + 1]"
    by (intro sorted_wrt_mono_rel [OF _ sorted_wrt_upt]) (simp del: upt_Suc)
  moreover have "net_minus n h = map (minus_piece n h) [n_plen n + 1..<n_plen h + 1]"
    using True by (simp add: net_minus_def)
  ultimately show ?thesis by (simp only: sorted_wrt_map)
qed

text \<open>The number of pieces: one for each bit between the two prefix lengths.\<close>

lemma length_net_minus:
  assumes "net_contains n h" "\<not> net_contains h n"
  shows "length (net_minus n h) = n_plen h - n_plen n"
  using assms by (auto simp: net_minus_def net_contains_def split: if_splits)


section \<open>Taking out several holes\<close>

text \<open>
  What \<open>Subtract\<close> needs of networks: a subtraction that returns well-formed pieces which cover
  exactly the difference and do not overlap. The clients below hold of every provider of it.
\<close>

locale prefix_algebra =
  fixes ok :: "'n \<Rightarrow> bool"
    and covers :: "'n \<Rightarrow> 'a set"
    and minus_of :: "'n \<Rightarrow> 'n \<Rightarrow> 'n list"
  assumes covers_minus: "ok n \<Longrightarrow> ok h \<Longrightarrow> \<Union> (covers ` set (minus_of n h)) = covers n - covers h"
    and ok_minus: "ok n \<Longrightarrow> ok h \<Longrightarrow> q \<in> set (minus_of n h) \<Longrightarrow> ok q"
    and disjoint_minus: "ok n \<Longrightarrow> ok h \<Longrightarrow>
          sorted_wrt (\<lambda>p q. covers p \<inter> covers q = {}) (minus_of n h)"
begin

lemma covers_step:
  assumes "\<forall>q \<in> set ps. ok q" "ok h"
  shows "\<Union> (covers ` set (concat (map (\<lambda>q. minus_of q h) ps))) = \<Union> (covers ` set ps) - covers h"
  using assms(1)
proof (induction ps)
  case Nil
  then show ?case by simp
next
  case (Cons p ps)
  then have "ok p" "\<forall>q \<in> set ps. ok q" by simp_all
  with Cons.IH covers_minus [OF \<open>ok p\<close> assms(2)] show ?case
    by (simp add: image_Un Un_Diff)
qed

lemma ok_step:
  assumes "\<forall>q \<in> set ps. ok q" "ok h"
  shows "\<forall>q \<in> set (concat (map (\<lambda>q. minus_of q h) ps)). ok q"
proof
  fix q assume "q \<in> set (concat (map (\<lambda>q. minus_of q h) ps))"
  then obtain p where "p \<in> set ps" "q \<in> set (minus_of p h)" by auto
  with assms show "ok q" by (meson ok_minus)
qed

lemma piece_subset: "ok n \<Longrightarrow> ok h \<Longrightarrow> q \<in> set (minus_of n h) \<Longrightarrow> covers q \<subseteq> covers n"
  using covers_minus [of n h] by blast

lemma disjoint_step:
  assumes "\<forall>q \<in> set ps. ok q" "ok h" "sorted_wrt (\<lambda>p q. covers p \<inter> covers q = {}) ps"
  shows "sorted_wrt (\<lambda>p q. covers p \<inter> covers q = {}) (concat (map (\<lambda>q. minus_of q h) ps))"
  using assms
proof (induction ps)
  case Nil
  then show ?case by simp
next
  case (Cons p ps)
  have "covers x \<inter> covers y = {}"
    if x: "x \<in> set (minus_of p h)" and q: "q \<in> set ps" "y \<in> set (minus_of q h)" for x q y
  proof -
    have "covers x \<subseteq> covers p" "covers y \<subseteq> covers q"
      using piece_subset Cons.prems x q by auto
    moreover have "covers p \<inter> covers q = {}" using Cons.prems(3) q(1) by simp
    ultimately show ?thesis by blast
  qed
  with Cons show ?case by (auto simp: sorted_wrt_append disjoint_minus)
qed

lemma covers_fold:
  assumes "\<forall>q \<in> set ps. ok q" "\<forall>h \<in> set hs. ok h"
  shows "\<Union> (covers ` set (foldl (\<lambda>ps h. concat (map (\<lambda>q. minus_of q h) ps)) ps hs)) =
    \<Union> (covers ` set ps) - \<Union> (covers ` set hs)"
  using assms
proof (induction hs arbitrary: ps)
  case Nil
  then show ?case by simp
next
  case (Cons h hs)
  have "\<forall>q \<in> set (concat (map (\<lambda>q. minus_of q h) ps)). ok q"
    using Cons.prems by (intro ok_step) auto
  then have "\<Union> (covers ` set (foldl (\<lambda>ps h. concat (map (\<lambda>q. minus_of q h) ps)) ps (h # hs))) =
      \<Union> (covers ` set (concat (map (\<lambda>q. minus_of q h) ps))) - \<Union> (covers ` set hs)"
    using Cons.IH Cons.prems by simp
  also have "\<dots> = (\<Union> (covers ` set ps) - covers h) - \<Union> (covers ` set hs)"
    using covers_step [of ps h] Cons.prems by simp
  finally show ?case by auto
qed

lemma ok_fold:
  "\<forall>q \<in> set ps. ok q \<Longrightarrow> \<forall>h \<in> set hs. ok h \<Longrightarrow>
     \<forall>q \<in> set (foldl (\<lambda>ps h. concat (map (\<lambda>q. minus_of q h) ps)) ps hs). ok q"
proof (induction hs arbitrary: ps)
  case Nil
  then show ?case by simp
next
  case (Cons h hs)
  from Cons.prems have "\<forall>q \<in> set (concat (map (\<lambda>q. minus_of q h) ps)). ok q"
    by (intro ok_step) simp_all
  from Cons.IH [OF this] Cons.prems show ?case by simp
qed

lemma disjoint_fold:
  "\<forall>q \<in> set ps. ok q \<Longrightarrow> \<forall>h \<in> set hs. ok h \<Longrightarrow> sorted_wrt (\<lambda>p q. covers p \<inter> covers q = {}) ps \<Longrightarrow>
     sorted_wrt (\<lambda>p q. covers p \<inter> covers q = {})
       (foldl (\<lambda>ps h. concat (map (\<lambda>q. minus_of q h) ps)) ps hs)"
proof (induction hs arbitrary: ps)
  case Nil
  then show ?case by simp
next
  case (Cons h hs)
  from Cons.prems have "\<forall>q \<in> set (concat (map (\<lambda>q. minus_of q h) ps)). ok q"
    "sorted_wrt (\<lambda>p q. covers p \<inter> covers q = {}) (concat (map (\<lambda>q. minus_of q h) ps))"
    by (intro ok_step disjoint_step; simp)+
  from Cons.IH [OF this(1) _ this(2)] Cons.prems show ?case by simp
qed

end

interpretation cidr_algebra: prefix_algebra wf_net net_addrs net_minus
proof (unfold_locales, goal_cases)
  case (1 n h)
  then show ?case by (rule covers_net_minus)
next
  case (2 n h q)
  then show ?case by (rule wf_net_minus)
next
  case (3 n h)
  then show ?case by (rule disjoint_net_minus)
qed

lemma covers_minus_holes:
  "wf_net n \<Longrightarrow> \<forall>h \<in> set hs. wf_net h \<Longrightarrow>
     \<Union> (net_addrs ` set (minus_holes hs [n])) = net_addrs n - \<Union> (net_addrs ` set hs)"
  using cidr_algebra.covers_fold [of "[n]" hs] by (simp add: minus_holes_def)

lemma wf_minus_holes:
  "wf_net n \<Longrightarrow> \<forall>h \<in> set hs. wf_net h \<Longrightarrow> q \<in> set (minus_holes hs [n]) \<Longrightarrow> wf_net q"
  unfolding minus_holes_def by (rule bspec [OF cidr_algebra.ok_fold]) simp_all

end
