(* ===== verification/CidrRoundtrip.thy ===== *)
theory CidrRoundtrip
  imports NetSets
begin

text \<open>
  The parser against the printer of \<open>internal/cidr\<close>: every parsed network is well-formed, and
  the canonical form of a well-formed network parses to that network, for both families (the
  longest-run compression of IPv6 included).
\<close>

section \<open>What the parser accepts\<close>

lemma prefix_from_string_le: "prefix_from_string s mx = Some p \<Longrightarrow> p \<le> mx"
  by (auto simp: prefix_from_string_def Let_def split: if_splits)

lemma prefix_from_int_mask_le: "prefix_from_int_mask x = Some p \<Longrightarrow> p \<le> 32"
  by (auto simp: prefix_from_int_mask_def Let_def split: if_splits)

lemma prefix_from_ip_string_le: "prefix_from_ip_string s = Some p \<Longrightarrow> p \<le> 32"
  by (auto simp: prefix_from_ip_string_def prefix_from_int_mask_le split: option.splits)

lemma fits_and_ones: "w = 32 \<or> w = 128 \<Longrightarrow> p \<le> w \<Longrightarrow> fits w (u_and a (ones w p))"
  by (auto simp: fits_def ubit_ones_net)

lemma u_and_idem: "u_and (u_and a m) m = u_and a m"
  by (rule ubit_eqI) auto

lemma parse4_wf: "parse4 a msk h = Some n \<Longrightarrow> wf_net n \<and> \<not> n_v6 n"
proof -
  assume "parse4 a msk h = Some n"
  then obtain ip p where p: "n = \<lparr>n_v6 = False, n_ip = u_and (mk128 0 (ucast (ip :: 32 word))) (ones 32 p),
      n_plen = p, n_scope = []\<rparr>" "p \<le> 32"
    by (auto simp: parse4_def split: option.splits if_splits
        dest: prefix_from_string_le prefix_from_ip_string_le)
  then show ?thesis
    by (simp add: wf_net_def net_width_def fits_and_ones u_and_idem)
qed

lemma cut_at_rest: "cut_at c s = (a, b, f) \<Longrightarrow> set a \<subseteq> set s \<and> set b \<subseteq> set s \<and> (f \<or> b = []) \<and> c \<notin> set a"
proof (cases "c \<in> set s")
  case True
  assume h: "cut_at c s = (a, b, f)"
  from True obtain u v where "s = u @ c # v" "c \<notin> set u" by (meson split_list_first)
  with h show ?thesis by (auto simp: cut_at_found)
next
  case False
  assume "cut_at c s = (a, b, f)"
  with False show ?thesis by (auto simp: cut_at_none)
qed

lemma fits128 [simp]: "fits 128 a"
  by (simp add: fits_def)

lemma parse6_wf:
  assumes "parse6 a msk h = Some n" "CHR ''/'' \<notin> set a"
  shows "wf_net n \<and> n_v6 n"
proof -
  from assms(1) obtain ip scope p where i: "ip6 a = Some (ip, scope)" "p \<le> 128"
    and n: "n = \<lparr>n_v6 = True, n_ip = u_and ip (ones 128 p), n_plen = p,
      n_scope = (if u_and ip (ones 128 p) = ip then scope else [])\<rparr>"
    by (auto simp: parse6_def Let_def split: option.splits if_splits prod.splits dest: prefix_from_string_le)
  obtain x sc f where c: "cut_at (CHR ''%'') a = (x, sc, f)" by (cases "cut_at (CHR ''%'') a") auto
  with i have "scope = sc" "f \<longrightarrow> CHR ''%'' \<notin> set sc"
    by (auto simp: ip6_def split: if_splits option.splits)
  with cut_at_rest [OF c] assms(2) have "CHR ''%'' \<notin> set scope" "CHR ''/'' \<notin> set scope" by auto
  with n i(2) show ?thesis
    by (simp add: wf_net_def net_width_def u_and_idem)
qed

lemma parse_net_wf [netwf]: "parse_net s = Some n \<Longrightarrow> wf_net n"
proof -
  assume p: "parse_net s = Some n"
  obtain a m f where c: "cut_at (CHR ''/'') s = (a, m, f)" by (cases "cut_at (CHR ''/'') s") auto
  from cut_at_rest [OF c] have "CHR ''/'' \<notin> set a" by simp
  with p c show ?thesis
    by (auto simp: parse_net_def split: if_splits option.splits dest: parse4_wf parse6_wf)
qed

lemma parsed_holes_wf: "h \<in> set (parsed_holes hs) \<Longrightarrow> wf_net h"
  by (auto simp: parsed_holes_def map_filter_def netwf)

section \<open>Prefix lengths\<close>

lemma is_ascii_digits_itoa [simp]: "is_ascii_digits (itoa n)"
  by (auto simp: is_ascii_digits_def list_all_iff dest: itoa_digits)

lemma itoa_0: "itoa 0 = ''0''"
  by code_simp

lemma prefix_from_string_itoa [simp]:
  assumes "p \<le> mx" "mx < 1000"
  shows "prefix_from_string (itoa p) mx = Some p"
proof -
  have len: "length (itoa p) \<le> 3" using assms by (intro length_itoa_le) auto
  have drop: "dropWhile (\<lambda>c. c = CHR ''0'') (itoa p) = (if p = 0 then [] else itoa p)"
  proof (cases "p = 0")
    case True
    then show ?thesis by (simp add: itoa_0)
  next
    case False
    then show ?thesis using hd_itoa [of p] itoa_nonempty [of p] by (cases "itoa p") auto
  qed
  show ?thesis
  proof (cases "p = 0")
    case True
    with assms show ?thesis
      unfolding prefix_from_string_def drop by (simp add: dec_val_def)
  next
    case False
    with drop len assms show ?thesis
      by (simp add: prefix_from_string_def dec_val_itoa)
  qed
qed

section \<open>Dotted quads\<close>

lemma and_255: "a AND 255 = take_bit 8 (a :: 32 word)"
  by (simp add: take_bit_eq_mask mask_eq_exp_minus_1)

lemma unat_octet_le: "unat (take_bit 8 (a :: 32 word)) \<le> 255"
proof -
  have "take_bit 8 (unat a) < 2 ^ 8" by (rule take_bit_nat_less_exp)
  then show ?thesis by (simp add: unsigned_take_bit_eq)
qed

lemma unat_top_octet_le: "unat (drop_bit 24 (a :: 32 word)) \<le> 255"
proof -
  have "unat a < 2 ^ 32" using unsigned_less [of a, where 'a = nat] by simp
  moreover have "unat (drop_bit 24 a) = unat a div 2 ^ 24"
    by (simp only: unat_drop_bit_eq) (simp only: drop_bit_eq_div)
  ultimately show ?thesis by simp
qed

lemma octet_ok:
  assumes "k \<le> 255"
  shows "is_ascii_digits (itoa k) \<and> length (itoa k) \<le> 3 \<and>
    \<not> (itoa k \<noteq> ''0'' \<and> hd (itoa k) = CHR ''0'') \<and> dec_val (itoa k) = k"
proof -
  have "length (itoa k) \<le> 3" using assms by (intro length_itoa_le) auto
  moreover have "itoa k = ''0'' \<or> hd (itoa k) \<noteq> CHR ''0''"
    using hd_itoa [of k] by (cases "k = 0") (auto simp: itoa_0)
  ultimately show ?thesis by (auto simp: dec_val_itoa)
qed

lemma ip4_octets_step:
  assumes "k \<le> 255"
  shows "ip4_octets v (itoa k # qs) = ip4_octets (push_bit 8 v OR of_nat k) qs"
  using octet_ok [OF assms] assms by (auto simp: Let_def)

lemma quad_bits:
  "((push_bit 24 (drop_bit 24 a) OR push_bit 16 (take_bit 8 (drop_bit 16 a)))
     OR push_bit 8 (take_bit 8 (drop_bit 8 a))) OR take_bit 8 a = (a :: 32 word)"
proof (rule bit_word_eqI)
  fix n assume n: "n < LENGTH(32)"
  consider "n < 8" | "8 \<le> n" "n < 16" | "16 \<le> n" "n < 24" | "24 \<le> n" by linarith
  then show "bit (((push_bit 24 (drop_bit 24 a) OR push_bit 16 (take_bit 8 (drop_bit 16 a)))
     OR push_bit 8 (take_bit 8 (drop_bit 8 a))) OR take_bit 8 a) n = bit a n"
    by cases (use n in \<open>auto simp: bit_simps\<close>)
qed

lemma no_sep_itoa: "\<not> is_digit c \<Longrightarrow> c \<notin> set (itoa n)"
  using itoa_digits by blast

lemma ip4_dotted_quad [simp]: "ip4 (dotted_quad a) = Some a"
proof -
  let ?os = "map (\<lambda>w. itoa (unat w)) [drop_bit 24 a, take_bit 8 (drop_bit 16 a), take_bit 8 (drop_bit 8 a), take_bit 8 a]"
  have dq: "dotted_quad a = join [CHR ''.''] ?os" by (simp add: dotted_quad_def and_255)
  have "split_on (CHR ''.'') (dotted_quad a) = ?os"
    unfolding dq by (rule split_join) (auto simp: no_sep_itoa is_digit_def)
  moreover have "dotted_quad a \<noteq> []" by (simp add: dq)
  ultimately show ?thesis
    by (simp add: ip4_def ip4_octets_step unat_octet_le unat_top_octet_le quad_bits del: ip4_octets.simps(2))
qed

lemma set_dotted_quad: "c \<in> set (dotted_quad a) \<Longrightarrow> is_digit c \<or> c = CHR ''.''"
  by (auto simp: dotted_quad_def dest: itoa_digits)

lemma fits32_word:
  assumes "fits 32 ip"
  shows "mk128 0 (ucast (ucast (u_lo ip) :: 32 word)) = ip"
proof (rule ubit_eqI)
  fix i :: nat assume i: "i < 128"
  show "ubit (mk128 0 (ucast (ucast (u_lo ip) :: 32 word))) i = ubit ip i"
    using assms i by (auto simp: fits_def ubit_def bit_simps)
qed

text \<open>IPv4: the canonical form parses to the network.\<close>

lemma parse_net_string4:
  assumes "wf_net n" "\<not> n_v6 n"
  shows "parse_net (net_string n) = Some n"
proof -
  let ?a = "ucast (u_lo (n_ip n)) :: 32 word"
  have w: "net_width n = 32" using assms(2) by (simp add: net_width_def)
  note wf = wf_netD [OF assms(1)]
  have "CHR ''/'' \<notin> set (dotted_quad ?a)" using set_dotted_quad by (fastforce simp: is_digit_def)
  then have cut: "cut_at (CHR ''/'') (net_string n) = (dotted_quad ?a, itoa (n_plen n), True)"
    using assms(2) by (simp add: net_string_def cut_at_found)
  have "CHR ''/'' \<notin> set (itoa (n_plen n))" by (simp add: no_sep_itoa is_digit_def)
  moreover have "parse4 (dotted_quad ?a) (itoa (n_plen n)) True = Some n"
    using assms wf w fits32_word [of "n_ip n"] by (simp add: parse4_def)
  ultimately show ?thesis using cut by (simp add: parse_net_def)
qed


section \<open>IPv6 hextets\<close>

lemma word_nibble:
  assumes "d < 16"
  shows "push_bit 4 (of_nat m :: 64 word) OR of_nat d = of_nat (m * 16 + d)"
proof -
  have "push_bit 4 (of_nat m :: 64 word) AND of_nat d = 0"
  proof (rule bit_word_eqI)
    fix n assume "n < LENGTH(64)"
    have "\<not> bit d n" if "4 \<le> n"
    proof -
      have "d < 2 ^ n" using assms that power_increasing [of 4 n "2 :: nat"] by simp
      then show ?thesis by (simp add: bit_iff_odd)
    qed
    then show "bit (push_bit 4 (of_nat m :: 64 word) AND of_nat d) n = bit (0 :: 64 word) n"
      by (auto simp: bit_simps)
  qed
  then have "push_bit 4 (of_nat m :: 64 word) OR of_nat d = push_bit 4 (of_nat m) + of_nat d"
    by (simp add: disjunctive_add_eq_or)
  then show ?thesis by (simp add: push_bit_eq_mult algebra_simps)
qed

definition hex_val :: "string \<Rightarrow> nat" where
  "hex_val s = foldl (\<lambda>n c. n * 16 + hex_digit_val c) 0 s"

lemma foldl_nibbles:
  "list_all is_hex s \<Longrightarrow>
     foldl (\<lambda>n c. push_bit 4 n OR of_nat (hex_digit_val c)) (of_nat m :: 64 word) s =
     of_nat (foldl (\<lambda>n c. n * 16 + hex_digit_val c) m s)"
proof (induction s arbitrary: m)
  case Nil
  then show ?case by simp
next
  case (Cons c s)
  then have "push_bit 4 (of_nat m :: 64 word) OR of_nat (hex_digit_val c) = of_nat (m * 16 + hex_digit_val c)"
    by (intro word_nibble hex_digit_val_less) simp
  with Cons.IH [of "m * 16 + hex_digit_val c"] Cons.prems show ?case by (simp del: of_nat_add of_nat_mult)
qed

lemma hextet_eq: "s \<noteq> [] \<Longrightarrow> list_all is_hex s \<Longrightarrow> length s \<le> 4 \<Longrightarrow> hextet s = Some (of_nat (hex_val s))"
  using foldl_nibbles [of s 0] by (simp add: hextet_def hex_val_def)

lemma hex_val_digits: "hex_val (hex_digits n) = n"
proof (induction n rule: hex_digits.induct)
  case (1 n)
  show ?case
  proof (cases "n < 16")
    case True
    then show ?thesis by (simp add: hex_digits_small hex_val_def)
  next
    case False
    with 1 have "hex_val (hex_digits (n div 16)) = n div 16" by simp
    with False show ?thesis by (simp add: hex_digits_step hex_val_def)
  qed
qed

definition hex_word :: "string \<Rightarrow> bool" where
  "hex_word s \<longleftrightarrow> s \<noteq> [] \<and> list_all is_hex s"

lemma format_hex_word [simp]: "hex_word (format_hex v)"
  by (auto simp: format_hex_def hex_word_def list_all_iff is_hex_def is_digit_def dest: hex_digits_hex)

lemma hextet_format [simp]:
  assumes "unat v < 2 ^ 16"
  shows "hextet (format_hex v) = Some v"
proof (cases "v = 0")
  case True
  have "hextet ''0'' = Some 0" by code_simp
  with True show ?thesis by (simp add: format_hex_def)
next
  case False
  have "length (hex_digits (unat v)) \<le> 4" using assms by (intro length_hex_digits_le) auto
  moreover have "list_all is_hex (hex_digits (unat v))" by (auto simp: list_all_iff dest: hex_digits_hex)
  ultimately show ?thesis using False by (simp add: format_hex_def hextet_eq hex_val_digits)
qed

lemma format_hex_zero: "unat v < 2 ^ 16 \<Longrightarrow> format_hex v = ''0'' \<longleftrightarrow> v = 0"
proof -
  assume v: "unat v < 2 ^ 16"
  have "hextet ''0'' = Some 0" by code_simp
  then show ?thesis using hextet_format [OF v] by (auto simp: format_hex_def)
qed

lemma and_ffff: "a AND 0xffff = take_bit 16 (a :: 64 word)"
  by (simp add: take_bit_eq_mask mask_eq_exp_minus_1)

lemma unat_take16: "unat (take_bit 16 (a :: 64 word)) < 2 ^ 16"
proof -
  have "take_bit 16 (unat a) < 2 ^ 16" by (rule take_bit_nat_less_exp)
  then show ?thesis by (simp add: unsigned_take_bit_eq)
qed

lemma raw_hextets_bound: "v \<in> set (raw_hextets a) \<Longrightarrow> unat v < 2 ^ 16"
  using unat_take16 by (auto simp: raw_hextets_def and_ffff)

lemma raw_hextets_list:
  "raw_hextets a =
     [take_bit 16 (drop_bit 48 (u_hi a)), take_bit 16 (drop_bit 32 (u_hi a)),
      take_bit 16 (drop_bit 16 (u_hi a)), take_bit 16 (u_hi a),
      take_bit 16 (drop_bit 48 (u_lo a)), take_bit 16 (drop_bit 32 (u_lo a)),
      take_bit 16 (drop_bit 16 (u_lo a)), take_bit 16 (u_lo a)]"
  by (simp add: raw_hextets_def and_ffff upt_rec)

lemma pack4_split:
  "pack4 (take_bit 16 (drop_bit 48 w) # take_bit 16 (drop_bit 32 w) # take_bit 16 (drop_bit 16 w) #
     take_bit 16 w # rest) = w"
proof (rule bit_word_eqI)
  fix n assume n: "n < LENGTH(64)"
  consider "n < 16" | "16 \<le> n" "n < 32" | "32 \<le> n" "n < 48" | "48 \<le> n" by linarith
  then show "bit (pack4 (take_bit 16 (drop_bit 48 w) # take_bit 16 (drop_bit 32 w) #
      take_bit 16 (drop_bit 16 w) # take_bit 16 w # rest)) n = bit w n"
    by cases (use n in \<open>auto simp: pack4_def bit_simps\<close>)
qed

lemma pack_raw_hextets: "mk128 (pack4 (raw_hextets a)) (pack4 (drop 4 (raw_hextets a))) = a"
  by (simp add: raw_hextets_list pack4_split)

lemma those_hextets:
  "\<forall>v \<in> set vs. unat v < 2 ^ 16 \<Longrightarrow> those (map hextet (map format_hex vs)) = Some vs"
  by (induction vs) auto

lemma length_raw_hextets [simp]: "length (raw_hextets a) = 8"
  by (simp add: raw_hextets_list)

section \<open>The longest run of zero hextets\<close>

text \<open>What the loop keeps: the best run and the current run are runs of zero hextets that end
  inside the part already read.\<close>

definition zero_run :: "string list \<Rightarrow> nat \<Rightarrow> nat \<Rightarrow> bool" where
  "zero_run h b l \<longleftrightarrow> b + l \<le> length h \<and> (\<forall>j. b \<le> j \<and> j < b + l \<longrightarrow> h ! j = ''0'')"

definition run_inv :: "string list \<Rightarrow> nat \<Rightarrow> run_state \<Rightarrow> bool" where
  "run_inv h i st \<longleftrightarrow>
     (case st of (best_start, best_len, start, run) \<Rightarrow>
        (case best_start of None \<Rightarrow> best_len = 0 | Some b \<Rightarrow> zero_run h b best_len) \<and>
        (case start of None \<Rightarrow> run = 0 | Some s \<Rightarrow> zero_run h s run \<and> s + run = i))"

lemma run_step_inv:
  assumes "run_inv h i st" "i < length h"
  shows "run_inv h (Suc i) (run_step (i, h ! i) st)"
proof -
  obtain bs bl st' r where st: "st = (bs, bl, st', r)" by (cases st) auto
  show ?thesis
  proof (cases "h ! i = ''0''")
    case False
    with assms st show ?thesis by (auto simp: run_inv_def run_step_def split: option.splits)
  next
    case True
    have "zero_run h (case st' of None \<Rightarrow> i | Some j \<Rightarrow> j) (r + 1)"
      using assms st True by (auto simp: run_inv_def zero_run_def less_Suc_eq split: option.splits)
    with assms st True show ?thesis
      by (auto simp: run_inv_def run_step_def Let_def split: option.splits)
  qed
qed

lemma fold_run_inv:
  "run_inv h i st \<Longrightarrow> i + length t = length h \<Longrightarrow> drop i h = t \<Longrightarrow>
     run_inv h (length h) (fold run_step (zip [i..<length h] t) st)"
proof (induction t arbitrary: i st)
  case Nil
  then show ?case by simp
next
  case (Cons x t)
  then have i: "i < length h" by simp
  have x: "x = h ! i" "drop (Suc i) h = t"
    using Cons.prems(3) i by (simp_all add: Cons_nth_drop_Suc [symmetric])
  have "zip [i..<length h] (x # t) = (i, x) # zip [Suc i..<length h] t"
    using i by (simp add: upt_rec)
  moreover have "run_inv h (length h) (fold run_step (zip [Suc i..<length h] t) (run_step (i, x) st))"
    using Cons.IH [of "Suc i"] Cons.prems i x run_step_inv by simp
  ultimately show ?case by simp
qed

lemma best_run_zero: "best_run h = (Some b, l) \<Longrightarrow> zero_run h b l"
proof -
  assume b: "best_run h = (Some b, l)"
  have "run_inv h 0 (None, 0, None, 0)" by (simp add: run_inv_def)
  then have "run_inv h (length h) (fold run_step (zip [0..<length h] h) (None, 0, None, 0))"
    by (rule fold_run_inv) auto
  with b show ?thesis by (auto simp: best_run_def run_inv_def split: prod.splits option.splits)
qed

section \<open>IPv6: the compressed form parses to the address\<close>

definition pad :: "string list \<Rightarrow> string list" where
  "pad xs = (if xs = [] then [[]] else xs)"

lemma pad_nonempty [simp]: "pad xs \<noteq> []"
  by (simp add: pad_def)

lemma join_pad: "join s (pad xs) = join s xs"
  by (simp add: pad_def)

lemma set_pad: "set (pad xs) \<subseteq> insert [] (set xs)"
  by (auto simp: pad_def)

lemma pad_ends: "hd (pad xs) = [] \<longleftrightarrow> xs = [] \<or> hd xs = []" "last (pad xs) = [] \<longleftrightarrow> xs = [] \<or> last xs = []"
  by (auto simp: pad_def)

lemma pad_nth: "\<forall>x \<in> set xs. x \<noteq> [] \<Longrightarrow> length (pad xs) > 1 \<Longrightarrow> i < length (pad xs) \<Longrightarrow> pad xs ! i \<noteq> []"
  by (auto simp: pad_def in_set_conv_nth split: if_splits)

lemma hex_wordD: "hex_word s \<Longrightarrow> s \<noteq> [] \<and> CHR '':'' \<notin> set s \<and> CHR ''.'' \<notin> set s \<and> CHR ''/'' \<notin> set s \<and> CHR ''%'' \<notin> set s"
  by (auto simp: hex_word_def list_all_iff is_hex_def is_digit_def)

lemma join_append: "xs \<noteq> [] \<Longrightarrow> ys \<noteq> [] \<Longrightarrow> join s (xs @ ys) = join s xs @ s @ join s ys"
proof (induction xs rule: list_nonempty_induct)
  case (single x)
  then show ?case by (cases ys) auto
next
  case (cons x xs)
  then show ?case by (cases xs) auto
qed

lemma split_join_colon:
  assumes "P \<noteq> []" "\<forall>p \<in> set P. p = [] \<or> hex_word p"
  shows "split_on (CHR '':'') (join '':'' P) = P"
  by (rule split_join) (use assms hex_wordD in fastforce)+

lemma skip_gap:
  assumes "\<forall>x \<in> set xs. x \<noteq> []" "\<forall>y \<in> set ys. y \<noteq> []"
  shows "ip6_skip (pad xs @ [] # pad ys) = Inr (Some (length (pad xs)))"
proof -
  let ?P = "pad xs @ [] # pad ys"
  let ?k = "length (pad xs)"
  have k: "1 \<le> ?k" "?k < length ?P - 1" by (simp_all add: Suc_le_eq)
  then have split: "[1..<length ?P - 1] = [1..<?k] @ ?k # [Suc ?k..<length ?P - 1]"
    by (metis upt_add_eq_append upt_conv_Cons le_add_diff_inverse less_imp_le_nat)
  have l: "?P ! i \<noteq> []" if "1 \<le> i" "i < ?k" for i
    using pad_nth [OF assms(1), of i] that by (simp add: nth_append)
  have r: "?P ! i \<noteq> []" if "Suc ?k \<le> i" "i < length ?P - 1" for i
    using pad_nth [OF assms(2), of "i - Suc ?k"] that by (simp add: nth_append nth_Cons' split: if_splits)
  have "filter (\<lambda>i. ?P ! i = []) [1..<?k] = []" using l by (auto simp: filter_empty_conv)
  moreover have "filter (\<lambda>i. ?P ! i = []) [Suc ?k..<length ?P - 1] = []"
    using r by (auto simp: filter_empty_conv)
  moreover have "?P ! ?k = []" by (simp add: nth_append)
  ultimately have "filter (\<lambda>i. ?P ! i = []) [1..<length ?P - 1] = [?k]"
    unfolding split by simp
  then show ?thesis by (simp add: ip6_skip_def)
qed

lemma layout_gap:
  assumes "\<forall>x \<in> set xs. x \<noteq> []" "\<forall>y \<in> set ys. y \<noteq> []" "length xs + length ys \<le> 7"
  shows "ip6_layout (pad xs @ [] # pad ys) (Some (length (pad xs))) =
    Some (length xs, 8 - (length xs + length ys), length ys)"
  using assms by (auto simp: ip6_layout_def Let_def pad_def)

lemma hextets_gap:
  assumes "those (map hextet xs) = Some vx" "those (map hextet ys) = Some vy"
  shows "ip6_hextets (pad xs @ [] # pad ys) (length xs, k, length ys) =
    Some (mk128 (pack4 (vx @ replicate k 0 @ vy)) (pack4 (drop 4 (vx @ replicate k 0 @ vy))))"
proof -
  have "take (length xs) (pad xs @ [] # pad ys) = xs" by (simp add: pad_def)
  moreover have "drop (length (pad xs @ [] # pad ys) - length ys) (pad xs @ [] # pad ys) = ys"
    by (simp add: pad_def)
  ultimately show ?thesis
    by (simp only: ip6_hextets_def prod.case assms option.case Let_def)
qed

lemma ip6_addr_gap:
  assumes "\<forall>x \<in> set xs. hex_word x" "\<forall>y \<in> set ys. hex_word y" "length xs + length ys \<le> 7"
    and "those (map hextet xs) = Some vx" "those (map hextet ys) = Some vy"
    and "w = vx @ replicate (8 - (length xs + length ys)) 0 @ vy"
  shows "ip6_addr (join '':'' xs @ ''::'' @ join '':'' ys) = Some (mk128 (pack4 w) (pack4 (drop 4 w)))"
proof -
  let ?P = "pad xs @ [] # pad ys"
  have s: "join '':'' xs @ ''::'' @ join '':'' ys = join '':'' ?P"
    using join_append [of "pad xs" "[] # pad ys"] join_append [of "[[]]" "pad ys"] by (simp add: join_pad)
  have ne: "\<forall>x \<in> set xs. x \<noteq> []" "\<forall>y \<in> set ys. y \<noteq> []" using assms hex_wordD by blast+
  have words: "\<forall>p \<in> set ?P. p = [] \<or> hex_word p"
    using assms(1,2) set_pad [of xs] set_pad [of ys] by auto
  then have sp: "split_on (CHR '':'') (join '':'' ?P) = ?P" by (intro split_join_colon) simp_all
  have "last ?P \<in> set ?P" by (rule last_in_set) simp
  with words have "last ?P = [] \<or> hex_word (last ?P)" by blast
  then have "CHR ''.'' \<notin> set (last ?P)" using hex_wordD [of "last ?P"] by (auto simp del: last_append)
  moreover have "length ?P \<ge> 3"
  proof -
    have "length (pad xs) \<ge> 1" "length (pad ys) \<ge> 1" by (simp_all add: Suc_le_eq)
    then show ?thesis by simp
  qed
  ultimately have parts: "ip6_parts (join '':'' ?P) = Some ?P" by (simp add: ip6_parts_def sp)
  have len: "length ?P \<le> 9" using assms(3) by (auto simp: pad_def)
  have nn: "join '':'' ?P \<noteq> []" unfolding s [symmetric] by simp
  show ?thesis
    unfolding s using nn parts len
    by (simp add: ip6_addr_def skip_gap [OF ne] layout_gap [OF ne assms(3)] hextets_gap [OF assms(4,5)] assms(6)
        del: append_assoc)
qed

lemma ip6_addr_full:
  assumes "\<forall>x \<in> set xs. hex_word x" "length xs = 8" "those (map hextet xs) = Some w"
  shows "ip6_addr (join '':'' xs) = Some (mk128 (pack4 w) (pack4 (drop 4 w)))"
proof -
  have ne: "xs \<noteq> []" using assms(2) by auto
  have sp: "split_on (CHR '':'') (join '':'' xs) = xs" using assms(1) ne by (intro split_join_colon) simp_all
  have ends: "hd xs \<noteq> []" "last xs \<noteq> []" "CHR ''.'' \<notin> set (last xs)"
    using assms(1) ne hd_in_set [of xs] last_in_set [of xs] hex_wordD by blast+
  have "filter (\<lambda>i. xs ! i = []) [1..<length xs - 1] = []"
    using assms(1) hex_wordD by (fastforce simp: filter_empty_conv)
  then have skip: "ip6_skip xs = Inr None" by (simp add: ip6_skip_def)
  have "join '':'' xs \<noteq> []" using sp ne ends(1) by auto
  then show ?thesis
    using ends assms by (simp add: ip6_addr_def ip6_parts_def Let_def sp skip ip6_layout_def ip6_hextets_def)
qed

lemma those_hextets_take:
  assumes "\<forall>v \<in> set vs. unat v < 2 ^ 16"
  shows "those (map hextet (take k (map format_hex vs))) = Some (take k vs)"
    and "those (map hextet (drop k (map format_hex vs))) = Some (drop k vs)"
  using those_hextets [of "take k vs"] those_hextets [of "drop k vs"] assms
    in_set_takeD [of _ k vs] in_set_dropD [of _ k vs]
  by (auto simp: take_map drop_map simp del: map_map)

lemma zero_run_words:
  assumes "zero_run (map format_hex vs) b l" "\<forall>v \<in> set vs. unat v < 2 ^ 16"
  shows "take b vs @ replicate l 0 @ drop (b + l) vs = vs"
proof -
  have len: "b + l \<le> length vs" using assms(1) by (simp add: zero_run_def)
  have z: "vs ! j = 0" if "b \<le> j" "j < b + l" for j
  proof -
    have "format_hex (vs ! j) = ''0''" using assms(1) len that by (auto simp: zero_run_def)
    moreover have "unat (vs ! j) < 2 ^ 16" using assms(2) len that by (auto intro: nth_mem)
    ultimately show ?thesis using format_hex_zero by blast
  qed
  show ?thesis
    by (rule nth_equalityI) (use len z in \<open>auto simp: nth_append\<close>)
qed

lemma ip6_addr_compress: "ip6_addr (compress6 (map format_hex (raw_hextets a))) = Some a"
proof -
  let ?V = "raw_hextets a"
  let ?H = "map format_hex ?V"
  have bound: "\<forall>v \<in> set ?V. unat v < 2 ^ 16" using raw_hextets_bound by blast
  have words: "\<forall>x \<in> set ?H. hex_word x" by simp
  have full: "ip6_addr (join '':'' ?H) = Some a"
    using ip6_addr_full [of ?H ?V] those_hextets [OF bound] pack_raw_hextets [of a] by simp
  show ?thesis
  proof (cases "best_run ?H")
    case (Pair s l)
    show ?thesis
    proof (cases s)
      case None
      with Pair full show ?thesis by (simp add: compress6_def)
    next
      case (Some b)
      show ?thesis
      proof (cases "l > 1")
        case False
        with Pair Some full show ?thesis by (simp add: compress6_def)
      next
        case True
        from Pair Some have z: "zero_run ?H b l" by (simp add: best_run_zero)
        then have len: "b + l \<le> 8" by (simp add: zero_run_def)
        have sub: "\<forall>x \<in> set (take b ?H). hex_word x" "\<forall>x \<in> set (drop (b + l) ?H). hex_word x"
          using words in_set_takeD in_set_dropD by fast+
        have w: "?V = take b ?V @ replicate (8 - (length (take b ?H) + length (drop (b + l) ?H))) 0 @ drop (b + l) ?V"
          using zero_run_words [OF z bound] len by simp
        have n: "length (take b ?H) + length (drop (b + l) ?H) \<le> 7" using len True by simp
        have "ip6_addr (join '':'' (take b ?H) @ ''::'' @ join '':'' (drop (b + l) ?H)) =
            Some (mk128 (pack4 ?V) (pack4 (drop 4 ?V)))"
          by (rule ip6_addr_gap [OF sub n those_hextets_take [OF bound] w])
        with Pair Some True pack_raw_hextets [of a] show ?thesis by (simp add: compress6_def)
      qed
    qed
  qed
qed

section \<open>The whole network\<close>

lemma set_compress6: "\<forall>p \<in> set h. hex_word p \<Longrightarrow> c \<in> set (compress6 h) \<Longrightarrow> c = CHR '':'' \<or> is_hex c"
proof -
  assume h: "\<forall>p \<in> set h. hex_word p" and c: "c \<in> set (compress6 h)"
  have j: "c = CHR '':'' \<or> is_hex c" if "c \<in> set (join '':'' xs)" "set xs \<subseteq> set h" for xs
  proof -
    from that set_join [of "'':''" xs] have "c = CHR '':'' \<or> (\<exists>w \<in> set xs. c \<in> set w)" by auto
    with that(2) h show ?thesis unfolding hex_word_def list_all_iff by blast
  qed
  from c have "c \<in> set (join '':'' h) \<or> c = CHR '':'' \<or> (\<exists>k. c \<in> set (join '':'' (take k h)) \<or> c \<in> set (join '':'' (drop k h)))"
    by (auto simp: compress6_def split: prod.splits option.splits if_splits)
  then show ?thesis using j by (meson set_drop_subset set_take_subset order_refl)
qed

lemma ip4_no_colon: "ip4 s \<noteq> None \<Longrightarrow> CHR '':'' \<notin> set s"
proof -
  have ok: "ip4_octets v qs \<noteq> None \<Longrightarrow> q \<in> set qs \<Longrightarrow> is_ascii_digits q" for v qs q
    by (induction qs arbitrary: v) (auto simp: Let_def split: if_splits)
  assume "ip4 s \<noteq> None"
  then have "ip4_octets 0 (split_on (CHR ''.'') s) \<noteq> None" by (auto simp: ip4_def Let_def split: if_splits)
  then have "\<forall>q \<in> set (split_on (CHR ''.'') s). is_ascii_digits q" using ok by blast
  then have "CHR '':'' \<notin> set (join [CHR ''.''] (split_on (CHR ''.'') s))"
    using set_join [of "[CHR ''.'']" "split_on (CHR ''.'') s"]
    by (fastforce simp: is_ascii_digits_def list_all_iff is_digit_def)
  then show ?thesis by (simp add: join_split)
qed

lemma compress6_colon: "CHR '':'' \<in> set (compress6 (map format_hex (raw_hextets a)))"
proof (rule ccontr)
  let ?s = "compress6 (map format_hex (raw_hextets a))"
  assume "CHR '':'' \<notin> set ?s"
  then have "split_on (CHR '':'') ?s = [?s]" by (rule split_on_no_sep)
  then have "ip6_addr ?s = None" by (simp add: ip6_addr_def ip6_parts_def)
  then show False by (simp add: ip6_addr_compress)
qed

lemma parse_net_string6:
  assumes "wf_net n" "n_v6 n"
  shows "parse_net (net_string n) = Some n"
proof -
  let ?c = "compress6 (map format_hex (raw_hextets (n_ip n)))"
  let ?sc = "if n_scope n \<noteq> [] then ''%'' @ n_scope n else []"
  note wf = wf_netD [OF assms(1)]
  have w: "net_width n = 128" using assms(2) by (simp add: net_width_def)
  have sep: "x \<notin> set ?c" if "x \<noteq> CHR '':''" "\<not> is_hex x" for x
    using set_compress6 [of "map format_hex (raw_hextets (n_ip n))" x] that by auto
  have slash: "CHR ''/'' \<notin> set ?c" "CHR ''%'' \<notin> set ?c" by (rule sep; simp add: is_hex_def is_digit_def)+
  have ns: "CHR ''/'' \<notin> set (?c @ ?sc)" using slash wf by auto
  have str: "net_string n = (?c @ ?sc) @ CHR ''/'' # itoa (n_plen n)" using assms(2) by (simp add: net_string_def)
  have cut: "cut_at (CHR ''/'') (net_string n) = (?c @ ?sc, itoa (n_plen n), True)"
    unfolding str by (rule cut_at_found [OF ns])
  have "CHR ''/'' \<notin> set (itoa (n_plen n))" by (simp add: no_sep_itoa is_digit_def)
  moreover have "ip4 (?c @ ?sc) = None"
    using ip4_no_colon [of "?c @ ?sc"] compress6_colon [of "n_ip n"] unfolding set_append by blast
  then have "parse4 (?c @ ?sc) (itoa (n_plen n)) True = None" by (simp only: parse4_def option.case)
  moreover have "ip6 (?c @ ?sc) = Some (n_ip n, n_scope n)"
    using wf slash by (auto simp: ip6_def cut_at_found cut_at_none ip6_addr_compress)
  ultimately show ?thesis
    using assms wf w cut by (auto simp: parse_net_def parse6_def Let_def)
qed

lemma parse_net_string: "wf_net n \<Longrightarrow> parse_net (net_string n) = Some n"
  using parse_net_string4 parse_net_string6 by blast

lemma parse_canonical: "parse_net s = Some n \<Longrightarrow> parse_net (canonical s) = Some n"
  by (simp add: canonical_def parse_net_string parse_net_wf)

lemma canonical_idem: "canonical (canonical s) = canonical s"
proof (cases "parse_net s")
  case None
  have "parse_net [] = None" by code_simp
  with None show ?thesis by (simp add: canonical_def)
next
  case (Some n)
  then show ?thesis by (simp add: canonical_def parse_net_string parse_net_wf)
qed

lemma canonical_inj: "parse_net s = Some n \<Longrightarrow> parse_net t = Some m \<Longrightarrow> canonical s = canonical t \<Longrightarrow> n = m"
  using parse_canonical [of s n] parse_canonical [of t m] by simp

end
