(* ===== verification/CidrOrder.thy ===== *)
theory CidrOrder
  imports CidrRoundtrip
begin

text \<open>
  The two orders the program sorts CIDRs by: \<open>internal/cidr/cidr.go\<close>'s routing key (version,
  broadcast, network), by which \<open>SortBySpecificity\<close> and the canonical store list are ordered, and
  \<open>internal/store/cidrs.go\<close>'s display key. Both are strict weak orders, which is what
  \<open>sort.SliceStable\<close> needs; how the routing key orders nested networks is settled exactly.
\<close>

section \<open>\<open>store/cidrs.go\<close>: comparisons of networks\<close>

definition less_u :: "u128 \<Rightarrow> u128 \<Rightarrow> bool" where
  "less_u a b = (if u_hi a \<noteq> u_hi b then u_hi a < u_hi b else u_lo a < u_lo b)"

definition is_host :: "network \<Rightarrow> bool" where
  "is_host n \<longleftrightarrow> n_plen n = (if n_v6 n then 128 else 32)"

definition net_equal :: "network \<Rightarrow> network \<Rightarrow> bool" where
  "net_equal a b \<longleftrightarrow> sort_key_of a = sort_key_of b \<and> n_plen a = n_plen b"

definition subnet_of :: "network \<Rightarrow> network \<Rightarrow> bool" where
  "subnet_of a b =
     (if net_version a \<noteq> net_version b then False
      else \<not> less_u (k_net (sort_key_of a)) (k_net (sort_key_of b)) \<and>
           \<not> less_u (k_bcast (sort_key_of b)) (k_bcast (sort_key_of a)))"

text \<open>\<open>DisplayKey\<close>: \<open>None\<close> for a string that does not parse, else the negated prefix length,
  the version and the network address.\<close>

type_synonym display_key = "(int \<times> nat \<times> u128) option"

definition display_key_of :: "string \<Rightarrow> display_key" where
  "display_key_of c =
     (case parse_net c of
        None \<Rightarrow> None
      | Some n \<Rightarrow> Some (- int (n_plen n), net_version n, k_net (sort_key_of n)))"

fun display_less :: "display_key \<Rightarrow> display_key \<Rightarrow> bool" where
  "display_less (Some a) None = True"
| "display_less None b = False"
| "display_less (Some (l, v, n)) (Some (l', v', n')) =
     (if l \<noteq> l' then l < l' else if v \<noteq> v' then v < v' else less_u n n')"

definition sort_display :: "string list \<Rightarrow> string list" where
  "sort_display cidrs = slice_stable (\<lambda>x y. display_less (display_key_of x) (display_key_of y)) cidrs"

section \<open>Both are strict weak orders\<close>

lemma less_u_uval: "less_u a b \<longleftrightarrow> uval a < uval b"
  using u_cmp_neg [of a b] by (auto simp: less_u_def u_cmp_def split: if_splits)

lemma key_less_uval:
  "key_less a b \<longleftrightarrow> k_version a < k_version b \<or> k_version a = k_version b \<and>
     (uval (k_bcast a) < uval (k_bcast b) \<or> uval (k_bcast a) = uval (k_bcast b) \<and> uval (k_net a) < uval (k_net b))"
  by (auto simp: key_less_def u_cmp_neg uval_inj)

interpretation routing_order: strict_weak key_less
  by unfold_locales (auto simp: key_less_uval)

interpretation item_order: strict_weak "\<lambda>x y :: string \<times> cidr_key. key_less (snd x) (snd y)"
  by unfold_locales (use routing_order.irrefl routing_order.trans routing_order.incomp_trans in blast)+

lemma display_less_irrefl: "\<not> display_less k k"
  by (cases k) (auto simp: less_u_uval)

lemma display_less_trans: "display_less a b \<Longrightarrow> display_less b c \<Longrightarrow> display_less a c"
  by (induction a b rule: display_less.induct; cases c) (auto simp: less_u_uval split: if_splits)

lemma display_less_incomp: "\<not> display_less a b \<Longrightarrow> \<not> display_less b c \<Longrightarrow> \<not> display_less a c"
  by (induction a b rule: display_less.induct; cases c) (auto simp: less_u_uval split: if_splits)

interpretation display_order: strict_weak "\<lambda>x y. display_less (display_key_of x) (display_key_of y)"
  by unfold_locales (use display_less_irrefl display_less_trans display_less_incomp in blast)+

section \<open>Nested networks under the routing key\<close>

lemma ubit_all_ones: "w = 32 \<or> w = 128 \<Longrightarrow> ubit (all_ones w) i \<longleftrightarrow> i < w"
  by (auto simp: all_ones_def ubit_ones_net)

lemma ubit_broadcast:
  assumes "wf_net n" "i < 128"
  shows "ubit (broadcast n) i \<longleftrightarrow> ubit (n_ip n) i \<or> i < net_width n - n_plen n"
  using wf_netD(1) [OF assms(1)] assms(2) net_width_cases [of n]
  by (auto simp: broadcast_def ubit_ones_net ubit_all_ones)

lemma net_ip_low:
  assumes "wf_net n" "ubit (n_ip n) i"
  shows "net_width n - n_plen n \<le> i \<and> i < net_width n"
proof -
  have "ubit (u_and (n_ip n) (ones (net_width n) (n_plen n))) i" using assms by (simp add: wf_net_def)
  then show ?thesis using wf_netD(1) [OF assms(1)] net_width_cases [of n] by (auto simp: ubit_ones_net)
qed

lemma broadcast_mem: "wf_net n \<Longrightarrow> (n_v6 n, broadcast n) \<in> net_addrs n"
proof -
  assume n: "wf_net n"
  have "fits (net_width n) (broadcast n)"
    by (auto simp: fits_def ubit_broadcast [OF n] dest: net_ip_low [OF n])
  moreover have "\<forall>i. net_width n - n_plen n \<le> i \<and> i < net_width n \<longrightarrow> ubit (broadcast n) i = ubit (n_ip n) i"
  proof (intro allI impI)
    fix i assume i: "net_width n - n_plen n \<le> i \<and> i < net_width n"
    then have "i < 128" using net_width_le [of n] by linarith
    with i show "ubit (broadcast n) i = ubit (n_ip n) i" by (auto simp: ubit_broadcast [OF n])
  qed
  ultimately show ?thesis by (simp add: mem_net_addrs [OF n])
qed

text \<open>The interval view: a network is the addresses between its network and its broadcast
  address.\<close>

lemma net_addrs_interval:
  assumes "wf_net n" "(f, a) \<in> net_addrs n"
  shows "uval (n_ip n) \<le> uval a \<and> uval a \<le> uval (broadcast n)"
proof -
  note m = assms(2) [unfolded mem_net_addrs [OF assms(1)]]
  have "uval (n_ip n) \<le> uval a" using net_ip_low [OF assms(1)] m by (intro uval_mono) auto
  moreover have "uval a \<le> uval (broadcast n)"
  proof (rule uval_mono)
    fix i assume i: "ubit a i"
    then have i128: "i < 128" using ubit_ge [of i a] by (cases "i < 128") auto
    with i m have "i < net_width n" by (auto simp: fits_def not_le [symmetric])
    with i m i128 show "ubit (broadcast n) i" by (auto simp: ubit_broadcast [OF assms(1)] not_less)
  qed
  ultimately show ?thesis ..
qed

lemma interval_net_addrs:
  assumes "wf_net n" "uval (n_ip n) \<le> uval a" "uval a \<le> uval (broadcast n)"
  shows "(n_v6 n, a) \<in> net_addrs n"
proof -
  let ?k = "net_width n - n_plen n"
  have "drop_bit ?k (uval (broadcast n)) = drop_bit ?k (uval (n_ip n))"
  proof (rule bit_eqI)
    fix i
    show "bit (drop_bit ?k (uval (broadcast n))) i = bit (drop_bit ?k (uval (n_ip n))) i"
      using ubit_ge [of "?k + i"] by (cases "?k + i < 128") (auto simp: bit_drop_bit_eq uval_bit ubit_broadcast [OF assms(1)])
  qed
  moreover have "drop_bit ?k (uval (n_ip n)) \<le> drop_bit ?k (uval a)"
    "drop_bit ?k (uval a) \<le> drop_bit ?k (uval (broadcast n))"
    using assms by (simp_all add: drop_bit_eq_div div_le_mono)
  ultimately have d: "drop_bit ?k (uval a) = drop_bit ?k (uval (n_ip n))" by simp
  have same: "ubit a i = ubit (n_ip n) i" if "?k \<le> i" for i
    using arg_cong [OF d, of "\<lambda>x. bit x (i - ?k)"] that by (simp add: bit_drop_bit_eq uval_bit)
  have "\<not> ubit a i" if "net_width n \<le> i" for i
  proof -
    from that have "ubit a i = ubit (n_ip n) i" by (intro same) simp
    with net_ip_low [OF assms(1), of i] that show ?thesis by auto
  qed
  with same show ?thesis by (simp add: mem_net_addrs [OF assms(1)] fits_def)
qed

lemma subset_interval:
  assumes "wf_net n" "wf_net m"
  shows "net_addrs m \<subseteq> net_addrs n \<longleftrightarrow> n_v6 m = n_v6 n \<and> uval (n_ip n) \<le> uval (n_ip m) \<and>
    uval (broadcast m) \<le> uval (broadcast n)"
proof
  assume sub: "net_addrs m \<subseteq> net_addrs n"
  have "(n_v6 m, n_ip m) \<in> net_addrs n" "(n_v6 m, broadcast m) \<in> net_addrs n"
    using sub net_ip_mem [OF assms(2)] broadcast_mem [OF assms(2)] by blast+
  then show "n_v6 m = n_v6 n \<and> uval (n_ip n) \<le> uval (n_ip m) \<and> uval (broadcast m) \<le> uval (broadcast n)"
    using net_addrs_interval [OF assms(1)] by (auto simp: net_addrs_def)
next
  assume h: "n_v6 m = n_v6 n \<and> uval (n_ip n) \<le> uval (n_ip m) \<and> uval (broadcast m) \<le> uval (broadcast n)"
  show "net_addrs m \<subseteq> net_addrs n"
  proof
    fix x assume x: "x \<in> net_addrs m"
    obtain f a where fa: "x = (f, a)" by (cases x)
    with x have "f = n_v6 m" by (simp add: net_addrs_def)
    moreover have "uval (n_ip n) \<le> uval a" "uval a \<le> uval (broadcast n)"
      using net_addrs_interval [OF assms(2)] x fa h by (blast intro: order_trans)+
    ultimately show "x \<in> net_addrs n" using interval_net_addrs [OF assms(1)] fa h by simp
  qed
qed

lemma net_version_eq [simp]: "net_version a = net_version b \<longleftrightarrow> n_v6 a = n_v6 b"
  by (simp add: net_version_def)

lemma sort_key_sel [simp]:
  "k_version (sort_key_of n) = net_version n" "k_bcast (sort_key_of n) = broadcast n" "k_net (sort_key_of n) = n_ip n"
  by (simp_all add: sort_key_of_def)

lemma subnet_of_subset: "wf_net a \<Longrightarrow> wf_net b \<Longrightarrow> subnet_of a b \<longleftrightarrow> net_addrs a \<subseteq> net_addrs b"
  by (auto simp: subnet_of_def less_u_uval subset_interval)

lemma subnet_of_contains: "wf_net a \<Longrightarrow> wf_net b \<Longrightarrow> subnet_of a b \<longleftrightarrow> net_contains b a"
  by (simp add: subnet_of_subset contains_iff_subset)

lemma key_less_nested:
  assumes "wf_net n" "wf_net m" "net_contains n m" "\<not> net_contains m n"
  shows "key_less (sort_key_of m) (sort_key_of n) \<longleftrightarrow> broadcast m \<noteq> broadcast n"
    and "key_less (sort_key_of n) (sort_key_of m) \<longleftrightarrow> broadcast m = broadcast n"
proof -
  have i: "n_v6 m = n_v6 n" "uval (n_ip n) \<le> uval (n_ip m)" "uval (broadcast m) \<le> uval (broadcast n)"
    using assms by (simp_all add: contains_iff_subset subset_interval)
  have strict: "\<not> (uval (n_ip m) \<le> uval (n_ip n) \<and> uval (broadcast n) \<le> uval (broadcast m))"
    using assms i by (simp add: contains_iff_subset subset_interval)
  show "key_less (sort_key_of m) (sort_key_of n) \<longleftrightarrow> broadcast m \<noteq> broadcast n"
    using i strict by (auto simp: key_less_uval uval_inj [symmetric] net_version_def)
  show "key_less (sort_key_of n) (sort_key_of m) \<longleftrightarrow> broadcast m = broadcast n"
    using i strict by (auto simp: key_less_uval uval_inj [symmetric] net_version_def)
qed

section \<open>\<open>SortBySpecificity\<close>\<close>

lemma specificity_item: "x \<in> set (specificity_items cs) \<Longrightarrow> cidr_sort_key (fst x) = Some (snd x)"
  by (auto simp: specificity_items_def map_filter_def Let_def split: if_splits)

lemma specificity_texts:
  "map fst (specificity_items cs) = filter cidr_valid (filter (\<lambda>s. s \<noteq> []) (map trim_space cs))"
  by (induction cs) (auto simp: specificity_items_def map_filter_def Let_def cidr_sort_key_def cidr_valid_def)

lemma sort_by_specificity_mset:
  "mset (sort_by_specificity cs) = mset (filter cidr_valid (filter (\<lambda>s. s \<noteq> []) (map trim_space cs)))"
  by (simp only: sort_by_specificity_def mset_map mset_slice_stable specificity_texts [symmetric])

lemma sort_by_specificity_keys:
  assumes "i < j" "j < length (sort_by_specificity cs)"
    "cidr_sort_key (sort_by_specificity cs ! i) = Some k" "cidr_sort_key (sort_by_specificity cs ! j) = Some l"
  shows "\<not> key_less l k"
proof -
  let ?xs = "slice_stable (\<lambda>x y. key_less (snd x) (snd y)) (specificity_items cs)"
  have len: "i < length ?xs" "j < length ?xs" using assms by (simp_all add: sort_by_specificity_def)
  have "?xs ! i \<in> set ?xs" "?xs ! j \<in> set ?xs" using len nth_mem by blast+
  then have "cidr_sort_key (fst (?xs ! i)) = Some (snd (?xs ! i))"
    "cidr_sort_key (fst (?xs ! j)) = Some (snd (?xs ! j))"
    by (simp_all add: specificity_item)
  moreover have "\<not> key_less (snd (?xs ! j)) (snd (?xs ! i))"
    using item_order.sorted [of "specificity_items cs"] len assms(1) by (simp add: sorted_wrt_iff_nth_less)
  ultimately show ?thesis using assms(3,4) len by (simp add: sort_by_specificity_def)
qed

lemma sort_by_specificity_valid: "s \<in> set (sort_by_specificity cs) \<Longrightarrow> \<exists>n. parse_net s = Some n"
proof -
  assume "s \<in> set (sort_by_specificity cs)"
  then have "s \<in># mset (sort_by_specificity cs)" by simp
  then show ?thesis unfolding sort_by_specificity_mset by (auto simp: cidr_valid_def)
qed

lemma sort_by_specificity_stable:
  "filter (\<lambda>s. cidr_sort_key s = Some k) (sort_by_specificity cs) =
     filter (\<lambda>s. cidr_sort_key s = Some k) (filter cidr_valid (filter (\<lambda>s. s \<noteq> []) (map trim_space cs)))"
proof -
  let ?xs = "slice_stable (\<lambda>x y. key_less (snd x) (snd y)) (specificity_items cs)"
  have f: "filter (\<lambda>s. cidr_sort_key s = Some k) (map fst xs) = map fst (filter (\<lambda>x. snd x = k) xs)"
    if "set xs \<subseteq> set (specificity_items cs)" for xs
    using that specificity_item by (induction xs) auto
  have "filter (\<lambda>x. snd x = k) ?xs = filter (\<lambda>x. snd x = k) (specificity_items cs)"
    by (rule item_order.stable) (simp add: routing_order.irrefl)
  then show ?thesis
    unfolding sort_by_specificity_def specificity_texts [symmetric] by (simp add: f)
qed

text \<open>
  \<open>SortBySpecificity\<close> returns the trimmed, non-empty entries that parse, each as often as it
  was given and in its own text, with no entry before one of a smaller key, and entries of the same
  key in their input order.
\<close>

theorem sort_by_specificity_correct:
  "mset (sort_by_specificity cs) = mset (filter cidr_valid (filter (\<lambda>s. s \<noteq> []) (map trim_space cs))) \<and>
   sorted_wrt (\<lambda>s t. \<not> key_less (the (cidr_sort_key t)) (the (cidr_sort_key s))) (sort_by_specificity cs) \<and>
   filter (\<lambda>s. cidr_sort_key s = Some k) (sort_by_specificity cs) =
     filter (\<lambda>s. cidr_sort_key s = Some k) (filter cidr_valid (filter (\<lambda>s. s \<noteq> []) (map trim_space cs)))"
proof -
  have "\<not> key_less (the (cidr_sort_key (sort_by_specificity cs ! j))) (the (cidr_sort_key (sort_by_specificity cs ! i)))"
    if ij: "i < j" "j < length (sort_by_specificity cs)" for i j
  proof -
    have "i < length (sort_by_specificity cs)" using ij by simp
    with ij obtain n m where "parse_net (sort_by_specificity cs ! i) = Some n"
      "parse_net (sort_by_specificity cs ! j) = Some m"
      using sort_by_specificity_valid nth_mem by meson
    then show ?thesis using sort_by_specificity_keys [OF ij] by (simp add: cidr_sort_key_def)
  qed
  then show ?thesis
    using sort_by_specificity_mset sort_by_specificity_stable by (simp add: sorted_wrt_iff_nth_less)
qed



text \<open>The wider of two networks that end at the same address is listed first.\<close>

theorem wider_network_first:
  "sort_by_specificity [''10.255.0.0/16'', ''10.0.0.0/8''] = [''10.0.0.0/8'', ''10.255.0.0/16'']"
  by code_simp

end
