(* ===== verification/CidrProps.thy ===== *)
theory CidrProps
  imports CidrOrder
begin

text \<open>
  What \<open>internal/cidr\<close> promises at the level of strings: canonical forms, containment and
  subtraction, stated over the address set of a CIDR string (empty for one that does not parse).
\<close>

definition addrs_of :: "string \<Rightarrow> fam_addr set" where
  "addrs_of s = (case parse_net s of None \<Rightarrow> {} | Some n \<Rightarrow> net_addrs n)"

lemma addrs_of_Some [simp]: "parse_net s = Some n \<Longrightarrow> addrs_of s = net_addrs n"
  by (simp add: addrs_of_def)

lemma addrs_of_None [simp]: "parse_net s = None \<Longrightarrow> addrs_of s = {}"
  by (simp add: addrs_of_def)

lemma addrs_of_net_string [simp]: "wf_net n \<Longrightarrow> addrs_of (net_string n) = net_addrs n"
  by (simp add: addrs_of_def parse_net_string)

lemma addrs_of_canonical [simp]: "addrs_of (canonical s) = addrs_of s"
proof (cases "parse_net s")
  case None
  have "parse_net [] = None" by code_simp
  with None show ?thesis by (simp add: canonical_def)
next
  case (Some n)
  then show ?thesis using parse_canonical [OF Some] by simp
qed

lemma parsed_holes_covers: "\<Union> (net_addrs ` set (parsed_holes hs)) = \<Union> (addrs_of ` set hs)"
proof -
  have "set (parsed_holes hs) = {n. \<exists>h \<in> set hs. parse_net h = Some n}"
    by (force simp: parsed_holes_def map_filter_def)
  then show ?thesis by (fastforce simp: addrs_of_def split: option.splits)
qed

lemma subtract_one_covers:
  assumes "\<forall>h \<in> set hs. wf_net h"
  shows "\<Union> (addrs_of ` set (subtract_one hs p)) = addrs_of p - \<Union> (net_addrs ` set hs)"
proof (cases "parse_net p")
  case None
  then show ?thesis by (simp add: subtract_one_def)
next
  case (Some n)
  then have n: "wf_net n" by (rule parse_net_wf)
  show ?thesis
  proof (cases "list_ex (\<lambda>h. net_contains n h \<or> net_contains h n) hs")
    case False
    then have "\<forall>h \<in> set hs. net_addrs n \<inter> net_addrs h = {}"
      using nested_or_disjoint [OF n] assms by (auto simp: list_ex_iff)
    with False Some show ?thesis by (auto simp: subtract_one_def)
  next
    case True
    have "\<Union> (addrs_of ` net_string ` set (minus_holes hs [n])) = \<Union> (net_addrs ` set (minus_holes hs [n]))"
      using wf_minus_holes [OF n assms] by (simp add: image_image)
    with True Some covers_minus_holes [OF n assms] show ?thesis by (simp add: subtract_one_def)
  qed
qed

lemma subtract_one_outside:
  assumes "\<forall>h \<in> set hs. wf_net h" "addrs_of p \<inter> \<Union> (net_addrs ` set hs) = {}"
  shows "subtract_one hs p = [p]"
proof (cases "parse_net p")
  case None
  then show ?thesis by (simp add: subtract_one_def)
next
  case (Some n)
  then have n: "wf_net n" by (rule parse_net_wf)
  have "\<not> (net_contains n h \<or> net_contains h n)" if h: "h \<in> set hs" for h
  proof
    assume c: "net_contains n h \<or> net_contains h n"
    have wh: "wf_net h" using assms h by blast
    have "net_addrs n \<inter> net_addrs h \<noteq> {}"
      using c net_ip_mem [OF n] net_ip_mem [OF wh] n wh by (auto simp: contains_iff_subset)
    with assms(2) Some h show False by auto
  qed
  with Some show ?thesis by (auto simp: subtract_one_def list_ex_iff)
qed

text \<open>
  C35: a CIDR that parses denotes a well-formed network (prefix length in range, host bits zero), its
  canonical form parses to the same network, and canonicalising again changes nothing - IPv6
  compression and zone identifiers included.
\<close>

theorem canonical_roundtrip:
  assumes "parse_net s = Some n"
  shows "wf_net n \<and> parse_net (canonical s) = Some n \<and> canonical (canonical s) = canonical s"
  using assms by (simp add: parse_net_wf parse_canonical canonical_idem)

theorem canonical_roundtrip_witness:
  "parse_net (canonical ''2001:DB8::0:1/32'') =
     Some \<lparr>n_v6 = True, n_ip = mk128 0x20010DB800000000 0, n_plen = 32, n_scope = []\<rparr>"
proof -
  have "parse_net ''2001:DB8::0:1/32'' =
     Some \<lparr>n_v6 = True, n_ip = mk128 0x20010DB800000000 0, n_plen = 32, n_scope = []\<rparr>" by code_simp
  then show ?thesis using canonical_roundtrip by blast
qed

text \<open>
  Two CIDRs have the same canonical form only when they denote the same network, so comparing
  canonical strings, as the store does, compares networks.
\<close>

theorem canonical_injective:
  assumes "parse_net s = Some n" "parse_net t = Some m"
  shows "canonical s = canonical t \<longleftrightarrow> n = m"
  using assms canonical_inj [OF assms] by (auto simp: canonical_def)

theorem canonical_injective_witness:
  "canonical ''10.1.2.3/255.255.0.0'' = canonical ''10.1.0.0/16''"
proof -
  let ?n = "\<lparr>n_v6 = False, n_ip = mk128 0 0x0A010000, n_plen = 16, n_scope = []\<rparr>"
  have "parse_net ''10.1.2.3/255.255.0.0'' = Some ?n" "parse_net ''10.1.0.0/16'' = Some ?n" by code_simp+
  then show ?thesis using canonical_injective [of "''10.1.2.3/255.255.0.0''" ?n "''10.1.0.0/16''" ?n] by simp
qed

text \<open>
  \<open>Contains\<close> (on bits) and \<open>SubnetOf\<close> (on the interval of addresses) both decide inclusion of
  the address sets, and two networks are always nested or disjoint.
\<close>

theorem containment_is_inclusion:
  assumes "wf_net n" "wf_net m"
  shows "(net_contains n m \<longleftrightarrow> net_addrs m \<subseteq> net_addrs n) \<and> (subnet_of m n \<longleftrightarrow> net_addrs m \<subseteq> net_addrs n) \<and>
    (net_contains n m \<or> net_contains m n \<or> net_addrs n \<inter> net_addrs m = {})"
  using assms contains_iff_subset subnet_of_subset nested_or_disjoint by simp

theorem containment_is_inclusion_witness:
  "net_addrs \<lparr>n_v6 = False, n_ip = mk128 0 0x0A010000, n_plen = 16, n_scope = []\<rparr>
    \<subseteq> net_addrs \<lparr>n_v6 = False, n_ip = mk128 0 0x0A000000, n_plen = 8, n_scope = []\<rparr>"
proof -
  let ?n = "\<lparr>n_v6 = False, n_ip = mk128 0 0x0A000000, n_plen = 8, n_scope = []\<rparr>"
  let ?m = "\<lparr>n_v6 = False, n_ip = mk128 0 0x0A010000, n_plen = 16, n_scope = []\<rparr>"
  have p: "parse_net ''10.0.0.0/8'' = Some ?n" "parse_net ''10.1.0.0/16'' = Some ?m" by code_simp+
  have "net_contains ?n ?m" by code_simp
  then show ?thesis using containment_is_inclusion [OF p [THEN parse_net_wf]] by blast
qed

text \<open>
  C37: \<open>Subtract\<close> leaves exactly the addresses of the prefixes that no hole covers; entries of either
  list that do not parse cover nothing.
\<close>

theorem subtract_covers_difference:
  "\<Union> (addrs_of ` set (subtract plist holes)) = \<Union> (addrs_of ` set plist) - \<Union> (addrs_of ` set holes)"
proof -
  have wf: "\<forall>h \<in> set (parsed_holes holes). wf_net h" using parsed_holes_wf by blast
  have "\<Union> (addrs_of ` set (concat (map (subtract_one (parsed_holes holes)) plist))) =
      \<Union> (addrs_of ` set plist) - \<Union> (net_addrs ` set (parsed_holes holes))"
    by (induction plist) (use subtract_one_covers [OF wf] in auto)
  then show ?thesis by (simp only: subtract_def parsed_holes_covers)
qed

text \<open>
  A prefix that shares no address with a hole is kept as it was written, and one that does is
  replaced by canonical CIDRs, pairwise disjoint.
\<close>

theorem subtract_pieces:
  "(addrs_of p \<inter> \<Union> (addrs_of ` set holes) = {} \<longrightarrow> subtract [p] holes = [p]) \<and>
   (addrs_of p \<inter> \<Union> (addrs_of ` set holes) \<noteq> {} \<longrightarrow>
     (\<forall>q \<in> set (subtract [p] holes). canonical q = q) \<and>
     sorted_wrt (\<lambda>q r. addrs_of q \<inter> addrs_of r = {}) (subtract [p] holes))"
proof -
  let ?hs = "parsed_holes holes"
  have wf: "\<forall>h \<in> set ?hs. wf_net h" using parsed_holes_wf by blast
  have out: "subtract [p] holes = [p]" if "addrs_of p \<inter> \<Union> (addrs_of ` set holes) = {}"
    using subtract_one_outside [OF wf, of p] that by (simp add: subtract_def parsed_holes_covers)
  have pieces: "(\<forall>q \<in> set (subtract [p] holes). canonical q = q) \<and>
      sorted_wrt (\<lambda>q r. addrs_of q \<inter> addrs_of r = {}) (subtract [p] holes)"
    if meet: "addrs_of p \<inter> \<Union> (addrs_of ` set holes) \<noteq> {}"
  proof -
    from meet obtain n where n: "parse_net p = Some n" by (cases "parse_net p") auto
    then have wn: "wf_net n" by (rule parse_net_wf)
    from meet obtain h where h: "h \<in> set ?hs" "net_addrs n \<inter> net_addrs h \<noteq> {}"
      unfolding parsed_holes_covers [symmetric] using n by auto
    have "net_contains n h \<or> net_contains h n" using nested_or_disjoint [OF wn, of h] wf h by blast
    then have eq: "subtract [p] holes = map net_string (minus_holes ?hs [n])"
      using n h(1) by (auto simp: subtract_def subtract_one_def list_ex_iff)
    have w: "\<forall>q \<in> set (minus_holes ?hs [n]). wf_net q" using wf_minus_holes [OF wn wf] by blast
    have c: "canonical (net_string q) = net_string q" if "wf_net q" for q
      using that by (simp add: canonical_def parse_net_string)
    have d: "sorted_wrt (\<lambda>p q. net_addrs p \<inter> net_addrs q = {}) (minus_holes ?hs [n])"
      unfolding minus_holes_def by (rule cidr_algebra.disjoint_fold) (use wn wf in simp_all)
    have "sorted_wrt (\<lambda>q r. addrs_of (net_string q) \<inter> addrs_of (net_string r) = {}) (minus_holes ?hs [n])"
      by (rule sorted_wrt_mono_rel [OF _ d]) (use w in simp)
    then show ?thesis using w c by (auto simp: eq sorted_wrt_map)
  qed
  from out pieces show ?thesis by blast
qed

theorem subtract_pieces_witness:
  "subtract [''10.1.2.3/8''] [''192.168.0.0/16''] = [''10.1.2.3/8'']"
proof -
  let ?n = "\<lparr>n_v6 = False, n_ip = mk128 0 0x0A000000, n_plen = 8, n_scope = []\<rparr>"
  let ?h = "\<lparr>n_v6 = False, n_ip = mk128 0 0xC0A80000, n_plen = 16, n_scope = []\<rparr>"
  have p: "parse_net ''10.1.2.3/8'' = Some ?n" "parse_net ''192.168.0.0/16'' = Some ?h" by code_simp+
  have "\<not> net_contains ?n ?h \<and> \<not> net_contains ?h ?n" by code_simp
  then have "net_addrs ?n \<inter> net_addrs ?h = {}" using nested_or_disjoint p [THEN parse_net_wf] by blast
  then have "addrs_of ''10.1.2.3/8'' \<inter> \<Union> (addrs_of ` set [''192.168.0.0/16'']) = {}" using p by simp
  then show ?thesis using subtract_pieces [of "''10.1.2.3/8''" "[''192.168.0.0/16'']"] by blast
qed

end
