(* ===== verification/Store.thy ===== *)
theory Store
  imports Yaml Hash NameFormats CidrProps
begin

text \<open>
  \<open>internal/store/store.go\<close> and the CIDR side of \<open>internal/store/cidrs.go\<close>: the store document is
  an ordered mapping with the sections \<open>groups\<close>, \<open>users\<close>, \<open>scopes\<close> and \<open>filters\<close>, each an ordered
  mapping keyed by name. The document is kept as generic values, as the code keeps it.
\<close>

type_synonym doc = ymap

section \<open>Constants\<close>

definition store_version :: int where
  "store_version = 1"

definition builtin_groups :: "(string \<times> int \<times> string) list" where
  "builtin_groups = [(''readonly'', 1, ''RO-CLASS''), (''operator'', 7, ''OP-CLASS''), (''superuser'', 15, ''RW-CLASS'')]"

definition is_builtin_group :: "string \<Rightarrow> bool" where
  "is_builtin_group name \<longleftrightarrow> list_ex (\<lambda>b. fst b = name) builtin_groups"

definition filter_keys :: "string list" where
  "filter_keys = [''allow'', ''deny'']"

definition top_keys :: "string list" where
  "top_keys = [''version'', ''groups'', ''users'', ''scopes'', ''filters'']"

definition seed_users :: "(string \<times> string) list" where
  "seed_users = [(''engineer'', ''superuser''), (''operator'', ''operator''), (''viewer'', ''readonly''), (''root'', ''readonly'')]"

definition known_protocols :: "string list" where "known_protocols = [''tacacs'', ''radius'']"
definition known_vendors :: "string list" where "known_vendors = [''cisco'', ''juniper'', ''wti'']"
definition reserved_users :: "string list" where "reserved_users = [''tacquito'']"
definition sink_users :: "string list" where "sink_users = [''root'']"

section \<open>Sections\<close>

text \<open>\<open>section\<close>: a section that is missing or not a mapping is replaced by an empty one, in place.\<close>

definition ensure_section :: "doc \<Rightarrow> string \<Rightarrow> doc" where
  "ensure_section d name =
     (case map_of_val (yval_at d name) of Some _ \<Rightarrow> d | None \<Rightarrow> yset d name (YMap []))"

definition section_of :: "doc \<Rightarrow> string \<Rightarrow> ymap" where
  "section_of d name = (case map_of_val (yval_at d name) of Some m \<Rightarrow> m | None \<Rightarrow> [])"

definition put_section :: "doc \<Rightarrow> string \<Rightarrow> ymap \<Rightarrow> doc" where
  "put_section d name m = yset d name (YMap m)"

lemma section_ensure [simp]: "section_of (ensure_section d n) k = section_of d k"
  by (auto simp: section_of_def ensure_section_def split: option.splits)

lemma section_put [simp]: "section_of (put_section d n m) k = (if k = n then m else section_of d k)"
  by (simp add: section_of_def put_section_def)

lemma wf_ensure [simp]: "wf_ymap d \<Longrightarrow> wf_ymap (ensure_section d n)"
  by (auto simp: ensure_section_def split: option.splits)

lemma wf_put [simp]: "wf_ymap d \<Longrightarrow> wf_ymap (put_section d n m)"
  by (simp add: put_section_def)

section \<open>The empty store\<close>

definition builtin_entry :: "string \<times> int \<times> string \<Rightarrow> string \<times> yval" where
  "builtin_entry b =
     (case b of (name, lvl, cls) \<Rightarrow>
        (name, YMap (ymake [(''priv_lvl'', YInt lvl), (''juniper_class'', YStr cls), (''builtin'', YBool True)])))"

definition empty_store :: doc where
  "empty_store =
     ymake [(''version'', YInt store_version),
            (''groups'', YMap (ymake (map builtin_entry builtin_groups))),
            (''users'', YMap []),
            (''scopes'', YMap []),
            (''filters'', YMap (ymake [(''allow'', YList []), (''deny'', YList [])]))]"

section \<open>CIDRs as stored\<close>

definition canonical_cidr :: "yval \<Rightarrow> string option" where
  "canonical_cidr v =
     (case v of
        YStr s \<Rightarrow> (let c = canonical (py_strip s) in if c = [] then None else Some c)
      | _ \<Rightarrow> None)"

lemma parse_net_Nil: "parse_net [] = None"
  by code_simp

lemma net_string_nonempty: "wf_net n \<Longrightarrow> net_string n \<noteq> []"
  using parse_net_string [of n] parse_net_Nil by auto

lemma canonical_cidr_Some:
  "canonical_cidr v = Some c \<Longrightarrow> \<exists>s n. v = YStr s \<and> parse_net (py_strip s) = Some n \<and> c = net_string n \<and> wf_net n"
  by (auto simp: canonical_cidr_def canonical_def Let_def parse_net_wf split: yval.splits option.splits if_splits)

lemma canonical_cidr_parse: "canonical_cidr v = Some c \<Longrightarrow> \<exists>n. parse_net c = Some n \<and> net_string n = c"
  by (metis canonical_cidr_Some parse_net_string)

definition canonical_cidrs :: "yval list \<Rightarrow> string list option" where
  "canonical_cidrs items = those (map canonical_cidr items)"

text \<open>\<open>cidrKeyOf\<close>, the zero key for a string that does not parse.\<close>

definition cidr_key_of :: "string \<Rightarrow> cidr_key" where
  "cidr_key_of c =
     (case parse_net c of
        None \<Rightarrow> \<lparr>k_version = 0, k_bcast = mk128 0 0, k_net = mk128 0 0\<rparr>
      | Some n \<Rightarrow> sort_key_of n)"

interpretation key_order: strict_weak "\<lambda>x y. key_less (cidr_key_of x) (cidr_key_of y)"
  by unfold_locales (use routing_order.irrefl routing_order.trans routing_order.incomp_trans in blast)+

definition sort_routing :: "string list \<Rightarrow> string list" where
  "sort_routing cs = slice_stable (\<lambda>x y. key_less (cidr_key_of x) (cidr_key_of y)) cs"

lemma set_sort_routing [simp]: "set (sort_routing cs) = set cs"
  by (simp add: sort_routing_def)

lemma distinct_sort_routing [simp]: "distinct (sort_routing cs) = distinct cs"
  by (simp add: sort_routing_def)

lemma sort_routing_idem [simp]: "sort_routing (sort_routing cs) = sort_routing cs"
  by (simp add: sort_routing_def key_order.idem)

text \<open>\<open>canonicalCIDRList\<close>.\<close>

definition canonical_cidr_list :: "yval \<Rightarrow> yval" where
  "canonical_cidr_list v =
     (case v of
        YList items \<Rightarrow>
          (case canonical_cidrs items of
             None \<Rightarrow> v
           | Some cs \<Rightarrow> YList (map YStr (sort_routing (dedup cs))))
      | _ \<Rightarrow> v)"

section \<open>\<open>DeviceProblems\<close>\<close>

record device_scope =
  ds_name :: string
  ds_prefixes :: "yval list"
  ds_devices :: "string list"

datatype device_problem_kind = OutsideScope string | MoreSpecificIn string string string

record device_problem =
  dp_scope :: string
  dp_cidr :: string
  dp_kind :: device_problem_kind

definition net_of :: "string \<Rightarrow> network" where
  "net_of c = (case parse_net c of Some n \<Rightarrow> n | None \<Rightarrow> \<lparr>n_v6 = False, n_ip = mk128 0 0, n_plen = 0, n_scope = []\<rparr>)"

definition owned_nets :: "device_scope list \<Rightarrow> (network \<times> string) list" where
  "owned_nets scopes =
     concat (map (\<lambda>s. map (\<lambda>c. (net_of c, ds_name s)) (List.map_filter canonical_cidr (ds_prefixes s))) scopes)"

text \<open>\<open>max()\<close> by prefix length keeps the first of equal keys.\<close>

definition longest_prefix :: "(network \<times> string) \<Rightarrow> (network \<times> string) list \<Rightarrow> network \<times> string" where
  "longest_prefix best os = foldl (\<lambda>b x. if n_plen (fst x) > n_plen (fst b) then x else b) best os"

definition device_problem_of :: "(network \<times> string) list \<Rightarrow> string \<Rightarrow> string \<Rightarrow> device_problem option" where
  "device_problem_of nets name c =
     (case canonical_cidr (YStr c) of
        None \<Rightarrow> None
      | Some canon \<Rightarrow>
          (let net = net_of canon;
               covering = filter (\<lambda>x. net_version (fst x) = net_version net \<and> subnet_of net (fst x)) nets
           in if \<not> list_ex (\<lambda>x. snd x = name) covering
              then Some \<lparr>dp_scope = name, dp_cidr = c, dp_kind = OutsideScope canon\<rparr>
              else let best = longest_prefix (hd covering) (tl covering)
                   in if snd best \<noteq> name
                      then Some \<lparr>dp_scope = name, dp_cidr = c,
                                 dp_kind = MoreSpecificIn canon (snd best) (net_string (fst best))\<rparr>
                      else None))"

definition device_problems :: "device_scope list \<Rightarrow> device_problem list" where
  "device_problems scopes =
     concat (map (\<lambda>s. List.map_filter (device_problem_of (owned_nets scopes) (ds_name s)) (ds_devices s)) scopes)"

section \<open>Facts on stored CIDRs\<close>

lemma foldl_longest:
  "longest_prefix b xs \<in> insert b (set xs) \<and> (\<forall>x \<in> insert b (set xs). n_plen (fst x) \<le> n_plen (fst (longest_prefix b xs)))"
  unfolding longest_prefix_def
proof (induction xs arbitrary: b)
  case Nil
  then show ?case by simp
next
  case (Cons x xs)
  show ?case
  proof (cases "n_plen (fst x) > n_plen (fst b)")
    case True
    with Cons.IH [of x] show ?thesis by force
  next
    case False
    with Cons.IH [of b] show ?thesis by force
  qed
qed

lemma owned_nets_wf: "(n, s) \<in> set (owned_nets scopes) \<Longrightarrow> wf_net n"
proof -
  assume "(n, s) \<in> set (owned_nets scopes)"
  then obtain v c where "canonical_cidr v = Some c" "n = net_of c" by (auto simp: owned_nets_def map_filter_def)
  then show ?thesis using canonical_cidr_parse [of v c] by (auto simp: net_of_def parse_net_wf)
qed

text \<open>
  A stored device address raises no problem exactly when it lies inside a prefix of its own
  scope and, of all stored prefixes that contain it, a longest one - the first of those in scope
  order - is its own scope's.
\<close>

theorem device_problem_none:
  assumes "canonical_cidr (YStr c) = Some canon"
  shows "device_problem_of (owned_nets scopes) name c = None \<longleftrightarrow>
    (\<exists>p os. filter (\<lambda>x. net_addrs (net_of canon) \<subseteq> net_addrs (fst x)) (owned_nets scopes) = p # os \<and>
       (\<exists>x \<in> set (p # os). snd x = name) \<and> snd (longest_prefix p os) = name \<and>
       (\<forall>x \<in> set (p # os). n_plen (fst x) \<le> n_plen (fst (longest_prefix p os))))"
proof -
  let ?n = "net_of canon"
  have n: "wf_net ?n" using canonical_cidr_parse [OF assms] by (auto simp: net_of_def parse_net_wf)
  have cov: "filter (\<lambda>x. net_version (fst x) = net_version ?n \<and> subnet_of ?n (fst x)) (owned_nets scopes) =
      filter (\<lambda>x. net_addrs ?n \<subseteq> net_addrs (fst x)) (owned_nets scopes)"
  proof (rule filter_cong)
    fix x assume "x \<in> set (owned_nets scopes)"
    then have w: "wf_net (fst x)" using owned_nets_wf [of "fst x" "snd x"] by simp
    have "subnet_of ?n (fst x) \<Longrightarrow> net_version (fst x) = net_version ?n" by (auto simp: subnet_of_def split: if_splits)
    then show "(net_version (fst x) = net_version ?n \<and> subnet_of ?n (fst x)) = (net_addrs ?n \<subseteq> net_addrs (fst x))"
      using subnet_of_subset [OF n w] by blast
  qed simp
  let ?cov = "filter (\<lambda>x. net_addrs ?n \<subseteq> net_addrs (fst x)) (owned_nets scopes)"
  show ?thesis
  proof (cases ?cov)
    case Nil
    then show ?thesis unfolding device_problem_of_def assms option.case Let_def cov by simp
  next
    case (Cons p os)
    have "device_problem_of (owned_nets scopes) name c = None \<longleftrightarrow>
        (\<exists>x \<in> set (p # os). snd x = name) \<and> snd (longest_prefix p os) = name"
      unfolding device_problem_of_def assms option.case Let_def cov Cons by (auto simp: list_ex_iff)
    then show ?thesis using Cons foldl_longest [of p os] by auto
  qed
qed

theorem device_problem_none_witness:
  "device_problem_of (owned_nets [\<lparr>ds_name = ''lab'', ds_prefixes = [YStr ''10.0.0.0/8''], ds_devices = []\<rparr>]) ''lab'' ''10.1.2.3'' = None \<longleftrightarrow>
    (\<exists>p os. filter (\<lambda>x. net_addrs (net_of ''10.1.2.3/32'') \<subseteq> net_addrs (fst x))
        (owned_nets [\<lparr>ds_name = ''lab'', ds_prefixes = [YStr ''10.0.0.0/8''], ds_devices = []\<rparr>]) = p # os \<and>
       (\<exists>x \<in> set (p # os). snd x = ''lab'') \<and> snd (longest_prefix p os) = ''lab'' \<and>
       (\<forall>x \<in> set (p # os). n_plen (fst x) \<le> n_plen (fst (longest_prefix p os))))"
proof -
  have "canonical_cidr (YStr ''10.1.2.3'') = Some ''10.1.2.3/32''" by code_simp
  from device_problem_none [OF this] show ?thesis .
qed

end
