(* ===== verification/StoreOps.thy ===== *)
theory StoreOps
  imports Store
begin

text \<open>
  \<open>internal/store/ops.go\<close>: the typed mutations of the store. An operation works on the document in
  place, so its result is the changed document and an error, if any: a refused operation may have
  applied the fields before the one it refuses.
\<close>

section \<open>Arguments\<close>

datatype op_error =
    NameRequired string
  | ExpectedFieldValue string
  | FieldsRequired string string "string list"
  | EntryMustBeMapping string string
  | SinkHasNoPassword string
  | NotABcryptHash string
  | MarkerIsNoHash string
  | MustBeTrueOrFalse string
  | SinkHasNoLimit string
  | NotAWholeNumber string string
  | UnknownFieldOf string string string
  | DoesNotExist string string
  | AlreadyExists string string
  | PrivLvlRange string
  | CannotRemoveBuiltin string
  | StillAssigned string string nat
  | InvalidCidrOf string string
  | InvalidDeviceEntry string string
  | FiltersUsage

type_synonym op_result = "doc \<times> op_error option"

text \<open>\<open>kv\<close>: a repeated field keeps its first position and takes its last value.\<close>

fun put_field :: "(string \<times> string) list \<Rightarrow> string \<Rightarrow> string \<Rightarrow> (string \<times> string) list" where
  "put_field [] k v = [(k, v)]"
| "put_field (p # ps) k v = (if fst p = k then (k, v) # ps else p # put_field ps k v)"

fun kv_from :: "(string \<times> string) list \<Rightarrow> string list \<Rightarrow> op_error + (string \<times> string) list" where
  "kv_from out [] = Inr out"
| "kv_from out (a # as) =
     (case cut_at (CHR ''='') a of
        (k, v, ok) \<Rightarrow> if \<not> ok then Inl (ExpectedFieldValue a) else kv_from (put_field out k v) as)"

definition kv :: "string list \<Rightarrow> op_error + (string \<times> string) list" where
  "kv args = kv_from [] args"

definition has_key :: "(string \<times> string) list \<Rightarrow> string \<Rightarrow> bool" where
  "has_key kvs k \<longleftrightarrow> list_ex (\<lambda>f. fst f = k) kvs"

definition csv :: "string \<Rightarrow> yval list" where
  "csv v = map YStr (filter (\<lambda>x. x \<noteq> []) (map py_strip (split_on (CHR '','') v)))"

definition bool_arg :: "string \<Rightarrow> string \<Rightarrow> op_error + bool" where
  "bool_arg field v =
     (if v \<noteq> ''true'' \<and> v \<noteq> ''false'' then Inl (MustBeTrueOrFalse field) else Inr (v = ''true''))"

definition is_null_arg :: "string \<Rightarrow> bool" where
  "is_null_arg v \<longleftrightarrow> v = [] \<or> v = ''null''"

text \<open>\<open>NormalizeHash\<close> strips the value first.\<close>

definition normalize_hash :: "string \<Rightarrow> string option" where
  "normalize_hash v = hash_normalize (py_strip v)"

text \<open>The fields of an entry, set one after the other until one is refused.\<close>

fun apply_fields :: "(ymap \<Rightarrow> string \<times> string \<Rightarrow> op_error + ymap) \<Rightarrow> ymap \<Rightarrow> (string \<times> string) list \<Rightarrow> ymap \<times> op_error option" where
  "apply_fields f u [] = (u, None)"
| "apply_fields f u (p # ps) = (case f u p of Inl e \<Rightarrow> (u, Some e) | Inr u' \<Rightarrow> apply_fields f u' ps)"

section \<open>Users\<close>

definition new_user :: "bool \<Rightarrow> ymap" where
  "new_user sink =
     ymake [(''group'', YNull), (''scopes'', YList []), (''hash'', YNull), (''disabled'', YBool True),
            (''password_changed'', YNull), (''accounting_sink'', YBool sink)]"

definition set_user_hash :: "string \<Rightarrow> bool \<Rightarrow> bool \<Rightarrow> ymap \<Rightarrow> string \<Rightarrow> op_error + ymap" where
  "set_user_hash name sink follow_disabled u v =
     (let finish = (\<lambda>u. Inr (if follow_disabled then yset u ''disabled'' (YBool (yval_at u ''hash'' = YNull)) else u))
      in if sink then Inl (SinkHasNoPassword name)
         else if is_null_arg v then finish (yset u ''hash'' YNull)
         else case normalize_hash v of
           None \<Rightarrow> Inl (NotABcryptHash name)
         | Some h \<Rightarrow>
             if h = disabled_marker_hex then Inl (MarkerIsNoHash name)
             else finish (yset u ''hash'' (YStr h)))"

definition set_report_limit :: "string \<Rightarrow> bool \<Rightarrow> ymap \<Rightarrow> string \<Rightarrow> string \<Rightarrow> op_error + ymap" where
  "set_report_limit name sink u k v =
     (if sink then Inl (SinkHasNoLimit name)
      else if is_null_arg v then Inr (ydel u k)
      else if v = [] \<or> \<not> list_all is_digit v then Inl (NotAWholeNumber name k)
      else case parse_int64 v of
        None \<Rightarrow> Inl (NotAWholeNumber name k)
      | Some n \<Rightarrow> Inr (yset u k (YInt n)))"

definition user_field :: "string \<Rightarrow> bool \<Rightarrow> string \<Rightarrow> (string \<times> string) list \<Rightarrow> ymap \<Rightarrow> string \<times> string \<Rightarrow> op_error + ymap" where
  "user_field today is_new name kvs u p =
     (case p of (k, v) \<Rightarrow>
        let sink = (name \<in> set sink_users) in
        if k = ''group'' then Inr (yset u ''group'' (YStr v))
        else if k = ''scopes'' then Inr (yset u ''scopes'' (YList (csv v)))
        else if k = ''hash'' then set_user_hash name sink (is_new \<and> \<not> has_key kvs ''disabled'') u v
        else if k = ''disabled'' then
          (case bool_arg ''disabled'' v of Inl e \<Rightarrow> Inl e | Inr b \<Rightarrow> Inr (yset u ''disabled'' (YBool b)))
        else if k = ''password_changed'' then
          Inr (yset u ''password_changed''
                 (if is_null_arg v then YNull else if v = ''today'' then YStr today else YStr v))
        else if k = ''password_change_required'' then
          (case bool_arg ''password_change_required'' v of
             Inl e \<Rightarrow> Inl e
           | Inr b \<Rightarrow> Inr (if b then yset u k (YBool True) else ydel u k))
        else if k = ''email'' then Inr (if is_null_arg v then ydel u ''email'' else yset u ''email'' (YStr v))
        else if k = ''reports_max_size'' \<or> k = ''reports_max_count'' then set_report_limit name sink u k v
        else Inl (UnknownFieldOf ''user'' name k))"

definition user_set :: "string \<Rightarrow> doc \<Rightarrow> string \<Rightarrow> string list \<Rightarrow> op_result" where
  "user_set today d name args =
     (if name = [] then (d, Some (NameRequired ''user''))
      else case kv args of
        Inl e \<Rightarrow> (d, Some e)
      | Inr kvs \<Rightarrow>
          (let d = ensure_section d ''users'';
               users = section_of d ''users'';
               is_new = \<not> yhas users name
           in if is_new \<and> \<not> has_key kvs ''group'' then (d, Some (FieldsRequired ''user'' name [''group'']))
              else
                (let users = (if is_new then yset users name (YMap (new_user (name \<in> set sink_users))) else users);
                     d = put_section d ''users'' users
                 in case map_of_val (yval_at users name) of
                      None \<Rightarrow> (d, Some (EntryMustBeMapping ''user'' name))
                    | Some u \<Rightarrow>
                        (case apply_fields (user_field today is_new name kvs) u kvs of
                           (u', e) \<Rightarrow> (put_section d ''users'' (yset users name (YMap u')), e)))))"

definition user_del :: "doc \<Rightarrow> string \<Rightarrow> op_result" where
  "user_del d name =
     (if name = [] then (d, Some (NameRequired ''user''))
      else let d = ensure_section d ''users'';
               users = section_of d ''users''
           in if \<not> yhas users name then (d, Some (DoesNotExist ''user'' name))
              else (put_section d ''users'' (ydel users name), None))"

definition user_rename :: "doc \<Rightarrow> string \<Rightarrow> string \<Rightarrow> op_result" where
  "user_rename d old new_name =
     (let d = ensure_section d ''users'';
          users = section_of d ''users''
      in if \<not> yhas users old then (d, Some (DoesNotExist ''user'' old))
         else if yhas users new_name then (d, Some (AlreadyExists ''user'' new_name))
         else let u = yval_at users old;
                  u' = (case map_of_val u of
                          Some m \<Rightarrow> YMap (yset m ''accounting_sink'' (YBool (new_name \<in> set sink_users)))
                        | None \<Rightarrow> u)
              in (put_section d ''users'' (yset (ydel users old) new_name u'), None))"

text \<open>\<open>usersWhere\<close>.\<close>

definition users_where :: "ymap \<Rightarrow> (ymap \<Rightarrow> bool) \<Rightarrow> string list" where
  "users_where users pred =
     filter (\<lambda>n. case map_of_val (yval_at users n) of Some u \<Rightarrow> pred u | None \<Rightarrow> False) (sort_strings (ykeys users))"

section \<open>Groups\<close>

definition max_int :: int where
  "max_int = 2 ^ 63 - 1"

definition missing_fields :: "(string \<times> string) list \<Rightarrow> string list \<Rightarrow> string list" where
  "missing_fields kvs fs = filter (\<lambda>f. \<not> has_key kvs f) fs"

definition group_field :: "string \<Rightarrow> ymap \<Rightarrow> string \<times> string \<Rightarrow> op_error + ymap" where
  "group_field name g p =
     (case p of (k, v) \<Rightarrow>
        if k = ''priv_lvl'' then
          (if v = [] \<or> \<not> list_all is_digit v then Inl (PrivLvlRange name)
           else Inr (yset g ''priv_lvl'' (YInt (case parse_int64 v of Some n \<Rightarrow> n | None \<Rightarrow> max_int))))
        else if k = ''juniper_class'' then Inr (yset g ''juniper_class'' (YStr v))
        else Inl (UnknownFieldOf ''group'' name k))"

definition group_set :: "doc \<Rightarrow> string \<Rightarrow> string list \<Rightarrow> op_result" where
  "group_set d name args =
     (if name = [] then (d, Some (NameRequired ''group''))
      else case kv args of
        Inl e \<Rightarrow> (d, Some e)
      | Inr kvs \<Rightarrow>
          (let d = ensure_section d ''groups'';
               groups = section_of d ''groups'';
               missing = missing_fields kvs [''priv_lvl'', ''juniper_class'']
           in if \<not> yhas groups name \<and> missing \<noteq> [] then (d, Some (FieldsRequired ''group'' name missing))
              else
                (let groups = (if \<not> yhas groups name
                       then yset groups name
                              (YMap (ymake [(''priv_lvl'', YNull), (''juniper_class'', YNull), (''builtin'', YBool False)]))
                       else groups);
                     d = put_section d ''groups'' groups
                 in case map_of_val (yval_at groups name) of
                      None \<Rightarrow> (d, Some (EntryMustBeMapping ''group'' name))
                    | Some g \<Rightarrow>
                        (case apply_fields (group_field name) g kvs of
                           (g', e) \<Rightarrow> (put_section d ''groups'' (yset groups name (YMap g')), e)))))"

definition group_del :: "doc \<Rightarrow> string \<Rightarrow> op_result" where
  "group_del d name =
     (if name = [] then (d, Some (NameRequired ''group''))
      else let d = ensure_section d ''groups'';
               groups = section_of d ''groups''
           in if \<not> yhas groups name then (d, Some (DoesNotExist ''group'' name))
              else if is_builtin_group name then (d, Some (CannotRemoveBuiltin name))
              else let d = ensure_section d ''users'';
                       members = users_where (section_of d ''users'') (\<lambda>u. yval_at u ''group'' = YStr name)
                   in if members \<noteq> [] then (d, Some (StillAssigned ''group'' name (length members)))
                      else (put_section d ''groups'' (ydel groups name), None))"

section \<open>Scopes\<close>

fun scope_devices :: "ymap \<Rightarrow> string list \<Rightarrow> string + ymap" where
  "scope_devices devices [] = Inr devices"
| "scope_devices devices (item # items) =
     (case cut_at (CHR ''='') item of
        (c, vendor, sep) \<Rightarrow>
          (case canonical_cidr (YStr c) of
             Some canon \<Rightarrow> if sep then scope_devices (yset devices canon (YStr vendor)) items else Inl item
           | None \<Rightarrow> Inl item))"

definition csv_strings :: "string \<Rightarrow> string list" where
  "csv_strings v = List.map_filter str_of_val (csv v)"

definition scope_field :: "string \<Rightarrow> ymap \<Rightarrow> string \<times> string \<Rightarrow> op_error + ymap" where
  "scope_field name sc p =
     (case p of (k, v) \<Rightarrow>
        if k = ''prefixes'' then
          (case first_where (\<lambda>c. canonical_cidr (YStr c) = None) (csv_strings v) of
             Some c \<Rightarrow> Inl (InvalidCidrOf (''scope '' @ name) c)
           | None \<Rightarrow> Inr (yset sc ''prefixes'' (YList (csv v))))
        else if k = ''secret'' then Inr (yset sc ''secret'' (YStr v))
        else if k = ''protocols'' then
          Inr (yset sc ''protocols'' (if is_null_arg v then YNull else YList (csv v)))
        else if k = ''vendor_attrs'' then
          Inr (yset sc ''vendor_attrs'' (YList (if is_null_arg v then [] else csv v)))
        else if k = ''devices'' then
          (case scope_devices [] (if is_null_arg v then [] else csv_strings v) of
             Inl item \<Rightarrow> Inl (InvalidDeviceEntry name item)
           | Inr m \<Rightarrow> Inr (yset sc ''devices'' (YMap m)))
        else Inl (UnknownFieldOf ''scope'' name k))"

definition scope_set :: "doc \<Rightarrow> string \<Rightarrow> string list \<Rightarrow> op_result" where
  "scope_set d name args =
     (if name = [] then (d, Some (NameRequired ''scope''))
      else case kv args of
        Inl e \<Rightarrow> (d, Some e)
      | Inr kvs \<Rightarrow>
          (let d = ensure_section d ''scopes'';
               scopes = section_of d ''scopes'';
               missing = missing_fields kvs [''prefixes'', ''secret'']
           in if \<not> yhas scopes name \<and> missing \<noteq> [] then (d, Some (FieldsRequired ''scope'' name missing))
              else
                (let scopes = (if \<not> yhas scopes name
                       then yset scopes name
                              (YMap (ymake [(''prefixes'', YList []), (''secret'', YNull), (''protocols'', YNull)]))
                       else scopes);
                     d = put_section d ''scopes'' scopes
                 in case map_of_val (yval_at scopes name) of
                      None \<Rightarrow> (d, Some (EntryMustBeMapping ''scope'' name))
                    | Some sc \<Rightarrow>
                        (case apply_fields (scope_field name) sc kvs of
                           (sc', e) \<Rightarrow> (put_section d ''scopes'' (yset scopes name (YMap sc')), e)))))"

definition scope_list :: "ymap \<Rightarrow> yval list" where
  "scope_list u = (case list_of_val (yval_at u ''scopes'') of Some l \<Rightarrow> l | None \<Rightarrow> [])"

definition strip_scope :: "string \<Rightarrow> ymap \<Rightarrow> string \<Rightarrow> ymap" where
  "strip_scope name users n =
     (case map_of_val (yval_at users n) of
        Some u \<Rightarrow> yset users n (YMap (yset u ''scopes'' (YList (filter (\<lambda>x. x \<noteq> YStr name) (scope_list u)))))
      | None \<Rightarrow> users)"

definition scope_del :: "doc \<Rightarrow> string \<Rightarrow> bool \<Rightarrow> op_result" where
  "scope_del d name strip_users =
     (if name = [] then (d, Some (NameRequired ''scope''))
      else let d = ensure_section d ''scopes'';
               scopes = section_of d ''scopes''
           in if \<not> yhas scopes name then (d, Some (DoesNotExist ''scope'' name))
              else let d = ensure_section d ''users'';
                       users = section_of d ''users'';
                       members = users_where users (\<lambda>u. YStr name \<in> set (scope_list u))
                   in if members \<noteq> [] \<and> \<not> strip_users
                      then (d, Some (StillAssigned ''scope'' name (length members)))
                      else (put_section (put_section d ''users'' (foldl (strip_scope name) users members))
                              ''scopes'' (ydel scopes name), None))"

definition rename_scope_in :: "string \<Rightarrow> string \<Rightarrow> yval \<Rightarrow> yval" where
  "rename_scope_in old new_name uv =
     (case map_of_val uv of
        Some u \<Rightarrow> YMap (yset u ''scopes'' (YList (map (\<lambda>x. if x = YStr old then YStr new_name else x) (scope_list u))))
      | None \<Rightarrow> uv)"

definition scope_rename :: "doc \<Rightarrow> string \<Rightarrow> string \<Rightarrow> op_result" where
  "scope_rename d old new_name =
     (let d = ensure_section d ''scopes'';
          scopes = section_of d ''scopes''
      in if \<not> yhas scopes old then (d, Some (DoesNotExist ''scope'' old))
         else if yhas scopes new_name then (d, Some (AlreadyExists ''scope'' new_name))
         else let d = put_section d ''scopes'' (yset (ydel scopes old) new_name (yval_at scopes old));
                  d = ensure_section d ''users''
              in (put_section d ''users'' (ymap_vals (\<lambda>_. rename_scope_in old new_name) (section_of d ''users'')), None))"

section \<open>Filters and the first store\<close>

definition filters_set :: "doc \<Rightarrow> string \<Rightarrow> string \<Rightarrow> op_result" where
  "filters_set d which cidrs =
     (if which \<notin> set filter_keys then (d, Some FiltersUsage)
      else case first_where (\<lambda>c. canonical_cidr (YStr c) = None) (csv_strings cidrs) of
        Some c \<Rightarrow> (d, Some (InvalidCidrOf (''filters.'' @ which) c))
      | None \<Rightarrow>
          (let d = ensure_section d ''filters''
           in (put_section d ''filters'' (yset (section_of d ''filters'') which (YList (csv cidrs))), None)))"

fun seed_all :: "string \<Rightarrow> string \<Rightarrow> doc \<Rightarrow> (string \<times> string) list \<Rightarrow> op_result" where
  "seed_all today scope d [] = (d, None)"
| "seed_all today scope d (u # us) =
     (case user_set today d (fst u) [''group='' @ snd u, ''scopes='' @ scope] of
        (d', Some e) \<Rightarrow> (d', Some e)
      | (d', None) \<Rightarrow> seed_all today scope d' us)"

definition seed_fresh :: "string \<Rightarrow> doc \<Rightarrow> string \<Rightarrow> string \<Rightarrow> string \<Rightarrow> op_result" where
  "seed_fresh today d scope plist secret =
     (case scope_set d scope [''prefixes='' @ plist, ''secret='' @ secret] of
        (d', Some e) \<Rightarrow> (d', Some e)
      | (d', None) \<Rightarrow> seed_all today scope d' seed_users)"

section \<open>Well-formed documents\<close>

definition wf_entry :: "yval \<Rightarrow> bool" where
  "wf_entry v = (case v of YMap m \<Rightarrow> wf_ymap m | _ \<Rightarrow> True)"

definition wf_section :: "ymap \<Rightarrow> bool" where
  "wf_section m \<longleftrightarrow> wf_ymap m \<and> (\<forall>k v. yget m k = Some v \<longrightarrow> wf_entry v)"

definition wf_doc :: "doc \<Rightarrow> bool" where
  "wf_doc d \<longleftrightarrow> wf_ymap d \<and> (\<forall>n. wf_section (section_of d n))"

lemma wf_section_yset: "wf_section m \<Longrightarrow> wf_entry v \<Longrightarrow> wf_section (yset m k v)"
  by (auto simp: wf_section_def)

lemma wf_section_ydel: "wf_section m \<Longrightarrow> wf_section (ydel m k)"
  by (auto simp: wf_section_def split: if_splits)

lemma wf_section_get: "wf_section m \<Longrightarrow> yget m k = Some v \<Longrightarrow> wf_entry v"
  by (auto simp: wf_section_def)

lemma yval_at_map: "yval_at m k = YMap u \<longleftrightarrow> yget m k = Some (YMap u)"
  by (auto simp: yval_at_def split: option.splits)

lemma wf_section_map: "wf_section m \<Longrightarrow> yval_at m k = YMap u \<Longrightarrow> wf_ymap u"
  using wf_section_get [of m k "YMap u"] by (simp add: wf_entry_def yval_at_map)

lemma wf_entry_at: "wf_section m \<Longrightarrow> wf_entry (yval_at m k)"
  using wf_section_get [of m k] by (auto simp: yval_at_def wf_entry_def split: option.splits)

lemma wf_section_empty [simp]: "wf_section []"
  by (simp add: wf_section_def)

lemma wf_doc_put: "wf_doc d \<Longrightarrow> wf_section m \<Longrightarrow> wf_doc (put_section d n m)"
  by (auto simp: wf_doc_def)

lemma wf_doc_ensure [simp]: "wf_doc d \<Longrightarrow> wf_doc (ensure_section d n)"
  by (auto simp: wf_doc_def)

lemma wf_doc_section: "wf_doc d \<Longrightarrow> wf_section (section_of d n)"
  by (simp add: wf_doc_def)

lemma wf_section_vals:
  assumes "wf_section m" "\<And>k v. wf_entry v \<Longrightarrow> wf_entry (f k v)"
  shows "wf_section (ymap_vals f m)"
  using assms by (auto simp: wf_section_def)

lemma apply_fields_wf:
  assumes "wf_ymap u" "\<And>u p u'. f u p = Inr u' \<Longrightarrow> wf_ymap u \<Longrightarrow> wf_ymap u'"
  shows "wf_ymap (fst (apply_fields f u ps))"
  using assms(1)
proof (induction ps arbitrary: u)
  case Nil
  then show ?case by simp
next
  case (Cons p ps)
  then show ?case using assms(2) by (cases "f u p") auto
qed

lemma set_user_hash_wf: "set_user_hash n s b u v = Inr u' \<Longrightarrow> wf_ymap u \<Longrightarrow> wf_ymap u'"
  by (auto simp: set_user_hash_def Let_def split: if_splits option.splits)

lemma set_report_limit_wf: "set_report_limit n s u k v = Inr u' \<Longrightarrow> wf_ymap u \<Longrightarrow> wf_ymap u'"
  by (auto simp: set_report_limit_def split: if_splits option.splits)

text \<open>What the field \<open>k\<close> of a user may change: itself, and with \<open>hash\<close> the field \<open>disabled\<close>.\<close>

lemma user_field_at:
  "user_field t b n kvs u (''group'', v) = Inr (yset u ''group'' (YStr v))"
  "user_field t b n kvs u (''scopes'', v) = Inr (yset u ''scopes'' (YList (csv v)))"
  "user_field t b n kvs u (''hash'', v) = set_user_hash n (n \<in> set sink_users) (b \<and> \<not> has_key kvs ''disabled'') u v"
  "user_field t b n kvs u (''disabled'', v) = map_sum id (\<lambda>x. yset u ''disabled'' (YBool x)) (bool_arg ''disabled'' v)"
  by (simp_all add: user_field_def Let_def split: sum.split)

lemma user_field_forms:
  assumes "user_field t b n kvs u (k, v) = Inr u'"
  shows "k = ''hash'' \<and> set_user_hash n (n \<in> set sink_users) (b \<and> \<not> has_key kvs ''disabled'') u v = Inr u' \<or>
    (k \<noteq> ''hash'' \<and> ((\<exists>w. u' = yset u k w) \<or> u' = ydel u k))"
proof -
  consider "k = ''group''" | "k = ''scopes''" | "k = ''hash''" | "k = ''disabled''" | "k = ''password_changed''"
    | "k = ''password_change_required''" | "k = ''email''" | "k = ''reports_max_size''" | "k = ''reports_max_count''"
    | "k \<noteq> ''group''" "k \<noteq> ''scopes''" "k \<noteq> ''hash''" "k \<noteq> ''disabled''" "k \<noteq> ''password_changed''"
      "k \<noteq> ''password_change_required''" "k \<noteq> ''email''" "k \<noteq> ''reports_max_size''" "k \<noteq> ''reports_max_count''"
    by argo
  then show ?thesis
  proof cases
    case 4
    with assms show ?thesis by (cases "bool_arg ''disabled'' v") (auto simp: user_field_at)
  next
    case 6
    with assms show ?thesis
      by (cases "bool_arg ''password_change_required'' v") (auto simp: user_field_def)
  next
    case 8
    with assms have "set_report_limit n (n \<in> set sink_users) u k v = Inr u'" by (simp add: user_field_def Let_def)
    with 8 show ?thesis by (auto simp: set_report_limit_def split: if_splits option.splits)
  next
    case 9
    with assms have "set_report_limit n (n \<in> set sink_users) u k v = Inr u'" by (simp add: user_field_def Let_def)
    with 9 show ?thesis by (auto simp: set_report_limit_def split: if_splits option.splits)
  next
    case 10
    with assms show ?thesis by (simp add: user_field_def Let_def)
  qed (use assms in \<open>auto simp: user_field_def Let_def\<close>)
qed

lemma user_field_wf: "user_field t b n kvs u p = Inr u' \<Longrightarrow> wf_ymap u \<Longrightarrow> wf_ymap u'"
  using user_field_forms [of t b n kvs u "fst p" "snd p" u'] set_user_hash_wf by auto

lemma group_field_wf: "group_field n u p = Inr u' \<Longrightarrow> wf_ymap u \<Longrightarrow> wf_ymap u'"
  by (cases p) (auto simp: group_field_def split: if_splits)

lemma scope_field_wf: "scope_field n u p = Inr u' \<Longrightarrow> wf_ymap u \<Longrightarrow> wf_ymap u'"
  by (cases p) (auto simp: scope_field_def split: if_splits sum.splits option.splits)

text \<open>The common last step of the three setters.\<close>

lemma wf_doc_set_entry:
  assumes "wf_doc d" "wf_section m" "yval_at m name = YMap u"
    and "\<And>u p u'. f u p = Inr u' \<Longrightarrow> wf_ymap u \<Longrightarrow> wf_ymap u'"
  shows "wf_doc (put_section (put_section d sec m) sec (yset m name (YMap (fst (apply_fields f u kvs)))))"
proof -
  have "wf_ymap u" by (rule wf_section_map [OF assms(2,3)])
  then have "wf_ymap (fst (apply_fields f u kvs))" using assms(4) by (rule apply_fields_wf)
  then have "wf_section (yset m name (YMap (fst (apply_fields f u kvs))))"
    using assms(2) by (intro wf_section_yset) (auto simp: wf_entry_def)
  then show ?thesis using assms(1,2) by (intro wf_doc_put) auto
qed

end
