(* ===== verification/StoreNormalize.thy ===== *)
theory StoreNormalize
  imports StoreOps
begin

text \<open>
  \<open>internal/store/normalize.go\<close>: from a raw YAML value to the store document (\<open>Normalize\<close>), to its
  canonical form (\<open>Canonicalize\<close>) and to the form written to disk (\<open>DiskForm\<close>).
\<close>

section \<open>\<open>Normalize\<close>\<close>

datatype normalize_error =
    StoreNotMapping
  | SectionNotMapping string
  | EntryNotMapping string string
  | FiltersNotMapping

definition schema_sections :: "(string \<times> string) list" where
  "schema_sections = [(''groups'', ''group''), (''users'', ''user''), (''scopes'', ''scope'')]"

definition field_defaults :: "string \<Rightarrow> (string \<times> yval) list" where
  "field_defaults sec =
     (if sec = ''groups'' then [(''builtin'', YBool False)]
      else if sec = ''users'' then [(''password_changed'', YNull), (''accounting_sink'', YBool False)]
      else if sec = ''scopes'' then [(''protocols'', YNull)]
      else [])"

definition clone_map :: "ymap \<Rightarrow> ymap" where
  "clone_map m = ymake m"

definition set_default :: "ymap \<Rightarrow> string \<times> yval \<Rightarrow> ymap" where
  "set_default e p = (if yhas e (fst p) then e else yset e (fst p) (snd p))"

definition normalize_entry :: "string \<Rightarrow> ymap \<Rightarrow> ymap" where
  "normalize_entry sec m = foldl set_default (clone_map m) (field_defaults sec)"

fun normalize_entries :: "string \<Rightarrow> string \<Rightarrow> ymap \<Rightarrow> (string \<times> yval) list \<Rightarrow> normalize_error + ymap" where
  "normalize_entries sec label out [] = Inr out"
| "normalize_entries sec label out (p # ps) =
     (case map_of_val (snd p) of
        None \<Rightarrow> Inl (EntryNotMapping label (fst p))
      | Some em \<Rightarrow> normalize_entries sec label (yset out (fst p) (YMap (normalize_entry sec em))) ps)"

fun normalize_sections :: "ymap \<Rightarrow> doc \<Rightarrow> (string \<times> string) list \<Rightarrow> normalize_error + doc" where
  "normalize_sections rm d [] = Inr d"
| "normalize_sections rm d (s # ss) =
     (case yval_at rm (fst s) of
        YNull \<Rightarrow> normalize_sections rm d ss
      | body \<Rightarrow>
          (case map_of_val body of
             None \<Rightarrow> Inl (SectionNotMapping (fst s))
           | Some bm \<Rightarrow>
               (case normalize_entries (fst s) (snd s) (section_of d (fst s)) bm of
                  Inl e \<Rightarrow> Inl e
                | Inr out \<Rightarrow> normalize_sections rm (put_section d (fst s) out) ss)))"

text \<open>\<open>Date.String\<close>: four, two and two digits.\<close>

definition pad_zero :: "nat \<Rightarrow> string \<Rightarrow> string" where
  "pad_zero w s = replicate (w - length s) (CHR ''0'') @ s"

definition date_string :: "int \<Rightarrow> int \<Rightarrow> int \<Rightarrow> string" where
  "date_string y m d = pad_zero 4 (itoa (nat y)) @ ''-'' @ pad_zero 2 (itoa (nat m)) @ ''-'' @ pad_zero 2 (itoa (nat d))"

definition date_to_string :: "yval \<Rightarrow> yval" where
  "date_to_string uv =
     (case uv of
        YMap u \<Rightarrow> (case yval_at u ''password_changed'' of
                     YDate y m d \<Rightarrow> YMap (yset u ''password_changed'' (YStr (date_string y m d)))
                   | _ \<Rightarrow> uv)
      | _ \<Rightarrow> uv)"

definition null_to_list :: "yval \<Rightarrow> yval" where
  "null_to_list v = (case v of YNull \<Rightarrow> YList [] | _ \<Rightarrow> v)"

definition base_doc :: "ymap \<Rightarrow> doc" where
  "base_doc rm =
     foldl (\<lambda>d p. if fst p \<in> set top_keys then d else yset d (fst p) (snd p))
       (ymake [(''version'', case yget rm ''version'' of None \<Rightarrow> YInt store_version | Some v \<Rightarrow> v),
               (''groups'', YMap []), (''users'', YMap []), (''scopes'', YMap []),
               (''filters'', YMap (ymake [(''allow'', YList []), (''deny'', YList [])]))])
       rm"

definition normalize_map :: "ymap \<Rightarrow> normalize_error + doc" where
  "normalize_map rm =
     (case normalize_sections rm (base_doc rm) schema_sections of
        Inl e \<Rightarrow> Inl e
      | Inr d \<Rightarrow>
          (let d = put_section d ''users'' (ymap_vals (\<lambda>_. date_to_string) (section_of d ''users''))
           in case yval_at rm ''filters'' of
                YNull \<Rightarrow> Inr d
              | fv \<Rightarrow>
                  (case map_of_val fv of
                     None \<Rightarrow> Inl FiltersNotMapping
                   | Some fm \<Rightarrow>
                       Inr (put_section d ''filters''
                              (foldl (\<lambda>f p. yset f (fst p) (null_to_list (snd p))) (section_of d ''filters'') fm)))))"

definition normalize :: "yval \<Rightarrow> normalize_error + doc" where
  "normalize raw =
     (case raw of
        YNull \<Rightarrow> normalize_map []
      | _ \<Rightarrow> (case map_of_val raw of None \<Rightarrow> Inl StoreNotMapping | Some rm \<Rightarrow> normalize_map rm))"

section \<open>\<open>Canonicalize\<close>\<close>

text \<open>Duplicates by \<open>yamlpy.Equal\<close> are dropped, the first kept.\<close>

definition add_unequal :: "yval list \<Rightarrow> yval \<Rightarrow> yval list" where
  "add_unequal seen x = (if list_ex (\<lambda>y. yequal x y) seen then seen else seen @ [x])"

definition dedup_equal :: "yval list \<Rightarrow> yval list" where
  "dedup_equal l = foldl add_unequal [] l"

definition canon_group :: "string \<Rightarrow> ymap \<Rightarrow> ymap" where
  "canon_group name g = yset g ''builtin'' (YBool (is_builtin_group name))"

definition canon_hash :: "unicode \<Rightarrow> ymap \<Rightarrow> ymap" where
  "canon_hash U u =
     (case str_of_val (yval_at u ''hash'') of
        Some h \<Rightarrow> yset u ''hash'' (YStr (to_lower U h)) | None \<Rightarrow> u)"

definition canon_user_scopes :: "ymap \<Rightarrow> ymap" where
  "canon_user_scopes u =
     (case list_of_val (yval_at u ''scopes'') of
        Some l \<Rightarrow> yset u ''scopes'' (YList (dedup_equal l)) | None \<Rightarrow> u)"

definition canon_user :: "unicode \<Rightarrow> ymap \<Rightarrow> ymap" where
  "canon_user U u = canon_user_scopes (canon_hash U u)"

definition is_in :: "string list \<Rightarrow> yval \<Rightarrow> bool" where
  "is_in vs v = (case str_of_val v of Some s \<Rightarrow> s \<in> set vs | None \<Rightarrow> False)"

definition canon_vendor_attrs :: "ymap \<Rightarrow> ymap" where
  "canon_vendor_attrs sc =
     (let has = yhas sc ''vendor_attrs'';
          attrs = yval_at sc ''vendor_attrs'';
          sc' = (case list_of_val attrs of
                   Some l \<Rightarrow>
                     if list_all (is_in known_vendors) l
                     then yset sc ''vendor_attrs'' (YList (map YStr (filter (\<lambda>v. YStr v \<in> set l) known_vendors)))
                     else sc
                 | None \<Rightarrow> sc)
      in if has \<and> (attrs = YNull \<or> attrs = YList []) then ydel sc' ''vendor_attrs'' else sc')"

definition first_canonical :: "ymap \<Rightarrow> string \<times> yval \<Rightarrow> ymap" where
  "first_canonical m p =
     (case canonical_cidr (YStr (fst p)) of
        Some c \<Rightarrow> if yhas m c then m else yset m c (snd p)
      | None \<Rightarrow> if yhas m [] then m else yset m [] (snd p))"

definition canonical_devices :: "ymap \<Rightarrow> ymap" where
  "canonical_devices dm =
     (let canon = foldl first_canonical [] dm
      in ymake (map (\<lambda>k. (k, yval_at canon k)) (sort_routing (ykeys canon))))"

definition canon_devices :: "ymap \<Rightarrow> ymap" where
  "canon_devices sc =
     (let has = yhas sc ''devices'';
          devices = yval_at sc ''devices'';
          sc' = (case map_of_val devices of
                   Some dm \<Rightarrow>
                     if list_all (\<lambda>c. canonical_cidr (YStr c) \<noteq> None) (ykeys dm)
                     then yset sc ''devices'' (YMap (canonical_devices dm)) else sc
                 | None \<Rightarrow> sc)
      in if has \<and> (devices = YNull \<or> devices = YMap []) then ydel sc' ''devices'' else sc')"

definition canon_scope :: "ymap \<Rightarrow> ymap" where
  "canon_scope sc =
     canon_devices (canon_vendor_attrs (yset sc ''prefixes'' (canonical_cidr_list (yval_at sc ''prefixes''))))"

definition on_map :: "(ymap \<Rightarrow> ymap) \<Rightarrow> yval \<Rightarrow> yval" where
  "on_map f v = (case map_of_val v of Some m \<Rightarrow> YMap (f m) | None \<Rightarrow> v)"

definition map_section :: "string \<Rightarrow> (string \<Rightarrow> yval \<Rightarrow> yval) \<Rightarrow> doc \<Rightarrow> doc" where
  "map_section sec f d = put_section (ensure_section d sec) sec (ymap_vals f (section_of d sec))"

definition canonicalize :: "unicode \<Rightarrow> doc \<Rightarrow> doc" where
  "canonicalize U d =
     map_section ''filters'' (\<lambda>_. canonical_cidr_list)
      (map_section ''scopes'' (\<lambda>_. on_map canon_scope)
        (map_section ''users'' (\<lambda>_. on_map (canon_user U))
          (map_section ''groups'' (\<lambda>n. on_map (canon_group n)) d)))"

section \<open>\<open>DiskForm\<close>\<close>

definition float_zero :: "64 word \<Rightarrow> bool" where
  "float_zero x \<longleftrightarrow> take_bit 63 x = 0"

fun truthy :: "yval \<Rightarrow> bool" where
  "truthy YNull = False"
| "truthy (YBool b) = b"
| "truthy (YInt i) = (i \<noteq> 0)"
| "truthy (YFloat x) = (\<not> float_zero x)"
| "truthy (YStr s) = (s \<noteq> [])"
| "truthy (YDate y m d) = True"
| "truthy (YList l) = (l \<noteq> [])"
| "truthy (YMap m) = (m \<noteq> [])"

definition list_copy :: "yval \<Rightarrow> yval" where
  "list_copy v = YList (case list_of_val v of Some l \<Rightarrow> l | None \<Rightarrow> [])"

definition set_if :: "bool \<Rightarrow> string \<Rightarrow> yval \<Rightarrow> ymap \<Rightarrow> ymap" where
  "set_if b k v m = (if b then yset m k v else m)"

definition disk_group :: "ymap \<Rightarrow> ymap" where
  "disk_group g =
     set_if (truthy (yval_at g ''builtin'')) ''builtin'' (YBool True)
       (ymake [(''priv_lvl'', yval_at g ''priv_lvl''), (''juniper_class'', yval_at g ''juniper_class'')])"

definition non_empty_str :: "yval \<Rightarrow> bool" where
  "non_empty_str v = (case v of YStr s \<Rightarrow> s \<noteq> [] | _ \<Rightarrow> False)"

definition is_int_val :: "yval \<Rightarrow> bool" where
  "is_int_val v = (case v of YInt _ \<Rightarrow> True | _ \<Rightarrow> False)"

definition disk_user :: "ymap \<Rightarrow> ymap" where
  "disk_user u =
     set_if (is_int_val (yval_at u ''reports_max_count'')) ''reports_max_count'' (yval_at u ''reports_max_count'')
      (set_if (is_int_val (yval_at u ''reports_max_size'')) ''reports_max_size'' (yval_at u ''reports_max_size'')
       (set_if (non_empty_str (yval_at u ''email'')) ''email'' (yval_at u ''email'')
        (set_if (truthy (yval_at u ''password_change_required'')) ''password_change_required'' (YBool True)
         (set_if (truthy (yval_at u ''accounting_sink'')) ''accounting_sink'' (YBool True)
          (set_if (truthy (yval_at u ''password_changed'')) ''password_changed'' (yval_at u ''password_changed'')
           (ymake [(''group'', yval_at u ''group''), (''scopes'', list_copy (yval_at u ''scopes'')),
                   (''hash'', yval_at u ''hash''), (''disabled'', yval_at u ''disabled'')]))))))"

definition disk_scope :: "ymap \<Rightarrow> ymap" where
  "disk_scope sc =
     (let devices = yval_at sc ''devices''
      in (case (truthy devices, map_of_val devices) of
            (True, Some dm) \<Rightarrow> set_if True ''devices'' (YMap (clone_map dm))
          | _ \<Rightarrow> id)
          (set_if (truthy (yval_at sc ''vendor_attrs'')) ''vendor_attrs'' (list_copy (yval_at sc ''vendor_attrs''))
           (set_if (truthy (yval_at sc ''protocols'')) ''protocols'' (list_copy (yval_at sc ''protocols''))
            (ymake [(''prefixes'', list_copy (yval_at sc ''prefixes'')), (''secret'', yval_at sc ''secret'')]))))"

text \<open>\<open>mapOf\<close> of something else is a nil mapping, on which every lookup is nil.\<close>

definition map_or_empty :: "yval \<Rightarrow> ymap" where
  "map_or_empty v = (case map_of_val v of Some m \<Rightarrow> m | None \<Rightarrow> [])"

definition disk_section :: "(ymap \<Rightarrow> ymap) \<Rightarrow> ymap \<Rightarrow> ymap" where
  "disk_section f m = ymake (map (\<lambda>n. (n, YMap (f (map_or_empty (yval_at m n))))) (sort_strings (ykeys m)))"

definition disk_form :: "doc \<Rightarrow> doc" where
  "disk_form d =
     (let f = section_of d ''filters''
      in ymake [(''version'', YInt store_version),
                (''groups'', YMap (disk_section disk_group (section_of d ''groups''))),
                (''users'', YMap (disk_section disk_user (section_of d ''users''))),
                (''scopes'', YMap (disk_section disk_scope (section_of d ''scopes''))),
                (''filters'', YMap (ymake [(''allow'', list_copy (yval_at f ''allow'')),
                                            (''deny'', list_copy (yval_at f ''deny''))]))])"

end
