(* ===== verification/StoreValidate.thy ===== *)
theory StoreValidate
  imports StoreNormalize
begin

text \<open>
  \<open>internal/store/validate.go\<close>: the schema of the store and its validator. A problem is a value,
  one constructor per message; the list keeps the order of the messages.
\<close>

section \<open>The schema\<close>

datatype field_type =
  TInt | TBool | TString | TStringList | TEnumList | TVendorMap | TCidrList | TSecret | TBcryptHex | TDate

record field_spec =
  fs_name :: string
  fs_type :: field_type
  fs_min :: int
  fs_max :: int
  fs_pattern :: "(string \<Rightarrow> bool) option"
  fs_pattern_msg :: bool
  fs_values :: "string list"
  fs_min_items :: nat
  fs_required :: bool
  fs_nullable :: bool

definition spec :: "string \<Rightarrow> field_type \<Rightarrow> field_spec" where
  "spec n t = \<lparr>fs_name = n, fs_type = t, fs_min = 0, fs_max = 0, fs_pattern = None, fs_pattern_msg = False,
     fs_values = [], fs_min_items = 0, fs_required = False, fs_nullable = False\<rparr>"

record section_spec =
  sec_key :: string
  sec_label :: string
  sec_name :: "string \<Rightarrow> bool"
  sec_fields :: "field_spec list"

definition group_fields :: "field_spec list" where
  "group_fields =
     [(spec ''priv_lvl'' TInt)\<lparr>fs_max := 15, fs_required := True\<rparr>,
      (spec ''juniper_class'' TString)\<lparr>fs_pattern := Some match_class, fs_required := True\<rparr>,
      spec ''builtin'' TBool]"

definition user_fields :: "unicode \<Rightarrow> field_spec list" where
  "user_fields U =
     [(spec ''group'' TString)\<lparr>fs_required := True\<rparr>,
      (spec ''scopes'' TStringList)\<lparr>fs_required := True\<rparr>,
      (spec ''hash'' TBcryptHex)\<lparr>fs_nullable := True, fs_required := True\<rparr>,
      (spec ''disabled'' TBool)\<lparr>fs_required := True\<rparr>,
      (spec ''password_changed'' TDate)\<lparr>fs_nullable := True\<rparr>,
      spec ''accounting_sink'' TBool,
      spec ''password_change_required'' TBool,
      (spec ''email'' TString)\<lparr>fs_pattern := Some (match_email U), fs_pattern_msg := True\<rparr>,
      (spec ''reports_max_size'' TInt)\<lparr>fs_max := report_max_size_cap\<rparr>,
      (spec ''reports_max_count'' TInt)\<lparr>fs_max := report_max_count_cap\<rparr>]"

definition scope_fields :: "field_spec list" where
  "scope_fields =
     [(spec ''prefixes'' TCidrList)\<lparr>fs_min_items := 1, fs_required := True\<rparr>,
      (spec ''secret'' TSecret)\<lparr>fs_required := True\<rparr>,
      (spec ''protocols'' TEnumList)\<lparr>fs_values := known_protocols, fs_min_items := 1, fs_nullable := True\<rparr>,
      (spec ''vendor_attrs'' TEnumList)\<lparr>fs_values := known_vendors\<rparr>,
      spec ''devices'' TVendorMap]"

definition schema :: "unicode \<Rightarrow> section_spec list" where
  "schema U =
     [\<lparr>sec_key = ''groups'', sec_label = ''group'', sec_name = match_group, sec_fields = group_fields\<rparr>,
      \<lparr>sec_key = ''users'', sec_label = ''user'', sec_name = match_user, sec_fields = user_fields U\<rparr>,
      \<lparr>sec_key = ''scopes'', sec_label = ''scope'', sec_name = match_scope, sec_fields = scope_fields\<rparr>]"

definition has_field :: "section_spec \<Rightarrow> string \<Rightarrow> bool" where
  "has_field sec f \<longleftrightarrow> list_ex (\<lambda>s. fs_name s = f) (sec_fields sec)"

section \<open>One value\<close>

datatype field_problem =
    MustNotBeNull | MustBeInteger | MustBeInRange int int | MustBeBool | MustBeNonEmptyString
  | PatternMessage | HoldsBadCharacters | MustBeNameList | SameNameTwice | MustBeDrawnFrom "string list"
  | SameValueTwice | MustNotBeEmpty | MustBeVendorMap | HasInvalidCidr string | HasNonCanonicalCidr string string
  | VendorNotKnown string | MustBeCidrList | ContainsInvalidCidr yval | ContainsNonCanonical yval string
  | SameCidrTwice | MustListOneCidr | HoldsControlCharacters | IsDisabledMarker | NotBcryptHex
  | MustBeDate | NotARealDate

text \<open>\<open>BcryptHexOK\<close>, \<open>hasDuplicates\<close>.\<close>

definition bcrypt_hex_ok :: "yval \<Rightarrow> bool" where
  "bcrypt_hex_ok v = (case str_of_val v of None \<Rightarrow> False | Some h \<Rightarrow> bcrypt_hex_str_ok h)"

fun has_duplicates_from :: "yval list \<Rightarrow> yval list \<Rightarrow> bool" where
  "has_duplicates_from seen [] = False"
| "has_duplicates_from seen (x # xs) =
     (list_ex (\<lambda>y. yequal x y) seen \<or> has_duplicates_from (seen @ [x]) xs)"

definition has_duplicates :: "yval list \<Rightarrow> bool" where
  "has_duplicates items = has_duplicates_from [] items"

text \<open>\<open>NNNN-NN-NN\<close>, and \<open>realDate\<close> of such a string.\<close>

definition date_shape :: "string \<Rightarrow> bool" where
  "date_shape s \<longleftrightarrow> length s = 10 \<and> s ! 4 = CHR ''-'' \<and> s ! 7 = CHR ''-'' \<and>
     list_all is_digit (take 4 s) \<and> list_all is_digit (take 2 (drop 5 s)) \<and> list_all is_digit (drop 8 s)"

definition real_date :: "string \<Rightarrow> bool" where
  "real_date s =
     (let y = int (dec_val (take 4 s)); m = int (dec_val (take 2 (drop 5 s))); d = int (dec_val (drop 8 s))
      in if y < 1 \<or> m < 1 \<or> m > 12 \<or> d < 1 then False else calendar_day y m d)"

definition check_vendor_pair :: "string \<times> yval \<Rightarrow> field_problem option" where
  "check_vendor_pair p =
     (case canonical_cidr (YStr (fst p)) of
        None \<Rightarrow> Some (HasInvalidCidr (fst p))
      | Some canon \<Rightarrow>
          if canon \<noteq> fst p then Some (HasNonCanonicalCidr (fst p) canon)
          else if \<not> is_in known_vendors (snd p) then Some (VendorNotKnown (fst p))
          else None)"

definition check_cidr_item :: "yval \<Rightarrow> field_problem option" where
  "check_cidr_item c =
     (case canonical_cidr c of
        None \<Rightarrow> Some (ContainsInvalidCidr c)
      | Some canon \<Rightarrow> if c \<noteq> YStr canon then Some (ContainsNonCanonical c canon) else None)"

definition check_cidr_list :: "nat \<Rightarrow> yval \<Rightarrow> field_problem option" where
  "check_cidr_list min_items v =
     (case list_of_val v of
        None \<Rightarrow> Some MustBeCidrList
      | Some items \<Rightarrow>
          (case first_problem check_cidr_item items of
             Some p \<Rightarrow> Some p
           | None \<Rightarrow>
               if has_duplicates items then Some SameCidrTwice
               else if length items < min_items then Some MustListOneCidr
               else None))"

definition check_string :: "field_spec \<Rightarrow> yval \<Rightarrow> field_problem option" where
  "check_string sp v =
     (case str_of_val v of
        None \<Rightarrow> Some MustBeNonEmptyString
      | Some s \<Rightarrow>
          if s = [] then Some MustBeNonEmptyString
          else (case fs_pattern sp of
                  None \<Rightarrow> None
                | Some pat \<Rightarrow>
                    if \<not> pat s then Some (if fs_pattern_msg sp then PatternMessage else HoldsBadCharacters)
                    else None))"

definition check_enum_list :: "field_spec \<Rightarrow> yval \<Rightarrow> field_problem option" where
  "check_enum_list sp v =
     (case list_of_val v of
        None \<Rightarrow> Some (MustBeDrawnFrom (fs_values sp))
      | Some items \<Rightarrow>
          if \<not> list_all (is_in (fs_values sp)) items then Some (MustBeDrawnFrom (fs_values sp))
          else if has_duplicates items then Some SameValueTwice
          else if length items < fs_min_items sp then Some MustNotBeEmpty
          else None)"

definition check_secret :: "yval \<Rightarrow> field_problem option" where
  "check_secret v =
     (case str_of_val v of
        None \<Rightarrow> Some MustBeNonEmptyString
      | Some s \<Rightarrow>
          if s = [] then Some MustBeNonEmptyString
          else if list_ex (\<lambda>r. r < 0x20 \<or> r = 0x7F) (runes_of s) then Some HoldsControlCharacters
          else None)"

definition check_field :: "unicode \<Rightarrow> field_spec \<Rightarrow> yval \<Rightarrow> field_problem option" where
  "check_field U sp v =
     (if v = YNull then (if fs_nullable sp then None else Some MustNotBeNull)
      else case fs_type sp of
        TInt \<Rightarrow>
          (case v of YInt i \<Rightarrow> if i < fs_min sp \<or> i > fs_max sp then Some (MustBeInRange (fs_min sp) (fs_max sp)) else None
                   | _ \<Rightarrow> Some MustBeInteger)
      | TBool \<Rightarrow> (case v of YBool _ \<Rightarrow> None | _ \<Rightarrow> Some MustBeBool)
      | TString \<Rightarrow> check_string sp v
      | TStringList \<Rightarrow>
          (case list_of_val v of
             None \<Rightarrow> Some MustBeNameList
           | Some items \<Rightarrow>
               if \<not> list_all non_empty_str items then Some MustBeNameList
               else if has_duplicates items then Some SameNameTwice else None)
      | TEnumList \<Rightarrow> check_enum_list sp v
      | TVendorMap \<Rightarrow>
          (case map_of_val v of None \<Rightarrow> Some MustBeVendorMap | Some m \<Rightarrow> first_problem check_vendor_pair m)
      | TCidrList \<Rightarrow> check_cidr_list (fs_min_items sp) v
      | TSecret \<Rightarrow> check_secret v
      | TBcryptHex \<Rightarrow>
          (case str_of_val v of
             Some s \<Rightarrow> if to_lower U s = disabled_marker_hex then Some IsDisabledMarker
                      else if \<not> bcrypt_hex_ok v then Some NotBcryptHex else None
           | None \<Rightarrow> Some NotBcryptHex)
      | TDate \<Rightarrow>
          (case str_of_val v of
             None \<Rightarrow> Some MustBeDate
           | Some s \<Rightarrow> if \<not> date_shape s then Some MustBeDate else if \<not> real_date s then Some NotARealDate else None))"

section \<open>The whole store\<close>

datatype problem =
    NotAStore
  | UnknownTopKey string
  | BadVersion
  | SectionMustBeMapping string
  | DottedName string string
  | InvalidNameOf string string
  | EntryMustBeMap string string
  | UnknownField string string string
  | MissingField string string string
  | FieldProblem string string string field_problem
  | BuiltinMissing string
  | BuiltinNotMarked string
  | BuiltinReserved string
  | ReservedUser string
  | NoSuchGroup string string
  | NoSuchScope string string
  | SinkNameOnly string
  | SinkFlagReserved string
  | SinkHasHash string
  | SinkEnabled string
  | SinkHasEmail string
  | SinkHasLimit string
  | EmailTaken string string
  | PrefixClaimed string string string
  | BadDevice device_problem
  | FiltersMustBeMapping
  | UnknownFilter string
  | FilterProblem string field_problem

text \<open>\<open>^[a-zA-Z0-9_-]+(\.[a-zA-Z0-9_-]+)+$\<close>.\<close>

definition dotted_user :: "string \<Rightarrow> bool" where
  "dotted_user s \<longleftrightarrow> 2 \<le> length (split_on (CHR ''.'') s) \<and> list_all match_user (split_on (CHR ''.'') s)"

definition dotted_users :: "yval \<Rightarrow> string list" where
  "dotted_users v =
     (case map_of_val v of
        None \<Rightarrow> []
      | Some root \<Rightarrow>
          (case map_of_val (yval_at root ''users'') of
             None \<Rightarrow> []
           | Some users \<Rightarrow> filter dotted_user (ykeys users)))"

definition check_entry_field :: "unicode \<Rightarrow> section_spec \<Rightarrow> string \<Rightarrow> ymap \<Rightarrow> field_spec \<Rightarrow> problem list" where
  "check_entry_field U sec name e f =
     (case yget e (fs_name f) of
        None \<Rightarrow> if fs_required f then [MissingField (sec_label sec) name (fs_name f)] else []
      | Some v \<Rightarrow>
          (case check_field U f v of
             None \<Rightarrow> []
           | Some p \<Rightarrow> [FieldProblem (sec_label sec) name (fs_name f) p]))"

definition check_entry :: "unicode \<Rightarrow> bool \<Rightarrow> section_spec \<Rightarrow> string \<times> yval \<Rightarrow> problem list" where
  "check_entry U legacy_dots sec p =
     (case p of (name, ent) \<Rightarrow>
        let dotted = (sec_key sec = ''users'' \<and> dotted_user name)
        in if \<not> sec_name sec name \<and> (\<not> dotted \<or> \<not> legacy_dots)
           then (if dotted then [DottedName (sec_label sec) name] else [InvalidNameOf (sec_label sec) name])
           else case map_of_val ent of
             None \<Rightarrow> [EntryMustBeMap (sec_label sec) name]
           | Some e \<Rightarrow>
               map (UnknownField (sec_label sec) name) (filter (\<lambda>f. \<not> has_field sec f) (ykeys e)) @
               concat (map (check_entry_field U sec name e) (sec_fields sec)))"

definition body_of :: "ymap \<Rightarrow> string \<Rightarrow> ymap" where
  "body_of root key = (case map_of_val (yval_at root key) of Some m \<Rightarrow> m | None \<Rightarrow> [])"

definition check_section :: "unicode \<Rightarrow> bool \<Rightarrow> ymap \<Rightarrow> section_spec \<Rightarrow> problem list" where
  "check_section U legacy_dots root sec =
     (if yval_at root (sec_key sec) = YNull then []
      else case map_of_val (yval_at root (sec_key sec)) of
        None \<Rightarrow> [SectionMustBeMapping (sec_key sec)]
      | Some m \<Rightarrow> concat (map (check_entry U legacy_dots sec) m))"

definition check_builtin :: "ymap \<Rightarrow> string \<times> int \<times> string \<Rightarrow> problem list" where
  "check_builtin groups b =
     (case map_of_val (yval_at groups (fst b)) of
        None \<Rightarrow> [BuiltinMissing (fst b)]
      | Some g \<Rightarrow> if yval_at g ''builtin'' \<noteq> YBool True then [BuiltinNotMarked (fst b)] else [])"

definition check_builtin_flag :: "string \<times> yval \<Rightarrow> problem list" where
  "check_builtin_flag p =
     (case map_of_val (snd p) of
        None \<Rightarrow> []
      | Some g \<Rightarrow> if yval_at g ''builtin'' = YBool True \<and> \<not> is_builtin_group (fst p) then [BuiltinReserved (fst p)] else [])"

definition scope_refs :: "ymap \<Rightarrow> string \<Rightarrow> yval \<Rightarrow> problem list" where
  "scope_refs scopes name x =
     (case str_of_val x of
        None \<Rightarrow> []
      | Some s \<Rightarrow> if s \<noteq> [] \<and> \<not> yhas scopes s then [NoSuchScope name s] else [])"

definition check_sink :: "string \<Rightarrow> ymap \<Rightarrow> problem list" where
  "check_sink name u =
     (if yval_at u ''accounting_sink'' = YBool True then
        (if name \<notin> set sink_users then [SinkFlagReserved name] else []) @
        (if yval_at u ''hash'' \<noteq> YNull then [SinkHasHash name] else []) @
        (if yval_at u ''disabled'' \<noteq> YBool True then [SinkEnabled name] else []) @
        (if yhas u ''email'' then [SinkHasEmail name] else []) @
        (if yhas u ''reports_max_size'' \<or> yhas u ''reports_max_count'' then [SinkHasLimit name] else [])
      else [])"

definition check_user_refs :: "ymap \<Rightarrow> ymap \<Rightarrow> string \<times> yval \<Rightarrow> problem list" where
  "check_user_refs groups scopes p =
     (case p of (name, uv) \<Rightarrow>
        case map_of_val uv of
          None \<Rightarrow> []
        | Some u \<Rightarrow>
            (if name \<in> set reserved_users then [ReservedUser name] else []) @
            (case str_of_val (yval_at u ''group'') of
               None \<Rightarrow> []
             | Some g \<Rightarrow> if g \<noteq> [] \<and> \<not> yhas groups g then [NoSuchGroup name g] else []) @
            concat (map (scope_refs scopes name) (scope_list u)) @
            (if name \<in> set sink_users \<and> yval_at u ''accounting_sink'' \<noteq> YBool True then [SinkNameOnly name] else []) @
            check_sink name u)"

text \<open>Emails: the users in name order, with the owner of each address so far.\<close>

definition email_of :: "unicode \<Rightarrow> ymap \<Rightarrow> string \<Rightarrow> string option" where
  "email_of U users name =
     (case map_of_val (yval_at users name) of
        None \<Rightarrow> None
      | Some u \<Rightarrow>
          (case str_of_val (yval_at u ''email'') of
             None \<Rightarrow> None
           | Some e \<Rightarrow> if match_email U e then Some (email_key U e) else None))"

fun check_emails :: "unicode \<Rightarrow> ymap \<Rightarrow> (string \<times> string) list \<Rightarrow> string list \<Rightarrow> problem list" where
  "check_emails U users owner [] = []"
| "check_emails U users owner (n # ns) =
     (case email_of U users n of
        None \<Rightarrow> check_emails U users owner ns
      | Some key \<Rightarrow>
          (case map_of owner key of
             Some first \<Rightarrow> EmailTaken n first # check_emails U users owner ns
           | None \<Rightarrow> check_emails U users ((key, n) # owner) ns))"

text \<open>Prefixes: the entries of all scopes in order, with the scope that first listed each network.\<close>

definition stored_prefixes :: "ymap \<Rightarrow> (string \<times> string) list" where
  "stored_prefixes scopes =
     concat (map (\<lambda>p. case map_of_val (snd p) of
                        None \<Rightarrow> []
                      | Some s \<Rightarrow>
                          (case list_of_val (yval_at s ''prefixes'') of
                             None \<Rightarrow> []
                           | Some l \<Rightarrow> map (\<lambda>c. (c, fst p)) (List.map_filter canonical_cidr l)))
              scopes)"

fun check_prefixes :: "(string \<times> string) list \<Rightarrow> (string \<times> string) list \<Rightarrow> problem list" where
  "check_prefixes owner [] = []"
| "check_prefixes owner (p # ps) =
     (case map_of owner (fst p) of
        Some o1 \<Rightarrow> (if o1 \<noteq> snd p then [PrefixClaimed (fst p) o1 (snd p)] else []) @ check_prefixes owner ps
      | None \<Rightarrow> check_prefixes (p # owner) ps)"

definition device_scope_of :: "string \<times> yval \<Rightarrow> device_scope" where
  "device_scope_of p =
     (case map_of_val (snd p) of
        None \<Rightarrow> \<lparr>ds_name = fst p, ds_prefixes = [], ds_devices = []\<rparr>
      | Some s \<Rightarrow>
          \<lparr>ds_name = fst p,
           ds_prefixes = (case list_of_val (yval_at s ''prefixes'') of Some l \<Rightarrow> l | None \<Rightarrow> []),
           ds_devices = (case map_of_val (yval_at s ''devices'') of Some d \<Rightarrow> ykeys d | None \<Rightarrow> [])\<rparr>)"

definition device_scopes :: "ymap \<Rightarrow> device_scope list" where
  "device_scopes scopes = map device_scope_of scopes"

definition check_filter :: "string \<times> yval \<Rightarrow> problem list" where
  "check_filter p =
     (if fst p \<notin> set filter_keys then [UnknownFilter (fst p)]
      else case check_cidr_list 0 (null_to_list (snd p)) of
        None \<Rightarrow> []
      | Some pr \<Rightarrow> [FilterProblem (fst p) pr])"

definition check_filters :: "ymap \<Rightarrow> problem list" where
  "check_filters root =
     (if yval_at root ''filters'' = YNull then []
      else case map_of_val (yval_at root ''filters'') of
        None \<Rightarrow> [FiltersMustBeMapping]
      | Some f \<Rightarrow> concat (map check_filter f))"

definition validate_store :: "unicode \<Rightarrow> bool \<Rightarrow> yval \<Rightarrow> problem list" where
  "validate_store U legacy_dots v =
     (case map_of_val v of
        None \<Rightarrow> [NotAStore]
      | Some root \<Rightarrow>
          (let groups = body_of root ''groups''; users = body_of root ''users''; scopes = body_of root ''scopes''
           in map UnknownTopKey (filter (\<lambda>k. k \<notin> set top_keys) (ykeys root)) @
              (if yval_at root ''version'' \<noteq> YInt store_version then [BadVersion] else []) @
              concat (map (check_section U legacy_dots root) (schema U)) @
              concat (map (check_builtin groups) builtin_groups) @
              concat (map check_builtin_flag groups) @
              concat (map (check_user_refs groups scopes) users) @
              check_emails U users [] (sort_strings (ykeys users)) @
              check_prefixes [] (stored_prefixes scopes) @
              map BadDevice (device_problems (device_scopes scopes)) @
              check_filters root))"

end
