(* ===== verification/StoreCanon.thy ===== *)
theory StoreCanon
  imports StoreNormalize
begin

text \<open>
  \<open>Canonicalize\<close> reaches its fixed point in one step: canonical CIDR lists, user entries, scope
  entries and whole documents are not changed by canonicalising again.
\<close>

section \<open>Setting what is there\<close>

lemma yset_id: "yget m k = Some v \<Longrightarrow> yset m k v = m"
  by (induction m) (auto simp: yget_Cons split: if_splits)

lemma yset_yset [simp]: "yset (yset m k v) k w = yset m k w"
  by (induction m) auto

lemma ymap_vals_comp: "ymap_vals f (ymap_vals g m) = ymap_vals (\<lambda>k v. f k (g k v)) m"
  by (auto simp: ymap_vals_def)

lemma ymap_vals_id: "\<forall>(k, v) \<in> set m. f k v = v \<Longrightarrow> ymap_vals f m = m"
  by (induction m) (auto simp: ymap_vals_def)

lemma ymap_vals_idem: "(\<And>k v. f k (f k v) = f k v) \<Longrightarrow> ymap_vals f (ymap_vals f m) = ymap_vals f m"
  by (auto simp: ymap_vals_def)

lemma section_map_section [simp]:
  "section_of (map_section sec f d) n = (if n = sec then ymap_vals f (section_of d sec) else section_of d n)"
  by (simp add: map_section_def)

lemma yget_map_section: "yget (map_section sec f d) n =
    (if n = sec then Some (YMap (ymap_vals f (section_of d sec))) else yget d n)"
  by (auto simp: map_section_def put_section_def ensure_section_def split: option.split)

lemma map_section_fix:
  assumes "yget d sec = Some (YMap m)" "ymap_vals f m = m"
  shows "map_section sec f d = d"
proof -
  have "section_of d sec = m" "ensure_section d sec = d"
    using assms(1) by (simp_all add: section_of_def ensure_section_def yval_at_def)
  with assms show ?thesis by (simp add: map_section_def put_section_def yset_id)
qed

section \<open>CIDR lists\<close>

lemma plain_ends_strip:
  assumes "s \<noteq> []" "plain_char (hd s)" "plain_char (last s)"
  shows "py_strip s = s"
proof -
  have b: "\<forall>p \<in> set (space_seqs @ [[CHR 0x1C], [CHR 0x1D], [CHR 0x1E], [CHR 0x1F]]).
      p = [] \<or> (\<not> plain_char (hd p) \<and> \<not> plain_char (last p))"
    using space_seqs_blank by (auto simp: plain_char_def)
  show ?thesis
    using trim_seqs_ends [OF b assms] by (simp add: py_strip_def trim_seqs_def trim_front_id)
qed

lemma digit_plain: "is_digit c \<Longrightarrow> plain_char c"
  by (auto simp: is_digit_def plain_char_def)

lemma net_string_ends:
  assumes "wf_net n"
  shows "net_string n \<noteq> []" "plain_char (hd (net_string n))" "plain_char (last (net_string n))"
proof -
  have it: "plain_char (last (itoa k))" for k using digit_plain [OF itoa_digits [OF last_in_set]] by simp
  show ne: "net_string n \<noteq> []" using assms by (rule net_string_nonempty)
  show "plain_char (last (net_string n))" using it by (simp add: net_string_def)
  show "plain_char (hd (net_string n))"
  proof (cases "n_v6 n")
    case False
    let ?q = "dotted_quad (ucast (u_lo (n_ip n)))"
    have "hd ?q \<in> set ?q" by (simp add: dotted_quad_def)
    then have "is_digit (hd ?q) \<or> hd ?q = CHR ''.''" by (rule set_dotted_quad)
    moreover have "?q \<noteq> []" by (simp add: dotted_quad_def)
    ultimately show ?thesis using False digit_plain by (auto simp: net_string_def plain_char_def)
  next
    case True
    let ?c = "compress6 (map format_hex (raw_hextets (n_ip n)))"
    have c: "?c \<noteq> []" using compress6_colon [of "n_ip n"] by (cases ?c) auto
    then have "hd ?c = CHR '':'' \<or> is_hex (hd ?c)"
      using set_compress6 [of "map format_hex (raw_hextets (n_ip n))" "hd ?c"] by simp
    with True c show ?thesis by (auto simp: net_string_def is_hex_def is_digit_def plain_char_def)
  qed
qed

lemma canonical_cidr_fix: "canonical_cidr v = Some c \<Longrightarrow> canonical_cidr (YStr c) = Some c"
proof -
  assume "canonical_cidr v = Some c"
  then obtain n where n: "wf_net n" "c = net_string n" by (auto dest: canonical_cidr_Some)
  then have "py_strip c = c" using net_string_ends [OF n(1)] plain_ends_strip by simp
  with n show ?thesis by (simp add: canonical_cidr_def canonical_def parse_net_string net_string_nonempty)
qed

lemma those_Some: "those xs = Some ys \<longleftrightarrow> xs = map Some ys"
  by (induction xs arbitrary: ys) (auto split: option.splits)

lemma canonical_cidrs_fix:
  assumes "canonical_cidrs items = Some cs" "set ds \<subseteq> set cs"
  shows "canonical_cidrs (map YStr ds) = Some ds"
proof -
  have "canonical_cidr (YStr c) = Some c" if c: "c \<in> set ds" for c
  proof -
    from c assms(2) have "c \<in> set cs" by blast
    moreover from assms(1) have "map canonical_cidr items = map Some cs" by (simp add: canonical_cidrs_def those_Some)
    ultimately have "Some c \<in> set (map canonical_cidr items)" by simp
    then obtain v where "canonical_cidr v = Some c" by auto
    then show ?thesis by (rule canonical_cidr_fix)
  qed
  then show ?thesis by (auto simp: canonical_cidrs_def those_Some)
qed

lemma canonical_cidr_list_idem [simp]: "canonical_cidr_list (canonical_cidr_list v) = canonical_cidr_list v"
proof (cases "list_of_val v")
  case None
  then show ?thesis by (cases v) (auto simp: canonical_cidr_list_def)
next
  case (Some items)
  show ?thesis
  proof (cases "canonical_cidrs items")
    case None
    with Some show ?thesis by (simp add: canonical_cidr_list_def)
  next
    case (Some cs)
    then have "canonical_cidrs (map YStr (sort_routing (dedup cs))) = Some (sort_routing (dedup cs))"
      by (rule canonical_cidrs_fix) simp
    with Some \<open>list_of_val v = _\<close> show ?thesis by (simp add: canonical_cidr_list_def)
  qed
qed

text \<open>
  A list of CIDRs that all parse becomes the distinct canonical forms of its entries in routing
  order, and it covers the same addresses.
\<close>

theorem canonical_cidr_list_correct:
  assumes "canonical_cidrs items = Some cs"
  shows "\<exists>ds. canonical_cidr_list (YList items) = YList (map YStr ds) \<and> distinct ds \<and> set ds = set cs \<and>
    sorted_wrt (\<lambda>a b. \<not> key_less (cidr_key_of b) (cidr_key_of a)) ds \<and>
    (\<forall>d \<in> set ds. canonical d = d) \<and>
    canonical_cidr_list (YList (map YStr ds)) = YList (map YStr ds)"
proof -
  let ?ds = "sort_routing (dedup cs)"
  have "canonical d = d" if "d \<in> set ?ds" for d
  proof -
    from that assms have "Some d \<in> set (map canonical_cidr items)" by (simp add: canonical_cidrs_def those_Some)
    then obtain v where "canonical_cidr v = Some d" by auto
    then show ?thesis using canonical_cidr_parse by (fastforce simp: canonical_def)
  qed
  moreover have "canonical_cidr_list (YList items) = YList (map YStr ?ds)" using assms by (simp add: canonical_cidr_list_def)
  moreover have "canonical_cidr_list (YList (map YStr ?ds)) = YList (map YStr ?ds)"
    using canonical_cidr_list_idem [of "YList items"] assms by (simp add: canonical_cidr_list_def)
  moreover have "sorted_wrt (\<lambda>a b. \<not> key_less (cidr_key_of b) (cidr_key_of a)) ?ds"
    unfolding sort_routing_def by (rule key_order.sorted)
  ultimately show ?thesis by (intro exI [of _ ?ds]) simp
qed

theorem canonical_cidr_list_correct_witness:
  "\<exists>ds. canonical_cidr_list (YList [YStr '' 10.1.2.3/16'', YStr ''10.1.0.0/16'']) = YList (map YStr ds) \<and> distinct ds"
proof -
  have "canonical_cidrs [YStr '' 10.1.2.3/16'', YStr ''10.1.0.0/16''] = Some [''10.1.0.0/16'', ''10.1.0.0/16'']" by code_simp
  from canonical_cidr_list_correct [OF this] show ?thesis by blast
qed

section \<open>Entries\<close>

lemma canon_group_idem: "canon_group n (canon_group n g) = canon_group n g"
  by (simp add: canon_group_def)

definition unequal_list :: "yval list \<Rightarrow> bool" where
  "unequal_list l \<longleftrightarrow> sorted_wrt (\<lambda>y x. \<not> yequal x y) l"

lemma foldl_add_unequal: "unequal_list acc \<Longrightarrow> unequal_list (foldl add_unequal acc xs)"
  by (induction xs arbitrary: acc) (auto simp: add_unequal_def unequal_list_def sorted_wrt_append list_ex_iff)

lemma foldl_add_unequal_id: "unequal_list (acc @ xs) \<Longrightarrow> foldl add_unequal acc xs = acc @ xs"
proof (induction xs arbitrary: acc)
  case Nil
  then show ?case by simp
next
  case (Cons x xs)
  then have "\<not> list_ex (\<lambda>y. yequal x y) acc" by (auto simp: unequal_list_def sorted_wrt_append list_ex_iff)
  with Cons show ?case by (simp add: add_unequal_def)
qed

lemma unequal_dedup: "unequal_list (dedup_equal l)"
  unfolding dedup_equal_def by (rule foldl_add_unequal) (simp add: unequal_list_def)

lemma dedup_equal_id: "unequal_list l \<Longrightarrow> dedup_equal l = l"
  using foldl_add_unequal_id [of "[]" l] by (simp add: dedup_equal_def)

definition lower_stable :: "unicode \<Rightarrow> bool" where
  "lower_stable U \<longleftrightarrow> (\<forall>s. \<not> ascii_string s \<longrightarrow> to_lower U (u_lower U s) = u_lower U s)"

lemma to_lower_idem: "lower_stable U \<Longrightarrow> to_lower U (to_lower U s) = to_lower U s"
proof (cases "ascii_string s")
  case True
  have "code_of (ascii_lower c) < 128" if "code_of c < 128" for c
    using that by (auto simp: ascii_lower_def is_upper_def)
  with True have "ascii_string (map ascii_lower s)" by (auto simp: ascii_string_def list_all_iff)
  with True show ?thesis by (simp add: to_lower_def comp_def)
next
  case False
  then show "lower_stable U \<Longrightarrow> ?thesis" by (simp add: lower_stable_def to_lower_def)
qed

lemma canon_hash_at: "yval_at (canon_hash U u) k = (if k = ''hash'' then
    (case yval_at u ''hash'' of YStr h \<Rightarrow> YStr (to_lower U h) | v \<Rightarrow> v) else yval_at u k)"
  by (auto simp: canon_hash_def split: option.split yval.split)

lemma canon_user_scopes_at: "yval_at (canon_user_scopes u) k = (if k = ''scopes'' then
    (case yval_at u ''scopes'' of YList l \<Rightarrow> YList (dedup_equal l) | v \<Rightarrow> v) else yval_at u k)"
  by (auto simp: canon_user_scopes_def split: option.split yval.split)

lemma canon_user_at: "yval_at (canon_user U u) k =
   (if k = ''scopes'' then (case yval_at u ''scopes'' of YList l \<Rightarrow> YList (dedup_equal l) | v \<Rightarrow> v)
    else if k = ''hash'' then (case yval_at u ''hash'' of YStr h \<Rightarrow> YStr (to_lower U h) | v \<Rightarrow> v)
    else yval_at u k)"
  by (simp add: canon_user_def canon_user_scopes_at canon_hash_at)

lemma yset_at_id: "yval_at m k = v \<Longrightarrow> v \<noteq> YNull \<Longrightarrow> yset m k v = m"
  by (auto simp: yval_at_def split: option.splits intro: yset_id)

lemma canon_user_fix:
  assumes "\<And>h. yval_at u ''hash'' = YStr h \<Longrightarrow> to_lower U h = h"
    and "\<And>l. yval_at u ''scopes'' = YList l \<Longrightarrow> unequal_list l"
  shows "canon_user U u = u"
proof -
  have "canon_hash U u = u"
    using assms(1) by (auto simp: canon_hash_def yset_at_id split: option.split)
  moreover have "canon_user_scopes u = u"
    using assms(2) by (auto simp: canon_user_scopes_def yset_at_id dedup_equal_id split: option.split)
  ultimately show ?thesis by (simp add: canon_user_def)
qed

lemma canon_user_idem: "lower_stable U \<Longrightarrow> canon_user U (canon_user U u) = canon_user U u"
  by (rule canon_user_fix) (auto simp: canon_user_at to_lower_idem unequal_dedup split: yval.splits)

section \<open>Scope entries\<close>

definition attrs_ok :: "yval option \<Rightarrow> bool" where
  "attrs_ok v \<longleftrightarrow> v \<noteq> Some YNull \<and> v \<noteq> Some (YList []) \<and>
     (\<forall>l. v = Some (YList l) \<and> list_all (is_in known_vendors) l \<longrightarrow>
        l = map YStr (filter (\<lambda>x. YStr x \<in> set l) known_vendors))"

lemma canon_attrs_fix: "attrs_ok (yget sc ''vendor_attrs'') \<Longrightarrow> canon_vendor_attrs sc = sc"
proof -
  assume ok: "attrs_ok (yget sc ''vendor_attrs'')"
  show ?thesis
  proof (cases "yget sc ''vendor_attrs''")
    case None
    then show ?thesis by (simp add: canon_vendor_attrs_def Let_def yval_at_def yhas_def)
  next
    case (Some v)
    then have at: "yval_at sc ''vendor_attrs'' = v" "yhas sc ''vendor_attrs''" by (simp_all add: yval_at_def yhas_def)
    show ?thesis
    proof (cases v)
      case (YList l)
      with ok Some at show ?thesis
        by (auto simp: canon_vendor_attrs_def Let_def attrs_ok_def yset_id)
    qed (use ok Some at in \<open>auto simp: canon_vendor_attrs_def Let_def attrs_ok_def\<close>)
  qed
qed

lemma known_filter_again:
  "filter (\<lambda>x. YStr x \<in> set (map YStr (filter P known_vendors))) known_vendors = filter P known_vendors"
  by (rule filter_cong) auto

lemma canon_attrs_ok: "attrs_ok (yget (canon_vendor_attrs sc) ''vendor_attrs'')"
proof (cases "yget sc ''vendor_attrs''")
  case None
  then show ?thesis by (simp add: canon_vendor_attrs_def Let_def yval_at_def yhas_def attrs_ok_def)
next
  case (Some v)
  then have at: "yval_at sc ''vendor_attrs'' = v" "yhas sc ''vendor_attrs''" by (simp_all add: yval_at_def yhas_def)
  show ?thesis
  proof (cases "v = YNull \<or> v = YList []")
    case True
    with at show ?thesis by (simp add: canon_vendor_attrs_def Let_def attrs_ok_def)
  next
    case False
    show ?thesis
    proof (cases "\<exists>l. v = YList l \<and> list_all (is_in known_vendors) l")
      case True
      then obtain l where l: "v = YList l" "list_all (is_in known_vendors) l" by blast
      with False obtain x xs where x: "l = x # xs" by (cases l) auto
      with l obtain s where s: "x = YStr s" "s \<in> set known_vendors"
        by (auto simp: is_in_def split: option.splits)
      have ne: "filter (\<lambda>v. YStr v \<in> set l) known_vendors \<noteq> []"
        using s x by (auto simp: filter_empty_conv)
      have "yget (canon_vendor_attrs sc) ''vendor_attrs'' = Some (YList (map YStr (filter (\<lambda>v. YStr v \<in> set l) known_vendors)))"
        using at l False by (simp add: canon_vendor_attrs_def Let_def)
      with ne known_filter_again [of "\<lambda>v. YStr v \<in> set l"] show ?thesis by (simp add: attrs_ok_def del: set_map set_filter)
    next
      case none: False
      then have "canon_vendor_attrs sc = sc"
        using at False by (auto simp: canon_vendor_attrs_def Let_def split: option.split)
      with Some False none show ?thesis by (auto simp: attrs_ok_def)
    qed
  qed
qed

lemma canon_attrs_other: "k \<noteq> ''vendor_attrs'' \<Longrightarrow> yget (canon_vendor_attrs sc) k = yget sc k"
  by (auto simp: canon_vendor_attrs_def Let_def split: option.split)

lemma canon_devices_other: "k \<noteq> ''devices'' \<Longrightarrow> yget (canon_devices sc) k = yget sc k"
  by (auto simp: canon_devices_def Let_def split: option.split)

definition cidr_keys :: "ymap \<Rightarrow> bool" where
  "cidr_keys m \<longleftrightarrow> list_all (\<lambda>c. canonical_cidr (YStr c) \<noteq> None) (ykeys m)"

definition fixed_keys :: "ymap \<Rightarrow> bool" where
  "fixed_keys m \<longleftrightarrow> (\<forall>c \<in> set (ykeys m). canonical_cidr (YStr c) = Some c)"

lemma foldl_first_canonical:
  "wf_ymap m \<Longrightarrow> fixed_keys m \<Longrightarrow> cidr_keys dm \<Longrightarrow>
     wf_ymap (foldl first_canonical m dm) \<and> fixed_keys (foldl first_canonical m dm) \<and>
     (m \<noteq> [] \<or> dm \<noteq> [] \<longrightarrow> foldl first_canonical m dm \<noteq> [])"
proof (induction dm arbitrary: m)
  case Nil
  then show ?case by simp
next
  case (Cons p dm)
  then obtain c where c: "canonical_cidr (YStr (fst p)) = Some c" by (auto simp: cidr_keys_def ykeys_def)
  then have fix_c: "canonical_cidr (YStr c) = Some c" by (rule canonical_cidr_fix)
  let ?m = "first_canonical m p"
  have "wf_ymap ?m" using Cons.prems(1) c by (simp add: first_canonical_def)
  moreover have "fixed_keys ?m"
    using Cons.prems(2) c fix_c by (auto simp: first_canonical_def fixed_keys_def ykeys_yset)
  moreover have "?m \<noteq> []"
  proof -
    have "yhas ?m c" using c by (simp add: first_canonical_def)
    then show ?thesis by (auto simp: yhas_def)
  qed
  moreover have "cidr_keys dm" using Cons.prems(3) by (simp add: cidr_keys_def ykeys_def)
  ultimately show ?case using Cons.IH [of ?m] by simp
qed

lemma foldl_first_id:
  "wf_ymap (m @ dm) \<Longrightarrow> fixed_keys dm \<Longrightarrow> foldl first_canonical m dm = m @ dm"
proof (induction dm arbitrary: m)
  case Nil
  then show ?case by simp
next
  case (Cons p dm)
  have "canonical_cidr (YStr (fst p)) = Some (fst p)" using Cons.prems(2) by (simp add: fixed_keys_def ykeys_def)
  moreover have "fst p \<notin> set (ykeys m)" using Cons.prems(1) by (auto simp: wf_ymap_def ykeys_def)
  ultimately have "first_canonical m p = m @ [p]"
    by (simp add: first_canonical_def yhas_keys yset_append)
  with Cons show ?case by (simp add: fixed_keys_def ykeys_def)
qed

lemma canonical_devices_fix:
  assumes "wf_ymap dm" "fixed_keys dm" "sort_routing (ykeys dm) = ykeys dm"
  shows "canonical_devices dm = dm"
proof -
  have "foldl first_canonical [] dm = dm" using foldl_first_id [of "[]" dm] assms by simp
  moreover have "map (\<lambda>k. (k, yval_at dm k)) (ykeys dm) = dm"
  proof -
    have "(k, yval_at dm k) = p" if "p \<in> set dm" "k = fst p" for p k
      using that yget_mem [OF assms(1), of k "snd p"] by (simp add: yval_at_def prod_eq_iff)
    then show ?thesis by (auto simp: ykeys_def intro!: map_idI)
  qed
  ultimately show ?thesis using assms ymake_distinct [OF assms(1)] by (simp add: canonical_devices_def Let_def)
qed

lemma canonical_devices_keys:
  "wf_ymap (canonical_devices dm)" "ykeys (canonical_devices dm) = sort_routing (ykeys (foldl first_canonical [] dm))"
  if "cidr_keys dm"
proof -
  let ?c = "foldl first_canonical [] dm"
  have "wf_ymap ?c" using foldl_first_canonical [of "[]" dm] that by (simp add: fixed_keys_def ykeys_def)
  then have w: "wf_ymap (map (\<lambda>k. (k, yval_at ?c k)) (sort_routing (ykeys ?c)))"
    by (simp add: wf_ymap_def ykeys_def comp_def)
  then have e: "canonical_devices dm = map (\<lambda>k. (k, yval_at ?c k)) (sort_routing (ykeys ?c))"
    by (simp add: canonical_devices_def Let_def ymake_distinct)
  with w show "wf_ymap (canonical_devices dm)" by simp
  show "ykeys (canonical_devices dm) = sort_routing (ykeys ?c)" by (simp add: e ykeys_def comp_def)
qed

lemma canonical_devices_idem:
  assumes "cidr_keys dm"
  shows "canonical_devices (canonical_devices dm) = canonical_devices dm" "dm \<noteq> [] \<Longrightarrow> canonical_devices dm \<noteq> []"
proof -
  let ?c = "foldl first_canonical [] dm"
  have c: "fixed_keys ?c" "dm \<noteq> [] \<Longrightarrow> ?c \<noteq> []"
    using foldl_first_canonical [of "[]" dm] assms by (simp_all add: fixed_keys_def ykeys_def)
  note k = canonical_devices_keys [OF assms]
  show "canonical_devices (canonical_devices dm) = canonical_devices dm"
    by (rule canonical_devices_fix) (use c k in \<open>simp_all add: fixed_keys_def\<close>)
  show "canonical_devices dm \<noteq> []" if "dm \<noteq> []"
  proof
    assume "canonical_devices dm = []"
    then have "sort_routing (ykeys ?c) = []" using k(2) by (simp add: ykeys_def)
    then have "set (ykeys ?c) = {}" using set_sort_routing [of "ykeys ?c"] by simp
    with c(2) [OF that] show False by (simp add: ykeys_def)
  qed
qed

definition devices_ok :: "yval option \<Rightarrow> bool" where
  "devices_ok v \<longleftrightarrow> v \<noteq> Some YNull \<and> v \<noteq> Some (YMap []) \<and>
     (\<forall>dm. v = Some (YMap dm) \<and> cidr_keys dm \<longrightarrow> canonical_devices dm = dm)"

lemma canon_devices_fix: "devices_ok (yget sc ''devices'') \<Longrightarrow> canon_devices sc = sc"
proof -
  assume ok: "devices_ok (yget sc ''devices'')"
  show ?thesis
  proof (cases "yget sc ''devices''")
    case None
    then show ?thesis by (simp add: canon_devices_def Let_def yval_at_def yhas_def)
  next
    case (Some v)
    then have at: "yval_at sc ''devices'' = v" "yhas sc ''devices''" by (simp_all add: yval_at_def yhas_def)
    show ?thesis
    proof (cases v)
      case (YMap dm)
      with ok Some at show ?thesis
        by (auto simp: canon_devices_def Let_def devices_ok_def cidr_keys_def yset_id)
    qed (use ok Some at in \<open>auto simp: canon_devices_def Let_def devices_ok_def\<close>)
  qed
qed

lemma canon_devices_ok: "devices_ok (yget (canon_devices sc) ''devices'')"
proof (cases "yget sc ''devices''")
  case None
  then show ?thesis by (simp add: canon_devices_def Let_def yval_at_def yhas_def devices_ok_def)
next
  case (Some v)
  then have at: "yval_at sc ''devices'' = v" "yhas sc ''devices''" by (simp_all add: yval_at_def yhas_def)
  show ?thesis
  proof (cases "v = YNull \<or> v = YMap []")
    case True
    with at show ?thesis by (simp add: canon_devices_def Let_def devices_ok_def)
  next
    case False
    show ?thesis
    proof (cases "\<exists>dm. v = YMap dm \<and> cidr_keys dm")
      case True
      then obtain dm where dm: "v = YMap dm" "cidr_keys dm" by blast
      then have "yget (canon_devices sc) ''devices'' = Some (YMap (canonical_devices dm))"
        using at False by (auto simp: canon_devices_def Let_def cidr_keys_def)
      with dm False canonical_devices_idem [OF dm(2)] show ?thesis by (simp add: devices_ok_def)
    next
      case none: False
      then have "canon_devices sc = sc"
        using at False by (auto simp: canon_devices_def Let_def cidr_keys_def split: option.split)
      with Some False none show ?thesis by (auto simp: devices_ok_def)
    qed
  qed
qed

lemma canon_scope_prefixes: "yget (canon_scope sc) ''prefixes'' = Some (canonical_cidr_list (yval_at sc ''prefixes''))"
  by (simp add: canon_scope_def canon_devices_other canon_attrs_other)

lemma canon_scope_fix:
  assumes "yget sc ''prefixes'' = Some v" "canonical_cidr_list v = v"
    "attrs_ok (yget sc ''vendor_attrs'')" "devices_ok (yget sc ''devices'')"
  shows "canon_scope sc = sc"
proof -
  have "yset sc ''prefixes'' (canonical_cidr_list (yval_at sc ''prefixes'')) = sc"
    using assms(1,2) by (simp add: yval_at_def yset_id)
  with canon_attrs_fix [OF assms(3)] canon_devices_fix [OF assms(4)] show ?thesis by (simp add: canon_scope_def)
qed

lemma canon_scope_ok:
  "attrs_ok (yget (canon_scope sc) ''vendor_attrs'')" "devices_ok (yget (canon_scope sc) ''devices'')"
  by (simp_all add: canon_scope_def canon_devices_other canon_attrs_ok canon_devices_ok)

lemma canon_scope_idem: "canon_scope (canon_scope sc) = canon_scope sc"
  by (rule canon_scope_fix [OF canon_scope_prefixes _ canon_scope_ok]) simp

lemma canon_scope_other:
  "k \<notin> {''prefixes'', ''vendor_attrs'', ''devices''} \<Longrightarrow> yget (canon_scope sc) k = yget sc k"
  by (simp add: canon_scope_def canon_devices_other canon_attrs_other)

section \<open>Documents\<close>

lemma on_map_idem: "(\<And>m. f (f m) = f m) \<Longrightarrow> on_map f (on_map f v) = on_map f v"
  by (cases v) (simp_all add: on_map_def)

lemma section_canonicalize:
  "section_of (canonicalize U d) n =
     (if n = ''groups'' then ymap_vals (\<lambda>n. on_map (canon_group n)) (section_of d n)
      else if n = ''users'' then ymap_vals (\<lambda>_. on_map (canon_user U)) (section_of d n)
      else if n = ''scopes'' then ymap_vals (\<lambda>_. on_map canon_scope) (section_of d n)
      else if n = ''filters'' then ymap_vals (\<lambda>_. canonical_cidr_list) (section_of d n)
      else section_of d n)"
  by (simp add: canonicalize_def)

lemma canonicalize_idem:
  assumes "lower_stable U"
  shows "canonicalize U (canonicalize U d) = canonicalize U d"
proof -
  let ?c = "canonicalize U d"
  let ?fg = "\<lambda>n. on_map (canon_group n)" and ?fu = "\<lambda>_ :: string. on_map (canon_user U)"
  let ?fs = "\<lambda>_ :: string. on_map canon_scope" and ?ff = "\<lambda>_ :: string. canonical_cidr_list"
  have g: "yget ?c ''groups'' = Some (YMap (ymap_vals ?fg (section_of d ''groups'')))"
    and u: "yget ?c ''users'' = Some (YMap (ymap_vals ?fu (section_of d ''users'')))"
    and s: "yget ?c ''scopes'' = Some (YMap (ymap_vals ?fs (section_of d ''scopes'')))"
    and f: "yget ?c ''filters'' = Some (YMap (ymap_vals ?ff (section_of d ''filters'')))"
    by (simp_all add: canonicalize_def yget_map_section)
  have "map_section ''groups'' ?fg ?c = ?c"
    by (rule map_section_fix [OF g ymap_vals_idem]) (rule on_map_idem, rule canon_group_idem)
  moreover have "map_section ''users'' ?fu ?c = ?c"
    by (rule map_section_fix [OF u ymap_vals_idem]) (rule on_map_idem, rule canon_user_idem [OF assms])
  moreover have "map_section ''scopes'' ?fs ?c = ?c"
    by (rule map_section_fix [OF s ymap_vals_idem]) (rule on_map_idem, rule canon_scope_idem)
  moreover have "map_section ''filters'' ?ff ?c = ?c"
    by (rule map_section_fix [OF f ymap_vals_idem]) simp
  ultimately show ?thesis by (simp add: canonicalize_def [of U "canonicalize U d"])
qed

text \<open>
  Canonicalising a document a second time changes nothing, so a store that was written is not
  rewritten for form alone.
\<close>

theorem canonicalize_idempotent:
  assumes "lower_stable U"
  shows "canonicalize U (canonicalize U d) = canonicalize U d"
  by (rule canonicalize_idem [OF assms])

definition plain_unicode :: unicode where
  "plain_unicode = \<lparr>u_plain = (\<lambda>_. True), u_lower = id\<rparr>"

lemma lower_stable_plain: "lower_stable plain_unicode"
  by (simp add: lower_stable_def plain_unicode_def to_lower_def)

theorem canonicalize_idempotent_witness:
  "canonicalize plain_unicode (canonicalize plain_unicode empty_store) = canonicalize plain_unicode empty_store"
  by (rule canonicalize_idempotent [OF lower_stable_plain])

end
