(* ===== verification/StoreOpsProps.thy ===== *)
theory StoreOpsProps
  imports StoreOps
begin

text \<open>
  What the store operations promise: every operation, refused or not, keeps the document
  well-formed; removals and renames keep the references of users to groups and scopes; the setters
  change the entry they name, field by field, and nothing else.
\<close>

section \<open>Well-formedness is kept\<close>

lemma user_set_wf: "wf_doc d \<Longrightarrow> wf_doc (fst (user_set t d name args))"
proof -
  assume d: "wf_doc d"
  let ?users = "section_of d ''users''"
  have s: "wf_section ?users" by (rule wf_doc_section [OF d])
  have new: "wf_section (yset ?users name (YMap (new_user b)))" for b
    using s by (intro wf_section_yset) (auto simp: wf_entry_def new_user_def)
  show ?thesis
    using d s new user_field_wf
    by (auto simp: user_set_def Let_def split_beta wf_doc_put split: sum.split option.split
        intro!: wf_doc_set_entry)
qed

lemma group_set_wf: "wf_doc d \<Longrightarrow> wf_doc (fst (group_set d name args))"
proof -
  assume d: "wf_doc d"
  let ?groups = "section_of d ''groups''"
  have s: "wf_section ?groups" by (rule wf_doc_section [OF d])
  have new: "wf_section (yset ?groups name (YMap (ymake ps)))" for ps
    using s by (intro wf_section_yset) (auto simp: wf_entry_def)
  show ?thesis
    using d s new group_field_wf
    by (auto simp: group_set_def Let_def split_beta wf_doc_put split: sum.split option.split
        intro!: wf_doc_set_entry)
qed

lemma scope_set_wf: "wf_doc d \<Longrightarrow> wf_doc (fst (scope_set d name args))"
proof -
  assume d: "wf_doc d"
  let ?scopes = "section_of d ''scopes''"
  have s: "wf_section ?scopes" by (rule wf_doc_section [OF d])
  have new: "wf_section (yset ?scopes name (YMap (ymake ps)))" for ps
    using s by (intro wf_section_yset) (auto simp: wf_entry_def)
  show ?thesis
    using d s new scope_field_wf
    by (auto simp: scope_set_def Let_def split_beta wf_doc_put split: sum.split option.split
        intro!: wf_doc_set_entry)
qed

lemma user_del_wf: "wf_doc d \<Longrightarrow> wf_doc (fst (user_del d name))"
  by (auto simp: user_del_def Let_def intro!: wf_doc_put wf_section_ydel wf_doc_section)

lemma group_del_wf: "wf_doc d \<Longrightarrow> wf_doc (fst (group_del d name))"
  by (auto simp: group_del_def Let_def intro!: wf_doc_put wf_section_ydel wf_doc_section)

lemma user_rename_wf: "wf_doc d \<Longrightarrow> wf_doc (fst (user_rename d old new_name))"
proof -
  assume d: "wf_doc d"
  let ?users = "section_of d ''users''"
  have s: "wf_section ?users" by (rule wf_doc_section [OF d])
  have "wf_entry (yval_at ?users old)" by (rule wf_entry_at [OF s])
  with d s show ?thesis
    by (auto simp: user_rename_def Let_def wf_entry_def split: option.split
        intro!: wf_doc_put wf_section_yset wf_section_ydel)
qed

lemma strip_scope_wf: "wf_section users \<Longrightarrow> wf_section (strip_scope name users n)"
  by (auto simp: strip_scope_def wf_entry_def split: option.split intro!: wf_section_yset dest: wf_section_map)

lemma foldl_strip_wf: "wf_section users \<Longrightarrow> wf_section (foldl (strip_scope name) users ns)"
  by (induction ns arbitrary: users) (simp_all add: strip_scope_wf)

lemma scope_del_wf: "wf_doc d \<Longrightarrow> wf_doc (fst (scope_del d name strip))"
  by (auto simp: scope_del_def Let_def intro!: wf_doc_put wf_section_ydel foldl_strip_wf wf_doc_section)

lemma rename_scope_in_wf: "wf_entry v \<Longrightarrow> wf_entry (rename_scope_in a b v)"
  by (auto simp: rename_scope_in_def wf_entry_def split: option.split yval.splits)

lemma scope_rename_wf: "wf_doc d \<Longrightarrow> wf_doc (fst (scope_rename d old new_name))"
  by (auto simp: scope_rename_def Let_def
      intro!: wf_doc_put wf_doc_ensure wf_section_yset wf_section_ydel wf_entry_at wf_section_vals rename_scope_in_wf wf_doc_section)

lemma filters_set_wf: "wf_doc d \<Longrightarrow> wf_doc (fst (filters_set d which cidrs))"
  by (auto simp: filters_set_def Let_def wf_entry_def split: option.split
      intro!: wf_doc_put wf_section_yset wf_doc_section)

lemma seed_all_wf: "wf_doc d \<Longrightarrow> wf_doc (fst (seed_all t scope d us))"
proof (induction us arbitrary: d)
  case Nil
  then show ?case by simp
next
  case (Cons u us)
  then show ?case
    using user_set_wf [OF Cons.prems, of t "fst u" "[''group='' @ snd u, ''scopes='' @ scope]"]
    by (auto split: prod.split option.split)
qed

lemma seed_fresh_wf: "wf_doc d \<Longrightarrow> wf_doc (fst (seed_fresh t d scope plist secret))"
  using scope_set_wf [of d scope "[''prefixes='' @ plist, ''secret='' @ secret]"] seed_all_wf
  by (auto simp: seed_fresh_def split: prod.split option.split)


lemma wf_sectionI: "wf_ymap m \<Longrightarrow> \<forall>p \<in> set m. wf_entry (snd p) \<Longrightarrow> wf_section m"
  by (auto simp: wf_section_def dest!: yget_in_set)

lemma wf_doc_empty: "wf_doc empty_store"
proof -
  have sec: "section_of empty_store n = (if n = ''groups'' then ymake (map builtin_entry builtin_groups)
      else if n = ''filters'' then ymake [(''allow'', YList []), (''deny'', YList [])] else [])" for n
    by (simp add: section_of_def empty_store_def ymake_def yval_at_def yget_Cons)
  have "wf_section (ymake (map builtin_entry builtin_groups))"
    by (rule wf_sectionI) (simp_all add: ymake_def builtin_groups_def builtin_entry_def wf_entry_def wf_ymap_def ykeys_def)
  moreover have "wf_section (ymake [(''allow'', YList []), (''deny'', YList [])])"
    by (rule wf_sectionI) (simp_all add: ymake_def wf_entry_def wf_ymap_def ykeys_def)
  moreover have "wf_ymap empty_store" by (simp add: empty_store_def)
  ultimately show ?thesis by (auto simp: wf_doc_def sec)
qed


section \<open>References\<close>

text \<open>Every user's group and scopes exist (empty names are left to the validator).\<close>

definition refs_ok :: "doc \<Rightarrow> bool" where
  "refs_ok d \<longleftrightarrow>
     (\<forall>n u. yget (section_of d ''users'') n = Some (YMap u) \<longrightarrow>
        (\<forall>g. yval_at u ''group'' = YStr g \<and> g \<noteq> [] \<longrightarrow> yhas (section_of d ''groups'') g) \<and>
        (\<forall>s. YStr s \<in> set (scope_list u) \<and> s \<noteq> [] \<longrightarrow> yhas (section_of d ''scopes'') s))"

lemma refs_ok_user:
  "refs_ok d \<Longrightarrow> yget (section_of d ''users'') n = Some (YMap u) \<Longrightarrow>
     (yval_at u ''group'' = YStr g \<longrightarrow> g \<noteq> [] \<longrightarrow> yhas (section_of d ''groups'') g) \<and>
     (YStr s \<in> set (scope_list u) \<longrightarrow> s \<noteq> [] \<longrightarrow> yhas (section_of d ''scopes'') s)"
  by (auto simp: refs_ok_def)

lemma refs_ok_ensure [simp]: "refs_ok (ensure_section d n) = refs_ok d"
  by (simp add: refs_ok_def)

lemma case_map_of_val: "(case map_of_val v of Some u \<Rightarrow> P u | None \<Rightarrow> False) \<longleftrightarrow> (\<exists>u. v = YMap u \<and> P u)"
  by (cases v) auto

lemma users_where_set: "n \<in> set (users_where users P) \<longleftrightarrow> (\<exists>u. yget users n = Some (YMap u) \<and> P u)"
proof -
  have "yget users n = Some (YMap u) \<Longrightarrow> n \<in> set (ykeys users)" for u
    using yget_dom [of users n] by simp
  then show ?thesis by (auto simp: users_where_def case_map_of_val yval_at_map)
qed

lemma users_where_empty:
  "users_where users P = [] \<longleftrightarrow> (\<forall>n u. yget users n = Some (YMap u) \<longrightarrow> \<not> P u)"
  using users_where_set [of _ users P] by (metis empty_iff list.set(1) ex_in_conv set_empty)

text \<open>
  C33: \<open>GroupDel\<close> removes a group exactly when it exists, is not built in and no user is assigned to
  it; the references of the users stay good, and nothing but that group is gone.
\<close>

theorem group_del_correct:
  "(snd (group_del d name) = None \<longleftrightarrow>
      name \<noteq> [] \<and> yhas (section_of d ''groups'') name \<and> \<not> is_builtin_group name \<and>
      (\<forall>n u. yget (section_of d ''users'') n = Some (YMap u) \<longrightarrow> yval_at u ''group'' \<noteq> YStr name)) \<and>
   (\<forall>sec k. yget (section_of (fst (group_del d name)) sec) k =
      (if snd (group_del d name) = None \<and> sec = ''groups'' \<and> k = name then None else yget (section_of d sec) k)) \<and>
   (refs_ok d \<longrightarrow> refs_ok (fst (group_del d name)))"
proof -
  have ok: "snd (group_del d name) = None \<longleftrightarrow>
      name \<noteq> [] \<and> yhas (section_of d ''groups'') name \<and> \<not> is_builtin_group name \<and>
      users_where (section_of d ''users'') (\<lambda>u. yval_at u ''group'' = YStr name) = []"
    by (auto simp: group_del_def Let_def)
  have sec: "section_of (fst (group_del d name)) sec =
      (if snd (group_del d name) = None \<and> sec = ''groups'' then ydel (section_of d ''groups'') name else section_of d sec)" for sec
    by (auto simp: group_del_def Let_def)
  have "refs_ok (fst (group_del d name))" if r: "refs_ok d"
  proof (cases "snd (group_del d name) = None")
    case False
    then have "section_of (fst (group_del d name)) s = section_of d s" for s
      unfolding sec [of s] by (metis (no_types))
    with r show ?thesis by (simp add: refs_ok_def)
  next
    case True
    then have "\<And>n u. yget (section_of d ''users'') n = Some (YMap u) \<Longrightarrow> yval_at u ''group'' \<noteq> YStr name"
      unfolding ok users_where_empty by blast
    with r True show ?thesis by (fastforce simp: refs_ok_def sec)
  qed
  then show ?thesis using ok users_where_empty sec by auto
qed

theorem group_del_correct_witness: "refs_ok (fst (group_del empty_store ''noc''))"
proof -
  have "section_of empty_store ''users'' = []" by code_simp
  then have "refs_ok empty_store" by (simp add: refs_ok_def)
  then show ?thesis using group_del_correct by blast
qed

lemma yget_foldl_strip:
  "distinct ns \<Longrightarrow> yget (foldl (strip_scope name) users ns) n =
     (if n \<in> set ns then yget (strip_scope name users n) n else yget users n)"
proof (induction ns arbitrary: users)
  case Nil
  then show ?case by simp
next
  case (Cons m ns)
  have other: "yget (strip_scope name us m) k = yget us k" if "k \<noteq> m" for us k
    using that by (simp add: strip_scope_def split: option.split)
  have "yget (strip_scope name (strip_scope name users m) k) k = yget (strip_scope name users k) k" if "k \<noteq> m" for k
    using other [OF that, of users] by (simp add: strip_scope_def yval_at_def split: option.split)
  with Cons other show ?case by (cases "n = m") auto
qed

lemma scope_list_yset: "scope_list (yset u ''scopes'' (YList l)) = l"
  by (simp add: scope_list_def)

lemma strip_scope_at:
  "yget (strip_scope name users n) n =
     (case yget users n of
        Some (YMap u) \<Rightarrow> Some (YMap (yset u ''scopes'' (YList (filter (\<lambda>x. x \<noteq> YStr name) (scope_list u)))))
      | v \<Rightarrow> v)"
  by (auto simp: strip_scope_def yval_at_def split: option.split yval.split)

text \<open>
  \<open>ScopeDel\<close> removes an existing scope when no user lists it or the users are to be stripped;
  then no user lists it, the other scopes of every user stay in order, and the references stay good.
\<close>

theorem scope_del_correct:
  assumes "wf_doc d"
  shows "(snd (scope_del d name strip) = None \<longleftrightarrow>
      name \<noteq> [] \<and> yhas (section_of d ''scopes'') name \<and>
      (strip \<or> (\<forall>n u. yget (section_of d ''users'') n = Some (YMap u) \<longrightarrow> YStr name \<notin> set (scope_list u)))) \<and>
   (snd (scope_del d name strip) = None \<longrightarrow>
      (\<forall>k. yget (section_of (fst (scope_del d name strip)) ''scopes'') k = (if k = name then None else yget (section_of d ''scopes'') k)) \<and>
      (\<forall>n u. yget (section_of d ''users'') n = Some (YMap u) \<longrightarrow>
         (\<exists>u'. yget (section_of (fst (scope_del d name strip)) ''users'') n = Some (YMap u') \<and>
            scope_list u' = filter (\<lambda>x. x \<noteq> YStr name) (scope_list u) \<and>
            (\<forall>f. f \<noteq> ''scopes'' \<longrightarrow> yget u' f = yget u f)))) \<and>
   (refs_ok d \<longrightarrow> refs_ok (fst (scope_del d name strip)))"
proof -
  let ?us = "section_of d ''users''"
  let ?r = "scope_del d name strip"
  let ?ms = "users_where ?us (\<lambda>u. YStr name \<in> set (scope_list u))"
  have dist: "distinct ?ms"
    using wf_doc_section [OF assms, of "''users''"] by (simp add: users_where_def wf_section_def wf_ymap_def)
  have ok: "snd ?r = None \<longleftrightarrow> name \<noteq> [] \<and> yhas (section_of d ''scopes'') name \<and> (strip \<or> ?ms = [])"
    by (auto simp: scope_del_def Let_def)
  have fail: "section_of (fst ?r) sec = section_of d sec" if "snd ?r \<noteq> None" for sec
    using that by (auto simp: scope_del_def Let_def split: if_splits)
  have scopes: "section_of (fst ?r) ''scopes'' = ydel (section_of d ''scopes'') name"
    and groups: "section_of (fst ?r) ''groups'' = section_of d ''groups''"
    and users: "section_of (fst ?r) ''users'' = foldl (strip_scope name) ?us ?ms" if "snd ?r = None"
    using that by (auto simp: scope_del_def Let_def split: if_splits)
  have at: "yget (foldl (strip_scope name) ?us ?ms) n =
      (if n \<in> set ?ms then yget (strip_scope name ?us n) n else yget ?us n)" for n
    by (rule yget_foldl_strip [OF dist])
  have user: "\<exists>u'. yget (foldl (strip_scope name) ?us ?ms) n = Some (YMap u') \<and>
      scope_list u' = filter (\<lambda>x. x \<noteq> YStr name) (scope_list u) \<and> (\<forall>f. f \<noteq> ''scopes'' \<longrightarrow> yget u' f = yget u f)"
    if u: "yget ?us n = Some (YMap u)" for n u
  proof (cases "YStr name \<in> set (scope_list u)")
    case True
    with u have "n \<in> set ?ms" by (auto simp: users_where_set)
    with u show ?thesis by (simp add: at strip_scope_at scope_list_yset)
  next
    case False
    with u have "n \<notin> set ?ms" by (auto simp: users_where_set)
    moreover have "filter (\<lambda>x. x \<noteq> YStr name) (scope_list u) = scope_list u"
      using False by (auto simp: filter_id_conv)
    ultimately show ?thesis using u by (simp add: at)
  qed
  have orig: "\<exists>u. yget ?us n = Some (YMap u)" if "yget (foldl (strip_scope name) ?us ?ms) n = Some (YMap u')" for n u'
    using that by (auto simp: at strip_scope_at split: if_splits option.splits yval.splits)
  have refs: "refs_ok (fst ?r)" if r: "refs_ok d"
  proof (cases "snd ?r = None")
    case False
    with r fail show ?thesis by (simp add: refs_ok_def)
  next
    case True
    show ?thesis
      unfolding refs_ok_def scopes [OF True] groups [OF True] users [OF True]
    proof (intro allI impI)
      fix n u' assume u': "yget (foldl (strip_scope name) ?us ?ms) n = Some (YMap u')"
      from orig [OF u'] obtain u where u: "yget ?us n = Some (YMap u)" by blast
      from user [OF u] u' have l: "scope_list u' = filter (\<lambda>x. x \<noteq> YStr name) (scope_list u)"
        and g: "yval_at u' ''group'' = yval_at u ''group''" by (auto simp: yval_at_def)
      with refs_ok_user [OF r u]
      show "(\<forall>g. yval_at u' ''group'' = YStr g \<and> g \<noteq> [] \<longrightarrow> yhas (section_of d ''groups'') g) \<and>
          (\<forall>s. YStr s \<in> set (scope_list u') \<and> s \<noteq> [] \<longrightarrow> yhas (ydel (section_of d ''scopes'') name) s)"
        by auto
    qed
  qed
  show ?thesis
    using ok refs scopes users user by (simp add: users_where_empty)
qed

theorem scope_del_correct_witness:
  "yget (section_of (fst (scope_del (put_section empty_store ''scopes'' [(''lab'', YMap [])]) ''lab'' False)) ''scopes'') ''lab'' = None"
proof -
  let ?d = "put_section empty_store ''scopes'' [(''lab'', YMap [])]"
  have "wf_section [(''lab'', YMap [])]" by (rule wf_sectionI) (simp_all add: wf_ymap_def ykeys_def wf_entry_def)
  then have "wf_doc ?d" using wf_doc_empty by (rule wf_doc_put [rotated])
  moreover have "snd (scope_del ?d ''lab'' False) = None" by code_simp
  ultimately show ?thesis using scope_del_correct [of ?d "''lab''" False] by simp
qed

lemma rename_scope_in_map:
  "rename_scope_in a b v = YMap u' \<longleftrightarrow>
     (\<exists>u. v = YMap u \<and> u' = yset u ''scopes'' (YList (map (\<lambda>x. if x = YStr a then YStr b else x) (scope_list u))))"
  by (cases v) (auto simp: rename_scope_in_def)

text \<open>
  \<open>ScopeRename\<close> succeeds exactly from an existing name to a free one; the scope's entry moves to
  the new name, every user's list has the new name in the place of the old one, and the references
  stay good.
\<close>

theorem scope_rename_correct:
  "(snd (scope_rename d old new_name) = None \<longleftrightarrow>
      yhas (section_of d ''scopes'') old \<and> \<not> yhas (section_of d ''scopes'') new_name) \<and>
   (snd (scope_rename d old new_name) = None \<longrightarrow>
      (\<forall>k. yget (section_of (fst (scope_rename d old new_name)) ''scopes'') k =
         (if k = new_name then yget (section_of d ''scopes'') old
          else if k = old then None else yget (section_of d ''scopes'') k)) \<and>
      (\<forall>n u. yget (section_of d ''users'') n = Some (YMap u) \<longrightarrow>
         (\<exists>u'. yget (section_of (fst (scope_rename d old new_name)) ''users'') n = Some (YMap u') \<and>
            scope_list u' = map (\<lambda>x. if x = YStr old then YStr new_name else x) (scope_list u) \<and>
            (\<forall>f. f \<noteq> ''scopes'' \<longrightarrow> yget u' f = yget u f)))) \<and>
   (refs_ok d \<longrightarrow> refs_ok (fst (scope_rename d old new_name)))"
proof -
  let ?r = "scope_rename d old new_name"
  let ?us = "section_of d ''users''"
  have ok: "snd ?r = None \<longleftrightarrow> yhas (section_of d ''scopes'') old \<and> \<not> yhas (section_of d ''scopes'') new_name"
    by (auto simp: scope_rename_def Let_def)
  have fail: "section_of (fst ?r) sec = section_of d sec" if "snd ?r \<noteq> None" for sec
    using that by (auto simp: scope_rename_def Let_def split: if_splits)
  have scopes: "section_of (fst ?r) ''scopes'' =
        yset (ydel (section_of d ''scopes'') old) new_name (yval_at (section_of d ''scopes'') old)"
    and groups: "section_of (fst ?r) ''groups'' = section_of d ''groups''"
    and users: "section_of (fst ?r) ''users'' = ymap_vals (\<lambda>_. rename_scope_in old new_name) ?us" if "snd ?r = None"
    using that by (auto simp: scope_rename_def Let_def split: if_splits)
  have get: "yget (section_of (fst ?r) ''scopes'') k =
         (if k = new_name then yget (section_of d ''scopes'') old
          else if k = old then None else yget (section_of d ''scopes'') k)" if "snd ?r = None" for k
    using ok that scopes [OF that] by (auto simp: yhas_def yval_at_def)
  have user: "\<exists>u'. yget (ymap_vals (\<lambda>_. rename_scope_in old new_name) ?us) n = Some (YMap u') \<and>
      scope_list u' = map (\<lambda>x. if x = YStr old then YStr new_name else x) (scope_list u) \<and>
      (\<forall>f. f \<noteq> ''scopes'' \<longrightarrow> yget u' f = yget u f)" if "yget ?us n = Some (YMap u)" for n u
    using that by (simp add: rename_scope_in_def scope_list_yset)
  have refs: "refs_ok (fst ?r)" if r: "refs_ok d"
  proof (cases "snd ?r = None")
    case False
    with r fail show ?thesis by (simp add: refs_ok_def)
  next
    case True
    show ?thesis
      unfolding refs_ok_def groups [OF True] users [OF True]
    proof (intro allI impI)
      fix n u' assume "yget (ymap_vals (\<lambda>_. rename_scope_in old new_name) ?us) n = Some (YMap u')"
      then obtain u where u: "yget ?us n = Some (YMap u)"
        and u': "u' = yset u ''scopes'' (YList (map (\<lambda>x. if x = YStr old then YStr new_name else x) (scope_list u)))"
        by (auto simp: rename_scope_in_map)
      have "yhas (section_of (fst ?r) ''scopes'') s" if "YStr s \<in> set (scope_list u')" "s \<noteq> []" for s
      proof -
        from that(1) obtain x where x: "x \<in> set (scope_list u)" "YStr s = (if x = YStr old then YStr new_name else x)"
          by (auto simp: u' scope_list_yset)
        show ?thesis
        proof (cases "x = YStr old")
          case True
          with x ok \<open>snd ?r = None\<close> get show ?thesis by (simp add: yhas_def)
        next
          case False
          with x refs_ok_user [OF r u] that(2) have "yhas (section_of d ''scopes'') s" "s \<noteq> old" by auto
          with ok \<open>snd ?r = None\<close> get show ?thesis by (auto simp: yhas_def)
        qed
      qed
      moreover have "yval_at u' ''group'' = yval_at u ''group''" by (simp add: u')
      ultimately show "(\<forall>g. yval_at u' ''group'' = YStr g \<and> g \<noteq> [] \<longrightarrow> yhas (section_of d ''groups'') g) \<and>
          (\<forall>s. YStr s \<in> set (scope_list u') \<and> s \<noteq> [] \<longrightarrow> yhas (section_of (fst ?r) ''scopes'') s)"
        using refs_ok_user [OF r u] by auto
    qed
  qed
  show ?thesis using ok get refs users user by simp
qed

theorem scope_rename_correct_witness:
  "refs_ok (fst (scope_rename empty_store ''lab'' ''lab2''))"
proof -
  have "section_of empty_store ''users'' = []" by code_simp
  then have "refs_ok empty_store" by (simp add: refs_ok_def)
  then show ?thesis using scope_rename_correct by blast
qed

text \<open>
  \<open>UserRename\<close> succeeds exactly from an existing name to a free one, moves the entry and sets only
  its accounting-sink flag; renaming back restores every lookup when the flag agreed with the name.
\<close>

theorem user_rename_correct:
  "(snd (user_rename d old new_name) = None \<longleftrightarrow>
      yhas (section_of d ''users'') old \<and> \<not> yhas (section_of d ''users'') new_name) \<and>
   (snd (user_rename d old new_name) = None \<longrightarrow>
      (\<forall>n. n \<noteq> old \<and> n \<noteq> new_name \<longrightarrow>
         yget (section_of (fst (user_rename d old new_name)) ''users'') n = yget (section_of d ''users'') n) \<and>
      yget (section_of (fst (user_rename d old new_name)) ''users'') old = None \<and>
      (\<forall>u. yget (section_of d ''users'') old = Some (YMap u) \<longrightarrow>
         yget (section_of (fst (user_rename d old new_name)) ''users'') new_name =
           Some (YMap (yset u ''accounting_sink'' (YBool (new_name \<in> set sink_users)))) \<and>
         (wf_ymap u \<and> yget u ''accounting_sink'' = Some (YBool (old \<in> set sink_users)) \<longrightarrow>
            (\<forall>n. yget (section_of (fst (user_rename (fst (user_rename d old new_name)) new_name old)) ''users'') n =
               yget (section_of d ''users'') n))))"
proof -
  let ?us = "section_of d ''users''"
  let ?r = "user_rename d old new_name"
  have ok: "snd (user_rename d a b) = None \<longleftrightarrow> yhas (section_of d ''users'') a \<and> \<not> yhas (section_of d ''users'') b"
    for d a b by (auto simp: user_rename_def Let_def)
  have users: "section_of (fst (user_rename d a b)) ''users'' =
      yset (ydel (section_of d ''users'') a) b (case map_of_val (yval_at (section_of d ''users'') a) of
        Some m \<Rightarrow> YMap (yset m ''accounting_sink'' (YBool (b \<in> set sink_users))) | None \<Rightarrow> yval_at (section_of d ''users'') a)"
    if "snd (user_rename d a b) = None" for d a b
    using that by (auto simp: user_rename_def Let_def split: if_splits)
  have again: "yget (section_of (fst (user_rename (fst ?r) new_name old)) ''users'') n = yget ?us n"
    if n: "snd ?r = None" and u: "yget ?us old = Some (YMap u)"
      and w: "wf_ymap u" "yget u ''accounting_sink'' = Some (YBool (old \<in> set sink_users))" for u n
  proof -
    let ?m = "yset u ''accounting_sink'' (YBool (new_name \<in> set sink_users))"
    have new: "yget (section_of (fst ?r) ''users'') k = (if k = new_name then Some (YMap ?m) else if k = old then None else yget ?us k)" for k
      using u by (simp add: users [OF n] yval_at_def)
    have two: "snd (user_rename (fst ?r) new_name old) = None"
      unfolding ok using n ok [of d old new_name] by (auto simp: yhas_def new)
    have "yset ?m ''accounting_sink'' (YBool (old \<in> set sink_users)) = u"
      using w by (simp add: ymap.put_put ymap.put_get)
    with new u n ok [of d old new_name] show ?thesis
      by (auto simp: users [OF two] yval_at_def yhas_def)
  qed
  show ?thesis using ok users again by (auto simp: yval_at_def yhas_def)
qed

theorem user_rename_correct_witness:
  "yget (section_of (fst (user_rename (fst (user_set [] empty_store ''ann'' [''group=readonly''])) ''ann'' ''bob'')) ''users'') ''ann'' = None"
proof -
  have "snd (user_rename (fst (user_set [] empty_store ''ann'' [''group=readonly''])) ''ann'' ''bob'') = None" by code_simp
  then show ?thesis using user_rename_correct by blast
qed

section \<open>Setting the fields of a user\<close>

lemma apply_fields_inv:
  assumes "apply_fields f u ps = (u', None)" "P u"
    and "\<And>u p u'. p \<in> set ps \<Longrightarrow> f u p = Inr u' \<Longrightarrow> P u \<Longrightarrow> P u'"
  shows "P u'"
  using assms
proof (induction ps arbitrary: u)
  case Nil
  then show ?case by simp
next
  case (Cons p ps)
  then obtain v where v: "f u p = Inr v" "apply_fields f v ps = (u', None)" by (auto split: sum.splits)
  then show ?case using Cons.IH [OF v(2)] Cons.prems(2,3) by (metis list.set_intros)
qed

lemma apply_fields_at:
  assumes "apply_fields f u ps = (u', None)" "distinct (map fst ps)"
    and other: "\<And>u p u'. f u p = Inr u' \<Longrightarrow> fst p \<noteq> k \<Longrightarrow> yget u' k = yget u k"
    and own: "\<And>u v u'. f u (k, v) = Inr u' \<Longrightarrow> yget u' k = g v"
  shows "yget u' k = (case map_of ps k of Some v \<Rightarrow> g v | None \<Rightarrow> yget u k)"
  using assms(1,2)
proof (induction ps arbitrary: u)
  case Nil
  then show ?case by simp
next
  case (Cons p ps)
  then obtain v where v: "f u p = Inr v" "apply_fields f v ps = (u', None)" by (auto split: sum.splits)
  with Cons have ih: "yget u' k = (case map_of ps k of Some v \<Rightarrow> g v | None \<Rightarrow> yget v k)" by simp
  show ?case
  proof (cases "fst p = k")
    case True
    with Cons.prems(2) have "map_of ps k = None" by (auto simp: map_of_eq_None_iff)
    with ih own [of u "snd p" v] v True show ?thesis by (cases p) simp
  next
    case False
    with ih other [OF v(1)] show ?thesis by (cases p) (simp split: option.split)
  qed
qed

lemma apply_fields_each: "apply_fields f u ps = (u', None) \<Longrightarrow> p \<in> set ps \<Longrightarrow> \<exists>w w'. f w p = Inr w'"
  by (induction ps arbitrary: u) (auto split: sum.splits)

lemma put_field_keys: "map fst (put_field ps k v) = (if k \<in> set (map fst ps) then map fst ps else map fst ps @ [k])"
  by (induction ps) auto

lemma kv_from_distinct: "kv_from out args = Inr kvs \<Longrightarrow> distinct (map fst out) \<Longrightarrow> distinct (map fst kvs)"
proof (induction args arbitrary: out)
  case Nil
  then show ?case by simp
next
  case (Cons a args)
  then show ?case by (auto simp: put_field_keys split: prod.splits if_splits)
qed

lemma kv_distinct: "kv args = Inr kvs \<Longrightarrow> distinct (map fst kvs)"
  unfolding kv_def by (drule kv_from_distinct) simp_all

lemma has_key_map_of: "has_key kvs k \<longleftrightarrow> map_of kvs k \<noteq> None"
  by (induction kvs) (auto simp: has_key_def)

lemma set_user_hash_at:
  assumes "set_user_hash n s b u v = Inr u'"
  shows "\<not> s" "k \<noteq> ''hash'' \<Longrightarrow> k \<noteq> ''disabled'' \<Longrightarrow> yget u' k = yget u k"
    "yget u' ''hash'' = Some (if is_null_arg v then YNull else YStr (the (normalize_hash v)))"
    "\<not> b \<Longrightarrow> yget u' ''disabled'' = yget u ''disabled''"
    "b \<Longrightarrow> yget u' ''disabled'' = Some (YBool (yval_at u' ''hash'' = YNull))"
  using assms by (auto simp: set_user_hash_def Let_def yval_at_def split: if_splits option.splits)

lemma user_field_other:
  assumes "user_field t b n kvs u p = Inr u'" "fst p \<noteq> k" "k \<noteq> ''disabled''"
  shows "yget u' k = yget u k"
  using user_field_forms [of t b n kvs u "fst p" "snd p" u'] assms set_user_hash_at(2) [of n _ _ u "snd p" u' k]
  by auto

lemma user_set_Some:
  assumes "user_set t d name args = (d', None)"
  obtains kvs u u' where "kv args = Inr kvs" "name \<noteq> []"
    "if yhas (section_of d ''users'') name then yget (section_of d ''users'') name = Some (YMap u)
     else has_key kvs ''group'' \<and> u = new_user (name \<in> set sink_users)"
    "apply_fields (user_field t (\<not> yhas (section_of d ''users'') name) name kvs) u kvs = (u', None)"
    "\<And>sec k. yget (section_of d' sec) k =
       (if sec = ''users'' \<and> k = name then Some (YMap u') else yget (section_of d sec) k)"
proof -
  let ?us = "section_of d ''users''"
  from assms have n: "name \<noteq> []" by (auto simp: user_set_def)
  with assms obtain kvs where kv: "kv args = Inr kvs" by (auto simp: user_set_def split: sum.splits)
  let ?us' = "if \<not> yhas ?us name then yset ?us name (YMap (new_user (name \<in> set sink_users))) else ?us"
  from assms n kv have g: "yhas ?us name \<or> has_key kvs ''group''"
    by (auto simp: user_set_def Let_def split: if_splits)
  from assms n kv g obtain u where u: "yval_at ?us' name = YMap u"
    by (auto simp: user_set_def Let_def split: option.splits if_splits)
  obtain u' e where ap: "apply_fields (user_field t (\<not> yhas ?us name) name kvs) u kvs = (u', e)"
    by (cases "apply_fields (user_field t (\<not> yhas ?us name) name kvs) u kvs")
  have g': "\<not> (\<not> yhas ?us name \<and> \<not> has_key kvs ''group'')" using g by blast
  have res: "user_set t d name args =
      (put_section (put_section (ensure_section d ''users'') ''users'' ?us') ''users'' (yset ?us' name (YMap u')), e)"
    unfolding user_set_def Let_def section_ensure kv sum.case if_not_P [OF n] if_not_P [OF g'] u map_of_val.simps option.case ap prod.case ..
  with assms have e: "e = None" and d': "d' = put_section (put_section (ensure_section d ''users'') ''users'' ?us') ''users'' (yset ?us' name (YMap u'))"
    by auto
  have user: "if yhas ?us name then yget ?us name = Some (YMap u) else has_key kvs ''group'' \<and> u = new_user (name \<in> set sink_users)"
    using u g by (auto simp: yval_at_map split: if_splits)
  have "yget (section_of d' sec) k = (if sec = ''users'' \<and> k = name then Some (YMap u') else yget (section_of d sec) k)" for sec k
    by (simp add: d')
  with that kv n user ap e show thesis by blast
qed

text \<open>
  When \<open>UserSet\<close> succeeds it has changed the named user only; group, scopes and hash hold the
  last value given for them; a new user must name a group, and unless it is told otherwise starts
  disabled exactly when it has no hash; the accounting sink never gets one.
\<close>

theorem user_set_correct:
  assumes "user_set t d name args = (d', None)"
  shows "\<exists>kvs u. kv args = Inr kvs \<and> yget (section_of d' ''users'') name = Some (YMap u) \<and>
    (\<forall>sec k. (sec, k) \<noteq> (''users'', name) \<longrightarrow> yget (section_of d' sec) k = yget (section_of d sec) k) \<and>
    (\<forall>g. map_of kvs ''group'' = Some g \<longrightarrow> yget u ''group'' = Some (YStr g)) \<and>
    (\<forall>s. map_of kvs ''scopes'' = Some s \<longrightarrow> yget u ''scopes'' = Some (YList (csv s))) \<and>
    (\<forall>h. map_of kvs ''hash'' = Some h \<longrightarrow> name \<notin> set sink_users \<and>
       yget u ''hash'' = Some (if is_null_arg h then YNull else YStr (the (normalize_hash h)))) \<and>
    (\<not> yhas (section_of d ''users'') name \<longrightarrow> has_key kvs ''group'' \<and>
       (\<not> has_key kvs ''disabled'' \<longrightarrow> yget u ''disabled'' = Some (YBool (yval_at u ''hash'' = YNull))))"
proof -
  from assms obtain kvs u u' where kv: "kv args = Inr kvs"
    and u: "if yhas (section_of d ''users'') name then yget (section_of d ''users'') name = Some (YMap u)
       else has_key kvs ''group'' \<and> u = new_user (name \<in> set sink_users)"
    and ap: "apply_fields (user_field t (\<not> yhas (section_of d ''users'') name) name kvs) u kvs = (u', None)"
    and d': "\<And>sec k. yget (section_of d' sec) k =
       (if sec = ''users'' \<and> k = name then Some (YMap u') else yget (section_of d sec) k)"
    by (rule user_set_Some) blast
  let ?f = "user_field t (\<not> yhas (section_of d ''users'') name) name kvs"
  note dist = kv_distinct [OF kv]
  have g: "yget u' ''group'' = (case map_of kvs ''group'' of Some v \<Rightarrow> Some (YStr v) | None \<Rightarrow> yget u ''group'')"
    by (rule apply_fields_at [OF ap dist]) (auto simp: user_field_at dest: user_field_other)
  have s: "yget u' ''scopes'' = (case map_of kvs ''scopes'' of Some v \<Rightarrow> Some (YList (csv v)) | None \<Rightarrow> yget u ''scopes'')"
    by (rule apply_fields_at [OF ap dist]) (auto simp: user_field_at dest: user_field_other)
  have h: "yget u' ''hash'' = (case map_of kvs ''hash'' of
      Some v \<Rightarrow> Some (if is_null_arg v then YNull else YStr (the (normalize_hash v))) | None \<Rightarrow> yget u ''hash'')"
    by (rule apply_fields_at [OF ap dist]) (use set_user_hash_at(3) in \<open>fastforce simp: user_field_at dest: user_field_other\<close>)+
  have sink: "name \<notin> set sink_users" if "(''hash'', v) \<in> set kvs" for v
  proof -
    from apply_fields_each [OF ap that] obtain w w' where "?f w (''hash'', v) = Inr w'" by blast
    then show ?thesis unfolding user_field_at by (rule set_user_hash_at(1))
  qed
  have "yget u' ''disabled'' = Some (YBool (yval_at u' ''hash'' = YNull))"
    if new: "\<not> yhas (section_of d ''users'') name" and nd: "\<not> has_key kvs ''disabled''"
  proof (rule apply_fields_inv [OF ap, where P = "\<lambda>u. yget u ''disabled'' = Some (YBool (yval_at u ''hash'' = YNull))"])
    show "yget u ''disabled'' = Some (YBool (yval_at u ''hash'' = YNull))"
      using u new by (simp add: new_user_def ymake_def yget_Cons yval_at_def)
  next
    fix w p w' assume p: "p \<in> set kvs" "?f w p = Inr w'" "yget w ''disabled'' = Some (YBool (yval_at w ''hash'' = YNull))"
    have "fst p \<noteq> ''disabled''" using p(1) nd by (auto simp: has_key_def list_ex_iff)
    show "yget w' ''disabled'' = Some (YBool (yval_at w' ''hash'' = YNull))"
    proof (cases "fst p = ''hash''")
      case True
      with p(2) new nd have "set_user_hash name (name \<in> set sink_users) True w (snd p) = Inr w'"
        using user_field_at(3) [of t True name kvs w "snd p"] by (cases p) simp
      then show ?thesis by (rule set_user_hash_at(5)) simp
    next
      case False
      with user_field_forms [of t _ name kvs w "fst p" "snd p" w'] p(2)
      have "(\<exists>v. w' = yset w (fst p) v) \<or> w' = ydel w (fst p)" by auto
      with False \<open>fst p \<noteq> ''disabled''\<close> have "yget w' ''disabled'' = yget w ''disabled''" "yget w' ''hash'' = yget w ''hash''"
        by auto
      with p(3) show ?thesis by (simp add: yval_at_def)
    qed
  qed
  with kv u g s h sink d' show ?thesis
    by (intro exI [of _ kvs] exI [of _ u']) (auto dest: map_of_SomeD)
qed

theorem user_set_correct_witness:
  "\<exists>u. yget (section_of (fst (user_set [] empty_store ''ann'' [''group=operator'', ''scopes=lab''])) ''users'') ''ann'' = Some (YMap u)
     \<and> yget u ''group'' = Some (YStr ''operator'')"
proof -
  let ?r = "user_set [] empty_store ''ann'' [''group=operator'', ''scopes=lab'']"
  have "snd ?r = None" by code_simp
  then have r: "user_set [] empty_store ''ann'' [''group=operator'', ''scopes=lab''] = (fst ?r, None)" by (simp add: prod_eq_iff)
  have "kv [''group=operator'', ''scopes=lab''] = Inr [(''group'', ''operator''), (''scopes'', ''lab'')]" by code_simp
  with user_set_correct [OF r] show ?thesis by force
qed

end
