(* ===== verification/StoreValid.thy ===== *)
theory StoreValid
  imports StoreValidate StoreCanon StoreOpsProps
begin

text \<open>
  What the validator guarantees: an accepted store has no dangling reference, its built-in groups, at
  most one user per address and at most one scope per network, and well-typed fields; the empty
  store is accepted, and a date that YAML read is stored as an accepted date.
\<close>

lemma body_of_section: "body_of d n = section_of d n"
  by (simp add: body_of_def section_of_def)

lemma concat_map_Nil: "concat (map f xs) = [] \<longleftrightarrow> (\<forall>x \<in> set xs. f x = [])"
  by auto

lemma validate_parts:
  "validate_store U b (YMap d) = [] \<longleftrightarrow>
     (\<forall>k \<in> set (ykeys d). k \<in> set top_keys) \<and> yval_at d ''version'' = YInt store_version \<and>
     (\<forall>s \<in> set (schema U). check_section U b d s = []) \<and>
     (\<forall>g \<in> set builtin_groups. check_builtin (section_of d ''groups'') g = []) \<and>
     (\<forall>p \<in> set (section_of d ''groups''). check_builtin_flag p = []) \<and>
     (\<forall>p \<in> set (section_of d ''users''). check_user_refs (section_of d ''groups'') (section_of d ''scopes'') p = []) \<and>
     check_emails U (section_of d ''users'') [] (sort_strings (ykeys (section_of d ''users''))) = [] \<and>
     check_prefixes [] (stored_prefixes (section_of d ''scopes'')) = [] \<and>
     device_problems (device_scopes (section_of d ''scopes'')) = [] \<and> check_filters d = []"
  by (auto simp: validate_store_def Let_def body_of_section concat_map_Nil filter_empty_conv)

section \<open>Emails and prefixes\<close>

lemma check_emails_Nil:
  "check_emails U users owner ns = [] \<longleftrightarrow>
     distinct (List.map_filter (email_of U users) ns) \<and>
     set (List.map_filter (email_of U users) ns) \<inter> fst ` set owner = {}"
proof (induction ns arbitrary: owner)
  case Nil
  then show ?case by (simp add: List.map_filter_simps)
next
  case (Cons n ns)
  show ?case
  proof (cases "email_of U users n")
    case None
    with Cons show ?thesis by (simp add: List.map_filter_simps)
  next
    case (Some key)
    show ?thesis
    proof (cases "map_of owner key")
      case None
      then have "check_emails U users owner (n # ns) = check_emails U users ((key, n) # owner) ns"
        by (simp add: Some)
      moreover have "key \<notin> fst ` set owner" using None by (simp add: map_of_eq_None_iff)
      moreover note Cons.IH [of "(key, n) # owner"]
      ultimately show ?thesis using Some by (auto simp: List.map_filter_simps)
    next
      case (Some first)
      then have "key \<in> fst ` set owner" by (force dest: map_of_SomeD)
      with Some \<open>email_of U users n = Some key\<close> show ?thesis by (simp add: List.map_filter_simps)
    qed
  qed
qed

lemma check_prefixes_owner:
  "check_prefixes owner ps = [] \<Longrightarrow>
     \<exists>own. (\<forall>c o1. map_of owner c = Some o1 \<longrightarrow> map_of own c = Some o1) \<and> (\<forall>p \<in> set ps. map_of own (fst p) = Some (snd p))"
proof (induction ps arbitrary: owner)
  case Nil
  then show ?case by auto
next
  case (Cons p ps)
  show ?case
  proof (cases "map_of owner (fst p)")
    case None
    with Cons.prems Cons.IH [of "p # owner"] obtain own where
      own: "\<forall>c o1. map_of (p # owner) c = Some o1 \<longrightarrow> map_of own c = Some o1"
        "\<forall>q \<in> set ps. map_of own (fst q) = Some (snd q)" by auto
    have step: "map_of (p # owner) c = (if c = fst p then Some (snd p) else map_of owner c)" for c by (cases p) simp
    have "map_of own (fst p) = Some (snd p)" using own(1) unfolding step by simp
    moreover have "map_of own c = Some o1" if "map_of owner c = Some o1" for c o1
    proof -
      have "c \<noteq> fst p" using that None by auto
      with that own(1) show ?thesis unfolding step by simp
    qed
    ultimately show ?thesis using own(2) by (intro exI [of _ own]) simp
  next
    case (Some o1)
    with Cons.prems have o: "o1 = snd p" "check_prefixes owner ps = []" by (auto split: if_splits)
    with Cons.IH [of owner] obtain own where
      own: "\<forall>c o1. map_of owner c = Some o1 \<longrightarrow> map_of own c = Some o1"
        "\<forall>q \<in> set ps. map_of own (fst q) = Some (snd q)" by blast
    with Some o(1) show ?thesis by (intro exI [of _ own]) simp
  qed
qed

lemma distinct_map_filter:
  "distinct (List.map_filter f xs) \<Longrightarrow> i < j \<Longrightarrow> j < length xs \<Longrightarrow> f (xs ! i) = Some a \<Longrightarrow> f (xs ! j) = Some b \<Longrightarrow> a \<noteq> b"
proof (induction xs arbitrary: i j)
  case Nil
  then show ?case by simp
next
  case (Cons x xs)
  show ?case
  proof (cases i)
    case 0
    with Cons.prems obtain j' where j: "j = Suc j'" "j' < length xs" by (cases j) auto
    with Cons.prems have "b \<in> set (List.map_filter f xs)" by (force simp: map_filter_def)
    with Cons.prems 0 show ?thesis by (auto simp: List.map_filter_simps)
  next
    case (Suc i')
    with Cons.prems obtain j' where "j = Suc j'" by (cases j) auto
    with Suc Cons.prems Cons.IH [of i' j'] show ?thesis by (auto simp: List.map_filter_simps split: option.splits)
  qed
qed

text \<open>
  In a store that validates, an email address - compared without regard to case - belongs to at
  most one user.
\<close>

theorem valid_store_emails_unique:
  assumes "validate_store U b (YMap d) = []" "wf_doc d"
    and "email_of U (section_of d ''users'') n = Some k" "email_of U (section_of d ''users'') m = Some k"
  shows "n = m"
proof (rule ccontr)
  assume nm: "n \<noteq> m"
  let ?us = "section_of d ''users''"
  let ?ns = "sort_strings (ykeys ?us)"
  have dist: "distinct (List.map_filter (email_of U ?us) ?ns)"
    using assms(1) unfolding validate_parts check_emails_Nil by blast
  have mem: "x \<in> set ?ns" if "email_of U ?us x = Some k" for x
  proof -
    have "yval_at ?us x \<noteq> YNull" using that by (auto simp: email_of_def split: option.splits)
    then have "yget ?us x \<noteq> None" by (auto simp: yval_at_def split: option.splits)
    then show ?thesis by (simp add: yget_dom [simplified])
  qed
  from mem [OF assms(3)] mem [OF assms(4)] obtain i j where ij: "i < length ?ns" "?ns ! i = n" "j < length ?ns" "?ns ! j = m"
    by (metis in_set_conv_nth)
  with nm have "i \<noteq> j" by auto
  then show False
    using distinct_map_filter [OF dist, of i j k k] distinct_map_filter [OF dist, of j i k k] ij assms(3,4)
    by (cases "i < j") auto
qed

text \<open>
  C24: in a store that validates, two scopes never list the same network, in whatever spelling.
\<close>

theorem valid_store_one_scope_per_network:
  assumes "validate_store U b (YMap d) = []"
    and "(s, YMap sc) \<in> set (section_of d ''scopes'')" "yval_at sc ''prefixes'' = YList l" "YStr c \<in> set l"
    and "(s', YMap sc') \<in> set (section_of d ''scopes'')" "yval_at sc' ''prefixes'' = YList l'" "YStr c' \<in> set l'"
    and "parse_net (py_strip c) = Some n" "parse_net (py_strip c') = Some n"
  shows "s = s'"
proof -
  have canon: "canonical_cidr (YStr x) = Some (net_string n)" if "parse_net (py_strip x) = Some n" for x
    using that net_string_nonempty [OF parse_net_wf [OF that]] by (simp add: canonical_cidr_def canonical_def)
  have mem: "(net_string n, t) \<in> set (stored_prefixes (section_of d ''scopes''))"
    if "(t, YMap e) \<in> set (section_of d ''scopes'')" "yval_at e ''prefixes'' = YList k" "YStr x \<in> set k"
      "parse_net (py_strip x) = Some n" for t e k x
  proof -
    have "net_string n \<in> set (List.map_filter canonical_cidr k)"
      using that(3) canon [OF that(4)] by (force simp: map_filter_def)
    with that(1,2) show ?thesis by (force simp: stored_prefixes_def)
  qed
  from assms(1) have "check_prefixes [] (stored_prefixes (section_of d ''scopes'')) = []"
    unfolding validate_parts by blast
  then obtain own where own: "\<forall>p \<in> set (stored_prefixes (section_of d ''scopes'')). map_of own (fst p) = Some (snd p)"
    using check_prefixes_owner by blast
  have "map_of own (net_string n) = Some s" "map_of own (net_string n) = Some s'"
    using own mem [OF assms(2,3,4,8)] mem [OF assms(5,6,7,9)] by fastforce+
  then show ?thesis by simp
qed

section \<open>References, built-in groups and the accounting sink\<close>

lemma check_user_refs_Nil:
  assumes "check_user_refs groups scopes (n, YMap u) = []"
  shows "n \<notin> set reserved_users"
    "yval_at u ''group'' = YStr g \<Longrightarrow> g \<noteq> [] \<Longrightarrow> yhas groups g"
    "YStr s \<in> set (scope_list u) \<Longrightarrow> s \<noteq> [] \<Longrightarrow> yhas scopes s"
    "n \<in> set sink_users \<longleftrightarrow> yval_at u ''accounting_sink'' = YBool True"
    "n \<in> set sink_users \<Longrightarrow> yval_at u ''hash'' = YNull \<and> yval_at u ''disabled'' = YBool True"
proof -
  from assms have c: "n \<notin> set reserved_users"
    "yval_at u ''group'' = YStr g \<Longrightarrow> g \<noteq> [] \<Longrightarrow> yhas groups g" for g
    by (auto simp: check_user_refs_def split: if_splits)
  show "n \<notin> set reserved_users" "yval_at u ''group'' = YStr g \<Longrightarrow> g \<noteq> [] \<Longrightarrow> yhas groups g"
    by (fact c)+
  from assms have "\<forall>x \<in> set (scope_list u). scope_refs scopes n x = []"
    by (auto simp: check_user_refs_def)
  then show "YStr s \<in> set (scope_list u) \<Longrightarrow> s \<noteq> [] \<Longrightarrow> yhas scopes s"
    by (fastforce simp: scope_refs_def split: if_splits)
  from assms have s: "n \<in> set sink_users \<longrightarrow> yval_at u ''accounting_sink'' = YBool True" "check_sink n u = []"
    by (auto simp: check_user_refs_def split: if_splits)
  then show "n \<in> set sink_users \<longleftrightarrow> yval_at u ''accounting_sink'' = YBool True"
    "n \<in> set sink_users \<Longrightarrow> yval_at u ''hash'' = YNull \<and> yval_at u ''disabled'' = YBool True"
    by (auto simp: check_sink_def split: if_splits)
qed

text \<open>
  C23: in a store that validates every user's group and scopes exist, the three built-in groups are
  there and marked, no other group is marked, the service user is not a user, and the accounting
  sink - and only it - carries the flag, has no hash and is disabled.
\<close>

theorem valid_store_references:
  assumes "validate_store U b (YMap d) = []"
  shows "refs_ok d \<and>
    (\<forall>g \<in> set builtin_groups. \<exists>e. yget (section_of d ''groups'') (fst g) = Some (YMap e) \<and> yval_at e ''builtin'' = YBool True) \<and>
    (\<forall>n e. yget (section_of d ''groups'') n = Some (YMap e) \<and> yval_at e ''builtin'' = YBool True \<longrightarrow> is_builtin_group n) \<and>
    (\<forall>n u. yget (section_of d ''users'') n = Some (YMap u) \<longrightarrow> n \<notin> set reserved_users \<and>
       (n \<in> set sink_users \<longleftrightarrow> yval_at u ''accounting_sink'' = YBool True) \<and>
       (n \<in> set sink_users \<longrightarrow> yval_at u ''hash'' = YNull \<and> yval_at u ''disabled'' = YBool True))"
proof -
  let ?gs = "section_of d ''groups''"
  have user: "check_user_refs ?gs (section_of d ''scopes'') (n, YMap u) = []"
    if "yget (section_of d ''users'') n = Some (YMap u)" for n u
    using assms yget_in_set [OF that] unfolding validate_parts by blast
  have "refs_ok d"
    unfolding refs_ok_def using user check_user_refs_Nil(2,3) by blast
  moreover have "\<exists>e. yget ?gs (fst g) = Some (YMap e) \<and> yval_at e ''builtin'' = YBool True"
    if "g \<in> set builtin_groups" for g
  proof -
    have "check_builtin ?gs g = []" using assms that unfolding validate_parts by blast
    then show ?thesis by (auto simp: check_builtin_def yval_at_map split: option.splits if_splits)
  qed
  moreover have "is_builtin_group n"
    if "yget ?gs n = Some (YMap e)" "yval_at e ''builtin'' = YBool True" for n e
  proof -
    have "check_builtin_flag (n, YMap e) = []" using assms yget_in_set [OF that(1)] unfolding validate_parts by blast
    with that(2) show ?thesis by (auto simp: check_builtin_flag_def split: if_splits)
  qed
  ultimately show ?thesis using user check_user_refs_Nil(1,4,5) by blast
qed

text \<open>
  The store \<open>Empty\<close> creates validates, strictly and with the legacy names allowed.
\<close>

theorem empty_store_validates: "validate_store U b (YMap empty_store) = []"
  by code_simp

theorem valid_store_references_witness: "refs_ok empty_store"
  using valid_store_references [OF empty_store_validates [of plain_unicode False]] by blast

text \<open>A store with two users and two scopes, for the witnesses.\<close>

definition sample_store :: doc where
  "sample_store =
     ymake [(''version'', YInt 1),
            (''groups'', YMap (ymake (map builtin_entry builtin_groups))),
            (''users'', YMap [(''ann'', YMap [(''group'', YStr ''operator''), (''scopes'', YList [YStr ''lab'']), (''hash'', YNull),
                (''disabled'', YBool True), (''email'', YStr ''Ann@example.net'')])]),
            (''scopes'', YMap [(''lab'', YMap [(''prefixes'', YList [YStr ''10.0.0.0/8'']), (''secret'', YStr ''k'')])]),
            (''filters'', YMap [(''allow'', YList []), (''deny'', YList [])])]"

lemma sample_store_valid: "validate_store plain_unicode False (YMap sample_store) = []"
  by code_simp

lemma sample_store_wf: "wf_doc sample_store"
proof -
  have sec: "section_of sample_store n =
      (if n = ''groups'' then ymake (map builtin_entry builtin_groups)
       else if n = ''users'' then [(''ann'', YMap [(''group'', YStr ''operator''), (''scopes'', YList [YStr ''lab'']), (''hash'', YNull),
                (''disabled'', YBool True), (''email'', YStr ''Ann@example.net'')])]
       else if n = ''scopes'' then [(''lab'', YMap [(''prefixes'', YList [YStr ''10.0.0.0/8'']), (''secret'', YStr ''k'')])]
       else if n = ''filters'' then [(''allow'', YList []), (''deny'', YList [])] else [])" for n
    by (simp add: section_of_def sample_store_def ymake_def yval_at_def yget_Cons)
  have "wf_section (ymake (map builtin_entry builtin_groups))"
    using wf_doc_section [OF wf_doc_empty, of "''groups''"] by (simp add: section_of_def empty_store_def ymake_def yval_at_def yget_Cons)
  moreover have "wf_ymap sample_store" by (simp add: sample_store_def)
  ultimately show ?thesis
    by (auto simp: wf_doc_def sec wf_ymap_def ykeys_def wf_entry_def intro!: wf_sectionI)
qed

theorem valid_store_emails_unique_witness:
  "email_of plain_unicode (section_of sample_store ''users'') ''ann'' = Some ''ann@example.net'' \<and> ''ann'' = ''ann''"
proof -
  have e: "email_of plain_unicode (section_of sample_store ''users'') ''ann'' = Some ''ann@example.net''" by code_simp
  with valid_store_emails_unique [OF sample_store_valid sample_store_wf e e] show ?thesis by simp
qed

theorem valid_store_one_scope_per_network_witness:
  "parse_net (py_strip ''10.0.0.0/8'') \<noteq> None \<and> (\<exists>s. s = ''lab'' \<and> (s, YMap [(''prefixes'', YList [YStr ''10.0.0.0/8'']), (''secret'', YStr ''k'')])
     \<in> set (section_of sample_store ''scopes''))"
proof -
  let ?n = "\<lparr>n_v6 = False, n_ip = mk128 0 0x0A000000, n_plen = 8, n_scope = []\<rparr>"
  let ?sc = "[(''prefixes'', YList [YStr ''10.0.0.0/8'']), (''secret'', YStr ''k'')]"
  have m: "(''lab'', YMap ?sc) \<in> set (section_of sample_store ''scopes'')"
    by (simp add: section_of_def sample_store_def ymake_def yval_at_def yget_Cons)
  have l: "yval_at ?sc ''prefixes'' = YList [YStr ''10.0.0.0/8'']" by (simp add: yval_at_def yget_Cons)
  have p: "parse_net (py_strip ''10.0.0.0/8'') = Some ?n" by code_simp
  have "''lab'' = ''lab''" by (rule valid_store_one_scope_per_network [OF sample_store_valid m l _ m l _ p p]) simp_all
  with m p show ?thesis by auto
qed

section \<open>Dates\<close>

lemma dec_val_zeros: "dec_val (replicate k (CHR ''0'') @ s) = dec_val s"
  by (induction k) (simp_all add: dec_val_def digit_val_def)

lemma pad_zero_number:
  assumes "n < 10 ^ w" "0 < w"
  shows "length (pad_zero w (itoa n)) = w" "list_all is_digit (pad_zero w (itoa n))" "dec_val (pad_zero w (itoa n)) = n"
proof -
  have "length (itoa n) \<le> w" using assms by (rule length_itoa_le)
  then show "length (pad_zero w (itoa n)) = w" by (simp add: pad_zero_def)
  show "list_all is_digit (pad_zero w (itoa n))" by (auto simp: pad_zero_def list_all_iff is_digit_def dest: itoa_digits)
  show "dec_val (pad_zero w (itoa n)) = n" by (simp add: pad_zero_def dec_val_zeros dec_val_itoa)
qed

lemma date_string_parts:
  assumes "length y = 4" "length m = 2" "length d = 2"
  shows "take 4 (y @ ''-'' @ m @ ''-'' @ d) = y" "take 2 (drop 5 (y @ ''-'' @ m @ ''-'' @ d)) = m"
    "drop 8 (y @ ''-'' @ m @ ''-'' @ d) = d" "(y @ ''-'' @ m @ ''-'' @ d) ! 4 = CHR ''-''"
    "(y @ ''-'' @ m @ ''-'' @ d) ! 7 = CHR ''-''" "length (y @ ''-'' @ m @ ''-'' @ d) = 10"
  using assms by (simp_all add: nth_append)

text \<open>
  A calendar date of the years 1 to 9999 that YAML read natively is normalised to a string that
  the validator accepts and that reads back as the same year, month and day.
\<close>

theorem normalized_date_is_valid:
  assumes "1 \<le> y" "y \<le> 9999" "calendar_day y m d"
  shows "check_field U (spec ''password_changed'' TDate) (YStr (date_string y m d)) = None \<and>
    int (dec_val (take 4 (date_string y m d))) = y \<and> int (dec_val (take 2 (drop 5 (date_string y m d)))) = m \<and>
    int (dec_val (drop 8 (date_string y m d))) = d"
proof -
  have r: "0 \<le> y" "0 \<le> m" "0 \<le> d" "nat y < 10 ^ 4" "nat m < 10 ^ 2" "nat d < 10 ^ 2"
    using assms by (auto simp: calendar_day_def days_in_month_def split: if_splits)
  note p = pad_zero_number [OF r(4)] pad_zero_number [OF r(5)] pad_zero_number [OF r(6)]
  have l: "length (pad_zero 4 (itoa (nat y))) = 4" "length (pad_zero 2 (itoa (nat m))) = 2" "length (pad_zero 2 (itoa (nat d))) = 2"
    using p by simp_all
  note s = date_string_parts [OF l]
  have v: "int (dec_val (take 4 (date_string y m d))) = y" "int (dec_val (take 2 (drop 5 (date_string y m d)))) = m"
    "int (dec_val (drop 8 (date_string y m d))) = d"
    unfolding date_string_def s using p r by simp_all
  have "date_shape (date_string y m d)"
    unfolding date_shape_def date_string_def s using p by simp
  moreover have "real_date (date_string y m d)"
    unfolding real_date_def Let_def v using assms by (auto simp: calendar_day_def)
  ultimately show ?thesis using v by (simp add: check_field_def spec_def)
qed

theorem normalized_date_is_valid_witness:
  "check_field plain_unicode (spec ''password_changed'' TDate) (YStr (date_string 2024 2 29)) = None"
proof -
  have "calendar_day 2024 2 29" by code_simp
  then show ?thesis using normalized_date_is_valid [of 2024 2 29] by simp
qed

end
