(* ===== verification/StoreDisk.thy ===== *)
theory StoreDisk
  imports StoreValid
begin

text \<open>
  The form written to disk is stable: a validated, canonical store that is written, read back,
  normalised and canonicalised has the same disk form, so the next write finds nothing to change.
\<close>

section \<open>Entries\<close>

lemma yval_at_set_if [simp]: "yval_at (set_if b k v m) j = (if b \<and> j = k then v else yval_at m j)"
  by (simp add: set_if_def)

lemma yget_set_if [simp]: "yget (set_if b k v m) j = (if b \<and> j = k then Some v else yget m j)"
  by (simp add: set_if_def)

lemma yhas_set_if [simp]: "yhas (set_if b k v m) j \<longleftrightarrow> b \<and> j = k \<or> yhas m j"
  by (simp add: set_if_def)

lemma wf_set_if [simp]: "wf_ymap m \<Longrightarrow> wf_ymap (set_if b k v m)"
  by (simp add: set_if_def)

lemma yget_ymake_Cons: "yget (ymake (ps @ [p])) j = (if j = fst p then Some (snd p) else yget (ymake ps) j)"
  by (simp add: ymake_append)

lemma set_default_at [simp]:
  "yget (set_default e p) j = (if j = fst p \<and> \<not> yhas e (fst p) then Some (snd p) else yget e j)"
  by (auto simp: set_default_def yhas_def)

lemma set_default_val [simp]:
  "yval_at (set_default e p) j = (if j = fst p \<and> \<not> yhas e (fst p) then snd p else yval_at e j)"
  by (simp add: yval_at_def)

lemma set_default_has [simp]: "yhas (set_default e p) j \<longleftrightarrow> j = fst p \<or> yhas e j"
  by (cases "j = fst p") (auto simp: yhas_def)

lemma wf_disk [simp]: "wf_ymap (disk_group g)" "wf_ymap (disk_user u)" "wf_ymap (disk_scope s)"
  by (simp_all add: disk_group_def disk_user_def disk_scope_def Let_def split: option.split bool.split)

lemma clone_wf: "wf_ymap m \<Longrightarrow> clone_map m = m"
  by (simp add: clone_map_def ymake_distinct)

lemma canon_group_at: "yval_at (canon_group n g) j = (if j = ''builtin'' then YBool (is_builtin_group n) else yval_at g j)"
  by (simp add: canon_group_def)

lemma group_again:
  assumes "canon_group n g = g"
  shows "disk_group (canon_group n (normalize_entry ''groups'' (disk_group g))) = disk_group g"
proof -
  have "yval_at g ''builtin'' = YBool (is_builtin_group n)"
    using canon_group_at [of n g "''builtin''"] assms by simp
  then show ?thesis
    by (simp add: disk_group_def [of "canon_group n h" for h] canon_group_at normalize_entry_def field_defaults_def clone_wf)
      (simp add: disk_group_def ymake_def yval_at_def yget_Cons)
qed

lemma ymake_at:
  "yval_at (ymake []) j = YNull"
  "yval_at (ymake [(a, x), (b, y)]) j = (if j = b then y else if j = a then x else YNull)"
  "yval_at (ymake [(a, x), (b, y), (c, z), (d, w)]) j =
     (if j = d then w else if j = c then z else if j = b then y else if j = a then x else YNull)"
  by (simp_all add: ymake_def yval_at_def yget_Cons)

lemma ymake_has:
  "yhas (ymake [(a, x), (b, y)]) j \<longleftrightarrow> j = a \<or> j = b"
  "yhas (ymake [(a, x), (b, y), (c, z), (d, w)]) j \<longleftrightarrow> j = a \<or> j = b \<or> j = c \<or> j = d"
  by (auto simp: ymake_def yhas_def yget_Cons)

lemma list_copy_list [simp]: "list_copy (YList l) = YList l" "list_copy (list_copy v) = list_copy v"
  by (simp_all add: list_copy_def)

text \<open>What is read back of a user entry.\<close>

definition read_user :: "ymap \<Rightarrow> ymap" where
  "read_user u = normalize_entry ''users'' (disk_user u)"

lemma read_user_at:
  "yval_at (read_user u) ''group'' = yval_at u ''group''"
  "yval_at (read_user u) ''scopes'' = list_copy (yval_at u ''scopes'')"
  "yval_at (read_user u) ''hash'' = yval_at u ''hash''"
  "yval_at (read_user u) ''disabled'' = yval_at u ''disabled''"
  "yval_at (read_user u) ''password_changed'' = (if truthy (yval_at u ''password_changed'') then yval_at u ''password_changed'' else YNull)"
  "yval_at (read_user u) ''accounting_sink'' = YBool (truthy (yval_at u ''accounting_sink''))"
  "yval_at (read_user u) ''password_change_required'' = (if truthy (yval_at u ''password_change_required'') then YBool True else YNull)"
  "yval_at (read_user u) ''email'' = (if non_empty_str (yval_at u ''email'') then yval_at u ''email'' else YNull)"
  "yval_at (read_user u) ''reports_max_size'' = (if is_int_val (yval_at u ''reports_max_size'') then yval_at u ''reports_max_size'' else YNull)"
  "yval_at (read_user u) ''reports_max_count'' = (if is_int_val (yval_at u ''reports_max_count'') then yval_at u ''reports_max_count'' else YNull)"
  by (simp_all add: read_user_def normalize_entry_def field_defaults_def clone_wf)
    (simp_all add: disk_user_def ymake_at ymake_has)

lemma disk_user_eqI:
  assumes "yval_at v ''group'' = yval_at u ''group''" "list_copy (yval_at v ''scopes'') = list_copy (yval_at u ''scopes'')"
    "yval_at v ''hash'' = yval_at u ''hash''" "yval_at v ''disabled'' = yval_at u ''disabled''"
    "yval_at v ''password_changed'' = (if truthy (yval_at u ''password_changed'') then yval_at u ''password_changed'' else YNull)"
    "truthy (yval_at v ''accounting_sink'') = truthy (yval_at u ''accounting_sink'')"
    "truthy (yval_at v ''password_change_required'') = truthy (yval_at u ''password_change_required'')"
    "yval_at v ''email'' = (if non_empty_str (yval_at u ''email'') then yval_at u ''email'' else YNull)"
    "yval_at v ''reports_max_size'' = (if is_int_val (yval_at u ''reports_max_size'') then yval_at u ''reports_max_size'' else YNull)"
    "yval_at v ''reports_max_count'' = (if is_int_val (yval_at u ''reports_max_count'') then yval_at u ''reports_max_count'' else YNull)"
  shows "disk_user v = disk_user u"
proof -
  have e: "set_if (is_int_val (yval_at v k)) k (yval_at v k) m = set_if (is_int_val (yval_at u k)) k (yval_at u k) m"
    if "yval_at v k = (if is_int_val (yval_at u k) then yval_at u k else YNull)" for k m
    using that by (simp add: set_if_def is_int_val_def)
  have s: "set_if (non_empty_str (yval_at v k)) k (yval_at v k) m = set_if (non_empty_str (yval_at u k)) k (yval_at u k) m"
    if "yval_at v k = (if non_empty_str (yval_at u k) then yval_at u k else YNull)" for k m
    using that by (simp add: set_if_def non_empty_str_def)
  have t: "set_if (truthy (yval_at v k)) k (yval_at v k) m = set_if (truthy (yval_at u k)) k (yval_at u k) m"
    if "yval_at v k = (if truthy (yval_at u k) then yval_at u k else YNull)" for k m
    using that by (simp add: set_if_def)
  show ?thesis
    unfolding disk_user_def e [OF assms(9)] e [OF assms(10)] s [OF assms(8)] t [OF assms(5)]
    using assms(1-4,6,7) by simp
qed

lemma user_again:
  assumes "canon_user U u = u"
  shows "disk_user (canon_user U (read_user u)) = disk_user u"
proof (rule disk_user_eqI)
  have h: "yval_at u ''hash'' = (case yval_at u ''hash'' of YStr h \<Rightarrow> YStr (to_lower U h) | v \<Rightarrow> v)"
    using canon_user_at [of U u "''hash''"] assms by simp
  have s: "yval_at u ''scopes'' = (case yval_at u ''scopes'' of YList l \<Rightarrow> YList (dedup_equal l) | v \<Rightarrow> v)"
    using canon_user_at [of U u "''scopes''"] assms by simp
  show "yval_at (canon_user U (read_user u)) ''hash'' = yval_at u ''hash''"
    using h by (simp add: canon_user_at read_user_at)
  have "dedup_equal [] = []" by (simp add: dedup_equal_def)
  then show "list_copy (yval_at (canon_user U (read_user u)) ''scopes'') = list_copy (yval_at u ''scopes'')"
    using s by (cases "yval_at u ''scopes''") (simp_all add: canon_user_at read_user_at list_copy_def)
qed (simp_all add: canon_user_at read_user_at)

definition read_scope :: "ymap \<Rightarrow> ymap" where
  "read_scope sc = normalize_entry ''scopes'' (disk_scope sc)"

definition null_or_list :: "yval \<Rightarrow> bool" where
  "null_or_list v \<longleftrightarrow> v = YNull \<or> (\<exists>l. v = YList l)"

lemma null_or_list_truthy: "null_or_list v \<Longrightarrow> truthy v \<Longrightarrow> list_copy v = v"
  by (auto simp: null_or_list_def)

lemma read_scope_get:
  assumes "\<forall>dm. yval_at sc ''devices'' = YMap dm \<longrightarrow> wf_ymap dm"
  shows "yget (read_scope sc) ''prefixes'' = Some (list_copy (yval_at sc ''prefixes''))"
    "yval_at (read_scope sc) ''secret'' = yval_at sc ''secret''"
    "yval_at (read_scope sc) ''protocols'' = (if truthy (yval_at sc ''protocols'') then list_copy (yval_at sc ''protocols'') else YNull)"
    "yget (read_scope sc) ''vendor_attrs'' = (if truthy (yval_at sc ''vendor_attrs'') then Some (list_copy (yval_at sc ''vendor_attrs'')) else None)"
    "yget (read_scope sc) ''devices'' = (case yval_at sc ''devices'' of YMap dm \<Rightarrow> if dm \<noteq> [] then Some (YMap dm) else None | _ \<Rightarrow> None)"
proof -
  have d: "disk_scope sc = set_if (\<exists>dm. yval_at sc ''devices'' = YMap dm \<and> dm \<noteq> []) ''devices'' (yval_at sc ''devices'')
         (set_if (truthy (yval_at sc ''vendor_attrs'')) ''vendor_attrs'' (list_copy (yval_at sc ''vendor_attrs''))
           (set_if (truthy (yval_at sc ''protocols'')) ''protocols'' (list_copy (yval_at sc ''protocols''))
            (ymake [(''prefixes'', list_copy (yval_at sc ''prefixes'')), (''secret'', yval_at sc ''secret'')])))"
    using assms by (cases "yval_at sc ''devices''") (auto simp: disk_scope_def Let_def set_if_def clone_wf split: bool.split)
  have n: "read_scope sc = set_default (disk_scope sc) (''protocols'', YNull)"
    by (simp add: read_scope_def normalize_entry_def field_defaults_def clone_wf)
  have y: "yget (ymake [(a, x), (b, z)]) j = (if j = b then Some z else if j = a then Some x else None)" for a x b z j
    by (simp add: ymake_def yget_Cons)
  show "yget (read_scope sc) ''prefixes'' = Some (list_copy (yval_at sc ''prefixes''))"
    "yval_at (read_scope sc) ''secret'' = yval_at sc ''secret''"
    "yval_at (read_scope sc) ''protocols'' = (if truthy (yval_at sc ''protocols'') then list_copy (yval_at sc ''protocols'') else YNull)"
    "yget (read_scope sc) ''vendor_attrs'' = (if truthy (yval_at sc ''vendor_attrs'') then Some (list_copy (yval_at sc ''vendor_attrs'')) else None)"
    by (simp_all add: n d y ymake_at ymake_has)
  show "yget (read_scope sc) ''devices'' = (case yval_at sc ''devices'' of YMap dm \<Rightarrow> if dm \<noteq> [] then Some (YMap dm) else None | _ \<Rightarrow> None)"
    by (cases "yval_at sc ''devices''") (simp_all add: n d y)
qed

lemma disk_scope_eqI:
  assumes "list_copy (yval_at v ''prefixes'') = list_copy (yval_at u ''prefixes'')" "yval_at v ''secret'' = yval_at u ''secret''"
    "\<And>k. k \<in> {''protocols'', ''vendor_attrs''} \<Longrightarrow> truthy (yval_at v k) = truthy (yval_at u k) \<and> (truthy (yval_at u k) \<longrightarrow> list_copy (yval_at v k) = list_copy (yval_at u k))"
    "(case yval_at v ''devices'' of YMap dm \<Rightarrow> if dm \<noteq> [] then Some dm else None | _ \<Rightarrow> None) =
     (case yval_at u ''devices'' of YMap dm \<Rightarrow> if dm \<noteq> [] then Some dm else None | _ \<Rightarrow> None)"
  shows "disk_scope v = disk_scope u"
proof -
  have dev: "(case (truthy (yval_at x ''devices''), map_of_val (yval_at x ''devices'')) of
      (True, Some dm) \<Rightarrow> set_if True ''devices'' (YMap (clone_map dm)) | _ \<Rightarrow> id) =
      (case (case yval_at x ''devices'' of YMap dm \<Rightarrow> if dm \<noteq> [] then Some dm else None | _ \<Rightarrow> None) of
         Some dm \<Rightarrow> set_if True ''devices'' (YMap (clone_map dm)) | None \<Rightarrow> id)" for x
    by (cases "yval_at x ''devices''") (auto split: bool.split)
  show ?thesis
    unfolding disk_scope_def Let_def dev assms(4)
    using assms(1,2) assms(3) [of "''protocols''"] assms(3) [of "''vendor_attrs''"] by (auto simp: set_if_def)
qed

lemma scope_again:
  assumes "canon_scope sc = sc" "\<forall>dm. yval_at sc ''devices'' = YMap dm \<longrightarrow> wf_ymap dm"
    and "null_or_list (yval_at sc ''protocols'')" "null_or_list (yval_at sc ''vendor_attrs'')"
    and "yval_at sc ''prefixes'' = YList l"
  shows "disk_scope (canon_scope (read_scope sc)) = disk_scope sc"
proof -
  note r = read_scope_get [OF assms(2)]
  have pre: "canonical_cidr_list (YList l) = YList l"
    using canon_scope_prefixes [of sc] assms(1,5) by (simp add: yval_at_def)
  have at: "attrs_ok (yget sc ''vendor_attrs'')" "devices_ok (yget sc ''devices'')"
    using canon_scope_ok [of sc] assms(1) by simp_all
  have va: "attrs_ok (yget (read_scope sc) ''vendor_attrs'')"
    using at(1) assms(4) by (auto simp: r null_or_list_def attrs_ok_def yval_at_def split: option.splits if_splits)
  have dv: "devices_ok (yget (read_scope sc) ''devices'')"
    using at(2) by (auto simp: r devices_ok_def yval_at_def split: option.splits yval.splits)
  have fixp: "canon_scope (read_scope sc) = read_scope sc"
    by (rule canon_scope_fix [OF r(1) _ va dv]) (simp add: assms(5) pre)
  show ?thesis
    unfolding fixp
  proof (rule disk_scope_eqI)
    show "list_copy (yval_at (read_scope sc) ''prefixes'') = list_copy (yval_at sc ''prefixes'')"
      using r(1) by (simp add: yval_at_def [of "read_scope sc"])
    show "(case yval_at (read_scope sc) ''devices'' of YMap dm \<Rightarrow> if dm \<noteq> [] then Some dm else None | _ \<Rightarrow> None) =
        (case yval_at sc ''devices'' of YMap dm \<Rightarrow> if dm \<noteq> [] then Some dm else None | _ \<Rightarrow> None)"
      using r(5) by (cases "yval_at sc ''devices''") (simp_all add: yval_at_def [of "read_scope sc"])
    fix k assume k: "k \<in> {''protocols'', ''vendor_attrs''}"
    have vv: "yval_at (read_scope sc) ''vendor_attrs'' = (if truthy (yval_at sc ''vendor_attrs'') then list_copy (yval_at sc ''vendor_attrs'') else YNull)"
      using r(4) by (simp add: yval_at_def [of "read_scope sc"])
    from k show "truthy (yval_at (read_scope sc) k) = truthy (yval_at sc k) \<and>
        (truthy (yval_at sc k) \<longrightarrow> list_copy (yval_at (read_scope sc) k) = list_copy (yval_at sc k))"
      using r(3) vv null_or_list_truthy [OF assms(3)] null_or_list_truthy [OF assms(4)]
      by (auto split: if_splits)
  qed (simp add: r(2))
qed

section \<open>Sections\<close>

lemma ykeys_disk_section: "wf_ymap m \<Longrightarrow> ykeys (disk_section f m) = sort_strings (ykeys m)"
  and wf_disk_section: "wf_ymap m \<Longrightarrow> wf_ymap (disk_section f m)"
proof -
  assume m: "wf_ymap m"
  let ?l = "map (\<lambda>n. (n, YMap (f (map_or_empty (yval_at m n))))) (sort_strings (ykeys m))"
  have k: "ykeys ?l = sort_strings (ykeys m)" by (simp add: ykeys_def comp_def)
  with m have w: "wf_ymap ?l" by (simp add: wf_ymap_def)
  then have "disk_section f m = ?l" by (simp add: disk_section_def ymake_distinct)
  with k w show "ykeys (disk_section f m) = sort_strings (ykeys m)" "wf_ymap (disk_section f m)" by simp_all
qed

lemma yget_disk_section:
  assumes "wf_ymap m"
  shows "yget (disk_section f m) n = (if yhas m n then Some (YMap (f (map_or_empty (yval_at m n)))) else None)"
proof -
  let ?l = "map (\<lambda>n. (n, YMap (f (map_or_empty (yval_at m n))))) (sort_strings (ykeys m))"
  have "wf_ymap ?l" using assms by (simp add: wf_ymap_def ykeys_def comp_def)
  then have e: "disk_section f m = ?l" by (simp add: disk_section_def ymake_distinct)
  have "map_of (map (\<lambda>n. (n, g n)) xs) n = (if n \<in> set xs then Some (g n) else None)" for g :: "string \<Rightarrow> yval" and xs
    by (induction xs) auto
  then show ?thesis by (simp add: e yget_def yhas_keys)
qed

lemma sort_strings_idem [simp]: "sort_strings (sort_strings xs) = sort_strings xs"
  by (simp add: sort_strings_def bytes_order.idem)

lemma on_map_YMap [simp]: "on_map f (YMap m) = YMap (f m)"
  by (simp add: on_map_def)

lemma disk_section_again:
  assumes "wf_ymap m"
    and "\<forall>n v. yget m n = Some v \<longrightarrow> f (c n (nf (f (map_or_empty v)))) = f (map_or_empty v)"
  shows "disk_section f (ymap_vals (\<lambda>n. on_map (c n)) (ymap_vals (\<lambda>_. on_map nf) (disk_section f m))) = disk_section f m"
    (is "disk_section f ?x = _")
proof (rule ymap_ext)
  have wx: "wf_ymap ?x" using wf_disk_section [OF assms(1)] by simp
  show "wf_ymap (disk_section f ?x)" by (rule wf_disk_section [OF wx])
  have kx: "ykeys ?x = sort_strings (ykeys m)" using ykeys_disk_section [OF assms(1)] by simp
  show "ykeys (disk_section f ?x) = ykeys (disk_section f m)"
    by (simp add: ykeys_disk_section [OF wx] ykeys_disk_section [OF assms(1)] kx del: ykeys_ymap_vals)
  show "yget (disk_section f ?x) n = yget (disk_section f m) n" for n
  proof (cases "yget m n")
    case None
    then have "\<not> yhas m n" by (simp add: yhas_def)
    then show ?thesis
      by (simp add: yget_disk_section [OF wx] yget_disk_section [OF assms(1)] yhas_def)
  next
    case (Some v)
    then have "yhas m n" "yval_at m n = v" by (simp_all add: yhas_def yval_at_def)
    then have m': "yget (disk_section f m) n = Some (YMap (f (map_or_empty v)))"
      by (simp add: yget_disk_section [OF assms(1)])
    then have x: "yget ?x n = Some (YMap (c n (nf (f (map_or_empty v)))))" by simp
    have "yhas ?x n" "yval_at ?x n = YMap (c n (nf (f (map_or_empty v))))"
      unfolding yhas_def yval_at_def x by simp_all
    then have "yget (disk_section f ?x) n = Some (YMap (f (c n (nf (f (map_or_empty v))))))"
      by (simp add: yget_disk_section [OF wx] map_or_empty_def)
    with m' assms(2) Some show ?thesis by simp
  qed
qed

lemma normalize_entries_maps:
  "\<forall>p \<in> set ps. \<exists>m. snd p = YMap m \<Longrightarrow>
     normalize_entries sec label out ps =
       Inr (foldl (\<lambda>m p. yset m (fst p) (snd p)) out (ymap_vals (\<lambda>_. on_map (normalize_entry sec)) ps))"
  by (induction ps arbitrary: out) (auto simp: ymap_vals_def)

lemma normalize_disk_section:
  assumes "wf_ymap m"
  shows "normalize_entries sec label [] (disk_section f m) = Inr (ymap_vals (\<lambda>_. on_map (normalize_entry sec)) (disk_section f m))"
proof -
  have "\<exists>u. v = YMap u" if "(n, v) \<in> set (disk_section f m)" for n v
  proof -
    have "yget (disk_section f m) n = Some v" using that yget_mem [OF wf_disk_section [OF assms]] by blast
    then show ?thesis by (auto simp: yget_disk_section [OF assms] split: if_splits)
  qed
  then have "normalize_entries sec label [] (disk_section f m) = Inr (ymake (ymap_vals (\<lambda>_. on_map (normalize_entry sec)) (disk_section f m)))"
    using normalize_entries_maps [of "disk_section f m"] by (force simp: ymake_def)
  then show ?thesis using wf_disk_section [OF assms] by (simp add: ymake_distinct)
qed

section \<open>Documents\<close>

definition disk_filters :: "doc \<Rightarrow> ymap" where
  "disk_filters d =
     [(''allow'', list_copy (yval_at (section_of d ''filters'') ''allow'')),
      (''deny'', list_copy (yval_at (section_of d ''filters'') ''deny''))]"

lemma disk_form_list:
  "disk_form d =
     [(''version'', YInt store_version),
      (''groups'', YMap (disk_section disk_group (section_of d ''groups''))),
      (''users'', YMap (disk_section disk_user (section_of d ''users''))),
      (''scopes'', YMap (disk_section disk_scope (section_of d ''scopes''))),
      (''filters'', YMap (disk_filters d))]"
  by (simp add: disk_form_def Let_def ymake_def disk_filters_def)

lemma base_doc_disk:
  "base_doc (disk_form d) =
     [(''version'', YInt store_version), (''groups'', YMap []), (''users'', YMap []), (''scopes'', YMap []),
      (''filters'', YMap [(''allow'', YList []), (''deny'', YList [])])]"
  by (simp add: base_doc_def disk_form_list top_keys_def ymake_def yget_Cons)

lemma yval_at_put: "yval_at (put_section d n m) k = (if k = n then YMap m else yval_at d k)"
  by (simp add: put_section_def)

lemma normalize_disk_form:
  assumes "wf_doc d"
  shows "\<exists>d2. normalize (YMap (disk_form d)) = Inr d2 \<and> yval_at d2 ''version'' = YInt store_version \<and>
    section_of d2 ''groups'' = ymap_vals (\<lambda>_. on_map (normalize_entry ''groups'')) (disk_section disk_group (section_of d ''groups'')) \<and>
    section_of d2 ''users'' = ymap_vals (\<lambda>_. date_to_string)
       (ymap_vals (\<lambda>_. on_map (normalize_entry ''users'')) (disk_section disk_user (section_of d ''users''))) \<and>
    section_of d2 ''scopes'' = ymap_vals (\<lambda>_. on_map (normalize_entry ''scopes'')) (disk_section disk_scope (section_of d ''scopes'')) \<and>
    section_of d2 ''filters'' = disk_filters d"
proof -
  have w: "wf_ymap (section_of d n)" for n using wf_doc_section [OF assms] by (simp add: wf_section_def)
  let ?g = "ymap_vals (\<lambda>_. on_map (normalize_entry ''groups'')) (disk_section disk_group (section_of d ''groups''))"
  let ?u = "ymap_vals (\<lambda>_. on_map (normalize_entry ''users'')) (disk_section disk_user (section_of d ''users''))"
  let ?s = "ymap_vals (\<lambda>_. on_map (normalize_entry ''scopes'')) (disk_section disk_scope (section_of d ''scopes''))"
  let ?d3 = "put_section (put_section (put_section (base_doc (disk_form d)) ''groups'' ?g) ''users'' ?u) ''scopes'' ?s"
  have at: "yval_at (disk_form d) ''groups'' = YMap (disk_section disk_group (section_of d ''groups''))"
    "yval_at (disk_form d) ''users'' = YMap (disk_section disk_user (section_of d ''users''))"
    "yval_at (disk_form d) ''scopes'' = YMap (disk_section disk_scope (section_of d ''scopes''))"
    "yval_at (disk_form d) ''filters'' = YMap (disk_filters d)"
    by (simp_all add: disk_form_list yval_at_def yget_Cons)
  have base: "section_of (base_doc (disk_form d)) ''groups'' = []" "section_of (base_doc (disk_form d)) ''users'' = []"
    "section_of (base_doc (disk_form d)) ''scopes'' = []"
    "section_of (base_doc (disk_form d)) ''filters'' = [(''allow'', YList []), (''deny'', YList [])]"
    "yval_at (base_doc (disk_form d)) ''version'' = YInt store_version"
    by (simp_all add: base_doc_disk section_of_def yval_at_def yget_Cons)
  have sec: "normalize_sections (disk_form d) (base_doc (disk_form d)) schema_sections = Inr ?d3"
    by (simp add: schema_sections_def at base normalize_disk_section w)
  have fil: "foldl (\<lambda>f p. yset f (fst p) (null_to_list (snd p))) [(''allow'', YList []), (''deny'', YList [])] (disk_filters d) = disk_filters d"
    by (simp add: disk_filters_def list_copy_def null_to_list_def)
  let ?d4 = "put_section ?d3 ''users'' (ymap_vals (\<lambda>_. date_to_string) (section_of ?d3 ''users''))"
  have "normalize (YMap (disk_form d)) = Inr (put_section ?d4 ''filters'' (disk_filters d))"
    by (simp add: normalize_def normalize_map_def sec at Let_def base fil del: ymap_vals_def)
  then show ?thesis using base(5) by (simp add: yval_at_put)
qed

text \<open>What canonical and valid entries give.\<close>

lemma canonical_entries:
  assumes "canonicalize U d = d" "yget (section_of d sec) n = Some v"
  shows "sec = ''groups'' \<Longrightarrow> on_map (canon_group n) v = v" "sec = ''users'' \<Longrightarrow> on_map (canon_user U) v = v"
    "sec = ''scopes'' \<Longrightarrow> on_map canon_scope v = v" "sec = ''filters'' \<Longrightarrow> canonical_cidr_list v = v"
proof -
  have e: "yget (section_of (canonicalize U d) sec) n = Some v" using assms by simp
  show "sec = ''groups'' \<Longrightarrow> on_map (canon_group n) v = v" "sec = ''users'' \<Longrightarrow> on_map (canon_user U) v = v"
    "sec = ''scopes'' \<Longrightarrow> on_map canon_scope v = v" "sec = ''filters'' \<Longrightarrow> canonical_cidr_list v = v"
    using e assms(2) unfolding section_canonicalize by simp_all
qed

lemma canonical_filter_at: "canonicalize U d = d \<Longrightarrow> canonical_cidr_list (yval_at (section_of d ''filters'') k) = yval_at (section_of d ''filters'') k"
  using canonical_entries(4) [of U d "''filters''" k] by (auto simp: yval_at_def canonical_cidr_list_def split: option.split)

lemma canonical_nil: "canonical_cidr_list (YList []) = YList []"
  by code_simp

lemma canonical_list_copy: "canonical_cidr_list v = v \<Longrightarrow> canonical_cidr_list (list_copy v) = list_copy v"
  by (cases v) (simp_all add: list_copy_def canonical_nil)

lemma valid_entry:
  assumes "validate_store U b (YMap d) = []" "s \<in> set (schema U)" "yget (section_of d (sec_key s)) n = Some v"
  shows "\<exists>e. v = YMap e \<and> (\<forall>f \<in> set (sec_fields s). case yget e (fs_name f) of
      None \<Rightarrow> \<not> fs_required f | Some x \<Rightarrow> check_field U f x = None)"
proof -
  have c: "check_section U b d s = []" using assms(1,2) unfolding validate_parts by blast
  have "section_of d (sec_key s) \<noteq> []" using assms(3) by auto
  then obtain m where m: "yval_at d (sec_key s) = YMap m" "section_of d (sec_key s) = m"
    by (auto simp: section_of_def split: option.splits)
  with c have "concat (map (check_entry U b s) m) = []" by (simp add: check_section_def)
  moreover have "(n, v) \<in> set m" using yget_in_set [OF assms(3)] m by simp
  ultimately have e: "check_entry U b s (n, v) = []" by auto
  then obtain e where v: "v = YMap e" by (auto simp: check_entry_def Let_def split: if_splits option.splits)
  with e have "concat (map (check_entry_field U s n e) (sec_fields s)) = []"
    by (auto simp: check_entry_def Let_def split: if_splits)
  then have "\<forall>f \<in> set (sec_fields s). check_entry_field U s n e f = []" by auto
  then show ?thesis using v
    by (fastforce simp: check_entry_field_def split: option.splits if_splits)
qed

lemma valid_user_date:
  assumes "validate_store U b (YMap d) = []" "yget (section_of d ''users'') n = Some v"
  shows "\<exists>u. v = YMap u \<and> (\<forall>y m day. yval_at u ''password_changed'' \<noteq> YDate y m day)"
proof -
  let ?s = "\<lparr>sec_key = ''users'', sec_label = ''user'', sec_name = match_user, sec_fields = user_fields U\<rparr>"
  let ?f = "(spec ''password_changed'' TDate)\<lparr>fs_nullable := True\<rparr>"
  have "?s \<in> set (schema U)" by (simp add: schema_def)
  from valid_entry [OF assms(1) this] assms(2) obtain u where u: "v = YMap u"
    "\<forall>f \<in> set (user_fields U). case yget u (fs_name f) of None \<Rightarrow> \<not> fs_required f | Some x \<Rightarrow> check_field U f x = None" by auto
  have "?f \<in> set (user_fields U)" by (simp add: user_fields_def)
  with u(2) have "case yget u ''password_changed'' of None \<Rightarrow> True | Some x \<Rightarrow> check_field U ?f x = None"
    by (fastforce simp: spec_def split: option.splits)
  then have "yval_at u ''password_changed'' \<noteq> YDate y m day" for y m day
    by (auto simp: yval_at_def check_field_def spec_def split: option.splits)
  with u(1) show ?thesis by blast
qed

lemma valid_scope_types:
  assumes "validate_store U b (YMap d) = []" "yget (section_of d ''scopes'') n = Some v"
  shows "\<exists>sc l. v = YMap sc \<and> yval_at sc ''prefixes'' = YList l \<and> null_or_list (yval_at sc ''protocols'') \<and>
    null_or_list (yval_at sc ''vendor_attrs'') \<and> (\<forall>dm. yval_at sc ''devices'' = YMap dm \<longrightarrow> cidr_keys dm)"
proof -
  let ?s = "\<lparr>sec_key = ''scopes'', sec_label = ''scope'', sec_name = match_scope, sec_fields = scope_fields\<rparr>"
  have "?s \<in> set (schema U)" by (simp add: schema_def)
  from valid_entry [OF assms(1) this] assms(2) obtain sc where v: "v = YMap sc"
    and f: "\<forall>f \<in> set scope_fields. case yget sc (fs_name f) of None \<Rightarrow> \<not> fs_required f | Some x \<Rightarrow> check_field U f x = None" by auto
  have g: "case yget sc (fs_name x) of None \<Rightarrow> \<not> fs_required x | Some y \<Rightarrow> check_field U x y = None" if "x \<in> set scope_fields" for x
    using f that by blast
  have pre: "case yget sc ''prefixes'' of None \<Rightarrow> False | Some x \<Rightarrow> check_field U ((spec ''prefixes'' TCidrList)\<lparr>fs_min_items := 1, fs_required := True\<rparr>) x = None"
    using g [of "(spec ''prefixes'' TCidrList)\<lparr>fs_min_items := 1, fs_required := True\<rparr>"]
    by (auto simp: scope_fields_def spec_def split: option.splits)
  have pro: "case yget sc ''protocols'' of None \<Rightarrow> True | Some x \<Rightarrow> check_field U ((spec ''protocols'' TEnumList)\<lparr>fs_values := known_protocols, fs_min_items := 1, fs_nullable := True\<rparr>) x = None"
    using g [of "(spec ''protocols'' TEnumList)\<lparr>fs_values := known_protocols, fs_min_items := 1, fs_nullable := True\<rparr>"]
    by (auto simp: scope_fields_def spec_def split: option.splits)
  have ven: "case yget sc ''vendor_attrs'' of None \<Rightarrow> True | Some x \<Rightarrow> check_field U ((spec ''vendor_attrs'' TEnumList)\<lparr>fs_values := known_vendors\<rparr>) x = None"
    using g [of "(spec ''vendor_attrs'' TEnumList)\<lparr>fs_values := known_vendors\<rparr>"]
    by (auto simp: scope_fields_def spec_def split: option.splits)
  have dev: "case yget sc ''devices'' of None \<Rightarrow> True | Some x \<Rightarrow> check_field U (spec ''devices'' TVendorMap) x = None"
    using g [of "spec ''devices'' TVendorMap"] by (auto simp: scope_fields_def spec_def split: option.splits)
  have "\<exists>l. yval_at sc ''prefixes'' = YList l"
    using pre by (auto simp: yval_at_def check_field_def spec_def check_cidr_list_def split: option.splits if_splits)
  moreover have "null_or_list (yval_at sc ''protocols'')"
    using pro by (auto simp: yval_at_def check_field_def spec_def check_enum_list_def null_or_list_def split: option.splits if_splits)
  moreover have "null_or_list (yval_at sc ''vendor_attrs'')"
    using ven by (auto simp: yval_at_def check_field_def spec_def check_enum_list_def null_or_list_def split: option.splits if_splits)
  moreover have "cidr_keys dm" if "yval_at sc ''devices'' = YMap dm" for dm
  proof -
    have "first_problem check_vendor_pair dm = None"
      using dev that by (auto simp: yval_at_def check_field_def spec_def split: option.splits)
    then have "\<forall>p \<in> set dm. canonical_cidr (YStr (fst p)) \<noteq> None"
      by (auto simp: first_problem_None check_vendor_pair_def split: option.splits)
    then show ?thesis by (auto simp: cidr_keys_def ykeys_def list_all_iff)
  qed
  ultimately show ?thesis using v by blast
qed

lemma date_to_string_id:
  "\<forall>u. v = YMap u \<longrightarrow> (\<forall>y m d. yval_at u ''password_changed'' \<noteq> YDate y m d) \<Longrightarrow> date_to_string v = v"
  by (cases v) (auto simp: date_to_string_def split: yval.splits)

lemma disk_form_again:
  assumes "wf_doc d" "canonicalize U d = d" "validate_store U b (YMap d) = []"
  shows "\<exists>d2. normalize (YMap (disk_form d)) = Inr d2 \<and> disk_form (canonicalize U d2) = disk_form d"
proof -
  have w: "wf_ymap (section_of d n)" for n using wf_doc_section [OF assms(1)] by (simp add: wf_section_def)
  obtain d2 where d2: "normalize (YMap (disk_form d)) = Inr d2"
    and g: "section_of d2 ''groups'' = ymap_vals (\<lambda>_. on_map (normalize_entry ''groups'')) (disk_section disk_group (section_of d ''groups''))"
    and u: "section_of d2 ''users'' = ymap_vals (\<lambda>_. date_to_string)
       (ymap_vals (\<lambda>_. on_map (normalize_entry ''users'')) (disk_section disk_user (section_of d ''users'')))"
    and s: "section_of d2 ''scopes'' = ymap_vals (\<lambda>_. on_map (normalize_entry ''scopes'')) (disk_section disk_scope (section_of d ''scopes''))"
    and f: "section_of d2 ''filters'' = disk_filters d"
    using normalize_disk_form [OF assms(1)] by blast
  have user: "\<exists>e. v = YMap e \<and> canon_user U e = e \<and> (\<forall>y m d. yval_at e ''password_changed'' \<noteq> YDate y m d)"
    if "yget (section_of d ''users'') n = Some v" for n v
    using valid_user_date [OF assms(3) that] canonical_entries(2) [OF assms(2) that] by auto
  have "ymap_vals (\<lambda>_. date_to_string) (ymap_vals (\<lambda>_. on_map (normalize_entry ''users'')) (disk_section disk_user (section_of d ''users'')))
      = ymap_vals (\<lambda>_. on_map (normalize_entry ''users'')) (disk_section disk_user (section_of d ''users''))"
  proof (rule ymap_vals_id, clarify)
    fix n v assume "(n, v) \<in> set (ymap_vals (\<lambda>_. on_map (normalize_entry ''users'')) (disk_section disk_user (section_of d ''users'')))"
    then obtain x where x: "(n, x) \<in> set (disk_section disk_user (section_of d ''users''))" "v = on_map (normalize_entry ''users'') x"
      by (auto simp: ymap_vals_def)
    then have "yget (disk_section disk_user (section_of d ''users'')) n = Some x" using yget_mem [OF wf_disk_section [OF w]] by blast
    then have y: "yhas (section_of d ''users'') n" "x = YMap (disk_user (map_or_empty (yval_at (section_of d ''users'') n)))"
      by (auto simp: yget_disk_section [OF w] split: if_splits)
    then obtain z where z: "yget (section_of d ''users'') n = Some z" by (auto simp: yhas_def)
    from user [OF this] obtain e where "z = YMap e" "\<forall>y m d. yval_at e ''password_changed'' \<noteq> YDate y m d" by blast
    then have "v = YMap (read_user e)" "\<forall>y m d. yval_at (read_user e) ''password_changed'' \<noteq> YDate y m d"
      using x(2) y(2) z by (simp_all add: yval_at_def [of "section_of d ''users''"] map_or_empty_def read_user_def [symmetric] read_user_at)
    then show "date_to_string v = v" by (intro date_to_string_id) simp
  qed
  with u have u: "section_of d2 ''users'' = ymap_vals (\<lambda>_. on_map (normalize_entry ''users'')) (disk_section disk_user (section_of d ''users''))"
    by simp
  have groups: "disk_section disk_group (section_of (canonicalize U d2) ''groups'') = disk_section disk_group (section_of d ''groups'')"
    unfolding section_canonicalize g if_P [OF refl]
  proof (rule disk_section_again [OF w], intro allI impI)
    fix n v assume v: "yget (section_of d ''groups'') n = Some v"
    obtain e where e: "v = YMap e"
      using valid_entry [OF assms(3), of "\<lparr>sec_key = ''groups'', sec_label = ''group'', sec_name = match_group, sec_fields = group_fields\<rparr>" n v] v
      by (auto simp: schema_def)
    with canonical_entries(1) [OF assms(2) v] have "canon_group n e = e" by simp
    with e group_again show "disk_group (canon_group n (normalize_entry ''groups'' (disk_group (map_or_empty v)))) = disk_group (map_or_empty v)"
      by (simp add: map_or_empty_def)
  qed
  have users: "disk_section disk_user (section_of (canonicalize U d2) ''users'') = disk_section disk_user (section_of d ''users'')"
  proof -
    have "section_of (canonicalize U d2) ''users'' = ymap_vals (\<lambda>_. on_map (canon_user U)) (section_of d2 ''users'')"
      by (simp add: section_canonicalize)
    moreover have "disk_section disk_user (ymap_vals (\<lambda>_. on_map (canon_user U)) (section_of d2 ''users'')) = disk_section disk_user (section_of d ''users'')"
      unfolding u
    proof (rule disk_section_again [OF w], intro allI impI)
      fix n v assume "yget (section_of d ''users'') n = Some v"
      from user [OF this] obtain e where "v = YMap e" "canon_user U e = e" by blast
      then show "disk_user (canon_user U (normalize_entry ''users'' (disk_user (map_or_empty v)))) = disk_user (map_or_empty v)"
        using user_again by (simp add: map_or_empty_def read_user_def)
    qed
    ultimately show ?thesis by simp
  qed
  have scopes: "disk_section disk_scope (section_of (canonicalize U d2) ''scopes'') = disk_section disk_scope (section_of d ''scopes'')"
  proof -
    have "section_of (canonicalize U d2) ''scopes'' = ymap_vals (\<lambda>_. on_map canon_scope) (section_of d2 ''scopes'')"
      by (simp add: section_canonicalize)
    moreover have "disk_section disk_scope (ymap_vals (\<lambda>_. on_map canon_scope) (section_of d2 ''scopes'')) = disk_section disk_scope (section_of d ''scopes'')"
      unfolding s
    proof (rule disk_section_again [OF w], intro allI impI)
      fix n v assume v: "yget (section_of d ''scopes'') n = Some v"
      obtain sc l where sc: "v = YMap sc" "yval_at sc ''prefixes'' = YList l" "null_or_list (yval_at sc ''protocols'')"
        "null_or_list (yval_at sc ''vendor_attrs'')" and ck: "\<forall>dm. yval_at sc ''devices'' = YMap dm \<longrightarrow> cidr_keys dm"
        using valid_scope_types [OF assms(3) v] by blast
      have c: "canon_scope sc = sc" using canonical_entries(3) [OF assms(2) v] sc(1) by simp
      have "wf_ymap dm" if "yval_at sc ''devices'' = YMap dm" for dm
      proof -
        have "yget sc ''devices'' = Some (YMap dm)" using that by (auto simp: yval_at_def split: option.splits)
        then have "canonical_devices dm = dm" using canon_scope_ok(2) [of sc] c ck that by (simp add: devices_ok_def)
        with canonical_devices_keys(1) [of dm] ck that show ?thesis by simp
      qed
      from scope_again [OF c _ sc(3,4,2)] this sc(1)
      show "disk_scope (canon_scope (normalize_entry ''scopes'' (disk_scope (map_or_empty v)))) = disk_scope (map_or_empty v)"
        by (simp add: map_or_empty_def read_scope_def)
    qed
    ultimately show ?thesis by simp
  qed
  have filters: "disk_filters (canonicalize U d2) = disk_filters d"
  proof -
    have "section_of (canonicalize U d2) ''filters'' = ymap_vals (\<lambda>_. canonical_cidr_list) (disk_filters d)"
      by (simp add: section_canonicalize f)
    moreover have "canonical_cidr_list (list_copy (yval_at (section_of d ''filters'') k)) = list_copy (yval_at (section_of d ''filters'') k)" for k
      by (rule canonical_list_copy [OF canonical_filter_at [OF assms(2)]])
    ultimately show ?thesis
      by (simp add: disk_filters_def [of "canonicalize U d2"] disk_filters_def [of d] ymap_vals_def yval_at_def yget_Cons)
  qed
  have "disk_form (canonicalize U d2) = disk_form d"
    unfolding disk_form_list groups users scopes filters ..
  with d2 show ?thesis by blast
qed

text \<open>
  Reading back what was written for a valid, canonical store and canonicalising it gives the same
  disk form: a mutation that changes nothing writes nothing.
\<close>

theorem disk_form_stable:
  assumes "wf_doc d" "canonicalize U d = d" "validate_store U b (YMap d) = []"
  shows "\<exists>d2. normalize (YMap (disk_form d)) = Inr d2 \<and> disk_form (canonicalize U d2) = disk_form d"
  by (rule disk_form_again [OF assms])

lemma canonical_sample: "canonicalize plain_unicode sample_store = sample_store"
  by code_simp

theorem disk_form_stable_witness:
  "\<exists>d2. normalize (YMap (disk_form sample_store)) = Inr d2 \<and> disk_form (canonicalize plain_unicode d2) = disk_form sample_store"
  by (rule disk_form_stable [OF sample_store_wf canonical_sample sample_store_valid])

end
