(* ===== verification/StoreFile.thy ===== *)
theory StoreFile
  imports StoreDisk
begin

text \<open>
  \<open>internal/store/file.go\<close> and \<open>yamlpy.EmitChecked\<close>: the store file, its validated writes and its
  mutations. The YAML emitter and reader (\<open>yamlpy.Emit\<close>, \<open>pyyaml.LoadBytes\<close>) are parameters of which
  nothing is assumed; what the operating system does is a record of outcomes. The lock is one of these
  outcomes: a transition here is what one process does while it holds it.
\<close>

section \<open>The directory and what may fail in it\<close>

datatype node = Regular string | OtherNode

record directory =
  d_store :: "node option"
  d_temp :: "string option"

datatype write_step = CreateTemp | ChmodTemp | WriteTemp | SyncTemp | CloseTemp | RenameTemp

record io =
  io_lock :: bool
  io_load :: bool
  io_compare :: bool
  io_fail :: "write_step option"
  io_partial :: nat
  io_remove :: bool

record yaml_lib =
  y_emit :: "yval \<Rightarrow> string + string"
  y_read :: "string \<Rightarrow> string + yval"

datatype store_error =
    LockFailed
  | ReadFailed
  | LoadRefused string
  | NotNormal normalize_error
  | NotFound
  | NotInitialised
  | StoreExists
  | SeedUsage
  | SnapshotFailed string
  | OpRefused op_error
  | Invalid "problem list"
  | EmitRefused string
  | SelfCheckRead string
  | SelfCheckDiffers
  | WriteFailed write_step

definition store_header :: string where
  "store_header =
     ''# tacctl canonical store: users, groups, scopes, prefix filters.'' @ [CHR 0x0A] @
     ''# Managed by tacctl -- change it with tacctl commands. Contains shared'' @ [CHR 0x0A] @
     ''# secrets and password hashes; keep it 0600.'' @ [CHR 0x0A, CHR 0x0A]"

section \<open>Checked output\<close>

definition emit_checked :: "yaml_lib \<Rightarrow> yval \<Rightarrow> string \<Rightarrow> store_error + string" where
  "emit_checked Y v header =
     (case y_emit Y v of
        Inl e \<Rightarrow> Inl (EmitRefused e)
      | Inr body \<Rightarrow>
          (let out = header @ body
           in case y_read Y out of
                Inl why \<Rightarrow> Inl (SelfCheckRead why)
              | Inr back \<Rightarrow> if \<not> yequal v back then Inl SelfCheckDiffers else Inr out))"

definition store_text :: "yaml_lib \<Rightarrow> doc \<Rightarrow> store_error + string" where
  "store_text Y d = emit_checked Y (YMap (disk_form d)) store_header"

section \<open>Reading\<close>

definition store_exists :: "directory \<Rightarrow> bool" where
  "store_exists D \<longleftrightarrow> d_store D \<noteq> None"

definition store_regular :: "directory \<Rightarrow> bool" where
  "store_regular D \<longleftrightarrow> (case d_store D of Some (Regular _) \<Rightarrow> True | _ \<Rightarrow> False)"

definition read_file :: "bool \<Rightarrow> directory \<Rightarrow> string option" where
  "read_file ok D = (if ok then (case d_store D of Some (Regular b) \<Rightarrow> Some b | _ \<Rightarrow> None) else None)"

definition load_raw :: "yaml_lib \<Rightarrow> io \<Rightarrow> directory \<Rightarrow> store_error + yval" where
  "load_raw Y io D =
     (case read_file (io_load io) D of
        None \<Rightarrow> Inl ReadFailed
      | Some data \<Rightarrow> (case y_read Y data of Inl e \<Rightarrow> Inl (LoadRefused e) | Inr v \<Rightarrow> Inr v))"

definition load_store :: "yaml_lib \<Rightarrow> io \<Rightarrow> directory \<Rightarrow> store_error + doc" where
  "load_store Y io D =
     (case load_raw Y io D of
        Inl e \<Rightarrow> Inl e
      | Inr raw \<Rightarrow> (case normalize raw of Inl e \<Rightarrow> Inl (NotNormal e) | Inr d \<Rightarrow> Inr d))"

definition validate_file :: "yaml_lib \<Rightarrow> unicode \<Rightarrow> io \<Rightarrow> bool \<Rightarrow> directory \<Rightarrow> store_error + problem list" where
  "validate_file Y U io legacy_dots D =
     (if \<not> store_regular D then Inl NotFound
      else case load_raw Y io D of
        Inl e \<Rightarrow> Inl e
      | Inr raw \<Rightarrow>
          (case map_of_val raw of
             Some _ \<Rightarrow>
               (case normalize raw of
                  Inl e \<Rightarrow> Inl (NotNormal e)
                | Inr d \<Rightarrow> Inr (validate_store U legacy_dots (YMap d)))
           | None \<Rightarrow> Inr (validate_store U legacy_dots raw)))"

section \<open>Writing\<close>

text \<open>\<open>atomicWrite\<close> as its steps; the best-effort sync of the directory changes nothing modelled here.\<close>

definition write_steps :: "write_step list" where
  "write_steps = [CreateTemp, ChmodTemp, WriteTemp, SyncTemp, CloseTemp, RenameTemp]"

fun do_step :: "string \<Rightarrow> directory \<Rightarrow> write_step \<Rightarrow> directory" where
  "do_step data D CreateTemp = D\<lparr>d_temp := Some []\<rparr>"
| "do_step data D WriteTemp = D\<lparr>d_temp := Some data\<rparr>"
| "do_step data D RenameTemp = D\<lparr>d_store := map_option Regular (d_temp D), d_temp := None\<rparr>"
| "do_step data D _ = D"

text \<open>A step that fails: a failed write may have written a part; the temp file is then removed, if that works.\<close>

definition fail_step :: "io \<Rightarrow> string \<Rightarrow> directory \<Rightarrow> write_step \<Rightarrow> directory" where
  "fail_step io data D s =
     (if s = CreateTemp then D
      else if io_remove io then D\<lparr>d_temp := None\<rparr>
      else if s = WriteTemp then D\<lparr>d_temp := Some (take (io_partial io) data)\<rparr>
      else D)"

fun run_steps :: "io \<Rightarrow> string \<Rightarrow> write_step list \<Rightarrow> directory \<Rightarrow> store_error option \<times> directory" where
  "run_steps io data [] D = (None, D)"
| "run_steps io data (s # ss) D =
     (if io_fail io = Some s then (Some (WriteFailed s), fail_step io data D s)
      else run_steps io data ss (do_step data D s))"

definition atomic_write :: "io \<Rightarrow> string \<Rightarrow> directory \<Rightarrow> store_error option \<times> directory" where
  "atomic_write io data D = run_steps io data write_steps D"

definition write_validated :: "yaml_lib \<Rightarrow> unicode \<Rightarrow> io \<Rightarrow> doc \<Rightarrow> directory \<Rightarrow> (store_error + bool) \<times> directory" where
  "write_validated Y U io s D =
     (let s = canonicalize U s; errs = validate_store U False (YMap s)
      in if errs \<noteq> [] then (Inl (Invalid errs), D)
         else case store_text Y s of
           Inl e \<Rightarrow> (Inl e, D)
         | Inr text \<Rightarrow>
             if read_file (io_compare io) D = Some text then (Inr False, D)
             else case atomic_write io text D of
               (Some e, D') \<Rightarrow> (Inl e, D')
             | (None, D') \<Rightarrow> (Inr True, D'))"

definition write_store :: "yaml_lib \<Rightarrow> unicode \<Rightarrow> io \<Rightarrow> doc \<Rightarrow> directory \<Rightarrow> (store_error + bool) \<times> directory" where
  "write_store Y U io s D = (if \<not> io_lock io then (Inl LockFailed, D) else write_validated Y U io s D)"

section \<open>Mutations\<close>

definition mutate :: "yaml_lib \<Rightarrow> unicode \<Rightarrow> io \<Rightarrow> bool \<Rightarrow> (doc \<Rightarrow> op_result) option \<Rightarrow> directory \<Rightarrow> (store_error + bool) \<times> directory" where
  "mutate Y U io create f D =
     (if \<not> io_lock io then (Inl LockFailed, D)
      else case (if store_exists D \<and> create then Inl StoreExists
                 else if store_exists D then load_store Y io D
                 else if create then Inr empty_store
                 else Inl NotInitialised) of
        Inl e \<Rightarrow> (Inl e, D)
      | Inr s \<Rightarrow>
          (case f of
             None \<Rightarrow> write_validated Y U io s D
           | Some f \<Rightarrow>
               (case f s of
                  (s', Some e) \<Rightarrow> (Inl (OpRefused e), D)
                | (s', None) \<Rightarrow> write_validated Y U io s' D)))"

definition mutate_store ::
  "yaml_lib \<Rightarrow> unicode \<Rightarrow> io \<Rightarrow> string option \<Rightarrow> (doc \<Rightarrow> op_result) option \<Rightarrow> directory \<Rightarrow> (store_error + bool) \<times> directory" where
  "mutate_store Y U io snapshot f D =
     (if \<not> store_regular D then (Inl NotInitialised, D)
      else case snapshot of
        Some why \<Rightarrow> (Inl (SnapshotFailed why), D)
      | None \<Rightarrow> mutate Y U io False f D)"

definition init_store :: "yaml_lib \<Rightarrow> unicode \<Rightarrow> io \<Rightarrow> directory \<Rightarrow> store_error option \<times> directory" where
  "init_store Y U io D =
     (if store_exists D then (Some StoreExists, D)
      else case mutate Y U io True None D of
        (Inl e, D') \<Rightarrow> (Some e, D') | (Inr _, D') \<Rightarrow> (None, D'))"

definition seed_store ::
  "yaml_lib \<Rightarrow> unicode \<Rightarrow> io \<Rightarrow> string \<Rightarrow> string \<Rightarrow> string \<Rightarrow> string \<Rightarrow> directory \<Rightarrow> store_error option \<times> directory" where
  "seed_store Y U io today scope plist secret D =
     (if store_exists D then (Some StoreExists, D)
      else if scope = [] \<or> plist = [] \<or> secret = [] then (Some SeedUsage, D)
      else case mutate Y U io True (Some (\<lambda>s. seed_fresh today s scope plist secret)) D of
        (Inl e, D') \<Rightarrow> (Some e, D') | (Inr _, D') \<Rightarrow> (None, D'))"

section \<open>What the self-check compares\<close>

text \<open>A validated store holds no floating-point number, so for it \<open>Equal\<close> is equality.\<close>

fun float_free :: "yval \<Rightarrow> bool" where
  "float_free (YFloat _) = False"
| "float_free (YList l) = list_all float_free l"
| "float_free (YMap m) = list_all (\<lambda>p. float_free (snd p)) m"
| "float_free _ = True"

lemma equal_at_eq: "equal_at n a b \<Longrightarrow> float_free a \<Longrightarrow> a = b"
proof (induction n a b rule: equal_at.induct)
  case (1 n a b)
  note prems = "1.prems" and IH = "1.IH"
  have d: "\<not> n > max_depth" using prems(1) by (simp add: equal_at.simps [of n] split: if_splits)
  show ?case
  proof (cases a)
    case (YList xs)
    with prems(1) d obtain ys where b: "b = YList ys" "length xs = length ys"
      and all: "list_all (\<lambda>(x, y). equal_at (n + 1) x y) (zip xs ys)"
      by (auto simp: equal_at.simps [of n] split: yval.splits)
    have "xs = ys"
    proof (rule nth_equalityI [OF b(2)])
      fix i assume i: "i < length xs"
      then have "(xs ! i, ys ! i) \<in> set (zip xs ys)" using b(2) by (auto simp: set_zip)
      moreover have "equal_at (n + 1) (xs ! i) (ys ! i)" using all i b(2) by (auto simp: list_all_length)
      moreover have "float_free (xs ! i)" using prems(2) YList i by (auto simp: list_all_length)
      ultimately show "xs ! i = ys ! i" using IH(1) [OF d YList b(1) _ refl] by blast
    qed
    with YList b(1) show ?thesis by simp
  next
    case (YMap xs)
    with prems(1) d obtain ys where b: "b = YMap ys" "length xs = length ys"
      and all: "list_all (\<lambda>(p, q). fst p = fst q \<and> equal_at (n + 1) (snd p) (snd q)) (zip xs ys)"
      by (auto simp: equal_at.simps [of n] split: yval.splits)
    have "xs = ys"
    proof (rule nth_equalityI [OF b(2)])
      fix i assume i: "i < length xs"
      then have "(xs ! i, ys ! i) \<in> set (zip xs ys)" using b(2) by (auto simp: set_zip)
      moreover have e: "fst (xs ! i) = fst (ys ! i)" "equal_at (n + 1) (snd (xs ! i)) (snd (ys ! i))"
        using all i b(2) by (auto simp: list_all_length)
      moreover have "float_free (snd (xs ! i))" using prems(2) YMap i by (auto simp: list_all_length)
      ultimately have "snd (xs ! i) = snd (ys ! i)" using IH(2) [OF d YMap b(1) _ refl] by blast
      with e(1) show "xs ! i = ys ! i" by (simp add: prod_eq_iff)
    qed
    with YMap b(1) show ?thesis by simp
  qed (use prems d in \<open>cases b; auto simp: equal_at.simps [of n]\<close>)+
qed

lemma yequal_eq: "yequal a b \<Longrightarrow> float_free a \<Longrightarrow> a = b"
  unfolding yequal_def by (rule equal_at_eq)

lemma non_empty_str_float_free: "non_empty_str v \<Longrightarrow> float_free v"
  by (cases v) (simp_all add: non_empty_str_def)

lemma is_in_float_free: "is_in vs v \<Longrightarrow> float_free v"
  by (cases v) (simp_all add: is_in_def)

lemma cidr_item_float_free: "check_cidr_item v = None \<Longrightarrow> float_free v"
  by (cases v) (auto simp: check_cidr_item_def split: option.splits if_splits)

lemma vendor_pair_float_free: "check_vendor_pair p = None \<Longrightarrow> float_free (snd p)"
  by (auto simp: check_vendor_pair_def is_in_float_free split: option.splits if_splits)

lemma check_field_float_free: "check_field U f v = None \<Longrightarrow> float_free v"
proof (cases v)
  case (YList l)
  assume "check_field U f v = None"
  with YList have "list_all non_empty_str l \<or> list_all (is_in (fs_values f)) l \<or> (\<forall>x \<in> set l. check_cidr_item x = None)"
    by (cases "fs_type f")
      (auto simp: check_field_def check_enum_list_def check_cidr_list_def check_string_def check_secret_def first_problem_None
        split: if_splits option.splits)
  then show ?thesis unfolding YList
    by (auto simp: list_all_iff non_empty_str_float_free is_in_float_free cidr_item_float_free)
next
  case (YMap m)
  assume "check_field U f v = None"
  with YMap have "first_problem check_vendor_pair m = None"
    by (cases "fs_type f")
      (auto simp: check_field_def check_enum_list_def check_cidr_list_def check_string_def check_secret_def)
  then show ?thesis unfolding YMap
    by (auto simp: list_all_iff first_problem_None intro!: vendor_pair_float_free)
next
  case (YFloat x)
  assume "check_field U f v = None"
  with YFloat show ?thesis
    by (cases "fs_type f")
      (auto simp: check_field_def check_enum_list_def check_cidr_list_def check_string_def check_secret_def)
qed simp_all

definition free_map :: "ymap \<Rightarrow> bool" where
  "free_map m \<longleftrightarrow> float_free (YMap m)"

lemma free_map_yset [simp]: "free_map m \<Longrightarrow> float_free v \<Longrightarrow> free_map (yset m k v)"
  by (induction m) (auto simp: free_map_def)

lemma free_map_set_if [simp]: "free_map m \<Longrightarrow> (b \<Longrightarrow> float_free v) \<Longrightarrow> free_map (set_if b k v m)"
  by (simp add: set_if_def)

lemma free_map_ymake: "\<forall>p \<in> set ps. float_free (snd p) \<Longrightarrow> free_map (ymake ps)"
  by (induction ps rule: rev_induct) (simp_all add: ymake_append, simp add: free_map_def ymake_def)

lemma free_list_copy [simp]: "float_free v \<Longrightarrow> float_free (list_copy v)"
  by (cases v) (simp_all add: list_copy_def)

lemma free_disk:
  "(\<And>k. k \<in> {''priv_lvl'', ''juniper_class''} \<Longrightarrow> float_free (yval_at e k)) \<Longrightarrow> free_map (disk_group e)"
  "(\<And>k. k \<in> {''group'', ''scopes'', ''hash'', ''disabled'', ''password_changed'', ''email'', ''reports_max_size'', ''reports_max_count''}
       \<Longrightarrow> float_free (yval_at e k)) \<Longrightarrow> free_map (disk_user e)"
  "(\<And>k. k \<in> {''prefixes'', ''secret'', ''protocols'', ''vendor_attrs'', ''devices''} \<Longrightarrow> float_free (yval_at e k)) \<Longrightarrow> free_map (disk_scope e)"
proof -
  assume "\<And>k. k \<in> {''prefixes'', ''secret'', ''protocols'', ''vendor_attrs'', ''devices''} \<Longrightarrow> float_free (yval_at e k)"
  then have f: "float_free (yval_at e ''prefixes'')" "float_free (yval_at e ''secret'')" "float_free (yval_at e ''protocols'')"
    "float_free (yval_at e ''vendor_attrs'')" "float_free (yval_at e ''devices'')" by blast+
  have c: "float_free (YMap (clone_map dm))" if "yval_at e ''devices'' = YMap dm" for dm
    unfolding free_map_def [symmetric] clone_map_def using f(5) that by (intro free_map_ymake) (auto simp: list_all_iff)
  let ?b = "set_if (truthy (yval_at e ''vendor_attrs'')) ''vendor_attrs'' (list_copy (yval_at e ''vendor_attrs''))
      (set_if (truthy (yval_at e ''protocols'')) ''protocols'' (list_copy (yval_at e ''protocols''))
       (ymake [(''prefixes'', list_copy (yval_at e ''prefixes'')), (''secret'', yval_at e ''secret'')]))"
  have b: "free_map ?b"
    by (intro free_map_set_if free_map_ymake) (use f in simp_all)
  show "free_map (disk_scope e)"
  proof (cases "\<exists>dm. yval_at e ''devices'' = YMap dm \<and> dm \<noteq> []")
    case True
    then obtain dm where dm: "yval_at e ''devices'' = YMap dm" "dm \<noteq> []" by blast
    then have "disk_scope e = set_if True ''devices'' (YMap (clone_map dm)) ?b" by (simp add: disk_scope_def)
    with free_map_set_if [OF b, of True] c [OF dm(1)] show ?thesis by simp
  next
    case False
    then have "disk_scope e = ?b"
      by (cases "yval_at e ''devices''") (auto simp: disk_scope_def Let_def split: bool.split)
    with b show ?thesis by simp
  qed
next
  assume "\<And>k. k \<in> {''priv_lvl'', ''juniper_class''} \<Longrightarrow> float_free (yval_at e k)"
  then have f: "float_free (yval_at e ''priv_lvl'')" "float_free (yval_at e ''juniper_class'')" by blast+
  show "free_map (disk_group e)"
    unfolding disk_group_def by (intro free_map_set_if free_map_ymake) (use f in simp_all)
next
  assume "\<And>k. k \<in> {''group'', ''scopes'', ''hash'', ''disabled'', ''password_changed'', ''email'', ''reports_max_size'', ''reports_max_count''}
    \<Longrightarrow> float_free (yval_at e k)"
  then have f: "float_free (yval_at e ''group'')" "float_free (yval_at e ''scopes'')" "float_free (yval_at e ''hash'')"
    "float_free (yval_at e ''disabled'')" "float_free (yval_at e ''password_changed'')" "float_free (yval_at e ''email'')"
    "float_free (yval_at e ''reports_max_size'')" "float_free (yval_at e ''reports_max_count'')" by blast+
  show "free_map (disk_user e)"
    unfolding disk_user_def by (intro free_map_set_if free_map_ymake) (use f in simp_all)
qed

lemma valid_entry_free:
  assumes "validate_store U b (YMap d) = []" "s \<in> set (schema U)" "yget (section_of d (sec_key s)) n = Some v"
  shows "\<exists>e. v = YMap e \<and> (\<forall>k. k \<in> fs_name ` set (sec_fields s) \<longrightarrow> float_free (yval_at e k))"
proof -
  from valid_entry [OF assms] obtain e where e: "v = YMap e"
    "\<forall>f \<in> set (sec_fields s). case yget e (fs_name f) of None \<Rightarrow> \<not> fs_required f | Some x \<Rightarrow> check_field U f x = None" by blast
  have "float_free (yval_at e (fs_name f))" if "f \<in> set (sec_fields s)" for f
    using e(2) that check_field_float_free by (auto simp: yval_at_def split: option.splits)
  with e(1) show ?thesis by blast
qed

lemma free_disk_section:
  assumes "\<forall>n v. yget m n = Some v \<longrightarrow> (\<exists>e. v = YMap e \<and> free_map (f e))"
  shows "free_map (disk_section f m)"
  unfolding disk_section_def
proof (rule free_map_ymake, rule ballI)
  fix p assume "p \<in> set (map (\<lambda>n. (n, YMap (f (map_or_empty (yval_at m n))))) (sort_strings (ykeys m)))"
  then obtain n where n: "p = (n, YMap (f (map_or_empty (yval_at m n))))" "n \<in> set (ykeys m)" by auto
  then obtain v where v: "yget m n = Some v" using yget_dom [of m n] by auto
  with assms obtain e where "v = YMap e" "free_map (f e)" by blast
  with v n show "float_free (snd p)"
    by (simp add: yval_at_def map_or_empty_def free_map_def)
qed

section \<open>Written stores\<close>

lemma free_valid_section:
  assumes "validate_store U b (YMap d) = []" "s \<in> set (schema U)"
    and "\<forall>e. (\<forall>k \<in> fs_name ` set (sec_fields s). float_free (yval_at e k)) \<longrightarrow> free_map (f e)"
  shows "free_map (disk_section f (section_of d (sec_key s)))"
proof (rule free_disk_section, intro allI impI)
  fix n v assume "yget (section_of d (sec_key s)) n = Some v"
  from valid_entry_free [OF assms(1,2) this] obtain e where e: "v = YMap e"
    "\<forall>k. k \<in> fs_name ` set (sec_fields s) \<longrightarrow> float_free (yval_at e k)" by (elim exE conjE)
  from e(2) assms(3) have "free_map (f e)" by simp
  with e(1) show "\<exists>e. v = YMap e \<and> free_map (f e)" by simp
qed

lemma field_names:
  "fs_name ` set group_fields = {''priv_lvl'', ''juniper_class'', ''builtin''}"
  "fs_name ` set (user_fields U) = {''group'', ''scopes'', ''hash'', ''disabled'', ''password_changed'', ''accounting_sink'',
     ''password_change_required'', ''email'', ''reports_max_size'', ''reports_max_count''}"
  "fs_name ` set scope_fields = {''prefixes'', ''secret'', ''protocols'', ''vendor_attrs'', ''devices''}"
  by (auto simp: group_fields_def user_fields_def scope_fields_def spec_def)

lemma free_valid_sections:
  assumes "validate_store U b (YMap d) = []"
  shows "free_map (disk_section disk_group (section_of d ''groups''))"
    "free_map (disk_section disk_user (section_of d ''users''))"
    "free_map (disk_section disk_scope (section_of d ''scopes''))"
proof -
  let ?g = "\<lparr>sec_key = ''groups'', sec_label = ''group'', sec_name = match_group, sec_fields = group_fields\<rparr>"
  let ?u = "\<lparr>sec_key = ''users'', sec_label = ''user'', sec_name = match_user, sec_fields = user_fields U\<rparr>"
  let ?s = "\<lparr>sec_key = ''scopes'', sec_label = ''scope'', sec_name = match_scope, sec_fields = scope_fields\<rparr>"
  have sch: "?g \<in> set (schema U)" "?u \<in> set (schema U)" "?s \<in> set (schema U)" by (simp_all add: schema_def)
  show "free_map (disk_section disk_group (section_of d ''groups''))"
    by (rule free_valid_section [OF assms sch(1), unfolded section_spec.simps field_names]) (intro allI impI, rule free_disk(1), erule bspec, auto)
  show "free_map (disk_section disk_user (section_of d ''users''))"
    by (rule free_valid_section [OF assms sch(2), unfolded section_spec.simps field_names]) (intro allI impI, rule free_disk(2), erule bspec, auto)
  show "free_map (disk_section disk_scope (section_of d ''scopes''))"
    by (rule free_valid_section [OF assms sch(3), unfolded section_spec.simps field_names]) (intro allI impI, rule free_disk(3), erule bspec, auto)
qed

lemma valid_filter_free:
  assumes "validate_store U b (YMap d) = []"
  shows "float_free (list_copy (yval_at (section_of d ''filters'') k))"
proof (cases "yget (section_of d ''filters'') k")
  case None
  then show ?thesis by (simp add: yval_at_def list_copy_def)
next
  case (Some v)
  have "check_filters d = []" using assms unfolding validate_parts by blast
  moreover have "section_of d ''filters'' \<noteq> []" using Some by auto
  then obtain m where m: "yval_at d ''filters'' = YMap m" "section_of d ''filters'' = m"
    by (auto simp: section_of_def split: option.splits)
  ultimately have "concat (map check_filter m) = []" by (simp add: check_filters_def)
  moreover have "(k, v) \<in> set m" using yget_in_set [OF Some] m by simp
  ultimately have "check_filter (k, v) = []" by auto
  then have "check_cidr_list 0 (null_to_list v) = None" by (auto simp: check_filter_def split: if_splits option.splits)
  then have "\<exists>l. null_to_list v = YList l \<and> (\<forall>x \<in> set l. check_cidr_item x = None)"
    by (cases v) (auto simp: null_to_list_def check_cidr_list_def first_problem_None split: option.splits)
  then have "float_free v"
    by (cases v) (auto simp: null_to_list_def list_all_iff intro!: cidr_item_float_free)
  then show ?thesis using Some by (simp add: yval_at_def)
qed

lemma disk_form_free:
  assumes "validate_store U b (YMap d) = []"
  shows "float_free (YMap (disk_form d))"
  using free_valid_sections [OF assms] valid_filter_free [OF assms]
  by (simp add: disk_form_list free_map_def disk_filters_def)

lemma store_text_reads_back:
  assumes "validate_store U b (YMap d) = []" "store_text Y d = Inr text"
  shows "y_read Y text = Inr (YMap (disk_form d))"
proof -
  from assms(2) obtain v where b: "y_read Y text = Inr v" "yequal (YMap (disk_form d)) v"
    by (auto simp: store_text_def emit_checked_def Let_def split: sum.splits if_splits)
  with yequal_eq [OF b(2) disk_form_free [OF assms(1)]] show ?thesis by simp
qed

section \<open>Mutations are all or nothing\<close>

lemma steps_before_rename: "d_store (foldl (do_step data) D (take n write_steps)) = d_store D" if "n \<le> 5"
proof -
  have "n \<in> {0, 1, 2, 3, 4, 5}" using that by auto
  then show ?thesis by (auto simp: write_steps_def)
qed

lemma fail_step_store [simp]: "d_store (fail_step io data D s) = d_store D"
  by (simp add: fail_step_def)

lemma run_steps_cases:
  "run_steps io data ss D = (r, D') \<Longrightarrow>
     (case r of
        None \<Rightarrow> D' = foldl (do_step data) D ss
      | Some e \<Rightarrow> \<exists>n < length ss. e = WriteFailed (ss ! n) \<and> d_store D' = d_store (foldl (do_step data) D (take n ss)))"
proof (induction ss arbitrary: D)
  case Nil
  then show ?case by (auto split: option.split)
next
  case (Cons s ss)
  show ?case
  proof (cases "io_fail io = Some s")
    case True
    with Cons.prems show ?thesis by (auto intro!: exI [of _ 0])
  next
    case False
    with Cons.prems have "run_steps io data ss (do_step data D s) = (r, D')" by simp
    note IH = Cons.IH [OF this]
    show ?thesis
    proof (cases r)
      case None
      with IH show ?thesis by simp
    next
      case (Some e)
      with IH obtain n where "n < length ss" "e = WriteFailed (ss ! n)"
        "d_store D' = d_store (foldl (do_step data) (do_step data D s) (take n ss))" by auto
      with Some show ?thesis by (auto intro!: exI [of _ "Suc n"])
    qed
  qed
qed

lemma atomic_write_cases:
  "case atomic_write io data D of
     (None, D') \<Rightarrow> D' = D\<lparr>d_store := Some (Regular data), d_temp := None\<rparr>
   | (Some e, D') \<Rightarrow> d_store D' = d_store D"
proof -
  obtain r D' where w: "atomic_write io data D = (r, D')" by (cases "atomic_write io data D")
  have len: "length write_steps = 6" by (simp add: write_steps_def)
  from run_steps_cases [OF w [unfolded atomic_write_def]] show ?thesis
  proof (cases r)
    case None
    with run_steps_cases [OF w [unfolded atomic_write_def]] w show ?thesis by (simp add: write_steps_def)
  next
    case (Some e)
    with run_steps_cases [OF w [unfolded atomic_write_def]] obtain n where
      "n < 6" "d_store D' = d_store (foldl (do_step data) D (take n write_steps))" by (auto simp: len)
    with w Some steps_before_rename [of n data D] show ?thesis by simp
  qed
qed

text \<open>
  C20: \<open>atomicWrite\<close> replaces the store in one step: when it succeeds the file holds the new bytes and no
  temporary file is left, when a step fails the file is as it was, and a crash after any number of steps
  leaves the old file or the new one.
\<close>

theorem atomic_write_all_or_nothing:
  "(case atomic_write io data D of
      (None, D') \<Rightarrow> D' = D\<lparr>d_store := Some (Regular data), d_temp := None\<rparr>
    | (Some e, D') \<Rightarrow> d_store D' = d_store D) \<and>
   d_store (foldl (do_step data) D (take n write_steps)) = (if n \<le> 5 then d_store D else Some (Regular data))"
  using atomic_write_cases [where io = io and data = data and D = D] steps_before_rename [of n data D] by (simp add: write_steps_def)

lemma write_validated_cases:
  assumes "write_validated Y U io s D = (r, D')"
  shows "case r of
      Inl _ \<Rightarrow> d_store D' = d_store D
    | Inr b \<Rightarrow> validate_store U False (YMap (canonicalize U s)) = [] \<and>
        (\<exists>out. store_text Y (canonicalize U s) = Inr out \<and> d_store D' = Some (Regular out) \<and> (\<not> b \<longrightarrow> D' = D))"
proof -
  have rd: "d_store D = Some (Regular t)" if "read_file ok D = Some t" for ok t
    using that by (auto simp: read_file_def split: if_splits option.splits node.splits)
  show ?thesis
    using assms atomic_write_cases [where io = io and D = D] rd [of "io_compare io"]
    by (fastforce simp: write_validated_def Let_def split: if_splits sum.splits prod.splits option.splits)
qed

text \<open>The document a mutation starts from, and the one it writes.\<close>

definition mutated :: "yaml_lib \<Rightarrow> io \<Rightarrow> bool \<Rightarrow> (doc \<Rightarrow> op_result) option \<Rightarrow> directory \<Rightarrow> store_error + doc" where
  "mutated Y io create f D =
     (case (if store_exists D then load_store Y io D else Inr empty_store) of
        Inl e \<Rightarrow> Inl e
      | Inr s \<Rightarrow>
          (case f of
             None \<Rightarrow> Inr s
           | Some f \<Rightarrow> (case f s of (s', None) \<Rightarrow> Inr s' | (_, Some e) \<Rightarrow> Inl (OpRefused e))))"

lemma mutate_cases:
  "case mutate Y U io create f D of
     (Inl e, D') \<Rightarrow> d_store D' = d_store D
   | (Inr b, D') \<Rightarrow> io_lock io \<and> create = (\<not> store_exists D) \<and> (b \<or> D' = D) \<and>
       (\<exists>s out. mutated Y io create f D = Inr s \<and> validate_store U False (YMap (canonicalize U s)) = [] \<and>
          d_store D' = Some (Regular out) \<and> y_read Y out = Inr (YMap (disk_form (canonicalize U s))))"
proof -
  obtain r D' where m: "mutate Y U io create f D = (r, D')" by (cases "mutate Y U io create f D")
  show ?thesis
  proof (cases r)
    case (Inl e)
    have "d_store D' = d_store D"
      using m [unfolded Inl] write_validated_cases [of Y U io _ D "Inl e" D']
      by (auto simp: mutate_def split: if_splits sum.splits option.splits prod.splits)
    with m Inl show ?thesis by simp
  next
    case (Inr b)
    have "\<exists>s. mutated Y io create f D = Inr s \<and> write_validated Y U io s D = (Inr b, D') \<and> io_lock io \<and> create = (\<not> store_exists D)"
      using m [unfolded Inr]
      by (auto simp: mutate_def mutated_def split: if_splits sum.splits option.splits prod.splits)
    then obtain s where s: "mutated Y io create f D = Inr s" "write_validated Y U io s D = (Inr b, D')"
      "io_lock io" "create = (\<not> store_exists D)" by blast
    from write_validated_cases [OF s(2)] obtain out where t: "validate_store U False (YMap (canonicalize U s)) = []"
      "store_text Y (canonicalize U s) = Inr out" "d_store D' = Some (Regular out)" "\<not> b \<longrightarrow> D' = D" by auto
    from t s m Inr store_text_reads_back [OF t(1,2)] show ?thesis by auto
  qed
qed

text \<open>
  C7: a mutation, whatever the operation, the YAML library and the failures of the file system are, leaves
  the store as it was or holding exactly the result: when it reports success the operation was applied to
  the store that was there (or to the empty one, created only where there was none), the canonical result
  validates, and the file reads back as its disk form; when it reports no change nothing was touched.
\<close>

theorem mutate_all_or_nothing:
  "case mutate Y U io create f D of
     (Inl e, D') \<Rightarrow> d_store D' = d_store D
   | (Inr b, D') \<Rightarrow> io_lock io \<and> create = (\<not> store_exists D) \<and> (b \<or> D' = D) \<and>
       (\<exists>s out. mutated Y io create f D = Inr s \<and> validate_store U False (YMap (canonicalize U s)) = [] \<and>
          d_store D' = Some (Regular out) \<and> y_read Y out = Inr (YMap (disk_form (canonicalize U s))))"
  by (rule mutate_cases)

section \<open>Written stores load again\<close>

lemma wf_entry_on_map: "(\<And>m. wf_ymap m \<Longrightarrow> wf_ymap (f m)) \<Longrightarrow> wf_entry v \<Longrightarrow> wf_entry (on_map f v)"
  by (cases v) (simp_all add: wf_entry_def on_map_def)

lemma wf_canon [simp]:
  "wf_ymap m \<Longrightarrow> wf_ymap (canon_group n m)"
  "wf_ymap m \<Longrightarrow> wf_ymap (canon_user U m)"
  "wf_ymap m \<Longrightarrow> wf_ymap (canon_scope m)"
proof -
  assume m: "wf_ymap m"
  then show "wf_ymap (canon_group n m)" by (simp add: canon_group_def)
  from m show "wf_ymap (canon_user U m)"
    by (simp add: canon_user_def canon_hash_def canon_user_scopes_def split: option.split)
  have "wf_ymap (canon_vendor_attrs k)" if "wf_ymap k" for k
    using that by (simp add: canon_vendor_attrs_def Let_def split: option.split)
  moreover have "wf_ymap (canon_devices k)" if "wf_ymap k" for k
    using that by (simp add: canon_devices_def Let_def split: option.split)
  ultimately show "wf_ymap (canon_scope m)" using m by (simp add: canon_scope_def)
qed

lemma wf_canon_list: "wf_entry v \<Longrightarrow> wf_entry (canonical_cidr_list v)"
  by (cases v) (simp_all add: canonical_cidr_list_def wf_entry_def split: option.split)

lemma wf_doc_map_section:
  assumes "wf_doc d" "\<And>n v. wf_entry v \<Longrightarrow> wf_entry (f n v)"
  shows "wf_doc (map_section sec f d)"
proof -
  have "wf_section (section_of d sec)" by (rule wf_doc_section [OF assms(1)])
  with assms(2) have "wf_section (ymap_vals f (section_of d sec))" by (auto simp: wf_section_def)
  then show ?thesis unfolding map_section_def by (intro wf_doc_put wf_doc_ensure assms(1))
qed

lemma wf_doc_canonicalize: "wf_doc d \<Longrightarrow> wf_doc (canonicalize U d)"
  unfolding canonicalize_def
  by (intro wf_doc_map_section) (auto intro!: wf_entry_on_map wf_canon_list)


definition sample_yaml :: yaml_lib where
  "sample_yaml = \<lparr>y_emit = (\<lambda>_. Inr ''x''), y_read = (\<lambda>_. Inr (YMap (disk_form sample_store)))\<rparr>"

definition sample_io :: io where
  "sample_io = \<lparr>io_lock = True, io_load = True, io_compare = True, io_fail = None, io_partial = 0, io_remove = True\<rparr>"

lemma sample_written:
  "write_store sample_yaml plain_unicode sample_io sample_store \<lparr>d_store = None, d_temp = None\<rparr> =
     (Inr True, \<lparr>d_store = Some (Regular (store_header @ ''x'')), d_temp = None\<rparr>)"
  by code_simp


text \<open>
  C31: \<open>Init\<close> and \<open>SeedFresh\<close> never touch a store that exists, and when they succeed the new file reads back
  as the disk form of the empty store, or of the empty store with the scope and the users seeded.
\<close>

theorem init_seed_correct:
  "(case init_store Y U io D of
      (Some e, D') \<Rightarrow> d_store D' = d_store D
    | (None, D') \<Rightarrow> \<not> store_exists D \<and> (\<exists>out. d_store D' = Some (Regular out) \<and>
         y_read Y out = Inr (YMap (disk_form (canonicalize U empty_store))))) \<and>
   (case seed_store Y U io today scope plist secret D of
      (Some e, D') \<Rightarrow> d_store D' = d_store D
    | (None, D') \<Rightarrow> \<not> store_exists D \<and> scope \<noteq> [] \<and> plist \<noteq> [] \<and> secret \<noteq> [] \<and>
        (\<exists>s out. seed_fresh today empty_store scope plist secret = (s, None) \<and>
           validate_store U False (YMap (canonicalize U s)) = [] \<and>
           d_store D' = Some (Regular out) \<and> y_read Y out = Inr (YMap (disk_form (canonicalize U s)))))"
proof (rule conjI)
  let ?m = "mutate Y U io True None D"
  show "case init_store Y U io D of
      (Some e, D') \<Rightarrow> d_store D' = d_store D
    | (None, D') \<Rightarrow> \<not> store_exists D \<and> (\<exists>out. d_store D' = Some (Regular out) \<and>
         y_read Y out = Inr (YMap (disk_form (canonicalize U empty_store))))"
    using mutate_cases [where Y = Y and U = U and io = io and create = True and f = None and D = D]
    by (cases "fst ?m"; cases ?m) (auto simp: init_store_def mutated_def)
next
  let ?f = "\<lambda>s. seed_fresh today s scope plist secret"
  let ?m = "mutate Y U io True (Some ?f) D"
  have s: "seed_fresh today empty_store scope plist secret = (s, None)"
    if "mutated Y io True (Some ?f) D = Inr s" "\<not> store_exists D" for s
    using that by (auto simp: mutated_def split: prod.splits option.splits)
  show "case seed_store Y U io today scope plist secret D of
      (Some e, D') \<Rightarrow> d_store D' = d_store D
    | (None, D') \<Rightarrow> \<not> store_exists D \<and> scope \<noteq> [] \<and> plist \<noteq> [] \<and> secret \<noteq> [] \<and>
        (\<exists>s out. seed_fresh today empty_store scope plist secret = (s, None) \<and>
           validate_store U False (YMap (canonicalize U s)) = [] \<and>
           d_store D' = Some (Regular out) \<and> y_read Y out = Inr (YMap (disk_form (canonicalize U s))))"
    using mutate_cases [where Y = Y and U = U and io = io and create = True and f = "Some ?f" and D = D] s
    by (cases "fst ?m"; cases ?m) (auto simp: seed_store_def)
qed

end
