(* ===== verification/CidrLists.thy ===== *)
theory CidrLists
  imports CidrProps
begin

text \<open>
  CIDR lists as they are typed and as devices take them: \<open>internal/shellquote/xargs.go\<close> (the word
  splitting of \<open>echo | xargs\<close>), \<open>ParseList\<close> and \<open>CiscoWildcard\<close> of \<open>internal/cidr/cidr.go\<close>, and the
  SNMP client lists of \<open>internal/cidr/snmp.go\<close>.
\<close>

section \<open>\<open>XargsEcho\<close>\<close>

definition xargs_blank :: "char \<Rightarrow> bool" where
  "xargs_blank c \<longleftrightarrow> c = CHR '' '' \<or> c = CHR 0x09 \<or> c = CHR 0x0A"

definition quote_char :: "char \<Rightarrow> bool" where
  "quote_char c \<longleftrightarrow> c = CHR 0x27 \<or> c = CHR 0x22"

lemma cut_at_shorter: "cut_at c s = (a, b, f) \<Longrightarrow> length b \<le> length s"
  using cut_at_True [of c s a b] cut_at_rest [of c s a b f] by (cases f) auto

text \<open>The loop: the words so far, the current word, whether inside a word, and the rest of the
  input. \<open>Inl q\<close> is the unmatched quote \<open>q\<close>.\<close>

function xargs_scan :: "string list \<Rightarrow> string \<Rightarrow> bool \<Rightarrow> string \<Rightarrow> char + string list" where
  "xargs_scan words cur in_word [] = Inr (if in_word then words @ [cur] else words)"
| "xargs_scan words cur in_word (c # s) =
     (if xargs_blank c then
        (if in_word then xargs_scan (words @ [cur]) [] False s else xargs_scan words cur False s)
      else if quote_char c then
        (case cut_at c s of
           (quoted, rest, found) \<Rightarrow>
             if \<not> found then Inl c else xargs_scan words (cur @ quoted) True rest)
      else if c = CHR 0x5C then
        (case s of
           [] \<Rightarrow> xargs_scan words cur True []
         | d # s' \<Rightarrow> xargs_scan words (cur @ [d]) True s')
      else xargs_scan words (cur @ [c]) True s)"
  by pat_completeness auto
termination
proof (relation "measure (\<lambda>(_, _, _, s). length s)", goal_cases)
  case (4 words cur in_word c s x y xa ya)
  then show ?case using cut_at_shorter [of c s x xa ya] by simp
qed simp_all

definition xargs_echo :: "string \<Rightarrow> char + string" where
  "xargs_echo s = (case xargs_scan [] [] False s of Inl q \<Rightarrow> Inl q | Inr ws \<Rightarrow> Inr (join '' '' ws))"

text \<open>Characters \<open>xargs\<close> leaves alone.\<close>

definition xargs_plain :: "char \<Rightarrow> bool" where
  "xargs_plain c \<longleftrightarrow> \<not> xargs_blank c \<and> \<not> quote_char c \<and> c \<noteq> CHR 0x5C"

lemma xargs_scan_plain:
  "list_all xargs_plain s \<Longrightarrow>
     xargs_scan ws cur b s = Inr (if b \<or> s \<noteq> [] then ws @ [cur @ s] else ws)"
  by (induction s arbitrary: cur b) (auto simp: xargs_plain_def)

lemma xargs_echo_plain: "list_all xargs_plain s \<Longrightarrow> xargs_echo s = Inr s"
  by (simp add: xargs_echo_def xargs_scan_plain)

section \<open>\<open>ParseList\<close>\<close>

datatype list_error = UnmatchedQuote | InvalidCidr string

definition first_line :: "string \<Rightarrow> string" where
  "first_line s = fst (cut_at (CHR 0x0A) s)"

fun parse_entries :: "string list \<Rightarrow> string list \<Rightarrow> list_error + string list" where
  "parse_entries out [] = Inr out"
| "parse_entries out (raw # raws) =
     (case xargs_echo raw of
        Inl _ \<Rightarrow> Inl UnmatchedQuote
      | Inr entry \<Rightarrow>
          if entry = [] then parse_entries out raws
          else (case parse_net entry of
                  None \<Rightarrow> Inl (InvalidCidr entry)
                | Some n \<Rightarrow> parse_entries (add_new out (net_string n)) raws))"

definition parse_list :: "string \<Rightarrow> list_error + string list" where
  "parse_list input = parse_entries [] (split_on (CHR '','') (first_line input))"

lemma parse_entries_inv:
  assumes "parse_entries out raws = Inr res" "distinct out" "\<forall>c \<in> set out. canonical c = c \<and> cidr_valid c"
  shows "distinct res \<and> (\<forall>c \<in> set res. canonical c = c \<and> cidr_valid c)"
  using assms
proof (induction raws arbitrary: out)
  case Nil
  then show ?case by simp
next
  case (Cons raw raws)
  from Cons.prems(1) obtain entry where e: "xargs_echo raw = Inr entry" by (auto split: sum.splits)
  show ?case
  proof (cases "entry = []")
    case True
    with Cons.prems(1) e have "parse_entries out raws = Inr res" by simp
    from Cons.IH [OF this Cons.prems(2,3)] show ?thesis .
  next
    case False
    with Cons.prems(1) e obtain n where n: "parse_net entry = Some n"
      and r: "parse_entries (add_new out (net_string n)) raws = Inr res" by (auto split: option.splits)
    have "parse_net (net_string n) = Some n" using n by (simp add: parse_net_string parse_net_wf)
    then have "canonical (net_string n) = net_string n \<and> cidr_valid (net_string n)"
      by (simp add: canonical_def cidr_valid_def)
    with Cons.prems(2,3) have "distinct (add_new out (net_string n)) \<and>
        (\<forall>c \<in> set (add_new out (net_string n)). canonical c = c \<and> cidr_valid c)"
      by (auto simp: add_new_def)
    with Cons.IH [OF r] show ?thesis by blast
  qed
qed

lemma parse_entries_covers:
  assumes "parse_entries out raws = Inr res"
  shows "\<Union> (addrs_of ` set res) = \<Union> (addrs_of ` set out) \<union> (\<Union>raw \<in> set raws. case xargs_echo raw of Inl _ \<Rightarrow> {} | Inr e \<Rightarrow> addrs_of e)"
  using assms
proof (induction raws arbitrary: out)
  case Nil
  then show ?case by simp
next
  case (Cons raw raws)
  then obtain entry where e: "xargs_echo raw = Inr entry" by (cases "xargs_echo raw") auto
  show ?case
  proof (cases "entry = []")
    case True
    have "parse_net [] = None" by code_simp
    with True Cons e show ?thesis by simp
  next
    case False
    with Cons.prems e obtain n where n: "parse_net entry = Some n"
      and r: "parse_entries (add_new out (net_string n)) raws = Inr res" by (cases "parse_net entry") auto
    have "addrs_of (net_string n) = addrs_of entry" using n parse_net_wf [OF n] by simp
    then have "\<Union> (addrs_of ` set (add_new out (net_string n))) = \<Union> (addrs_of ` set out) \<union> addrs_of entry"
      by (auto simp: add_new_def)
    with Cons.IH [OF r] e show ?thesis by auto
  qed
qed

lemma parse_entries_fix:
  assumes "distinct (out @ cs)" "\<forall>c \<in> set cs. canonical c = c \<and> cidr_valid c \<and> list_all xargs_plain c"
  shows "parse_entries out cs = Inr (out @ cs)"
  using assms
proof (induction cs arbitrary: out)
  case Nil
  then show ?case by simp
next
  case (Cons c cs)
  then obtain n where n: "parse_net c = Some n" by (auto simp: cidr_valid_def)
  have "parse_net [] = None" by code_simp
  with n have "c \<noteq> []" by auto
  moreover have "net_string n = c" using Cons.prems(2) n by (simp add: canonical_def)
  moreover have "parse_entries (out @ [c]) cs = Inr ((out @ [c]) @ cs)" using Cons.prems by (intro Cons.IH) auto
  ultimately show ?case using Cons.prems n by (simp add: xargs_echo_plain add_new_def)
qed

text \<open>
  A list \<open>ParseList\<close> accepts comes back as distinct canonical CIDRs that cover exactly the
  addresses of its entries.
\<close>

theorem parse_list_canonical:
  assumes "parse_list input = Inr out"
  shows "distinct out \<and> (\<forall>c \<in> set out. canonical c = c \<and> cidr_valid c) \<and>
    \<Union> (addrs_of ` set out) =
      (\<Union>raw \<in> set (split_on (CHR '','') (first_line input)). case xargs_echo raw of Inl _ \<Rightarrow> {} | Inr e \<Rightarrow> addrs_of e)"
  using parse_entries_inv [of "[]"] parse_entries_covers [of "[]"] assms by (simp add: parse_list_def)

theorem parse_list_canonical_witness:
  "parse_list '' 10.1.2.3/16, ,10.1.0.0/255.255.0.0'' = Inr [''10.1.0.0/16''] \<and> canonical ''10.1.0.0/16'' = ''10.1.0.0/16''"
proof -
  have "parse_list '' 10.1.2.3/16, ,10.1.0.0/255.255.0.0'' = Inr [''10.1.0.0/16'']" by code_simp
  with parse_list_canonical show ?thesis by fastforce
qed

text \<open>
  The round trip of a list: distinct canonical CIDRs without blanks, quotes, backslashes and
  commas, joined with commas, parse to themselves in the same order.
\<close>

theorem parse_list_roundtrip:
  assumes "cs \<noteq> []" "distinct cs"
    and "\<forall>c \<in> set cs. canonical c = c \<and> cidr_valid c \<and> list_all xargs_plain c \<and> CHR '','' \<notin> set c"
  shows "parse_list (join '','' cs) = Inr cs"
proof -
  have "CHR 0x0A \<notin> set (join '','' cs)"
    using set_join [of "'',''" cs] assms(3) by (fastforce simp: list_all_iff xargs_plain_def xargs_blank_def)
  then have "first_line (join '','' cs) = join '','' cs" by (simp add: first_line_def cut_at_none)
  moreover have "split_on (CHR '','') (join '','' cs) = cs" using assms by (intro split_join) auto
  ultimately show ?thesis using parse_entries_fix [of "[]" cs] assms by (simp add: parse_list_def)
qed

theorem parse_list_roundtrip_witness:
  "parse_list (join '','' [''10.1.0.0/16'', ''10.2.0.0/16'']) = Inr [''10.1.0.0/16'', ''10.2.0.0/16'']"
proof (rule parse_list_roundtrip)
  have "canonical ''10.1.0.0/16'' = ''10.1.0.0/16'' \<and> cidr_valid ''10.1.0.0/16''" by code_simp
  moreover have "canonical ''10.2.0.0/16'' = ''10.2.0.0/16'' \<and> cidr_valid ''10.2.0.0/16''" by code_simp
  moreover have "list_all xargs_plain ''10.1.0.0/16'' \<and> list_all xargs_plain ''10.2.0.0/16''" by code_simp
  ultimately show "\<forall>c \<in> set [''10.1.0.0/16'', ''10.2.0.0/16''].
      canonical c = c \<and> cidr_valid c \<and> list_all xargs_plain c \<and> CHR '','' \<notin> set c"
    by (simp only: list.set ball_simps) simp
qed simp_all

end
