(* ===== verification/SnmpClients.thy ===== *)
theory SnmpClients
  imports CidrLists
begin

text \<open>
  IPv4 ranges as devices take them: \<open>CiscoWildcard\<close> of \<open>internal/cidr/cidr.go\<close> and the SNMP client
  lists of \<open>internal/cidr/snmp.go\<close>.
\<close>

definition net_ip4 :: "network \<Rightarrow> 32 word" where
  "net_ip4 n = ucast (u_lo (n_ip n))"

definition host_mask4 :: "network \<Rightarrow> 32 word" where
  "host_mask4 n = NOT (ucast (u_lo (ones 32 (n_plen n))))"

definition cisco_wildcard :: "string \<Rightarrow> string" where
  "cisco_wildcard s =
     (case parse_net s of
        None \<Rightarrow> []
      | Some n \<Rightarrow>
          if n_v6 n then []
          else dotted_quad (net_ip4 n) @ '' '' @ dotted_quad (host_mask4 n))"

definition max_snmp_clients :: nat where
  "max_snmp_clients = 32"

text \<open>\<open>ClientProblem\<close>; \<open>None\<close> for the empty string.\<close>

datatype client_problem = NotACidr | Ipv6Client | EveryAddress | NotCanonical string

definition snmp_client_problem :: "string \<Rightarrow> client_problem option" where
  "snmp_client_problem s =
     (case parse_net s of
        None \<Rightarrow> Some NotACidr
      | Some n \<Rightarrow>
          if n_v6 n then Some Ipv6Client
          else if n_plen n = 0 then Some EveryAddress
          else if net_string n \<noteq> s then Some (NotCanonical (net_string n))
          else None)"

definition contains_net :: "string \<Rightarrow> string \<Rightarrow> bool" where
  "contains_net outer inner =
     (case parse_net outer of
        None \<Rightarrow> False
      | Some p \<Rightarrow>
          if n_v6 p then False
          else (case parse_net inner of
                  None \<Rightarrow> False
                | Some i \<Rightarrow>
                    if n_v6 i then False
                    else n_plen p \<le> n_plen i \<and> u_cmp (u_and (n_ip i) (ones 32 (n_plen p))) (n_ip p) = 0))"

definition net_overlaps :: "string \<Rightarrow> string \<Rightarrow> bool" where
  "net_overlaps a b \<longleftrightarrow> contains_net a b \<or> contains_net b a"

text \<open>\<open>strings.TrimSuffix\<close>.\<close>

definition trim_suffix :: "string \<Rightarrow> string \<Rightarrow> string" where
  "trim_suffix s suf =
     (if length suf \<le> length s \<and> drop (length s - length suf) s = suf then take (length s - length suf) s else s)"

definition cisco_permit :: "string \<Rightarrow> string" where
  "cisco_permit s =
     (let wc = cisco_wildcard s
      in if wc = [] then []
         else case parse_net s of
           None \<Rightarrow> []
         | Some n \<Rightarrow> if n_plen n = 32 then ''host '' @ trim_suffix (net_string n) ''/32'' else wc)"

definition host32 :: "string \<Rightarrow> string" where
  "host32 addr =
     (if CHR ''/'' \<in> set addr \<or> CHR '' '' \<in> set addr then []
      else case parse_net addr of
        None \<Rightarrow> []
      | Some n \<Rightarrow> if n_v6 n \<or> n_plen n \<noteq> 32 then [] else net_string n)"

text \<open>\<open>OverlapWarnings\<close>: the pairs (wider, narrower), in the order of the printed lines.\<close>

definition overlap_pair :: "string \<Rightarrow> string \<Rightarrow> (string \<times> string) option" where
  "overlap_pair a b =
     (if a = b then None
      else if contains_net a b then Some (a, b)
      else if contains_net b a then Some (b, a)
      else None)"

fun overlap_warnings :: "string list \<Rightarrow> (string \<times> string) list" where
  "overlap_warnings [] = []"
| "overlap_warnings (a # bs) = List.map_filter (overlap_pair a) bs @ overlap_warnings bs"

section \<open>What they decide\<close>

lemma contains_net_eq:
  "contains_net outer inner \<longleftrightarrow>
     (\<exists>p i. parse_net outer = Some p \<and> parse_net inner = Some i \<and> \<not> n_v6 p \<and> \<not> n_v6 i \<and> net_contains p i)"
  by (cases "parse_net outer"; cases "parse_net inner") (simp_all add: contains_net_def net_contains_def net_width_def)

definition v4_addrs :: "string \<Rightarrow> u128 set" where
  "v4_addrs s = {a. (False, a) \<in> addrs_of s}"

lemma v4_addrs_parsed: "parse_net s = Some n \<Longrightarrow> \<not> n_v6 n \<Longrightarrow> net_addrs n = {False} \<times> v4_addrs s"
  by (auto simp: v4_addrs_def addrs_of_def net_addrs_def)

lemma v4_addrs_none: "v4_addrs s \<noteq> {} \<longleftrightarrow> (\<exists>n. parse_net s = Some n \<and> \<not> n_v6 n)"
proof
  assume "v4_addrs s \<noteq> {}"
  then show "\<exists>n. parse_net s = Some n \<and> \<not> n_v6 n"
    by (cases "parse_net s") (auto simp: v4_addrs_def addrs_of_def net_addrs_def)
next
  assume "\<exists>n. parse_net s = Some n \<and> \<not> n_v6 n"
  then obtain n where n: "parse_net s = Some n" "\<not> n_v6 n" by blast
  with net_ip_mem [OF parse_net_wf [OF n(1)]] show "v4_addrs s \<noteq> {}"
    by (auto simp: v4_addrs_parsed [OF n])
qed

lemma contains_net_subset:
  "contains_net a b \<longleftrightarrow> v4_addrs b \<noteq> {} \<and> v4_addrs a \<noteq> {} \<and> v4_addrs b \<subseteq> v4_addrs a"
proof (cases "v4_addrs a \<noteq> {} \<and> v4_addrs b \<noteq> {}")
  case False
  then show ?thesis unfolding contains_net_eq using v4_addrs_none by metis
next
  case True
  then obtain n m where n: "parse_net a = Some n" "\<not> n_v6 n" and m: "parse_net b = Some m" "\<not> n_v6 m"
    using v4_addrs_none by meson
  have "contains_net a b \<longleftrightarrow> net_addrs m \<subseteq> net_addrs n"
    using n m contains_iff_subset [OF n(1) [THEN parse_net_wf] m(1) [THEN parse_net_wf]]
    by (simp add: contains_net_eq)
  with True show ?thesis by (auto simp: v4_addrs_parsed [OF n] v4_addrs_parsed [OF m])
qed

text \<open>
  \<open>ContainsNet\<close> is inclusion of the IPv4 addresses of two parsable IPv4 networks, and
  \<open>Overlaps\<close> holds exactly when they share an address.
\<close>

theorem ipv4_containment_and_overlap:
  "(contains_net a b \<longleftrightarrow> v4_addrs a \<noteq> {} \<and> v4_addrs b \<noteq> {} \<and> v4_addrs b \<subseteq> v4_addrs a) \<and>
   (net_overlaps a b \<longleftrightarrow> v4_addrs a \<inter> v4_addrs b \<noteq> {})"
proof -
  have "net_overlaps a b \<longleftrightarrow> v4_addrs a \<inter> v4_addrs b \<noteq> {}"
  proof (cases "v4_addrs a \<noteq> {} \<and> v4_addrs b \<noteq> {}")
    case False
    then show ?thesis by (auto simp: net_overlaps_def contains_net_subset)
  next
    case True
    then obtain n m where n: "parse_net a = Some n" "\<not> n_v6 n" and m: "parse_net b = Some m" "\<not> n_v6 m"
      using v4_addrs_none by meson
    note w = n(1) [THEN parse_net_wf] m(1) [THEN parse_net_wf]
    have "net_addrs m \<subseteq> net_addrs n \<or> net_addrs n \<subseteq> net_addrs m \<or> net_addrs n \<inter> net_addrs m = {}"
      using nested_or_disjoint [OF w] contains_iff_subset [OF w] contains_iff_subset [OF w(2,1)] by blast
    then have "v4_addrs b \<subseteq> v4_addrs a \<or> v4_addrs a \<subseteq> v4_addrs b \<or> v4_addrs a \<inter> v4_addrs b = {}"
      unfolding v4_addrs_parsed [OF n] v4_addrs_parsed [OF m] by blast
    with True show ?thesis unfolding net_overlaps_def contains_net_subset by blast
  qed
  then show ?thesis by (auto simp: contains_net_subset)
qed

lemma dotted_quad_nonempty [simp]: "dotted_quad a \<noteq> []"
  by (simp add: dotted_quad_def)

lemma bit_host_mask4:
  assumes "n_plen n \<le> 32" "i < 32"
  shows "bit (host_mask4 n) i \<longleftrightarrow> i < 32 - n_plen n"
proof -
  have "bit (u_lo (ones 32 (n_plen n))) i \<longleftrightarrow> 32 - n_plen n \<le> i \<and> i < 32"
    using ubit_ones32 [OF assms(1), of i] assms(2) by (simp add: ubit_def)
  with assms(2) show ?thesis by (auto simp: host_mask4_def bit_simps)
qed

text \<open>
  The address and the wildcard that \<open>CiscoWildcard\<close> prints for an IPv4 network select, by the
  access-list rule (compare the bits the wildcard leaves clear), exactly the network's addresses.
\<close>

theorem cisco_wildcard_selects_network:
  assumes "parse_net s = Some n" "\<not> n_v6 n"
  shows "cisco_wildcard s = dotted_quad (net_ip4 n) @ '' '' @ dotted_quad (host_mask4 n) \<and>
    (\<forall>a. a AND NOT (host_mask4 n) = net_ip4 n AND NOT (host_mask4 n) \<longleftrightarrow> (False, mk128 0 (ucast a)) \<in> net_addrs n)"
proof -
  have wf: "wf_net n" using assms(1) by (rule parse_net_wf)
  have w: "net_width n = 32" using assms(2) by (simp add: net_width_def)
  have p: "n_plen n \<le> 32" using wf_netD(1) [OF wf] w by simp
  have "a AND NOT (host_mask4 n) = net_ip4 n AND NOT (host_mask4 n) \<longleftrightarrow> (False, mk128 0 (ucast a)) \<in> net_addrs n"
    for a :: "32 word"
  proof -
    have u: "ubit (mk128 0 (ucast a)) i = bit a i" "ubit (n_ip n) i = bit (net_ip4 n) i" if "i < 32" for i
      using that by (simp_all add: ubit_def net_ip4_def bit_simps)
    have f: "fits 32 (mk128 0 (ucast a))"
      by (auto simp: fits_def ubit_def bit_simps dest: bit_imp_le_length)
    have "a AND NOT (host_mask4 n) = net_ip4 n AND NOT (host_mask4 n) \<longleftrightarrow>
        (\<forall>i < 32. 32 - n_plen n \<le> i \<longrightarrow> bit a i = bit (net_ip4 n) i)"
    proof -
      have "a AND NOT (host_mask4 n) = net_ip4 n AND NOT (host_mask4 n) \<longleftrightarrow>
          (\<forall>i < 32. bit (a AND NOT (host_mask4 n)) i = bit (net_ip4 n AND NOT (host_mask4 n)) i)"
        by (auto simp: bit_eq_iff dest: bit_imp_le_length)
      then show ?thesis using bit_host_mask4 [OF p] by (auto simp: bit_simps not_less)
    qed
    then show ?thesis using u f by (auto simp: mem_net_addrs [OF wf] w assms(2))
  qed
  then show ?thesis using assms by (simp add: cisco_wildcard_def)
qed

theorem cisco_wildcard_selects_network_witness:
  "cisco_wildcard ''10.1.0.0/16'' = ''10.1.0.0 0.0.255.255''"
proof -
  let ?n = "\<lparr>n_v6 = False, n_ip = mk128 0 0x0A010000, n_plen = 16, n_scope = []\<rparr>"
  have "parse_net ''10.1.0.0/16'' = Some ?n" by code_simp
  then have "cisco_wildcard ''10.1.0.0/16'' = dotted_quad (net_ip4 ?n) @ '' '' @ dotted_quad (host_mask4 ?n)"
    using cisco_wildcard_selects_network [of "''10.1.0.0/16''" ?n] by simp
  also have "\<dots> = ''10.1.0.0 0.0.255.255''" by code_simp
  finally show ?thesis .
qed

text \<open>
  An accepted SNMP client is a canonical IPv4 network that does not allow every address, and
  the host form of an address is such a client.
\<close>

theorem snmp_client_ok:
  "(snmp_client_problem s = None \<longleftrightarrow>
      canonical s = s \<and> (\<exists>n. parse_net s = Some n \<and> \<not> n_v6 n \<and> 0 < n_plen n)) \<and>
   (host32 addr \<noteq> [] \<longrightarrow> snmp_client_problem (host32 addr) = None)"
proof -
  have "snmp_client_problem (host32 addr) = None" if h: "host32 addr \<noteq> []"
  proof -
    from h obtain n where n: "parse_net addr = Some n" "\<not> n_v6 n" "n_plen n = 32" "host32 addr = net_string n"
      by (auto simp: host32_def split: if_splits option.splits)
    then have "parse_net (net_string n) = Some n" by (simp add: parse_net_string parse_net_wf)
    with n show ?thesis by (simp add: snmp_client_problem_def)
  qed
  then show ?thesis by (auto simp: snmp_client_problem_def canonical_def split: option.splits)
qed

theorem snmp_client_ok_witness: "snmp_client_problem (host32 ''10.1.2.3'') = None"
proof -
  have "host32 ''10.1.2.3'' \<noteq> []" by code_simp
  then show ?thesis using snmp_client_ok by blast
qed

lemma overlap_warnings_iff:
  "(a, b) \<in> set (overlap_warnings cs) \<longleftrightarrow>
     (\<exists>i j. i < j \<and> j < length cs \<and> overlap_pair (cs ! i) (cs ! j) = Some (a, b))"
proof (induction cs)
  case Nil
  then show ?case by simp
next
  case (Cons c cs)
  have "(\<exists>i j. i < j \<and> j < length (c # cs) \<and> overlap_pair ((c # cs) ! i) ((c # cs) ! j) = Some (a, b)) \<longleftrightarrow>
      (\<exists>j < length cs. overlap_pair c (cs ! j) = Some (a, b)) \<or>
      (\<exists>i j. i < j \<and> j < length cs \<and> overlap_pair (cs ! i) (cs ! j) = Some (a, b))"
    (is "?L \<longleftrightarrow> ?A \<or> ?B")
  proof
    assume ?L
    then obtain i j where "i < j" "j < length (c # cs)" "overlap_pair ((c # cs) ! i) ((c # cs) ! j) = Some (a, b)" by blast
    then show "?A \<or> ?B" by (cases i; cases j) auto
  next
    assume "?A \<or> ?B"
    then show ?L
    proof
      assume ?A
      then obtain j where "j < length cs" "overlap_pair c (cs ! j) = Some (a, b)" by blast
      then show ?L by (intro exI [of _ 0] exI [of _ "Suc j"]) simp
    next
      assume ?B
      then obtain i j where "i < j" "j < length cs" "overlap_pair (cs ! i) (cs ! j) = Some (a, b)" by blast
      then show ?L by (intro exI [of _ "Suc i"] exI [of _ "Suc j"]) simp
    qed
  qed
  moreover have "(a, b) \<in> set (List.map_filter (overlap_pair c) cs) \<longleftrightarrow> ?A"
    by (force simp: map_filter_def in_set_conv_nth)
  ultimately show ?case using Cons.IH by auto
qed

end
