(* ===== verification/Tier.thy ===== *)
theory Tier
  imports NameFormats
begin

text \<open>
  \<open>internal/tier/tier.go\<close>: what a caller behind sudo may run. The table of rows is the code's, its help
  notes apart; the gate reads the table and the sudoers drop-in prints it. What the gate asks of the
  system and of the model (\<open>getent\<close>, \<open>id\<close>, the priv-lvl and the tier setting of a group) is a record of
  functions.
\<close>

section \<open>Tiers\<close>

datatype tier = NoTier | Readonly | Operator | Engineer | Superuser | Unrestricted

definition managed :: "tier list" where
  "managed = [Readonly, Operator, Engineer, Superuser]"

text \<open>\<open>Rank\<close>: the place in \<open>Managed\<close>, -1 for the others.\<close>

fun tier_rank :: "tier \<Rightarrow> int" where
  "tier_rank Readonly = 0"
| "tier_rank Operator = 1"
| "tier_rank Engineer = 2"
| "tier_rank Superuser = 3"
| "tier_rank _ = -1"

text \<open>The names of the tiers; a setting is a name, and \<open>Tier(setting)\<close> has a rank if it is a managed one.\<close>

fun tier_name :: "tier \<Rightarrow> string" where
  "tier_name NoTier = ''none''"
| "tier_name Readonly = ''readonly''"
| "tier_name Operator = ''operator''"
| "tier_name Engineer = ''engineer''"
| "tier_name Superuser = ''superuser''"
| "tier_name Unrestricted = ''unrestricted''"

definition managed_tier :: "string \<Rightarrow> tier option" where
  "managed_tier setting = find (\<lambda>t. setting = tier_name t) managed"

definition digits_only :: "string \<Rightarrow> bool" where
  "digits_only s \<longleftrightarrow> s \<noteq> [] \<and> list_all is_digit s"

definition for_priv_lvl :: "string \<Rightarrow> tier" where
  "for_priv_lvl lvl =
     (if \<not> digits_only lvl then NoTier
      else case parse_int64 lvl of
        None \<Rightarrow> Superuser
      | Some n \<Rightarrow> if n \<ge> 15 then Superuser else if n \<ge> 7 then Operator else Readonly)"

definition for_group :: "string \<Rightarrow> string \<Rightarrow> tier" where
  "for_group setting lvl =
     (let t = for_priv_lvl lvl
      in if t = NoTier \<or> setting = [] then t
         else case managed_tier setting of Some s \<Rightarrow> s | None \<Rightarrow> Readonly)"

section \<open>The table\<close>

record tier_rule =
  r_tier :: tier
  r_cmd :: string
  r_sub :: string
  r_any :: bool
  r_sudoers :: "string list"
  r_wrap :: bool

definition row :: "tier \<Rightarrow> string \<Rightarrow> string \<Rightarrow> bool \<Rightarrow> string list \<Rightarrow> bool \<Rightarrow> tier_rule" where
  "row t cmd sub anysub pats wrap =
     \<lparr>r_tier = t, r_cmd = cmd, r_sub = sub, r_any = anysub, r_sudoers = pats, r_wrap = wrap\<rparr>"

definition readonly_rules :: "tier_rule list" where
  "readonly_rules =
     [row Readonly [] [] True [[CHR 0x22, CHR 0x22]] False,
      row Readonly ''passwd'' [] True [''passwd''] False,
      row Readonly ''status'' [] True [''status''] False,
      row Readonly ''version'' [] True [''version'', ''version --long''] True,
      row Readonly ''help'' [] False [''help''] False,
      row Readonly ''-h'' [] False [''-h''] False,
      row Readonly ''--help'' [] False [''--help''] True,
      row Readonly ''user'' ''list'' False [''user list''] False,
      row Readonly ''user'' ''show'' False [''user show *''] False,
      row Readonly ''group'' ''list'' False [''group list''] False,
      row Readonly ''group'' ''show'' False [''group show *''] False,
      row Readonly ''scope'' ''list'' False [''scope list''] True,
      row Readonly ''backend'' ''list'' False [''backend list''] False,
      row Readonly ''backend'' ''status'' False [''backend status'', ''backend status *''] True,
      row Readonly ''ssh'' [] True [''ssh *''] False,
      row Readonly ''device'' ''list'' False [''device list'', ''device list *''] False,
      row Readonly ''device'' ''show'' False [''device show *''] False,
      row Readonly ''device'' ''reports'' False [''device reports'', ''device reports *''] False,
      row Readonly ''device'' ''notice'' False [''device notice list'', ''device notice list *''] False,
      row Readonly ''device'' ''ssh'' False [''device ssh *''] False,
      row Readonly ''device'' ''client-config'' False [''device client-config''] True,
      row Readonly ''_completion-names'' [] True [''_completion-names *''] False,
      row Readonly ''_console-policy'' [] True [''_console-policy''] False,
      row Readonly ''--version'' [] True [] False,
      row Readonly ''-v'' [] True [] False,
      row Readonly ''hash'' [] True [] False,
      row Readonly ''completion'' [] True [] False,
      row Readonly ''man'' [] True [] False]"

definition operator_rules :: "tier_rule list" where
  "operator_rules =
     [row Operator ''log'' ''tail'' False [''log tail'', ''log tail *''] False,
      row Operator ''log'' ''search'' False [''log search *''] True,
      row Operator ''log'' ''failures'' False [''log failures'', ''log failures *''] False,
      row Operator ''log'' ''accounting'' False [''log accounting'', ''log accounting *''] True,
      row Operator ''config'' ''validate'' False [''config validate'', ''config validate --json''] False,
      row Operator ''backup'' ''list'' False [''backup list''] True,
      row Operator ''device'' ''check'' False [''device check *''] False,
      row Operator ''device'' ''scan'' False [''device scan'', ''device scan *''] False,
      row Operator ''device'' ''discover'' False [''device discover'', ''device discover *''] False,
      row Operator ''device'' ''export'' False [''device export'', ''device export *''] True,
      row Operator ''device'' ''config'' False [''device config'', ''device config list'', ''device config list *''] True,
      row Operator ''console'' ''show'' False [''console show''] False,
      row Operator ''console'' ''check'' False [''console check''] False,
      row Operator ''console'' ''system-shell'' False [''console system-shell'', ''console system-shell readonly'', ''console system-shell operator'', ''console system-shell engineer'', ''console system-shell superuser'', ''console system-shell path'', ''console system-shell user *''] False,
      row Operator ''console'' ''password-cache'' False [''console password-cache'', ''console password-cache on'', ''console password-cache off''] False,
      row Operator ''console'' ''forget'' False [''console forget''] False]"

definition engineer_rules :: "tier_rule list" where
  "engineer_rules =
     [row Engineer ''device'' ''add'' False [''device add *''] False,
      row Engineer ''device'' ''remove'' False [''device remove *''] False,
      row Engineer ''device'' ''rename'' False [''device rename *''] True,
      row Engineer ''device'' ''address'' False [''device address *''] False,
      row Engineer ''device'' ''hostname'' False [''device hostname *''] False,
      row Engineer ''device'' ''vendor'' False [''device vendor *''] False,
      row Engineer ''device'' ''port'' False [''device port *''] True,
      row Engineer ''device'' ''description'' False [''device description *''] False,
      row Engineer ''device'' ''location'' False [''device location *''] False,
      row Engineer ''device'' ''legacy-ssh'' False [''device legacy-ssh *''] False,
      row Engineer ''device'' ''ios-syntax'' False [''device ios-syntax *''] False,
      row Engineer ''device'' ''hostkey'' False [''device hostkey *''] False,
      row Engineer ''device'' ''import'' False [''device import -'', ''device import - *''] True,
      row Engineer ''scope'' ''devices'' False [''scope devices *''] True,
      row Engineer ''device'' ''config'' False [''device config show *'', ''device config pull *'', ''device config diff *'', ''device config plan *'', ''device config apply *''] False,
      row Engineer ''device'' ''enroll'' False [''device enroll *''] False,
      row Engineer ''device'' ''collect'' False [''device collect *''] False,
      row Engineer ''device'' ''onboard'' False [''device onboard *''] False,
      row Engineer ''device'' ''sync'' False [''device sync *''] False,
      row Engineer ''device'' ''support-bundle'' False [''device support-bundle *''] False,
      row Engineer ''device'' ''clone'' False [''device clone *''] False,
      row Engineer ''config'' ''cisco'' False [''config cisco'', ''config cisco *''] False,
      row Engineer ''config'' ''juniper'' False [''config juniper'', ''config juniper *''] False,
      row Engineer ''config'' ''wti'' False [''config wti'', ''config wti *''] True,
      row Engineer ''host'' ''list'' False [''host list'', ''host list --json''] False,
      row Engineer ''host'' ''show'' False [''host show *''] True,
      row Engineer ''scope'' ''staging'' False [''scope staging'', ''scope staging list''] False,
      row Engineer ''scope'' ''secret'' False [''scope secret *''] False,
      row Engineer ''scope'' ''snmp'' False [''scope snmp *''] False,
      row Engineer ''scope'' ''mgmt-acl'' False [''scope mgmt-acl * mode''] False,
      row Engineer ''device'' ''snmp'' False [''device snmp *''] False,
      row Engineer ''scope'' ''block'' False [''scope block *''] False,
      row Engineer ''device'' ''block'' False [''device block *''] False,
      row Engineer ''scope'' ''show'' False [''scope show *''] False,
      row Engineer ''breakglass'' ''list'' False [''breakglass list'', ''breakglass list *''] False]"

definition tier_rules :: "tier_rule list" where
  "tier_rules = readonly_rules @ operator_rules @ engineer_rules"

definition covers :: "tier \<Rightarrow> tier_rule \<Rightarrow> bool" where
  "covers t r \<longleftrightarrow> tier_rank t \<ge> tier_rank (r_tier r) \<and> tier_rank (r_tier r) \<ge> 0"

definition rule_matches :: "string \<Rightarrow> string \<Rightarrow> tier_rule \<Rightarrow> bool" where
  "rule_matches cmd sub r \<longleftrightarrow> r_cmd r = cmd \<and> (r_any r \<or> r_sub r = sub)"

definition permits :: "tier \<Rightarrow> string \<Rightarrow> string \<Rightarrow> bool" where
  "permits t cmd sub =
     (case t of
        Unrestricted \<Rightarrow> True
      | Superuser \<Rightarrow> True
      | NoTier \<Rightarrow> False
      | _ \<Rightarrow> list_ex (\<lambda>r. covers t r \<and> rule_matches cmd sub r) tier_rules)"

section \<open>The drop-in\<close>

definition newline :: string where
  "newline = [CHR 0x0A]"

definition tacctl_binary :: string where
  "tacctl_binary = ''/usr/local/bin/tacctl''"

text \<open>The patterns of the rows of one tier, a line ending after a row that wraps.\<close>

fun sudoers_lines :: "tier \<Rightarrow> tier_rule list \<Rightarrow> string list \<Rightarrow> string list list" where
  "sudoers_lines t [] cur = (if cur \<noteq> [] then [cur] else [])"
| "sudoers_lines t (r # rs) cur =
     (if r_tier r \<noteq> t \<or> r_sudoers r = [] then sudoers_lines t rs cur
      else let cur = cur @ map (\<lambda>p. tacctl_binary @ '' '' @ p) (r_sudoers r)
           in if r_wrap r then cur # sudoers_lines t rs [] else sudoers_lines t rs cur)"

text \<open>One alias: the first line carries its name, every line but the last a continuation.\<close>

fun alias_lines :: "string \<Rightarrow> bool \<Rightarrow> string list list \<Rightarrow> string" where
  "alias_lines nm first [] = []"
| "alias_lines nm first (l # ls) =
     (if first then ''Cmnd_Alias '' @ nm @ '' = '' else ''    '') @ join '', '' l @
     (if ls \<noteq> [] then '', '' @ [CHR 0x5C] else []) @ newline @ alias_lines nm False ls"

definition sudoers_alias :: "tier_rule list \<Rightarrow> string \<times> tier \<Rightarrow> string" where
  "sudoers_alias rs a = alias_lines (fst a) True (sudoers_lines (snd a) rs [])"

definition quote :: string where
  "quote = [CHR 0x22]"

definition env_keep :: string where
  "env_keep = ''Defaults!'' @ tacctl_binary @ '' env_keep += '' @ quote @
     ''SSH_AUTH_SOCK TACCTL_CONSOLE DISPLAY NO_COLOR TACCTL_COLOR'' @ quote @ newline"

definition command_alias :: "string \<Rightarrow> string list list \<Rightarrow> string \<Rightarrow> string" where
  "command_alias nm ls vars =
     ''Cmnd_Alias '' @ nm @ '' = '' @
     join ('', '' @ [CHR 0x5C] @ newline @ ''    '') (map (\<lambda>l. join '', '' (map (\<lambda>p. tacctl_binary @ '' '' @ p) l)) ls) @ newline @
     ''Defaults!'' @ nm @ '' env_keep += '' @ quote @ vars @ quote @ newline"

definition askpass_keep :: "string \<Rightarrow> string" where
  "askpass_keep nm =
     command_alias nm
       [[''device config pull *'', ''device config diff *'', ''device config plan *''],
        [''ssh *'', ''device ssh *''],
        [''scope block * adopt *'', ''device block * adopt *''],
        [''device config apply *'', ''device onboard *'', ''device collect *''],
        [''device enroll *'']] ''TACCTL_ASKPASS''"

definition editor_keep :: "string \<Rightarrow> string" where
  "editor_keep nm =
     command_alias nm
       [[''scope block * edit *'', ''scope block * adopt *''], [''device block * edit *'', ''device block * adopt *'']]
       ''VISUAL EDITOR''"

definition sudoers_aliases :: "(string \<times> tier) list" where
  "sudoers_aliases = [(''TACCTL_RO'', Readonly), (''TACCTL_OP'', Operator), (''TACCTL_EN'', Engineer)]"

text \<open>The group lines of the drop-in: a group and the aliases its members may run without a password.\<close>

definition sudoers_grants :: "(string \<times> string list) list" where
  "sudoers_grants =
     [(''tac-superuser'', [''TACCTL_RO'', ''TACCTL_OP'', ''TACCTL_EN'']),
      (''tac-engineer'', [''TACCTL_RO'', ''TACCTL_OP'', ''TACCTL_EN'']),
      (''tac-operator'', [''TACCTL_RO'', ''TACCTL_OP'']),
      (''tac-readonly'', [''TACCTL_RO''])]"

definition sudoers_from :: "tier_rule list \<Rightarrow> string" where
  "sudoers_from rs =
     ''# Managed by tacctl. Per-tier access for tacctl users with local accounts.'' @ newline @
     ''# Remove with: tacctl config sudoers tiers remove'' @ newline @
     concat (map (sudoers_alias rs) sudoers_aliases) @ newline @
     askpass_keep ''TACCTL_ASKPASS_CMDS'' @ editor_keep ''TACCTL_EDITOR_CMDS'' @ env_keep @
     ''%tac-superuser ALL=(ALL:ALL) ALL'' @ newline @
     concat (map (\<lambda>g. ''%'' @ fst g @ '' ALL=(root) NOPASSWD: '' @ join '', '' (snd g) @ newline) sudoers_grants)"

definition sudoers :: string where
  "sudoers = sudoers_from tier_rules"

section \<open>The gate\<close>

record gate =
  g_sudo_user :: string
  g_sudo_uid :: string
  g_getent :: "string \<Rightarrow> string option"
  g_id :: "string \<Rightarrow> string option"
  g_priv_lvl :: "string \<Rightarrow> string"
  g_group_tier :: "string \<Rightarrow> string"
  g_conf_problem :: string
  g_ambiguous :: "string \<Rightarrow> string"
  g_conf_path :: string

definition users_group :: string where
  "users_group = ''tac-users''"

text \<open>\<open>VerifyCaller\<close>: the first line of \<open>getent passwd <uid>\<close> must name the user.\<close>

definition verify_caller :: "gate \<Rightarrow> bool" where
  "verify_caller g =
     (if g_sudo_uid g = [] then True
      else if \<not> digits_only (g_sudo_uid g) then False
      else case g_getent g (g_sudo_uid g) of
        None \<Rightarrow> False
      | Some out \<Rightarrow>
          (let f = split_on (CHR '':'') (fst (cut_at (CHR 0x0A) out))
           in 3 \<le> length f \<and> f ! 2 = g_sudo_uid g \<and> f ! 0 = g_sudo_user g))"

definition gate_caller :: "gate \<Rightarrow> tier" where
  "gate_caller g =
     (let caller = g_sudo_user g
      in if caller = [] \<or> caller = ''root'' then Unrestricted
         else case g_id g caller of
           None \<Rightarrow> Unrestricted
         | Some out \<Rightarrow>
             if users_group \<notin> set (go_fields out) then Unrestricted
             else if \<not> match_user caller then NoTier
             else let lvl = g_priv_lvl g caller;
                      setting = (if for_priv_lvl lvl \<noteq> NoTier then g_group_tier g caller else [])
                  in for_group setting lvl)"

datatype cap = CapNone | CapConf | CapAmbiguous

definition gate_capped :: "gate \<Rightarrow> tier \<times> tier \<times> cap" where
  "gate_capped g =
     (let t = gate_caller g
      in if tier_rank t > tier_rank Operator \<and> g_conf_problem g \<noteq> [] then (Operator, t, CapConf)
         else if tier_rank t > tier_rank Operator \<and> g_ambiguous g (g_sudo_user g) \<noteq> [] then (Operator, t, CapAmbiguous)
         else (t, t, CapNone))"

definition caller_tier :: "gate \<Rightarrow> tier" where
  "caller_tier g = (if \<not> verify_caller g then NoTier else fst (gate_capped g))"

definition engineer_bound :: "gate \<Rightarrow> bool" where
  "engineer_bound g =
     (if \<not> verify_caller g then False
      else if fst (snd (gate_capped g)) = Engineer then True
      else if g_sudo_user g = [] \<or> g_sudo_user g = ''root'' then False
      else case g_id g (g_sudo_user g) of
        None \<Rightarrow> False
      | Some out \<Rightarrow> ''tac-engineer'' \<in> set (go_fields out))"

text \<open>
  \<open>Check\<close>: the tier, whether the command is denied, the audit line and why it was refused. The wording
  of the messages to the caller is not modelled, only which one is printed.
\<close>

datatype denial = CallerMismatch | AmbiguousCap string | ConfCap | NoActiveUser | TierDenied tier

record check_result =
  c_tier :: tier
  c_denied :: "denial option"
  c_audit :: "string list"

fun cap_reason :: "cap \<Rightarrow> string" where
  "cap_reason CapNone = []"
| "cap_reason CapConf = ''conf-problem''"
| "cap_reason CapAmbiguous = ''group-ambiguous''"

definition gate_check :: "gate \<Rightarrow> string \<Rightarrow> string \<Rightarrow> check_result" where
  "gate_check g cmd sub =
     (let user = (if g_sudo_user g = [] then ''root'' else g_sudo_user g)
      in if \<not> verify_caller g
         then \<lparr>c_tier = NoTier, c_denied = Some CallerMismatch,
               c_audit = [''tier DENY user='' @ user @ '' uid='' @ g_sudo_uid g @ '' reason=sudo-user-mismatch cmd='' @ cmd @ '' '' @ sub]\<rparr>
         else case gate_capped g of (t, uncapped, why) \<Rightarrow>
           if permits t cmd sub then \<lparr>c_tier = t, c_denied = None, c_audit = []\<rparr>
           else let by_cap = (t \<noteq> uncapped \<and> permits uncapped cmd sub);
                    reason = (if by_cap then '' reason='' @ cap_reason why else [])
                in \<lparr>c_tier = t,
                    c_denied = Some (if by_cap \<and> why = CapAmbiguous then AmbiguousCap (g_ambiguous g (g_sudo_user g))
                                     else if by_cap then ConfCap
                                     else if t = NoTier then NoActiveUser else TierDenied t),
                    c_audit = [''tier DENY user='' @ user @ '' tier='' @ tier_name t @ reason @ '' cmd='' @ cmd @ '' '' @ sub]\<rparr>)"

section \<open>The order of the tiers\<close>

fun tier_level :: "tier \<Rightarrow> nat" where
  "tier_level NoTier = 0"
| "tier_level Readonly = 1"
| "tier_level Operator = 2"
| "tier_level Engineer = 3"
| "tier_level Superuser = 4"
| "tier_level Unrestricted = 5"

lemma tier_level_inj: "tier_level a = tier_level b \<Longrightarrow> a = b"
  by (cases a; cases b) simp_all

instantiation tier :: linorder
begin

definition less_eq_tier :: "tier \<Rightarrow> tier \<Rightarrow> bool" where
  "a \<le> b \<longleftrightarrow> tier_level a \<le> tier_level b"

definition less_tier :: "tier \<Rightarrow> tier \<Rightarrow> bool" where
  "a < b \<longleftrightarrow> tier_level a < tier_level b"

instance
  by intro_classes (auto simp: less_eq_tier_def less_tier_def dest: tier_level_inj)

end

lemma covers_le: "covers t r \<longleftrightarrow> r_tier r \<in> set managed \<and> t \<in> set managed \<and> r_tier r \<le> t"
  by (cases t; cases "r_tier r") (simp_all add: covers_def managed_def less_eq_tier_def)

lemma rules_managed: "r \<in> set tier_rules \<Longrightarrow> r_tier r \<in> {Readonly, Operator, Engineer}"
proof -
  have "list_all (\<lambda>r. r_tier r \<in> {Readonly, Operator, Engineer}) tier_rules" by code_simp
  then show "r \<in> set tier_rules \<Longrightarrow> r_tier r \<in> {Readonly, Operator, Engineer}" by (simp add: list_all_iff)
qed

lemma permits_iff:
  "permits t cmd sub \<longleftrightarrow> Superuser \<le> t \<or> (\<exists>r \<in> set tier_rules. r_tier r \<le> t \<and> rule_matches cmd sub r)"
proof -
  have "r_tier r \<in> set managed" if "r \<in> set tier_rules" for r
    using rules_managed [OF that] by (auto simp: managed_def)
  moreover have "\<not> r_tier r \<le> NoTier" if "r \<in> set tier_rules" for r
    using rules_managed [OF that] by (auto simp: less_eq_tier_def)
  ultimately show ?thesis
    by (cases t) (auto simp: permits_def covers_le list_ex_iff managed_def less_eq_tier_def)
qed

lemma permits_mono: "permits t cmd sub \<Longrightarrow> t \<le> u \<Longrightarrow> permits u cmd sub"
proof -
  assume p: "permits t cmd sub" and le: "t \<le> u"
  have "a \<le> t \<Longrightarrow> a \<le> u" for a using le by (rule order_trans [rotated])
  with p show "permits u cmd sub" unfolding permits_iff by blast
qed

text \<open>
  What the gate permits a tier is what the rows up to that tier name, everything from superuser up;
  so a higher tier is permitted whatever a lower one is, and a caller without a tier nothing.
\<close>

theorem permits_by_rows:
  "(permits t cmd sub \<longleftrightarrow> Superuser \<le> t \<or> (\<exists>r \<in> set tier_rules. r_tier r \<le> t \<and> rule_matches cmd sub r)) \<and>
   {c. permits (min t u) (fst c) (snd c)} = {c. permits t (fst c) (snd c)} \<inter> {c. permits u (fst c) (snd c)} \<and>
   \<not> permits NoTier cmd sub"
proof -
  have "permits (min t u) (fst c) (snd c) \<longleftrightarrow> permits t (fst c) (snd c) \<and> permits u (fst c) (snd c)" for c
    using permits_mono [of t _ _ u] permits_mono [of u _ _ t] by (cases "t \<le> u") (auto simp: min_def)
  then show ?thesis using permits_iff [of t cmd sub] by (auto simp: permits_def)
qed

section \<open>The tier of a group\<close>

text \<open>
  A group gives its members a tier only with a numeric priv-lvl; without a setting the level decides
  (15 and up superuser, 7 and up operator), and an engineer or a raise above the band comes from a setting
  that names a managed tier only: a damaged one gives readonly.
\<close>

theorem for_group_tiers:
  "for_group setting lvl =
     (if \<not> digits_only lvl then NoTier
      else if setting = [] then (if 15 \<le> dec_val lvl then Superuser else if 7 \<le> dec_val lvl then Operator else Readonly)
      else if setting = ''superuser'' then Superuser
      else if setting = ''engineer'' then Engineer
      else if setting = ''operator'' then Operator
      else Readonly)"
proof -
  have lvl: "for_priv_lvl lvl = (if \<not> digits_only lvl then NoTier
      else if 15 \<le> dec_val lvl then Superuser else if 7 \<le> dec_val lvl then Operator else Readonly)"
    by (auto simp: for_priv_lvl_def parse_int64_def)
  have "managed_tier setting =
      (if setting = ''readonly'' then Some Readonly else if setting = ''operator'' then Some Operator
       else if setting = ''engineer'' then Some Engineer else if setting = ''superuser'' then Some Superuser else None)"
    unfolding managed_tier_def managed_def find.simps tier_name.simps ..
  then have m: "(case managed_tier setting of Some s \<Rightarrow> s | None \<Rightarrow> Readonly) =
      (if setting = ''superuser'' then Superuser else if setting = ''engineer'' then Engineer
       else if setting = ''operator'' then Operator else Readonly)"
    by simp
  show ?thesis
  proof (cases "digits_only lvl \<and> setting \<noteq> []")
    case True
    then have "for_group setting lvl = (case managed_tier setting of Some s \<Rightarrow> s | None \<Rightarrow> Readonly)"
      by (simp add: for_group_def lvl)
    with m True show ?thesis by (simp only: simp_thms if_False)
  next
    case False
    then have "for_group setting lvl = for_priv_lvl lvl" by (auto simp: for_group_def lvl)
    with False lvl show ?thesis by auto
  qed
qed

section \<open>The decision\<close>

lemma capped_fst: "fst (gate_capped g) =
    (if Operator < gate_caller g \<and> gate_caller g \<noteq> Unrestricted \<and> (g_conf_problem g \<noteq> [] \<or> g_ambiguous g (g_sudo_user g) \<noteq> [])
     then Operator else gate_caller g)"
  and capped_snd: "fst (snd (gate_capped g)) = gate_caller g"
  by (cases "gate_caller g"; simp add: gate_capped_def Let_def less_tier_def)+

text \<open>
  C15: the gate runs a command exactly when the caller is who \<open>SUDO_USER\<close> says and the caller's tier permits
  it; it writes one audit line exactly when it refuses. While \<open>tacctl.yaml\<close> cannot be read, or the caller's
  group has lost its tier setting, the tier of a managed caller is the lower of its own and operator.
\<close>

theorem gate_decision:
  "(c_denied (gate_check g cmd sub) = None \<longleftrightarrow> verify_caller g \<and> permits (caller_tier g) cmd sub) \<and>
   c_tier (gate_check g cmd sub) = caller_tier g \<and>
   length (c_audit (gate_check g cmd sub)) = (if c_denied (gate_check g cmd sub) = None then 0 else 1) \<and>
   caller_tier g =
     (if \<not> verify_caller g then NoTier
      else if gate_caller g = Unrestricted then gate_caller g
      else if g_conf_problem g = [] \<and> g_ambiguous g (g_sudo_user g) = [] then gate_caller g
      else min Operator (gate_caller g))"
proof -
  obtain t u why where c: "gate_capped g = (t, u, why)" by (cases "gate_capped g") auto
  have "caller_tier g = (if \<not> verify_caller g then NoTier
      else if gate_caller g = Unrestricted then gate_caller g
      else if g_conf_problem g = [] \<and> g_ambiguous g (g_sudo_user g) = [] then gate_caller g
      else min Operator (gate_caller g))"
    by (cases "gate_caller g") (auto simp: caller_tier_def capped_fst less_tier_def less_eq_tier_def min_def)
  then show ?thesis
    by (auto simp: gate_check_def Let_def c caller_tier_def)
qed

section \<open>The drop-in grants no more than the gate\<close>

text \<open>
  How sudo matches the arguments of a command: the words joined with blanks against a pattern in which
  \<open>*\<close> stands for any characters; the pattern \<open>""\<close> is for no arguments.
\<close>

fun glob :: "string \<Rightarrow> string \<Rightarrow> bool" where
  "glob [] s = (s = [])"
| "glob (c # p) [] = (c = CHR ''*'' \<and> glob p [])"
| "glob (c # p) (x # xs) =
     (if c = CHR ''*'' then glob p (x # xs) \<or> glob (c # p) xs else c = x \<and> glob p xs)"

definition sudo_match :: "string \<Rightarrow> string list \<Rightarrow> bool" where
  "sudo_match p args = (if p = quote @ quote then args = [] else glob p (join '' '' args))"

definition arg_at :: "string list \<Rightarrow> nat \<Rightarrow> string" where
  "arg_at args i = (if i < length args then args ! i else [])"

text \<open>What the drop-in lets a member of a group run, without the superusers' line for every command.\<close>

definition sudo_allows :: "string \<Rightarrow> string list \<Rightarrow> bool" where
  "sudo_allows grp args =
     list_ex (\<lambda>g. fst g = grp \<and>
       list_ex (\<lambda>a. fst a \<in> set (snd g) \<and>
         list_ex (\<lambda>r. r_tier r = snd a \<and> list_ex (\<lambda>p. sudo_match p args) (r_sudoers r)) tier_rules)
       sudoers_aliases) sudoers_grants"

definition group_tier_of :: "string \<Rightarrow> tier" where
  "group_tier_of grp =
     (if grp = ''tac-superuser'' then Superuser else if grp = ''tac-engineer'' then Engineer
      else if grp = ''tac-operator'' then Operator else if grp = ''tac-readonly'' then Readonly else NoTier)"

definition pattern_ok :: "tier_rule \<Rightarrow> string \<Rightarrow> bool" where
  "pattern_ok r p =
     (if p = quote @ quote then r_cmd r = [] \<and> r_any r
      else let ws = split_on (CHR '' '') p
           in CHR ''*'' \<notin> set (ws ! 0) \<and> ws ! 0 \<noteq> [] \<and> r_cmd r = ws ! 0 \<and>
              (r_any r \<or> (if length ws = 1 then r_sub r = [] else CHR ''*'' \<notin> set (ws ! 1) \<and> ws ! 1 \<noteq> [] \<and> r_sub r = ws ! 1)))"

lemma patterns_ok: "r \<in> set tier_rules \<Longrightarrow> p \<in> set (r_sudoers r) \<Longrightarrow> pattern_ok r p"
proof -
  have "list_all (\<lambda>r. list_all (pattern_ok r) (r_sudoers r)) tier_rules" by code_simp
  then show "r \<in> set tier_rules \<Longrightarrow> p \<in> set (r_sudoers r) \<Longrightarrow> pattern_ok r p" by (simp add: list_all_iff)
qed

lemma glob_literal: "glob (w @ p) s \<Longrightarrow> CHR ''*'' \<notin> set w \<Longrightarrow> \<exists>t. s = w @ t \<and> glob p t"
proof (induction w arbitrary: s)
  case Nil
  then show ?case by simp
next
  case (Cons c w)
  then show ?case by (cases s) auto
qed

text \<open>The first word of a pattern without a star is the first argument, and so is the second one.\<close>

lemma glob_first:
  assumes "glob p (join '' '' args)" "split_on (CHR '' '') p = w # ws" "CHR ''*'' \<notin> set w" "w \<noteq> []"
    and "CHR '' '' \<notin> set (arg_at args 0)"
  shows "arg_at args 0 = w \<and> (ws = [] \<longrightarrow> args = [w]) \<and> (ws \<noteq> [] \<longrightarrow> args \<noteq> [w] \<and> glob (join '' '' ws) (join '' '' (tl args)))"
proof -
  have p: "p = join '' '' (w # ws)" using join_split [of "CHR '' ''" p] assms(2) by simp
  have nb: "CHR '' '' \<notin> set w" using split_on_parts [of w "CHR '' ''" p] assms(2) by simp
  have tw: "takeWhile (\<lambda>x. x \<noteq> c) (v @ c # u) = v" if "c \<notin> set v" for c :: char and v u
    using that by (induction v) auto
  obtain a as where args: "args = a # as"
    using assms(1,3,4) p by (cases args; cases w; cases ws) auto
  have na: "CHR '' '' \<notin> set a" using assms(5) args by (simp add: arg_at_def)
  show ?thesis
  proof (cases ws)
    case Nil
    with assms(1) p assms(3) have "join '' '' args = w" using glob_literal [of w "[]"] by force
    then have "split_on (CHR '' '') (join '' '' args) = [w]" using nb by (simp add: split_on_no_sep)
    moreover have "hd (split_on (CHR '' '') (join '' '' args)) = a \<and> (as \<noteq> [] \<longrightarrow> tl (split_on (CHR '' '') (join '' '' args)) \<noteq> [])"
      using na args by (cases as) (simp_all add: split_on_no_sep split_on_append_sep)
    ultimately show ?thesis using Nil args by (auto simp: arg_at_def)
  next
    case (Cons v vs)
    have "p = w @ CHR '' '' # join '' '' ws" using p Cons by simp
    then obtain t where t: "join '' '' args = (w @ '' '') @ t" "glob (join '' '' ws) t"
      using glob_literal [of "w @ '' ''" "join '' '' ws" "join '' '' args"] assms(1,3) by auto
    have eq: "takeWhile (\<lambda>x. x \<noteq> CHR '' '') (join '' '' args) = w" using t(1) tw [OF nb, of t] by simp
    have as: "as \<noteq> []"
    proof
      assume "as = []"
      then have "CHR '' '' \<in> set a" using t(1) args by simp
      with na show False by simp
    qed
    then have j: "join '' '' args = a @ CHR '' '' # join '' '' as" using args by (simp add: join_Cons)
    then have "takeWhile (\<lambda>x. x \<noteq> CHR '' '') (join '' '' args) = a" using tw [OF na] by simp
    with eq have aw: "a = w" by simp
    with j t(1) have "t = join '' '' as" by simp
    with aw as t(2) Cons args show ?thesis by (simp add: arg_at_def)
  qed
qed

lemma pattern_within:
  assumes "pattern_ok r p" "sudo_match p args" "CHR '' '' \<notin> set (arg_at args 0)" "CHR '' '' \<notin> set (arg_at args 1)"
  shows "rule_matches (arg_at args 0) (arg_at args 1) r"
proof (cases "p = quote @ quote")
  case True
  with assms show ?thesis by (simp add: pattern_ok_def sudo_match_def arg_at_def rule_matches_def)
next
  case False
  obtain w ws where w: "split_on (CHR '' '') p = w # ws"
    using split_on_nonempty [of "CHR '' ''" p] by (cases "split_on (CHR '' '') p") auto
  have g: "glob p (join '' '' args)" using assms(2) False by (simp add: sudo_match_def)
  have ok: "CHR ''*'' \<notin> set w" "w \<noteq> []" "r_cmd r = w"
    "r_any r \<or> (if ws = [] then r_sub r = [] else CHR ''*'' \<notin> set (ws ! 0) \<and> ws ! 0 \<noteq> [] \<and> r_sub r = ws ! 0)"
    using assms(1) False w by (auto simp: pattern_ok_def Let_def)
  note f = glob_first [OF g w ok(1,2) assms(3)]
  show ?thesis
  proof (cases "r_any r \<or> ws = []")
    case True
    with f ok show ?thesis by (auto simp: rule_matches_def arg_at_def)
  next
    case False
    then obtain v vs where v: "ws = v # vs" by (cases ws) auto
    with False ok have vs: "CHR ''*'' \<notin> set v" "v \<noteq> []" "r_sub r = v" by auto
    have split: "split_on (CHR '' '') (join '' '' ws) = v # vs"
      using split_join [of ws "CHR '' ''"] v split_on_parts [of _ "CHR '' ''" p] w by auto
    have tl: "arg_at (tl args) 0 = arg_at args 1" by (cases args) (auto simp: arg_at_def nth_tl)
    have "arg_at (tl args) 0 = v"
    proof -
      have "glob (join '' '' (v # vs)) (join '' '' (tl args))" using f v by simp
      moreover have "CHR '' '' \<notin> set (arg_at (tl args) 0)" using assms(4) unfolding tl .
      ultimately show ?thesis using glob_first [OF _ _ vs(1,2)] split v by blast
    qed
    with tl f ok vs show ?thesis by (simp add: rule_matches_def)
  qed
qed

text \<open>
  C13: whatever the sudoers drop-in lets a member of a tier's group run as root, the gate permits that tier:
  for a command whose first two words hold no blank, so that sudo and the gate see the same words.
\<close>

theorem sudoers_within_gate:
  assumes "sudo_allows grp args" "CHR '' '' \<notin> set (arg_at args 0)" "CHR '' '' \<notin> set (arg_at args 1)"
  shows "permits (group_tier_of grp) (arg_at args 0) (arg_at args 1)"
proof -
  obtain g a r p where g: "g \<in> set sudoers_grants" "fst g = grp" "a \<in> set sudoers_aliases" "fst a \<in> set (snd g)"
    and r: "r \<in> set tier_rules" "r_tier r = snd a" "p \<in> set (r_sudoers r)" "sudo_match p args"
    using assms(1) unfolding sudo_allows_def list_ex_iff by blast
  have "rule_matches (arg_at args 0) (arg_at args 1) r"
    by (rule pattern_within [OF patterns_ok [OF r(1,3)] r(4) assms(2,3)])
  moreover have "r_tier r \<le> group_tier_of grp"
    using g r(2) by (auto simp: sudoers_grants_def sudoers_aliases_def group_tier_of_def less_eq_tier_def)
  ultimately show ?thesis unfolding permits_iff using r(1) by blast
qed

theorem sudoers_within_gate_witness:
  "sudo_allows ''tac-operator'' [''log'', ''search'', ''x''] \<and> permits Operator ''log'' ''search''"
proof -
  have a: "sudo_allows ''tac-operator'' [''log'', ''search'', ''x'']" by code_simp
  from sudoers_within_gate [OF a] a show ?thesis by (simp add: arg_at_def group_tier_of_def)
qed

end
