(* ===== verification/Model.thy ===== *)
theory Model
  imports StoreValid
begin

text \<open>
  \<open>internal/model\<close>: the typed model that readers and renderers use (\<open>model.go\<close>), which scope answers an
  address (\<open>views.go\<close>, \<open>lookup.go\<close>, \<open>userscopes.go\<close>) and the model with members or addresses taken out
  (\<open>lockdown.go\<close>, \<open>userscopes.go\<close>, \<open>breakglass.go\<close>). The name-indexed maps beside the lists of the code are
  lookups in these lists, whose names are distinct.
\<close>

section \<open>Python's \<open>str\<close>\<close>

text \<open>
  \<open>PyRepr\<close> and \<open>PyStr\<close> of \<open>store/pyfmt.go\<close>. Whether Unicode counts a rune as printable and the digits
  of a float are parameters.
\<close>

record pyfmt =
  pf_print :: "nat \<Rightarrow> bool"
  pf_float :: "64 word \<Rightarrow> string"

definition hex_pad :: "nat \<Rightarrow> nat \<Rightarrow> string" where
  "hex_pad w n = pad_zero w (hex_digits n)"

definition repr_rune :: "pyfmt \<Rightarrow> char \<Rightarrow> string \<Rightarrow> nat \<Rightarrow> nat \<Rightarrow> string" where
  "repr_rune F q s r w =
     (let bs = CHR 0x5C
      in if r = 0xFFFD \<and> w = 1 then [bs, CHR ''x''] @ hex_pad 2 (code_of (hd s))
         else if r = 0x5C then [bs, bs]
         else if r = code_of q then [bs, q]
         else if r = 9 then [bs, CHR ''t'']
         else if r = 10 then [bs, CHR ''n'']
         else if r = 13 then [bs, CHR ''r'']
         else if r < 0x20 \<or> r = 0x7F then [bs, CHR ''x''] @ hex_pad 2 r
         else if r < 0x80 \<or> pf_print F r then take w s
         else if r < 0x100 then [bs, CHR ''x''] @ hex_pad 2 r
         else if r < 0x10000 then [bs, CHR ''u''] @ hex_pad 4 r
         else [bs, CHR ''U''] @ hex_pad 8 r)"

function repr_from :: "pyfmt \<Rightarrow> char \<Rightarrow> string \<Rightarrow> string" where
  "repr_from F q s =
     (if s = [] then [] else let (r, w) = decode_rune s in repr_rune F q s r w @ repr_from F q (drop w s))"
  by pat_completeness auto
termination
proof (relation "measure (\<lambda>(_, _, s). length s)", goal_cases)
  case (2 F q s x xa y)
  then show ?case using decode_rune_width [of s] by (cases s) (auto simp: prod_eq_iff)
qed simp_all

declare repr_from.simps [simp del]

definition repr_string :: "pyfmt \<Rightarrow> string \<Rightarrow> string" where
  "repr_string F s =
     (let q = (if CHR 0x27 \<in> set s \<and> CHR 0x22 \<notin> set s then CHR 0x22 else CHR 0x27)
      in [q] @ repr_from F q s @ [q])"

definition int_text :: "int \<Rightarrow> string" where
  "int_text i = (if i < 0 then CHR ''-'' # itoa (nat (- i)) else itoa (nat i))"

fun py_repr :: "pyfmt \<Rightarrow> yval \<Rightarrow> string" where
  "py_repr F YNull = ''None''"
| "py_repr F (YBool b) = (if b then ''True'' else ''False'')"
| "py_repr F (YInt i) = int_text i"
| "py_repr F (YFloat x) = pf_float F x"
| "py_repr F (YStr s) = repr_string F s"
| "py_repr F (YDate y m d) = ''datetime.date('' @ join '', '' [int_text y, int_text m, int_text d] @ '')''"
| "py_repr F (YList l) = ''['' @ join '', '' (map (py_repr F) l) @ '']''"
| "py_repr F (YMap m) = ''{'' @ join '', '' (map (\<lambda>p. repr_string F (fst p) @ '': '' @ py_repr F (snd p)) m) @ ''}''"

definition py_str :: "pyfmt \<Rightarrow> yval \<Rightarrow> string" where
  "py_str F v = (case v of YStr s \<Rightarrow> s | _ \<Rightarrow> py_repr F v)"

definition val_text :: "pyfmt \<Rightarrow> yval \<Rightarrow> string" where
  "val_text F v = (if v = YNull then [] else py_str F v)"

definition str_list :: "pyfmt \<Rightarrow> yval \<Rightarrow> string list" where
  "str_list F v = (case list_of_val v of Some l \<Rightarrow> map (val_text F) l | None \<Rightarrow> [])"

section \<open>The model\<close>

record group =
  g_name :: string
  g_priv :: "int option"
  g_class :: string
  g_builtin :: bool
  g_priv_text :: string
  g_class_null :: bool

record user =
  u_name :: string
  u_group :: string
  u_scopes :: "string list"
  u_hash :: string
  u_disabled :: bool
  u_changed :: string
  u_sink :: bool
  u_change_required :: bool
  u_email :: string
  u_max_size :: "int option"
  u_max_count :: "int option"

record scope =
  s_name :: string
  s_prefixes :: "string list"
  s_secret :: string
  s_protocols :: "string list"
  s_vendors :: "string list"
  s_devices :: "(string \<times> string) list"
  s_prefix_from :: "string list"
  s_device_from :: "string list"

record model =
  m_groups :: "group list"
  m_users :: "user list"
  m_scopes :: "scope list"
  m_allow :: "string list"
  m_deny :: "string list"

text \<open>\<open>sortedCopy\<close>: every mapping in key order.\<close>

fun sorted_copy :: "yval \<Rightarrow> yval" where
  "sorted_copy (YMap m) = YMap (slice_stable (\<lambda>p q. fst p < fst q) (map (\<lambda>p. (fst p, sorted_copy (snd p))) m))"
| "sorted_copy (YList l) = YList (map sorted_copy l)"
| "sorted_copy v = v"

definition int_of_val :: "yval \<Rightarrow> int option" where
  "int_of_val v = (case v of YInt i \<Rightarrow> Some i | _ \<Rightarrow> None)"

text \<open>An entry that is not a mapping is read as an empty one; a null class is one that is missing.\<close>

definition group_of :: "pyfmt \<Rightarrow> string \<times> yval \<Rightarrow> group" where
  "group_of F p =
     (let e = map_of_val (snd p); at = (\<lambda>k. case e of Some m \<Rightarrow> yval_at m k | None \<Rightarrow> YNull)
      in \<lparr>g_name = fst p, g_priv = int_of_val (at ''priv_lvl''), g_class = val_text F (at ''juniper_class''),
          g_builtin = truthy (at ''builtin''), g_priv_text = val_text F (at ''priv_lvl''),
          g_class_null = (e \<noteq> None \<and> at ''juniper_class'' = YNull)\<rparr>)"

definition user_of :: "pyfmt \<Rightarrow> string \<times> yval \<Rightarrow> user" where
  "user_of F p =
     (let e = map_of_val (snd p); at = (\<lambda>k. case e of Some m \<Rightarrow> yval_at m k | None \<Rightarrow> YNull)
      in \<lparr>u_name = fst p, u_group = val_text F (at ''group''), u_scopes = str_list F (at ''scopes''),
          u_hash = val_text F (at ''hash''), u_disabled = truthy (at ''disabled''),
          u_changed = val_text F (at ''password_changed''), u_sink = truthy (at ''accounting_sink''),
          u_change_required = truthy (at ''password_change_required''), u_email = val_text F (at ''email''),
          u_max_size = int_of_val (at ''reports_max_size''), u_max_count = int_of_val (at ''reports_max_count'')\<rparr>)"

definition scope_of_entry :: "pyfmt \<Rightarrow> string \<times> yval \<Rightarrow> scope" where
  "scope_of_entry F p =
     (let e = map_of_val (snd p); at = (\<lambda>k. case e of Some m \<Rightarrow> yval_at m k | None \<Rightarrow> YNull)
      in \<lparr>s_name = fst p, s_prefixes = str_list F (at ''prefixes''), s_secret = val_text F (at ''secret''),
          s_protocols = str_list F (at ''protocols''), s_vendors = str_list F (at ''vendor_attrs''),
          s_devices = (case map_of_val (at ''devices'') of Some d \<Rightarrow> map (\<lambda>q. (fst q, val_text F (snd q))) d | None \<Rightarrow> []),
          s_prefix_from = [], s_device_from = []\<rparr>)"

definition model_section :: "ymap \<Rightarrow> string \<Rightarrow> ymap" where
  "model_section d key = (case map_of_val (yval_at d key) of Some m \<Rightarrow> m | None \<Rightarrow> [])"

definition from_store :: "pyfmt \<Rightarrow> doc \<Rightarrow> model" where
  "from_store F d =
     (case sorted_copy (YMap d) of
        YMap s \<Rightarrow>
          \<lparr>m_groups = map (group_of F) (model_section s ''groups''),
           m_users = map (user_of F) (model_section s ''users''),
           m_scopes = map (scope_of_entry F) (model_section s ''scopes''),
           m_allow = str_list F (yval_at (model_section s ''filters'') ''allow''),
           m_deny = str_list F (yval_at (model_section s ''filters'') ''deny'')\<rparr>
      | _ \<Rightarrow> \<lparr>m_groups = [], m_users = [], m_scopes = [], m_allow = [], m_deny = []\<rparr>)"

definition find_group :: "model \<Rightarrow> string \<Rightarrow> group option" where
  "find_group m n = find (\<lambda>g. g_name g = n) (m_groups m)"

definition find_user :: "model \<Rightarrow> string \<Rightarrow> user option" where
  "find_user m n = find (\<lambda>u. u_name u = n) (m_users m)"

definition find_scope :: "model \<Rightarrow> string \<Rightarrow> scope option" where
  "find_scope m n = find (\<lambda>s. s_name s = n) (m_scopes m)"

definition user_names :: "model \<Rightarrow> string list" where
  "user_names m = sort_strings (map u_name (m_users m))"

definition group_names :: "model \<Rightarrow> string list" where
  "group_names m = sort_strings (map g_name (m_groups m))"

definition scope_names :: "model \<Rightarrow> string list" where
  "scope_names m = sort_strings (map s_name (m_scopes m))"

definition is_disabled_user :: "user \<Rightarrow> bool" where
  "is_disabled_user u \<longleftrightarrow> u_disabled u \<or> u_sink u \<or> u_hash u = []"

definition served_by :: "scope \<Rightarrow> string \<Rightarrow> bool" where
  "served_by s protocol \<longleftrightarrow> s_protocols s = [] \<or> protocol \<in> set (s_protocols s)"

definition email_holder :: "unicode \<Rightarrow> model \<Rightarrow> string \<Rightarrow> string \<Rightarrow> string" where
  "email_holder U m address except =
     (case find (\<lambda>n. case find_user m n of
                       Some u \<Rightarrow> n \<noteq> except \<and> u_email u \<noteq> [] \<and> same_email U (u_email u) address
                     | None \<Rightarrow> False) (user_names m) of
        Some n \<Rightarrow> n | None \<Rightarrow> [])"

section \<open>Which scope answers an address\<close>

record routing_pair =
  rp_cidr :: string
  rp_scope :: string
  rp_key :: cidr_key

definition prefix_origin :: "scope \<Rightarrow> nat \<Rightarrow> string" where
  "prefix_origin s i = (if i < length (s_prefix_from s) then s_prefix_from s ! i else s_prefixes s ! i)"

definition device_origin :: "scope \<Rightarrow> nat \<Rightarrow> string" where
  "device_origin s i = (if i < length (s_device_from s) then s_device_from s ! i else fst (s_devices s ! i))"

text \<open>The zero key, which \<open>SortKey\<close> returns with false.\<close>

definition zero_key :: cidr_key where
  "zero_key = \<lparr>k_version = 0, k_bcast = mk128 0 0, k_net = mk128 0 0\<rparr>"

definition origin_key :: "string \<Rightarrow> cidr_key" where
  "origin_key o1 =
     (case cidr_sort_key o1 of
        Some k \<Rightarrow> k
      | None \<Rightarrow> (case cidr_sort_key (trim_space o1) of Some k \<Rightarrow> k | None \<Rightarrow> zero_key))"

definition scope_pairs :: "scope \<Rightarrow> routing_pair list" where
  "scope_pairs s =
     List.map_filter (\<lambda>i. let c = s_prefixes s ! i
         in if canonical_cidr (YStr c) = None then None
            else Some \<lparr>rp_cidr = c, rp_scope = s_name s, rp_key = origin_key (prefix_origin s i)\<rparr>)
       [0..<length (s_prefixes s)]"

definition pair_less :: "routing_pair \<Rightarrow> routing_pair \<Rightarrow> bool" where
  "pair_less a b =
     (if rp_key a \<noteq> rp_key b then key_less (rp_key a) (rp_key b) else rp_scope a < rp_scope b)"

definition routing_pairs :: "model \<Rightarrow> routing_pair list" where
  "routing_pairs m = slice_stable pair_less (concat (map scope_pairs (m_scopes m)))"

definition pair_holds :: "network \<Rightarrow> routing_pair \<Rightarrow> bool" where
  "pair_holds q p =
     (case parse_net (rp_cidr p) of
        None \<Rightarrow> False
      | Some n \<Rightarrow> net_version n = net_version q \<and> subnet_of q n)"

definition scope_of_addr :: "model \<Rightarrow> string \<Rightarrow> string \<Rightarrow> string" where
  "scope_of_addr m address protocol =
     (case parse_net address of
        None \<Rightarrow> []
      | Some q \<Rightarrow>
          (case find (\<lambda>p. (protocol = [] \<or> (case find_scope m (rp_scope p) of Some s \<Rightarrow> served_by s protocol | None \<Rightarrow> False))
                        \<and> pair_holds q p) (routing_pairs m) of
             Some p \<Rightarrow> rp_scope p | None \<Rightarrow> []))"

record addr_info =
  ai_scope :: string
  ai_prefix :: string
  ai_tag :: string
  ai_tag_cidr :: string
  ai_shadowed :: "string list"

text \<open>The covering tag: the first of the longest device entries that hold the address.\<close>

fun best_tag :: "network \<Rightarrow> (string \<times> string) list \<Rightarrow> (network \<times> string \<times> string) option \<Rightarrow> (network \<times> string \<times> string) option" where
  "best_tag q [] best = best"
| "best_tag q (d # ds) best =
     (case parse_net (fst d) of
        None \<Rightarrow> best_tag q ds best
      | Some t \<Rightarrow>
          if net_version t \<noteq> net_version q then best_tag q ds best
          else if subnet_of q t \<and> (case best of None \<Rightarrow> True | Some (b, _) \<Rightarrow> n_plen t > n_plen b)
          then best_tag q ds (Some (t, snd d, fst d))
          else best_tag q ds best)"

definition lookup_addr :: "model \<Rightarrow> string \<Rightarrow> addr_info option" where
  "lookup_addr m address =
     (case parse_net address of
        None \<Rightarrow> None
      | Some q \<Rightarrow>
          (let ms = filter (pair_holds q) (routing_pairs m);
               nameless = takeWhile (\<lambda>p. rp_scope p = []) ms
           in case dropWhile (\<lambda>p. rp_scope p = []) ms of
                [] \<Rightarrow> None
              | p # ps \<Rightarrow>
                  (let devices = (case find_scope m (rp_scope p) of Some s \<Rightarrow> s_devices s | None \<Rightarrow> []);
                       tag = best_tag q devices None
                   in Some \<lparr>ai_scope = rp_scope p, ai_prefix = net_string (net_of (rp_cidr p)),
                            ai_tag = (case tag of Some (_, v, _) \<Rightarrow> v | None \<Rightarrow> []),
                            ai_tag_cidr = (case tag of Some (_, _, c) \<Rightarrow> c | None \<Rightarrow> []),
                            ai_shadowed = filter (\<lambda>s. s \<noteq> rp_scope p \<and> (s = [] \<longrightarrow> nameless = [])) (dedup (map rp_scope ps))\<rparr>)))"

section \<open>Members and addresses taken out\<close>

definition locked_groups :: "(string \<times> string list) list \<Rightarrow> string \<Rightarrow> string list" where
  "locked_groups locked s = (case map_of locked s of Some gs \<Rightarrow> gs | None \<Rightarrow> [])"

definition cut_member :: "(string \<times> string list) list \<Rightarrow> user \<Rightarrow> user" where
  "cut_member locked u =
     (let keep = filter (\<lambda>s. u_group u \<notin> set (locked_groups locked s)) (u_scopes u)
      in if list_ex (\<lambda>s. u_group u \<in> set (locked_groups locked s)) (u_scopes u) then u\<lparr>u_scopes := keep\<rparr> else u)"

definition without_members :: "(string \<times> string list) list \<Rightarrow> model \<Rightarrow> model" where
  "without_members locked m = (if locked = [] then m else m\<lparr>m_users := map (cut_member locked) (m_users m)\<rparr>)"

definition locked_out :: "model \<Rightarrow> string \<Rightarrow> string list \<Rightarrow> user list" where
  "locked_out m scope groups = filter (\<lambda>u. u_group u \<in> set groups \<and> scope \<in> set (u_scopes u)) (m_users m)"

definition with_user_scopes :: "(user \<Rightarrow> string list option) \<Rightarrow> model \<Rightarrow> model" where
  "with_user_scopes f m =
     m\<lparr>m_users := map (\<lambda>u. case f u of
         Some sc \<Rightarrow> if sc \<noteq> u_scopes u then u\<lparr>u_scopes := sc\<rparr> else u | None \<Rightarrow> u) (m_users m)\<rparr>"

definition without_scope :: "string \<Rightarrow> model \<Rightarrow> model" where
  "without_scope name m =
     (if name = [] \<or> find_scope m name = None then m
      else (with_user_scopes (\<lambda>u. if name \<notin> set (u_scopes u) then None else Some (filter (\<lambda>s. s \<noteq> name) (u_scopes u))) m)
             \<lparr>m_scopes := filter (\<lambda>s. s_name s \<noteq> name) (m_scopes m)\<rparr>)"

text \<open>The pieces of the prefixes of a scope, and of its tagged addresses sorted by their text, each with its origin.\<close>

definition prefix_pieces :: "string list \<Rightarrow> scope \<Rightarrow> (string \<times> string) list" where
  "prefix_pieces addrs s = concat (map (\<lambda>p. map (\<lambda>c. (c, p)) (subtract [p] addrs)) (s_prefixes s))"

definition device_pieces :: "string list \<Rightarrow> scope \<Rightarrow> ((string \<times> string) \<times> string) list" where
  "device_pieces addrs s =
     slice_stable (\<lambda>x y. fst (fst x) < fst (fst y))
       (concat (map (\<lambda>d. map (\<lambda>c. ((c, snd d), fst d)) (subtract [fst d] addrs)) (s_devices s)))"

definition carve_scope :: "string list \<Rightarrow> scope \<Rightarrow> scope" where
  "carve_scope addrs s =
     (let ps = prefix_pieces addrs s; ds = device_pieces addrs s;
          changed = list_ex (\<lambda>x. fst x \<noteq> snd x) ps \<or> length ps \<noteq> length (s_prefixes s) \<or>
                    list_ex (\<lambda>x. fst (fst x) \<noteq> snd x) ds \<or> length ds \<noteq> length (s_devices s)
      in if \<not> changed then s
         else s\<lparr>s_prefixes := map fst ps, s_prefix_from := map snd ps, s_devices := map fst ds, s_device_from := map snd ds\<rparr>)"

definition without_addresses :: "string list \<Rightarrow> model \<Rightarrow> model" where
  "without_addresses addrs m = (if addrs = [] then m else m\<lparr>m_scopes := map (carve_scope addrs) (m_scopes m)\<rparr>)"

record carve =
  c_scope :: string
  c_cidr :: string
  c_tagged :: bool

definition carved_scope :: "string \<Rightarrow> bool \<Rightarrow> scope \<Rightarrow> carve list" where
  "carved_scope addr tagged s =
     map (\<lambda>p. \<lparr>c_scope = s_name s, c_cidr = p, c_tagged = False\<rparr>) (filter (\<lambda>p. contains_addr p addr) (s_prefixes s)) @
     map (\<lambda>d. \<lparr>c_scope = s_name s, c_cidr = fst d, c_tagged = True\<rparr>)
       (filter (\<lambda>d. tagged \<and> contains_addr (fst d) addr) (s_devices s))"

definition carved_from :: "model \<Rightarrow> string \<Rightarrow> string \<Rightarrow> bool \<Rightarrow> carve list" where
  "carved_from m addr protocol tagged =
     concat (map (carved_scope addr tagged)
       (filter (\<lambda>s. protocol = [] \<or> served_by s protocol)
          (slice_stable (\<lambda>a b. s_name a < s_name b) (m_scopes m))))"

end
