(* ===== verification/ModelProps.thy ===== *)
theory ModelProps
  imports Model
begin

text \<open>
  Which scope answers an address (the least routing key of the prefixes that hold it), and what the
  carved, locked and filtered models keep of the model they come from.
\<close>

section \<open>The answering scope\<close>

lemma key_less_total: "\<not> key_less a b \<Longrightarrow> \<not> key_less b a \<Longrightarrow> a = b"
  by (cases a; cases b) (auto simp: key_less_uval uval_inj)

interpretation pair_order: strict_weak pair_less
proof (unfold_locales, goal_cases)
  case (1 x)
  then show ?case by (simp add: pair_less_def)
next
  case (2 x y z)
  then show ?case
    by (auto simp: pair_less_def dest: routing_order.trans routing_order.asym split: if_splits)
next
  case (3 x y z)
  then show ?case
    using routing_order.incomp_trans key_less_total routing_order.irrefl
    by (auto simp: pair_less_def split: if_splits)
qed

lemma pair_less_total: "\<not> pair_less a b \<Longrightarrow> \<not> pair_less b a \<Longrightarrow> rp_key a = rp_key b \<and> rp_scope a = rp_scope b"
  by (auto simp: pair_less_def dest: key_less_total split: if_splits)

lemma sorted_find_least:
  assumes "sorted_wrt (\<lambda>x y. \<not> pair_less y x) xs" "find P xs = Some p"
  shows "p \<in> set xs \<and> P p \<and> (\<forall>x \<in> set xs. P x \<longrightarrow> \<not> pair_less x p)"
  using assms by (induction xs) (auto simp: pair_order.irrefl split: if_splits)

text \<open>The scope of the first eligible pair depends only on the keys and scopes of the eligible pairs.\<close>

definition answer :: "(routing_pair \<Rightarrow> bool) \<Rightarrow> routing_pair list \<Rightarrow> string" where
  "answer P xs = (case find P xs of Some p \<Rightarrow> rp_scope p | None \<Rightarrow> [])"

lemma answer_cong:
  assumes "(\<lambda>p. (rp_key p, rp_scope p)) ` {p \<in> set xs. P p} = (\<lambda>p. (rp_key p, rp_scope p)) ` {p \<in> set ys. Q p}"
  shows "answer P (slice_stable pair_less xs) = answer Q (slice_stable pair_less ys)"
proof (cases "find P (slice_stable pair_less xs)")
  case None
  then have "{p \<in> set xs. P p} = {}" by (auto simp: find_None_iff)
  with assms have "{p \<in> set ys. Q p} = {}" by simp
  then have "find Q (slice_stable pair_less ys) = None" by (auto simp: find_None_iff)
  with None show ?thesis by (simp add: answer_def)
next
  case (Some p)
  note p = sorted_find_least [OF pair_order.sorted this]
  have "find Q (slice_stable pair_less ys) \<noteq> None"
  proof
    assume "find Q (slice_stable pair_less ys) = None"
    then have "{p \<in> set ys. Q p} = {}" by (auto simp: find_None_iff)
    with assms p show False by auto
  qed
  then obtain q where q: "find Q (slice_stable pair_less ys) = Some q" by auto
  note q' = sorted_find_least [OF pair_order.sorted q]
  have kp: "\<not> pair_less x p" if "(rp_key x, rp_scope x) \<in> (\<lambda>p. (rp_key p, rp_scope p)) ` {p \<in> set xs. P p}" for x
    using that p by (auto simp: pair_less_def)
  have kq: "\<not> pair_less x q" if "(rp_key x, rp_scope x) \<in> (\<lambda>p. (rp_key p, rp_scope p)) ` {p \<in> set ys. Q p}" for x
    using that q' by (auto simp: pair_less_def)
  have "(rp_key q, rp_scope q) \<in> (\<lambda>p. (rp_key p, rp_scope p)) ` {p \<in> set xs. P p}"
    unfolding assms using q' by auto
  then have "\<not> pair_less q p" by (rule kp)
  moreover have "(rp_key p, rp_scope p) \<in> (\<lambda>p. (rp_key p, rp_scope p)) ` {p \<in> set ys. Q p}"
    unfolding assms [symmetric] using p by auto
  then have "\<not> pair_less p q" by (rule kq)
  ultimately have "rp_scope p = rp_scope q" using pair_less_total by blast
  with Some q show ?thesis by (simp add: answer_def)
qed

lemma host_addr:
  assumes "wf_net q" "is_host q"
  shows "net_addrs q = {(n_v6 q, n_ip q)}"
proof -
  have w: "n_plen q = net_width q" using assms(2) by (simp add: is_host_def net_width_def)
  have "a = n_ip q" if "(f, a) \<in> net_addrs q" for f a
  proof (rule ubit_eqI)
    fix i
    show "ubit a i = ubit (n_ip q) i"
    proof (cases "i < net_width q")
      case True
      with that w show ?thesis by (simp add: mem_net_addrs [OF assms(1)])
    next
      case False
      have "\<not> ubit x i" if "fits (net_width q) x" for x
        using that False ubit_ge [of i x] by (cases "i < 128") (auto simp: fits_def)
      with that wf_netD(2) [OF assms(1)] show ?thesis by (simp add: mem_net_addrs [OF assms(1)])
    qed
  qed
  then show ?thesis using net_ip_mem [OF assms(1)] by (auto simp: mem_net_addrs [OF assms(1)])
qed

lemma pair_holds_addrs:
  assumes "wf_net q"
  shows "pair_holds q p \<longleftrightarrow> net_addrs q \<subseteq> addrs_of (rp_cidr p) \<and> parse_net (rp_cidr p) \<noteq> None"
proof (cases "parse_net (rp_cidr p)")
  case None
  then show ?thesis by (simp add: pair_holds_def)
next
  case (Some n)
  then have n: "wf_net n" by (rule parse_net_wf)
  have "subnet_of q n \<Longrightarrow> net_version n = net_version q" by (auto simp: subnet_of_def split: if_splits)
  with Some subnet_of_subset [OF assms n] show ?thesis by (auto simp: pair_holds_def)
qed

section \<open>Addresses carved out\<close>

definition stored_prefixes_ok :: "model \<Rightarrow> bool" where
  "stored_prefixes_ok m \<longleftrightarrow>
     (\<forall>s \<in> set (m_scopes m). s_prefix_from s = [] \<and> (\<forall>p \<in> set (s_prefixes s). canonical_cidr (YStr p) = Some p))"

text \<open>The hosts of the held addresses.\<close>

definition held_addrs :: "string list \<Rightarrow> fam_addr set" where
  "held_addrs addrs = \<Union> (addrs_of ` set addrs)"

lemma canonical_fixed_parse: "canonical_cidr (YStr p) = Some p \<Longrightarrow> \<exists>n. parse_net p = Some n \<and> wf_net n"
  using canonical_cidr_Some [of "YStr p" p] parse_net_string by auto

lemma net_string_fixed: "wf_net n \<Longrightarrow> canonical_cidr (YStr (net_string n)) = Some (net_string n)"
  using net_string_ends [of n] plain_ends_strip [of "net_string n"]
  by (simp add: canonical_cidr_def canonical_def parse_net_string net_string_nonempty)

lemma holes_wf: "\<forall>h \<in> set (parsed_holes addrs). wf_net h"
  by (auto simp: parsed_holes_def map_filter_def parse_net_wf)

lemma subtract_single: "subtract [p] addrs = subtract_one (parsed_holes addrs) p"
  by (simp add: subtract_def)

lemma subtract_single_covers: "\<Union> (addrs_of ` set (subtract [p] addrs)) = addrs_of p - held_addrs addrs"
  unfolding subtract_single subtract_one_covers [OF holes_wf] held_addrs_def parsed_holes_covers ..

lemma subtract_piece_fixed:
  assumes "canonical_cidr (YStr p) = Some p" "c \<in> set (subtract [p] addrs)"
  shows "canonical_cidr (YStr c) = Some c"
proof -
  obtain n where n: "parse_net p = Some n" "wf_net n" using canonical_fixed_parse [OF assms(1)] by blast
  have "\<forall>x \<in> set (minus_holes (parsed_holes addrs) [n]). wf_net x" using wf_minus_holes [OF n(2) holes_wf] by blast
  with assms n net_string_fixed show ?thesis by (auto simp: subtract_single subtract_one_def split: if_splits)
qed

text \<open>A prefix that meets a held address has no piece equal to itself, so a scope reported unchanged is unchanged.\<close>

lemma subtract_keeps:
  assumes "canonical_cidr (YStr p) = Some p" "p \<in> set (subtract [p] addrs)"
  shows "subtract [p] addrs = [p]"
proof (rule ccontr)
  assume ne: "subtract [p] addrs \<noteq> [p]"
  have "addrs_of p \<subseteq> addrs_of p - held_addrs addrs" using assms(2) subtract_single_covers [of p addrs] by blast
  then have "addrs_of p \<inter> \<Union> (net_addrs ` set (parsed_holes addrs)) = {}"
    unfolding parsed_holes_covers held_addrs_def by blast
  with subtract_one_outside [OF holes_wf] ne show False by (simp add: subtract_single)
qed

definition pieces_of :: "string list \<Rightarrow> string list \<Rightarrow> (string \<times> string) list" where
  "pieces_of addrs ps = concat (map (\<lambda>p. map (\<lambda>c. (c, p)) (subtract [p] addrs)) ps)"

lemma prefix_pieces_of: "prefix_pieces addrs s = pieces_of addrs (s_prefixes s)"
  by (simp add: prefix_pieces_def pieces_of_def)

lemma pieces_of_mem: "x \<in> set (pieces_of addrs ps) \<longleftrightarrow> snd x \<in> set ps \<and> fst x \<in> set (subtract [snd x] addrs)"
  by (cases x) (auto simp: pieces_of_def)

lemma pieces_of_Cons: "pieces_of addrs (p # ps) = map (\<lambda>c. (c, p)) (subtract [p] addrs) @ pieces_of addrs ps"
  by (simp add: pieces_of_def)

lemma pieces_of_same: "\<forall>p \<in> set ps. subtract [p] addrs = [p] \<Longrightarrow> pieces_of addrs ps = map (\<lambda>p. (p, p)) ps"
  by (induction ps) (simp_all add: pieces_of_Cons, simp add: pieces_of_def)

lemma pieces_unchanged:
  assumes "\<forall>p \<in> set ps. canonical_cidr (YStr p) = Some p"
    and "\<forall>x \<in> set (pieces_of addrs ps). fst x = snd x" "length (pieces_of addrs ps) = length ps"
  shows "\<forall>p \<in> set ps. subtract [p] addrs = [p]"
proof -
  have one: "subtract [p] addrs = [] \<or> subtract [p] addrs = [p]" if p: "p \<in> set ps" for p
  proof (cases "subtract [p] addrs")
    case (Cons c cs)
    then have "(c, p) \<in> set (pieces_of addrs ps)" using p unfolding pieces_of_mem by simp
    with assms(2) have "fst (c, p) = snd (c, p)" by blast
    with Cons have "p \<in> set (subtract [p] addrs)" by simp
    with subtract_keeps assms(1) p show ?thesis by blast
  qed simp
  have le: "length (pieces_of addrs qs) \<le> length qs \<and>
      (length (pieces_of addrs qs) = length qs \<longrightarrow> (\<forall>p \<in> set qs. subtract [p] addrs = [p]))"
    if "set qs \<subseteq> set ps" for qs
    using that
  proof (induction qs)
    case Nil
    then show ?case by (simp add: pieces_of_def)
  next
    case (Cons p qs)
    then have "p \<in> set ps" "set qs \<subseteq> set ps" by simp_all
    then consider "subtract [p] addrs = []" | "subtract [p] addrs = [p]" using one by blast
    then show ?case
      by cases (use Cons.IH [OF \<open>set qs \<subseteq> set ps\<close>] in \<open>simp_all add: pieces_of_Cons\<close>)
  qed
  from le [of ps] assms(3) show ?thesis by blast
qed

text \<open>The eligible pairs of a scope whose prefixes are canonical, before and after the carve.\<close>

definition eligible :: "model \<Rightarrow> string \<Rightarrow> network \<Rightarrow> routing_pair \<Rightarrow> bool" where
  "eligible m protocol q p \<longleftrightarrow>
     (protocol = [] \<or> (case find_scope m (rp_scope p) of Some s \<Rightarrow> served_by s protocol | None \<Rightarrow> False)) \<and> pair_holds q p"

lemma scope_of_addr_answer:
  "parse_net address = Some q \<Longrightarrow> scope_of_addr m address protocol = answer (eligible m protocol q) (routing_pairs m)"
  by (simp add: scope_of_addr_def answer_def eligible_def [abs_def])

lemma map_filter_all: "\<forall>x \<in> set xs. f x = Some (g x) \<Longrightarrow> List.map_filter f xs = map g xs"
  by (induction xs) (auto simp: List.map_filter_simps)

lemma scope_pairs_map:
  assumes "\<forall>p \<in> set (s_prefixes s). canonical_cidr (YStr p) = Some p"
  shows "scope_pairs s = map (\<lambda>i. \<lparr>rp_cidr = s_prefixes s ! i, rp_scope = s_name s, rp_key = origin_key (prefix_origin s i)\<rparr>)
    [0..<length (s_prefixes s)]"
  unfolding scope_pairs_def using assms by (intro map_filter_all) (auto simp: Let_def)

lemma scope_pairs_plain:
  assumes "s_prefix_from s = []" "\<forall>p \<in> set (s_prefixes s). canonical_cidr (YStr p) = Some p"
  shows "scope_pairs s = map (\<lambda>p. \<lparr>rp_cidr = p, rp_scope = s_name s, rp_key = origin_key p\<rparr>) (s_prefixes s)"
  unfolding scope_pairs_map [OF assms(2)] using assms(1) by (intro nth_equalityI) (simp_all add: prefix_origin_def)

lemma scope_pairs_pieces:
  assumes "s_prefixes s = map fst ps" "s_prefix_from s = map snd ps" "\<forall>x \<in> set ps. canonical_cidr (YStr (fst x)) = Some (fst x)"
  shows "scope_pairs s = map (\<lambda>x. \<lparr>rp_cidr = fst x, rp_scope = s_name s, rp_key = origin_key (snd x)\<rparr>) ps"
proof -
  have "\<forall>p \<in> set (s_prefixes s). canonical_cidr (YStr p) = Some p" using assms(1,3) by simp
  from scope_pairs_map [OF this] assms(1,2) show ?thesis
    by (intro nth_equalityI) (simp_all add: prefix_origin_def)
qed

lemma carve_scope_cases:
  assumes "\<forall>p \<in> set (s_prefixes s). canonical_cidr (YStr p) = Some p"
  shows "(carve_scope addrs s = s \<and> prefix_pieces addrs s = map (\<lambda>p. (p, p)) (s_prefixes s)) \<or>
    (s_prefixes (carve_scope addrs s) = map fst (prefix_pieces addrs s) \<and>
     s_prefix_from (carve_scope addrs s) = map snd (prefix_pieces addrs s))"
proof (cases "list_ex (\<lambda>x. fst x \<noteq> snd x) (prefix_pieces addrs s) \<or> length (prefix_pieces addrs s) \<noteq> length (s_prefixes s)")
  case True
  then show ?thesis by (auto simp: carve_scope_def Let_def)
next
  case False
  then have "\<forall>x \<in> set (pieces_of addrs (s_prefixes s)). fst x = snd x" "length (pieces_of addrs (s_prefixes s)) = length (s_prefixes s)"
    by (simp_all add: prefix_pieces_of list_ex_iff)
  from pieces_of_same [OF pieces_unchanged [OF assms this]]
  have "prefix_pieces addrs s = map (\<lambda>p. (p, p)) (s_prefixes s)" by (simp add: prefix_pieces_of)
  then show ?thesis by (simp add: carve_scope_def Let_def)
qed

lemma carve_scope_name [simp]: "s_name (carve_scope addrs s) = s_name s" "s_protocols (carve_scope addrs s) = s_protocols s"
  by (simp_all add: carve_scope_def Let_def)

lemma carve_scope_pairs:
  assumes "s_prefix_from s = []" "\<forall>p \<in> set (s_prefixes s). canonical_cidr (YStr p) = Some p"
  shows "scope_pairs (carve_scope addrs s) =
    map (\<lambda>x. \<lparr>rp_cidr = fst x, rp_scope = s_name s, rp_key = origin_key (snd x)\<rparr>) (prefix_pieces addrs s)"
  using carve_scope_cases [OF assms(2), of addrs]
proof
  assume c: "carve_scope addrs s = s \<and> prefix_pieces addrs s = map (\<lambda>p. (p, p)) (s_prefixes s)"
  then show ?thesis using scope_pairs_plain [OF assms] by (simp add: comp_def)
next
  assume c: "s_prefixes (carve_scope addrs s) = map fst (prefix_pieces addrs s) \<and>
     s_prefix_from (carve_scope addrs s) = map snd (prefix_pieces addrs s)"
  have "\<forall>x \<in> set (prefix_pieces addrs s). canonical_cidr (YStr (fst x)) = Some (fst x)"
  proof
    fix x assume "x \<in> set (prefix_pieces addrs s)"
    then have "snd x \<in> set (s_prefixes s)" "fst x \<in> set (subtract [snd x] addrs)"
      unfolding prefix_pieces_of pieces_of_mem by simp_all
    with assms(2) show "canonical_cidr (YStr (fst x)) = Some (fst x)" using subtract_piece_fixed by blast
  qed
  from scope_pairs_pieces [of "carve_scope addrs s", OF _ _ this] c show ?thesis by simp
qed

lemma find_scope_carved: "find_scope (without_addresses addrs m) n = map_option (if addrs = [] then id else carve_scope addrs) (find_scope m n)"
proof -
  have "find (\<lambda>s. s_name s = n) (map (carve_scope addrs) xs) = map_option (carve_scope addrs) (find (\<lambda>s. s_name s = n) xs)" for xs
    by (induction xs) auto
  then show ?thesis by (simp add: find_scope_def without_addresses_def option.map_id)
qed

lemma pair_image:
  "(\<lambda>p. (rp_key p, rp_scope p)) ` {p \<in> (\<Union>s \<in> S. (\<lambda>x. \<lparr>rp_cidr = c x, rp_scope = nm s, rp_key = ky x\<rparr>) ` X s). Q (rp_scope p) (rp_cidr p)} =
   {(ky x, nm s) | s x. s \<in> S \<and> x \<in> X s \<and> Q (nm s) (c x)}" (is "?f ` ?A = ?B")
proof
  show "?f ` ?A \<subseteq> ?B" by (clarsimp, blast)
  show "?B \<subseteq> ?f ` ?A"
  proof
    fix y assume "y \<in> ?B"
    then obtain s x where y: "y = (ky x, nm s)" "s \<in> S" "x \<in> X s" "Q (nm s) (c x)" by blast
    let ?p = "\<lparr>rp_cidr = c x, rp_scope = nm s, rp_key = ky x\<rparr>"
    have "?p \<in> ?A" using y by auto
    moreover have "y = ?f ?p" using y by simp
    ultimately show "y \<in> ?f ` ?A" by blast
  qed
qed

lemma carved_eligible:
  assumes "stored_prefixes_ok m" "addrs \<noteq> []" "wf_net q" "is_host q"
  shows "(\<lambda>p. (rp_key p, rp_scope p)) ` {p \<in> set (concat (map scope_pairs (m_scopes (without_addresses addrs m)))).
      eligible (without_addresses addrs m) protocol q p} =
    (if (n_v6 q, n_ip q) \<in> held_addrs addrs then {}
     else (\<lambda>p. (rp_key p, rp_scope p)) ` {p \<in> set (concat (map scope_pairs (m_scopes m))). eligible m protocol q p})"
    (is "?L = (if _ then _ else ?R)")
proof -
  let ?a = "(n_v6 q, n_ip q)"
  define ok where "ok n c \<longleftrightarrow> (protocol = [] \<or> (case find_scope m n of Some s \<Rightarrow> served_by s protocol | None \<Rightarrow> False)) \<and> ?a \<in> addrs_of c" for n c
  have el: "eligible (without_addresses addrs m) protocol q p \<longleftrightarrow> ok (rp_scope p) (rp_cidr p)" for p
    using find_scope_carved [of addrs m "rp_scope p"] assms(2) host_addr [OF assms(3,4)]
    by (auto simp: ok_def eligible_def pair_holds_addrs [OF assms(3)] served_by_def addrs_of_def split: option.splits)
  have el0: "eligible m protocol q p \<longleftrightarrow> ok (rp_scope p) (rp_cidr p)" for p
    using host_addr [OF assms(3,4)]
    by (auto simp: ok_def eligible_def pair_holds_addrs [OF assms(3)] addrs_of_def split: option.splits)
  have sc: "s_prefix_from s = []" "\<forall>p \<in> set (s_prefixes s). canonical_cidr (YStr p) = Some p" if "s \<in> set (m_scopes m)" for s
    using assms(1) that by (simp_all add: stored_prefixes_ok_def)
  have "set (concat (map scope_pairs (m_scopes (without_addresses addrs m)))) =
      (\<Union>s \<in> set (m_scopes m). (\<lambda>x. \<lparr>rp_cidr = fst x, rp_scope = s_name s, rp_key = origin_key (snd x)\<rparr>) ` set (prefix_pieces addrs s))"
    unfolding without_addresses_def if_not_P [OF assms(2)] by (simp add: sc carve_scope_pairs)
  then have L: "?L = {(origin_key (snd x), s_name s) | s x. s \<in> set (m_scopes m) \<and> x \<in> set (prefix_pieces addrs s) \<and> ok (s_name s) (fst x)}"
    unfolding el by (simp only: pair_image [where c = fst and nm = s_name and ky = "\<lambda>x. origin_key (snd x)" and Q = ok
      and X = "\<lambda>s. set (prefix_pieces addrs s)"])
  have "set (concat (map scope_pairs (m_scopes m))) =
      (\<Union>s \<in> set (m_scopes m). (\<lambda>p. \<lparr>rp_cidr = p, rp_scope = s_name s, rp_key = origin_key p\<rparr>) ` set (s_prefixes s))"
    by (simp add: sc scope_pairs_plain)
  then have R: "?R = {(origin_key p, s_name s) | s p. s \<in> set (m_scopes m) \<and> p \<in> set (s_prefixes s) \<and> ok (s_name s) p}"
    unfolding el0 by (simp only: pair_image [where c = "\<lambda>p. p" and nm = s_name and ky = origin_key and Q = ok
      and X = "\<lambda>s. set (s_prefixes s)"])
  have in_piece: "(\<exists>c \<in> set (subtract [p] addrs). ok n c) \<longleftrightarrow> ok n p \<and> ?a \<notin> held_addrs addrs" for n p
    using subtract_single_covers [of p addrs] unfolding ok_def by blast
  have "(\<exists>x. x \<in> set (prefix_pieces addrs s) \<and> k = origin_key (snd x) \<and> ok n (fst x)) \<longleftrightarrow>
      (\<exists>p \<in> set (s_prefixes s). k = origin_key p \<and> ok n p \<and> ?a \<notin> held_addrs addrs)" for s k n
    using in_piece [of _ n] unfolding prefix_pieces_of pieces_of_mem by (metis fst_conv snd_conv)
  then show ?thesis unfolding L R by (auto simp: set_eq_iff) blast+
qed

text \<open>
  C9: in the model with held addresses carved out no scope answers a held address, and every other
  address is answered by the scope that answered it before - for every protocol, whatever the pieces are
  and although they sort where their prefixes did.
\<close>

theorem carve_keeps_routing:
  assumes "stored_prefixes_ok m" "parse_net address = Some q" "is_host q"
  shows "scope_of_addr (without_addresses addrs m) address protocol =
    (if (n_v6 q, n_ip q) \<in> held_addrs addrs then [] else scope_of_addr m address protocol)"
proof (cases "addrs = []")
  case True
  then show ?thesis by (simp add: without_addresses_def held_addrs_def)
next
  case False
  have q: "wf_net q" using assms(2) by (rule parse_net_wf)
  note e = carved_eligible [OF assms(1) False q assms(3), of protocol]
  note a = scope_of_addr_answer [OF assms(2)]
  show ?thesis
  proof (cases "(n_v6 q, n_ip q) \<in> held_addrs addrs")
    case True
    with e have "{p \<in> set (concat (map scope_pairs (m_scopes (without_addresses addrs m)))).
        eligible (without_addresses addrs m) protocol q p} = {}" by simp
    then have "find (eligible (without_addresses addrs m) protocol q) (routing_pairs (without_addresses addrs m)) = None"
      by (auto simp: find_None_iff routing_pairs_def)
    with True show ?thesis by (simp add: a answer_def)
  next
    case held: False
    from answer_cong [OF e [unfolded if_not_P [OF held]]] held show ?thesis by (simp add: a routing_pairs_def)
  qed
qed

definition two_scopes :: model where
  "two_scopes =
     \<lparr>m_groups = [], m_users = [],
      m_scopes = [\<lparr>s_name = ''campus'', s_prefixes = [''10.0.0.0/8''], s_secret = ''k'', s_protocols = [], s_vendors = [],
                    s_devices = [], s_prefix_from = [], s_device_from = []\<rparr>,
                  \<lparr>s_name = ''lab'', s_prefixes = [''10.255.255.0/24''], s_secret = ''k'', s_protocols = [], s_vendors = [],
                    s_devices = [(''10.255.255.7/32'', ''cisco'')], s_prefix_from = [], s_device_from = []\<rparr>],
      m_allow = [], m_deny = []\<rparr>"

lemma two_scopes_ok: "stored_prefixes_ok two_scopes"
proof -
  have "canonical_cidr (YStr ''10.0.0.0/8'') = Some ''10.0.0.0/8''" "canonical_cidr (YStr ''10.255.255.0/24'') = Some ''10.255.255.0/24''"
    by code_simp+
  then show ?thesis by (simp add: stored_prefixes_ok_def two_scopes_def)
qed

theorem carve_keeps_routing_witness:
  "scope_of_addr (without_addresses [''10.1.1.1''] two_scopes) ''10.1.1.1'' [] = [] \<and>
   scope_of_addr (without_addresses [''10.1.1.1''] two_scopes) ''10.1.1.2'' [] = scope_of_addr two_scopes ''10.1.1.2'' []"
proof -
  let ?n = "\<lambda>x. \<lparr>n_v6 = False, n_ip = mk128 0 x, n_plen = 32, n_scope = []\<rparr>"
  have p: "parse_net ''10.1.1.1'' = Some (?n 0x0A010101)" "parse_net ''10.1.1.2'' = Some (?n 0x0A010102)" by code_simp+
  have h: "held_addrs [''10.1.1.1''] = {(False, mk128 0 0x0A010101)}"
    using host_addr [OF parse_net_wf [OF p(1)]] p(1) by (simp add: held_addrs_def is_host_def)
  have "mk128 0 0x0A010102 \<noteq> mk128 0 0x0A010101" by code_simp
  with h carve_keeps_routing [OF two_scopes_ok p(1), of "[''10.1.1.1'']" "[]"]
    carve_keeps_routing [OF two_scopes_ok p(2), of "[''10.1.1.1'']" "[]"]
  show ?thesis by (simp add: is_host_def)
qed

section \<open>How specific the answer is\<close>

lemma routing_pairs_sorted: "sorted_wrt (\<lambda>x y. \<not> pair_less y x) (routing_pairs m)"
  unfolding routing_pairs_def by (rule pair_order.sorted)

lemma stored_pair:
  assumes "stored_prefixes_ok m"
  shows "x \<in> set (routing_pairs m) \<longleftrightarrow> (\<exists>s \<in> set (m_scopes m). \<exists>p \<in> set (s_prefixes s).
      x = \<lparr>rp_cidr = p, rp_scope = s_name s, rp_key = origin_key p\<rparr>)"
proof -
  have "s_prefix_from s = []" "\<forall>p \<in> set (s_prefixes s). canonical_cidr (YStr p) = Some p" if "s \<in> set (m_scopes m)" for s
    using assms that by (simp_all add: stored_prefixes_ok_def)
  then show ?thesis by (auto simp: routing_pairs_def scope_pairs_plain)
qed

lemma origin_key_parsed: "parse_net p = Some n \<Longrightarrow> origin_key p = sort_key_of n"
  by (simp add: origin_key_def cidr_sort_key_def)

definition prefix_holds :: "model \<Rightarrow> string \<Rightarrow> network \<Rightarrow> scope \<Rightarrow> string \<Rightarrow> network \<Rightarrow> bool" where
  "prefix_holds m protocol q s p n \<longleftrightarrow>
     s \<in> set (m_scopes m) \<and> p \<in> set (s_prefixes s) \<and> parse_net p = Some n \<and> net_addrs q \<subseteq> net_addrs n \<and>
     (protocol = [] \<or> (case find_scope m (s_name s) of Some s' \<Rightarrow> served_by s' protocol | None \<Rightarrow> False))"

text \<open>
  C16: the scope that answers an address has a prefix that holds it and that lies inside every other prefix
  that holds it (of the scopes the protocol serves), except those that end at the same last address; no
  scope answers exactly when no such prefix holds the address.
\<close>

theorem answer_most_specific:
  assumes "stored_prefixes_ok m" "parse_net address = Some q"
  shows "if \<exists>s p n. prefix_holds m protocol q s p n
    then \<exists>s p n. prefix_holds m protocol q s p n \<and> scope_of_addr m address protocol = s_name s \<and>
      (\<forall>s' p' n'. prefix_holds m protocol q s' p' n' \<longrightarrow> net_addrs n \<subseteq> net_addrs n' \<or> broadcast n = broadcast n')
    else scope_of_addr m address protocol = []"
proof -
  have q: "wf_net q" using assms(2) by (rule parse_net_wf)
  let ?pair = "\<lambda>s p. \<lparr>rp_cidr = p, rp_scope = s_name s, rp_key = origin_key p\<rparr>"
  let ?holds = "prefix_holds m protocol q"
  note holds_def = prefix_holds_def
  have el: "eligible m protocol q (?pair s p) \<longleftrightarrow> (\<exists>n. ?holds s p n)" if "s \<in> set (m_scopes m)" "p \<in> set (s_prefixes s)" for s p
    using that by (auto simp: eligible_def holds_def pair_holds_addrs [OF q] addrs_of_def split: option.splits)
  show ?thesis
  proof (cases "find (eligible m protocol q) (routing_pairs m)")
    case None
    then have no: "\<not> eligible m protocol q x" if "x \<in> set (routing_pairs m)" for x using that by (simp add: find_None_iff)
    have "\<not> ?holds s p n" for s p n
    proof
      assume h: "?holds s p n"
      then have sp: "s \<in> set (m_scopes m)" "p \<in> set (s_prefixes s)" by (simp_all add: holds_def)
      with no [of "?pair s p"] el [OF sp] h show False by (auto simp: stored_pair [OF assms(1)])
    qed
    with None show ?thesis by (simp add: scope_of_addr_answer [OF assms(2)] answer_def)
  next
    case (Some x)
    note x = sorted_find_least [OF routing_pairs_sorted this]
    then obtain s p where sp: "s \<in> set (m_scopes m)" "p \<in> set (s_prefixes s)" "x = ?pair s p"
      by (auto simp: stored_pair [OF assms(1)])
    with x el [OF sp(1,2)] obtain n where n: "?holds s p n" by blast
    have "net_addrs n \<subseteq> net_addrs n' \<or> broadcast n = broadcast n'" if h: "?holds s' p' n'" for s' p' n'
    proof (rule ccontr)
      assume c: "\<not> ?thesis"
      have sp': "s' \<in> set (m_scopes m)" "p' \<in> set (s_prefixes s')" using h by (simp_all add: holds_def)
      have pn: "parse_net p = Some n" "parse_net p' = Some n'" and sub: "net_addrs q \<subseteq> net_addrs n" "net_addrs q \<subseteq> net_addrs n'"
        using n h by (simp_all add: holds_def)
      have w: "wf_net n" "wf_net n'" using pn by (simp_all add: parse_net_wf)
      have "net_addrs n \<inter> net_addrs n' \<noteq> {}" using sub net_ip_mem [OF q] by blast
      then have nest: "net_addrs n' \<subseteq> net_addrs n" using nested_or_disjoint [OF w] c contains_iff_subset [OF w] contains_iff_subset [OF w(2,1)] by blast
      then have v: "n_v6 n' = n_v6 n" using net_ip_mem [OF w(2)] mem_net_addrs [OF w(1)] by blast
      have "uval (broadcast n') \<le> uval (broadcast n)"
        using nest broadcast_mem [OF w(2)] net_addrs_interval [OF w(1)] by blast
      with c have "uval (broadcast n') < uval (broadcast n)" by (auto simp: uval_inj order_le_less)
      then have "key_less (sort_key_of n') (sort_key_of n)" using v by (simp add: key_less_uval)
      then have "pair_less (?pair s' p') x"
        using sp(3) pn routing_order.irrefl by (auto simp: pair_less_def origin_key_parsed)
      moreover have "?pair s' p' \<in> set (routing_pairs m)" using sp' by (auto simp: stored_pair [OF assms(1)])
      moreover have "eligible m protocol q (?pair s' p')" using el [OF sp'] h by blast
      ultimately show False using x by blast
    qed
    moreover have "scope_of_addr m address protocol = s_name s"
      using Some sp(3) by (simp add: scope_of_addr_answer [OF assms(2)] answer_def)
    ultimately show ?thesis using n by auto
  qed
qed

theorem answer_most_specific_witness: "scope_of_addr two_scopes ''10.1.1.1'' [] = ''campus''"
proof -
  have p: "parse_net ''10.1.1.1'' = Some \<lparr>n_v6 = False, n_ip = mk128 0 0x0A010101, n_plen = 32, n_scope = []\<rparr>" by code_simp
  have "scope_of_addr two_scopes ''10.1.1.1'' [] = ''campus''" by code_simp
  with answer_most_specific [OF two_scopes_ok p, of "[]"] show ?thesis by simp
qed

text \<open>
  Where a nested prefix ends with its outer one the daemon's order picks the outer: the scope of
  \<open>10.0.0.0/8\<close> answers an address of the scope of \<open>10.255.255.0/24\<close>, to which the vendor-tag check, going by
  the longest prefix, says the same address belongs.
\<close>

theorem answer_not_longest:
  "scope_of_addr two_scopes ''10.255.255.7'' [] = ''campus'' \<and>
   device_problems (map (\<lambda>s. \<lparr>ds_name = s_name s, ds_prefixes = map YStr (s_prefixes s), ds_devices = map fst (s_devices s)\<rparr>)
     (m_scopes two_scopes)) = []"
  by code_simp

end
