(* ===== verification/ModelViews.thy ===== *)
theory ModelViews
  imports ModelProps Hash
begin

text \<open>
  The views of \<open>internal/model/views.go\<close>: the lines the commands print about users, groups, scopes and
  hosts. Where a line carries a sentence the view is modelled as data; no view holds a secret or a hash.
\<close>

section \<open>Users and groups\<close>

definition members :: "model \<Rightarrow> string \<Rightarrow> string list" where
  "members m scope = filter (\<lambda>n. case find_user m n of Some u \<Rightarrow> scope \<in> set (u_scopes u) | None \<Rightarrow> False) (user_names m)"

definition group_users :: "model \<Rightarrow> string \<Rightarrow> string list" where
  "group_users m grp = filter (\<lambda>n. case find_user m n of Some u \<Rightarrow> u_group u = grp | None \<Rightarrow> False) (user_names m)"

definition priv_of :: "model \<Rightarrow> user \<Rightarrow> string" where
  "priv_of m u = (case find_group m (u_group u) of Some g \<Rightarrow> g_priv_text g | None \<Rightarrow> [])"

definition user_priv_lvl :: "model \<Rightarrow> string \<Rightarrow> string" where
  "user_priv_lvl m name =
     (case find_user m name of
        None \<Rightarrow> []
      | Some u \<Rightarrow> if is_disabled_user u then [] else priv_of m u)"

definition or_text :: "string \<Rightarrow> string \<Rightarrow> string" where
  "or_text s d = (if s = [] then d else s)"

definition user_row :: "user \<Rightarrow> string" where
  "user_row u =
     join ''|'' [u_name u, u_group u, if is_disabled_user u then ''disabled'' else ''active'',
       or_text (u_changed u) ''unknown'', join '','' (u_scopes u)]"

definition user_rows :: "model \<Rightarrow> string list" where
  "user_rows m =
     List.map_filter (\<lambda>n. case find_user m n of
        Some u \<Rightarrow> if u_sink u then None else Some (user_row u) | None \<Rightarrow> None) (user_names m)"

definition user_info :: "model \<Rightarrow> string \<Rightarrow> string list option" where
  "user_info m name =
     (case find_user m name of
        None \<Rightarrow> None
      | Some u \<Rightarrow>
          (let gp = (case find_group m (u_group u) of Some g \<Rightarrow> g_priv_text g | None \<Rightarrow> []);
               gc = (case find_group m (u_group u) of Some g \<Rightarrow> g_class g | None \<Rightarrow> []);
               dis = is_disabled_user u
           in Some
             ([''group='' @ u_group u, ''status='' @ (if dis then ''disabled'' else ''active''),
               ''password_changed='' @ or_text (u_changed u) ''unknown'', ''priv_lvl='' @ gp, ''juniper_class='' @ gc,
               ''hash_type='' @ (if dis then [] else type_prefix (u_hash u)),
               ''has_hash='' @ (if u_hash u \<noteq> [] then ''1'' else ''0'')] @
              map (\<lambda>s. ''scope='' @ s @ ''|'' @ (if find_scope m s \<noteq> None then ''1'' else ''0'')) (u_scopes u) @
              (if u_email u \<noteq> [] then [''email='' @ u_email u] else []) @
              (case u_max_size u of Some n \<Rightarrow> [''reports_max_size='' @ int_text n] | None \<Rightarrow> []) @
              (case u_max_count u of Some n \<Rightarrow> [''reports_max_count='' @ int_text n] | None \<Rightarrow> []))))"

text \<open>Groups by level, highest first, equal levels in reverse name order.\<close>

definition group_level :: "group \<Rightarrow> int" where
  "group_level g = (case g_priv g of Some p \<Rightarrow> p | None \<Rightarrow> -1)"

definition group_before :: "group \<Rightarrow> group \<Rightarrow> bool" where
  "group_before a b = (if group_level a \<noteq> group_level b then group_level a > group_level b else g_name a > g_name b)"

definition group_row :: "model \<Rightarrow> group \<Rightarrow> string" where
  "group_row m g =
     join ''|'' [g_name g, or_text (g_priv_text g) ''n/a'', or_text (g_class g) ''n/a'',
       itoa (length (filter (\<lambda>u. \<not> u_sink u \<and> u_group u = g_name g) (m_users m)))]"

definition group_rows :: "model \<Rightarrow> string list" where
  "group_rows m = map (group_row m) (slice_stable group_before (m_groups m))"

definition builtin_display_order :: "string list" where
  "builtin_display_order = [''readonly'', ''operator'', ''superuser'']"

definition group_order :: "model \<Rightarrow> string list" where
  "group_order m =
     (let first = filter (\<lambda>b. find_group m b \<noteq> None) builtin_display_order
      in first @ sort_strings (map g_name (filter (\<lambda>g. g_name g \<notin> set first) (m_groups m))))"

definition group_info :: "model \<Rightarrow> string list" where
  "group_info m =
     map (\<lambda>n. case find_group m n of Some g \<Rightarrow> join ''|'' [n, g_priv_text g, g_class g] | None \<Rightarrow> join ''|'' [n, [], []]) (group_order m)"

section \<open>Scopes\<close>

definition scopes_by_routing :: "model \<Rightarrow> string list" where
  "scopes_by_routing m =
     (let order = dedup (map rp_scope (routing_pairs m))
      in order @ sort_strings (filter (\<lambda>n. n \<notin> set order) (map s_name (m_scopes m))))"

definition scope_prefixes :: "model \<Rightarrow> string \<Rightarrow> string list" where
  "scope_prefixes m scope = (case find_scope m scope of Some s \<Rightarrow> sort_display (s_prefixes s) | None \<Rightarrow> [])"

definition prefix_owner :: "model \<Rightarrow> string \<Rightarrow> string" where
  "prefix_owner m c =
     (case canonical_cidr (YStr c) of
        None \<Rightarrow> []
      | Some target \<Rightarrow>
          (case find (\<lambda>n. case find_scope m n of
                            Some s \<Rightarrow> list_ex (\<lambda>p. canonical_cidr (YStr p) = Some target) (s_prefixes s)
                          | None \<Rightarrow> False) (scope_names m) of
             Some n \<Rightarrow> n | None \<Rightarrow> []))"

definition vendor_summary :: "scope \<Rightarrow> string" where
  "vendor_summary s =
     join '' + ''
       ((if s_vendors s \<noteq> [] then [join '','' (s_vendors s)] else []) @
        (if s_devices s \<noteq> [] then [itoa (length (s_devices s)) @ '' tagged''] else []))"

definition or_no_prefix :: "string list \<Rightarrow> string list" where
  "or_no_prefix ps = (if ps = [] then [''(no prefix)''] else ps)"

definition scope_row_lines :: "model \<Rightarrow> string \<Rightarrow> string \<Rightarrow> string list" where
  "scope_row_lines m default_scope n =
     (case find_scope m n of
        None \<Rightarrow> []
      | Some s \<Rightarrow>
          (case or_no_prefix (sort_display (s_prefixes s)) of
             [] \<Rightarrow> []
           | c # cs \<Rightarrow>
               join ''|'' [n, c, itoa (length (members m n)), if n = default_scope then ''yes'' else [], vendor_summary s] #
               map (\<lambda>c. ''|'' @ c @ ''|||'') cs))"

definition scope_rows :: "model \<Rightarrow> string \<Rightarrow> string list" where
  "scope_rows m default_scope = concat (map (scope_row_lines m default_scope) (scopes_by_routing m))"

definition scope_devices_view :: "model \<Rightarrow> string \<Rightarrow> string list" where
  "scope_devices_view m scope =
     (case find_scope m scope of
        None \<Rightarrow> []
      | Some s \<Rightarrow>
          map (\<lambda>d. fst d @ ''|'' @ snd d)
            (slice_stable (\<lambda>x y. display_less (display_key_of (fst x)) (display_key_of (fst y))) (s_devices s)))"

text \<open>The scopes as the validator would see them with one scope's prefixes replaced and an address tagged.\<close>

definition trial_scope :: "string \<Rightarrow> string list \<Rightarrow> string \<Rightarrow> scope \<Rightarrow> device_scope" where
  "trial_scope scope ps tag s =
     (if s_name s = scope
      then \<lparr>ds_name = s_name s, ds_prefixes = map YStr ps,
            ds_devices = map fst (s_devices s) @ (if tag \<noteq> [] \<and> tag \<notin> set (map fst (s_devices s)) then [tag] else [])\<rparr>
      else \<lparr>ds_name = s_name s, ds_prefixes = map YStr (s_prefixes s), ds_devices = map fst (s_devices s)\<rparr>)"

definition trial_device_problems :: "model \<Rightarrow> string \<Rightarrow> string \<Rightarrow> string \<Rightarrow> device_problem list" where
  "trial_device_problems m scope prefix_csv tag =
     (let ps = filter (\<lambda>c. c \<noteq> []) (split_on (CHR '','') prefix_csv);
          trial = map (trial_scope scope ps tag) (m_scopes m)
      in device_problems
           (if list_ex (\<lambda>s. s_name s = scope) (m_scopes m) then trial
            else trial @ [\<lparr>ds_name = scope, ds_prefixes = map YStr ps, ds_devices = (if tag \<noteq> [] then [tag] else [])\<rparr>]))"

definition prefix_nets :: "scope \<Rightarrow> network list" where
  "prefix_nets s = List.map_filter (\<lambda>c. if canonical_cidr (YStr c) = None then None else parse_net c) (s_prefixes s)"

definition vendor_gap :: "model \<Rightarrow> (string \<Rightarrow> int) \<Rightarrow> string \<Rightarrow> bool" where
  "vendor_gap m hosts n =
     (case find_scope m n of
        None \<Rightarrow> False
      | Some s \<Rightarrow>
          served_by s ''radius'' \<and> s_vendors s = [] \<and> s_devices s = [] \<and>
          \<not> (hosts n > 0 \<and> list_all is_host (prefix_nets s) \<and> int (length (prefix_nets s)) \<le> hosts n))"

definition vendor_gaps :: "model \<Rightarrow> (string \<Rightarrow> int) \<Rightarrow> string list" where
  "vendor_gaps m hosts = filter (vendor_gap m hosts) (scope_names m)"

definition vendor_row :: "scope \<Rightarrow> string" where
  "vendor_row s =
     join ''|'' [s_name s, if served_by s ''radius'' then ''1'' else ''0'', join '','' (s_vendors s),
       join '','' (filter (\<lambda>v. v \<in> set (map snd (s_devices s))) known_vendors), itoa (length (s_devices s))]"

definition vendor_rows :: "model \<Rightarrow> string list" where
  "vendor_rows m = List.map_filter (\<lambda>n. map_option vendor_row (find_scope m n)) (scope_names m)"

definition routing_row_less :: "display_key \<times> string \<times> string \<Rightarrow> display_key \<times> string \<times> string \<Rightarrow> bool" where
  "routing_row_less a b =
     (if display_less (fst a) (fst b) \<or> display_less (fst b) (fst a) then display_less (fst a) (fst b)
      else if fst (snd a) \<noteq> fst (snd b) then fst (snd a) < fst (snd b)
      else snd (snd a) < snd (snd b))"

definition scope_routing :: "model \<Rightarrow> string \<Rightarrow> string list" where
  "scope_routing m default_scope =
     map (\<lambda>(_, n, c). join ''|'' [n, c, itoa (length (members m n)), if n = default_scope then ''yes'' else []])
       (slice_stable routing_row_less
          (concat (map (\<lambda>s. map (\<lambda>c. (display_key_of c, s_name s, c)) (or_no_prefix (s_prefixes s))) (m_scopes m))))"

text \<open>\<open>ScopeLookup\<close>: what it tells, without the sentences.\<close>

datatype lookup_result =
    LookupInvalid
  | LookupNotFound string
  | LookupFound string "string \<times> network" "(string \<times> network) option" "(string \<times> network) list"

definition lookup_net :: "string \<Rightarrow> network" where
  "lookup_net c =
     (case parse_net c of
        Some n \<Rightarrow> n
      | None \<Rightarrow> (case parse_net (trim_space c) of Some n \<Rightarrow> n
                 | None \<Rightarrow> \<lparr>n_v6 = False, n_ip = mk128 0 0, n_plen = 0, n_scope = []\<rparr>))"

definition lookup_matches :: "bool \<Rightarrow> network \<Rightarrow> network \<Rightarrow> bool" where
  "lookup_matches is_net q n \<longleftrightarrow> net_version n = net_version q \<and> (if is_net then net_equal n q \<or> subnet_of q n else subnet_of q n)"

definition scope_lookup :: "model \<Rightarrow> string \<Rightarrow> lookup_result" where
  "scope_lookup m query =
     (let is_net = (CHR ''/'' \<in> set query)
      in case parse_net query of
           None \<Rightarrow> LookupInvalid
         | Some q \<Rightarrow>
             (let shown = (if is_net then net_string q else rev (tl (dropWhile (\<lambda>c. c \<noteq> CHR ''/'') (rev (net_string q)))));
                  matches = filter (\<lambda>x. lookup_matches is_net q (snd x))
                              (map (\<lambda>p. (rp_scope p, lookup_net (rp_cidr p))) (routing_pairs m))
              in case matches of
                   [] \<Rightarrow> LookupNotFound shown
                 | x # xs \<Rightarrow>
                     (let devices = (case find_scope m (fst x) of Some s \<Rightarrow> s_devices s | None \<Rightarrow> [])
                      in LookupFound shown x
                           (case best_tag q devices None of Some (t, v, _) \<Rightarrow> Some (v, t) | None \<Rightarrow> None) xs)))"

definition rw_row :: "model \<Rightarrow> string \<times> string \<times> bool \<Rightarrow> string" where
  "rw_row m r =
     (case r of (key, grp, is_class) \<Rightarrow>
        key @ ''='' @
        (case find_group m grp of
           None \<Rightarrow> ''NOT FOUND''
         | Some g \<Rightarrow> if is_class then (if g_class_null g then ''NOT FOUND'' else g_class g)
                    else or_text (g_priv_text g) ''NOT FOUND''))"

definition config_show :: "model \<Rightarrow> string list" where
  "config_show m =
     concat (map (\<lambda>n. case find_scope m n of
        None \<Rightarrow> []
      | Some s \<Rightarrow> join ''|'' [''scope='' @ n, itoa (rune_count (s_secret s)), itoa (length (members m n))] #
                  map (\<lambda>c. ''prefix='' @ c) (sort_display (s_prefixes s))) (scopes_by_routing m)) @
     map (rw_row m) [(''cisco_ro'', ''readonly'', False), (''cisco_op'', ''operator'', False), (''cisco_rw'', ''superuser'', False),
       (''juniper_ro'', ''readonly'', True), (''juniper_op'', ''operator'', True), (''juniper_rw'', ''superuser'', True)] @
     [''allow='' @ join '', '' (m_allow m), ''deny='' @ join '', '' (m_deny m)]"

section \<open>Linux hosts\<close>

definition linux_inactive :: "(user \<Rightarrow> bool) \<Rightarrow> user \<Rightarrow> bool" where
  "linux_inactive held u \<longleftrightarrow> u_sink u \<or> is_disabled_user u \<or> held u"

definition linux_users_held :: "model \<Rightarrow> string \<Rightarrow> (user \<Rightarrow> bool) \<Rightarrow> string list" where
  "linux_users_held m scope held =
     List.map_filter (\<lambda>n. case find_user m n of
        Some u \<Rightarrow> if linux_inactive held u then None else Some (n @ ''|'' @ priv_of m u) | None \<Rightarrow> None) (members m scope)"

definition linux_inactive_held :: "model \<Rightarrow> string \<Rightarrow> (user \<Rightarrow> bool) \<Rightarrow> string list" where
  "linux_inactive_held m scope held =
     filter (\<lambda>n. case find_user m n of Some u \<Rightarrow> linux_inactive held u | None \<Rightarrow> False) (members m scope)"

section \<open>Status and validation\<close>

definition contains_text :: "string \<Rightarrow> string \<Rightarrow> bool" where
  "contains_text w s \<longleftrightarrow> list_ex (\<lambda>i. take (length w) (drop i s) = w) [0..<length s + 1]"

definition is_placeholder :: "scope \<Rightarrow> bool" where
  "is_placeholder s \<longleftrightarrow> contains_text ''REPLACE'' (s_secret s)"

definition user_refs :: "model \<Rightarrow> (string \<times> string) list" where
  "user_refs m = concat (map (\<lambda>n. case find_user m n of Some u \<Rightarrow> map (\<lambda>s. (n, s)) (u_scopes u) | None \<Rightarrow> []) (user_names m))"

definition flag_text :: "bool \<Rightarrow> string" where
  "flag_text b = (if b then ''1'' else ''0'')"

definition rfc1918 :: "string list" where
  "rfc1918 = [''10.0.0.0/8'', ''172.16.0.0/12'', ''192.168.0.0/16'']"

definition scopes_in_order :: "model \<Rightarrow> scope list" where
  "scopes_in_order m = List.map_filter (find_scope m) (scope_names m)"

definition status_view :: "model \<Rightarrow> int \<Rightarrow> string list" where
  "status_view m min_secret =
     (let ss = scopes_in_order m;
          cidrs = concat (map s_prefixes ss);
          has_colon = list_ex (\<lambda>c. CHR '':'' \<in> set c);
          refs = user_refs m;
          good = filter (\<lambda>r. find_scope m (snd r) \<noteq> None) refs;
          names_of = (\<lambda>xs. join '','' (map s_name xs))
      in [''user_count='' @ itoa (length (m_users m)), ''scope_count='' @ itoa (length (m_scopes m)),
          ''prefix_count='' @ itoa (length cidrs),
          ''prefix_unrestricted='' @ flag_text (set cidrs = set rfc1918),
          ''prefix_has_v6='' @ flag_text (has_colon cidrs), ''allow_has_v6='' @ flag_text (has_colon (m_allow m)),
          ''placeholder_scopes='' @ names_of (filter is_placeholder ss),
          ''weak_scopes='' @ join '','' (map (\<lambda>s. s_name s @ '':'' @ itoa (rune_count (s_secret s)))
             (filter (\<lambda>s. \<not> is_placeholder s \<and> int (rune_count (s_secret s)) < min_secret) ss)),
          ''empty_prefix_scopes='' @ names_of (filter (\<lambda>s. s_prefixes s = []) ss),
          ''total_refs='' @ itoa (length refs),
          ''empty_scopes='' @ join '','' (filter (\<lambda>n. n \<notin> set (map snd refs)) (sort_strings (dedup (map s_name (m_scopes m)))))] @
         map (\<lambda>r. ''orphan='' @ fst r @ '':'' @ snd r) (filter (\<lambda>r. find_scope m (snd r) = None) refs) @
         List.map_filter (\<lambda>n. case find_user m n of
            Some u \<Rightarrow> if u_changed u \<noteq> [] then Some (''pwdate='' @ n @ ''|'' @ u_changed u) else None | None \<Rightarrow> None) (user_names m))"

datatype model_problem =
    NoUsers | NoScopes | PlaceholderSecret string | NoSecret string | NoPrefixes string
  | UserReserved string | UserGroupMissing string string | UserScopeMissing string string

definition scope_problems :: "bool \<Rightarrow> scope \<Rightarrow> model_problem list" where
  "scope_problems full s =
     (if is_placeholder s then [PlaceholderSecret (s_name s)] else []) @
     (if full \<and> s_secret s = [] then [NoSecret (s_name s)] else []) @
     (if full \<and> s_prefixes s = [] then [NoPrefixes (s_name s)] else [])"

definition user_problems :: "model \<Rightarrow> user \<Rightarrow> model_problem list" where
  "user_problems m u =
     (if u_name u \<in> set reserved_users then [UserReserved (u_name u)] else []) @
     (if find_group m (u_group u) = None then [UserGroupMissing (u_name u) (or_text (u_group u) ''None'')] else []) @
     map (UserScopeMissing (u_name u)) (filter (\<lambda>s. find_scope m s = None) (u_scopes u))"

definition validate_view :: "model \<Rightarrow> bool \<Rightarrow> model_problem list" where
  "validate_view m full =
     (if m_users m = [] then [NoUsers] else []) @ (if m_scopes m = [] then [NoScopes] else []) @
     concat (map (scope_problems full) (scopes_in_order m)) @
     (if full then concat (map (user_problems m) (List.map_filter (find_user m) (user_names m))) else [])"

end
