(* ===== verification/ModelViewProps.thy ===== *)
theory ModelViewProps
  imports ModelViews StoreDisk
begin

text \<open>
  What the model of a validated store guarantees, that the lockdown takes out exactly the locked members,
  and that the routing order of the scopes lists every scope once.
\<close>

section \<open>The model of a store\<close>

lemma yget_filter: "yget m k = (case filter (\<lambda>p. fst p = k) m of [] \<Rightarrow> None | p # _ \<Rightarrow> Some (snd p))"
  by (induction m) (auto simp: yget_Cons)

lemma sorted_copy_map:
  "sorted_copy (YMap m) = YMap (slice_stable (\<lambda>p q. fst p < fst q) (map (\<lambda>p. (fst p, sorted_copy (snd p))) m))"
  by simp

declare sorted_copy.simps(1) [simp del]

lemma yget_sorted:
  "yget (slice_stable (\<lambda>p q. fst p < fst q) (map (\<lambda>p. (fst p, sorted_copy (snd p))) m)) k = map_option sorted_copy (yget m k)"
proof -
  let ?f = "\<lambda>p. (fst p, sorted_copy (snd p))"
  have "filter (\<lambda>p. fst p = k) (slice_stable (\<lambda>p q. fst p < fst q) (map ?f m)) = filter (\<lambda>p. fst p = k) (map ?f m)"
    by (rule strict_weak.stable [OF strict_weak_key]) auto
  moreover have "yget (map ?f m) k = map_option sorted_copy (yget m k)"
    by (induction m) (auto simp: yget_Cons)
  ultimately show ?thesis by (simp add: yget_filter)
qed

lemma sorted_copy_at: "sorted_copy (YMap m) = YMap s \<Longrightarrow> yval_at s k = sorted_copy (yval_at m k)"
  by (auto simp: sorted_copy_map yval_at_def yget_sorted split: option.split)

lemma sorted_copy_mem: "sorted_copy (YMap m) = YMap s \<Longrightarrow> set s = (\<lambda>p. (fst p, sorted_copy (snd p))) ` set m"
  by (force simp: sorted_copy_map)

lemma sorted_copy_obtain: obtains s where "sorted_copy (YMap m) = YMap s"
  by (simp add: sorted_copy_map)

lemma map_of_sorted: "map_of_val (sorted_copy v) = (case v of YMap m \<Rightarrow> map_of_val (sorted_copy (YMap m)) | _ \<Rightarrow> None)"
  by (cases v) auto

lemma model_section_set:
  assumes "sorted_copy (YMap d) = YMap s"
  shows "set (model_section s key) = (\<lambda>p. (fst p, sorted_copy (snd p))) ` set (section_of d key)"
proof -
  have "model_section s key = (case map_of_val (sorted_copy (yval_at d key)) of Some m \<Rightarrow> m | None \<Rightarrow> [])"
    by (simp add: model_section_def sorted_copy_at [OF assms])
  then show ?thesis
    by (cases "yval_at d key") (auto simp: section_of_def sorted_copy_map)
qed

lemma from_store_sets:
  "set (m_groups (from_store F d)) = (\<lambda>p. group_of F (fst p, sorted_copy (snd p))) ` set (section_of d ''groups'')"
  "set (m_users (from_store F d)) = (\<lambda>p. user_of F (fst p, sorted_copy (snd p))) ` set (section_of d ''users'')"
  "set (m_scopes (from_store F d)) = (\<lambda>p. scope_of_entry F (fst p, sorted_copy (snd p))) ` set (section_of d ''scopes'')"
proof -
  obtain s where s: "sorted_copy (YMap d) = YMap s" by (rule sorted_copy_obtain)
  then show "set (m_groups (from_store F d)) = (\<lambda>p. group_of F (fst p, sorted_copy (snd p))) ` set (section_of d ''groups'')"
    "set (m_users (from_store F d)) = (\<lambda>p. user_of F (fst p, sorted_copy (snd p))) ` set (section_of d ''users'')"
    "set (m_scopes (from_store F d)) = (\<lambda>p. scope_of_entry F (fst p, sorted_copy (snd p))) ` set (section_of d ''scopes'')"
    by (simp_all add: from_store_def model_section_set image_image)
qed

lemma found_mem: "find P xs = Some x \<Longrightarrow> x \<in> set xs"
  by (auto simp: find_Some_iff)

lemma found_group: "find_group m n \<noteq> None \<longleftrightarrow> n \<in> g_name ` set (m_groups m)"
  by (auto simp: find_group_def find_None_iff)

lemma found_scope: "find_scope m n \<noteq> None \<longleftrightarrow> n \<in> s_name ` set (m_scopes m)"
  by (auto simp: find_scope_def find_None_iff)

lemma names_of_entries [simp]:
  "g_name (group_of F p) = fst p" "u_name (user_of F p) = fst p" "s_name (scope_of_entry F p) = fst p"
  "s_prefix_from (scope_of_entry F p) = []"
  by (simp_all add: group_of_def user_of_def scope_of_entry_def Let_def)

lemma entry_at:
  assumes "yval_at e k = v"
  shows "(case map_of_val (sorted_copy (YMap e)) of Some m \<Rightarrow> yval_at m k | None \<Rightarrow> YNull) = sorted_copy v"
proof -
  obtain s where s: "sorted_copy (YMap e) = YMap s" by (rule sorted_copy_obtain)
  then show ?thesis using sorted_copy_at [OF s, of k] assms by simp
qed

lemma user_entry_fields:
  "u_group (user_of F (n, sorted_copy (YMap e))) = val_text F (sorted_copy (yval_at e ''group''))"
  "u_scopes (user_of F (n, sorted_copy (YMap e))) = str_list F (sorted_copy (yval_at e ''scopes''))"
  by (simp_all add: user_of_def Let_def entry_at [OF refl])

lemma scope_entry_fields:
  "s_prefixes (scope_of_entry F (n, sorted_copy (YMap e))) = str_list F (sorted_copy (yval_at e ''prefixes''))"
  "s_secret (scope_of_entry F (n, sorted_copy (YMap e))) = val_text F (sorted_copy (yval_at e ''secret''))"
  by (simp_all add: scope_of_entry_def Let_def entry_at [OF refl])

lemma val_text_str [simp]: "val_text F (YStr s) = s"
  by (simp add: val_text_def py_str_def)

lemma sorted_strs [simp]: "map (sorted_copy \<circ> YStr) ss = map YStr ss"
  by simp

lemma str_list_strs [simp]: "str_list F (YList (map YStr ss)) = ss"
  by (simp add: str_list_def comp_def)

section \<open>Stores that validate\<close>

lemma valid_member:
  assumes "validate_store U b (YMap d) = []" "wf_doc d" "s \<in> set (schema U)" "(n, v) \<in> set (section_of d (sec_key s))"
  shows "\<exists>e. v = YMap e \<and> (\<forall>f \<in> set (sec_fields s). case yget e (fs_name f) of
      None \<Rightarrow> \<not> fs_required f | Some x \<Rightarrow> check_field U f x = None)"
proof -
  have "yget (section_of d (sec_key s)) n = Some v"
    using wf_doc_section [OF assms(2)] assms(4) yget_mem by (auto simp: wf_section_def)
  then show ?thesis by (rule valid_entry [OF assms(1,3)])
qed

lemma required_value:
  assumes "\<forall>f \<in> set fs. case yget e (fs_name f) of None \<Rightarrow> \<not> fs_required f | Some x \<Rightarrow> check_field U f x = None"
    and "f \<in> set fs" "fs_required f" "fs_name f = k"
  shows "check_field U f (yval_at e k) = None"
  using assms by (fastforce simp: yval_at_def split: option.splits)

lemma all_strings:
  assumes "\<forall>x \<in> set l. \<exists>p. x = YStr p \<and> P p"
  obtains ps where "l = map YStr ps" "\<forall>p \<in> set ps. P p"
proof
  let ?g = "\<lambda>x. case x of YStr s \<Rightarrow> s | _ \<Rightarrow> []"
  show "l = map YStr (map ?g l)" using assms by (induction l) auto
  show "\<forall>p \<in> set (map ?g l). P p" using assms by auto
qed

lemma valid_user_entry:
  assumes "validate_store U b (YMap d) = []" "wf_doc d" "(n, v) \<in> set (section_of d ''users'')"
  shows "\<exists>e g ss. v = YMap e \<and> yval_at e ''group'' = YStr g \<and> yval_at e ''scopes'' = YList (map YStr ss) \<and>
    yhas (section_of d ''groups'') g \<and> (\<forall>s \<in> set ss. yhas (section_of d ''scopes'') s) \<and> n \<notin> set reserved_users"
proof -
  let ?s = "\<lparr>sec_key = ''users'', sec_label = ''user'', sec_name = match_user, sec_fields = user_fields U\<rparr>"
  have "?s \<in> set (schema U)" by (simp add: schema_def)
  from valid_member [OF assms(1,2) this] assms(3) obtain e where v: "v = YMap e"
    and f: "\<forall>f \<in> set (user_fields U). case yget e (fs_name f) of None \<Rightarrow> \<not> fs_required f | Some x \<Rightarrow> check_field U f x = None" by auto
  let ?g = "(spec ''group'' TString)\<lparr>fs_required := True\<rparr>" and ?c = "(spec ''scopes'' TStringList)\<lparr>fs_required := True\<rparr>"
  have mem: "?g \<in> set (user_fields U)" "?c \<in> set (user_fields U)" by (simp_all add: user_fields_def)
  have "check_field U ?g (yval_at e ''group'') = None"
    by (rule required_value [OF f mem(1)]) (simp_all add: spec_def)
  then obtain g where g: "yval_at e ''group'' = YStr g" "g \<noteq> []"
    by (auto simp: check_field_def spec_def check_string_def split: if_splits option.splits yval.splits)
  have "check_field U ?c (yval_at e ''scopes'') = None"
    by (rule required_value [OF f mem(2)]) (simp_all add: spec_def)
  then obtain l where l: "yval_at e ''scopes'' = YList l" "list_all non_empty_str l"
    by (auto simp: check_field_def spec_def split: if_splits option.splits yval.splits)
  have "\<exists>s. x = YStr s \<and> s \<noteq> []" if "x \<in> set l" for x
    using l(2) that by (cases x) (auto simp: list_all_iff non_empty_str_def)
  then obtain ss where ss: "l = map YStr ss" "\<forall>s \<in> set ss. s \<noteq> []" using all_strings [of l "\<lambda>s. s \<noteq> []"] by blast
  have u: "check_user_refs (section_of d ''groups'') (section_of d ''scopes'') (n, YMap e) = []"
    using assms(1,3) v unfolding validate_parts by blast
  have "yhas (section_of d ''scopes'') s" if "s \<in> set ss" for s
  proof (rule check_user_refs_Nil(3) [OF u])
    show "YStr s \<in> set (scope_list e)" using l(1) ss that by (simp add: scope_list_def)
    show "s \<noteq> []" using ss(2) that by blast
  qed
  then show ?thesis using v g l(1) ss check_user_refs_Nil(1) [OF u] check_user_refs_Nil(2) [OF u g(1,2)] by blast
qed

lemma check_cidr_list_strings:
  assumes "check_cidr_list k v = None"
  shows "\<exists>ps. v = YList (map YStr ps) \<and> (\<forall>p \<in> set ps. canonical_cidr (YStr p) = Some p) \<and> k \<le> length ps"
proof -
  from assms obtain l where l: "v = YList l" "first_problem check_cidr_item l = None" "k \<le> length l"
    by (auto simp: check_cidr_list_def split: option.splits if_splits yval.splits)
  have item: "\<exists>p. x = YStr p \<and> canonical_cidr (YStr p) = Some p" if "x \<in> set l" for x
  proof -
    from l(2) that have "check_cidr_item x = None" by (simp add: first_problem_None)
    then show ?thesis by (auto simp: check_cidr_item_def split: option.splits if_splits)
  qed
  then obtain ps where "l = map YStr ps" "\<forall>p \<in> set ps. canonical_cidr (YStr p) = Some p"
    using all_strings [of l "\<lambda>p. canonical_cidr (YStr p) = Some p"] by blast
  then show ?thesis using l by auto
qed

lemma valid_scope_entry:
  assumes "validate_store U b (YMap d) = []" "wf_doc d" "(n, v) \<in> set (section_of d ''scopes'')"
  shows "\<exists>e ps s. v = YMap e \<and> yval_at e ''prefixes'' = YList (map YStr ps) \<and> ps \<noteq> [] \<and>
    (\<forall>p \<in> set ps. canonical_cidr (YStr p) = Some p) \<and> yval_at e ''secret'' = YStr s \<and> s \<noteq> []"
proof -
  let ?s = "\<lparr>sec_key = ''scopes'', sec_label = ''scope'', sec_name = match_scope, sec_fields = scope_fields\<rparr>"
  have "?s \<in> set (schema U)" by (simp add: schema_def)
  from valid_member [OF assms(1,2) this] assms(3) obtain e where v: "v = YMap e"
    and f: "\<forall>f \<in> set scope_fields. case yget e (fs_name f) of None \<Rightarrow> \<not> fs_required f | Some x \<Rightarrow> check_field U f x = None" by auto
  let ?p = "(spec ''prefixes'' TCidrList)\<lparr>fs_min_items := 1, fs_required := True\<rparr>"
  let ?c = "(spec ''secret'' TSecret)\<lparr>fs_required := True\<rparr>"
  have mem: "?p \<in> set scope_fields" "?c \<in> set scope_fields" by (simp_all add: scope_fields_def)
  have "check_field U ?p (yval_at e ''prefixes'') = None"
    by (rule required_value [OF f mem(1)]) (simp_all add: spec_def)
  then have "check_cidr_list 1 (yval_at e ''prefixes'') = None"
    by (auto simp: check_field_def spec_def split: if_splits)
  then obtain ps where ps: "yval_at e ''prefixes'' = YList (map YStr ps)" "\<forall>p \<in> set ps. canonical_cidr (YStr p) = Some p" "1 \<le> length ps"
    by (blast dest: check_cidr_list_strings)
  then have "ps \<noteq> []" by auto
  have "check_field U ?c (yval_at e ''secret'') = None"
    by (rule required_value [OF f mem(2)]) (simp_all add: spec_def)
  then obtain s where "yval_at e ''secret'' = YStr s" "s \<noteq> []"
    by (auto simp: check_field_def spec_def check_secret_def split: if_splits option.splits yval.splits)
  with v ps \<open>ps \<noteq> []\<close> show ?thesis by blast
qed

lemma valid_user_of:
  assumes "validate_store U b (YMap d) = []" "wf_doc d" "u \<in> set (m_users (from_store F d))"
  shows "find_group (from_store F d) (u_group u) \<noteq> None" "\<forall>s \<in> set (u_scopes u). find_scope (from_store F d) s \<noteq> None"
    "u_name u \<notin> set reserved_users"
proof -
  from assms(3) obtain n v where nv: "(n, v) \<in> set (section_of d ''users'')" "u = user_of F (n, sorted_copy v)"
    by (auto simp: from_store_sets)
  from valid_user_entry [OF assms(1,2) nv(1)] obtain e g ss where e: "v = YMap e" "yval_at e ''group'' = YStr g"
    "yval_at e ''scopes'' = YList (map YStr ss)" "yhas (section_of d ''groups'') g"
    "\<forall>s \<in> set ss. yhas (section_of d ''scopes'') s" "n \<notin> set reserved_users" by blast
  have named: "yhas m k \<Longrightarrow> \<exists>v. (k, v) \<in> set m" for m k
    by (auto simp: yhas_def dest!: yget_in_set)
  have u: "u_group u = g" "u_scopes u = ss" "u_name u = n"
    using nv(2) e by (simp_all add: user_entry_fields str_list_strs)
  show "find_group (from_store F d) (u_group u) \<noteq> None"
    unfolding found_group from_store_sets u using named [OF e(4)] by force
  show "\<forall>s \<in> set (u_scopes u). find_scope (from_store F d) s \<noteq> None"
    unfolding found_scope from_store_sets u using named e(5) by force
  show "u_name u \<notin> set reserved_users" using e(6) u by simp
qed

lemma valid_scope_of:
  assumes "validate_store U b (YMap d) = []" "wf_doc d" "s \<in> set (m_scopes (from_store F d))"
  shows "s_prefix_from s = []" "s_prefixes s \<noteq> []" "s_secret s \<noteq> []" "\<forall>p \<in> set (s_prefixes s). canonical_cidr (YStr p) = Some p"
proof -
  from assms(3) obtain n v where nv: "(n, v) \<in> set (section_of d ''scopes'')" "s = scope_of_entry F (n, sorted_copy v)"
    by (auto simp: from_store_sets)
  from valid_scope_entry [OF assms(1,2) nv(1)] obtain e ps x where e: "v = YMap e" "yval_at e ''prefixes'' = YList (map YStr ps)"
    "ps \<noteq> []" "\<forall>p \<in> set ps. canonical_cidr (YStr p) = Some p" "yval_at e ''secret'' = YStr x" "x \<noteq> []" by blast
  have "s_prefixes s = ps" "s_secret s = x" "s_prefix_from s = []"
    using nv(2) e by (simp_all add: scope_entry_fields str_list_strs)
  with e show "s_prefix_from s = []" "s_prefixes s \<noteq> []" "s_secret s \<noteq> []"
    "\<forall>p \<in> set (s_prefixes s). canonical_cidr (YStr p) = Some p" by simp_all
qed

text \<open>
  C14: the model of a store that validates satisfies what the routing theorems assume - canonical prefixes,
  none of them carved - and the model's own validator has nothing to say of it beyond an empty
  section or a secret that is still a placeholder: the two validators agree on every reference.
\<close>

theorem valid_store_model:
  assumes "validate_store U b (YMap d) = []" "wf_doc d"
  shows "stored_prefixes_ok (from_store F d) \<and>
    set (validate_view (from_store F d) full) \<subseteq> {NoUsers, NoScopes} \<union> range PlaceholderSecret"
proof
  let ?m = "from_store F d"
  show "stored_prefixes_ok ?m"
    using valid_scope_of [OF assms] by (simp add: stored_prefixes_ok_def)
  have "set (scope_problems full s) \<subseteq> range PlaceholderSecret" if "s \<in> set (scopes_in_order ?m)" for s
  proof -
    from that have "s \<in> set (m_scopes ?m)" by (auto simp: scopes_in_order_def map_filter_def find_scope_def dest: found_mem)
    from valid_scope_of [OF assms this] show ?thesis by (auto simp: scope_problems_def)
  qed
  moreover have "user_problems ?m u = []" if "u \<in> set (List.map_filter (find_user ?m) (user_names ?m))" for u
  proof -
    from that have "u \<in> set (m_users ?m)" by (auto simp: map_filter_def find_user_def dest: found_mem)
    from valid_user_of [OF assms this] show ?thesis by (simp add: user_problems_def filter_empty_conv)
  qed
  ultimately show "set (validate_view ?m full) \<subseteq> {NoUsers, NoScopes} \<union> range PlaceholderSecret"
    unfolding validate_view_def by fastforce
qed

theorem valid_store_model_witness:
  "stored_prefixes_ok (from_store \<lparr>pf_print = (\<lambda>_. False), pf_float = (\<lambda>_. [])\<rparr> sample_store)"
  using valid_store_model [OF sample_store_valid sample_store_wf] by blast

section \<open>Lockdown\<close>

lemma find_map_named:
  assumes "\<And>x. x \<in> set xs \<Longrightarrow> P (f x) = P x"
  shows "find P (map f xs) = map_option f (find P xs)"
  using assms by (induction xs) auto

lemma cut_member_fields:
  "u_name (cut_member l u) = u_name u" "u_group (cut_member l u) = u_group u"
  "set (u_scopes (cut_member l u)) = {s \<in> set (u_scopes u). u_group u \<notin> set (locked_groups l s)}"
  by (auto simp: cut_member_def Let_def list_ex_iff)

lemma without_members_users: "m_users (without_members l m) = map (cut_member l) (m_users m)"
proof (cases "l = []")
  case True
  have "cut_member [] u = u" for u by (simp add: cut_member_def locked_groups_def list_ex_iff)
  then have "map (cut_member []) (m_users m) = m_users m" by (intro map_idI) simp
  with True show ?thesis by (simp add: without_members_def)
qed (simp add: without_members_def)

lemma find_user_without: "find_user (without_members l m) n = map_option (cut_member l) (find_user m n)"
  by (simp add: find_user_def without_members_users find_map_named cut_member_fields)

lemma user_names_without: "user_names (without_members l m) = user_names m"
  by (simp add: user_names_def without_members_users comp_def cut_member_fields)

lemma find_user_distinct:
  "distinct (map u_name (m_users m)) \<Longrightarrow> find_user m n = Some u \<longleftrightarrow> u \<in> set (m_users m) \<and> u_name u = n"
  unfolding find_user_def
proof (induction "m_users m" arbitrary: m)
  case Nil
  then show ?case by simp
next
  case (Cons x xs)
  have "xs = m_users \<lparr>m_groups = [], m_users = xs, m_scopes = [], m_allow = [], m_deny = []\<rparr>" by simp
  from Cons(1) [OF this] Cons(2,3) show ?case by (auto simp: Cons(2) [symmetric] image_iff)
qed

text \<open>
  C17: locking a scope for some groups takes out exactly the members the lockdown lists - the users of
  these groups that hold the scope - and leaves every other membership, the groups, the scopes and the
  filters as they are.
\<close>

theorem lockdown_exact:
  assumes "distinct (map u_name (m_users m))"
  shows "members (without_members locked m) scope =
      filter (\<lambda>n. n \<notin> set (map u_name (locked_out m scope (locked_groups locked scope)))) (members m scope) \<and>
    m_scopes (without_members locked m) = m_scopes m \<and> m_groups (without_members locked m) = m_groups m \<and>
    m_allow (without_members locked m) = m_allow m \<and> m_deny (without_members locked m) = m_deny m"
proof -
  let ?out = "set (map u_name (locked_out m scope (locked_groups locked scope)))"
  have "(case find_user (without_members locked m) n of Some u \<Rightarrow> scope \<in> set (u_scopes u) | None \<Rightarrow> False) \<longleftrightarrow>
      (case find_user m n of Some u \<Rightarrow> scope \<in> set (u_scopes u) | None \<Rightarrow> False) \<and> n \<notin> ?out" for n
  proof (cases "find_user m n")
    case None
    then show ?thesis by (simp add: find_user_without)
  next
    case (Some u)
    then have u: "u \<in> set (m_users m)" "u_name u = n" by (simp_all add: find_user_distinct [OF assms])
    moreover have "v = u" if "v \<in> set (m_users m)" "u_name v = n" for v
      using that Some find_user_distinct [OF assms, of n v] by simp
    ultimately have one: "{v \<in> set (m_users m). u_name v = n} = {u}" by blast
    have "set (locked_out m scope gs) \<inter> {v. u_name v = n} =
        {v \<in> {v \<in> set (m_users m). u_name v = n}. u_group v \<in> set gs \<and> scope \<in> set (u_scopes v)}" for gs
      unfolding locked_out_def by auto
    moreover have "n \<in> ?out \<longleftrightarrow> set (locked_out m scope (locked_groups locked scope)) \<inter> {v. u_name v = n} \<noteq> {}" by auto
    ultimately have "n \<in> ?out \<longleftrightarrow> u_group u \<in> set (locked_groups locked scope) \<and> scope \<in> set (u_scopes u)"
      unfolding one by auto
    with Some show ?thesis by (auto simp: find_user_without cut_member_fields)
  qed
  then have "members (without_members locked m) scope = filter (\<lambda>n. n \<notin> ?out) (members m scope)"
    unfolding members_def user_names_without filter_filter by (intro filter_cong refl)
  then show ?thesis by (simp add: without_members_def)
qed

definition lock_user :: "string \<Rightarrow> string \<Rightarrow> user" where
  "lock_user n g = \<lparr>u_name = n, u_group = g, u_scopes = [''lab'', ''campus''], u_hash = ''h'', u_disabled = False, u_changed = [],
     u_sink = False, u_change_required = False, u_email = [], u_max_size = None, u_max_count = None\<rparr>"

theorem lockdown_exact_witness:
  "members (without_members [(''lab'', [''operator''])] (two_scopes\<lparr>m_users := [lock_user ''ann'' ''operator'', lock_user ''bob'' ''readonly'']\<rparr>)) ''lab'' = [''bob'']"
proof -
  let ?m = "two_scopes\<lparr>m_users := [lock_user ''ann'' ''operator'', lock_user ''bob'' ''readonly'']\<rparr>"
  have "distinct (map u_name (m_users ?m))" by (simp add: lock_user_def)
  moreover have "filter (\<lambda>n. n \<notin> set (map u_name (locked_out ?m ''lab'' (locked_groups [(''lab'', [''operator''])] ''lab''))))
      (members ?m ''lab'') = [''bob'']" by code_simp
  ultimately show ?thesis using lockdown_exact [of ?m "[(''lab'', [''operator''])]" "''lab''"] by simp
qed

section \<open>The routing order of the scopes\<close>

text \<open>
  The order in which scopes are listed is a permutation of the scopes: the scopes of the routing pairs,
  each at its first pair, then the others in name order.
\<close>

theorem scopes_by_routing_complete:
  assumes "distinct (map s_name (m_scopes m))"
  shows "distinct (scopes_by_routing m) \<and> set (scopes_by_routing m) = set (map s_name (m_scopes m)) \<and>
    mset (scopes_by_routing m) = mset (map s_name (m_scopes m))"
proof -
  have sub: "set (map rp_scope (routing_pairs m)) \<subseteq> set (map s_name (m_scopes m))"
    by (auto simp: routing_pairs_def scope_pairs_def map_filter_def Let_def)
  have d: "distinct (scopes_by_routing m)"
    using assms by (auto simp: scopes_by_routing_def Let_def)
  have s: "set (scopes_by_routing m) = set (map s_name (m_scopes m))"
    using sub by (auto simp: scopes_by_routing_def Let_def)
  show ?thesis using d s set_eq_iff_mset_eq_distinct [OF d assms] by blast
qed

theorem scopes_by_routing_complete_witness: "mset (scopes_by_routing two_scopes) = {#''campus'', ''lab''#}"
  using scopes_by_routing_complete [of two_scopes] by (simp add: two_scopes_def)

end
