(* ===== verification/ApplyTypes.thy ===== *)
theory ApplyTypes
  imports NameFormats "HOL-Library.Sublist"
begin

text \<open>
  The data of \<open>internal/devapply\<close>: the exits and the outcome words (\<open>outcome.go\<close>), the commit history and
  its pending marker (\<open>transport.go\<close>), the delta and the normalised compare a transaction handles
  (\<open>devconf/plan\<close>: \<open>delta.go\<close>, \<open>compare_text.go\<close>), the choice of the transport (\<open>choose.go\<close>), and the pure
  part of the state's reading: what the history says became of a confirmed commit (\<open>settle\<close> of
  \<open>driver.go\<close>). The words of reasons are not modelled. A time is a number of nanoseconds.
\<close>

section \<open>Exits\<close>

datatype exit_code =
    ExFailed | ExFailedLoad | ExFailedCheck | ExNoChange | ExChecked | ExNothingCommitted | ExRolledBack
  | ExPending | ExWindowShort | ExApplied | ExAppliedByOther | ExUnknown | ExInterrupted

datatype result_word = ResChecked | ResNoChange | ResPending | ResApplied | ResRolledBack | ResFailed | ResUnknown

fun result_of :: "exit_code \<Rightarrow> result_word" where
  "result_of ExChecked = ResChecked"
| "result_of ExNoChange = ResNoChange"
| "result_of ExPending = ResPending"
| "result_of ExWindowShort = ResPending"
| "result_of ExApplied = ResApplied"
| "result_of ExAppliedByOther = ResApplied"
| "result_of ExRolledBack = ResRolledBack"
| "result_of ExUnknown = ResUnknown"
| "result_of _ = ResFailed"

text \<open>\<open>NameMatches\<close>: the name a device reports against the registry's.\<close>

definition first_label :: "string \<Rightarrow> string" where
  "first_label n = takeWhile (\<lambda>c. c \<noteq> CHR ''.'') n"

definition name_matches :: "unicode \<Rightarrow> string \<Rightarrow> string list \<Rightarrow> bool" where
  "name_matches U reported names =
     (let r = to_lower U (trim_space reported)
      in r \<noteq> [] \<and> list_ex (\<lambda>n. let n = to_lower U (trim_space n) in n \<noteq> [] \<and> (r = n \<or> r = first_label n)) names)"

section \<open>The delta and the compare\<close>

datatype op = OpSet | OpDelete | OpInsert | OpLine | OpNo | OpStep | OpPaste | OpComment

record line =
  l_section :: string
  l_op :: op
  l_text :: string
  l_context :: "string list"

record delta =
  d_vendor :: string
  d_lines :: "line list"
  d_sections :: "(string \<times> string) list"
  d_placeholders :: int

definition delta_empty :: "delta \<Rightarrow> bool" where
  "delta_empty d \<longleftrightarrow> d_lines d = []"

definition line_same :: "line \<Rightarrow> line \<Rightarrow> bool" where
  "line_same l m \<longleftrightarrow> l_section l = l_section m \<and> l_op l = l_op m \<and> l_text l = l_text m \<and> l_context l = l_context m"

definition delta_equal :: "delta \<Rightarrow> delta \<Rightarrow> bool" where
  "delta_equal d e \<longleftrightarrow> length (d_lines d) = length (d_lines e) \<and> list_all (\<lambda>(l, m). line_same l m) (zip (d_lines d) (d_lines e))"

definition delta_planned :: "delta \<Rightarrow> string list" where
  "delta_planned d = map fst (filter (\<lambda>s. snd s = ''planned'') (d_sections d))"

definition family_junos :: "unicode \<Rightarrow> string \<Rightarrow> bool" where
  "family_junos U vendor \<longleftrightarrow> to_lower U (trim_space vendor) \<in> {''junos'', ''juniper''}"

record compare_stmt =
  cm_op :: char
  cm_path :: "string list"

record compare_text =
  ct_stmts :: "compare_stmt list"
  ct_ids :: "string list list"

definition compare_ident :: "compare_text \<Rightarrow> nat \<Rightarrow> string list" where
  "compare_ident c i =
     (let path = cm_path (ct_stmts c ! i)
      in if i < length (ct_ids c) \<and> length (ct_ids c ! i) = length path then ct_ids c ! i else path)"

definition compare_empty :: "compare_text \<Rightarrow> bool" where
  "compare_empty c \<longleftrightarrow> ct_stmts c = []"

definition compare_equal :: "compare_text \<Rightarrow> compare_text \<Rightarrow> bool" where
  "compare_equal c d \<longleftrightarrow> length (ct_stmts c) = length (ct_stmts d) \<and>
     list_all (\<lambda>i. cm_op (ct_stmts c ! i) = cm_op (ct_stmts d ! i) \<and> cm_path (ct_stmts c ! i) = cm_path (ct_stmts d ! i) \<and>
                   compare_ident c i = compare_ident d i) [0..<length (ct_stmts c)]"

section \<open>The commit history\<close>

record commit_entry =
  en_text :: string
  en_user :: string
  en_via :: string
  en_rollback_in :: int
  en_comment :: string

definition no_entry :: commit_entry where
  "no_entry = \<lparr>en_text = [], en_user = [], en_via = [], en_rollback_in = 0, en_comment = []\<rparr>"

record commit_state =
  cs_history :: "commit_entry list"
  cs_pending :: bool
  cs_minutes :: int

definition entry_same :: "commit_entry \<Rightarrow> commit_entry \<Rightarrow> bool" where
  "entry_same e f \<longleftrightarrow> en_text e = en_text f \<and> en_user e = en_user f \<and> en_via e = en_via f \<and>
     en_comment e = en_comment f \<and> en_rollback_in e = en_rollback_in f"

definition commit_comment :: "string \<Rightarrow> string" where
  "commit_comment i = ''tacctl apply '' @ i @ '' by ''"

definition confirm_comment :: "string \<Rightarrow> string" where
  "confirm_comment i = ''tacctl apply confirm '' @ i @ '' by ''"

definition cancel_comment :: "string \<Rightarrow> string" where
  "cancel_comment i = ''tacctl apply cancel '' @ i"

definition ours :: "commit_entry \<Rightarrow> string \<Rightarrow> bool" where
  "ours e i \<longleftrightarrow> prefix (commit_comment i) (en_comment e)"

text \<open>An entry that reads as the device's own rollback.\<close>

definition expiry :: "commit_entry \<Rightarrow> bool" where
  "expiry e \<longleftrightarrow> en_user e = ''root'' \<and> en_via e = ''other'' \<and> en_comment e = []"

section \<open>What the history says of a confirmed commit\<close>

datatype facts_need = FactsNo | FactsRequired | FactsPreferred

record settled =
  sd_exit :: exit_code
  sd_entry :: "commit_entry option"
  sd_facts :: facts_need
  sd_over :: bool
  sd_until :: "int option"

definition settled_as :: "exit_code \<Rightarrow> settled" where
  "settled_as e = \<lparr>sd_exit = e, sd_entry = None, sd_facts = FactsNo, sd_over = False, sd_until = None\<rparr>"

definition minute :: int where
  "minute = 60000000000"

definition settle_slack :: int where
  "settle_slack = minute"

text \<open>The place of the commit of an apply in the history.\<close>

fun our_index :: "string \<Rightarrow> commit_entry list \<Rightarrow> nat option" where
  "our_index i [] = None"
| "our_index i (e # h) = (if ours e i then Some 0 else map_option Suc (our_index i h))"

text \<open>\<open>fate\<close>: what the entry directly above the commit says of it.\<close>

definition fate :: "commit_entry list \<Rightarrow> nat \<Rightarrow> string \<Rightarrow> settled" where
  "fate h k i =
     (let nxt = h ! (k - 1)
      in if prefix (confirm_comment i) (en_comment nxt) \<and> en_rollback_in nxt = 0
         then (settled_as ExApplied)\<lparr>sd_entry := Some nxt\<rparr>
         else if prefix (cancel_comment i) (en_comment nxt) then settled_as ExRolledBack
         else (settled_as ExUnknown)\<lparr>sd_facts := FactsRequired\<rparr>)"

definition settle :: "commit_state \<Rightarrow> string \<Rightarrow> commit_entry \<Rightarrow> int \<Rightarrow> int option \<Rightarrow> settled" where
  "settle st i pre now1 til =
     (let h = cs_history st; k = our_index i h
      in if cs_pending st
         then (case k of
                 Some 0 \<Rightarrow> settled_as ExPending
               | None \<Rightarrow> settled_as ExUnknown
               | Some (Suc 0) \<Rightarrow> settled_as ExUnknown
               | Some j \<Rightarrow>
                   (let s = fate h j i
                    in if sd_exit s = ExUnknown \<and> \<not> expiry (h ! (j - 1)) then settled_as ExUnknown
                       else s\<lparr>sd_over := True, sd_until := Some (now1 + (cs_minutes st + 1) * minute)\<rparr>))
         else (case k of
                 None \<Rightarrow> if en_text pre \<noteq> [] \<and> (case h of e # _ \<Rightarrow> entry_same e pre | [] \<Rightarrow> False)
                         then settled_as ExNothingCommitted else settled_as ExUnknown
               | Some 0 \<Rightarrow>
                   (case til of
                      None \<Rightarrow> settled_as ExUnknown
                    | Some u \<Rightarrow> if now1 < u + settle_slack then settled_as ExPending
                                else (settled_as ExAppliedByOther)\<lparr>sd_facts := FactsPreferred\<rparr>)
               | Some j \<Rightarrow> fate h j i))"

section \<open>The transport of a change\<close>

datatype setting = SettingAuto | SettingCLI | SettingNetconf

datatype via = ViaCLI | ViaNetconf

datatype choice_reason =
    NoReason | ReasonServiceChange | ReasonNotProbed | ReasonPortClosed | ReasonNoHello

record choice =
  ch_via :: via
  ch_reason :: choice_reason
  ch_fail :: bool

definition plain_choice :: "via \<Rightarrow> choice_reason \<Rightarrow> choice" where
  "plain_choice v r = \<lparr>ch_via = v, ch_reason = r, ch_fail = False\<rparr>"

definition choose_transport :: "setting \<Rightarrow> string \<Rightarrow> bool \<Rightarrow> bool \<Rightarrow> choice" where
  "choose_transport s probe service_change cli_only =
     (if cli_only then plain_choice ViaCLI NoReason
      else if s = SettingCLI then plain_choice ViaCLI NoReason
      else if service_change \<and> s = SettingNetconf then \<lparr>ch_via = ViaCLI, ch_reason = NoReason, ch_fail = True\<rparr>
      else if service_change then plain_choice ViaCLI ReasonServiceChange
      else if s = SettingNetconf then plain_choice ViaNetconf NoReason
      else if probe = ''hello ok'' then plain_choice ViaNetconf NoReason
      else if probe = ''port closed'' then plain_choice ViaCLI ReasonPortClosed
      else if probe = ''no hello'' then plain_choice ViaCLI ReasonNoHello
      else plain_choice ViaCLI ReasonNotProbed)"

end
