(* ===== verification/Apply.thy ===== *)
theory Apply
  imports ApplyTypes
begin

text \<open>
  \<open>devapply/driver.go\<close>: one device's transaction, from the pre-flight to the confirmed commit, its verification,
  the confirm and its record, with every early return, the cancel and the reading of the state. The
  transport, the planner, the clock and the callbacks are functions of a world \<open>'w\<close> that may answer
  anything, fail, or panic (an index out of range in the driver is a panic too). The transaction is written in
  continuation-passing style, so that an early return drops what follows, as it does in the code. A log
  records what was typed in the held session, whether it was answered, and what was read.
\<close>

section \<open>The world\<close>

datatype ans_error = AuthRefused | OtherError

datatype 'a ans = Ok 'a | Err ans_error | Panicked

type_synonym ('w, 'a) call = "'w \<Rightarrow> 'a ans \<times> 'w"

text \<open>A login that reads: \<open>Reader\<close>.\<close>

record 'w reader =
  rd_state :: "('w, commit_state) call"
  rd_class :: "('w, string) call"
  rd_landed :: "delta \<Rightarrow> ('w, compare_text) call"
  rd_rollback :: "nat \<Rightarrow> ('w, compare_text) call"
  rd_read :: "('w, string) call"

text \<open>
  \<open>Input\<close>, the driver's margins and \<open>Transport\<close>. \<open>e_held\<close> reads through the held login, \<open>e_fresh\<close> through
  the verification's. The allow-list (\<open>plan.Allow\<close> of the delta and the login's class), the statements of a
  compare that the delta does not explain, and the shape are functions of \<open>devconf/plan\<close>.
\<close>

record 'w env =
  e_unicode :: unicode
  e_wired :: bool
  e_device :: string
  e_names :: "string list"
  e_login :: string
  e_login_class :: string
  e_minutes :: int
  e_word_ok :: bool
  e_state_dir :: bool
  e_min_window :: int
  e_cancel_margin :: int
  e_vendor :: string
  e_held :: "'w reader"
  e_fresh :: "'w reader"
  e_lock :: "'w \<Rightarrow> bool \<times> 'w"
  e_new_id :: "'w \<Rightarrow> string option \<times> 'w"
  e_now :: "'w \<Rightarrow> int \<times> 'w"
  e_done :: "'w \<Rightarrow> bool \<times> 'w"
  e_cancelled :: "'w \<Rightarrow> bool"
  e_identity :: "('w, string) call"
  e_confirms :: "'w \<Rightarrow> bool"
  e_plan :: "string \<Rightarrow> ('w, delta) call"
  e_ready :: "delta \<Rightarrow> string \<Rightarrow> bool"
  e_check_delta :: "delta \<Rightarrow> string \<Rightarrow> bool"
  e_allow :: "delta \<Rightarrow> string \<Rightarrow> string \<Rightarrow> bool"
  e_unexplained :: "compare_text \<Rightarrow> delta \<Rightarrow> nat"
  e_shape :: "delta \<Rightarrow> string"
  e_dirty :: "('w, bool \<times> bool) call"
  e_pause :: "('w, unit) call option"
  e_open :: "('w, unit) call"
  e_is_held :: "'w \<Rightarrow> bool"
  e_load :: "line \<Rightarrow> ('w, bool) call"
  e_compare :: "delta \<Rightarrow> ('w, compare_text) call"
  e_commit_check :: "('w, unit) call"
  e_commit :: "int \<Rightarrow> string \<Rightarrow> ('w, unit) call"
  e_committed :: "('w, unit) call option"
  e_verify :: "('w, unit) call option"
  e_verify_login :: "(string \<Rightarrow> ('w, unit) call) option"
  e_verify_service :: "(delta \<Rightarrow> ('w, string) call) option"
  e_hold :: "(int option \<Rightarrow> ('w, bool) call) option"
  e_confirm :: "string \<Rightarrow> ('w, unit) call"
  e_cancel :: "string \<Rightarrow> ('w, unit) call"
  e_revert :: "string \<Rightarrow> ('w, unit) call"
  e_discard :: "('w, unit) call"
  e_file_shape :: "string \<Rightarrow> 'w \<Rightarrow> bool \<times> 'w"

datatype cmd = TOpen | TLoad line | TCheck | TCommit | TConfirm | TCancel | TRevert | TDiscard

datatype event =
    Typed cmd bool
  | Saw commit_state
  | Shown compare_text
  | Landed compare_text
  | Replanned delta
  | Rolled nat compare_text

section \<open>One transaction's state\<close>

record 'w run =
  r_world :: 'w
  r_log :: "event list"
  r_id :: string
  r_pre :: commit_entry
  r_compare :: compare_text
  r_delta :: delta
  r_window_end :: int
  r_vr :: bool
  r_committing :: bool
  r_no_banner :: bool
  o_exit :: "exit_code option"
  o_step :: string
  o_sections :: "string list"
  o_shape :: string
  o_counts :: "nat \<times> nat \<times> nat"
  o_not_found :: nat
  o_until :: "int option"
  o_commit :: "commit_entry option"
  o_class :: string
  o_discarded :: bool
  o_interrupted :: bool
  o_login_refused :: bool
  o_service_proof :: string
  o_store_err :: bool

datatype 'w fin = Fin "'w run" | Panic "'w run"

type_synonym 'w after = "'w run \<Rightarrow> 'w fin"

definition no_compare :: compare_text where
  "no_compare = \<lparr>ct_stmts = [], ct_ids = []\<rparr>"

definition no_delta :: delta where
  "no_delta = \<lparr>d_vendor = [], d_lines = [], d_sections = [], d_placeholders = 0\<rparr>"

definition new_run :: "'w \<Rightarrow> 'w run" where
  "new_run w =
     \<lparr>r_world = w, r_log = [], r_id = [], r_pre = no_entry, r_compare = no_compare, r_delta = no_delta, r_window_end = 0,
      r_vr = False, r_committing = False, r_no_banner = False, o_exit = None, o_step = [], o_sections = [], o_shape = [],
      o_counts = (0, 0, 0), o_not_found = 0, o_until = None, o_commit = None, o_class = [], o_discarded = False,
      o_interrupted = False, o_login_refused = False, o_service_proof = [], o_store_err = False\<rparr>"

definition add_event :: "event \<Rightarrow> 'w run \<Rightarrow> 'w run" where
  "add_event ev r = r\<lparr>r_log := r_log r @ [ev]\<rparr>"

text \<open>\<open>end\<close>, and what follows it.\<close>

definition end_at :: "exit_code \<Rightarrow> 'w run \<Rightarrow> 'w run" where
  "end_at e r = r\<lparr>o_exit := Some e\<rparr>"

definition stop :: "exit_code \<Rightarrow> 'w after" where
  "stop e r = Fin (end_at e r)"

definition at_step :: "string \<Rightarrow> 'w run \<Rightarrow> 'w run" where
  "at_step s r = r\<lparr>o_step := s\<rparr>"

text \<open>A call to the world: what follows a failure, and what follows an answer.\<close>

definition ask :: "('w, 'a) call \<Rightarrow> 'w run \<Rightarrow> (ans_error \<Rightarrow> 'w after) \<Rightarrow> ('a \<Rightarrow> 'w after) \<Rightarrow> 'w fin" where
  "ask f r bad good =
     (case f (r_world r) of (a, w) \<Rightarrow>
        let r = r\<lparr>r_world := w\<rparr>
        in case a of Panicked \<Rightarrow> Panic r | Err e \<Rightarrow> bad e r | Ok x \<Rightarrow> good x r)"

definition type_cmd :: "cmd \<Rightarrow> ('w, 'a) call \<Rightarrow> 'w run \<Rightarrow> (ans_error \<Rightarrow> 'w after) \<Rightarrow> ('a \<Rightarrow> 'w after) \<Rightarrow> 'w fin" where
  "type_cmd c f r bad good =
     (case f (r_world r) of (a, w) \<Rightarrow>
        let r = add_event (Typed c (case a of Ok _ \<Rightarrow> True | _ \<Rightarrow> False)) (r\<lparr>r_world := w\<rparr>)
        in case a of Panicked \<Rightarrow> Panic r | Err e \<Rightarrow> bad e r | Ok x \<Rightarrow> good x r)"

definition ask_opt :: "('w, 'a) call option \<Rightarrow> 'w run \<Rightarrow> 'w after \<Rightarrow> 'w fin" where
  "ask_opt f r k = (case f of None \<Rightarrow> k r | Some g \<Rightarrow> ask g r (\<lambda>_. k) (\<lambda>_. k))"

definition clock :: "'w env \<Rightarrow> 'w run \<Rightarrow> (int \<Rightarrow> 'w after) \<Rightarrow> 'w fin" where
  "clock E r k = (case e_now E (r_world r) of (t, w) \<Rightarrow> k t (r\<lparr>r_world := w\<rparr>))"

definition when_done :: "'w env \<Rightarrow> 'w run \<Rightarrow> 'w after \<Rightarrow> 'w after \<Rightarrow> 'w fin" where
  "when_done E r yes no =
     (case e_done E (r_world r) of (b, w) \<Rightarrow> if b then yes (r\<lparr>r_world := w\<rparr>) else no (r\<lparr>r_world := w\<rparr>))"

definition see :: "'w reader \<Rightarrow> 'w run \<Rightarrow> (ans_error \<Rightarrow> 'w after) \<Rightarrow> (commit_state \<Rightarrow> 'w after) \<Rightarrow> 'w fin" where
  "see rd r bad good = ask (rd_state rd) r bad (\<lambda>st r. good st (add_event (Saw st) r))"

text \<open>Entry 0 of a history: an empty history is an index out of range.\<close>

definition entry0 :: "commit_state \<Rightarrow> 'w run \<Rightarrow> (commit_entry \<Rightarrow> 'w after) \<Rightarrow> 'w fin" where
  "entry0 st r k = (case cs_history st of [] \<Rightarrow> Panic r | e # _ \<Rightarrow> k e r)"

definition the_reader :: "'w env \<Rightarrow> 'w run \<Rightarrow> 'w reader" where
  "the_reader E r = (if r_vr r then e_fresh E else e_held E)"

section \<open>Before the commit\<close>

definition discard :: "'w env \<Rightarrow> exit_code \<Rightarrow> 'w after" where
  "discard E e r =
     type_cmd TDiscard (e_discard E) r
       (\<lambda>_ r. stop e (r\<lparr>o_discarded := False\<rparr>))
       (\<lambda>_ r. stop e (r\<lparr>o_discarded := True\<rparr>))"

definition interrupt_before_commit :: "'w env \<Rightarrow> 'w after" where
  "interrupt_before_commit E r = discard E ExInterrupted (r\<lparr>o_interrupted := e_cancelled E (r_world r)\<rparr>)"

text \<open>A failure before the commit: the interrupt's when the job ended meanwhile.\<close>

definition discard_unless_done :: "'w env \<Rightarrow> exit_code \<Rightarrow> 'w after" where
  "discard_unless_done E e r = when_done E r (interrupt_before_commit E) (discard E e)"

fun load_lines :: "'w env \<Rightarrow> string \<Rightarrow> line list \<Rightarrow> 'w run \<Rightarrow> 'w after \<Rightarrow> 'w fin" where
  "load_lines E class [] r k = k r"
| "load_lines E class (l # ls) r k =
     when_done E r (interrupt_before_commit E) (\<lambda>r.
       if \<not> e_allow E (r_delta r) class (l_text l) then discard E ExFailedLoad r
       else type_cmd (TLoad l) (e_load E l) r
         (\<lambda>_. discard_unless_done E ExFailedLoad)
         (\<lambda>missing r. load_lines E class ls (if missing then r\<lparr>o_not_found := Suc (o_not_found r)\<rparr> else r) k))"

section \<open>After the commit: reading the state\<close>

text \<open>
  \<open>state\<close>: on the fresh login if one is open, on the held login's connection, then on a new fresh login.
\<close>

definition held_state :: "'w env \<Rightarrow> 'w run \<Rightarrow> (ans_error \<Rightarrow> 'w after) \<Rightarrow> (commit_state \<Rightarrow> 'w after) \<Rightarrow> 'w fin" where
  "held_state E r bad good =
     see (e_held E) r
       (\<lambda>last r. case e_verify E of
                   None \<Rightarrow> bad last r
                 | Some v \<Rightarrow> ask v r bad (\<lambda>_ r. see (e_fresh E) (r\<lparr>r_vr := True\<rparr>) bad good))
       good"

definition read_commit_state :: "'w env \<Rightarrow> 'w run \<Rightarrow> (ans_error \<Rightarrow> 'w after) \<Rightarrow> (commit_state \<Rightarrow> 'w after) \<Rightarrow> 'w fin" where
  "read_commit_state E r bad good =
     (if r_vr r then see (e_fresh E) r (\<lambda>_ r. held_state E r bad good) good else held_state E r bad good)"

definition max_rollback :: nat where
  "max_rollback = 49"

definition unknown_of :: "settled \<Rightarrow> settled" where
  "unknown_of s = s\<lparr>sd_exit := ExUnknown, sd_entry := None\<rparr>"

text \<open>
  \<open>byRollbacks\<close>: the configuration against the one the commit produced and the one before it; whether the
  compares were made.
\<close>

definition rollback_verdict :: "commit_state \<Rightarrow> commit_state \<Rightarrow> settled \<Rightarrow> compare_text \<Rightarrow> compare_text \<Rightarrow> settled" where
  "rollback_verdict st again s aft before =
     (case cs_history again of
        [] \<Rightarrow> unknown_of s
      | e # _ \<Rightarrow>
          if cs_pending again \<noteq> cs_pending st \<or> \<not> entry_same e (hd (cs_history st)) then unknown_of s
          else if compare_empty aft = compare_empty before then unknown_of s
          else if compare_empty aft then s\<lparr>sd_exit := ExAppliedByOther, sd_entry := None\<rparr>
          else s\<lparr>sd_exit := ExRolledBack, sd_entry := None\<rparr>)"

definition by_rollbacks :: "'w reader \<Rightarrow> commit_state \<Rightarrow> string \<Rightarrow> settled \<Rightarrow> 'w run \<Rightarrow> (settled \<Rightarrow> bool \<Rightarrow> 'w after) \<Rightarrow> 'w fin" where
  "by_rollbacks rd st i s r k =
     (case our_index i (cs_history st) of
        None \<Rightarrow> k (unknown_of s) False r
      | Some n \<Rightarrow>
          if n + 1 > max_rollback \<or> n + 1 \<ge> length (cs_history st) then k (unknown_of s) False r
          else ask (rd_rollback rd n) r (\<lambda>_. k (unknown_of s) False)
            (\<lambda>aft r. ask (rd_rollback rd (n + 1)) (add_event (Rolled n aft) r) (\<lambda>_. k (unknown_of s) False)
              (\<lambda>before r. see rd (add_event (Rolled (n + 1) before) r) (\<lambda>_. k (unknown_of s) True)
                (\<lambda>again r. k (rollback_verdict st again s aft before) True r))))"

text \<open>
  \<open>settle\<close> of a run: the history, the device's rollbacks where it does not say, and never the planner's
  word (\<open>byFacts\<close> is always unknown).
\<close>

definition settle_run :: "'w env \<Rightarrow> commit_state \<Rightarrow> 'w run \<Rightarrow> (settled \<Rightarrow> 'w after) \<Rightarrow> 'w fin" where
  "settle_run E st r k =
     clock E r (\<lambda>t r.
       let s = settle st (r_id r) (r_pre r) t (o_until r); rd = the_reader E r
       in if sd_facts s = FactsNo then k s r
          else by_rollbacks rd st (r_id r) s r (\<lambda>s compared r.
            if compared then k s r
            else ask (rd_read rd) r (\<lambda>_. k (s\<lparr>sd_exit := ExUnknown\<rparr>))
              (\<lambda>raw r. ask (e_plan E raw) r (\<lambda>_. k (s\<lparr>sd_exit := ExUnknown\<rparr>)) (\<lambda>_. k (s\<lparr>sd_exit := ExUnknown\<rparr>)))))"

definition file_shape :: "'w env \<Rightarrow> 'w run \<Rightarrow> 'w run" where
  "file_shape E r =
     (if \<not> e_state_dir E \<or> o_shape r = [] then r
      else case e_file_shape E (o_shape r) (r_world r) of (bad, w) \<Rightarrow> r\<lparr>r_world := w, o_store_err := bad\<rparr>)"

text \<open>\<open>named\<close>: the exit settle found.\<close>

definition keep_stranger :: "settled \<Rightarrow> 'w run \<Rightarrow> 'w run" where
  "keep_stranger s r = (if sd_over s then r\<lparr>o_until := sd_until s\<rparr> else r)"

definition named :: "'w env \<Rightarrow> settled \<Rightarrow> 'w run \<Rightarrow> 'w after \<Rightarrow> 'w fin" where
  "named E s r k =
     (let fin1 = (\<lambda>r. k (keep_stranger s (end_at (sd_exit s) r)))
      in case sd_exit s of
           ExNothingCommitted \<Rightarrow>
             (let r = r\<lparr>o_until := None\<rparr>
              in if e_is_held E (r_world r)
                 then type_cmd TDiscard (e_discard E) r (\<lambda>_ r. fin1 (r\<lparr>o_discarded := False\<rparr>)) (\<lambda>_ r. fin1 (r\<lparr>o_discarded := True\<rparr>))
                 else fin1 r)
         | ExApplied \<Rightarrow>
             k (keep_stranger s (file_shape E ((end_at ExApplied (r\<lparr>o_commit := sd_entry s\<rparr>))\<lparr>o_until := None\<rparr>)))
         | ExAppliedByOther \<Rightarrow> fin1 (r\<lparr>o_until := None\<rparr>)
         | ExRolledBack \<Rightarrow> fin1 (r\<lparr>o_until := None\<rparr>)
         | _ \<Rightarrow> fin1 r)"

text \<open>The state read and named: the end of the cancel.\<close>

definition name_state :: "'w env \<Rightarrow> 'w after" where
  "name_state E r = read_commit_state E r (\<lambda>_. stop ExUnknown) (\<lambda>st r. settle_run E st r (\<lambda>s r. named E s r Fin))"

text \<open>\<open>cancel\<close>: in the held session only, with the margin left, and only over this apply's commit.\<close>

definition cancel_seen :: "'w env \<Rightarrow> commit_state \<Rightarrow> 'w after" where
  "cancel_seen E st r =
     entry0 st r (\<lambda>e r.
       if \<not> ours e (r_id r) then settle_run E st r (\<lambda>s r. named E s r Fin)
       else if cs_pending st
       then type_cmd TCancel (e_cancel E (r_id r)) r (\<lambda>_. name_state E) (\<lambda>_. name_state E)
       else type_cmd TRevert (e_revert E (r_id r)) r (\<lambda>_. name_state E) (\<lambda>_. name_state E))"

definition cancel_held :: "'w env \<Rightarrow> 'w after" where
  "cancel_held E r =
     (let r = at_step ''cancel'' r
      in if \<not> e_is_held E (r_world r) then name_state E r
         else clock E r (\<lambda>t r.
           if t > r_window_end r - e_cancel_margin E then name_state E r
           else see (e_held E) r
             (\<lambda>_ r. read_commit_state E r (\<lambda>_. stop ExUnknown) (cancel_seen E))
             (cancel_seen E)))"

definition cancel_commit :: "'w env \<Rightarrow> 'w after" where
  "cancel_commit E r =
     when_done E r (\<lambda>r. cancel_held E (r\<lparr>o_interrupted := (o_interrupted r \<or> e_cancelled E (r_world r))\<rparr>)) (cancel_held E)"

text \<open>\<open>readState\<close>, \<open>confirmedByOther\<close> and \<open>record\<close>.\<close>

definition read_state :: "'w env \<Rightarrow> bool \<Rightarrow> 'w after" where
  "read_state E cancel_pending r =
     read_commit_state E r (\<lambda>_. stop ExUnknown)
       (\<lambda>st r. settle_run E st r (\<lambda>s r.
         if sd_exit s = ExPending \<and> cancel_pending then cancel_commit E r else named E s r Fin))"

definition confirmed_by_other :: "'w env \<Rightarrow> 'w after" where
  "confirmed_by_other E r =
     see (e_held E) r (\<lambda>_. cancel_commit E)
       (\<lambda>st r. entry0 st r (\<lambda>e r.
         if cs_pending st \<and> ours e (r_id r) then cancel_commit E r
         else if cs_pending st \<or> \<not> ours e (r_id r) then settle_run E st r (\<lambda>s r. named E s r Fin)
         else type_cmd TDiscard (e_discard E) (end_at ExAppliedByOther (r\<lparr>o_until := None\<rparr>)) (\<lambda>_. Fin) (\<lambda>_. Fin)))"

definition record_commit :: "'w env \<Rightarrow> 'w after" where
  "record_commit E r =
     read_commit_state E r (\<lambda>_. stop ExUnknown)
       (\<lambda>st r. settle_run E st r (\<lambda>s r.
         if sd_exit s = ExPending then stop ExPending r
         else named E s r (\<lambda>r.
           if sd_exit s = ExApplied then type_cmd TDiscard (e_discard E) r (\<lambda>_. Fin) (\<lambda>_. Fin) else Fin r)))"

section \<open>The verification\<close>

text \<open>
  \<open>verify\<close>: on a fresh login the commit is tacctl's, the login and the service are as they must be, what
  landed is what the check showed, and nothing of the planned sections is left to do.
\<close>

definition verify_converged :: "'w env \<Rightarrow> 'w run \<Rightarrow> (bool \<Rightarrow> 'w after) \<Rightarrow> 'w fin" where
  "verify_converged E r k =
     ask (rd_read (e_fresh E)) r (\<lambda>_. k False) (\<lambda>raw r.
       ask (e_plan E raw) r (\<lambda>_. k False) (\<lambda>aft r.
         let r = add_event (Replanned aft) r
         in if list_ex (\<lambda>l. l_section l \<in> set (o_sections r)) (d_lines aft) then k False r
            else case e_hold E of
                   None \<Rightarrow> k True r
                 | Some h \<Rightarrow> ask (h (o_until r)) r (\<lambda>_. k False) k))"

definition verify_landed :: "'w env \<Rightarrow> 'w run \<Rightarrow> (bool \<Rightarrow> 'w after) \<Rightarrow> 'w fin" where
  "verify_landed E r k =
     ask (rd_landed (e_fresh E) (r_delta r)) r (\<lambda>_. k False) (\<lambda>landed r.
       let r = add_event (Landed landed) r
       in if e_unexplained E landed (r_delta r) > 0 then k False r
          else if \<not> compare_equal landed (r_compare r) then k False r
          else verify_converged E r k)"

definition verify_login :: "'w env \<Rightarrow> 'w run \<Rightarrow> (bool \<Rightarrow> 'w after) \<Rightarrow> 'w fin" where
  "verify_login E r k =
     ask (rd_class (e_fresh E)) r (\<lambda>_. k False) (\<lambda>lg r.
       let service = (\<lambda>r. case e_verify_service E of
             None \<Rightarrow> verify_landed E r k
           | Some f \<Rightarrow> ask (f (r_delta r)) r (\<lambda>_. k False) (\<lambda>note r. verify_landed E (r\<lparr>o_service_proof := note\<rparr>) k))
       in case e_verify_login E of None \<Rightarrow> service r | Some f \<Rightarrow> ask (f lg) r (\<lambda>_. k False) (\<lambda>_. service))"

definition verify :: "'w env \<Rightarrow> 'w run \<Rightarrow> (bool \<Rightarrow> 'w after) \<Rightarrow> 'w fin" where
  "verify E r k =
     (case e_verify E of
        None \<Rightarrow> Panic r
      | Some v \<Rightarrow>
          ask v r (\<lambda>e r. k False (if e = AuthRefused then r\<lparr>o_login_refused := True\<rparr> else r))
            (\<lambda>_ r. see (e_fresh E) (r\<lparr>r_vr := True\<rparr>) (\<lambda>_. k False) (\<lambda>st r. entry0 st r (\<lambda>e r.
               if \<not> cs_pending st \<and> ours e (r_id r) then verify_login E (r\<lparr>r_no_banner := True\<rparr>) k
               else if \<not> cs_pending st \<or> \<not> ours e (r_id r) then k False r
               else verify_login E r k))))"

section \<open>The transaction\<close>

definition confirm_step :: "'w env \<Rightarrow> 'w after" where
  "confirm_step E r =
     type_cmd TConfirm (e_confirm E (r_id r)) (at_step ''confirm'' r)
       (\<lambda>_. read_state E False) (\<lambda>_ r. record_commit E (at_step ''record'' r))"

definition window_step :: "'w env \<Rightarrow> 'w after" where
  "window_step E r =
     clock E (at_step ''window'' r) (\<lambda>t r.
       if t > r_window_end r - e_min_window E then stop ExWindowShort r
       else when_done E r (cancel_commit E) (confirm_step E))"

definition verify_step :: "'w env \<Rightarrow> 'w after" where
  "verify_step E r =
     verify E (at_step ''verify'' r) (\<lambda>passed r.
       if \<not> passed then when_done E r (cancel_commit E) (cancel_commit E)
       else if r_no_banner r then confirmed_by_other E r
       else window_step E r)"

definition after_commit :: "'w env \<Rightarrow> int \<Rightarrow> bool \<Rightarrow> 'w after" where
  "after_commit E sent answered r =
     clock E r (\<lambda>t r.
       ask_opt (e_committed E) (r\<lparr>r_window_end := sent + e_minutes E * minute, o_until := Some (t + e_minutes E * minute)\<rparr>)
         (if answered then verify_step E else read_state E True))"

definition commit_step :: "'w env \<Rightarrow> 'w after" where
  "commit_step E r =
     see (e_held E) (at_step ''commit'' r) (\<lambda>_. discard_unless_done E ExFailedCheck) (\<lambda>st r.
       if cs_pending st then discard E ExFailedCheck r
       else entry0 st r (\<lambda>e r.
         clock E (r\<lparr>r_pre := e\<rparr>) (\<lambda>sent r.
           type_cmd TCommit (e_commit E (e_minutes E) (r_id r)) (r\<lparr>r_committing := True\<rparr>)
             (\<lambda>_. after_commit E sent False) (\<lambda>_. after_commit E sent True))))"

definition check_step :: "'w env \<Rightarrow> bool \<Rightarrow> 'w after" where
  "check_step E apply1 r =
     see (e_held E) (at_step ''check'' r) (\<lambda>_. discard_unless_done E ExFailedCheck) (\<lambda>st r.
       if cs_pending st then entry0 st r (\<lambda>_. discard E ExFailedCheck)
       else type_cmd TCheck (e_commit_check E) r (\<lambda>_. discard_unless_done E ExFailedCheck) (\<lambda>_ r.
         if \<not> apply1 then discard E ExChecked r
         else when_done E r (interrupt_before_commit E) (commit_step E)))"

definition compare_step :: "'w env \<Rightarrow> bool \<Rightarrow> 'w after" where
  "compare_step E apply1 r =
     ask (e_compare E (r_delta r)) (at_step ''compare'' r) (\<lambda>_. discard_unless_done E ExFailedLoad) (\<lambda>c r.
       let r = add_event (Shown c) r
       in if compare_empty c then discard E ExNoChange r
          else if e_unexplained E c (r_delta r) > 0 then discard E ExFailedLoad r
          else check_step E apply1 (r\<lparr>r_compare := c\<rparr>))"

definition login_class :: "'w env \<Rightarrow> 'w run \<Rightarrow> string" where
  "login_class E r = (if e_login_class E = [] then o_class r else e_login_class E)"

definition open_step :: "'w env \<Rightarrow> bool \<Rightarrow> 'w after" where
  "open_step E apply1 r =
     type_cmd TOpen (e_open E) (at_step ''open'' r) (\<lambda>_. stop ExFailed) (\<lambda>_ r.
       load_lines E (login_class E r) (d_lines (r_delta r)) (at_step ''load'' r) (compare_step E apply1))"

definition gate_step :: "'w env \<Rightarrow> bool \<Rightarrow> 'w after" where
  "gate_step E apply1 r =
     ask (e_dirty E) (at_step ''gate'' r) (\<lambda>_. stop ExFailed) (\<lambda>(editors, staged) r.
       if editors \<or> staged then stop ExFailed r
       else when_done E r (\<lambda>r. stop ExInterrupted (r\<lparr>o_interrupted := e_cancelled E (r_world r)\<rparr>))
              (\<lambda>r. ask_opt (e_pause E) r (open_step E apply1)))"

definition allow_step :: "'w env \<Rightarrow> bool \<Rightarrow> 'w after" where
  "allow_step E apply1 r =
     (let r = at_step ''allow'' r; class = login_class E r
      in if \<not> e_ready E (r_delta r) class then stop ExFailed r
         else if \<not> e_check_delta E (r_delta r) class then stop ExFailed r
         else gate_step E apply1 r)"

definition op_count :: "op \<Rightarrow> delta \<Rightarrow> nat" where
  "op_count x d = length (filter (\<lambda>l. l_op l = x) (d_lines d))"

definition planned_run :: "'w env \<Rightarrow> delta \<Rightarrow> 'w run \<Rightarrow> 'w run" where
  "planned_run E d r =
     r\<lparr>r_delta := d, o_sections := delta_planned d, o_shape := e_shape E d,
       o_counts := (op_count OpSet d, op_count OpDelete d, op_count OpInsert d)\<rparr>"

definition read_step :: "'w env \<Rightarrow> delta option \<Rightarrow> 'w after" where
  "read_step E reviewed r =
     ask (rd_read (e_held E)) (at_step ''read'' r) (\<lambda>_. stop ExFailed) (\<lambda>raw r.
       ask (e_plan E raw) r (\<lambda>_. stop ExFailed) (\<lambda>d r.
         let r = planned_run E d r
         in if \<not> family_junos (e_unicode E) (d_vendor d) then stop ExFailed r
            else if (case reviewed of Some v \<Rightarrow> \<not> delta_equal d v | None \<Rightarrow> False) then stop ExFailed r
            else if d_placeholders d > 0 then stop ExFailed r
            else if delta_empty d then stop ExNoChange r
            else allow_step E (reviewed \<noteq> None) r))"

definition preflight_step :: "'w env \<Rightarrow> delta option \<Rightarrow> 'w after" where
  "preflight_step E reviewed r =
     (let r = at_step ''preflight'' r
      in if e_vendor E \<noteq> ''juniper'' then stop ExFailed r
         else ask (e_identity E) r (\<lambda>_. stop ExFailed) (\<lambda>host r.
           if \<not> name_matches (e_unicode E) host (e_names E) then stop ExFailed r
           else see (e_held E) r (\<lambda>_. stop ExFailed) (\<lambda>st r.
             if cs_pending st then stop ExFailed r
             else entry0 st r (\<lambda>e r.
               ask (rd_class (e_held E)) (r\<lparr>r_pre := e\<rparr>) (\<lambda>_. stop ExFailed) (\<lambda>class r.
                 let r = r\<lparr>o_class := class\<rparr>
                 in if \<not> e_confirms E (r_world r) then stop ExFailed r else read_step E reviewed r)))))"

section \<open>Around the transaction\<close>

text \<open>\<open>guarded\<close>: a panic is a named exit.\<close>

definition recovered :: "'w env \<Rightarrow> 'w run \<Rightarrow> 'w run" where
  "recovered E r =
     (if r_committing r
      then (case o_until r of
              Some _ \<Rightarrow> end_at ExUnknown r
            | None \<Rightarrow> (case e_now E (r_world r) of (t, w) \<Rightarrow>
                end_at ExUnknown (r\<lparr>r_world := w, o_until := Some (t + e_minutes E * minute)\<rparr>)))
      else if e_is_held E (r_world r)
      then (case e_discard E (r_world r) of (a, w) \<Rightarrow>
              end_at ExFailed (add_event (Typed TDiscard (a = Ok ())) (r\<lparr>r_world := w, o_discarded := (a = Ok ())\<rparr>)))
      else end_at ExFailed (r\<lparr>o_discarded := False\<rparr>))"

definition guarded :: "'w env \<Rightarrow> delta option \<Rightarrow> 'w run \<Rightarrow> 'w run" where
  "guarded E reviewed r = (case preflight_step E reviewed r of Fin r \<Rightarrow> r | Panic r \<Rightarrow> recovered E r)"

definition min_confirm_minutes :: int where
  "min_confirm_minutes = 3"

definition max_confirm_minutes :: int where
  "max_confirm_minutes = 60"

definition input_valid :: "'w env \<Rightarrow> bool \<Rightarrow> bool" where
  "input_valid E apply1 \<longleftrightarrow>
     e_wired E \<and> e_names E \<noteq> [] \<and> e_device E \<noteq> [] \<and> e_login E \<noteq> [] \<and>
     (if apply1 then e_verify E \<noteq> None \<and> min_confirm_minutes \<le> e_minutes E \<and> e_minutes E \<le> max_confirm_minutes \<and> e_word_ok E else True)"

definition margins :: "'w env \<Rightarrow> 'w env" where
  "margins E =
     E\<lparr>e_min_window := (if e_min_window E \<le> 0 then minute else e_min_window E),
       e_cancel_margin := (if e_cancel_margin E \<le> 0 then 30000000000 else e_cancel_margin E)\<rparr>"

text \<open>\<open>finish\<close>: no transaction ends without a named exit.\<close>

definition finish :: "'w env \<Rightarrow> 'w run \<Rightarrow> 'w run" where
  "finish E r =
     (let r = (if o_exit r = None then end_at ExUnknown r else r)
      in r\<lparr>r_vr := False, o_interrupted := (o_interrupted r \<or> e_cancelled E (r_world r))\<rparr>)"

definition run_transaction :: "'w env \<Rightarrow> delta option \<Rightarrow> 'w \<Rightarrow> 'w run" where
  "run_transaction E0 reviewed w =
     (let E = margins E0; r = new_run w
      in finish E
        (if \<not> input_valid E (reviewed \<noteq> None) then end_at ExFailed (at_step ''input'' r)
         else case (if e_state_dir E then e_lock E w else (True, w)) of (locked, w) \<Rightarrow>
           let r = r\<lparr>r_world := w\<rparr>
           in if \<not> locked then end_at ExFailed (at_step ''lock'' r)
              else case e_new_id E w of (idopt, w) \<Rightarrow>
                let r = r\<lparr>r_world := w\<rparr>
                in (case idopt of
                      None \<Rightarrow> end_at ExFailed (at_step ''input'' r)
                    | Some i \<Rightarrow> guarded E reviewed (r\<lparr>r_id := i\<rparr>))))"

definition apply_change :: "'w env \<Rightarrow> delta \<Rightarrow> 'w \<Rightarrow> 'w run" where
  "apply_change E reviewed w = run_transaction E (Some reviewed) w"

definition check_change :: "'w env \<Rightarrow> 'w \<Rightarrow> 'w run" where
  "check_change E w = run_transaction E None w"

section \<open>Reconciling a record\<close>

text \<open>
  \<open>ReconcileAt\<close> of \<open>reconcile.go\<close>: a pending record settled by a login that reads. The planner's word never
  names the state.
\<close>

definition reconciled :: "settled \<Rightarrow> 'w after" where
  "reconciled s r =
     (let r = end_at (sd_exit s) r
      in Fin (keep_stranger s
           (case sd_exit s of
              ExApplied \<Rightarrow> r\<lparr>o_commit := sd_entry s, o_until := None\<rparr>
            | ExAppliedByOther \<Rightarrow> r\<lparr>o_until := None\<rparr>
            | ExRolledBack \<Rightarrow> r\<lparr>o_until := None\<rparr>
            | _ \<Rightarrow> r)))"

definition reconcile_at :: "'w reader \<Rightarrow> (string \<Rightarrow> ('w, delta) call) option \<Rightarrow> string \<Rightarrow> int option \<Rightarrow> int \<Rightarrow> 'w \<Rightarrow> 'w fin" where
  "reconcile_at rd facts i til now1 w =
     (let r = (new_run w)\<lparr>r_id := i, o_step := ''reconcile'', o_until := til\<rparr>
      in see rd r (\<lambda>_. stop ExUnknown) (\<lambda>st r.
           let s = settle st i no_entry now1 til
           in if sd_facts s = FactsNo then reconciled s r
              else by_rollbacks rd st i s r (\<lambda>s compared r.
                if compared then reconciled s r
                else case facts of
                  None \<Rightarrow> reconciled s r
                | Some f \<Rightarrow> ask (rd_read rd) r (\<lambda>_. reconciled (s\<lparr>sd_exit := ExUnknown\<rparr>)) (\<lambda>raw r.
                    ask (f raw) r (\<lambda>_. reconciled (s\<lparr>sd_exit := ExUnknown\<rparr>)) (\<lambda>_. reconciled (s\<lparr>sd_exit := ExUnknown\<rparr>))))))"

end
