(* ===== verification/ApplyProps.thy ===== *)
theory ApplyProps
  imports Apply
begin

text \<open>
  The transaction implements an abstract protocol: the order in which the held session may type, what must have
  been read before, and what an exit rests on. The protocol is a step relation on phases; every
  transaction's log is one of its paths, whatever the device, the planner and the callbacks answer, and
  also when one of them panics.
\<close>

section \<open>The protocol\<close>

datatype phase =
    Idle
  | Loading delta "line list"
  | Compared delta compare_text
  | Ready delta compare_text
  | Checked delta compare_text
  | Current delta compare_text
  | Sent delta compare_text
  | Proven delta compare_text
  | Converged delta compare_text
  | Seen commit_state
  | Settling
  | Failing
  | Closed

text \<open>The phases from the confirmed commit on.\<close>

fun post :: "phase \<Rightarrow> bool" where
  "post (Sent d c) = True"
| "post (Proven d c) = True"
| "post (Converged d c) = True"
| "post (Seen st) = True"
| "post Settling = True"
| "post _ = False"

inductive pstep :: "(delta \<Rightarrow> line \<Rightarrow> bool) \<Rightarrow> string \<Rightarrow> phase \<Rightarrow> event \<Rightarrow> phase \<Rightarrow> bool" for A i where
  idle: "pstep A i Idle (Saw st) Idle"
| opened: "pstep A i Idle (Typed TOpen True) (Loading d (d_lines d))"
| refused: "pstep A i Idle (Typed TOpen False) Closed"
| loaded: "A d l \<Longrightarrow> pstep A i (Loading d (l # ls)) (Typed (TLoad l) True) (Loading d ls)"
| load_failed: "A d l \<Longrightarrow> pstep A i (Loading d (l # ls)) (Typed (TLoad l) False) Failing"
| compared: "pstep A i (Loading d []) (Shown c) (Compared d c)"
| ready: "\<not> cs_pending st \<Longrightarrow> pstep A i (Compared d c) (Saw st) (Ready d c)"
| not_ready: "cs_pending st \<Longrightarrow> pstep A i (Compared d c) (Saw st) Failing"
| checked: "pstep A i (Ready d c) (Typed TCheck True) (Checked d c)"
| check_failed: "pstep A i (Ready d c) (Typed TCheck False) Failing"
| current: "\<not> cs_pending st \<Longrightarrow> pstep A i (Checked d c) (Saw st) (Current d c)"
| not_current: "cs_pending st \<Longrightarrow> pstep A i (Checked d c) (Saw st) Failing"
| sent: "pstep A i (Current d c) (Typed TCommit True) (Sent d c)"
| unanswered: "pstep A i (Current d c) (Typed TCommit False) Settling"
| look: "pstep A i (Sent d c) (Saw st) (Sent d c)"
| landed: "compare_equal c' c \<Longrightarrow> pstep A i (Sent d c) (Landed c') (Proven d c)"
| converged: "\<forall>l \<in> set (d_lines a). l_section l \<notin> set (delta_planned d) \<Longrightarrow> pstep A i (Proven d c) (Replanned a) (Converged d c)"
| confirm: "pstep A i (Converged d c) (Typed TConfirm b) Settling"
| seen: "post ph \<Longrightarrow> pstep A i ph (Saw st) (Seen st)"
| mismatch: "post ph \<Longrightarrow> pstep A i ph (Landed c') Settling"
| unconverged: "post ph \<Longrightarrow> pstep A i ph (Replanned a) Settling"
| rolled: "post ph \<Longrightarrow> pstep A i ph (Rolled n c') Settling"
| cancel: "cs_pending st \<Longrightarrow> cs_history st = e # h \<Longrightarrow> ours e i \<Longrightarrow> pstep A i (Seen st) (Typed TCancel b) Settling"
| revert: "\<not> cs_pending st \<Longrightarrow> cs_history st = e # h \<Longrightarrow> ours e i \<Longrightarrow> pstep A i (Seen st) (Typed TRevert b) Settling"
| tidy: "post ph \<Longrightarrow> pstep A i ph (Typed TDiscard b) Settling"
| drop: "\<not> post ph \<Longrightarrow> pstep A i ph (Typed TDiscard b) Closed"

inductive path :: "(delta \<Rightarrow> line \<Rightarrow> bool) \<Rightarrow> string \<Rightarrow> event list \<Rightarrow> phase \<Rightarrow> bool" for A i where
  start: "path A i [] Idle"
| step: "path A i evs ph \<Longrightarrow> pstep A i ph ev ph' \<Longrightarrow> path A i (evs @ [ev]) ph'"

inductive_cases path_snocE: "path A i (evs @ [ev]) ph"
inductive_cases commit_stepE: "pstep A i ph (Typed TCommit b) ph'"
inductive_cases confirm_stepE: "pstep A i ph (Typed TConfirm b) ph'"

section \<open>What the protocol guarantees\<close>

definition commits :: "event list \<Rightarrow> bool" where
  "commits evs \<longleftrightarrow> (\<exists>b. Typed TCommit b \<in> set evs)"

lemma path_commits: "path A i evs ph \<Longrightarrow> commits evs = post ph"
proof (induction rule: path.induct)
  case start
  then show ?case by (simp add: commits_def)
next
  case (step evs ph ev ph')
  from step(2,3) show ?case by (cases rule: pstep.cases) (auto simp: commits_def)
qed

text \<open>What a phase remembers of the path to it.\<close>

definition loaded_all :: "event list \<Rightarrow> delta \<Rightarrow> bool" where
  "loaded_all evs d \<longleftrightarrow> (\<forall>l \<in> set (d_lines d). Typed (TLoad l) True \<in> set evs)"

definition matched :: "event list \<Rightarrow> compare_text \<Rightarrow> bool" where
  "matched evs c \<longleftrightarrow> Shown c \<in> set evs \<and> (\<exists>c'. Landed c' \<in> set evs \<and> compare_equal c' c)"

definition nothing_left :: "event list \<Rightarrow> delta \<Rightarrow> bool" where
  "nothing_left evs d \<longleftrightarrow> (\<exists>a. Replanned a \<in> set evs \<and> (\<forall>l \<in> set (d_lines a). l_section l \<notin> set (delta_planned d)))"

fun remembers :: "event list \<Rightarrow> phase \<Rightarrow> bool" where
  "remembers evs (Loading d ls) \<longleftrightarrow> (\<exists>us. d_lines d = us @ ls \<and> (\<forall>l \<in> set us. Typed (TLoad l) True \<in> set evs))"
| "remembers evs (Compared d c) \<longleftrightarrow> loaded_all evs d \<and> Shown c \<in> set evs"
| "remembers evs (Ready d c) \<longleftrightarrow> loaded_all evs d \<and> Shown c \<in> set evs"
| "remembers evs (Checked d c) \<longleftrightarrow> loaded_all evs d \<and> Shown c \<in> set evs \<and> Typed TCheck True \<in> set evs"
| "remembers evs (Current d c) \<longleftrightarrow> loaded_all evs d \<and> Shown c \<in> set evs \<and> Typed TCheck True \<in> set evs"
| "remembers evs (Sent d c) \<longleftrightarrow> loaded_all evs d \<and> Shown c \<in> set evs \<and> Typed TCheck True \<in> set evs \<and> Typed TCommit True \<in> set evs"
| "remembers evs (Proven d c) \<longleftrightarrow> loaded_all evs d \<and> matched evs c \<and> Typed TCheck True \<in> set evs \<and> Typed TCommit True \<in> set evs"
| "remembers evs (Converged d c) \<longleftrightarrow> loaded_all evs d \<and> matched evs c \<and> Typed TCheck True \<in> set evs \<and> Typed TCommit True \<in> set evs \<and>
     nothing_left evs d"
| "remembers evs (Seen st) \<longleftrightarrow> Saw st \<in> set evs"
| "remembers evs _ \<longleftrightarrow> True"

lemma path_remembers: "path A i evs ph \<Longrightarrow> remembers evs ph"
proof (induction rule: path.induct)
  case start
  then show ?case by simp
next
  case (step evs ph ev ph')
  from step(2,3) show ?case
    by (cases rule: pstep.cases) (auto simp: loaded_all_def matched_def nothing_left_def Cons_eq_append_conv append_eq_append_conv2)
qed

lemma path_prefix: "path A i evs ph \<Longrightarrow> evs = xs @ ev # ys \<Longrightarrow> \<exists>ph1 ph2. path A i xs ph1 \<and> pstep A i ph1 ev ph2"
proof (induction arbitrary: ys rule: path.induct)
  case start
  then show ?case by simp
next
  case (step evs ph ev' ph')
  then show ?case by (cases ys rule: rev_cases) auto
qed

section \<open>What an exit rests on\<close>

definition confirmed_in :: "string \<Rightarrow> commit_state \<Rightarrow> bool" where
  "confirmed_in i st \<longleftrightarrow> (\<exists>k. our_index i (cs_history st) = Some (Suc k) \<and>
     prefix (confirm_comment i) (en_comment (cs_history st ! k)) \<and> en_rollback_in (cs_history st ! k) = 0)"

definition cancelled_in :: "string \<Rightarrow> commit_state \<Rightarrow> bool" where
  "cancelled_in i st \<longleftrightarrow> (\<exists>k. our_index i (cs_history st) = Some (Suc k) \<and>
     prefix (cancel_comment i) (en_comment (cs_history st ! k)))"

text \<open>The device's rollbacks: the configuration is the one entry \<open>n\<close> produced and not the one entry \<open>m\<close> did.\<close>

definition runs_entry :: "string \<Rightarrow> event list \<Rightarrow> bool \<Rightarrow> bool" where
  "runs_entry i evs mine \<longleftrightarrow> (\<exists>st n aft before. Saw st \<in> set evs \<and> our_index i (cs_history st) = Some n \<and>
     Rolled n aft \<in> set evs \<and> Rolled (Suc n) before \<in> set evs \<and>
     compare_empty aft = mine \<and> compare_empty before = (\<not> mine))"

definition proven_unbannered :: "string \<Rightarrow> event list \<Rightarrow> bool" where
  "proven_unbannered i evs \<longleftrightarrow>
     (\<exists>st e h. Saw st \<in> set evs \<and> \<not> cs_pending st \<and> cs_history st = e # h \<and> ours e i) \<and>
     (\<exists>c c'. Shown c \<in> set evs \<and> Landed c' \<in> set evs \<and> compare_equal c' c)"

fun rests_on :: "string \<Rightarrow> commit_entry \<Rightarrow> event list \<Rightarrow> exit_code \<Rightarrow> bool" where
  "rests_on i pre evs ExApplied \<longleftrightarrow> (\<exists>st. Saw st \<in> set evs \<and> confirmed_in i st)"
| "rests_on i pre evs ExAppliedByOther \<longleftrightarrow> runs_entry i evs True \<or> proven_unbannered i evs"
| "rests_on i pre evs ExRolledBack \<longleftrightarrow> (\<exists>st. Saw st \<in> set evs \<and> cancelled_in i st) \<or> runs_entry i evs False"
| "rests_on i pre evs ExPending \<longleftrightarrow> (\<exists>st. Saw st \<in> set evs \<and> our_index i (cs_history st) = Some 0)"
| "rests_on i pre evs ExNothingCommitted \<longleftrightarrow>
     (\<exists>st e h. Saw st \<in> set evs \<and> \<not> cs_pending st \<and> our_index i (cs_history st) = None \<and> cs_history st = e # h \<and> entry_same e pre)"
| "rests_on i pre evs ExWindowShort \<longleftrightarrow> (\<exists>c c'. Shown c \<in> set evs \<and> Landed c' \<in> set evs \<and> compare_equal c' c)"
| "rests_on i pre evs e \<longleftrightarrow> True"

lemma runs_entry_mono: "runs_entry i evs mine \<Longrightarrow> set evs \<subseteq> set evs' \<Longrightarrow> runs_entry i evs' mine"
  unfolding runs_entry_def by (elim exE conjE) (intro exI conjI; (assumption | erule (1) subsetD [rotated]))

lemma proven_unbannered_mono: "proven_unbannered i evs \<Longrightarrow> set evs \<subseteq> set evs' \<Longrightarrow> proven_unbannered i evs'"
  unfolding proven_unbannered_def by (meson subsetD)

lemma rests_on_mono: "rests_on i pre evs e \<Longrightarrow> set evs \<subseteq> set evs' \<Longrightarrow> rests_on i pre evs' e"
proof (cases e)
  case ExAppliedByOther
  then show "rests_on i pre evs e \<Longrightarrow> set evs \<subseteq> set evs' \<Longrightarrow> rests_on i pre evs' e"
    by (auto dest: runs_entry_mono proven_unbannered_mono)
next
  case ExRolledBack
  then show "rests_on i pre evs e \<Longrightarrow> set evs \<subseteq> set evs' \<Longrightarrow> rests_on i pre evs' e"
    by (auto dest: runs_entry_mono)
qed auto

fun exit_fits :: "bool \<Rightarrow> exit_code \<Rightarrow> bool" where
  "exit_fits committed ExNothingCommitted = committed"
| "exit_fits committed ExRolledBack = committed"
| "exit_fits committed ExPending = committed"
| "exit_fits committed ExWindowShort = committed"
| "exit_fits committed ExApplied = committed"
| "exit_fits committed ExAppliedByOther = committed"
| "exit_fits committed ExUnknown = committed"
| "exit_fits committed _ = (\<not> committed)"

text \<open>What the history alone says rests on the history that was read.\<close>

lemma our_index_hd: "our_index i h = Some 0 \<longleftrightarrow> (\<exists>e t. h = e # t \<and> ours e i)"
  by (cases h) auto

lemma our_index_len: "our_index i h = Some n \<Longrightarrow> n < length h"
  by (induction h arbitrary: n) (auto split: if_splits)

lemma fate_cases:
  assumes "our_index i (cs_history st) = Some (Suc k)"
  shows "sd_exit (fate (cs_history st) (Suc k) i) = ExApplied \<Longrightarrow> confirmed_in i st"
    "sd_exit (fate (cs_history st) (Suc k) i) = ExRolledBack \<Longrightarrow> cancelled_in i st"
    "sd_exit (fate (cs_history st) (Suc k) i) \<in> {ExApplied, ExRolledBack, ExUnknown}"
  using assms by (auto simp: fate_def settled_as_def confirmed_in_def cancelled_in_def Let_def split: if_splits)

lemma settle_exits:
  "sd_exit (settle st i pre t til) \<in> {ExPending, ExUnknown, ExNothingCommitted, ExAppliedByOther, ExApplied, ExRolledBack} \<and>
   (sd_exit (settle st i pre t til) = ExAppliedByOther \<longrightarrow> sd_facts (settle st i pre t til) = FactsPreferred)"
proof (cases "our_index i (cs_history st)")
  case (Some j)
  note f = fate_cases(3) [of i st]
  show ?thesis
  proof (cases j)
    case (Suc k)
    with Some f [of k] show ?thesis
      by (cases k) (auto simp: settle_def Let_def settled_as_def)
  qed (use Some in \<open>auto simp: settle_def Let_def settled_as_def split: option.splits\<close>)
qed (auto simp: settle_def Let_def settled_as_def split: list.splits)

lemma settle_rests_on:
  assumes "Saw st \<in> set evs" "sd_exit (settle st i pre t til) \<noteq> ExAppliedByOther"
  shows "rests_on i pre evs (sd_exit (settle st i pre t til))"
proof (cases "our_index i (cs_history st)")
  case None
  with assms show ?thesis
    by (auto simp: settle_def Let_def settled_as_def split: list.splits)
next
  case (Some j)
  show ?thesis
  proof (cases j)
    case 0
    with Some assms show ?thesis by (auto simp: settle_def Let_def settled_as_def split: option.splits)
  next
    case (Suc k)
    have r: "rests_on i pre evs (sd_exit (fate (cs_history st) (Suc k) i))"
      using fate_cases [of i st k] Some Suc assms(1) by auto
    then show ?thesis using Some Suc by (cases k) (auto simp: settle_def Let_def settled_as_def)
  qed
qed

section \<open>A transaction follows the protocol\<close>

definition reached :: "'w env \<Rightarrow> 'w run \<Rightarrow> phase \<Rightarrow> bool" where
  "reached E r ph \<longleftrightarrow>
     path (\<lambda>d l. e_allow E d (login_class E r) (l_text l)) (r_id r) (r_log r) ph \<and> r_committing r = post ph"

definition settling :: "'w env \<Rightarrow> 'w run \<Rightarrow> bool" where
  "settling E r \<longleftrightarrow> (\<exists>ph. post ph \<and> reached E r ph)"

definition later :: "'w run \<Rightarrow> 'w run \<Rightarrow> bool" where
  "later r r' \<longleftrightarrow> set (r_log r) \<subseteq> set (r_log r') \<and> r_id r' = r_id r \<and> r_pre r' = r_pre r"

fun fine :: "'w env \<Rightarrow> bool \<Rightarrow> 'w fin \<Rightarrow> bool" where
  "fine E ap (Fin r) \<longleftrightarrow> (\<exists>ph e. reached E r ph \<and> (post ph \<longrightarrow> ap) \<and> o_exit r = Some e \<and> exit_fits (post ph) e \<and>
     rests_on (r_id r) (r_pre r) (r_log r) e)"
| "fine E ap (Panic r) \<longleftrightarrow> (\<exists>ph. reached E r ph \<and> (post ph \<longrightarrow> ap))"

lemma reached_update [simp]:
  "reached E (r\<lparr>r_world := w\<rparr>) ph = reached E r ph"
  "reached E (r\<lparr>r_pre := e\<rparr>) ph = reached E r ph"
  "reached E (r\<lparr>r_compare := c\<rparr>) ph = reached E r ph"
  "reached E (r\<lparr>r_delta := d\<rparr>) ph = reached E r ph"
  "reached E (r\<lparr>r_window_end := t\<rparr>) ph = reached E r ph"
  "reached E (r\<lparr>r_vr := b\<rparr>) ph = reached E r ph"
  "reached E (r\<lparr>r_no_banner := b\<rparr>) ph = reached E r ph"
  "reached E (r\<lparr>o_exit := x\<rparr>) ph = reached E r ph"
  "reached E (r\<lparr>o_step := s\<rparr>) ph = reached E r ph"
  "reached E (r\<lparr>o_sections := ss\<rparr>) ph = reached E r ph"
  "reached E (r\<lparr>o_shape := s\<rparr>) ph = reached E r ph"
  "reached E (r\<lparr>o_counts := n\<rparr>) ph = reached E r ph"
  "reached E (r\<lparr>o_not_found := k\<rparr>) ph = reached E r ph"
  "reached E (r\<lparr>o_until := u\<rparr>) ph = reached E r ph"
  "reached E (r\<lparr>o_commit := ce\<rparr>) ph = reached E r ph"
  "reached E (r\<lparr>o_discarded := b\<rparr>) ph = reached E r ph"
  "reached E (r\<lparr>o_interrupted := b\<rparr>) ph = reached E r ph"
  "reached E (r\<lparr>o_login_refused := b\<rparr>) ph = reached E r ph"
  "reached E (r\<lparr>o_service_proof := s\<rparr>) ph = reached E r ph"
  "reached E (r\<lparr>o_store_err := b\<rparr>) ph = reached E r ph"
  by (simp_all add: reached_def login_class_def)

lemma later_update [simp]:
  "later r0 (r\<lparr>r_world := w\<rparr>) = later r0 r"
  "later r0 (r\<lparr>r_compare := c\<rparr>) = later r0 r"
  "later r0 (r\<lparr>r_vr := b\<rparr>) = later r0 r"
  "later r0 (r\<lparr>r_no_banner := b\<rparr>) = later r0 r"
  "later r0 (r\<lparr>o_exit := x\<rparr>) = later r0 r"
  "later r0 (r\<lparr>o_step := s\<rparr>) = later r0 r"
  "later r0 (r\<lparr>o_until := u\<rparr>) = later r0 r"
  "later r0 (r\<lparr>o_commit := ce\<rparr>) = later r0 r"
  "later r0 (r\<lparr>o_discarded := b\<rparr>) = later r0 r"
  "later r0 (r\<lparr>o_interrupted := b\<rparr>) = later r0 r"
  "later r0 (r\<lparr>o_login_refused := b\<rparr>) = later r0 r"
  "later r0 (r\<lparr>o_service_proof := s\<rparr>) = later r0 r"
  "later r0 (r\<lparr>o_store_err := b\<rparr>) = later r0 r"
  "later r r"
  by (simp_all add: later_def)

lemma later_update_left [simp]:
  "later (r\<lparr>r_world := w\<rparr>) r0 = later r r0"
  "later (r\<lparr>r_compare := c\<rparr>) r0 = later r r0"
  "later (r\<lparr>r_vr := b\<rparr>) r0 = later r r0"
  "later (r\<lparr>r_no_banner := b\<rparr>) r0 = later r r0"
  "later (r\<lparr>o_exit := x\<rparr>) r0 = later r r0"
  "later (r\<lparr>o_step := s\<rparr>) r0 = later r r0"
  "later (r\<lparr>o_until := u\<rparr>) r0 = later r r0"
  "later (r\<lparr>o_commit := ce\<rparr>) r0 = later r r0"
  "later (r\<lparr>o_discarded := b\<rparr>) r0 = later r r0"
  "later (r\<lparr>o_interrupted := b\<rparr>) r0 = later r r0"
  "later (r\<lparr>o_login_refused := b\<rparr>) r0 = later r r0"
  "later (r\<lparr>o_service_proof := s\<rparr>) r0 = later r r0"
  "later (r\<lparr>o_store_err := b\<rparr>) r0 = later r r0"
  by (simp_all add: later_def)

lemma later_add [simp]: "later r0 r \<Longrightarrow> later r0 (add_event ev r)"
  by (auto simp: later_def add_event_def)

lemma later_add_left: "later (add_event ev r) r0 \<Longrightarrow> later r r0 \<and> ev \<in> set (r_log r0)"
  by (auto simp: later_def add_event_def)

lemma later_trans: "later r r' \<Longrightarrow> later r' r'' \<Longrightarrow> later r r''"
  by (auto simp: later_def)

lemma later_event: "later r r' \<Longrightarrow> ev \<in> set (r_log r) \<Longrightarrow> ev \<in> set (r_log r')"
  by (auto simp: later_def)

lemma later_rests: "later r r' \<Longrightarrow> rests_on (r_id r) (r_pre r) (r_log r) e \<Longrightarrow> rests_on (r_id r') (r_pre r') (r_log r') e"
  by (auto simp: later_def intro: rests_on_mono)

lemma settling_update [simp]:
  "settling E (r\<lparr>r_world := w\<rparr>) = settling E r"
  "settling E (r\<lparr>r_window_end := t\<rparr>) = settling E r"
  "settling E (r\<lparr>r_vr := b\<rparr>) = settling E r"
  "settling E (r\<lparr>o_exit := x\<rparr>) = settling E r"
  "settling E (r\<lparr>o_step := s\<rparr>) = settling E r"
  "settling E (r\<lparr>o_until := u\<rparr>) = settling E r"
  "settling E (r\<lparr>o_commit := ce\<rparr>) = settling E r"
  "settling E (r\<lparr>o_discarded := b\<rparr>) = settling E r"
  "settling E (r\<lparr>o_interrupted := b\<rparr>) = settling E r"
  "settling E (r\<lparr>o_login_refused := b\<rparr>) = settling E r"
  "settling E (r\<lparr>o_store_err := b\<rparr>) = settling E r"
  by (simp_all add: settling_def)

lemma add_event_fields [simp]:
  "r_id (add_event ev r) = r_id r" "r_pre (add_event ev r) = r_pre r" "r_log (add_event ev r) = r_log r @ [ev]"
  "o_exit (add_event ev r) = o_exit r" "r_compare (add_event ev r) = r_compare r" "r_delta (add_event ev r) = r_delta r"
  "o_sections (add_event ev r) = o_sections r" "r_committing (add_event ev r) = r_committing r"
  "r_world (add_event ev r) = r_world r" "o_class (add_event ev r) = o_class r"
  by (simp_all add: add_event_def)

lemma reached_event:
  assumes "reached E r ph" "pstep (\<lambda>d l. e_allow E d (login_class E r) (l_text l)) (r_id r) ph ev ph'" "post ph' = post ph"
  shows "reached E (add_event ev r) ph'"
  using assms by (auto simp: reached_def add_event_def login_class_def intro: path.step)

lemma settling_reached: "reached E r ph \<Longrightarrow> post ph \<Longrightarrow> settling E r"
  by (auto simp: settling_def)

lemma settling_event:
  assumes "settling E r" "\<And>ph A i. post ph \<Longrightarrow> pstep A i ph ev ph'" "post ph'"
  shows "reached E (add_event ev r) ph'"
  using assms by (auto simp: settling_def intro: reached_event)

lemma fine_ask:
  assumes "reached E r ph" "post ph \<longrightarrow> ap"
    and "\<And>e w. fine E ap (bad e (r\<lparr>r_world := w\<rparr>))" "\<And>x w. fine E ap (good x (r\<lparr>r_world := w\<rparr>))"
  shows "fine E ap (ask f r bad good)"
proof -
  obtain a w where "f (r_world r) = (a, w)" by (cases "f (r_world r)") auto
  then show ?thesis using assms by (cases a) (auto simp: ask_def)
qed

lemma fine_type:
  assumes "\<And>w b. \<exists>ph. reached E (add_event (Typed c b) (r\<lparr>r_world := w\<rparr>)) ph \<and> (post ph \<longrightarrow> ap)"
    and "\<And>e w. fine E ap (bad e (add_event (Typed c False) (r\<lparr>r_world := w\<rparr>)))"
    and "\<And>x w. fine E ap (good x (add_event (Typed c True) (r\<lparr>r_world := w\<rparr>)))"
  shows "fine E ap (type_cmd c f r bad good)"
proof -
  obtain a w where "f (r_world r) = (a, w)" by (cases "f (r_world r)") auto
  then show ?thesis using assms by (cases a) (auto simp: type_cmd_def)
qed

lemma fine_clock: "(\<And>t w. fine E ap (k t (r\<lparr>r_world := w\<rparr>))) \<Longrightarrow> fine E ap (clock E' r k)"
  by (simp add: clock_def split: prod.split)

lemma fine_when_done:
  "(\<And>w. fine E ap (yes (r\<lparr>r_world := w\<rparr>))) \<Longrightarrow> (\<And>w. fine E ap (no (r\<lparr>r_world := w\<rparr>))) \<Longrightarrow> fine E ap (when_done E' r yes no)"
  by (simp add: when_done_def split: prod.split)

lemma fine_stop:
  assumes "reached E r ph" "post ph \<longrightarrow> ap" "exit_fits (post ph) e" "rests_on (r_id r) (r_pre r) (r_log r) e"
  shows "fine E ap (stop e r)"
  using assms by (auto simp: stop_def end_at_def)

lemma fine_entry0:
  assumes "reached E r ph" "post ph \<longrightarrow> ap" "\<And>e h. cs_history st = e # h \<Longrightarrow> fine E ap (k e r)"
  shows "fine E ap (entry0 st r k)"
  using assms by (auto simp: entry0_def split: list.split)

lemma fine_ask_opt:
  assumes "reached E r ph" "post ph \<longrightarrow> ap" "\<And>w. fine E ap (k (r\<lparr>r_world := w\<rparr>))" "fine E ap (k r)"
  shows "fine E ap (ask_opt f r k)"
  using assms by (auto simp: ask_opt_def split: option.split intro: fine_ask)

section \<open>From the commit on\<close>

lemma fine_settled:
  assumes "settling E r" "o_exit r = Some e" "exit_fits True e" "rests_on (r_id r) (r_pre r) (r_log r) e"
  shows "fine E True (Fin r)"
  using assms by (auto simp: settling_def)

lemma settled_unknown: "settling E r \<Longrightarrow> fine E True (stop ExUnknown r)"
  unfolding stop_def by (rule fine_settled [where e = ExUnknown]) (simp_all add: end_at_def)

lemma settling_panic: "settling E r \<Longrightarrow> fine E True (Panic r)"
  by (auto simp: settling_def)

lemma ask_post:
  assumes "settling E r" "\<And>e r'. settling E r' \<Longrightarrow> later r r' \<Longrightarrow> fine E True (bad e r')"
    and "\<And>x r'. settling E r' \<Longrightarrow> later r r' \<Longrightarrow> fine E True (good x r')"
  shows "fine E True (ask f r bad good)"
proof -
  from assms(1) obtain ph where ph: "reached E r ph" "post ph" by (auto simp: settling_def)
  show ?thesis by (rule fine_ask [OF ph(1)]) (use assms in simp_all)
qed

lemma see_post:
  assumes "settling E r" "\<And>e r'. settling E r' \<Longrightarrow> later r r' \<Longrightarrow> fine E True (bad e r')"
    and "\<And>st r'. reached E r' (Seen st) \<Longrightarrow> Saw st \<in> set (r_log r') \<Longrightarrow> later r r' \<Longrightarrow> fine E True (good st r')"
  shows "fine E True (see rd r bad good)"
  unfolding see_def
proof (rule ask_post [OF assms(1)])
  fix e r' assume "settling E r'" "later r r'"
  then show "fine E True (bad e r')" by (rule assms(2))
next
  fix st r' assume r: "settling E r'" "later r r'"
  have "reached E (add_event (Saw st) r') (Seen st)"
    by (rule settling_event [OF r(1)]) (auto intro: pstep.seen)
  then show "fine E True (good st (add_event (Saw st) r'))" using r(2) by (intro assms(3)) simp_all
qed

lemma type_post:
  assumes "settling E r" "\<And>w b. settling E (add_event (Typed c b) (r\<lparr>r_world := w\<rparr>))"
    and "\<And>e r'. settling E r' \<Longrightarrow> later r r' \<Longrightarrow> fine E True (bad e r')"
    and "\<And>x r'. settling E r' \<Longrightarrow> later r r' \<Longrightarrow> fine E True (good x r')"
  shows "fine E True (type_cmd c f r bad good)"
  by (rule fine_type) (use assms(2) in \<open>auto simp: settling_def intro!: assms(3,4)\<close>)

lemma settling_discard: "settling E r \<Longrightarrow> settling E (add_event (Typed TDiscard b) (r\<lparr>r_world := w\<rparr>))"
  by (rule settling_reached [where ph = Settling], rule settling_event) (auto intro: pstep.tidy)

lemma settling_read:
  "settling E r \<Longrightarrow> settling E (add_event (Rolled n c) r)"
  "settling E r \<Longrightarrow> settling E (add_event (Landed c) r)"
  "settling E r \<Longrightarrow> settling E (add_event (Replanned a) r)"
  by (rule settling_reached [where ph = Settling], rule settling_event; auto intro: pstep.rolled pstep.mismatch pstep.unconverged)+

lemma held_state_post:
  assumes "settling E r" "\<And>e r'. settling E r' \<Longrightarrow> later r r' \<Longrightarrow> fine E True (bad e r')"
    and "\<And>st r'. reached E r' (Seen st) \<Longrightarrow> Saw st \<in> set (r_log r') \<Longrightarrow> later r r' \<Longrightarrow> fine E True (good st r')"
  shows "fine E True (held_state E r bad good)"
  unfolding held_state_def
  by (rule see_post [OF assms(1)])
    (auto split: option.split intro!: ask_post see_post assms(2,3) dest: later_trans)

lemma read_commit_state_post:
  assumes "settling E r" "\<And>e r'. settling E r' \<Longrightarrow> later r r' \<Longrightarrow> fine E True (bad e r')"
    and "\<And>st r'. reached E r' (Seen st) \<Longrightarrow> Saw st \<in> set (r_log r') \<Longrightarrow> later r r' \<Longrightarrow> fine E True (good st r')"
  shows "fine E True (read_commit_state E r bad good)"
  using assms(1) unfolding read_commit_state_def
  by (auto intro!: see_post held_state_post assms(2,3) dest: later_trans)

lemma verdict_rests_on:
  assumes "Saw st \<in> set evs" "our_index i (cs_history st) = Some n" "Rolled n aft \<in> set evs" "Rolled (Suc n) before \<in> set evs"
  shows "rests_on i pre evs (sd_exit (rollback_verdict st again s aft before))"
    "sd_exit (rollback_verdict st again s aft before) \<in> {ExUnknown, ExAppliedByOther, ExRolledBack}"
proof -
  have "compare_empty aft \<noteq> compare_empty before \<Longrightarrow> runs_entry i evs (compare_empty aft)"
    using assms unfolding runs_entry_def by blast
  then show "rests_on i pre evs (sd_exit (rollback_verdict st again s aft before))"
    "sd_exit (rollback_verdict st again s aft before) \<in> {ExUnknown, ExAppliedByOther, ExRolledBack}"
    by (auto simp: rollback_verdict_def unknown_of_def split: list.split)
qed

lemma by_rollbacks_post:
  assumes "settling E r" "Saw st \<in> set (r_log r)" "i = r_id r"
    and k: "\<And>s' c r'. settling E r' \<Longrightarrow> later r r' \<Longrightarrow> rests_on (r_id r') (r_pre r') (r_log r') (sd_exit s') \<Longrightarrow>
      sd_exit s' \<in> {ExUnknown, ExAppliedByOther, ExRolledBack} \<Longrightarrow> fine E True (k s' c r')"
  shows "fine E True (by_rollbacks rd st i s r k)"
proof -
  have u: "fine E True (k (unknown_of s1) c r')" if "settling E r'" "later r r'" for s1 c r'
    using that by (intro k) (simp_all add: unknown_of_def)
  have verdict: "fine E True (k (rollback_verdict st again s aft before) True r')"
    if "our_index i (cs_history st) = Some n" "settling E r'" "later r r'"
      "Rolled n aft \<in> set (r_log r')" "Rolled (Suc n) before \<in> set (r_log r')" for n aft before again r'
  proof (rule k [OF that(2,3)])
    have "Saw st \<in> set (r_log r')" "r_id r' = i" using that(3) assms(2,3) by (auto simp: later_def)
    then show "rests_on (r_id r') (r_pre r') (r_log r') (sd_exit (rollback_verdict st again s aft before))"
      "sd_exit (rollback_verdict st again s aft before) \<in> {ExUnknown, ExAppliedByOther, ExRolledBack}"
      using verdict_rests_on [of st "r_log r'" "r_id r'" n aft before] that by simp_all
  qed
  show ?thesis
    unfolding by_rollbacks_def
    by (auto split: option.split intro!: u assms(1) ask_post see_post settling_read verdict settling_reached
        dest: later_event simp: later_def) (blast+)
qed

lemma settle_run_post:
  assumes "settling E r" "Saw st \<in> set (r_log r)"
    and k: "\<And>s r'. settling E r' \<Longrightarrow> later r r' \<Longrightarrow> rests_on (r_id r') (r_pre r') (r_log r') (sd_exit s) \<Longrightarrow>
      sd_exit s \<in> {ExPending, ExUnknown, ExNothingCommitted, ExAppliedByOther, ExApplied, ExRolledBack} \<Longrightarrow> fine E True (k s r')"
  shows "fine E True (settle_run E st r k)"
  unfolding settle_run_def
proof (rule fine_clock)
  fix t w
  let ?r = "r\<lparr>r_world := w\<rparr>"
  let ?s = "settle st (r_id ?r) (r_pre ?r) t (o_until ?r)"
  have r: "settling E ?r" "Saw st \<in> set (r_log ?r)" using assms by simp_all
  show "fine E True (let s = ?s; rd = the_reader E ?r in if sd_facts s = FactsNo then k s ?r
      else by_rollbacks rd st (r_id ?r) s ?r (\<lambda>s compared r. if compared then k s r
        else ask (rd_read rd) r (\<lambda>_. k (s\<lparr>sd_exit := ExUnknown\<rparr>))
          (\<lambda>raw r. ask (e_plan E raw) r (\<lambda>_. k (s\<lparr>sd_exit := ExUnknown\<rparr>)) (\<lambda>_. k (s\<lparr>sd_exit := ExUnknown\<rparr>)))))"
  proof (cases "sd_facts ?s = FactsNo")
    case True
    with settle_exits [of st "r_id ?r" "r_pre ?r" t "o_until ?r"]
    have e: "sd_exit ?s \<in> {ExPending, ExUnknown, ExNothingCommitted, ExAppliedByOther, ExApplied, ExRolledBack}"
      "sd_exit ?s \<noteq> ExAppliedByOther" by auto
    have "fine E True (k ?s ?r)"
      by (rule k [OF r(1)]) (use settle_rests_on [OF r(2) e(2)] e(1) in simp_all)
    with True show ?thesis by (simp add: Let_def)
  next
    case False
    have unknown: "fine E True (k (s\<lparr>sd_exit := ExUnknown\<rparr>) r')" if "settling E r'" "later r r'" for s :: settled and r'
      using that by (intro k) simp_all
    have "fine E True (by_rollbacks rd st (r_id ?r) ?s ?r (\<lambda>s compared r. if compared then k s r
        else ask (rd_read rd) r (\<lambda>_. k (s\<lparr>sd_exit := ExUnknown\<rparr>))
          (\<lambda>raw r. ask (e_plan E raw) r (\<lambda>_. k (s\<lparr>sd_exit := ExUnknown\<rparr>)) (\<lambda>_. k (s\<lparr>sd_exit := ExUnknown\<rparr>)))))" for rd
    proof (rule by_rollbacks_post [OF r refl])
      fix s1 :: settled and c r1 assume r1: "settling E r1" "later ?r r1" "rests_on (r_id r1) (r_pre r1) (r_log r1) (sd_exit s1)"
        "sd_exit s1 \<in> {ExUnknown, ExAppliedByOther, ExRolledBack}"
      have "fine E True (k s1 r1)" using r1 by (intro k) auto
      moreover have "fine E True (ask (rd_read rd) r1 (\<lambda>_. k (s1\<lparr>sd_exit := ExUnknown\<rparr>))
          (\<lambda>raw r. ask (e_plan E raw) r (\<lambda>_. k (s1\<lparr>sd_exit := ExUnknown\<rparr>)) (\<lambda>_. k (s1\<lparr>sd_exit := ExUnknown\<rparr>))))"
        using r1 by (intro ask_post unknown) (auto elim: later_trans)
      ultimately show "fine E True (if c then k s1 r1 else ask (rd_read rd) r1 (\<lambda>_. k (s1\<lparr>sd_exit := ExUnknown\<rparr>))
          (\<lambda>raw r. ask (e_plan E raw) r (\<lambda>_. k (s1\<lparr>sd_exit := ExUnknown\<rparr>)) (\<lambda>_. k (s1\<lparr>sd_exit := ExUnknown\<rparr>))))"
        by simp
    qed
    then show ?thesis using False by (simp add: Let_def)
  qed
qed

lemma file_shape_fields [simp]:
  "settling E (file_shape E' r) = settling E r" "later r0 (file_shape E' r) = later r0 r" "later (file_shape E' r) r0 = later r r0"
  "o_exit (file_shape E' r) = o_exit r"
  by (simp_all add: file_shape_def split: prod.split)

lemma keep_stranger_fields [simp]:
  "settling E (keep_stranger s r) = settling E r" "later r0 (keep_stranger s r) = later r0 r" "o_exit (keep_stranger s r) = o_exit r"
  by (simp_all add: keep_stranger_def)

lemma end_at_fields [simp]:
  "settling E (end_at e r) = settling E r" "later r0 (end_at e r) = later r0 r" "o_exit (end_at e r) = Some e"
  "reached E (end_at e r) ph = reached E r ph" "r_log (end_at e r) = r_log r" "r_id (end_at e r) = r_id r" "r_pre (end_at e r) = r_pre r"
  by (simp_all add: end_at_def)

lemma named_post:
  assumes "settling E r"
    and k: "\<And>r'. settling E r' \<Longrightarrow> later r r' \<Longrightarrow> o_exit r' = Some (sd_exit s) \<Longrightarrow> fine E True (k r')"
  shows "fine E True (named E s r k)"
  using assms(1) unfolding named_def Let_def
  by (auto split: exit_code.split intro!: k type_post settling_discard)

lemma settled_fits: "e \<in> {ExPending, ExUnknown, ExNothingCommitted, ExAppliedByOther, ExApplied, ExRolledBack} \<Longrightarrow> exit_fits True e"
  by auto

lemma named_final:
  assumes "settling E r" "rests_on (r_id r) (r_pre r) (r_log r) (sd_exit s)"
    "sd_exit s \<in> {ExPending, ExUnknown, ExNothingCommitted, ExAppliedByOther, ExApplied, ExRolledBack}"
  shows "fine E True (named E s r Fin)"
proof (rule named_post [OF assms(1)])
  fix r' assume "settling E r'" "later r r'" "o_exit r' = Some (sd_exit s)"
  then show "fine E True (Fin r')"
    using later_rests [OF _ assms(2)] settled_fits [OF assms(3)] by (intro fine_settled) auto
qed

lemma settle_named_post:
  assumes "settling E r" "Saw st \<in> set (r_log r)"
  shows "fine E True (settle_run E st r (\<lambda>s r. named E s r Fin))"
  by (rule settle_run_post [OF assms]) (rule named_final)

lemma seen_settling: "reached E r (Seen st) \<Longrightarrow> settling E r"
  by (erule settling_reached) simp

lemma name_state_post: "settling E r \<Longrightarrow> fine E True (name_state E r)"
  unfolding name_state_def
  by (rule read_commit_state_post) (auto intro: settled_unknown settle_named_post seen_settling)

lemma cancel_seen_post:
  assumes "reached E r (Seen st)" "Saw st \<in> set (r_log r)"
  shows "fine E True (cancel_seen E st r)"
  unfolding cancel_seen_def
proof (rule fine_entry0 [OF assms(1)])
  fix e h assume h: "cs_history st = e # h"
  have s: "settling E r" using assms(1) by (rule seen_settling)
  have undo: "settling E (add_event (Typed c b) (r\<lparr>r_world := w\<rparr>))"
    if "ours e (r_id r)" "c = (if cs_pending st then TCancel else TRevert)" for c b w
    using that assms(1) h
    by (intro settling_reached [where ph = Settling] reached_event [where ph = "Seen st"]) (auto intro: pstep.cancel pstep.revert)
  show "fine E True (if \<not> ours e (r_id r) then settle_run E st r (\<lambda>s r. named E s r Fin)
      else if cs_pending st then type_cmd TCancel (e_cancel E (r_id r)) r (\<lambda>_. name_state E) (\<lambda>_. name_state E)
      else type_cmd TRevert (e_revert E (r_id r)) r (\<lambda>_. name_state E) (\<lambda>_. name_state E))"
    using undo by (auto intro!: settle_named_post s assms(2) type_post name_state_post)
qed simp

lemma cancel_held_post: "settling E r \<Longrightarrow> fine E True (cancel_held E r)"
  unfolding cancel_held_def Let_def
  by (auto simp: at_step_def intro!: name_state_post fine_clock see_post read_commit_state_post settled_unknown cancel_seen_post)

lemma cancel_commit_post: "settling E r \<Longrightarrow> fine E True (cancel_commit E r)"
  unfolding cancel_commit_def by (auto intro!: fine_when_done cancel_held_post)

lemma read_state_post: "settling E r \<Longrightarrow> fine E True (read_state E b r)"
  unfolding read_state_def
  by (auto intro!: read_commit_state_post settled_unknown settle_run_post cancel_commit_post named_final intro: seen_settling simp del: rests_on.simps)

lemma discard_then_end:
  assumes "settling E r" "\<And>b w. fine E True (Fin (add_event (Typed TDiscard b) (r\<lparr>r_world := w\<rparr>)))"
  shows "fine E True (type_cmd TDiscard f r (\<lambda>_. Fin) (\<lambda>_. Fin))"
proof (rule fine_type)
  fix w b
  show "\<exists>ph. reached E (add_event (Typed TDiscard b) (r\<lparr>r_world := w\<rparr>)) ph \<and> (post ph \<longrightarrow> True)"
    using settling_discard [OF assms(1), of b w] by (auto simp: settling_def)
qed (rule assms(2))+

lemma confirmed_by_other_post:
  assumes "settling E r" "Shown c \<in> set (r_log r)" "Landed c' \<in> set (r_log r)" "compare_equal c' c"
  shows "fine E True (confirmed_by_other E r)"
  unfolding confirmed_by_other_def
proof (rule see_post [OF assms(1)])
  fix e r' assume "settling E r'"
  then show "fine E True (cancel_commit E r')" by (rule cancel_commit_post)
next
  fix st r' assume r: "reached E r' (Seen st)" "Saw st \<in> set (r_log r')" "later r r'"
  have s: "settling E r'" using r(1) by (rule seen_settling)
  show "fine E True (entry0 st r' (\<lambda>e r. if cs_pending st \<and> ours e (r_id r) then cancel_commit E r
      else if cs_pending st \<or> \<not> ours e (r_id r) then settle_run E st r (\<lambda>s r. named E s r Fin)
      else type_cmd TDiscard (e_discard E) (end_at ExAppliedByOther (r\<lparr>o_until := None\<rparr>)) (\<lambda>_. Fin) (\<lambda>_. Fin)))"
  proof (rule fine_entry0 [OF r(1)])
    fix e h assume h: "cs_history st = e # h"
    let ?r = "end_at ExAppliedByOther (r'\<lparr>o_until := None\<rparr>)"
    have done1: "fine E True (Fin (add_event (Typed TDiscard b) (?r\<lparr>r_world := w\<rparr>)))"
      if "\<not> cs_pending st" "ours e (r_id r')" for b w
    proof (rule fine_settled)
      show "settling E (add_event (Typed TDiscard b) (?r\<lparr>r_world := w\<rparr>))" using s by (intro settling_discard) simp
      have "later r' (add_event (Typed TDiscard b) (?r\<lparr>r_world := w\<rparr>))" by simp
      with r(3) have l: "later r (add_event (Typed TDiscard b) (?r\<lparr>r_world := w\<rparr>))" by (rule later_trans)
      then show "rests_on (r_id (add_event (Typed TDiscard b) (?r\<lparr>r_world := w\<rparr>))) (r_pre (add_event (Typed TDiscard b) (?r\<lparr>r_world := w\<rparr>)))
          (r_log (add_event (Typed TDiscard b) (?r\<lparr>r_world := w\<rparr>))) ExAppliedByOther"
        using that h r(2,3) assms(2-4) by (auto simp: proven_unbannered_def later_def)
    qed simp_all
    have "fine E True (type_cmd TDiscard (e_discard E) ?r (\<lambda>_. Fin) (\<lambda>_. Fin))" if "\<not> cs_pending st" "ours e (r_id r')"
      using s done1 [OF that] by (intro discard_then_end) simp_all
    then show "fine E True (if cs_pending st \<and> ours e (r_id r') then cancel_commit E r'
      else if cs_pending st \<or> \<not> ours e (r_id r') then settle_run E st r' (\<lambda>s r. named E s r Fin)
      else type_cmd TDiscard (e_discard E) ?r (\<lambda>_. Fin) (\<lambda>_. Fin))"
      using cancel_commit_post [OF s] settle_named_post [OF s r(2)] by auto
  qed simp
qed

lemma record_post: "settling E r \<Longrightarrow> fine E True (record_commit E r)"
  unfolding record_commit_def
proof (rule read_commit_state_post, assumption)
  fix e r' assume "settling E r'"
  then show "fine E True (stop ExUnknown r')" by (rule settled_unknown)
next
  fix st r1 assume r1: "settling E r" "reached E r1 (Seen st)" "Saw st \<in> set (r_log r1)"
  show "fine E True (settle_run E st r1 (\<lambda>s r. if sd_exit s = ExPending then stop ExPending r
      else named E s r (\<lambda>r. if sd_exit s = ExApplied then type_cmd TDiscard (e_discard E) r (\<lambda>_. Fin) (\<lambda>_. Fin) else Fin r)))"
  proof (rule settle_run_post [OF seen_settling [OF r1(2)] r1(3)])
    fix s :: settled and r2 assume r2: "settling E r2" "rests_on (r_id r2) (r_pre r2) (r_log r2) (sd_exit s)"
      "sd_exit s \<in> {ExPending, ExUnknown, ExNothingCommitted, ExAppliedByOther, ExApplied, ExRolledBack}"
    have fin1: "fine E True (Fin r')" if "settling E r'" "later r2 r'" "o_exit r' = Some (sd_exit s)" for r'
      using that later_rests [OF that(2) r2(2)] settled_fits [OF r2(3)] by (intro fine_settled) auto
    have "fine E True (stop ExPending r2)" if "sd_exit s = ExPending"
      unfolding stop_def using that r2(1) by (intro fin1) simp_all
    moreover have "fine E True (named E s r2 (\<lambda>r. if sd_exit s = ExApplied then type_cmd TDiscard (e_discard E) r (\<lambda>_. Fin) (\<lambda>_. Fin) else Fin r))"
    proof (rule named_post [OF r2(1)])
      fix r' assume r': "settling E r'" "later r2 r'" "o_exit r' = Some (sd_exit s)"
      have "fine E True (Fin (add_event (Typed TDiscard b) (r'\<lparr>r_world := w\<rparr>)))" for b w
        using r' by (intro fin1 settling_discard) simp_all
      then have "fine E True (type_cmd TDiscard (e_discard E) r' (\<lambda>_. Fin) (\<lambda>_. Fin))"
        by (rule discard_then_end [OF r'(1)])
      with fin1 [OF r'] show "fine E True (if sd_exit s = ExApplied then type_cmd TDiscard (e_discard E) r' (\<lambda>_. Fin) (\<lambda>_. Fin) else Fin r')"
        by simp
    qed
    ultimately show "fine E True (if sd_exit s = ExPending then stop ExPending r2
      else named E s r2 (\<lambda>r. if sd_exit s = ExApplied then type_cmd TDiscard (e_discard E) r (\<lambda>_. Fin) (\<lambda>_. Fin) else Fin r))"
      by simp
  qed
qed

section \<open>The verification and the confirm\<close>

text \<open>The run knows the delta and the compare of its phase.\<close>

definition knows :: "'w run \<Rightarrow> delta \<Rightarrow> compare_text \<Rightarrow> bool" where
  "knows r d c \<longleftrightarrow> r_delta r = d \<and> r_compare r = c \<and> o_sections r = delta_planned d"

lemma knows_update [simp]:
  "knows (r\<lparr>r_world := w\<rparr>) d c = knows r d c"
  "knows (r\<lparr>r_pre := e\<rparr>) d c = knows r d c"
  "knows (r\<lparr>r_window_end := t\<rparr>) d c = knows r d c"
  "knows (r\<lparr>r_vr := b\<rparr>) d c = knows r d c"
  "knows (r\<lparr>r_no_banner := b\<rparr>) d c = knows r d c"
  "knows (r\<lparr>r_committing := b\<rparr>) d c = knows r d c"
  "knows (r\<lparr>o_step := s\<rparr>) d c = knows r d c"
  "knows (r\<lparr>o_until := u\<rparr>) d c = knows r d c"
  "knows (r\<lparr>o_login_refused := b\<rparr>) d c = knows r d c"
  "knows (r\<lparr>o_service_proof := s\<rparr>) d c = knows r d c"
  "knows (add_event ev r) d c = knows r d c"
  by (simp_all add: knows_def)

lemma sent_settling: "reached E r (Sent d c) \<Longrightarrow> settling E r"
  by (erule settling_reached) simp

lemma converged_settling: "reached E r (Converged d c) \<Longrightarrow> settling E r"
  by (erule settling_reached) simp

lemma ask_reached:
  assumes "reached E r ph" "post ph"
    and "\<And>e w. fine E True (bad e (r\<lparr>r_world := w\<rparr>))" "\<And>x w. fine E True (good x (r\<lparr>r_world := w\<rparr>))"
  shows "fine E True (ask f r bad good)"
  using assms by (intro fine_ask) auto

lemma verify_converged_fine:
  assumes "reached E r (Proven d c)" "knows r d c"
    and failed: "\<And>r. settling E r \<Longrightarrow> fine E True (k False r)"
    and passed: "\<And>r. reached E r (Converged d c) \<Longrightarrow> knows r d c \<Longrightarrow> fine E True (k True r)"
  shows "fine E True (verify_converged E r k)"
  unfolding verify_converged_def
proof (rule ask_reached [OF assms(1)])
  have s: "settling E r" using assms(1) by (rule settling_reached) simp
  then show "fine E True (k False (r\<lparr>r_world := w\<rparr>))" for w by (intro failed) simp
  fix raw w
  show "fine E True (ask (e_plan E raw) (r\<lparr>r_world := w\<rparr>) (\<lambda>_. k False) (\<lambda>aft r. let r = add_event (Replanned aft) r
      in if list_ex (\<lambda>l. l_section l \<in> set (o_sections r)) (d_lines aft) then k False r
         else case e_hold E of None \<Rightarrow> k True r | Some h \<Rightarrow> ask (h (o_until r)) r (\<lambda>_. k False) k))"
  proof (rule ask_reached [where ph = "Proven d c"])
    show "reached E (r\<lparr>r_world := w\<rparr>) (Proven d c)" using assms(1) by simp
    show "fine E True (k False (r\<lparr>r_world := w, r_world := w'\<rparr>))" for w' using s by (intro failed) simp
    fix aft w'
    let ?r = "add_event (Replanned aft) (r\<lparr>r_world := w'\<rparr>)"
    have f: "settling E ?r" using s by (intro settling_read(3)) simp
    have "fine E True (case e_hold E of None \<Rightarrow> k True ?r | Some h \<Rightarrow> ask (h (o_until ?r)) ?r (\<lambda>_. k False) k)"
      if "\<forall>l \<in> set (d_lines aft). l_section l \<notin> set (delta_planned d)"
    proof -
      have "reached E ?r (Converged d c)"
        using assms(1) that by (intro reached_event [where ph = "Proven d c"]) (auto intro: pstep.converged)
      then have p: "reached E (?r\<lparr>r_world := w''\<rparr>) (Converged d c)" "knows (?r\<lparr>r_world := w''\<rparr>) d c" for w''
        using assms(2) by simp_all
      have "fine E True (k b (?r\<lparr>r_world := w''\<rparr>))" for b w''
        using passed [OF p] failed [of "?r\<lparr>r_world := w''\<rparr>"] f by (cases b) simp_all
      moreover have "fine E True (k True ?r)"
        using passed [of ?r] p [of "r_world ?r"] assms(2) \<open>reached E ?r (Converged d c)\<close> by simp
      moreover have "settling E ?r" by (rule f)
      ultimately show ?thesis
        using \<open>reached E ?r (Converged d c)\<close> by (auto split: option.split intro!: ask_reached)
    qed
    with failed [OF f] assms(2)
    show "fine E True (let r = add_event (Replanned aft) (r\<lparr>r_world := w, r_world := w'\<rparr>)
      in if list_ex (\<lambda>l. l_section l \<in> set (o_sections r)) (d_lines aft) then k False r
         else case e_hold E of None \<Rightarrow> k True r | Some h \<Rightarrow> ask (h (o_until r)) r (\<lambda>_. k False) k)"
      by (auto simp: Let_def list_ex_iff knows_def)
  qed simp
qed simp

lemma verify_landed_fine:
  assumes "reached E r (Sent d c)" "knows r d c"
    and failed: "\<And>r. settling E r \<Longrightarrow> fine E True (k False r)"
    and passed: "\<And>r. reached E r (Converged d c) \<Longrightarrow> knows r d c \<Longrightarrow> fine E True (k True r)"
  shows "fine E True (verify_landed E r k)"
  unfolding verify_landed_def
proof (rule ask_reached [OF assms(1)])
  have s: "settling E r" using assms(1) by (rule sent_settling)
  then show "fine E True (k False (r\<lparr>r_world := w\<rparr>))" for w by (intro failed) simp
  fix landed w
  let ?r = "add_event (Landed landed) (r\<lparr>r_world := w\<rparr>)"
  have "fine E True (k False ?r)" using s by (intro failed settling_read(2)) simp
  moreover have "fine E True (verify_converged E ?r k)" if "compare_equal landed c"
    using that assms(1,2) by (intro verify_converged_fine failed passed reached_event [where ph = "Sent d c"]) (auto intro: pstep.landed)
  ultimately show "fine E True (let r = ?r in if e_unexplained E landed (r_delta r) > 0 then k False r
      else if \<not> compare_equal landed (r_compare r) then k False r else verify_converged E r k)"
    using assms(2) by (simp add: Let_def knows_def)
qed simp

lemma verify_login_fine:
  assumes "reached E r (Sent d c)" "knows r d c"
    and failed: "\<And>r. settling E r \<Longrightarrow> fine E True (k False r)"
    and passed: "\<And>r. reached E r (Converged d c) \<Longrightarrow> knows r d c \<Longrightarrow> fine E True (k True r)"
  shows "fine E True (verify_login E r k)"
proof -
  have fail: "fine E True (k False (r\<lparr>r_world := w\<rparr>))" for w
    using sent_settling [OF assms(1)] by (intro failed) simp
  have go: "fine E True (verify_landed E (r\<lparr>r_world := w\<rparr>) k)" "fine E True (verify_landed E (r\<lparr>r_world := w, o_service_proof := n\<rparr>) k)" for w n
    using assms(1,2) by (simp_all add: verify_landed_fine failed passed)
  have svc: "fine E True (case e_verify_service E of None \<Rightarrow> verify_landed E (r\<lparr>r_world := w\<rparr>) k
      | Some f \<Rightarrow> ask (f (r_delta (r\<lparr>r_world := w\<rparr>))) (r\<lparr>r_world := w\<rparr>) (\<lambda>_. k False) (\<lambda>note r. verify_landed E (r\<lparr>o_service_proof := note\<rparr>) k))" for w
    using assms(1) by (auto split: option.split intro!: ask_reached [where ph = "Sent d c"] simp: go fail)
  show ?thesis
    unfolding verify_login_def
    by (rule ask_reached [OF assms(1)])
      (use assms(1) svc in \<open>auto simp: fail go Let_def split: option.split intro!: ask_reached [where ph = "Sent d c"]\<close>)
qed

lemma verify_fine:
  fixes E :: "'w env"
  assumes "reached E r (Sent d c)" "knows r d c"
    and failed: "\<And>r. settling E r \<Longrightarrow> fine E True (k False r)"
    and passed: "\<And>r. reached E r (Converged d c) \<Longrightarrow> knows r d c \<Longrightarrow> fine E True (k True r)"
  shows "fine E True (verify E r k)"
proof -
  have s: "settling E r" using assms(1) by (rule sent_settling)
  have fail: "fine E True (k False (r\<lparr>r_world := w\<rparr>))" "fine E True (k False (r\<lparr>r_world := w, o_login_refused := b\<rparr>))"
    "fine E True (k False (r\<lparr>r_world := w, r_vr := b\<rparr>))" for w :: 'w and b
    using s by (simp_all add: failed)
  have look: "reached E (add_event (Saw st) (r\<lparr>r_vr := b, r_world := w\<rparr>)) (Sent d c)" for st and w :: 'w and b
    using assms(1) by (intro reached_event [where ph = "Sent d c"]) (auto intro: pstep.look)
  have "fine E True (see (e_fresh E) (r\<lparr>r_world := w, r_vr := True\<rparr>) (\<lambda>_. k False) (\<lambda>st r. entry0 st r (\<lambda>e r.
      if \<not> cs_pending st \<and> ours e (r_id r) then verify_login E (r\<lparr>r_no_banner := True\<rparr>) k
      else if \<not> cs_pending st \<or> \<not> ours e (r_id r) then k False r else verify_login E r k)))" for w
    unfolding see_def
  proof (rule ask_reached [where ph = "Sent d c"])
    show "fine E True (k False (r\<lparr>r_world := w, r_vr := True, r_world := w'\<rparr>))" for w' using s by (intro failed) simp
    fix st w'
    let ?r = "add_event (Saw st) (r\<lparr>r_vr := True, r_world := w'\<rparr>)"
    have "fine E True (verify_login E ?r k)" "fine E True (verify_login E (?r\<lparr>r_no_banner := True\<rparr>) k)" "fine E True (k False ?r)"
      using look [where st = st and w = w' and b = True] assms(2) by (auto intro!: verify_login_fine failed passed sent_settling)
    then have "fine E True (entry0 st ?r (\<lambda>e r.
      if \<not> cs_pending st \<and> ours e (r_id r) then verify_login E (r\<lparr>r_no_banner := True\<rparr>) k
      else if \<not> cs_pending st \<or> \<not> ours e (r_id r) then k False r else verify_login E r k))"
      using look [where st = st and w = w' and b = True] by (intro fine_entry0) auto
    then show "fine E True (entry0 st (add_event (Saw st) (r\<lparr>r_world := w, r_vr := True, r_world := w'\<rparr>)) (\<lambda>e r.
      if \<not> cs_pending st \<and> ours e (r_id r) then verify_login E (r\<lparr>r_no_banner := True\<rparr>) k
      else if \<not> cs_pending st \<or> \<not> ours e (r_id r) then k False r else verify_login E r k))" by simp
  qed (use assms(1) in simp_all)
  then show ?thesis
    unfolding verify_def
    using assms(1) fail by (auto split: option.split intro!: ask_reached [where ph = "Sent d c"] simp del: fine.simps intro: settling_panic [OF s])
qed

lemma converged_remembers:
  assumes "reached E r (Converged d c)"
  shows "\<exists>c'. Shown c \<in> set (r_log r) \<and> Landed c' \<in> set (r_log r) \<and> compare_equal c' c"
proof -
  from assms have "path (\<lambda>d l. e_allow E d (login_class E r) (l_text l)) (r_id r) (r_log r) (Converged d c)" by (simp add: reached_def)
  from path_remembers [OF this] show ?thesis by (auto simp: matched_def)
qed

lemma confirm_step_fine:
  assumes "reached E r (Converged d c)"
  shows "fine E True (confirm_step E r)"
proof -
  have s: "settling E (add_event (Typed TConfirm b) ((at_step x r)\<lparr>r_world := w\<rparr>))" for b x w
    using assms by (intro settling_reached [where ph = Settling] reached_event [where ph = "Converged d c"])
      (auto simp: at_step_def intro: pstep.confirm)
  show ?thesis
    unfolding confirm_step_def
    by (rule type_post) (use s converged_settling [OF assms] in \<open>auto simp: at_step_def intro!: read_state_post record_post\<close>)
qed

lemma window_step_fine:
  assumes "reached E r (Converged d c)"
  shows "fine E True (window_step E r)"
proof -
  have p: "reached E ((at_step ''window'' r)\<lparr>r_world := w\<rparr>) (Converged d c)" for w using assms by (simp add: at_step_def)
  have "rests_on (r_id r) (r_pre r) (r_log r) ExWindowShort"
    using converged_remembers [OF assms] by auto
  then have "fine E True (stop ExWindowShort ((at_step ''window'' r)\<lparr>r_world := w\<rparr>))" for w
    by (intro fine_stop [OF p]) (simp_all add: at_step_def)
  then show ?thesis
    unfolding window_step_def
    using p converged_settling [OF p]
    by (auto intro!: fine_clock fine_when_done cancel_commit_post confirm_step_fine [where d = d and c = c] simp del: fine.simps)
qed

lemma verify_step_fine:
  assumes "reached E r (Sent d c)" "knows r d c"
  shows "fine E True (verify_step E r)"
  unfolding verify_step_def
proof (rule verify_fine)
  show "reached E (at_step ''verify'' r) (Sent d c)" "knows (at_step ''verify'' r) d c" using assms by (simp_all add: at_step_def)
  fix r'
  { assume "settling E r'"
    then show "fine E True (if \<not> False then when_done E r' (cancel_commit E) (cancel_commit E)
        else if r_no_banner r' then confirmed_by_other E r' else window_step E r')"
      by (simp add: fine_when_done cancel_commit_post) }
  { assume r: "reached E r' (Converged d c)"
    from converged_remembers [OF r] obtain c' where
      "Shown c \<in> set (r_log r')" "Landed c' \<in> set (r_log r')" "compare_equal c' c" by blast
    from confirmed_by_other_post [OF converged_settling [OF r] this] window_step_fine [OF r]
    show "fine E True (if \<not> True then when_done E r' (cancel_commit E) (cancel_commit E)
        else if r_no_banner r' then confirmed_by_other E r' else window_step E r')" by simp }
qed

lemma after_commit_fine:
  assumes "if answered then reached E r (Sent d c) \<and> knows r d c else settling E r"
  shows "fine E True (after_commit E sent answered r)"
proof -
  have "fine E True ((if answered then verify_step E else read_state E True) (r\<lparr>r_world := w, r_window_end := x, o_until := u\<rparr>))"
    "fine E True ((if answered then verify_step E else read_state E True) (r\<lparr>r_world := w, r_window_end := x, o_until := u, r_world := w'\<rparr>))"
    for w w' x u
    using assms by (auto simp del: fine.simps intro!: verify_step_fine [where d = d and c = c] read_state_post split: if_splits)
  moreover from assms have "settling E r" by (auto simp: sent_settling split: if_splits)
  then obtain ph where "post ph" "reached E r ph" by (auto simp: settling_def)
  ultimately show ?thesis
    unfolding after_commit_def by (intro fine_clock fine_ask_opt [where ph = ph]) simp_all
qed

section \<open>Before the commit\<close>

lemma ask_pre:
  assumes "reached E r ph" "\<not> post ph" "\<And>e w. fine E ap (bad e (r\<lparr>r_world := w\<rparr>))" "\<And>x w. fine E ap (good x (r\<lparr>r_world := w\<rparr>))"
  shows "fine E ap (ask f r bad good)"
  using assms by (intro fine_ask) auto

definition dropping :: "exit_code set" where
  "dropping = {ExFailed, ExFailedLoad, ExFailedCheck, ExNoChange, ExChecked, ExInterrupted}"

lemma dropping_fits: "e \<in> dropping \<Longrightarrow> exit_fits False e \<and> rests_on i pre evs e"
  by (auto simp: dropping_def)

lemma discard_fine:
  assumes "reached E r ph" "\<not> post ph" "e \<in> dropping"
  shows "fine E ap (discard E e r)"
proof -
  have "reached E (add_event (Typed TDiscard b) (r\<lparr>r_world := w\<rparr>)) Closed" for b w
    using assms(1,2) by (intro reached_event [where ph = ph]) (auto intro: pstep.drop)
  then have c: "reached E ((add_event (Typed TDiscard b) (r\<lparr>r_world := w\<rparr>))\<lparr>o_discarded := x\<rparr>) Closed"
    "reached E (add_event (Typed TDiscard b) (r\<lparr>r_world := w\<rparr>)) Closed" for b w x by simp_all
  have "fine E ap (stop e ((add_event (Typed TDiscard b) (r\<lparr>r_world := w\<rparr>))\<lparr>o_discarded := x\<rparr>))" for b w x
    using dropping_fits [OF assms(3)] by (intro fine_stop [OF c(1)]) auto
  then show ?thesis
    unfolding discard_def using c(2) by (intro fine_type) (auto simp del: fine.simps intro!: exI [of _ Closed])
qed

lemma stop_pre: "reached E r ph \<Longrightarrow> \<not> post ph \<Longrightarrow> e \<in> dropping \<Longrightarrow> fine E ap (stop e r)"
  using dropping_fits by (intro fine_stop) auto

lemma interrupt_fine: "reached E r ph \<Longrightarrow> \<not> post ph \<Longrightarrow> fine E ap (interrupt_before_commit E r)"
  unfolding interrupt_before_commit_def by (intro discard_fine [where ph = ph]) (simp_all add: dropping_def)

lemma discard_unless_done_fine: "reached E r ph \<Longrightarrow> \<not> post ph \<Longrightarrow> e \<in> dropping \<Longrightarrow> fine E ap (discard_unless_done E e r)"
  unfolding discard_unless_done_def by (intro fine_when_done interrupt_fine [where ph = ph] discard_fine [where ph = ph]) simp_all

lemma commit_event:
  assumes "reached E r (Current d c)"
  shows "reached E (add_event (Typed TCommit b) (r\<lparr>r_committing := True, r_world := w\<rparr>)) (if b then Sent d c else Settling)"
  using assms by (cases b) (auto simp: reached_def add_event_def login_class_def intro: path.step pstep.sent pstep.unanswered)

lemma commit_step_fine:
  assumes "reached E r (Checked d c)" "knows r d c"
  shows "fine E True (commit_step E r)"
  unfolding commit_step_def see_def
proof (rule ask_pre [where ph = "Checked d c"])
  show "fine E True (discard_unless_done E ExFailedCheck ((at_step ''commit'' r)\<lparr>r_world := w\<rparr>))" for w
    using assms(1) by (intro discard_unless_done_fine [where ph = "Checked d c"]) (simp_all add: at_step_def dropping_def)
  fix st w
  let ?r = "add_event (Saw st) ((at_step ''commit'' r)\<lparr>r_world := w\<rparr>)"
  show "fine E True (if cs_pending st then discard E ExFailedCheck ?r
      else entry0 st ?r (\<lambda>e r. clock E (r\<lparr>r_pre := e\<rparr>) (\<lambda>sent r.
        type_cmd TCommit (e_commit E (e_minutes E) (r_id r)) (r\<lparr>r_committing := True\<rparr>)
          (\<lambda>_. after_commit E sent False) (\<lambda>_. after_commit E sent True))))"
  proof (cases "cs_pending st")
    case True
    have "reached E ?r Failing"
      using assms(1) True by (intro reached_event [where ph = "Checked d c"]) (auto simp: at_step_def intro: pstep.not_current)
    then show ?thesis using True by (simp add: discard_fine [where ph = Failing] dropping_def)
  next
    case False
    have cur: "reached E ?r (Current d c)"
      using assms(1) False by (intro reached_event [where ph = "Checked d c"]) (auto simp: at_step_def intro: pstep.current)
    have k: "knows ?r d c" using assms(2) by (simp add: at_step_def)
    have sent: "reached E (add_event (Typed TCommit b) (?r\<lparr>r_pre := e, r_world := w', r_committing := True, r_world := w''\<rparr>)) (if b then Sent d c else Settling)" for b e w' w''
      using cur by (intro commit_event) simp
    have "fine E True (entry0 st ?r (\<lambda>e r. clock E (r\<lparr>r_pre := e\<rparr>) (\<lambda>sent r.
        type_cmd TCommit (e_commit E (e_minutes E) (r_id r)) (r\<lparr>r_committing := True\<rparr>)
          (\<lambda>_. after_commit E sent False) (\<lambda>_. after_commit E sent True))))"
    proof (rule fine_entry0 [OF cur])
      fix e h
      show "fine E True (clock E (?r\<lparr>r_pre := e\<rparr>) (\<lambda>sent r.
        type_cmd TCommit (e_commit E (e_minutes E) (r_id r)) (r\<lparr>r_committing := True\<rparr>)
          (\<lambda>_. after_commit E sent False) (\<lambda>_. after_commit E sent True)))"
      proof (intro fine_clock fine_type)
        fix t w' w'' b
        show "\<exists>ph. reached E (add_event (Typed TCommit b) (?r\<lparr>r_pre := e, r_world := w', r_committing := True, r_world := w''\<rparr>)) ph \<and> (post ph \<longrightarrow> True)"
          using sent by blast
      next
        fix t w' x w''
        show "fine E True (after_commit E t False (add_event (Typed TCommit False) (?r\<lparr>r_pre := e, r_world := w', r_committing := True, r_world := w''\<rparr>)))"
          using sent [where b = False and e = e and w' = w' and w'' = w'']
          by (intro after_commit_fine [where d = d and c = c]) (auto intro: settling_reached)
      next
        fix t w' x w''
        show "fine E True (after_commit E t True (add_event (Typed TCommit True) (?r\<lparr>r_pre := e, r_world := w', r_committing := True, r_world := w''\<rparr>)))"
          using sent [where b = True and e = e and w' = w' and w'' = w''] k
          by (intro after_commit_fine [where d = d and c = c]) simp
      qed
    qed simp
    with False show ?thesis by simp
  qed
qed (use assms(1) in \<open>simp_all add: at_step_def\<close>)

lemma check_step_fine:
  assumes "reached E r (Compared d c)" "knows r d c"
  shows "fine E ap (check_step E ap r)"
  unfolding check_step_def see_def
proof (rule ask_pre [where ph = "Compared d c"])
  show "fine E ap (discard_unless_done E ExFailedCheck ((at_step ''check'' r)\<lparr>r_world := w\<rparr>))" for w
    using assms(1) by (intro discard_unless_done_fine [where ph = "Compared d c"]) (simp_all add: at_step_def dropping_def)
  fix st w
  let ?r = "add_event (Saw st) ((at_step ''check'' r)\<lparr>r_world := w\<rparr>)"
  show "fine E ap (if cs_pending st then entry0 st ?r (\<lambda>_. discard E ExFailedCheck)
      else type_cmd TCheck (e_commit_check E) ?r (\<lambda>_. discard_unless_done E ExFailedCheck) (\<lambda>_ r.
        if \<not> ap then discard E ExChecked r else when_done E r (interrupt_before_commit E) (commit_step E)))"
  proof (cases "cs_pending st")
    case True
    have f: "reached E ?r Failing"
      using assms(1) True by (intro reached_event [where ph = "Compared d c"]) (auto simp: at_step_def intro: pstep.not_ready)
    then have "fine E ap (entry0 st ?r (\<lambda>_. discard E ExFailedCheck))"
      by (intro fine_entry0 [OF f] discard_fine [OF f]) (simp_all add: dropping_def)
    then show ?thesis using True by simp
  next
    case False
    have ready: "reached E ?r (Ready d c)"
      using assms(1) False by (intro reached_event [where ph = "Compared d c"]) (auto simp: at_step_def intro: pstep.ready)
    have chk: "reached E (add_event (Typed TCheck b) (?r\<lparr>r_world := w'\<rparr>)) (if b then Checked d c else Failing)" for b w'
      using ready by (intro reached_event [where ph = "Ready d c"]) (cases b; auto intro: pstep.checked pstep.check_failed)+
    have "fine E ap (type_cmd TCheck (e_commit_check E) ?r (\<lambda>_. discard_unless_done E ExFailedCheck) (\<lambda>_ r.
        if \<not> ap then discard E ExChecked r else when_done E r (interrupt_before_commit E) (commit_step E)))"
    proof (rule fine_type)
      fix w' b
      show "\<exists>ph. reached E (add_event (Typed TCheck b) (?r\<lparr>r_world := w'\<rparr>)) ph \<and> (post ph \<longrightarrow> ap)"
        using chk [of b w'] by (intro exI [of _ "if b then Checked d c else Failing"]) auto
    next
      fix e w'
      show "fine E ap (discard_unless_done E ExFailedCheck (add_event (Typed TCheck False) (?r\<lparr>r_world := w'\<rparr>)))"
        using chk [of False w'] by (intro discard_unless_done_fine [where ph = Failing]) (simp_all add: dropping_def)
    next
      fix x w'
      let ?q = "add_event (Typed TCheck True) (?r\<lparr>r_world := w'\<rparr>)"
      have q: "reached E (?q\<lparr>r_world := v\<rparr>) (Checked d c)" "knows (?q\<lparr>r_world := v\<rparr>) d c" for v
        using chk [of True w'] assms(2) by (simp_all add: at_step_def)
      have "fine E True (when_done E ?q (interrupt_before_commit E) (commit_step E))"
        by (intro fine_when_done interrupt_fine [OF q(1)] commit_step_fine [OF q]) simp
      moreover have "fine E False (discard E ExChecked ?q)"
        using chk [of True w'] by (intro discard_fine [where ph = "Checked d c"]) (simp_all add: dropping_def)
      ultimately show "fine E ap (if \<not> ap then discard E ExChecked ?q else when_done E ?q (interrupt_before_commit E) (commit_step E))"
        by (cases ap) simp_all
    qed
    with False show ?thesis by simp
  qed
qed (use assms(1) in \<open>simp_all add: at_step_def\<close>)

lemma compare_step_fine:
  assumes "reached E r (Loading d [])" "r_delta r = d" "o_sections r = delta_planned d"
  shows "fine E ap (compare_step E ap r)"
  unfolding compare_step_def
proof (rule ask_pre [where ph = "Loading d []"])
  show "fine E ap (discard_unless_done E ExFailedLoad ((at_step ''compare'' r)\<lparr>r_world := w\<rparr>))" for w
    using assms(1) by (intro discard_unless_done_fine [where ph = "Loading d []"]) (simp_all add: at_step_def dropping_def)
  fix c w
  let ?r = "add_event (Shown c) ((at_step ''compare'' r)\<lparr>r_world := w\<rparr>)"
  have c: "reached E ?r (Compared d c)"
    using assms(1) by (intro reached_event [where ph = "Loading d []"]) (auto simp: at_step_def intro: pstep.compared)
  have "fine E ap (check_step E ap (?r\<lparr>r_compare := c\<rparr>))"
    by (rule check_step_fine) (use c assms(2,3) in \<open>simp_all add: knows_def at_step_def\<close>)
  then show "fine E ap (let r = ?r in if compare_empty c then discard E ExNoChange r
      else if e_unexplained E c (r_delta r) > 0 then discard E ExFailedLoad r else check_step E ap (r\<lparr>r_compare := c\<rparr>))"
    using discard_fine [OF c] by (simp add: Let_def dropping_def)
qed (use assms(1) in \<open>simp_all add: at_step_def\<close>)

lemma load_lines_fine:
  assumes "reached E r (Loading d ls)" "r_delta r = d" "o_sections r = delta_planned d" "class = login_class E r"
    and k: "\<And>r'. reached E r' (Loading d []) \<Longrightarrow> r_delta r' = d \<Longrightarrow> o_sections r' = delta_planned d \<Longrightarrow> fine E ap (k r')"
  shows "fine E ap (load_lines E class ls r k)"
  using assms(1-4)
proof (induction ls arbitrary: r)
  case Nil
  then show ?case by (simp add: k)
next
  case (Cons l ls)
  have p: "reached E (r\<lparr>r_world := w\<rparr>) (Loading d (l # ls))" for w using Cons.prems(1) by simp
  have ev: "reached E (add_event (Typed (TLoad l) b) (r\<lparr>r_world := w, r_world := w'\<rparr>)) (if b then Loading d ls else Failing)"
    if "e_allow E d class (l_text l)" for b w w'
    using that Cons.prems(1,4)
    by (intro reached_event [where ph = "Loading d (l # ls)"]) (cases b; auto simp: login_class_def intro: pstep.loaded pstep.load_failed)+
  show ?case
    unfolding load_lines.simps
  proof (rule fine_when_done)
    show "fine E ap (interrupt_before_commit E (r\<lparr>r_world := w\<rparr>))" for w by (rule interrupt_fine [OF p]) simp
    fix w
    show "fine E ap (if \<not> e_allow E (r_delta (r\<lparr>r_world := w\<rparr>)) class (l_text l) then discard E ExFailedLoad (r\<lparr>r_world := w\<rparr>)
        else type_cmd (TLoad l) (e_load E l) (r\<lparr>r_world := w\<rparr>) (\<lambda>_. discard_unless_done E ExFailedLoad)
          (\<lambda>missing r. load_lines E class ls (if missing then r\<lparr>o_not_found := Suc (o_not_found r)\<rparr> else r) k))"
    proof (cases "e_allow E d class (l_text l)")
      case False
      then show ?thesis using Cons.prems(2) discard_fine [OF p] by (simp add: dropping_def)
    next
      case True
      have "fine E ap (type_cmd (TLoad l) (e_load E l) (r\<lparr>r_world := w\<rparr>) (\<lambda>_. discard_unless_done E ExFailedLoad)
          (\<lambda>missing r. load_lines E class ls (if missing then r\<lparr>o_not_found := Suc (o_not_found r)\<rparr> else r) k))"
      proof (rule fine_type)
        fix w' b
        show "\<exists>ph. reached E (add_event (Typed (TLoad l) b) (r\<lparr>r_world := w, r_world := w'\<rparr>)) ph \<and> (post ph \<longrightarrow> ap)"
          using ev [OF True, where b = b and w = w and w' = w'] by (intro exI [of _ "if b then Loading d ls else Failing"]) auto
      next
        fix e w'
        show "fine E ap (discard_unless_done E ExFailedLoad (add_event (Typed (TLoad l) False) (r\<lparr>r_world := w, r_world := w'\<rparr>)))"
          using ev [OF True, where b = False and w = w and w' = w'] by (intro discard_unless_done_fine [where ph = Failing]) (simp_all add: dropping_def)
      next
        fix missing w'
        let ?q = "add_event (Typed (TLoad l) True) (r\<lparr>r_world := w, r_world := w'\<rparr>)"
        have "reached E ?q (Loading d ls)" using ev [OF True, where b = True and w = w and w' = w'] by simp
        moreover have "login_class E ?q = login_class E r" by (simp add: login_class_def add_event_def)
        ultimately show "fine E ap (load_lines E class ls (if missing then ?q\<lparr>o_not_found := Suc (o_not_found ?q)\<rparr> else ?q) k)"
          using Cons.prems by (intro Cons.IH) (simp_all add: login_class_def)
      qed
      with True Cons.prems(2) show ?thesis by simp
    qed
  qed
qed

lemma open_step_fine:
  assumes "reached E r Idle" "o_sections r = delta_planned (r_delta r)"
  shows "fine E ap (open_step E ap r)"
proof -
  have ev: "reached E (add_event (Typed TOpen b) ((at_step ''open'' r)\<lparr>r_world := w\<rparr>)) (if b then Loading (r_delta r) (d_lines (r_delta r)) else Closed)" for b w
    using assms(1) by (intro reached_event [where ph = Idle]) (cases b; auto simp: at_step_def intro: pstep.opened pstep.refused)+
  show ?thesis
    unfolding open_step_def
  proof (rule fine_type)
  fix w b
  show "\<exists>ph. reached E (add_event (Typed TOpen b) ((at_step ''open'' r)\<lparr>r_world := w\<rparr>)) ph \<and> (post ph \<longrightarrow> ap)"
    using ev [of b w] by (intro exI [of _ "if b then Loading (r_delta r) (d_lines (r_delta r)) else Closed"]) auto
  next
  fix e w
  show "fine E ap (stop ExFailed (add_event (Typed TOpen False) ((at_step ''open'' r)\<lparr>r_world := w\<rparr>)))"
    using ev [of False w] by (intro stop_pre [where ph = Closed]) (simp_all add: dropping_def)
  next
  fix x w
  let ?q = "add_event (Typed TOpen True) ((at_step ''open'' r)\<lparr>r_world := w\<rparr>)"
  show "fine E ap (load_lines E (login_class E ?q) (d_lines (r_delta ?q)) (at_step ''load'' ?q) (compare_step E ap))"
    using ev [of True w] assms(2)
    by (intro load_lines_fine [where d = "r_delta r"] compare_step_fine [where d = "r_delta r"])
      (simp_all add: at_step_def login_class_def)
  qed
qed

lemma gate_step_fine:
  assumes "reached E r Idle" "o_sections r = delta_planned (r_delta r)"
  shows "fine E ap (gate_step E ap r)"
  unfolding gate_step_def
proof (rule ask_pre [where ph = Idle])
  show "fine E ap (stop ExFailed ((at_step ''gate'' r)\<lparr>r_world := w\<rparr>))" for w
    using assms(1) by (intro stop_pre [where ph = Idle]) (simp_all add: at_step_def dropping_def)
  fix x :: "bool \<times> bool" and w
  let ?r = "(at_step ''gate'' r)\<lparr>r_world := w\<rparr>"
  have i: "reached E (?r\<lparr>r_world := w'\<rparr>) Idle" "reached E (?r\<lparr>r_world := w', r_world := w''\<rparr>) Idle" for w' w''
    using assms(1) by (simp_all add: at_step_def)
  have "fine E ap (when_done E ?r (\<lambda>r. stop ExInterrupted (r\<lparr>o_interrupted := e_cancelled E (r_world r)\<rparr>))
      (\<lambda>r. ask_opt (e_pause E) r (open_step E ap)))"
    using i assms(2) by (intro fine_when_done fine_ask_opt [where ph = Idle] stop_pre [where ph = Idle] open_step_fine)
      (simp_all add: at_step_def dropping_def)
  then show "fine E ap ((\<lambda>(editors, staged) r. if editors \<or> staged then stop ExFailed r
      else when_done E r (\<lambda>r. stop ExInterrupted (r\<lparr>o_interrupted := e_cancelled E (r_world r)\<rparr>))
        (\<lambda>r. ask_opt (e_pause E) r (open_step E ap))) x ?r)"
    using stop_pre [of E ?r Idle ExFailed ap] i by (cases x) (simp add: dropping_def)
qed (use assms(1) in \<open>simp_all add: at_step_def\<close>)

lemma idle_path: "path A i evs ph \<Longrightarrow> ph = Idle \<Longrightarrow> path A' i evs Idle"
proof (induction rule: path.induct)
  case start
  show ?case by (rule path.start)
next
  case (step evs ph ev ph')
  from step(2,4) have "ph = Idle" "\<exists>st. ev = Saw st" by (cases rule: pstep.cases; simp)+
  with step(3) show ?case by (auto intro: path.step pstep.idle)
qed

lemma idle_class: "reached E r Idle \<Longrightarrow> reached E (r\<lparr>o_class := x\<rparr>) Idle"
  by (auto simp: reached_def intro: idle_path)

lemma allow_step_fine:
  assumes "reached E r Idle" "o_sections r = delta_planned (r_delta r)"
  shows "fine E ap (allow_step E ap r)"
proof -
  have "reached E (at_step ''allow'' r) Idle" using assms(1) by (simp add: at_step_def)
  then show ?thesis
    unfolding allow_step_def
    using assms(2) by (auto simp: Let_def at_step_def dropping_def simp del: fine.simps intro!: stop_pre [where ph = Idle] gate_step_fine)
qed

lemma read_step_fine:
  assumes "reached E r Idle"
  shows "fine E (reviewed \<noteq> None) (read_step E reviewed r)"
  unfolding read_step_def
proof (rule ask_pre [where ph = Idle])
  show "fine E ap (stop ExFailed ((at_step ''read'' r)\<lparr>r_world := w\<rparr>))" for ap w
    using assms by (intro stop_pre [where ph = Idle]) (simp_all add: at_step_def dropping_def)
  fix raw w
  show "fine E (reviewed \<noteq> None) (ask (e_plan E raw) ((at_step ''read'' r)\<lparr>r_world := w\<rparr>) (\<lambda>_. stop ExFailed) (\<lambda>d r.
       let r = planned_run E d r
       in if \<not> family_junos (e_unicode E) (d_vendor d) then stop ExFailed r
          else if (case reviewed of Some v \<Rightarrow> \<not> delta_equal d v | None \<Rightarrow> False) then stop ExFailed r
          else if d_placeholders d > 0 then stop ExFailed r
          else if delta_empty d then stop ExNoChange r
          else allow_step E (reviewed \<noteq> None) r))"
  proof (rule ask_pre [where ph = Idle])
    show "fine E ap (stop ExFailed ((at_step ''read'' r)\<lparr>r_world := w, r_world := w'\<rparr>))" for ap w'
      using assms by (intro stop_pre [where ph = Idle]) (simp_all add: at_step_def dropping_def)
    fix d w'
    let ?r = "planned_run E d ((at_step ''read'' r)\<lparr>r_world := w, r_world := w'\<rparr>)"
    have i: "reached E ?r Idle" "o_sections ?r = delta_planned (r_delta ?r)" using assms by (simp_all add: planned_run_def at_step_def)
    have "fine E ap (stop ExFailed ?r)" "fine E ap (stop ExNoChange ?r)" for ap
      by (rule stop_pre [OF i(1)]; simp add: dropping_def)+
    then show "fine E (reviewed \<noteq> None) (let r = ?r
       in if \<not> family_junos (e_unicode E) (d_vendor d) then stop ExFailed r
          else if (case reviewed of Some v \<Rightarrow> \<not> delta_equal d v | None \<Rightarrow> False) then stop ExFailed r
          else if d_placeholders d > 0 then stop ExFailed r
          else if delta_empty d then stop ExNoChange r
          else allow_step E (reviewed \<noteq> None) r)"
      using allow_step_fine [OF i] by (simp add: Let_def del: fine.simps)
  qed (use assms in \<open>simp_all add: at_step_def\<close>)
qed (use assms in \<open>simp_all add: at_step_def\<close>)

lemma idle_saw: "reached E r Idle \<Longrightarrow> reached E (add_event (Saw st) r) Idle"
  by (rule reached_event [where ph = Idle]) (auto intro: pstep.idle)

lemma preflight_step_fine:
  assumes "reached E r Idle"
  shows "fine E (reviewed \<noteq> None) (preflight_step E reviewed r)"
proof -
  let ?ap = "reviewed \<noteq> None"
  have stop: "fine E ?ap (stop ExFailed q)" if "reached E q Idle" for q
    by (rule stop_pre [OF that]) (simp_all add: dropping_def)
  have login: "fine E ?ap (ask (rd_class (e_held E)) q (\<lambda>_. stop ExFailed) (\<lambda>class r.
      let r = r\<lparr>o_class := class\<rparr> in if \<not> e_confirms E (r_world r) then stop ExFailed r else read_step E reviewed r))"
    if "reached E q Idle" for q
  proof (rule ask_pre [OF that])
    have c: "reached E (q\<lparr>r_world := w, o_class := x\<rparr>) Idle" for w x using that by (intro idle_class) simp
    then show "fine E ?ap (let r = q\<lparr>r_world := w, o_class := x\<rparr> in
        if \<not> e_confirms E (r_world r) then stop ExFailed r else read_step E reviewed r)" for x w
      using stop [OF c] read_step_fine [OF c] by (simp add: Let_def del: fine.simps)
  qed (use that stop in simp_all)
  have state: "fine E ?ap (see (e_held E) q (\<lambda>_. stop ExFailed) (\<lambda>st r.
      if cs_pending st then stop ExFailed r else entry0 st r (\<lambda>e r.
        ask (rd_class (e_held E)) (r\<lparr>r_pre := e\<rparr>) (\<lambda>_. stop ExFailed) (\<lambda>class r.
          let r = r\<lparr>o_class := class\<rparr> in if \<not> e_confirms E (r_world r) then stop ExFailed r else read_step E reviewed r))))"
    if "reached E q Idle" for q
    unfolding see_def
  proof (rule ask_pre [OF that])
    fix st w
    let ?q = "add_event (Saw st) (q\<lparr>r_world := w\<rparr>)"
    have i: "reached E ?q Idle" using that by (intro idle_saw) simp
    have "fine E ?ap (entry0 st ?q (\<lambda>e r. ask (rd_class (e_held E)) (r\<lparr>r_pre := e\<rparr>) (\<lambda>_. stop ExFailed) (\<lambda>class r.
        let r = r\<lparr>o_class := class\<rparr> in if \<not> e_confirms E (r_world r) then stop ExFailed r else read_step E reviewed r)))"
      by (rule fine_entry0 [OF i], simp, rule login, simp add: i)
    with stop [OF i] show "fine E ?ap (if cs_pending st then stop ExFailed ?q else entry0 st ?q (\<lambda>e r.
        ask (rd_class (e_held E)) (r\<lparr>r_pre := e\<rparr>) (\<lambda>_. stop ExFailed) (\<lambda>class r.
          let r = r\<lparr>o_class := class\<rparr> in if \<not> e_confirms E (r_world r) then stop ExFailed r else read_step E reviewed r)))"
      by simp
  qed (use that stop in simp_all)
  have p: "reached E (at_step ''preflight'' r) Idle" using assms by (simp add: at_step_def)
  show ?thesis
    unfolding preflight_step_def Let_def
    using stop [OF p] p by (auto simp del: fine.simps not_None_eq intro!: ask_pre [OF p] stop state [unfolded Let_def])
qed

section \<open>The whole transaction\<close>

definition well_ended :: "'w env \<Rightarrow> bool \<Rightarrow> 'w run \<Rightarrow> bool" where
  "well_ended E ap r \<longleftrightarrow> fine E ap (Fin r)"

lemma recovered_fine:
  assumes "fine E ap (Panic r)"
  shows "well_ended E ap (recovered E r)"
proof -
  from assms obtain ph where ph: "reached E r ph" "post ph \<longrightarrow> ap" by auto
  show ?thesis
  proof (cases "r_committing r")
    case True
    with ph have "post ph" by (simp add: reached_def)
    then show ?thesis
      using True ph by (auto simp: well_ended_def recovered_def end_at_def split: option.split prod.split intro!: exI [of _ ph])
  next
    case False
    with ph have np: "\<not> post ph" by (simp add: reached_def)
    have d: "reached E (add_event (Typed TDiscard b) (r\<lparr>r_world := w, o_discarded := x\<rparr>)) Closed" for b w x
      using ph np by (intro reached_event [where ph = ph]) (auto intro: pstep.drop)
    then have "well_ended E ap (end_at ExFailed (add_event (Typed TDiscard b) (r\<lparr>r_world := w, o_discarded := x\<rparr>)))" for b w x
      unfolding well_ended_def fine.simps by (intro exI [of _ Closed] exI [of _ ExFailed]) simp
    moreover have "well_ended E ap (end_at ExFailed (r\<lparr>o_discarded := False\<rparr>))"
      unfolding well_ended_def fine.simps using ph np by (intro exI [of _ ph] exI [of _ ExFailed]) simp
    ultimately show ?thesis using False by (simp add: recovered_def split: prod.split)
  qed
qed

lemma guarded_fine: "reached E r Idle \<Longrightarrow> well_ended E (reviewed \<noteq> None) (guarded E reviewed r)"
  using preflight_step_fine [of E r reviewed] recovered_fine [of E "reviewed \<noteq> None"]
  by (auto simp: guarded_def well_ended_def simp del: fine.simps split: fin.split)

lemma finish_fine: "well_ended E ap r \<Longrightarrow> well_ended E ap (finish E r)"
  by (auto simp: well_ended_def finish_def Let_def)

lemma run_transaction_fine: "well_ended (margins E) (reviewed \<noteq> None) (run_transaction E reviewed w)"
proof -
  let ?E = "margins E"
  have new: "reached ?E ((new_run w)\<lparr>r_world := v, r_id := i\<rparr>) Idle" "reached ?E ((new_run w)\<lparr>r_world := v\<rparr>) Idle" "reached ?E (new_run w) Idle" for v i
    by (simp_all add: reached_def new_run_def path.start)
  have early: "well_ended ?E ap (end_at ExFailed (at_step s q))" if "reached ?E q Idle" for q s ap
    unfolding well_ended_def fine.simps using that by (intro exI [of _ Idle] exI [of _ ExFailed]) (simp add: at_step_def)
  show ?thesis
    unfolding run_transaction_def Let_def
    by (rule finish_fine) (auto simp: early new guarded_fine simp del: not_None_eq split: option.split prod.split)
qed

section \<open>The order of what is typed\<close>

text \<open>The confirm is typed once, and what a phase is entered by.\<close>

fun may_follow_confirm :: "phase \<Rightarrow> bool" where
  "may_follow_confirm Settling = True"
| "may_follow_confirm (Seen st) = True"
| "may_follow_confirm _ = False"

lemma may_follow_post: "may_follow_confirm ph \<Longrightarrow> post ph"
  by (cases ph) auto

lemma path_confirms: "path A i evs ph \<Longrightarrow> Typed TConfirm b \<in> set evs \<Longrightarrow> may_follow_confirm ph"
proof (induction rule: path.induct)
  case start
  then show ?case by simp
next
  case (step evs ph ev ph')
  from step(2) show ?case using step(3,4) by (cases rule: pstep.cases) (auto dest: may_follow_post)
qed

lemma path_last: "path A i evs ph \<Longrightarrow> evs \<noteq> [] \<Longrightarrow> \<exists>zs ph0. evs = zs @ [last evs] \<and> pstep A i ph0 (last evs) ph"
  by (cases rule: path.cases) auto

lemma entered_by_state:
  assumes "path A i evs ph"
  shows "ph = Ready d c \<Longrightarrow> \<exists>zs st. evs = zs @ [Saw st] \<and> \<not> cs_pending st"
    "ph = Current d c \<Longrightarrow> \<exists>zs st. evs = zs @ [Saw st] \<and> \<not> cs_pending st"
    "ph = Seen st \<Longrightarrow> \<exists>zs. evs = zs @ [Saw st]"
proof -
  have ne: "ph \<noteq> Idle \<Longrightarrow> evs \<noteq> []" using assms by (auto elim: path.cases)
  have last: "ph \<noteq> Idle \<Longrightarrow> \<exists>zs ev ph0. evs = zs @ [ev] \<and> pstep A i ph0 ev ph"
    using path_last [OF assms ne] by blast
  show "ph = Ready d c \<Longrightarrow> \<exists>zs st. evs = zs @ [Saw st] \<and> \<not> cs_pending st"
    using last by (auto elim: pstep.cases)
  show "ph = Current d c \<Longrightarrow> \<exists>zs st. evs = zs @ [Saw st] \<and> \<not> cs_pending st"
    using last by (auto elim: pstep.cases)
  show "ph = Seen st \<Longrightarrow> \<exists>zs. evs = zs @ [Saw st]"
    using last by (auto elim: pstep.cases)
qed

text \<open>What must stand before a command in the log.\<close>

fun in_order :: "(delta \<Rightarrow> line \<Rightarrow> bool) \<Rightarrow> string \<Rightarrow> event list \<Rightarrow> cmd \<Rightarrow> bool" where
  "in_order A i xs (TLoad l) \<longleftrightarrow> (\<exists>d. A d l \<and> l \<in> set (d_lines d))"
| "in_order A i xs TCheck \<longleftrightarrow> (\<exists>zs st. xs = zs @ [Saw st] \<and> \<not> cs_pending st)"
| "in_order A i xs TCommit \<longleftrightarrow> (\<exists>zs st. xs = zs @ [Saw st] \<and> \<not> cs_pending st) \<and> Typed TCheck True \<in> set xs"
| "in_order A i xs TConfirm \<longleftrightarrow> Typed TCommit True \<in> set xs \<and> (\<forall>b. Typed TConfirm b \<notin> set xs) \<and>
     (\<exists>d c. loaded_all xs d \<and> matched xs c \<and> nothing_left xs d)"
| "in_order A i xs TCancel \<longleftrightarrow> (\<exists>zs st e h. xs = zs @ [Saw st] \<and> cs_pending st \<and> cs_history st = e # h \<and> ours e i)"
| "in_order A i xs TRevert \<longleftrightarrow> (\<exists>zs st e h. xs = zs @ [Saw st] \<and> \<not> cs_pending st \<and> cs_history st = e # h \<and> ours e i)"
| "in_order A i xs _ \<longleftrightarrow> True"

lemma loading_suffix: "path A i evs ph \<Longrightarrow> ph = Loading d (l # ls) \<Longrightarrow> l \<in> set (d_lines d)"
  using path_remembers [of A i evs ph] by auto

lemma path_in_order:
  assumes "path A i xs ph" "pstep A i ph (Typed c b) ph'"
  shows "in_order A i xs c"
  using assms(2)
proof (cases rule: pstep.cases)
  case (loaded d l ls)
  then show ?thesis using loading_suffix [OF assms(1)] by auto
next
  case (load_failed d l ls)
  then show ?thesis using loading_suffix [OF assms(1)] by auto
next
  case (checked d c)
  then show ?thesis using entered_by_state(1) [OF assms(1)] by simp
next
  case (check_failed d c)
  then show ?thesis using entered_by_state(1) [OF assms(1)] by simp
next
  case (sent d c)
  then show ?thesis using entered_by_state(2) [OF assms(1)] path_remembers [OF assms(1)] by simp
next
  case (unanswered d c)
  then show ?thesis using entered_by_state(2) [OF assms(1)] path_remembers [OF assms(1)] by simp
next
  case (confirm d c)
  have "Typed TConfirm b' \<notin> set xs" for b'
    using path_confirms [OF assms(1), of b'] confirm(1) by auto
  then show ?thesis using confirm path_remembers [OF assms(1)] by auto
next
  case (cancel st e h)
  then show ?thesis using entered_by_state(3) [OF assms(1)] by auto
next
  case (revert st e h)
  then show ?thesis using entered_by_state(3) [OF assms(1)] by auto
qed simp_all

lemma margins_fields [simp]: "login_class (margins E) r = login_class E r" "e_allow (margins E) = e_allow E"
  by (simp_all add: login_class_def margins_def)

lemma run_has_path:
  "\<exists>ph. path (\<lambda>d l. e_allow E d (login_class E (run_transaction E reviewed w)) (l_text l))
     (r_id (run_transaction E reviewed w)) (r_log (run_transaction E reviewed w)) ph"
  using run_transaction_fine [of E reviewed w] by (auto simp: well_ended_def reached_def)

section \<open>The properties\<close>

text \<open>
  C3: every transaction is a path of the protocol: whatever the device, the planner and the callbacks answer, and
  also when one of them panics, its log is one the step relation allows.
\<close>

theorem transaction_follows_protocol:
  "\<exists>ph. path (\<lambda>d l. e_allow E d (login_class E (run_transaction E reviewed w)) (l_text l))
     (r_id (run_transaction E reviewed w)) (r_log (run_transaction E reviewed w)) ph"
  by (rule run_has_path)

text \<open>
  C5: the named exit says whether the device may have been changed: a transaction always ends at a named
  exit, and the exit is one of those after a commit exactly when the confirmed commit was typed; a check
  never types one.
\<close>

theorem exit_tells_commit:
  "(\<exists>e. o_exit (run_transaction E reviewed w) = Some e \<and> exit_fits (commits (r_log (run_transaction E reviewed w))) e) \<and>
   commits (r_log (check_change E w)) = False"
proof
  from run_transaction_fine [of E reviewed w]
  show "\<exists>e. o_exit (run_transaction E reviewed w) = Some e \<and> exit_fits (commits (r_log (run_transaction E reviewed w))) e"
    by (auto simp: well_ended_def reached_def path_commits)
  from run_transaction_fine [of E None w]
  show "commits (r_log (check_change E w)) = False"
    by (auto simp: well_ended_def reached_def check_change_def dest!: path_commits)
qed

text \<open>
  C6: an exit is never named without what it rests on having been read: applied only with tacctl's confirm above its
  commit in the history, applied by someone else only when the device's rollbacks show the configuration of
  tacctl's commit (or the verification proved it while no banner stood), rolled back only with tacctl's
  cancel or with rollbacks that show the configuration before it, and nothing committed only over the
  same entry 0 as before.
\<close>

theorem exit_rests_on_reads:
  "\<exists>e. o_exit (run_transaction E reviewed w) = Some e \<and>
     rests_on (r_id (run_transaction E reviewed w)) (r_pre (run_transaction E reviewed w)) (r_log (run_transaction E reviewed w)) e"
  using run_transaction_fine [of E reviewed w] by (auto simp: well_ended_def)


text \<open>A device on which the change goes through, for the witnesses: the world counts the commits.\<close>

definition lab_delta :: delta where
  "lab_delta = \<lparr>d_vendor = ''junos'', d_lines = [\<lparr>l_section = ''system'', l_op = OpSet, l_text = ''set system host-name r1'', l_context = []\<rparr>],
     d_sections = [(''system'', ''planned'')], d_placeholders = 0\<rparr>"

definition lab_compare :: compare_text where
  "lab_compare = \<lparr>ct_stmts = [\<lparr>cm_op = CHR ''+'', cm_path = [''system'', ''host-name'', ''r1'']\<rparr>], ct_ids = []\<rparr>"

definition lab_entry :: "string \<Rightarrow> commit_entry" where
  "lab_entry c = \<lparr>en_text = ''t'', en_user = ''ann'', en_via = ''cli'', en_rollback_in = 0, en_comment = c\<rparr>"

definition lab_state :: "nat \<Rightarrow> commit_state" where
  "lab_state w =
     (let h = [lab_entry ''old'']; h1 = lab_entry (commit_comment ''tacctl-1'' @ ''ann'') # h
      in if w = 0 then \<lparr>cs_history = h, cs_pending = False, cs_minutes = 0\<rparr>
         else if w = 1 then \<lparr>cs_history = h1, cs_pending = True, cs_minutes = 5\<rparr>
         else \<lparr>cs_history = lab_entry (confirm_comment ''tacctl-1'' @ ''ann'') # h1, cs_pending = False, cs_minutes = 0\<rparr>)"

definition lab_reader :: "nat reader" where
  "lab_reader =
     \<lparr>rd_state = (\<lambda>w. (Ok (lab_state w), w)), rd_class = (\<lambda>w. (Ok ''super'', w)), rd_landed = (\<lambda>d w. (Ok lab_compare, w)),
      rd_rollback = (\<lambda>n w. (Err OtherError, w)), rd_read = (\<lambda>w. (Ok [], w))\<rparr>"

definition lab_env :: "nat env" where
  "lab_env =
     \<lparr>e_unicode = \<lparr>u_plain = (\<lambda>_. True), u_lower = id\<rparr>, e_wired = True, e_device = ''r1'', e_names = [''r1''], e_login = ''ann'', e_login_class = [],
      e_minutes = 5, e_word_ok = True, e_state_dir = False, e_min_window = 0, e_cancel_margin = 0, e_vendor = ''juniper'',
      e_held = lab_reader, e_fresh = lab_reader, e_lock = (\<lambda>w. (True, w)), e_new_id = (\<lambda>w. (Some ''tacctl-1'', w)),
      e_now = (\<lambda>w. (0, w)), e_done = (\<lambda>w. (False, w)), e_cancelled = (\<lambda>w. False), e_identity = (\<lambda>w. (Ok ''r1'', w)),
      e_confirms = (\<lambda>w. True), e_plan = (\<lambda>t w. (Ok (if w = 0 then lab_delta else lab_delta\<lparr>d_lines := []\<rparr>), w)),
      e_ready = (\<lambda>d c. True), e_check_delta = (\<lambda>d c. True), e_allow = (\<lambda>d c l. True), e_unexplained = (\<lambda>c d. 0), e_shape = (\<lambda>d. []),
      e_dirty = (\<lambda>w. (Ok (False, False), w)), e_pause = None, e_open = (\<lambda>w. (Ok (), w)), e_is_held = (\<lambda>w. True),
      e_load = (\<lambda>l w. (Ok False, w)), e_compare = (\<lambda>d w. (Ok lab_compare, w)), e_commit_check = (\<lambda>w. (Ok (), w)),
      e_commit = (\<lambda>m i w. (Ok (), 1)), e_committed = None, e_verify = Some (\<lambda>w. (Ok (), w)), e_verify_login = None,
      e_verify_service = None, e_hold = None, e_confirm = (\<lambda>i w. (Ok (), 2)), e_cancel = (\<lambda>i w. (Ok (), w)), e_revert = (\<lambda>i w. (Ok (), w)),
      e_discard = (\<lambda>w. (Ok (), w)), e_file_shape = (\<lambda>s w. (False, w))\<rparr>"

definition lab_run :: "nat run" where
  "lab_run = apply_change lab_env lab_delta 0"

lemma lab_run_log:
  "r_log lab_run =
     [Saw (lab_state 0), Typed TOpen True, Typed (TLoad (hd (d_lines lab_delta))) True, Shown lab_compare, Saw (lab_state 0),
      Typed TCheck True, Saw (lab_state 0), Typed TCommit True, Saw (lab_state 1), Landed lab_compare, Replanned (lab_delta\<lparr>d_lines := []\<rparr>)] @
     Typed TConfirm True # [Saw (lab_state 2), Typed TDiscard True]"
  by code_simp


section \<open>Reconciling\<close>

definition sound :: "string \<Rightarrow> 'w fin \<Rightarrow> bool" where
  "sound i x = (case x of Fin r \<Rightarrow> \<exists>e. o_exit r = Some e \<and> rests_on i no_entry (r_log r) e | Panic r \<Rightarrow> True)"

lemma sound_ask:
  assumes "\<And>e w. sound i (bad e (r\<lparr>r_world := w\<rparr>))" "\<And>x w. sound i (good x (r\<lparr>r_world := w\<rparr>))"
  shows "sound i (ask f r bad good)"
proof -
  obtain a w where "f (r_world r) = (a, w)" by (cases "f (r_world r)") auto
  then show ?thesis using assms by (cases a) (auto simp: ask_def sound_def)
qed

lemma sound_reconciled: "rests_on i no_entry (r_log r) (sd_exit s) \<Longrightarrow> sound i (reconciled s r)"
  by (auto simp: sound_def reconciled_def Let_def keep_stranger_def simp del: rests_on.simps split: exit_code.split)

lemma reconcile_sound: "sound i (reconcile_at rd facts i til now1 w)"
proof -
  let ?r0 = "(new_run w)\<lparr>r_id := i, o_step := ''reconcile'', o_until := til\<rparr>"
  have stop1: "sound i (stop ExUnknown r)" for r by (simp add: sound_def stop_def)
  have unknown: "sound i (reconciled (s\<lparr>sd_exit := ExUnknown\<rparr>) r)" "sound i (reconciled (unknown_of s) r)" for s r
    by (rule sound_reconciled; simp add: unknown_of_def)+
  have fallback: "sound i (case facts of None \<Rightarrow> reconciled (unknown_of s) r | Some f \<Rightarrow>
      ask (rd_read rd) r (\<lambda>_. reconciled ((unknown_of s)\<lparr>sd_exit := ExUnknown\<rparr>)) (\<lambda>raw r.
        ask (f raw) r (\<lambda>_. reconciled ((unknown_of s)\<lparr>sd_exit := ExUnknown\<rparr>)) (\<lambda>_. reconciled ((unknown_of s)\<lparr>sd_exit := ExUnknown\<rparr>))))" for s r
    by (auto split: option.split intro!: sound_ask unknown)
  show ?thesis
    unfolding reconcile_at_def Let_def see_def
  proof (rule sound_ask)
    fix st w'
    let ?r = "add_event (Saw st) (?r0\<lparr>r_world := w'\<rparr>)" and ?s = "settle st i no_entry now1 til"
    have saw: "Saw st \<in> set (r_log ?r)" by simp
    show "sound i (if sd_facts ?s = FactsNo then reconciled ?s ?r
      else by_rollbacks rd st i ?s ?r (\<lambda>s compared r. if compared then reconciled s r
        else case facts of None \<Rightarrow> reconciled s r | Some f \<Rightarrow>
          ask (rd_read rd) r (\<lambda>_. reconciled (s\<lparr>sd_exit := ExUnknown\<rparr>)) (\<lambda>raw r.
            ask (f raw) r (\<lambda>_. reconciled (s\<lparr>sd_exit := ExUnknown\<rparr>)) (\<lambda>_. reconciled (s\<lparr>sd_exit := ExUnknown\<rparr>)))))"
    proof (cases "sd_facts ?s = FactsNo")
      case True
      with settle_exits [of st i no_entry now1 til] have "sd_exit ?s \<noteq> ExAppliedByOther" by auto
      then show ?thesis using True by (auto intro: sound_reconciled settle_rests_on [OF saw])
    next
      case False
      have verdict: "sound i (reconciled (rollback_verdict st again ?s aft before) r)"
        if "our_index i (cs_history st) = Some n" "{Saw st, Rolled n aft, Rolled (Suc n) before} \<subseteq> set (r_log r)" for again aft before n r
        using that verdict_rests_on(1) [of st "r_log r" i n aft before no_entry again ?s] by (intro sound_reconciled) simp
      show ?thesis
        using False unfolding by_rollbacks_def see_def
        by (auto split: option.split intro!: fallback sound_ask unknown verdict)
    qed
  qed (rule stop1)
qed

text \<open>
  The reconciliation of a pending record names an exit only on what it read: the same evidence as a transaction.
\<close>

theorem reconcile_rests_on_reads:
  "case reconcile_at rd facts i til now1 w of
     Fin r \<Rightarrow> \<exists>e. o_exit r = Some e \<and> rests_on i no_entry (r_log r) e
   | Panic r \<Rightarrow> True"
  using reconcile_sound [of i rd facts til now1 w] by (simp add: sound_def)

end
