(* ===== verification/MgmtAcl.thy ===== *)
theory MgmtAcl
  imports CidrLists NameFormats
begin

text \<open>
  \<open>internal/mgmtacl\<close>: the grammar of one entry of the management ACL, \<open><cidr>[:<service>[,<service>...]]\<close>,
  its canonical form and what it permits. A refusal is a value of \<open>acl_error\<close>, one constructor per
  message.
\<close>

section \<open>Services\<close>

datatype proto = Tcp | Udp | Icmp

fun proto_text :: "proto \<Rightarrow> string" where
  "proto_text Tcp = ''tcp''"
| "proto_text Udp = ''udp''"
| "proto_text Icmp = ''icmp''"

record service =
  sv_proto :: proto
  sv_lo :: nat
  sv_hi :: nat
  sv_any :: bool

definition service_string :: "service \<Rightarrow> string" where
  "service_string s =
     (if sv_proto s = Icmp then ''icmp''
      else if sv_any s then proto_text (sv_proto s) @ ''/*''
      else if sv_lo s = sv_hi s then proto_text (sv_proto s) @ ''/'' @ itoa (sv_lo s)
      else proto_text (sv_proto s) @ ''/'' @ itoa (sv_lo s) @ ''-'' @ itoa (sv_hi s))"

definition service_ports :: "service \<Rightarrow> string" where
  "service_ports s =
     (if sv_proto s = Icmp \<or> sv_any s then []
      else if sv_lo s = sv_hi s then itoa (sv_lo s)
      else itoa (sv_lo s) @ '':'' @ itoa (sv_hi s))"

definition service_covers :: "service \<Rightarrow> proto \<Rightarrow> nat \<Rightarrow> bool" where
  "service_covers s p port \<longleftrightarrow>
     (if sv_proto s \<noteq> p then False
      else if sv_proto s = Icmp \<or> sv_any s then True
      else sv_lo s \<le> port \<and> port \<le> sv_hi s)"

fun proto_rank :: "proto \<Rightarrow> int" where
  "proto_rank Tcp = 0"
| "proto_rank Udp = 1"
| "proto_rank Icmp = 2"

definition service_cmp :: "service \<Rightarrow> service \<Rightarrow> int" where
  "service_cmp s t =
     (if proto_rank (sv_proto s) \<noteq> proto_rank (sv_proto t) then proto_rank (sv_proto s) - proto_rank (sv_proto t)
      else if sv_any s \<noteq> sv_any t then (if sv_any s then - 1 else 1)
      else if sv_lo s \<noteq> sv_lo t then int (sv_lo s) - int (sv_lo t)
      else int (sv_hi s) - int (sv_hi t))"

definition service_less :: "service \<Rightarrow> service \<Rightarrow> bool" where
  "service_less s t \<longleftrightarrow> service_cmp s t < 0"

section \<open>Entries\<close>

record entry =
  e_net :: string
  e_services :: "service list"

definition entry_plain :: "entry \<Rightarrow> bool" where
  "entry_plain e \<longleftrightarrow> e_services e = []"

definition entry_ipv6 :: "entry \<Rightarrow> bool" where
  "entry_ipv6 e = (case parse_net (e_net e) of Some n \<Rightarrow> n_v6 n | None \<Rightarrow> False)"

definition services_text :: "service list \<Rightarrow> string \<Rightarrow> string" where
  "services_text s sep = join sep (map service_string s)"

definition entry_string :: "entry \<Rightarrow> string" where
  "entry_string e = (if entry_plain e then e_net e else e_net e @ '':'' @ services_text (e_services e) '','')"

definition entry_permits :: "entry \<Rightarrow> proto \<Rightarrow> nat \<Rightarrow> bool" where
  "entry_permits e p port \<longleftrightarrow>
     (if entry_plain e then True else list_ex (\<lambda>s. service_covers s p port) (e_services e))"

definition allows_ssh :: "entry \<Rightarrow> bool" where
  "allows_ssh e = entry_permits e Tcp 22"

definition allows_icmp :: "entry \<Rightarrow> bool" where
  "allows_icmp e = entry_permits e Icmp 0"

definition max_services :: nat where
  "max_services = 8"

section \<open>Reading an entry\<close>

datatype acl_error =
    BadCidr string
  | NoServiceAfterColon
  | NotServiceText string
  | EmptyService
  | IcmpTakesNoPort string
  | NotAPort string string
  | RangeBackwards string proto nat
  | TooManyServices nat
  | ServiceBeforeCidr
  | ServiceWithoutColon

definition is_service_start :: "unicode \<Rightarrow> string \<Rightarrow> bool" where
  "is_service_start U s \<longleftrightarrow>
     (let l = to_lower U s
      in has_prefix l ''tcp/'' \<or> has_prefix l ''udp/'' \<or> has_prefix l ''icmp'' \<or> has_prefix l ''*'')"

text \<open>\<open>split\<close>: the first colon that starts services.\<close>

fun split_entry_from :: "unicode \<Rightarrow> string \<Rightarrow> string \<Rightarrow> string \<times> string \<times> bool" where
  "split_entry_from U before [] = (before, [], False)"
| "split_entry_from U before (c # s) =
     (if c = CHR '':'' \<and> is_service_start U s then (before, s, True)
      else split_entry_from U (before @ [c]) s)"

definition split_entry :: "unicode \<Rightarrow> string \<Rightarrow> string \<times> string \<times> bool" where
  "split_entry U s = split_entry_from U [] s"

text \<open>\<open>port\<close>: one to five digits, 1 to 65535.\<close>

definition port_of :: "string \<Rightarrow> nat option" where
  "port_of s =
     (if s = [] \<or> length s > 5 then None
      else if \<not> list_all is_digit s then None
      else if 1 \<le> dec_val s \<and> dec_val s \<le> 65535 then Some (dec_val s) else None)"

fun proto_of_text :: "string \<Rightarrow> proto option" where
  "proto_of_text s = (if s = ''tcp'' then Some Tcp else if s = ''udp'' then Some Udp else None)"

definition icmp_service :: service where
  "icmp_service = \<lparr>sv_proto = Icmp, sv_lo = 0, sv_hi = 0, sv_any = False\<rparr>"

definition any_service :: "proto \<Rightarrow> service" where
  "any_service p = \<lparr>sv_proto = p, sv_lo = 0, sv_hi = 0, sv_any = True\<rparr>"

definition port_service :: "proto \<Rightarrow> nat \<Rightarrow> nat \<Rightarrow> service" where
  "port_service p lo hi = \<lparr>sv_proto = p, sv_lo = lo, sv_hi = hi, sv_any = False\<rparr>"

text \<open>The ports of a tcp or udp token.\<close>

definition ports_service :: "string \<Rightarrow> proto \<Rightarrow> string \<Rightarrow> acl_error + service" where
  "ports_service tok p ports =
     (if ports = ''*'' then Inr (any_service p)
      else case cut_at (CHR ''-'') ports of
        (lo, hi, ranged) \<Rightarrow>
          (case port_of lo of
             None \<Rightarrow> Inl (NotAPort tok lo)
           | Some l \<Rightarrow>
               if \<not> ranged then Inr (port_service p l l)
               else case port_of hi of
                 None \<Rightarrow> Inl (NotAPort tok hi)
               | Some h \<Rightarrow> if l \<ge> h then Inl (RangeBackwards tok p l) else Inr (port_service p l h)))"

text \<open>One turn of the loop of \<open>parseServices\<close>: \<open>None\<close> for the token \<open>*\<close>.\<close>

definition read_service :: "string \<Rightarrow> acl_error + service option" where
  "read_service tok =
     (if tok = [] then Inl EmptyService
      else if tok = ''*'' then Inr None
      else if tok = ''icmp'' then Inr (Some icmp_service)
      else if has_prefix tok ''icmp/'' then Inl (IcmpTakesNoPort tok)
      else case cut_at (CHR ''/'') tok of
        (pr, ports, found) \<Rightarrow>
          (case (if found then proto_of_text pr else None) of
             None \<Rightarrow> Inl (NotServiceText tok)
           | Some p \<Rightarrow> map_sum id Some (ports_service tok p ports)))"

definition clean_token :: "unicode \<Rightarrow> string \<Rightarrow> string" where
  "clean_token U tok = to_lower U (trim_space tok)"

fun read_services :: "string list \<Rightarrow> acl_error + (service list \<times> bool)" where
  "read_services [] = Inr ([], False)"
| "read_services (tok # toks) =
     (case read_service tok of
        Inl e \<Rightarrow> Inl e
      | Inr sv \<Rightarrow>
          (case read_services toks of
             Inl e \<Rightarrow> Inl e
           | Inr (svs, all) \<Rightarrow>
               (case sv of None \<Rightarrow> Inr (svs, True) | Some s \<Rightarrow> Inr (s # svs, all))))"

text \<open>\<open>canonicalServices\<close>\<close>

definition any_of :: "service list \<Rightarrow> proto \<Rightarrow> bool" where
  "any_of svs p \<longleftrightarrow> list_ex (\<lambda>s. sv_any s \<and> sv_proto s = p) svs"

definition canonical_services :: "service list \<Rightarrow> service list" where
  "canonical_services svs =
     slice_stable service_less
       (dedup (filter (\<lambda>s. \<not> (sv_proto s \<noteq> Icmp \<and> any_of svs (sv_proto s) \<and> \<not> sv_any s)) svs))"

definition everything :: "service list \<Rightarrow> bool" where
  "everything svs \<longleftrightarrow>
     length svs = 3 \<and> sv_proto (svs ! 0) = Tcp \<and> sv_any (svs ! 0) \<and> sv_proto (svs ! 1) = Udp \<and> sv_any (svs ! 1) \<and>
     sv_proto (svs ! 2) = Icmp"

definition parse_services :: "unicode \<Rightarrow> string \<Rightarrow> acl_error + (service list \<times> bool)" where
  "parse_services U text =
     (case read_services (map (clean_token U) (split_on (CHR '','') text)) of
        Inl e \<Rightarrow> Inl e
      | Inr (svs, all) \<Rightarrow>
          if all then Inr ([], True)
          else let out = canonical_services svs in if everything out then Inr ([], True) else Inr (out, False))"

text \<open>What is said of \<open>10.0.0.0/8:ssh\<close>: the first colon after a text that is a CIDR.\<close>

fun colon_problem :: "string \<Rightarrow> string \<Rightarrow> acl_error option" where
  "colon_problem before [] = None"
| "colon_problem before (c # s) =
     (if c = CHR '':'' \<and> parse_net before \<noteq> None
      then (let rest = trim_space s in if rest = [] then Some NoServiceAfterColon else Some (NotServiceText rest))
      else colon_problem (before @ [c]) s)"

definition parse_entry :: "unicode \<Rightarrow> string \<Rightarrow> acl_error + entry" where
  "parse_entry U s =
     (if s \<noteq> trim_space s then Inl (BadCidr s)
      else case split_entry U s of
        (net, services, has) \<Rightarrow>
          (case parse_net net of
             None \<Rightarrow>
               (if has then Inl (BadCidr net)
                else case colon_problem [] s of Some e \<Rightarrow> Inl e | None \<Rightarrow> Inl (BadCidr net))
           | Some n \<Rightarrow>
               if \<not> has then Inr \<lparr>e_net = net_string n, e_services = []\<rparr>
               else (case parse_services U services of
                  Inl e \<Rightarrow> Inl e
                | Inr (svs, all) \<Rightarrow>
                    if all then Inr \<lparr>e_net = net_string n, e_services = []\<rparr>
                    else if length svs > max_services then Inl (TooManyServices (length svs))
                    else Inr \<lparr>e_net = net_string n, e_services = svs\<rparr>)))"

definition acl_canonical :: "unicode \<Rightarrow> string \<Rightarrow> string option" where
  "acl_canonical U s = (case parse_entry U s of Inl _ \<Rightarrow> None | Inr e \<Rightarrow> Some (entry_string e))"

definition acl_problem :: "unicode \<Rightarrow> string \<Rightarrow> acl_error option" where
  "acl_problem U s = (case parse_entry U s of Inl e \<Rightarrow> Some e | Inr _ \<Rightarrow> None)"

section \<open>Lists of entries\<close>

definition service_token :: "unicode \<Rightarrow> string \<Rightarrow> bool" where
  "service_token U t \<longleftrightarrow>
     (let l = to_lower U t in has_prefix l ''tcp/'' \<or> has_prefix l ''udp/'' \<or> has_prefix l ''icmp'')"

fun group_tokens :: "unicode \<Rightarrow> string list \<Rightarrow> string list \<Rightarrow> acl_error + string list" where
  "group_tokens U out [] = Inr out"
| "group_tokens U out (raw # toks) =
     (let t = trim_space raw
      in if t = [] then group_tokens U out toks
         else if service_token U t then
           (if out = [] then Inl ServiceBeforeCidr
            else if \<not> snd (snd (split_entry U (last out))) then Inl ServiceWithoutColon
            else group_tokens U (butlast out @ [last out @ '','' @ t]) toks)
         else group_tokens U (out @ [t]) toks)"

fun entries_from :: "unicode \<Rightarrow> entry list \<Rightarrow> string list \<Rightarrow> acl_error + entry list" where
  "entries_from U out [] = Inr out"
| "entries_from U out (t # ts) =
     (case parse_entry U t of
        Inl e \<Rightarrow> Inl e
      | Inr e \<Rightarrow> entries_from U (if entry_string e \<in> set (map entry_string out) then out else out @ [e]) ts)"

definition parse_acl_list :: "unicode \<Rightarrow> string \<Rightarrow> acl_error + entry list" where
  "parse_acl_list U input =
     (case group_tokens U [] (split_on (CHR '','') input) of
        Inl e \<Rightarrow> Inl e
      | Inr toks \<Rightarrow> entries_from U [] toks)"

fun compare_services :: "service list \<Rightarrow> service list \<Rightarrow> int" where
  "compare_services (s # a) (t # b) = (let c = service_cmp s t in if c \<noteq> 0 then c else compare_services a b)"
| "compare_services a b = int (length a) - int (length b)"

text \<open>\<open>Sort\<close>: \<open>cidr.SortKey\<close> of a canonical network cannot fail; where it would, the key is the zero value.\<close>

definition acl_key :: "entry \<Rightarrow> cidr_key" where
  "acl_key e =
     (case cidr_sort_key (e_net e) of
        Some k \<Rightarrow> k
      | None \<Rightarrow> \<lparr>k_version = 0, k_bcast = mk128 0 0, k_net = mk128 0 0\<rparr>)"

definition acl_less :: "entry \<Rightarrow> entry \<Rightarrow> bool" where
  "acl_less a b =
     (if key_less (acl_key a) (acl_key b) then True
      else if key_less (acl_key b) (acl_key a) then False
      else compare_services (e_services a) (e_services b) < 0)"

fun sort_items :: "unicode \<Rightarrow> entry list \<Rightarrow> string list \<Rightarrow> entry list" where
  "sort_items U out [] = out"
| "sort_items U out (l # ls) =
     (case parse_entry U (trim_space l) of
        Inl _ \<Rightarrow> sort_items U out ls
      | Inr e \<Rightarrow>
          if entry_string e \<in> set (map entry_string out) then sort_items U out ls else sort_items U (out @ [e]) ls)"

definition acl_sort :: "unicode \<Rightarrow> string list \<Rightarrow> string list" where
  "acl_sort U xs = map entry_string (slice_stable acl_less (sort_items U [] xs))"

definition acl_display :: "entry \<Rightarrow> nat \<Rightarrow> string" where
  "acl_display e w =
     (if entry_plain e then e_net e
      else e_net e @ replicate (w - rune_count (e_net e)) (CHR '' '') @ ''   '' @ services_text (e_services e) '', '')"

end
