(* ===== verification/MgmtAclProps.thy ===== *)
theory MgmtAclProps
  imports MgmtAcl "HOL-Library.Product_Lexorder"
begin

text \<open>
  What the management ACL grammar promises: a stored entry permits what its services say, the stored form
  reads back as the same entry, and \<open>Sort\<close> orders the entries once and for all.
\<close>

section \<open>The order of services\<close>

definition service_key :: "service \<Rightarrow> int \<times> nat \<times> nat \<times> nat" where
  "service_key s = (proto_rank (sv_proto s), if sv_any s then 0 else 1, sv_lo s, sv_hi s)"

lemma proto_rank_inj [simp]: "proto_rank p = proto_rank q \<longleftrightarrow> p = q"
  by (cases p; cases q) auto

lemma service_key_inj: "service_key s = service_key t \<longleftrightarrow> s = t"
  by (cases s; cases t) (auto simp: service_key_def)

lemma service_less_key: "service_less s t \<longleftrightarrow> service_key s < service_key t"
  by (auto simp: service_less_def service_cmp_def service_key_def less_prod_def' split: if_splits)

lemma service_cmp_0: "service_cmp s t = 0 \<longleftrightarrow> s = t"
  by (cases s; cases t) (auto simp: service_cmp_def)

interpretation service_order: strict_weak service_less
  by unfold_locales (auto simp: service_less_key)

lemma compare_services_key: "compare_services a b < 0 \<longleftrightarrow> map service_key a < map service_key b"
proof (induction a b rule: compare_services.induct, goal_cases)
  case (1 s a t b)
  have "service_cmp s s = 0" by (simp add: service_cmp_0)
  with 1 show ?case
    by (cases "s = t") (auto simp: Let_def service_cmp_0 service_key_inj service_less_key [symmetric] service_less_def)
next
  case (2 b)
  then show ?case by (cases b) auto
qed auto

lemma service_less_total: "\<not> service_less s t \<Longrightarrow> \<not> service_less t s \<Longrightarrow> s = t"
  unfolding service_less_key service_key_inj [symmetric] by simp

section \<open>Canonical services\<close>

definition wf_service :: "service \<Rightarrow> bool" where
  "wf_service s \<longleftrightarrow>
     s = icmp_service \<or> (\<exists>p \<in> {Tcp, Udp}. s = any_service p \<or>
       (\<exists>lo hi. s = port_service p lo hi \<and> 1 \<le> lo \<and> lo \<le> hi \<and> hi \<le> 65535))"

lemma port_of_bounds: "port_of s = Some n \<Longrightarrow> 1 \<le> n \<and> n \<le> 65535"
  by (auto simp: port_of_def split: if_splits)

lemma proto_of_text_Some: "proto_of_text s = Some p \<Longrightarrow> p \<in> {Tcp, Udp}"
  by (auto split: if_splits)

declare proto_of_text.simps [simp del]

lemma wf_port_service: "p \<in> {Tcp, Udp} \<Longrightarrow> 1 \<le> l \<Longrightarrow> l \<le> h \<Longrightarrow> h \<le> 65535 \<Longrightarrow> wf_service (port_service p l h)"
  unfolding wf_service_def by blast

lemma wf_any_service: "p \<in> {Tcp, Udp} \<Longrightarrow> wf_service (any_service p)"
  unfolding wf_service_def by blast

lemma ports_service_wf:
  assumes "ports_service tok p ports = Inr s" "p \<in> {Tcp, Udp}"
  shows "wf_service s"
proof (cases "ports = ''*''")
  case True
  with assms(1) have "s = any_service p" by (simp add: ports_service_def)
  with wf_any_service [OF assms(2)] show ?thesis by simp
next
  case False
  obtain lo hi r where c: "cut_at (CHR ''-'') ports = (lo, hi, r)" by (cases "cut_at (CHR ''-'') ports") auto
  with assms False obtain l where l: "port_of lo = Some l" by (auto simp: ports_service_def split: option.splits)
  with assms False c consider "s = port_service p l l" | h where "port_of hi = Some h" "l < h" "s = port_service p l h"
    by (auto simp: ports_service_def split: option.splits if_splits)
  then show ?thesis using port_of_bounds [OF l] assms(2) by cases (auto intro: wf_port_service dest: port_of_bounds)
qed

lemma read_service_wf: "read_service tok = Inr (Some s) \<Longrightarrow> wf_service s"
proof -
  assume r: "read_service tok = Inr (Some s)"
  obtain pr ports f where c: "cut_at (CHR ''/'') tok = (pr, ports, f)" by (cases "cut_at (CHR ''/'') tok") auto
  from r c consider "s = icmp_service" | p where "proto_of_text pr = Some p" "ports_service tok p ports = Inr s"
    by (auto simp: read_service_def split: if_splits option.splits) (metis map_sum.simps option.inject sum.exhaust sum.inject(2) sum.distinct(1) id_apply)
  then show ?thesis by cases (auto simp: wf_service_def [of icmp_service] dest: proto_of_text_Some intro: ports_service_wf)
qed

lemma set_canonical_services:
  "set (canonical_services svs) = {s \<in> set svs. sv_proto s = Icmp \<or> sv_any s \<or> \<not> any_of svs (sv_proto s)}"
  by (auto simp: canonical_services_def)

lemma covers_canonical:
  "list_ex (\<lambda>s. service_covers s p port) (canonical_services svs) = list_ex (\<lambda>s. service_covers s p port) svs"
  by (auto simp: list_ex_iff set_canonical_services any_of_def service_covers_def split: if_splits)

lemma any_of_canonical [simp]: "any_of (canonical_services svs) p = any_of svs p"
  by (auto simp: any_of_def list_ex_iff set_canonical_services)

lemma canonical_services_idem: "canonical_services (canonical_services svs) = canonical_services svs"
proof -
  have "filter (\<lambda>s. \<not> (sv_proto s \<noteq> Icmp \<and> any_of svs (sv_proto s) \<and> \<not> sv_any s)) (canonical_services svs)
      = canonical_services svs"
    by (auto simp: filter_id_conv set_canonical_services)
  moreover have "distinct (canonical_services svs)" by (simp add: canonical_services_def)
  moreover have "slice_stable service_less (canonical_services svs) = canonical_services svs"
    by (simp add: canonical_services_def service_order.idem)
  ultimately show ?thesis unfolding canonical_services_def [of "canonical_services svs"] by simp
qed

lemma everything_covers:
  assumes "everything svs"
  shows "list_ex (\<lambda>s. service_covers s p port) svs"
proof -
  from assms obtain a b c where "svs = [a, b, c]" "sv_proto a = Tcp" "sv_any a" "sv_proto b = Udp" "sv_any b" "sv_proto c = Icmp"
    by (auto simp: everything_def length_Suc_conv eval_nat_numeral)
  then show ?thesis by (cases p) (auto simp: service_covers_def)
qed

section \<open>What an entry permits\<close>

text \<open>One token of a service list, on its own.\<close>

definition token_permits :: "unicode \<Rightarrow> string \<Rightarrow> proto \<Rightarrow> nat \<Rightarrow> bool" where
  "token_permits U tok p port \<longleftrightarrow>
     (case read_service (clean_token U tok) of
        Inr None \<Rightarrow> True | Inr (Some s) \<Rightarrow> service_covers s p port | Inl _ \<Rightarrow> False)"

lemma read_services_meaning:
  "read_services (map (clean_token U) toks) = Inr (svs, all) \<Longrightarrow>
     (all \<or> list_ex (\<lambda>s. service_covers s p port) svs) = list_ex (\<lambda>t. token_permits U t p port) toks"
proof (induction toks arbitrary: svs all)
  case Nil
  then show ?case by simp
next
  case (Cons t toks)
  from Cons.prems obtain sv l a where t: "read_service (clean_token U t) = Inr sv"
    "read_services (map (clean_token U) toks) = Inr (l, a)"
    "svs = (case sv of None \<Rightarrow> l | Some s \<Rightarrow> s # l)" "all = (case sv of None \<Rightarrow> True | Some s \<Rightarrow> a)"
    by (auto split: sum.splits option.splits)
  with Cons.IH [OF t(2)] show ?case by (cases sv) (auto simp: token_permits_def)
qed

lemma read_services_wf: "read_services toks = Inr (svs, all) \<Longrightarrow> \<forall>s \<in> set svs. wf_service s"
  by (induction toks arbitrary: svs all) (auto split: sum.splits option.splits prod.splits dest: read_service_wf)

lemma parse_services_meaning:
  assumes "parse_services U text = Inr (svs, all)"
  shows "(all \<or> list_ex (\<lambda>s. service_covers s p port) svs) =
     list_ex (\<lambda>t. token_permits U t p port) (split_on (CHR '','') text)"
proof -
  from assms obtain l a where r: "read_services (map (clean_token U) (split_on (CHR '','') text)) = Inr (l, a)"
    by (auto simp: parse_services_def split: sum.splits)
  with assms have "all = (a \<or> everything (canonical_services l))" "svs = (if all then [] else canonical_services l)"
    by (auto simp: parse_services_def Let_def split: if_splits)
  with read_services_meaning [OF r, of p port] everything_covers [of "canonical_services l" p port]
  show ?thesis by (auto simp: covers_canonical)
qed

lemma read_services_nonempty: "read_services toks = Inr (svs, False) \<Longrightarrow> toks \<noteq> [] \<Longrightarrow> svs \<noteq> []"
  by (cases toks) (auto split: sum.splits option.splits prod.splits)

lemma canonical_services_nonempty: "svs \<noteq> [] \<Longrightarrow> canonical_services svs \<noteq> []"
proof
  assume "svs \<noteq> []" "canonical_services svs = []"
  then have e: "{s \<in> set svs. sv_proto s = Icmp \<or> sv_any s \<or> \<not> any_of svs (sv_proto s)} = {}"
    using set_canonical_services [of svs] by simp
  obtain s where s: "s \<in> set svs" using \<open>svs \<noteq> []\<close> by (cases svs) auto
  with e have "any_of svs (sv_proto s)" by blast
  then obtain t where "t \<in> set svs" "sv_any t" by (auto simp: any_of_def list_ex_iff)
  with e show False by blast
qed

lemma parse_services_form:
  assumes "parse_services U text = Inr (svs, False)"
  shows "svs \<noteq> [] \<and> canonical_services svs = svs \<and> \<not> everything svs \<and> (\<forall>s \<in> set svs. wf_service s)"
proof -
  from assms obtain l where r: "read_services (map (clean_token U) (split_on (CHR '','') text)) = Inr (l, False)"
    and s: "svs = canonical_services l" "\<not> everything svs"
    by (auto simp: parse_services_def Let_def split: sum.splits if_splits)
  from read_services_nonempty [OF r] have "l \<noteq> []" by simp
  moreover have "\<forall>x \<in> set svs. wf_service x" using read_services_wf [OF r] s by (simp add: set_canonical_services)
  ultimately show ?thesis using s by (simp add: canonical_services_nonempty canonical_services_idem)
qed

section \<open>The stored form reads back\<close>

definition acl_char :: "char \<Rightarrow> bool" where
  "acl_char c \<longleftrightarrow> plain_char c \<and> \<not> is_upper c"

lemma to_lower_stable: "\<forall>c \<in> set s. acl_char c \<Longrightarrow> to_lower U s = s"
  by (auto simp: to_lower_def ascii_string_def list_all_iff acl_char_def plain_char_def ascii_lower_def is_upper_def
      intro!: map_idI)

lemma digit_acl: "is_digit c \<Longrightarrow> acl_char c"
  by (auto simp: is_digit_def acl_char_def plain_char_def is_upper_def)

lemma acl_chars [simp]:
  "acl_char (CHR ''/'')" "acl_char (CHR ''*'')" "acl_char (CHR ''-'')" "acl_char (CHR '','')" "acl_char (CHR '':'')"
  "acl_char (CHR ''.'')" "acl_char (CHR ''t'')" "acl_char (CHR ''c'')" "acl_char (CHR ''p'')" "acl_char (CHR ''u'')"
  "acl_char (CHR ''d'')" "acl_char (CHR ''i'')" "acl_char (CHR ''m'')"
  by (simp_all add: acl_char_def plain_char_def is_upper_def)

lemma proto_text_chars: "c \<in> set (proto_text p) \<Longrightarrow> acl_char c \<and> is_lower c"
  by (cases p) (auto simp: is_lower_def)

lemma service_string_chars: "c \<in> set (service_string s) \<Longrightarrow> acl_char c \<and> c \<noteq> CHR '',''"
  using proto_text_chars [of c "sv_proto s"]
  by (auto simp: service_string_def is_lower_def is_digit_def dest!: itoa_digits split: if_splits intro: digit_acl [unfolded is_digit_def])

lemma clean_service_string: "clean_token U (service_string s) = service_string s"
  using service_string_chars [of _ s] trim_space_plain [of "service_string s"]
  by (simp add: clean_token_def to_lower_stable acl_char_def)

lemma port_of_itoa: "1 \<le> n \<Longrightarrow> n \<le> 65535 \<Longrightarrow> port_of (itoa n) = Some n"
  using length_itoa_le [of n 5] by (auto simp: port_of_def dec_val_itoa)

lemma proto_of_text_proto: "p \<in> {Tcp, Udp} \<Longrightarrow> proto_of_text (proto_text p) = Some p"
  by (auto simp: proto_of_text.simps)

lemma read_proto_service:
  assumes "p \<in> {Tcp, Udp}"
  shows "read_service (proto_text p @ CHR ''/'' # ports) = map_sum id Some (ports_service (proto_text p @ CHR ''/'' # ports) p ports)"
proof -
  have "CHR ''/'' \<notin> set (proto_text p)" using proto_text_chars [of "CHR ''/''" p] by (auto simp: is_lower_def)
  then have "cut_at (CHR ''/'') (proto_text p @ CHR ''/'' # ports) = (proto_text p, ports, True)" by (rule cut_at_found)
  moreover have "proto_text p @ CHR ''/'' # ports \<noteq> ''*''" "\<not> has_prefix (proto_text p @ CHR ''/'' # ports) ''icmp/''"
    "proto_text p @ CHR ''/'' # ports \<noteq> ''icmp''"
    using assms by (auto simp: has_prefix_def)
  ultimately show ?thesis using proto_of_text_proto [OF assms] by (simp add: read_service_def)
qed

lemma read_service_string:
  assumes "wf_service s"
  shows "read_service (service_string s) = Inr (Some s)"
proof -
  have dash: "CHR ''-'' \<notin> set (itoa n)" for n using itoa_digits [of "CHR ''-''" n] by (auto simp: is_digit_def)
  have star: "itoa n @ r \<noteq> ''*''" for n r
    using itoa_nonempty [of n] itoa_digits [of "hd (itoa n)" n] by (cases "itoa n") (auto simp: is_digit_def)
  have one: "ports_service tok p (itoa lo) = Inr (port_service p lo lo)" if "1 \<le> lo" "lo \<le> 65535" for tok p lo
    using that star [of lo "[]"] by (simp add: ports_service_def cut_at_none dash port_of_itoa)
  have two: "ports_service tok p (itoa lo @ CHR ''-'' # itoa hi) = Inr (port_service p lo hi)"
    if "1 \<le> lo" "lo < hi" "hi \<le> 65535" for tok p lo hi
    using that star [of lo] by (simp add: ports_service_def cut_at_found dash port_of_itoa)
  from assms consider "s = icmp_service" | p where "p \<in> {Tcp, Udp}" "s = any_service p"
    | p lo hi where "p \<in> {Tcp, Udp}" "s = port_service p lo hi" "1 \<le> lo" "lo \<le> hi" "hi \<le> 65535"
    unfolding wf_service_def by blast
  then show ?thesis
  proof cases
    case 1
    then show ?thesis by (simp add: service_string_def icmp_service_def read_service_def)
  next
    case (2 p)
    then have "service_string s = proto_text p @ CHR ''/'' # ''*''" by (auto simp: service_string_def any_service_def)
    with 2 show ?thesis by (simp only: read_proto_service) (simp add: ports_service_def)
  next
    case (3 p lo hi)
    show ?thesis
    proof (cases "lo = hi")
      case True
      with 3 have "service_string s = proto_text p @ CHR ''/'' # itoa lo" by (auto simp: service_string_def port_service_def)
      with 3 True show ?thesis by (simp only: read_proto_service) (simp add: one)
    next
      case False
      with 3 have "service_string s = proto_text p @ CHR ''/'' # itoa lo @ CHR ''-'' # itoa hi"
        by (auto simp: service_string_def port_service_def)
      with 3 False show ?thesis by (simp only: read_proto_service) (simp add: two)
    qed
  qed
qed

lemma read_services_strings:
  "\<forall>s \<in> set svs. wf_service s \<Longrightarrow> read_services (map service_string svs) = Inr (svs, False)"
  by (induction svs) (auto simp: read_service_string)

lemma parse_services_text:
  assumes "svs \<noteq> []" "canonical_services svs = svs" "\<not> everything svs" "\<forall>s \<in> set svs. wf_service s"
  shows "parse_services U (services_text svs '','') = Inr (svs, False)"
proof -
  have "split_on (CHR '','') (services_text svs '','') = map service_string svs"
    unfolding services_text_def using assms(1) service_string_chars by (intro split_join) auto
  with assms show ?thesis by (simp add: parse_services_def clean_service_string comp_def read_services_strings cong: map_cong)
qed

text \<open>The characters of a canonical network without a zone: none starts a service after a colon.\<close>

definition net_char :: "char \<Rightarrow> bool" where
  "net_char c \<longleftrightarrow> is_digit c \<or> (97 \<le> code_of c \<and> code_of c \<le> 102) \<or> c = CHR ''.'' \<or> c = CHR '':'' \<or> c = CHR ''/''"

lemma net_char_acl: "net_char c \<Longrightarrow> acl_char c"
  by (auto simp: net_char_def acl_char_def plain_char_def is_digit_def is_upper_def)

lemma hex_digits_lower: "c \<in> set (hex_digits n) \<Longrightarrow> net_char c"
proof (induction n rule: hex_digits.induct)
  case (1 n)
  have "net_char (hex_char d)" if "d < 16" for d
    using that by (auto simp: net_char_def hex_char_def is_digit_def of_char_of)
  then show ?case using 1 by (cases "n < 16") (auto simp: hex_digits_small hex_digits_step)
qed

lemma compress_chars:
  assumes "\<forall>p \<in> set h. \<forall>c \<in> set p. net_char c" "c \<in> set (compress6 h)"
  shows "net_char c"
proof -
  have colon: "net_char (CHR '':'')" by (simp add: net_char_def)
  have j: "net_char x" if x: "x \<in> set (join '':'' xs)" and xs: "set xs \<subseteq> set h" for x xs
  proof -
    from x set_join [of "'':''" xs] have "x = CHR '':'' \<or> (\<exists>w \<in> set xs. x \<in> set w)" by auto
    with xs assms(1) colon show ?thesis by blast
  qed
  from assms(2) have "c \<in> set (join '':'' h) \<or> c = CHR '':'' \<or> (\<exists>k. c \<in> set (join '':'' (take k h)) \<or> c \<in> set (join '':'' (drop k h)))"
    by (auto simp: compress6_def split: prod.splits option.splits if_splits)
  then show ?thesis using j colon by (meson set_drop_subset set_take_subset order_refl)
qed

lemma net_string_chars:
  assumes "n_scope n = []" "c \<in> set (net_string n)"
  shows "net_char c"
proof (cases "n_v6 n")
  case True
  with assms have "c \<in> set (compress6 (map format_hex (raw_hextets (n_ip n)))) \<or> c = CHR ''/'' \<or> c \<in> set (itoa (n_plen n))"
    by (auto simp: net_string_def)
  moreover have "\<forall>p \<in> set (map format_hex (raw_hextets (n_ip n))). \<forall>c \<in> set p. net_char c"
    by (auto simp: format_hex_def net_char_def [of "CHR ''0''"] is_digit_def dest: hex_digits_lower)
  ultimately show ?thesis using compress_chars itoa_digits by (metis net_char_def)
next
  case False
  with assms have "c \<in> set (dotted_quad (ucast (u_lo (n_ip n)))) \<or> c = CHR ''/'' \<or> c \<in> set (itoa (n_plen n))"
    by (auto simp: net_string_def)
  then show ?thesis by (auto simp: net_char_def dest: set_dotted_quad itoa_digits)
qed

lemma no_service_start: "\<forall>c \<in> set s. acl_char c \<Longrightarrow> s \<noteq> [] \<Longrightarrow> net_char (hd s) \<Longrightarrow> \<not> is_service_start U s"
  by (cases s) (auto simp: is_service_start_def to_lower_stable has_prefix_def net_char_def is_digit_def)

lemma split_entry_none:
  "\<forall>c \<in> set s. net_char c \<Longrightarrow> s \<noteq> [] \<Longrightarrow> last s \<noteq> CHR '':'' \<Longrightarrow> split_entry_from U b s = (b @ s, [], False)"
proof (induction s arbitrary: b)
  case Nil
  then show ?case by simp
next
  case (Cons c s)
  show ?case
  proof (cases "s = []")
    case True
    with Cons.prems show ?thesis by simp
  next
    case False
    then have "\<not> is_service_start U s" using Cons.prems by (intro no_service_start) (auto intro: net_char_acl)
    with False Cons show ?thesis by simp
  qed
qed

lemma split_entry_colon:
  assumes "\<forall>c \<in> set s. net_char c" "s \<noteq> []" "last s \<noteq> CHR '':''" "\<forall>c \<in> set t. acl_char c" "is_service_start U t"
  shows "split_entry_from U b (s @ CHR '':'' # t) = (b @ s, t, True)"
  using assms(1-3)
proof (induction s arbitrary: b)
  case Nil
  then show ?case by simp
next
  case (Cons c s)
  show ?case
  proof (cases "s = []")
    case True
    with Cons.prems assms(5) show ?thesis by simp
  next
    case False
    then have "\<not> is_service_start U (s @ CHR '':'' # t)"
      using Cons.prems assms(4) by (intro no_service_start) (auto intro: net_char_acl)
    with False Cons show ?thesis by simp
  qed
qed

lemma services_start:
  assumes "svs \<noteq> []" "\<forall>s \<in> set svs. wf_service s"
  shows "is_service_start U (services_text svs '','')"
proof -
  obtain s r where svs: "svs = s # r" using assms(1) by (cases svs) auto
  obtain rest where t: "services_text svs '','' = service_string s @ rest"
    unfolding svs services_text_def by (cases r) auto
  have "\<forall>c \<in> set (services_text svs '',''). acl_char c"
    using set_join [of "'',''" "map service_string svs"] service_string_chars by (fastforce simp: services_text_def)
  then have l: "to_lower U (services_text svs '','') = service_string s @ rest" by (simp add: to_lower_stable t)
  have "wf_service s" using assms(2) svs by simp
  then have "has_prefix (service_string s @ rest) ''tcp/'' \<or> has_prefix (service_string s @ rest) ''udp/'' \<or>
      has_prefix (service_string s @ rest) ''icmp''"
    unfolding wf_service_def
    by (auto simp: service_string_def has_prefix_def icmp_service_def any_service_def port_service_def)
  with l show ?thesis by (auto simp: is_service_start_def Let_def)
qed

lemma services_text_chars: "c \<in> set (services_text svs '','') \<Longrightarrow> acl_char c"
  using set_join [of "'',''" "map service_string svs"] service_string_chars by (fastforce simp: services_text_def)

lemma net_string_last: "net_string n \<noteq> [] \<and> last (net_string n) \<noteq> CHR '':''"
proof -
  obtain a where a: "net_string n = a @ itoa (n_plen n)" by (cases "n_v6 n") (auto simp: net_string_def)
  have "last (itoa (n_plen n)) \<in> set (itoa (n_plen n))" by simp
  then have "is_digit (last (itoa (n_plen n)))" by (rule itoa_digits)
  then show ?thesis by (auto simp: a is_digit_def)
qed

lemma parse_entry_string:
  assumes n: "wf_net n" "n_scope n = []"
    and s: "svs = [] \<or> canonical_services svs = svs \<and> \<not> everything svs \<and> (\<forall>s \<in> set svs. wf_service s) \<and> length svs \<le> max_services"
  shows "parse_entry U (entry_string \<lparr>e_net = net_string n, e_services = svs\<rparr>) = Inr \<lparr>e_net = net_string n, e_services = svs\<rparr>"
proof -
  let ?e = "\<lparr>e_net = net_string n, e_services = svs\<rparr>"
  have c: "\<forall>c \<in> set (net_string n). net_char c" using net_string_chars [OF n(2)] by blast
  have p: "parse_net (net_string n) = Some n" using n(1) by (rule parse_net_string)
  have "\<forall>c \<in> set (entry_string ?e). acl_char c"
    using c services_text_chars [of _ svs] by (auto simp: entry_string_def intro: net_char_acl)
  then have t: "trim_space (entry_string ?e) = entry_string ?e"
    by (intro trim_space_plain) (auto simp: acl_char_def)
  show ?thesis
  proof (cases "svs = []")
    case True
    with c t p net_string_last [of n] show ?thesis
      by (simp add: parse_entry_def entry_string_def entry_plain_def split_entry_def split_entry_none)
  next
    case False
    with s have sv: "canonical_services svs = svs" "\<not> everything svs" "\<forall>s \<in> set svs. wf_service s" "length svs \<le> max_services" by auto
    have "split_entry U (entry_string ?e) = (net_string n, services_text svs '','', True)"
      using False c net_string_last [of n] services_text_chars [of _ svs] services_start [OF False sv(3)]
      by (auto simp: split_entry_def entry_string_def entry_plain_def split_entry_colon)
    with t p False sv show ?thesis by (simp add: parse_entry_def parse_services_text)
  qed
qed

lemma parse_entry_form:
  assumes "parse_entry U s = Inr e"
  shows "\<exists>n. parse_net (fst (split_entry U s)) = Some n \<and> e_net e = net_string n \<and>
     (e_services e = [] \<or> canonical_services (e_services e) = e_services e \<and> \<not> everything (e_services e) \<and>
        (\<forall>s \<in> set (e_services e). wf_service s) \<and> length (e_services e) \<le> max_services)"
proof -
  obtain net services has where sp: "split_entry U s = (net, services, has)" by (cases "split_entry U s") auto
  with assms obtain n where n: "parse_net net = Some n"
    by (auto simp: parse_entry_def split: if_splits option.splits)
  show ?thesis
  proof (cases "has")
    case False
    with assms sp n show ?thesis by (auto simp: parse_entry_def split: if_splits)
  next
    case True
    with assms sp n obtain svs all where ps: "parse_services U services = Inr (svs, all)"
      by (auto simp: parse_entry_def split: if_splits sum.splits)
    with assms sp n True show ?thesis
      using parse_services_form [of U services svs] by (cases all) (auto simp: parse_entry_def split: if_splits)
  qed
qed

section \<open>The properties\<close>

lemma split_entry_from_set:
  "split_entry_from U b s = (net, t, has) \<Longrightarrow> set net \<subseteq> set b \<union> set s \<and> set t \<subseteq> set s"
  by (induction U b s rule: split_entry_from.induct) (auto split: if_splits)

lemma parse_net_no_zone:
  assumes "parse_net s = Some n" "CHR ''%'' \<notin> set s"
  shows "n_scope n = []"
proof -
  obtain a m f where c: "cut_at (CHR ''/'') s = (a, m, f)" by (cases "cut_at (CHR ''/'') s") auto
  then have "set a \<subseteq> set s" by (auto simp: cut_at_def Let_def split: if_splits dest: set_takeWhileD)
  with assms(2) have "CHR ''%'' \<notin> set a" by blast
  then have "ip6 a = Some (ip, sc) \<Longrightarrow> sc = []" for ip sc
    by (auto simp: ip6_def cut_at_none split: option.splits)
  with assms(1) c show ?thesis
    by (auto simp: parse_net_def parse6_def parse4_def Let_def split: if_splits option.splits)
qed

lemma no_zone:
  assumes "parse_entry U s = Inr e" "CHR ''%'' \<notin> set s"
  obtains n where "parse_net (fst (split_entry U s)) = Some n" "e_net e = net_string n" "wf_net n" "n_scope n = []"
proof -
  obtain n where n: "parse_net (fst (split_entry U s)) = Some n" "e_net e = net_string n"
    using parse_entry_form [OF assms(1)] by blast
  obtain net t h where sp: "split_entry_from U [] s = (net, t, h)" by (cases "split_entry_from U [] s") auto
  with assms(2) split_entry_from_set [OF sp] have "CHR ''%'' \<notin> set (fst (split_entry U s))"
    by (auto simp: split_entry_def)
  with n(1) have "n_scope n = []" by (rule parse_net_no_zone)
  with n that show ?thesis using parse_net_wf by blast
qed

lemma entry_reads_back:
  assumes "parse_entry U s = Inr e" "CHR ''%'' \<notin> set s"
  shows "parse_entry U (entry_string e) = Inr e"
proof -
  obtain n where n: "e_net e = net_string n" "wf_net n" "n_scope n = []" using no_zone [OF assms] by blast
  have "\<lparr>e_net = net_string n, e_services = e_services e\<rparr> = e" by (cases e) (simp add: n(1) [symmetric])
  with parse_entry_string [OF n(2,3), of "e_services e" U] parse_entry_form [OF assms(1)] show ?thesis by auto
qed

lemma entry_string_trim:
  assumes "parse_entry U s = Inr e"
  shows "entry_string e = trim_space (entry_string e) \<or> CHR ''%'' \<in> set s"
  using entry_reads_back [OF assms] by (auto simp: parse_entry_def split: if_splits)

lemma acl_entry_meaning:
  assumes "parse_entry U s = Inr e" "split_entry U s = (net, services, has)"
  shows "entry_permits e p port \<longleftrightarrow>
      (if has then list_ex (\<lambda>t. token_permits U t p port) (split_on (CHR '','') services) else True)"
    and "addrs_of (e_net e) = addrs_of net"
proof -
  from assms obtain n where n: "parse_net net = Some n" "e_net e = net_string n"
    using parse_entry_form [OF assms(1)] by auto
  then show "addrs_of (e_net e) = addrs_of net" using parse_net_wf by auto
  show "entry_permits e p port \<longleftrightarrow>
      (if has then list_ex (\<lambda>t. token_permits U t p port) (split_on (CHR '','') services) else True)"
  proof (cases "has")
    case False
    with assms n have "e_services e = []" by (auto simp: parse_entry_def split: if_splits)
    with False show ?thesis by (simp add: entry_permits_def entry_plain_def)
  next
    case True
    with assms n obtain svs all where ps: "parse_services U services = Inr (svs, all)"
      and e: "e_services e = (if all then [] else svs)"
      by (auto simp: parse_entry_def split: if_splits sum.splits)
    have "\<not> all \<Longrightarrow> svs \<noteq> []" using ps parse_services_form [of U services svs] by auto
    with True e parse_services_meaning [OF ps, of p port] show ?thesis
      by (auto simp: entry_permits_def entry_plain_def)
  qed
qed

text \<open>C18: What a management ACL entry permits is what was typed: a plain CIDR permits every protocol and
  port, an entry with services permits exactly what one of its comma separated services permits on its own
  (sorting, dropping repeats and letting \<open>tcp/*\<close> take the other tcp services change nothing), and the
  network stored covers the same addresses as the one typed.\<close>

theorem acl_entry_permits_what_is_typed:
  assumes "parse_entry U s = Inr e" "split_entry U s = (net, services, has)"
  shows "(\<forall>p port. entry_permits e p port \<longleftrightarrow>
      (if has then list_ex (\<lambda>t. token_permits U t p port) (split_on (CHR '','') services) else True)) \<and>
    addrs_of (e_net e) = addrs_of net"
  using acl_entry_meaning [OF assms] by blast

definition ascii_only :: unicode where
  "ascii_only = \<lparr>u_plain = (\<lambda>_. False), u_lower = id\<rparr>"

text \<open>A concrete entry, read step by step.\<close>

lemma sample_tokens:
  "clean_token ascii_only ''UDP/161-162'' = ''udp/161-162''" "clean_token ascii_only ''tcp/22'' = ''tcp/22''"
proof -
  have "map ascii_lower ''UDP/161-162'' = ''udp/161-162''" "map ascii_lower ''tcp/22'' = ''tcp/22''" by code_simp+
  then show "clean_token ascii_only ''UDP/161-162'' = ''udp/161-162''" "clean_token ascii_only ''tcp/22'' = ''tcp/22''"
    by (simp_all add: clean_token_def trim_space_plain plain_char_def to_lower_def ascii_string_def del: list.map)
qed

lemma sample_services:
  "read_service ''udp/161-162'' = Inr (Some (port_service Udp 161 162))"
  "read_service ''tcp/22'' = Inr (Some (port_service Tcp 22 22))"
proof -
  have "port_of ''161'' = Some 161" "port_of ''162'' = Some 162" "port_of ''22'' = Some 22"
    by (simp_all add: port_of_def dec_val_def digit_val_def is_digit_def)
  then show "read_service ''udp/161-162'' = Inr (Some (port_service Udp 161 162))"
    "read_service ''tcp/22'' = Inr (Some (port_service Tcp 22 22))"
    by (simp_all add: read_service_def has_prefix_def cut_at_def ports_service_def proto_of_text.simps)
qed

lemma sample_split:
  "split_on (CHR '','') ''UDP/161-162,tcp/22'' = [''UDP/161-162'', ''tcp/22'']"
  "split_entry ascii_only ''10.1.2.3/8:UDP/161-162,tcp/22'' = (''10.1.2.3/8'', ''UDP/161-162,tcp/22'', True)"
  by code_simp+

lemma sample_entry:
  "parse_entry ascii_only ''10.1.2.3/8:UDP/161-162,tcp/22'' =
     Inr \<lparr>e_net = ''10.0.0.0/8'', e_services = [port_service Tcp 22 22, port_service Udp 161 162]\<rparr>"
proof -
  let ?n = "\<lparr>n_v6 = False, n_ip = mk128 0 0x0A000000, n_plen = 8, n_scope = []\<rparr>"
  have c: "canonical_services [port_service Udp 161 162, port_service Tcp 22 22] = [port_service Tcp 22 22, port_service Udp 161 162]"
    by (simp add: canonical_services_def any_of_def port_service_def dedup_def add_new_def service_less_def service_cmp_def)
  have n: "parse_net ''10.1.2.3/8'' = Some ?n" "net_string ?n = ''10.0.0.0/8''" by code_simp+
  have "trim_space ''10.1.2.3/8:UDP/161-162,tcp/22'' = ''10.1.2.3/8:UDP/161-162,tcp/22''"
    by (simp add: trim_space_plain plain_char_def)
  with c n show ?thesis
    by (simp add: parse_entry_def sample_split parse_services_def sample_tokens sample_services everything_def max_services_def)
qed

lemma acl_entry_permits_what_is_typed_witness:
  "\<exists>e. parse_entry ascii_only ''10.1.2.3/8:UDP/161-162,tcp/22'' = Inr e \<and> entry_permits e Tcp 22 \<and>
     \<not> entry_permits e Tcp 23 \<and> addrs_of (e_net e) = addrs_of ''10.1.2.3/8''"
proof -
  have t: "list_ex (\<lambda>t. token_permits ascii_only t Tcp 22) (split_on (CHR '','') ''UDP/161-162,tcp/22'')"
    "\<not> list_ex (\<lambda>t. token_permits ascii_only t Tcp 23) (split_on (CHR '','') ''UDP/161-162,tcp/22'')"
    by (simp_all add: sample_split sample_tokens sample_services token_permits_def service_covers_def port_service_def)
  show ?thesis using acl_entry_permits_what_is_typed [OF sample_entry sample_split(2)] t sample_entry by auto
qed

text \<open>C22: The stored form of an entry without a zone reads back as the same entry, so storing it again
  changes nothing.\<close>

theorem acl_stored_form_reads_back:
  assumes "parse_entry U s = Inr e" "CHR ''%'' \<notin> set s"
  shows "parse_entry U (entry_string e) = Inr e \<and> acl_canonical U (entry_string e) = Some (entry_string e)"
  using entry_reads_back [OF assms] by (simp add: acl_canonical_def)

lemma acl_stored_form_reads_back_witness:
  "acl_canonical ascii_only (entry_string \<lparr>e_net = ''10.0.0.0/8'', e_services = [port_service Tcp 22 22, port_service Udp 161 162]\<rparr>)
     = Some (entry_string \<lparr>e_net = ''10.0.0.0/8'', e_services = [port_service Tcp 22 22, port_service Udp 161 162]\<rparr>)"
  using acl_stored_form_reads_back [OF sample_entry] by simp

text \<open>With a zone it need not: the zone \<open>:tcp\<close> followed by the prefix length looks like a service.\<close>

lemma zone_not_stable:
  "acl_canonical ascii_only ''::%:tcp'' = Some ''::%:tcp/128'' \<and> acl_canonical ascii_only ''::%:tcp/128'' = None"
proof -
  have s: "split_entry ascii_only ''::%:tcp'' = (''::%:tcp'', [], False)"
    "split_entry ascii_only ''::%:tcp/128'' = (''::%'', ''tcp/128'', True)" by code_simp+
  let ?n = "\<lparr>n_v6 = True, n_ip = mk128 0 0, n_plen = 128, n_scope = '':tcp''\<rparr>"
  have n: "parse_net ''::%:tcp'' = Some ?n" "net_string ?n = ''::%:tcp/128''" "parse_net ''::%'' = None"
    by code_simp+
  have "trim_space ''::%:tcp'' = ''::%:tcp''" "trim_space ''::%:tcp/128'' = ''::%:tcp/128''"
    by (simp_all add: trim_space_plain plain_char_def)
  with s n show ?thesis by (simp add: acl_canonical_def parse_entry_def entry_string_def entry_plain_def)
qed

section \<open>\<open>Sort\<close>\<close>

text \<open>Networks without a zone that sort alike are the same.\<close>

lemma acl_less_lex:
  "acl_less = (\<lambda>a b. if key_less (acl_key a) (acl_key b) then True
     else if key_less (acl_key b) (acl_key a) then False
     else map service_key (e_services a) < map service_key (e_services b))"
  by (intro ext) (simp add: acl_less_def compare_services_key)

interpretation acl_order: strict_weak acl_less
  unfolding acl_less_lex
  by (intro strict_weak_lex strict_weak_image [OF routing_order.strict_weak_axioms] strict_weak_key)

definition zone_free :: "unicode \<Rightarrow> entry \<Rightarrow> bool" where
  "zone_free U e \<longleftrightarrow> parse_entry U (entry_string e) = Inr e \<and> (\<exists>n. wf_net n \<and> n_scope n = [] \<and> e_net e = net_string n)"

lemma zone_freeI: "parse_entry U s = Inr e \<Longrightarrow> CHR ''%'' \<notin> set s \<Longrightarrow> zone_free U e"
  using no_zone entry_reads_back unfolding zone_free_def by metis

lemma entry_string_inj: "zone_free U a \<Longrightarrow> zone_free U b \<Longrightarrow> entry_string a = entry_string b \<Longrightarrow> a = b"
  unfolding zone_free_def by (metis sum.inject(2))

lemma key_tie: "\<not> key_less j k \<Longrightarrow> \<not> key_less k j \<Longrightarrow> j = k"
  by (cases j; cases k) (auto simp: key_less_uval uval_inj)

lemma same_sort_key:
  assumes "wf_net n" "wf_net m" "n_scope n = n_scope m" "sort_key_of n = sort_key_of m"
  shows "n = m"
proof -
  from assms(4) have k: "net_version n = net_version m" "broadcast n = broadcast m" "n_ip n = n_ip m"
    by (simp_all add: sort_key_of_def)
  then have v: "n_v6 n = n_v6 m" by (auto simp: net_version_def split: if_splits)
  with k assms have "net_addrs n = net_addrs m" by (simp add: set_eq_subset subset_interval)
  then have "net_contains n m" "net_contains m n" using assms by (simp_all add: contains_iff_subset)
  then have "n_plen n = n_plen m" by (auto simp: net_contains_def split: if_splits)
  with k v assms(3) show ?thesis by simp
qed

lemma acl_less_total:
  assumes "zone_free U a" "zone_free U b" "\<not> acl_less a b" "\<not> acl_less b a"
  shows "a = b"
proof -
  obtain n m where n: "wf_net n" "n_scope n = []" "e_net a = net_string n" and m: "wf_net m" "n_scope m = []" "e_net b = net_string m"
    using assms(1,2) unfolding zone_free_def by blast
  have k: "acl_key a = sort_key_of n" "acl_key b = sort_key_of m"
    using n m by (simp_all add: acl_key_def cidr_sort_key_def parse_net_string)
  from assms(3,4) have l: "\<not> key_less (acl_key a) (acl_key b)" "\<not> key_less (acl_key b) (acl_key a)"
    by (auto simp: acl_less_lex split: if_splits)
  with key_tie k have "sort_key_of n = sort_key_of m" by metis
  with n m have "n = m" by (intro same_sort_key) simp_all
  have "map service_key (e_services a) = map service_key (e_services b)"
    using assms(3,4) l by (auto simp: acl_less_lex)
  moreover have "inj service_key" by (simp add: inj_def service_key_inj)
  ultimately have "e_services a = e_services b" by simp
  with \<open>n = m\<close> n m show ?thesis by (cases a; cases b) simp
qed

text \<open>A list without repeats that a strict order sorts is determined by its elements.\<close>

lemma sorted_set_unique:
  assumes "strict_weak lt" "\<And>x y. P x \<Longrightarrow> P y \<Longrightarrow> \<not> lt x y \<Longrightarrow> \<not> lt y x \<Longrightarrow> x = y"
  shows "distinct xs \<Longrightarrow> distinct ys \<Longrightarrow> set xs = set ys \<Longrightarrow> \<forall>x \<in> set xs. P x \<Longrightarrow>
     sorted_wrt (\<lambda>x y. \<not> lt y x) xs \<Longrightarrow> sorted_wrt (\<lambda>x y. \<not> lt y x) ys \<Longrightarrow> xs = ys"
proof (induction xs arbitrary: ys)
  case Nil
  then show ?case by simp
next
  case (Cons x xs)
  then obtain y zs where ys: "ys = y # zs" by (cases ys) auto
  have m: "x \<in> set (y # zs)" "y \<in> set (x # xs)" using Cons.prems(3) ys by auto
  have "x = y"
  proof (rule ccontr)
    assume "x \<noteq> y"
    with m have "x \<in> set zs" "y \<in> set xs" by auto
    with Cons.prems ys have "\<not> lt x y" "\<not> lt y x" by auto
    moreover have "P x" "P y" using Cons.prems(4) m by auto
    ultimately show False using assms(2) \<open>x \<noteq> y\<close> by blast
  qed
  moreover have "set xs = set zs" using Cons.prems(1,2,3) ys \<open>x = y\<close> by (auto simp: insert_ident)
  then have "xs = zs" using Cons.prems ys by (intro Cons.IH) auto
  ultimately show ?case using ys by simp
qed

lemma sort_items_inv:
  "distinct (map entry_string out) \<Longrightarrow> distinct (map entry_string (sort_items U out xs)) \<and>
     entry_string ` set (sort_items U out xs) = entry_string ` set out \<union> {c. \<exists>s \<in> set xs. acl_canonical U (trim_space s) = Some c}"
proof (induction U out xs rule: sort_items.induct)
  case (1 U out)
  then show ?case by simp
next
  case (2 U out l ls)
  then show ?case by (cases "parse_entry U (trim_space l)") (auto simp: acl_canonical_def)
qed

lemma trim_front_set: "set (trim_front seqs s) \<subseteq> set s"
  using trim_front_suffix [of seqs s] by (rule set_mono_suffix)

lemma trim_space_set: "set (trim_space s) \<subseteq> set s"
  unfolding trim_space_def trim_seqs_def using trim_front_set by (metis order_trans set_rev)

lemma sort_items_free:
  "\<forall>s \<in> set xs. CHR ''%'' \<notin> set s \<Longrightarrow> \<forall>e \<in> set out. zone_free U e \<Longrightarrow> \<forall>e \<in> set (sort_items U out xs). zone_free U e"
proof (induction U out xs rule: sort_items.induct)
  case (1 U out)
  then show ?case by simp
next
  case (2 U out l ls)
  have "set (trim_space l) \<subseteq> set l" by (rule trim_space_set)
  with 2 show ?case by (cases "parse_entry U (trim_space l)") (auto intro: zone_freeI [where s = "trim_space l"])
qed

lemma sort_items_stored:
  "\<forall>e \<in> set es. zone_free U e \<Longrightarrow> distinct (map entry_string (out @ es)) \<Longrightarrow>
     sort_items U out (map entry_string es) = out @ es"
proof (induction es arbitrary: out)
  case Nil
  then show ?case by simp
next
  case (Cons e es)
  then have "parse_entry U (entry_string e) = Inr e" by (simp add: zone_free_def)
  then have "parse_entry U (trim_space (entry_string e)) = Inr e" by (metis parse_entry_def sum.distinct(1))
  with Cons show ?case by auto
qed

lemma acl_sort_facts:
  assumes "\<forall>s \<in> set xs. CHR ''%'' \<notin> set s"
  shows "set (acl_sort U xs) = {c. \<exists>s \<in> set xs. acl_canonical U (trim_space s) = Some c}"
    and "distinct (acl_sort U xs)"
    and "\<exists>es. acl_sort U xs = map entry_string es \<and> sorted_wrt (\<lambda>a b. \<not> acl_less b a) es"
    and "\<forall>s \<in> set ys. CHR ''%'' \<notin> set s \<Longrightarrow>
      {c. \<exists>s \<in> set xs. acl_canonical U (trim_space s) = Some c} = {c. \<exists>s \<in> set ys. acl_canonical U (trim_space s) = Some c} \<Longrightarrow>
      acl_sort U xs = acl_sort U ys"
    and "acl_sort U (acl_sort U xs) = acl_sort U xs"
proof -
  let ?i = "\<lambda>xs. sort_items U [] xs" and ?s = "slice_stable acl_less"
  have inv: "distinct (map entry_string (?i zs))"
    "entry_string ` set (?i zs) = {c. \<exists>s \<in> set zs. acl_canonical U (trim_space s) = Some c}" for zs
    using sort_items_inv [of "[]" U zs] by auto
  have free: "\<forall>e \<in> set (?i zs). zone_free U e" if "\<forall>s \<in> set zs. CHR ''%'' \<notin> set s" for zs
    using sort_items_free [OF that, of "[]"] by simp
  have perm: "mset (map entry_string (?s (?i zs))) = mset (map entry_string (?i zs))" for zs by simp
  show "set (acl_sort U xs) = {c. \<exists>s \<in> set xs. acl_canonical U (trim_space s) = Some c}"
    using inv(2) [of xs] by (simp add: acl_sort_def)
  show "distinct (acl_sort U xs)"
    unfolding acl_sort_def using mset_eq_imp_distinct_iff [OF perm] inv(1) by blast
  show "\<exists>es. acl_sort U xs = map entry_string es \<and> sorted_wrt (\<lambda>a b. \<not> acl_less b a) es"
    unfolding acl_sort_def using acl_order.sorted by blast
  show "acl_sort U xs = acl_sort U ys" if ys: "\<forall>s \<in> set ys. CHR ''%'' \<notin> set s"
    and same: "{c. \<exists>s \<in> set xs. acl_canonical U (trim_space s) = Some c} = {c. \<exists>s \<in> set ys. acl_canonical U (trim_space s) = Some c}"
  proof -
    have "entry_string ` set (?i xs) = entry_string ` set (?i ys)" using inv(2) same by metis
    then have "set (?i xs) = set (?i ys)"
      using free [OF assms] free [OF ys] entry_string_inj by (auto simp: image_iff set_eq_iff) metis+
    then have "?s (?i xs) = ?s (?i ys)"
      using inv(1) [of xs] inv(1) [of ys] free [OF assms]
      by (intro sorted_set_unique [where P = "zone_free U", OF acl_order.strict_weak_axioms acl_less_total])
        (auto simp: distinct_map acl_order.sorted)
    then show ?thesis by (simp add: acl_sort_def)
  qed
  have "sort_items U [] (acl_sort U xs) = ?s (?i xs)"
    unfolding acl_sort_def using free [OF assms] inv(1) [of xs] mset_eq_imp_distinct_iff [OF perm [of xs]]
    by (subst sort_items_stored) auto
  then show "acl_sort U (acl_sort U xs) = acl_sort U xs"
    by (simp add: acl_sort_def acl_order.idem)
qed

text \<open>\<open>Sort\<close> keeps each canonical entry once and nothing else, orders the entries by the routing key of
  their network and then by their services, and depends only on which entries there are, not on their order,
  spelling or number; so sorting a sorted list changes nothing.\<close>

theorem acl_sort_canonical:
  assumes "\<forall>s \<in> set xs. CHR ''%'' \<notin> set s"
  shows "set (acl_sort U xs) = {c. \<exists>s \<in> set xs. acl_canonical U (trim_space s) = Some c} \<and>
    distinct (acl_sort U xs) \<and>
    (\<exists>es. acl_sort U xs = map entry_string es \<and> sorted_wrt (\<lambda>a b. \<not> acl_less b a) es) \<and>
    (\<forall>ys. (\<forall>s \<in> set ys. CHR ''%'' \<notin> set s) \<longrightarrow>
      {c. \<exists>s \<in> set xs. acl_canonical U (trim_space s) = Some c} = {c. \<exists>s \<in> set ys. acl_canonical U (trim_space s) = Some c} \<longrightarrow>
      acl_sort U xs = acl_sort U ys) \<and>
    acl_sort U (acl_sort U xs) = acl_sort U xs"
  using acl_sort_facts(1-3,5) [OF assms] acl_sort_facts(4) [OF assms] by blast

lemma acl_sort_canonical_witness:
  "distinct (acl_sort ascii_only [''10.1.2.3/8:UDP/161-162,tcp/22'', ''10.0.0.0/8'']) \<and>
   acl_sort ascii_only (acl_sort ascii_only [''10.1.2.3/8:UDP/161-162,tcp/22'', ''10.0.0.0/8'']) =
     acl_sort ascii_only [''10.1.2.3/8:UDP/161-162,tcp/22'', ''10.0.0.0/8'']"
  using acl_sort_canonical [of "[''10.1.2.3/8:UDP/161-162,tcp/22'', ''10.0.0.0/8'']" ascii_only] by simp

end
