(* ===== verification/ConfDoc.thy ===== *)
theory ConfDoc
  imports Model
begin

text \<open>
  \<open>internal/conf\<close>: the document of \<open>tacctl.yaml\<close> and the merged view of it (\<open>config.go\<close>), the changes at
  dotted paths (\<open>write.go\<close>), its leaves (\<open>validate.go\<close>) and the readers (\<open>Get\<close>, \<open>GetList\<close>, the tunables).
  A document is an ordered mapping; a change in place is a changed document.
\<close>

section \<open>Dotted paths\<close>

definition path_parts :: "string \<Rightarrow> string list" where
  "path_parts path = split_on (CHR ''.'') path"

fun walk_parts :: "yval \<Rightarrow> string list \<Rightarrow> yval option" where
  "walk_parts v [] = Some v"
| "walk_parts v (p # ps) =
     (case map_of_val v of
        None \<Rightarrow> None
      | Some m \<Rightarrow> (case yget m p of None \<Rightarrow> None | Some w \<Rightarrow> walk_parts w ps))"

text \<open>\<open>walk\<close>: the empty path is the whole document when \<open>whole\<close> says so.\<close>

definition walk :: "ymap \<Rightarrow> string \<Rightarrow> bool \<Rightarrow> yval option" where
  "walk doc path whole =
     (if path = [] \<and> whole then Some (YMap doc) else walk_parts (YMap doc) (path_parts path))"

definition nil_if_none :: "yval option \<Rightarrow> yval" where
  "nil_if_none v = (case v of None \<Rightarrow> YNull | Some w \<Rightarrow> w)"

definition get_nested :: "ymap \<Rightarrow> string \<Rightarrow> yval" where
  "get_nested doc path = nil_if_none (walk doc path False)"

definition submap :: "yval option \<Rightarrow> ymap" where
  "submap v = (case v of Some (YMap m) \<Rightarrow> m | _ \<Rightarrow> [])"

fun set_parts :: "ymap \<Rightarrow> string list \<Rightarrow> yval \<Rightarrow> ymap" where
  "set_parts d [] v = d"
| "set_parts d [p] v = yset d p v"
| "set_parts d (p # q # ps) v = yset d p (YMap (set_parts (submap (yget d p)) (q # ps) v))"

definition set_nested :: "ymap \<Rightarrow> string \<Rightarrow> yval \<Rightarrow> ymap" where
  "set_nested d path v = set_parts d (path_parts path) v"

text \<open>\<open>unsetNested\<close>: \<open>None\<close> where the loop over the parents returns, so that nothing is pruned.\<close>

fun unset_parts :: "ymap \<Rightarrow> string list \<Rightarrow> ymap option" where
  "unset_parts d [] = None"
| "unset_parts d [p] = Some (ydel d p)"
| "unset_parts d (p # q # ps) =
     (case yget d p of
        Some (YMap m) \<Rightarrow>
          map_option (\<lambda>m'. if m' = [] then ydel d p else yset d p (YMap m')) (unset_parts m (q # ps))
      | _ \<Rightarrow> None)"

definition unset_nested :: "ymap \<Rightarrow> string \<Rightarrow> ymap" where
  "unset_nested d path = (case unset_parts d (path_parts path) of None \<Rightarrow> d | Some d' \<Rightarrow> d')"

fun has_leaf_parts :: "ymap \<Rightarrow> string list \<Rightarrow> bool" where
  "has_leaf_parts d [] = False"
| "has_leaf_parts d [p] = yhas d p"
| "has_leaf_parts d (p # q # ps) =
     (case yget d p of Some (YMap m) \<Rightarrow> has_leaf_parts m (q # ps) | _ \<Rightarrow> False)"

definition has_leaf :: "ymap \<Rightarrow> string \<Rightarrow> bool" where
  "has_leaf d path = has_leaf_parts d (path_parts path)"

section \<open>Leaves\<close>

definition child_path :: "string \<Rightarrow> string \<Rightarrow> string" where
  "child_path pre k = (if pre \<noteq> [] then pre @ ''.'' @ k else k)"

function walk_leaves :: "ymap \<Rightarrow> string \<Rightarrow> (string \<times> yval) list" where
  "walk_leaves [] pre = []"
| "walk_leaves ((k, v) # m) pre =
     (case v of YMap sub \<Rightarrow> walk_leaves sub (child_path pre k) | _ \<Rightarrow> [(child_path pre k, v)]) @
     walk_leaves m pre"
  by pat_completeness auto
termination
  by (relation "measure (\<lambda>(m, _). size (YMap m))") auto

section \<open>The merged view\<close>

function conf_merge :: "ymap \<Rightarrow> ymap \<Rightarrow> ymap" where
  "conf_merge a [] = a"
| "conf_merge a ((k, v) # b) =
     conf_merge (yset a k (case (v, yget a k) of (YMap bm, Some (YMap am)) \<Rightarrow> YMap (conf_merge am bm) | _ \<Rightarrow> v)) b"
  by pat_completeness auto
termination
  by (relation "measure (\<lambda>(_, b). size (YMap b))") auto

record conf_view =
  cv_overrides :: ymap
  cv_problem :: bool
  cv_missing :: bool
  cv_merged :: ymap

section \<open>Readers\<close>

definition conf_str :: "pyfmt \<Rightarrow> yval \<Rightarrow> string" where
  "conf_str F v = (case v of YStr s \<Rightarrow> s | YDate y m d \<Rightarrow> date_string y m d | _ \<Rightarrow> py_repr F v)"

definition conf_value :: "ymap \<Rightarrow> string \<Rightarrow> yval option" where
  "conf_value merged path = walk merged path True"

definition conf_get :: "pyfmt \<Rightarrow> ymap \<Rightarrow> string \<Rightarrow> string \<Rightarrow> string option" where
  "conf_get F merged path fallback =
     (case nil_if_none (walk merged path True) of
        YNull \<Rightarrow> Some fallback
      | YBool b \<Rightarrow> Some (if b then ''true'' else ''false'')
      | YMap _ \<Rightarrow> None
      | YList _ \<Rightarrow> None
      | v \<Rightarrow> Some (conf_str F v))"

definition conf_get_list :: "pyfmt \<Rightarrow> ymap \<Rightarrow> string \<Rightarrow> string list" where
  "conf_get_list F merged path =
     (case list_of_val (nil_if_none (walk merged path True)) of None \<Rightarrow> [] | Some items \<Rightarrow> map (conf_str F) items)"

definition conf_get_keys :: "ymap \<Rightarrow> string \<Rightarrow> string list" where
  "conf_get_keys merged path =
     (case map_of_val (nil_if_none (walk merged path True)) of None \<Rightarrow> [] | Some m \<Rightarrow> ykeys m)"

definition has_override :: "ymap \<Rightarrow> string \<Rightarrow> bool" where
  "has_override overrides path \<longleftrightarrow> walk overrides path False \<noteq> None"

text \<open>\<open>clamp\<close>: the text must be digits, in the range, and fit an \<open>int64\<close>.\<close>

definition conf_clamp :: "pyfmt \<Rightarrow> ymap \<Rightarrow> string \<Rightarrow> int \<Rightarrow> int \<Rightarrow> int option \<Rightarrow> int" where
  "conf_clamp F merged path def lo hi =
     (let text = (case conf_get F merged path (int_text def) of None \<Rightarrow> [] | Some t \<Rightarrow> t)
      in if text = [] \<or> \<not> list_all is_digit text then def
         else let n = int (dec_val text)
              in if n < lo \<or> (case hi of None \<Rightarrow> False | Some h \<Rightarrow> n > h) \<or> n \<ge> 2 ^ 63 then def else n)"

record tunables =
  tn_max_age :: int
  tn_bcrypt_cost :: int
  tn_min_length :: int
  tn_secret_min :: int

definition conf_tunables :: "pyfmt \<Rightarrow> ymap \<Rightarrow> tunables" where
  "conf_tunables F merged =
     \<lparr>tn_max_age = conf_clamp F merged ''password.max_age_days'' 90 1 None,
      tn_bcrypt_cost = conf_clamp F merged ''bcrypt.cost'' 12 10 (Some 14),
      tn_min_length = conf_clamp F merged ''password.min_length'' 12 8 (Some 64),
      tn_secret_min = conf_clamp F merged ''secret.min_length'' 16 16 (Some 128)\<rparr>"

section \<open>The reading and the writing of values on a command line\<close>

text \<open>
  \<open>py.Int\<close>: a sign, then digits with single underscores between them, blanks around. The decimal digits of
  other scripts and \<open>strconv.ParseFloat\<close> are parameters.
\<close>

record pynum =
  pn_digit :: "nat \<Rightarrow> nat option"
  pn_parse_float :: "string \<Rightarrow> 64 word option"

definition decimal_value :: "pynum \<Rightarrow> nat \<Rightarrow> nat option" where
  "decimal_value P r = (if 48 \<le> r \<and> r \<le> 57 then Some (r - 48) else pn_digit P r)"

fun int_digits :: "pynum \<Rightarrow> bool \<Rightarrow> nat \<Rightarrow> nat list \<Rightarrow> nat option" where
  "int_digits P underscore n [] = (if underscore then None else Some n)"
| "int_digits P underscore n (r # rs) =
     (if r = 95 then (if underscore then None else int_digits P True n rs)
      else (case decimal_value P r of None \<Rightarrow> None | Some d \<Rightarrow> int_digits P False (n * 10 + d) rs))"

definition py_int :: "pynum \<Rightarrow> string \<Rightarrow> int option" where
  "py_int P s =
     (let t = py_strip s; neg = has_prefix t ''-''; u = (if has_prefix t ''+'' \<or> neg then drop 1 t else t)
      in if u = [] then None
         else map_option (\<lambda>n. if neg then - int n else int n) (int_digits P True 0 (runes_of u)))"

text \<open>\<open>py.Float\<close>: the text in ASCII digits, one sign, underscores between digits.\<close>

function ascii_digits :: "pynum \<Rightarrow> string \<Rightarrow> string option" where
  "ascii_digits P s =
     (if s = [] then Some []
      else let (r, w) = decode_rune s
           in (case (if r < 0x80 then Some (hd s) else map_option (\<lambda>d. char_of (48 + d)) (decimal_value P r)) of
                 None \<Rightarrow> None
               | Some c \<Rightarrow> map_option ((#) c) (ascii_digits P (drop w s))))"
  by pat_completeness auto
termination
proof (relation "measure (\<lambda>(_, s). length s)", goal_cases)
  case (2 P s x xa y)
  then show ?case using decode_rune_width [of s] by (cases s) (auto simp: prod_eq_iff)
qed simp_all

declare ascii_digits.simps [simp del]

definition float_underscores :: "string \<Rightarrow> bool" where
  "float_underscores s \<longleftrightarrow>
     list_all (\<lambda>i. s ! i = CHR ''_'' \<longrightarrow> 0 < i \<and> i < length s - 1 \<and> is_digit (s ! (i - 1)) \<and> is_digit (s ! (i + 1)))
       [0..<length s]"

definition py_float :: "pynum \<Rightarrow> unicode \<Rightarrow> string \<Rightarrow> 64 word option" where
  "py_float P U s =
     (case ascii_digits P (py_strip s) of
        None \<Rightarrow> None
      | Some t \<Rightarrow>
          let body = dropWhile (\<lambda>c. c = CHR ''+'' \<or> c = CHR ''-'') t
          in if length t - length body > 1 then None
             else if to_lower U body \<in> {''inf'', ''infinity'', ''nan''} then pn_parse_float P t
             else if \<not> float_underscores body then None
             else let clean = filter (\<lambda>c. c \<noteq> CHR ''_'') t
                  in if list_ex (\<lambda>c. c \<in> set ''xXpP'') clean \<or> clean = [] then None else pn_parse_float P clean)"

definition coerce_scalar :: "pynum \<Rightarrow> unicode \<Rightarrow> string \<Rightarrow> yval" where
  "coerce_scalar P U s =
     (if s = [] then YStr []
      else case py_int P s of
        Some n \<Rightarrow> YInt n
      | None \<Rightarrow>
          (case (if CHR ''.'' \<in> set s then py_float P U s else None) of
             Some f \<Rightarrow> YFloat f
           | None \<Rightarrow>
               (let l = to_lower U s
                in if l = ''true'' then YBool True
                   else if l = ''false'' then YBool False
                   else if l = ''null'' then YNull
                   else YStr s)))"

text \<open>\<open>ListItems\<close>: one item per line, blank lines dropped.\<close>

fun unix_lines :: "string \<Rightarrow> string" where
  "unix_lines [] = []"
| "unix_lines (c # s) =
     (if c = CHR 0x0D then (case s of d # t \<Rightarrow> if d = CHR 0x0A then unix_lines s else CHR 0x0A # unix_lines s | [] \<Rightarrow> [CHR 0x0A])
      else c # unix_lines s)"

definition list_items :: "string \<Rightarrow> string list" where
  "list_items text = filter (\<lambda>l. py_strip l \<noteq> []) (split_on (CHR 0x0A) (unix_lines text))"

end
