(* ===== verification/ConfDocProps.thy ===== *)
theory ConfDocProps
  imports ConfDoc
begin

text \<open>
  The laws of dotted paths: what is found at a path after a value was set or removed at another, which leaves a
  changed document has, and what the merged view shows at a path.
\<close>

section \<open>Documents with distinct keys\<close>

fun wf_tree :: "yval \<Rightarrow> bool" where
  "wf_tree (YMap m) = (wf_ymap m \<and> list_all (\<lambda>p. wf_tree (snd p)) m)"
| "wf_tree (YList l) = list_all wf_tree l"
| "wf_tree _ = True"

lemma wf_tree_get: "wf_tree (YMap m) \<Longrightarrow> yget m k = Some v \<Longrightarrow> wf_tree v"
  by (auto simp: list_all_iff dest!: yget_in_set)

lemma set_yset: "set (yset m k v) \<subseteq> insert (k, v) (set m)"
  by (induction m) auto

lemma wf_tree_yset: "wf_tree (YMap m) \<Longrightarrow> wf_tree v \<Longrightarrow> wf_tree (YMap (yset m k v))"
  using set_yset [of m k v] by (auto simp: list_all_iff)

lemma wf_tree_ydel: "wf_tree (YMap m) \<Longrightarrow> wf_tree (YMap (ydel m k))"
  using wf_ydel [of m k] by (auto simp: list_all_iff ydel_def)

lemma wf_tree_Nil [simp]: "wf_tree (YMap [])"
  by simp

lemma submap_wf: "wf_tree (YMap d) \<Longrightarrow> wf_tree (YMap (submap (yget d p)))"
  by (auto simp: submap_def split: option.split yval.split dest: wf_tree_get simp del: wf_tree.simps(1))

declare wf_tree.simps(1) [simp del]

lemma wf_tree_map: "wf_tree (YMap m) \<Longrightarrow> wf_ymap m"
  by (simp add: wf_tree.simps)

lemma set_parts_wf: "wf_tree (YMap d) \<Longrightarrow> wf_tree v \<Longrightarrow> wf_tree (YMap (set_parts d ps v))"
  by (induction d ps v rule: set_parts.induct) (simp_all add: wf_tree_yset submap_wf)

lemma unset_parts_step:
  assumes "unset_parts d (p # q # ps) = Some d'"
  obtains m m' where "yget d p = Some (YMap m)" "unset_parts m (q # ps) = Some m'"
    "d' = (if m' = [] then ydel d p else yset d p (YMap m'))"
  using assms by (auto split: option.splits yval.splits)

lemma unset_parts_wf: "wf_tree (YMap d) \<Longrightarrow> unset_parts d ps = Some d' \<Longrightarrow> wf_tree (YMap d')"
proof (induction d ps arbitrary: d' rule: unset_parts.induct)
  case (3 d p q ps)
  from unset_parts_step [OF 3(3)] obtain m m' where m: "yget d p = Some (YMap m)" "unset_parts m (q # ps) = Some m'"
    "d' = (if m' = [] then ydel d p else yset d p (YMap m'))" .
  have "wf_tree (YMap m')" by (rule 3(1) [OF m(1) refl wf_tree_get [OF 3(2) m(1)] m(2)])
  with 3(2) m(3) show ?case by (simp add: wf_tree_yset wf_tree_ydel)
qed (auto simp: wf_tree_ydel)

lemma unset_nested_wf: "wf_tree (YMap d) \<Longrightarrow> wf_tree (YMap (unset_nested d path))"
  by (auto simp: unset_nested_def unset_parts_wf split: option.split)

lemma set_nested_wf: "wf_tree (YMap d) \<Longrightarrow> wf_tree v \<Longrightarrow> wf_tree (YMap (set_nested d path v))"
  by (simp add: set_nested_def set_parts_wf)

section \<open>Lookup after a change\<close>

lemma walk_parts_Cons:
  "walk_parts (YMap m) (p # ps) = (case yget m p of None \<Rightarrow> None | Some w \<Rightarrow> walk_parts w ps)"
  by simp

lemma walk_append: "walk_parts v (ps @ qs) = (case walk_parts v ps of None \<Rightarrow> None | Some w \<Rightarrow> walk_parts w qs)"
  by (induction v ps rule: walk_parts.induct) (auto split: option.split)

lemma walk_nonmap: "map_of_val v = None \<Longrightarrow> ps \<noteq> [] \<Longrightarrow> walk_parts v ps = None"
  by (cases ps) auto

lemma walk_empty [simp]: "ps \<noteq> [] \<Longrightarrow> walk_parts (YMap []) ps = None"
  by (cases ps) auto

lemma walk_set_same: "ps \<noteq> [] \<Longrightarrow> walk_parts (YMap (set_parts d ps v)) ps = Some v"
  by (induction d ps v rule: set_parts.induct) auto

lemma walk_set_below: "ps \<noteq> [] \<Longrightarrow> walk_parts (YMap (set_parts d ps v)) (ps @ rs) = walk_parts v rs"
  by (simp add: walk_append walk_set_same)

lemma walk_set_above:
  "rs \<noteq> [] \<Longrightarrow> \<exists>m. walk_parts (YMap (set_parts d (qs @ rs) v)) qs = Some (YMap m)"
proof (induction qs arbitrary: d)
  case Nil
  then show ?case by simp
next
  case (Cons q qs)
  then obtain r s where rs: "qs @ rs = r # s" by (cases "qs @ rs") auto
  with Cons.IH [OF Cons.prems, of "submap (yget d q)"] show ?case by (simp add: rs)
qed

lemma parallel_Cons: "parallel (p # ps) (p # qs) \<longleftrightarrow> parallel ps qs"
  by (auto simp: parallel_def)

lemma parallel_Nil: "\<not> parallel [] qs" "\<not> parallel ps []"
  by (auto simp: parallel_def)

lemma walk_set_other: "parallel ps qs \<Longrightarrow> walk_parts (YMap (set_parts d ps v)) qs = walk_parts (YMap d) qs"
proof (induction d ps v arbitrary: qs rule: set_parts.induct)
  case (1 d v)
  then show ?case by (simp add: parallel_Nil)
next
  case (2 d p v)
  then show ?case by (cases qs) (auto simp: parallel_def)
next
  case (3 d p q ps v)
  then obtain r rs where qs: "qs = r # rs" by (cases qs) (auto simp: parallel_def)
  show ?case
  proof (cases "r = p")
    case False
    with qs show ?thesis by simp
  next
    case True
    with 3(2) qs have par: "parallel (q # ps) rs" by (simp add: parallel_Cons)
    then have ne: "rs \<noteq> []" by (auto simp: parallel_Nil)
    have "walk_parts (YMap (submap (yget d p))) rs = walk_parts (YMap d) (p # rs)"
      using ne by (auto simp: submap_def walk_nonmap split: option.split yval.split)
    with 3(1) [OF par] qs True show ?thesis by simp
  qed
qed

lemma walk_unset_same: "unset_parts d ps = Some d' \<Longrightarrow> walk_parts (YMap d') ps = None"
proof (induction d ps arbitrary: d' rule: unset_parts.induct)
  case (3 d p q ps)
  from unset_parts_step [OF 3(2)] obtain m m' where m: "yget d p = Some (YMap m)" "unset_parts m (q # ps) = Some m'"
    "d' = (if m' = [] then ydel d p else yset d p (YMap m'))" .
  with 3(1) [OF m(1) refl m(2)] show ?case by (simp del: walk_parts.simps(2) add: walk_parts_Cons)
qed auto

lemma walk_unset_none: "unset_parts d ps = None \<Longrightarrow> ps \<noteq> [] \<Longrightarrow> walk_parts (YMap d) ps = None"
  by (induction d ps rule: unset_parts.induct) (auto split: option.splits yval.splits)

lemma walk_unset: "path_parts path = ps \<Longrightarrow> walk_parts (YMap (unset_nested d path)) ps = None"
  by (auto simp: unset_nested_def path_parts_def walk_unset_same walk_unset_none split: option.split)

lemma walk_unset_other:
  "unset_parts d ps = Some d' \<Longrightarrow> parallel ps qs \<Longrightarrow> walk_parts (YMap d') qs = walk_parts (YMap d) qs"
proof (induction d ps arbitrary: d' qs rule: unset_parts.induct)
  case (2 d p)
  then show ?case by (cases qs) (auto simp: parallel_def)
next
  case (3 d p q ps)
  then obtain r rs where qs: "qs = r # rs" by (cases qs) (auto simp: parallel_def)
  from unset_parts_step [OF 3(2)] obtain m m' where m: "yget d p = Some (YMap m)" "unset_parts m (q # ps) = Some m'"
    "d' = (if m' = [] then ydel d p else yset d p (YMap m'))" .
  show ?case
  proof (cases "r = p")
    case False
    with m qs show ?thesis by simp
  next
    case True
    with 3(3) qs have par: "parallel (q # ps) rs" by (simp add: parallel_Cons)
    then have "rs \<noteq> []" by (auto simp: parallel_Nil)
    with 3(1) [OF m(1) refl m(2) par] m qs True show ?thesis by auto
  qed
qed (simp add: parallel_Nil)

lemma unset_walk:
  "unset_parts d ps = Some d' \<Longrightarrow> walk_parts (YMap d') qs = Some w \<Longrightarrow> map_of_val w = None \<Longrightarrow>
     walk_parts (YMap d) qs = Some w"
proof (induction d ps arbitrary: d' qs rule: unset_parts.induct)
  case (2 d p)
  then show ?case by (cases qs) (auto split: if_splits option.splits)
next
  case (3 d p q ps)
  from unset_parts_step [OF 3(2)] obtain m m' where m: "yget d p = Some (YMap m)" "unset_parts m (q # ps) = Some m'"
    "d' = (if m' = [] then ydel d p else yset d p (YMap m'))" .
  show ?case
  proof (cases qs)
    case Nil
    with 3(3,4) show ?thesis by auto
  next
    case (Cons r rs)
    with 3(1) [OF m(1) refl m(2), of rs] 3(3,4) m show ?thesis by (auto split: if_splits option.splits)
  qed
qed simp

section \<open>Leaves\<close>

definition leaf_at :: "ymap \<Rightarrow> string list \<Rightarrow> yval \<Rightarrow> bool" where
  "leaf_at d ps v \<longleftrightarrow> ps \<noteq> [] \<and> walk_parts (YMap d) ps = Some v \<and> map_of_val v = None"

lemma leaf_unset: "leaf_at (unset_nested d path) ps v \<Longrightarrow> leaf_at d ps v"
  by (auto simp: leaf_at_def unset_nested_def dest: unset_walk split: option.splits)

lemma leaf_set:
  assumes "leaf_at (set_nested d path w) ps v" "map_of_val w = None"
  shows "ps = path_parts path \<and> v = w \<or> leaf_at d ps v \<and> ps \<noteq> path_parts path"
proof -
  let ?p = "path_parts path"
  have ne: "?p \<noteq> []" by (simp add: path_parts_def)
  have wk: "ps \<noteq> []" "walk_parts (YMap (set_parts d ?p w)) ps = Some v" "map_of_val v = None"
    using assms(1) by (simp_all add: leaf_at_def set_nested_def)
  consider rs where "ps = ?p @ rs" | rs where "?p = ps @ rs" "rs \<noteq> []" | "parallel ?p ps"
    by (metis append_Nil2 parallel_def prefix_def)
  then show ?thesis
  proof cases
    case (1 rs)
    with wk ne have "walk_parts w rs = Some v" by (simp add: walk_set_below)
    with assms(2) have "rs = []" by (metis option.distinct(1) walk_nonmap)
    with 1 \<open>walk_parts w rs = Some v\<close> show ?thesis by simp
  next
    case (2 rs)
    with walk_set_above [of rs d ps w] wk show ?thesis by auto
  next
    case 3
    with wk show ?thesis by (auto simp: leaf_at_def walk_set_other parallel_def)
  qed
qed

text \<open>The text of a path, as \<open>walkLeaves\<close> joins it.\<close>

definition path_text :: "string list \<Rightarrow> string" where
  "path_text ps = foldl child_path [] ps"

definition leaves_of :: "ymap \<Rightarrow> (string list \<times> yval) set" where
  "leaves_of d = {(ps, v). leaf_at d ps v}"

lemma leaves_of_Cons:
  assumes "yget m k = None"
  shows "leaves_of ((k, v) # m) =
      (\<lambda>(ps, w). (k # ps, w)) ` {(ps, w). walk_parts v ps = Some w \<and> map_of_val w = None} \<union> leaves_of m"
proof -
  have "leaf_at ((k, v) # m) ps w \<longleftrightarrow>
      (\<exists>rs. ps = k # rs \<and> walk_parts v rs = Some w \<and> map_of_val w = None) \<or> leaf_at m ps w" for ps w
    using assms by (cases ps) (auto simp: leaf_at_def yget_Cons)
  then show ?thesis by (auto simp: leaves_of_def)
qed

lemma leaves_in_map: "{(ps, w). walk_parts (YMap m) ps = Some w \<and> map_of_val w = None} = leaves_of m"
  by (auto simp: leaves_of_def leaf_at_def)

lemma leaves_in_other:
  "map_of_val v = None \<Longrightarrow> {(ps, w). walk_parts v ps = Some w \<and> map_of_val w = None} = {([], v)}"
  by (auto dest: walk_nonmap) (metis list.exhaust option.inject option.distinct(1) walk_nonmap walk_parts.simps(1))+

lemma set_walk_leaves_image:
  "wf_tree (YMap d) \<Longrightarrow> set (walk_leaves d pre) = (\<lambda>(ps, v). (foldl child_path pre ps, v)) ` leaves_of d"
proof (induction d pre rule: walk_leaves.induct)
  case (1 pre)
  then show ?case by (auto simp: leaves_of_def leaf_at_def)
next
  case (2 k v m pre)
  have wf: "wf_tree v" "wf_tree (YMap m)" "yget m k = None"
    using 2(3) yget_dom [of m k] by (auto simp: wf_tree.simps wf_ymap_def ykeys_def)
  have rest: "set (walk_leaves m pre) = (\<lambda>(ps, v). (foldl child_path pre ps, v)) ` leaves_of m"
    by (rule 2(2) [OF wf(2)])
  show ?case
  proof (cases "\<exists>sub. v = YMap sub")
    case True
    then obtain sub where v: "v = YMap sub" by blast
    have "set (walk_leaves sub (child_path pre k)) =
        (\<lambda>(ps, v). (foldl child_path (child_path pre k) ps, v)) ` leaves_of sub"
      using 2(1) [OF v] wf(1) v by simp
    then show ?thesis
      unfolding v leaves_of_Cons [OF wf(3)] leaves_in_map
      by (simp add: rest image_Un image_image case_prod_unfold)
  next
    case False
    then have nm: "map_of_val v = None" and one: "walk_leaves ((k, v) # m) pre = (child_path pre k, v) # walk_leaves m pre"
      by (cases v; simp)+
    show ?thesis by (simp add: one rest leaves_of_Cons [OF wf(3)] leaves_in_other [OF nm] del: walk_leaves.simps)
  qed
qed

lemma set_walk_leaves: "wf_tree (YMap d) \<Longrightarrow> set (walk_leaves d []) = {(path_text ps, v) | ps v. leaf_at d ps v}"
  by (auto simp: set_walk_leaves_image leaves_of_def path_text_def)

text \<open>The parts of a path without a blank first part join back to it.\<close>

lemma foldl_child_path: "pre \<noteq> [] \<Longrightarrow> foldl child_path pre ps = pre @ concat (map (\<lambda>p. ''.'' @ p) ps)"
  by (induction ps arbitrary: pre) (auto simp: child_path_def)

end
