(* ===== verification/ConfListener.thy ===== *)
theory ConfListener
  imports ConfDoc SnmpClients
begin

text \<open>
  \<open>internal/conf/listener.go\<close>: where the daemons listen. What a \<open>listeners.<backend>.<name>\<close> may hold, its compact
  form, the listeners in effect, and which of them cannot be bound together. Also Python's equality and truth
  (\<open>internal/py\<close>), which the schema uses. A refusal is a value, one constructor per message.
\<close>

section \<open>Python's equality and truth\<close>

text \<open>The integer a float64 is, if it is one.\<close>

definition float_int :: "64 word \<Rightarrow> int option" where
  "float_int x =
     (let e = unat (take_bit 11 (drop_bit 52 x)); m = unat (take_bit 52 x);
          mm = int (if e = 0 then m else m + 2 ^ 52); k = (if e = 0 then 1 else e);
          sign = (if bit x 63 then - 1 else 1)
      in if e = 2047 then None
         else if k \<ge> 1075 then Some (sign * mm * 2 ^ (k - 1075))
         else if mm mod 2 ^ (1075 - k) = 0 then Some (sign * (mm div 2 ^ (1075 - k)))
         else None)"

definition float_eq :: "64 word \<Rightarrow> 64 word \<Rightarrow> bool" where
  "float_eq a b \<longleftrightarrow> \<not> float_nan a \<and> \<not> float_nan b \<and> (a = b \<or> take_bit 63 a = 0 \<and> take_bit 63 b = 0)"

fun num_int :: "yval \<Rightarrow> int option" where
  "num_int (YBool b) = Some (if b then 1 else 0)"
| "num_int (YInt i) = Some i"
| "num_int _ = None"

lemma size_pair_mem [termination_simp]: "(k, v) \<in> set m \<Longrightarrow> size v < Suc (size_list (size_prod (\<lambda>x. 0) size) m)"
  using size_list_estimation [of "(k, v)" m "size v" "size_prod (\<lambda>x. 0) size"] by (simp add: less_SucI)

function py_equal :: "yval \<Rightarrow> yval \<Rightarrow> bool" where
  "py_equal a b =
     (case (num_int a, num_int b) of
        (Some i, Some j) \<Rightarrow> i = j
      | _ \<Rightarrow>
        (case a of
           YNull \<Rightarrow> b = YNull
         | YBool _ \<Rightarrow> (case b of YFloat f \<Rightarrow> float_int f = num_int a | _ \<Rightarrow> False)
         | YInt _ \<Rightarrow> (case b of YFloat f \<Rightarrow> float_int f = num_int a | _ \<Rightarrow> False)
         | YFloat f \<Rightarrow> (case b of YFloat g \<Rightarrow> float_eq f g | _ \<Rightarrow> num_int b \<noteq> None \<and> float_int f = num_int b)
         | YStr s \<Rightarrow> b = YStr s
         | YDate y m d \<Rightarrow> b = YDate y m d
         | YMap x \<Rightarrow>
             (case b of
                YMap y \<Rightarrow> length x = length y \<and>
                  list_all (\<lambda>p. case yget y (fst p) of None \<Rightarrow> False | Some w \<Rightarrow> py_equal (snd p) w) x
              | _ \<Rightarrow> False)
         | YList x \<Rightarrow>
             (case b of
                YList y \<Rightarrow> length x = length y \<and> list_all (\<lambda>p. py_equal (fst p) (snd p)) (zip x y)
              | _ \<Rightarrow> False)))"
  by pat_completeness auto
termination
proof (relation "measure (\<lambda>(a, _). size a)")
  fix a b x y p w
  assume "a = YMap x" "p \<in> set x"
  then show "((snd p, w), a, b) \<in> measure (\<lambda>(a, _). size a)"
    using size_pair_mem [of "fst p" "snd p" x] by simp
next
  fix a b x y p
  assume "a = YList x" "p \<in> set (zip x y)"
  then show "((fst p, snd p), a, b) \<in> measure (\<lambda>(a, _). size a)"
    using set_zip_leftD [of "fst p" "snd p" x y] size_list_estimation' [of "fst p" x "size (fst p)" size]
    by (cases p) (simp add: less_Suc_eq_le)
qed auto

declare py_equal.simps [simp del]

definition py_true :: "yval \<Rightarrow> bool" where
  "py_true v =
     (case v of
        YNull \<Rightarrow> False
      | YBool b \<Rightarrow> b
      | YStr s \<Rightarrow> s \<noteq> []
      | YFloat f \<Rightarrow> take_bit 63 f \<noteq> 0
      | YMap m \<Rightarrow> m \<noteq> []
      | YInt i \<Rightarrow> i \<noteq> 0
      | YList l \<Rightarrow> l \<noteq> []
      | YDate _ _ _ \<Rightarrow> True)"

definition in_strings :: "yval \<Rightarrow> string list \<Rightarrow> bool" where
  "in_strings v xs = (case str_of_val v of None \<Rightarrow> False | Some s \<Rightarrow> s \<in> set xs)"

definition sorted_extra :: "ymap \<Rightarrow> string list \<Rightarrow> string list" where
  "sorted_extra m known = sort_strings (filter (\<lambda>k. k \<notin> set known) (ykeys m))"

section \<open>Listeners\<close>

text \<open>\<open>listener.go\<close>: the backends that listen, with the networks and roles they may have and the listeners
  that exist without being written down.\<close>

record listener_backend =
  lb_id :: string
  lb_networks :: "string list"
  lb_roles :: "string list"
  lb_defaults :: "(string \<times> ymap) list"

definition listener_backends :: "listener_backend list" where
  "listener_backends =
     [\<lparr>lb_id = ''tacacs'', lb_networks = [''tcp'', ''tcp6''], lb_roles = [''both''],
       lb_defaults = [(''default'', [(''network'', YStr ''tcp''), (''address'', YStr '':49'')])]\<rparr>,
      \<lparr>lb_id = ''radius'', lb_networks = [''udp'', ''udp6''], lb_roles = [''acct'', ''auth''],
       lb_defaults =
         [(''auth'', [(''network'', YStr ''udp''), (''address'', YStr '':1812''), (''role'', YStr ''auth'')]),
          (''acct'', [(''network'', YStr ''udp''), (''address'', YStr '':1813''), (''role'', YStr ''acct'')])]\<rparr>]"

definition listener_networks :: "string list" where
  "listener_networks = [''tcp'', ''tcp6'', ''udp'', ''udp6'']"

definition listener_roles :: "string list" where
  "listener_roles = [''auth'', ''acct'', ''both'']"

definition listener_keys :: "string list" where
  "listener_keys = [''network'', ''address'', ''role'', ''metrics_address'', ''tls'']"

definition listener_tls_keys :: "string list" where
  "listener_tls_keys = [''enabled'', ''cert'', ''key'', ''ca'', ''require_client_cert'']"

definition listener_backend_by_id :: "string \<Rightarrow> listener_backend option" where
  "listener_backend_by_id i = first_where (\<lambda>b. lb_id b = i) listener_backends"

definition default_value :: "listener_backend \<Rightarrow> string \<Rightarrow> ymap option" where
  "default_value b name = map_of (lb_defaults b) name"

definition listener_name :: "string \<Rightarrow> bool" where
  "listener_name s \<longleftrightarrow> s \<noteq> [] \<and> is_lower (hd s) \<and>
     list_all (\<lambda>c. is_lower c \<or> is_digit c \<or> c = CHR ''_'' \<or> c = CHR ''-'') (tl s) \<and> length s \<le> 32"

text \<open>\<open>SplitListenAddress\<close>: a bracketed or plain host, a colon and decimal digits of any script.\<close>

definition port_digits :: "pynum \<Rightarrow> string \<Rightarrow> bool" where
  "port_digits P s \<longleftrightarrow> s \<noteq> [] \<and> list_all (\<lambda>r. decimal_value P r \<noteq> None) (runes_of s)"

definition split_bracket :: "pynum \<Rightarrow> string \<Rightarrow> (string \<times> string) option" where
  "split_bracket P s =
     (if \<not> has_prefix s ''['' then None
      else case cut_at (CHR '']'') (drop 1 s) of
        (h, rest, found) \<Rightarrow>
          if found \<and> h \<noteq> [] \<and> has_prefix rest '':'' \<and> port_digits P (drop 1 rest) then Some (h, drop 1 rest) else None)"

definition split_plain :: "pynum \<Rightarrow> string \<Rightarrow> (string \<times> string) option" where
  "split_plain P s =
     (case cut_at (CHR '':'') s of
        (h, rest, found) \<Rightarrow> if found \<and> port_digits P rest then Some (h, rest) else None)"

definition split_listen_address :: "pynum \<Rightarrow> yval \<Rightarrow> (string \<times> int) option" where
  "split_listen_address P v =
     (case str_of_val v of
        None \<Rightarrow> None
      | Some s \<Rightarrow>
          (case (case split_bracket P s of Some m \<Rightarrow> Some m | None \<Rightarrow> split_plain P s) of
             None \<Rightarrow> None
           | Some (h, digits) \<Rightarrow>
               (case py_int P digits of
                  None \<Rightarrow> Some (h, - 1)
                | Some n \<Rightarrow> Some (h, if n > 2 ^ 20 then - 1 else n))))"

definition ip_address :: "string \<Rightarrow> network option" where
  "ip_address s = (if CHR ''/'' \<in> set s then None else parse_net s)"

datatype address_problem = NotHostPort | PortRange | NotAnIp string | WantsIpv4 string | WantsIpv6 string

definition listen_address_problem :: "pynum \<Rightarrow> string \<Rightarrow> yval \<Rightarrow> address_problem option" where
  "listen_address_problem P network addr =
     (case split_listen_address P addr of
        None \<Rightarrow> Some NotHostPort
      | Some (host, port) \<Rightarrow>
          if port < 1 \<or> port > 65535 then Some PortRange
          else if host \<noteq> [] then
            (case ip_address host of
               None \<Rightarrow> Some (NotAnIp host)
             | Some ip \<Rightarrow>
                 if (network = ''tcp'' \<or> network = ''udp'') \<and> n_v6 ip then Some (WantsIpv4 network)
                 else if (network = ''tcp6'' \<or> network = ''udp6'') \<and> \<not> n_v6 ip then Some (WantsIpv6 network)
                 else None)
          else None)"

datatype host_port_problem = HostPortNotString | HostPortShape | HostPortRange

definition host_text :: "string \<Rightarrow> bool" where
  "host_text h \<longleftrightarrow>
     list_all (\<lambda>c. is_letter c \<or> is_digit c \<or> c = CHR ''.'' \<or> c = CHR ''-'') h \<or>
     (length h > 2 \<and> hd h = CHR ''['' \<and> last h = CHR '']'' \<and>
      list_all (\<lambda>c. is_hex c \<or> c = CHR '':'' \<or> c = CHR ''.'') (butlast (tl h)))"

definition host_port_problem_of :: "pynum \<Rightarrow> yval \<Rightarrow> host_port_problem option" where
  "host_port_problem_of P v =
     (case str_of_val v of
        None \<Rightarrow> Some HostPortNotString
      | Some s \<Rightarrow>
          let digits = rev (takeWhile is_digit (rev s)); h = rev (drop 1 (dropWhile is_digit (rev s)))
          in if digits \<noteq> [] \<and> length digits \<le> 5 \<and> has_prefix (dropWhile is_digit (rev s)) '':'' \<and> host_text h
             then (case py_int P digits of Some n \<Rightarrow> if n > 65535 then Some HostPortRange else None | None \<Rightarrow> None)
             else Some HostPortShape)"

datatype listener_problem =
    NoSuchBackend string
  | ListenerNameShape
  | ListenerNotMapping
  | ListenerExtra "string list"
  | NetworkUnknown yval
  | NetworkNotOfBackend string yval
  | AddressRequired
  | AddressProblem yval address_problem
  | RoleUnknown yval
  | RoleNotOfBackend string yval
  | MetricsAddress host_port_problem
  | TlsNotMapping
  | TlsExtra "string list"
  | TlsNotBool string
  | TlsNotPath string
  | TlsReserved

definition or_default :: "yval option \<Rightarrow> string \<Rightarrow> yval" where
  "or_default v def = (case v of None \<Rightarrow> YStr def | Some w \<Rightarrow> w)"

definition is_bool :: "yval \<Rightarrow> bool" where
  "is_bool v = (case v of YBool _ \<Rightarrow> True | _ \<Rightarrow> False)"

definition tls_problem :: "yval \<Rightarrow> listener_problem option" where
  "tls_problem v =
     (case map_of_val v of
        None \<Rightarrow> Some TlsNotMapping
      | Some tls \<Rightarrow>
          if sorted_extra tls listener_tls_keys \<noteq> [] then Some (TlsExtra (sorted_extra tls listener_tls_keys))
          else (case first_where (\<lambda>k. yhas tls k \<and> \<not> is_bool (yval_at tls k)) [''enabled'', ''require_client_cert''] of
            Some k \<Rightarrow> Some (TlsNotBool k)
          | None \<Rightarrow>
              (case first_where (\<lambda>k. yhas tls k \<and> str_of_val (yval_at tls k) = None) [''cert'', ''key'', ''ca''] of
                 Some k \<Rightarrow> Some (TlsNotPath k)
               | None \<Rightarrow> if py_true (yval_at tls ''enabled'') then Some TlsReserved else None)))"

definition listener_problem_of :: "pynum \<Rightarrow> string \<Rightarrow> string \<Rightarrow> yval \<Rightarrow> listener_problem option" where
  "listener_problem_of P backend name v =
     (case listener_backend_by_id backend of
        None \<Rightarrow> Some (NoSuchBackend backend)
      | Some lb \<Rightarrow>
          if \<not> listener_name name then Some ListenerNameShape
          else case map_of_val v of
            None \<Rightarrow> Some ListenerNotMapping
          | Some m \<Rightarrow>
              if sorted_extra m listener_keys \<noteq> [] then Some (ListenerExtra (sorted_extra m listener_keys))
              else let network = or_default (yget m ''network'') (hd (lb_networks lb))
              in if \<not> in_strings network listener_networks then Some (NetworkUnknown network)
              else if \<not> in_strings network (lb_networks lb) then Some (NetworkNotOfBackend backend network)
              else (case yget m ''address'' of
                None \<Rightarrow> Some AddressRequired
              | Some addr \<Rightarrow>
                  (case listen_address_problem P (case str_of_val network of Some s \<Rightarrow> s | None \<Rightarrow> []) addr of
                     Some why \<Rightarrow> Some (AddressProblem addr why)
                   | None \<Rightarrow>
                       let role = or_default (yget m ''role'') (last (lb_roles lb))
                       in if \<not> in_strings role listener_roles then Some (RoleUnknown role)
                       else if \<not> in_strings role (lb_roles lb) then Some (RoleNotOfBackend backend role)
                       else let ma = yval_at m ''metrics_address''
                       in (case (if ma \<noteq> YNull \<and> \<not> py_equal ma (YStr []) then host_port_problem_of P ma else None) of
                             Some why \<Rightarrow> Some (MetricsAddress why)
                           | None \<Rightarrow>
                               if yval_at m ''tls'' \<noteq> YNull then tls_problem (yval_at m ''tls'') else None))))"

section \<open>The listeners in effect\<close>

record listener =
  l_name :: string
  l_network :: string
  l_address :: string
  l_role :: string
  l_metrics :: string
  l_cert :: string
  l_key :: string
  l_ca :: string
  l_client_cert :: bool

definition mget :: "yval \<Rightarrow> string \<Rightarrow> yval option" where
  "mget v k = (case map_of_val v of None \<Rightarrow> None | Some m \<Rightarrow> yget m k)"

definition str_or :: "yval option \<Rightarrow> string \<Rightarrow> string" where
  "str_or v def =
     (case v of None \<Rightarrow> def | Some w \<Rightarrow> if py_true w then (case str_of_val w of Some s \<Rightarrow> s | None \<Rightarrow> def) else def)"

definition listener_normalize :: "listener_backend \<Rightarrow> string \<Rightarrow> yval \<Rightarrow> listener" where
  "listener_normalize lb name v =
     (let tls = (case mget v ''tls'' of None \<Rightarrow> YMap [] | Some w \<Rightarrow> if py_true w then w else YMap [])
      in \<lparr>l_name = name,
          l_network = str_or (mget v ''network'') (hd (lb_networks lb)),
          l_address = (case mget v ''address'' of Some (YStr s) \<Rightarrow> s | _ \<Rightarrow> []),
          l_role = str_or (mget v ''role'') (last (lb_roles lb)),
          l_metrics = str_or (mget v ''metrics_address'') [],
          l_cert = str_or (mget tls ''cert'') [],
          l_key = str_or (mget tls ''key'') [],
          l_ca = str_or (mget tls ''ca'') [],
          l_client_cert = py_true (nil_if_none (mget tls ''require_client_cert''))\<rparr>)"

definition set_truthy :: "ymap \<Rightarrow> string \<times> yval \<Rightarrow> ymap" where
  "set_truthy m p = (if py_true (snd p) then yset m (fst p) (snd p) else m)"

definition compact_tls :: "listener \<Rightarrow> ymap" where
  "compact_tls l =
     foldl set_truthy []
       [(''cert'', YStr (l_cert l)), (''key'', YStr (l_key l)), (''ca'', YStr (l_ca l)),
        (''require_client_cert'', YBool (l_client_cert l))]"

definition listener_compact :: "listener_backend \<Rightarrow> yval \<Rightarrow> ymap" where
  "listener_compact lb v =
     (let full = listener_normalize lb [] v;
          out = ymake [(''network'', YStr (l_network full)), (''address'', YStr (l_address full))];
          out = (if l_role full \<noteq> last (lb_roles lb) then yset out ''role'' (YStr (l_role full)) else out);
          out = (if l_metrics full \<noteq> [] then yset out ''metrics_address'' (YStr (l_metrics full)) else out);
          tls = compact_tls full
      in if tls \<noteq> [] then yset out ''tls'' (YMap tls) else out)"

definition listeners_section :: "yval \<Rightarrow> yval option" where
  "listeners_section doc = mget doc ''listeners''"

definition own_listeners :: "yval \<Rightarrow> string \<Rightarrow> ymap" where
  "own_listeners doc backend =
     (let section = nil_if_none (listeners_section doc); section = (if py_true section then section else YMap [])
      in (case mget section backend of Some (YMap m) \<Rightarrow> m | _ \<Rightarrow> []))"

definition listener_names :: "listener_backend \<Rightarrow> ymap \<Rightarrow> string list" where
  "listener_names lb mine =
     map fst (lb_defaults lb) @ sort_strings (filter (\<lambda>n. default_value lb n = None) (ykeys mine))"

definition effective_value :: "pynum \<Rightarrow> listener_backend \<Rightarrow> ymap \<Rightarrow> string \<Rightarrow> yval option" where
  "effective_value P lb mine name =
     (let v = yval_at mine name
      in if v = YNull \<or> listener_problem_of P (lb_id lb) name v \<noteq> None
         then map_option YMap (default_value lb name) else Some v)"

definition listeners_effective :: "pynum \<Rightarrow> yval \<Rightarrow> listener_backend \<Rightarrow> listener list" where
  "listeners_effective P doc lb =
     (let mine = own_listeners doc (lb_id lb)
      in List.map_filter (\<lambda>n. map_option (listener_normalize lb n) (effective_value P lb mine n)) (listener_names lb mine))"

section \<open>Collisions\<close>

definition wildcard_hosts :: "string list" where
  "wildcard_hosts = [[], ''0.0.0.0'', ''::'']"

definition zero_net :: network where
  "zero_net = \<lparr>n_v6 = False, n_ip = mk128 0 0, n_plen = 0, n_scope = []\<rparr>"

definition address_text :: "string \<Rightarrow> string" where
  "address_text h = net_string (case ip_address h of Some n \<Rightarrow> n | None \<Rightarrow> zero_net)"

definition host_port_of :: "pynum \<Rightarrow> string \<Rightarrow> string \<times> int" where
  "host_port_of P s = (case split_listen_address P (YStr s) of Some hp \<Rightarrow> hp | None \<Rightarrow> ([], 0))"

definition binds_collide :: "pynum \<Rightarrow> listener \<Rightarrow> listener \<Rightarrow> bool" where
  "binds_collide P a b \<longleftrightarrow>
     (if take 3 (l_network a) \<noteq> take 3 (l_network b) then False
      else if take 3 (l_network a) = ''udp'' \<and> l_network a \<noteq> l_network b then False
      else let (ha, pa) = host_port_of P (l_address a); (hb, pb) = host_port_of P (l_address b)
           in if pa \<noteq> pb then False
              else if ha \<in> set wildcard_hosts \<or> hb \<in> set wildcard_hosts then True
              else address_text ha = address_text hb)"

datatype listeners_problem =
    ListenersNotMapping
  | BackendNotMapping string
  | EntryProblem string string listener_problem
  | Collision string listener string listener
  | MetricsTaken string string string

definition listener_path :: "string \<Rightarrow> string \<Rightarrow> string" where
  "listener_path backend name = ''listeners.'' @ backend @ ''.'' @ name"

fun problem_path :: "listeners_problem \<Rightarrow> string" where
  "problem_path ListenersNotMapping = ''listeners''"
| "problem_path (BackendNotMapping b) = ''listeners.'' @ b"
| "problem_path (EntryProblem b n _) = listener_path b n"
| "problem_path (Collision p _ _ _) = p"
| "problem_path (MetricsTaken p _ _) = p"

definition entry_problems :: "pynum \<Rightarrow> ymap \<Rightarrow> listeners_problem list" where
  "entry_problems P sm =
     concat (map (\<lambda>(backend, mine).
       (case map_of_val mine of
          None \<Rightarrow> [BackendNotMapping backend]
        | Some mm \<Rightarrow>
            List.map_filter (\<lambda>(name, v). map_option (EntryProblem backend name) (listener_problem_of P backend name v)) mm)) sm)"

text \<open>A path before a listener's: \<open>only\<close> is \<open>None\<close> for the whole document.\<close>

definition about_only :: "string option \<Rightarrow> string \<Rightarrow> bool" where
  "about_only only path = (case only of None \<Rightarrow> True | Some o' \<Rightarrow> has_prefix (path @ '':'') (o' @ '':''))"

definition pair_problems :: "pynum \<Rightarrow> string \<times> listener \<Rightarrow> string \<times> listener \<Rightarrow> listeners_problem list" where
  "pair_problems P x y =
     (if binds_collide P (snd x) (snd y) then [Collision (fst x) (snd x) (fst y) (snd y)] else []) @
     (if l_metrics (snd x) \<noteq> [] \<and> l_metrics (snd x) = l_metrics (snd y) \<and> cut_suffix (l_metrics (snd x)) '':0'' = None
      then [MetricsTaken (fst x) (l_metrics (snd x)) (fst y)] else [])"

definition against_seen :: "pynum \<Rightarrow> string option \<Rightarrow> string \<times> listener \<Rightarrow> string \<times> listener \<Rightarrow> listeners_problem list" where
  "against_seen P only x s =
     (case only of
        None \<Rightarrow> pair_problems P x s
      | Some p \<Rightarrow>
          if p \<noteq> fst x \<and> p \<noteq> fst s then []
          else if p = fst s then pair_problems P s x
          else pair_problems P x s)"

fun clash_problems :: "pynum \<Rightarrow> string option \<Rightarrow> (string \<times> listener) list \<Rightarrow> (string \<times> listener) list \<Rightarrow> listeners_problem list" where
  "clash_problems P only seen [] = []"
| "clash_problems P only seen (x # xs) =
     concat (map (against_seen P only x) seen) @ clash_problems P only (seen @ [x]) xs"

definition all_listeners :: "pynum \<Rightarrow> yval \<Rightarrow> (string \<times> listener) list" where
  "all_listeners P doc =
     concat (map (\<lambda>lb. map (\<lambda>l. (listener_path (lb_id lb) (l_name l), l)) (listeners_effective P doc lb)) listener_backends)"

definition listeners_problems :: "pynum \<Rightarrow> yval \<Rightarrow> string option \<Rightarrow> listeners_problem list" where
  "listeners_problems P doc only =
     (case (case nil_if_none (listeners_section doc) of YNull \<Rightarrow> Some [] | v \<Rightarrow> map_of_val v) of
        None \<Rightarrow> [ListenersNotMapping]
      | Some sm \<Rightarrow>
          filter (\<lambda>p. about_only only (problem_path p)) (entry_problems P sm) @
          clash_problems P only [] (all_listeners P doc))"

end
