(* ===== verification/ConfListenerProps.thy ===== *)
theory ConfListenerProps
  imports ConfDocProps ConfListener
begin

text \<open>
  The listeners of a document: the compact form of a valid listener is valid, two listeners collide in either
  order, and a document has no listener problem exactly when its section is well formed and no two of its
  listeners in effect collide.
\<close>

section \<open>The compact form\<close>

lemma backend_cases:
  assumes "listener_backend_by_id b = Some lb"
  obtains "b = ''tacacs''" "lb_id lb = b" "lb_networks lb = [''tcp'', ''tcp6'']" "lb_roles lb = [''both'']"
      "map fst (lb_defaults lb) = [''default'']"
  | "b = ''radius''" "lb_id lb = b" "lb_networks lb = [''udp'', ''udp6'']" "lb_roles lb = [''acct'', ''auth'']"
      "map fst (lb_defaults lb) = [''auth'', ''acct'']"
  using assms by (auto simp: listener_backend_by_id_def listener_backends_def split: if_splits)

lemma sorted_extra_Nil: "sorted_extra m known = [] \<longleftrightarrow> set (ykeys m) \<subseteq> set known"
proof -
  have "sort_strings xs = [] \<longleftrightarrow> set xs = {}" for xs
    by (metis set_empty set_sort_strings)
  then show ?thesis by (auto simp: sorted_extra_def filter_empty_conv)
qed

lemma in_strings_iff: "in_strings v xs \<longleftrightarrow> (\<exists>s \<in> set xs. v = YStr s)"
  by (cases v) (auto simp: in_strings_def)

lemma py_equal_blank: "py_equal v (YStr []) \<longleftrightarrow> v = YStr []"
  by (cases v) (auto simp: py_equal.simps [of _ "YStr []"])

definition metrics_ok :: "pynum \<Rightarrow> yval \<Rightarrow> bool" where
  "metrics_ok P v \<longleftrightarrow> v = YNull \<or> v = YStr [] \<or> host_port_problem_of P v = None"

definition tls_ok :: "yval \<Rightarrow> bool" where
  "tls_ok v \<longleftrightarrow> v = YNull \<or> tls_problem v = None"

definition fields_ok :: "pynum \<Rightarrow> listener_backend \<Rightarrow> ymap \<Rightarrow> string \<Rightarrow> string \<Rightarrow> string \<Rightarrow> bool" where
  "fields_ok P lb m net a role \<longleftrightarrow>
     or_default (yget m ''network'') (hd (lb_networks lb)) = YStr net \<and> net \<in> set listener_networks \<and>
     net \<in> set (lb_networks lb) \<and> yget m ''address'' = Some (YStr a) \<and>
     listen_address_problem P net (YStr a) = None \<and>
     or_default (yget m ''role'') (last (lb_roles lb)) = YStr role \<and> role \<in> set listener_roles \<and>
     role \<in> set (lb_roles lb) \<and> metrics_ok P (yval_at m ''metrics_address'') \<and> tls_ok (yval_at m ''tls'')"

lemma listen_address_str: "listen_address_problem P net v = None \<Longrightarrow> \<exists>a. v = YStr a"
  by (cases v) (simp_all add: listen_address_problem_def split_listen_address_def)

lemma listener_problem_None:
  assumes "listener_backend_by_id b = Some lb"
  shows "listener_problem_of P b n (YMap m) = None \<longleftrightarrow>
    listener_name n \<and> sorted_extra m listener_keys = [] \<and>
    (let network = or_default (yget m ''network'') (hd (lb_networks lb));
         role = or_default (yget m ''role'') (last (lb_roles lb)); ma = yval_at m ''metrics_address''
     in in_strings network listener_networks \<and> in_strings network (lb_networks lb) \<and>
        (\<exists>addr. yget m ''address'' = Some addr \<and>
           listen_address_problem P (case str_of_val network of Some s \<Rightarrow> s | None \<Rightarrow> []) addr = None) \<and>
        in_strings role listener_roles \<and> in_strings role (lb_roles lb) \<and>
        (ma = YNull \<or> ma = YStr [] \<or> host_port_problem_of P ma = None) \<and>
        (yval_at m ''tls'' = YNull \<or> tls_problem (yval_at m ''tls'') = None))"
  using assms
  by (simp add: listener_problem_of_def Let_def py_equal_blank split: option.split)

lemma listener_valid:
  assumes "listener_backend_by_id b = Some lb"
  shows "listener_problem_of P b n (YMap m) = None \<longleftrightarrow>
    listener_name n \<and> set (ykeys m) \<subseteq> set listener_keys \<and> (\<exists>net a role. fields_ok P lb m net a role)"
    (is "?l \<longleftrightarrow> ?r")
proof
  assume ?l
  note l = this [unfolded listener_problem_None [OF assms] Let_def in_strings_iff sorted_extra_Nil]
  then obtain net role addr where f: "or_default (yget m ''network'') (hd (lb_networks lb)) = YStr net"
      "or_default (yget m ''role'') (last (lb_roles lb)) = YStr role" "yget m ''address'' = Some addr"
      "listen_address_problem P net addr = None"
    by fastforce
  from listen_address_str [OF f(4)] obtain a where "addr = YStr a" ..
  with l f show ?r by (fastforce simp: fields_ok_def metrics_ok_def tls_ok_def)
next
  assume ?r
  with assms show ?l
    by (auto simp: listener_problem_None sorted_extra_Nil in_strings_iff fields_ok_def metrics_ok_def tls_ok_def Let_def)
qed

lemma listener_valid_map: "listener_problem_of P b n v = None \<Longrightarrow> \<exists>m lb. v = YMap m \<and> listener_backend_by_id b = Some lb"
  by (cases v) (auto simp: listener_problem_of_def split: option.splits if_splits)

lemma yget_set_truthy: "yget (set_truthy m p) k = (if k = fst p \<and> py_true (snd p) then Some (snd p) else yget m k)"
  by (simp add: set_truthy_def)

lemma keys_set_truthy: "set (ykeys (set_truthy m p)) \<subseteq> insert (fst p) (set (ykeys m))"
  by (auto simp: set_truthy_def ykeys_yset)

lemma keys_fold_truthy: "set (ykeys (foldl set_truthy m ps)) \<subseteq> set (map fst ps) \<union> set (ykeys m)"
  using keys_set_truthy by (induction ps arbitrary: m) fastforce+

lemma compact_tls_ok: "tls_problem (YMap (compact_tls l)) = None"
proof -
  have keys: "set (ykeys (compact_tls l)) \<subseteq> set listener_tls_keys"
    using keys_fold_truthy unfolding compact_tls_def by (rule subset_trans) (simp add: listener_tls_keys_def ykeys_def)
  have texts: "yhas (compact_tls l) k \<longrightarrow> str_of_val (yval_at (compact_tls l) k) \<noteq> None" if "k \<in> {''cert'', ''key'', ''ca''}" for k
    using that by (auto simp: yhas_def yval_at_def compact_tls_def yget_set_truthy)
  have bools: "yhas (compact_tls l) k \<longrightarrow> is_bool (yval_at (compact_tls l) k)" if "k \<in> {''enabled'', ''require_client_cert''}" for k
    using that by (auto simp: yhas_def yval_at_def compact_tls_def yget_set_truthy is_bool_def)
  have off: "\<not> py_true (yval_at (compact_tls l) ''enabled'')"
    by (simp add: yval_at_def compact_tls_def yget_set_truthy py_true_def)
  show ?thesis
    using keys off texts [of "''cert''"] texts [of "''key''"] texts [of "''ca''"]
      bools [of "''enabled''"] bools [of "''require_client_cert''"]
    by (simp add: tls_problem_def sorted_extra_Nil)
qed

lemma yget_compact:
  "yget (listener_compact lb v) k =
     (let full = listener_normalize lb [] v; tls = compact_tls full
      in if k = ''network'' then Some (YStr (l_network full))
         else if k = ''address'' then Some (YStr (l_address full))
         else if k = ''role'' \<and> l_role full \<noteq> last (lb_roles lb) then Some (YStr (l_role full))
         else if k = ''metrics_address'' \<and> l_metrics full \<noteq> [] then Some (YStr (l_metrics full))
         else if k = ''tls'' \<and> tls \<noteq> [] then Some (YMap tls) else None)"
  by (simp add: listener_compact_def ymake_def Let_def yget_Cons)

lemma keys_compact: "set (ykeys (listener_compact lb v)) \<subseteq> set listener_keys"
  unfolding subset_iff
proof (intro allI impI)
  fix k
  assume "k \<in> set (ykeys (listener_compact lb v))"
  then have "yget (listener_compact lb v) k \<noteq> None" by (simp only: yget_dom)
  then show "k \<in> set listener_keys" by (auto simp: yget_compact Let_def listener_keys_def split: if_splits)
qed

lemma str_or_text: "v = Some (YStr s) \<Longrightarrow> str_or v d = (if s = [] then d else s)"
  by (simp add: str_or_def py_true_def)

lemma str_or_default: "or_default v d = YStr s \<Longrightarrow> s \<noteq> [] \<Longrightarrow> str_or v d = s"
  by (cases v) (simp_all add: or_default_def str_or_def py_true_def)

lemma host_port_str: "host_port_problem_of P v = None \<Longrightarrow> \<exists>s. v = YStr s"
  by (cases v) (simp_all add: host_port_problem_of_def)

lemma metrics_compact: "metrics_ok P (yval_at m k) \<Longrightarrow> metrics_ok P (YStr (str_or (yget m k) []))"
  by (cases "yget m k"; cases "the (yget m k)")
    (auto simp: metrics_ok_def str_or_def py_true_def yval_at_def dest: host_port_str)

lemma compact_valid:
  assumes "listener_problem_of P b n v = None" "listener_backend_by_id b = Some lb"
  shows "listener_problem_of P b n (YMap (listener_compact lb v)) = None"
proof -
  obtain m where v: "v = YMap m" using listener_valid_map [OF assms(1)] by blast
  obtain net a role where ok: "listener_name n" "fields_ok P lb m net a role"
    using assms(1) unfolding v listener_valid [OF assms(2)] by blast
  note f = ok(2) [unfolded fields_ok_def]
  have ne: "net \<noteq> []" "role \<noteq> []" using f by (auto simp: listener_networks_def listener_roles_def)
  have full: "l_network (listener_normalize lb [] v) = net" "l_role (listener_normalize lb [] v) = role"
    "l_address (listener_normalize lb [] v) = a"
    "l_metrics (listener_normalize lb [] v) = str_or (yget m ''metrics_address'') []"
    using f ne str_or_default by (simp_all add: listener_normalize_def v mget_def Let_def)
  have "fields_ok P lb (listener_compact lb v) net a role"
    using f metrics_compact [of P m "''metrics_address''"] compact_tls_ok
    by (auto simp: fields_ok_def yget_compact full or_default_def yval_at_def tls_ok_def metrics_ok_def Let_def)
  with ok(1) keys_compact show ?thesis unfolding listener_valid [OF assms(2)] by blast
qed

section \<open>Collisions\<close>

lemma binds_collide_sym: "binds_collide P a b = binds_collide P b a"
  by (auto simp: binds_collide_def Let_def split: prod.split)

definition clash_free :: "pynum \<Rightarrow> string \<times> listener \<Rightarrow> string \<times> listener \<Rightarrow> bool" where
  "clash_free P x y \<longleftrightarrow> pair_problems P x y = []"

lemma clash_free_sym: "clash_free P x y = clash_free P y x"
  using binds_collide_sym [of P "snd x" "snd y"] by (auto simp: clash_free_def pair_problems_def)

text \<open>The pairs that \<open>only\<close> asks about.\<close>

definition asks_about :: "string option \<Rightarrow> string \<times> listener \<Rightarrow> string \<times> listener \<Rightarrow> bool" where
  "asks_about only x y \<longleftrightarrow> (case only of None \<Rightarrow> True | Some p \<Rightarrow> p = fst x \<or> p = fst y)"

lemma asks_about_sym: "asks_about only x y = asks_about only y x"
  by (auto simp: asks_about_def split: option.split)

lemma against_seen_Nil: "against_seen P only x s = [] \<longleftrightarrow> (asks_about only x s \<longrightarrow> clash_free P x s)"
  using clash_free_sym [of P x s] by (auto simp: against_seen_def asks_about_def clash_free_def split: option.split)

lemma clash_problems_seen:
  assumes "distinct (map fst (seen @ xs))"
  shows "clash_problems P only seen xs = [] \<longleftrightarrow>
    (\<forall>x \<in> set xs. \<forall>y \<in> set (seen @ xs). fst x \<noteq> fst y \<longrightarrow> asks_about only x y \<longrightarrow> clash_free P x y)"
  using assms
proof (induction xs arbitrary: seen)
  case (Cons x xs)
  have IH: "clash_problems P only (seen @ [x]) xs = [] \<longleftrightarrow>
      (\<forall>z \<in> set xs. \<forall>y \<in> set (seen @ x # xs). fst z \<noteq> fst y \<longrightarrow> asks_about only z y \<longrightarrow> clash_free P z y)"
    using Cons.IH [of "seen @ [x]"] Cons.prems by simp
  have new: "s \<in> set seen \<Longrightarrow> fst x \<noteq> fst s" for s using Cons.prems by force
  show ?case
    unfolding clash_problems.simps append_is_Nil_conv IH concat_eq_Nil_conv
    using new asks_about_sym [of only] clash_free_sym [of P] by (auto simp: against_seen_Nil)
qed simp

lemma clash_problems_Nil:
  "distinct (map fst xs) \<Longrightarrow> clash_problems P only [] xs = [] \<longleftrightarrow>
    (\<forall>x \<in> set xs. \<forall>y \<in> set xs. fst x \<noteq> fst y \<longrightarrow> asks_about only x y \<longrightarrow> clash_free P x y)"
  using clash_problems_seen [of "[]" xs] by simp

section \<open>The section of a document\<close>

abbreviation listener_at :: "ymap \<Rightarrow> string \<Rightarrow> string \<Rightarrow> yval option" where
  "listener_at d b n \<equiv> walk_parts (YMap d) [''listeners'', b, n]"

definition section_ok :: "pynum \<Rightarrow> ymap \<Rightarrow> bool" where
  "section_ok P d \<longleftrightarrow>
     (\<forall>v. yget d ''listeners'' = Some v \<longrightarrow> v = YNull \<or>
        (\<exists>sm. v = YMap sm \<and>
           (\<forall>b mine. yget sm b = Some mine \<longrightarrow>
              (\<exists>mm. mine = YMap mm \<and> (\<forall>n w. yget mm n = Some w \<longrightarrow> listener_problem_of P b n w = None)))))"

lemma map_filter_Nil: "List.map_filter f xs = [] \<longleftrightarrow> (\<forall>x \<in> set xs. f x = None)"
  by (induction xs) (auto simp: List.map_filter_simps split: option.split)

lemma entry_problems_Nil:
  assumes "wf_tree (YMap sm)"
  shows "entry_problems P sm = [] \<longleftrightarrow>
    (\<forall>b mine. yget sm b = Some mine \<longrightarrow>
       (\<exists>mm. mine = YMap mm \<and> (\<forall>n w. yget mm n = Some w \<longrightarrow> listener_problem_of P b n w = None)))"
proof -
  have one: "(case map_of_val mine of None \<Rightarrow> [BackendNotMapping b]
      | Some mm \<Rightarrow> List.map_filter (\<lambda>(n, v). map_option (EntryProblem b n) (listener_problem_of P b n v)) mm) = [] \<longleftrightarrow>
      (\<exists>mm. mine = YMap mm \<and> (\<forall>n w. yget mm n = Some w \<longrightarrow> listener_problem_of P b n w = None))"
    if "yget sm b = Some mine" for b mine
  proof (cases mine)
    case (YMap mm)
    then have "wf_ymap mm" using wf_tree_get [OF assms that] by (simp add: wf_tree.simps)
    then have "(\<forall>x \<in> set mm. listener_problem_of P b (fst x) (snd x) = None) \<longleftrightarrow>
        (\<forall>n w. yget mm n = Some w \<longrightarrow> listener_problem_of P b n w = None)"
      by (metis (no_types, lifting) fst_conv snd_conv prod.collapse yget_mem)
    then show ?thesis by (simp add: YMap map_filter_Nil case_prod_unfold)
  qed simp_all
  have mem: "(b, mine) \<in> set sm \<longleftrightarrow> yget sm b = Some mine" for b mine
    by (rule yget_mem [OF wf_tree_map [OF assms]])
  have all: "(\<forall>x \<in> set sm. Q x) \<longleftrightarrow> (\<forall>b mine. yget sm b = Some mine \<longrightarrow> Q (b, mine))" for Q
    using mem by (metis prod.collapse)
  show ?thesis
    unfolding entry_problems_def concat_eq_Nil_conv set_map ball_simps(9) all prod.case using one by simp
qed

lemma listeners_problems_Nil:
  assumes "wf_tree (YMap d)"
  shows "listeners_problems P (YMap d) None = [] \<longleftrightarrow>
    section_ok P d \<and> clash_problems P None [] (all_listeners P (YMap d)) = []"
proof (cases "yget d ''listeners''")
  case None
  then show ?thesis
    by (simp add: listeners_problems_def listeners_section_def mget_def nil_if_none_def section_ok_def entry_problems_def)
next
  case (Some v)
  have "v = YMap sm \<Longrightarrow> wf_tree (YMap sm)" for sm using wf_tree_get [OF assms Some] by simp
  moreover have "entry_problems P [] = []" by (simp add: entry_problems_def)
  ultimately show ?thesis using Some
    by (cases v) (simp_all add: listeners_problems_def listeners_section_def mget_def nil_if_none_def section_ok_def
        entry_problems_Nil about_only_def)
qed

lemma listeners_problems_only:
  "section_ok P d \<Longrightarrow> listeners_problems P (YMap d) (Some p) = [] \<Longrightarrow>
     clash_problems P (Some p) [] (all_listeners P (YMap d)) = []"
  by (auto simp: listeners_problems_def listeners_section_def mget_def nil_if_none_def section_ok_def
      split: option.splits yval.splits)

lemma section_ok_set:
  assumes "section_ok P d" "listener_problem_of P b n w = None"
  shows "section_ok P (set_parts d [''listeners'', b, n] w)"
proof -
  let ?sm = "submap (yget d ''listeners'')"
  have ok: "\<exists>mm. mine = YMap mm \<and> (\<forall>n w. yget mm n = Some w \<longrightarrow> listener_problem_of P b' n w = None)"
    if "yget ?sm b' = Some mine" for b' mine
    using assms(1) that by (auto simp: section_ok_def submap_def split: option.splits yval.splits)
  have "listener_problem_of P b m x = None" if "yget (submap (yget ?sm b)) m = Some x" for m x
    using ok [of b] that by (cases "yget ?sm b") (auto simp: submap_def)
  with ok assms(2) show ?thesis by (auto simp: section_ok_def)
qed

lemma section_ok_unset:
  assumes "section_ok P d" "unset_parts d [''listeners'', b, n] = Some d'"
  shows "section_ok P d'"
  using assms by (fastforce simp: section_ok_def split: option.splits yval.splits if_splits)

section \<open>The listeners in effect\<close>

lemma own_listeners_get: "yget (own_listeners (YMap d) b) n = listener_at d b n"
  by (auto simp: own_listeners_def listeners_section_def mget_def nil_if_none_def py_true_def
      split: option.split yval.split)

lemma own_listeners_walk: "own_listeners (YMap d) b = submap (walk_parts (YMap d) [''listeners'', b])"
  by (auto simp: own_listeners_def listeners_section_def mget_def nil_if_none_def py_true_def submap_def
      split: option.split yval.split)

lemma walk_wf: "wf_tree v \<Longrightarrow> walk_parts v ps = Some w \<Longrightarrow> wf_tree w"
  by (induction v ps rule: walk_parts.induct) (auto split: option.splits yval.splits dest: wf_tree_get elim!: map_of_val.elims)

lemma own_listeners_wf: "wf_tree (YMap d) \<Longrightarrow> wf_ymap (own_listeners (YMap d) b)"
  using walk_wf [of "YMap d" "[''listeners'', b]"] wf_tree_map
  by (auto simp del: walk_parts.simps simp: own_listeners_walk submap_def split: option.split yval.split)

declare walk_parts.simps(2) [simp del]

lemma own_listeners_keys: "n \<in> set (ykeys (own_listeners (YMap d) b)) \<longleftrightarrow> listener_at d b n \<noteq> None"
  by (simp only: own_listeners_get [symmetric] yget_dom)

text \<open>What one name contributes; it depends on the value at its path alone.\<close>

definition named_listener :: "pynum \<Rightarrow> listener_backend \<Rightarrow> string \<Rightarrow> yval option \<Rightarrow> (string \<times> listener) option" where
  "named_listener P lb n v =
     (if v = None \<and> default_value lb n = None then None
      else map_option (\<lambda>w. (listener_path (lb_id lb) n, listener_normalize lb n w))
        (let v = nil_if_none v
         in if v = YNull \<or> listener_problem_of P (lb_id lb) n v \<noteq> None
            then map_option YMap (default_value lb n) else Some v))"

lemma listener_names_set:
  "n \<in> set (listener_names lb mine) \<longleftrightarrow> default_value lb n \<noteq> None \<or> n \<in> set (ykeys mine)"
proof -
  have "default_value lb n \<noteq> None \<longleftrightarrow> n \<in> fst ` set (lb_defaults lb)"
    by (simp add: default_value_def map_of_eq_None_iff)
  then show ?thesis by (auto simp: listener_names_def)
qed

lemma listeners_of_backend:
  "map (\<lambda>l. (listener_path (lb_id lb) (l_name l), l)) (listeners_effective P (YMap d) lb) =
     List.map_filter (\<lambda>n. named_listener P lb n (listener_at d (lb_id lb) n))
       (listener_names lb (own_listeners (YMap d) (lb_id lb)))"
proof -
  have "map (\<lambda>l. (listener_path (lb_id lb) (l_name l), l))
      (List.map_filter (\<lambda>n. map_option (listener_normalize lb n) (effective_value P lb mine n)) ns) =
      List.map_filter (\<lambda>n. named_listener P lb n (yget mine n)) ns"
    if "\<forall>n \<in> set ns. default_value lb n \<noteq> None \<or> n \<in> set (ykeys mine)" for mine ns
    using that
  proof (induction ns)
    case (Cons n ns)
    then have "default_value lb n \<noteq> None \<or> yget mine n \<noteq> None" using yget_dom [of mine n] by auto
    then have e: "named_listener P lb n (yget mine n) = map_option (\<lambda>l. (listener_path (lb_id lb) (l_name l), l))
        (map_option (listener_normalize lb n) (effective_value P lb mine n))"
      by (auto simp: effective_value_def named_listener_def Let_def nil_if_none_def yval_at_def option.map_comp comp_def
          listener_normalize_def split: option.split)
    with Cons show ?case
      by (cases "effective_value P lb mine n") (simp_all add: List.map_filter_simps)
  qed (simp add: List.map_filter_simps)
  then show ?thesis
    by (simp add: listeners_effective_def own_listeners_get listener_names_set Let_def)
qed

lemma set_map_filter: "set (List.map_filter f xs) = {y. \<exists>x \<in> set xs. f x = Some y}"
  by (induction xs) (auto simp: List.map_filter_simps split: option.split)

lemma set_all_listeners:
  "set (all_listeners P (YMap d)) =
     {x. \<exists>lb \<in> set listener_backends. \<exists>n. named_listener P lb n (listener_at d (lb_id lb) n) = Some x}"
proof -
  have "n \<in> set (listener_names lb (own_listeners (YMap d) (lb_id lb)))"
    if "named_listener P lb n (listener_at d (lb_id lb) n) = Some x" for lb n x
    using that by (auto simp: named_listener_def listener_names_set own_listeners_keys split: if_splits)
  then show ?thesis
    unfolding all_listeners_def listeners_of_backend by (fastforce simp: set_map_filter)
qed

lemma named_path: "named_listener P lb n v = Some x \<Longrightarrow> fst x = listener_path (lb_id lb) n"
  by (auto simp: named_listener_def split: if_splits)

lemma listener_path_inject:
  assumes "listener_path (lb_id a) n = listener_path (lb_id b) m" "a \<in> set listener_backends" "b \<in> set listener_backends"
  shows "a = b \<and> n = m"
  using assms by (auto simp: listener_path_def listener_backends_def)

lemma distinct_listener_names: "lb \<in> set listener_backends \<Longrightarrow> wf_ymap mine \<Longrightarrow> distinct (listener_names lb mine)"
  by (auto simp: listener_names_def listener_backends_def default_value_def wf_ymap_def)

lemma distinct_map_filter_fst:
  assumes "distinct ns" "\<And>n x. f n = Some x \<Longrightarrow> fst x = g n" "inj g"
  shows "distinct (map fst (List.map_filter f ns))"
  using assms(1)
proof (induction ns)
  case (Cons n ns)
  have "g n \<notin> fst ` set (List.map_filter f ns)"
    using Cons.prems assms(2,3) by (auto simp: set_map_filter dest!: injD) (metis assms(2) assms(3) injD)
  with Cons assms(2) [of n] show ?case by (auto simp: List.map_filter_simps split: option.split)
qed (simp add: List.map_filter_simps)

lemma distinct_all_listeners:
  assumes "wf_tree (YMap d)"
  shows "distinct (map fst (all_listeners P (YMap d)))"
proof -
  obtain t r where lbs: "listener_backends = [t, r]" "t \<noteq> r" by (simp add: listener_backends_def)
  let ?l = "\<lambda>lb. List.map_filter (\<lambda>n. named_listener P lb n (listener_at d (lb_id lb) n))
       (listener_names lb (own_listeners (YMap d) (lb_id lb)))"
  have one: "distinct (map fst (?l lb))" if "lb \<in> set listener_backends" for lb
    by (rule distinct_map_filter_fst [where g = "listener_path (lb_id lb)"])
      (use that listener_path_inject [OF _ that that] in
        \<open>auto simp: distinct_listener_names own_listeners_wf [OF assms] named_path inj_def\<close>)
  have "fst ` set (?l t) \<inter> fst ` set (?l r) = {}"
  proof (rule equals0I)
    fix p
    assume "p \<in> fst ` set (?l t) \<inter> fst ` set (?l r)"
    then obtain n m where "listener_path (lb_id t) n = listener_path (lb_id r) m"
      by (auto simp: set_map_filter dest!: named_path)
    moreover have "t \<in> set listener_backends" "r \<in> set listener_backends" unfolding lbs(1) by simp_all
    ultimately show False using listener_path_inject [of t n r m] lbs(2) by blast
  qed
  moreover have "distinct (map fst (?l t))" "distinct (map fst (?l r))" by (rule one, unfold lbs(1), simp)+
  ultimately show ?thesis unfolding all_listeners_def listeners_of_backend lbs(1) by simp
qed

section \<open>A change of one listener\<close>

lemma all_listeners_elsewhere:
  assumes same: "\<And>b' n'. (b', n') \<noteq> (b, n) \<Longrightarrow> listener_at d' b' n' = listener_at d b' n'"
    and x: "x \<in> set (all_listeners P (YMap d'))" "fst x \<noteq> listener_path b n"
  shows "x \<in> set (all_listeners P (YMap d))"
proof -
  obtain lb m where lb: "lb \<in> set listener_backends" "named_listener P lb m (listener_at d' (lb_id lb) m) = Some x"
    using x(1) by (auto simp: set_all_listeners)
  then have "(lb_id lb, m) \<noteq> (b, n)" using x(2) named_path by fastforce
  then have "listener_at d' (lb_id lb) m = listener_at d (lb_id lb) m" by (rule same)
  with lb show ?thesis by (auto simp: set_all_listeners)
qed

text \<open>The check of the changed listener alone is enough for the whole document.\<close>

lemma clash_check_suffices:
  assumes "\<And>b' n'. (b', n') \<noteq> (b, n) \<Longrightarrow> listener_at d' b' n' = listener_at d b' n'"
    and wf: "wf_tree (YMap d)" "wf_tree (YMap d')"
    and before: "clash_problems P None [] (all_listeners P (YMap d)) = []"
    and check: "clash_problems P (Some (listener_path b n)) [] (all_listeners P (YMap d')) = []"
  shows "clash_problems P None [] (all_listeners P (YMap d')) = []"
  unfolding clash_problems_Nil [OF distinct_all_listeners [OF wf(2)]]
proof (intro ballI impI)
  fix x y
  assume xy: "x \<in> set (all_listeners P (YMap d'))" "y \<in> set (all_listeners P (YMap d'))" "fst x \<noteq> fst y"
  show "clash_free P x y"
  proof (cases "fst x = listener_path b n \<or> fst y = listener_path b n")
    case True
    with check xy show ?thesis
      unfolding clash_problems_Nil [OF distinct_all_listeners [OF wf(2)]] by (fastforce simp: asks_about_def)
  next
    case False
    then have "x \<in> set (all_listeners P (YMap d))" "y \<in> set (all_listeners P (YMap d))"
      using all_listeners_elsewhere [OF assms(1)] xy by blast+
    with before xy(3) show ?thesis
      unfolding clash_problems_Nil [OF distinct_all_listeners [OF wf(1)]] by (simp add: asks_about_def)
  qed
qed

end
