(* ===== verification/ConfSchema.thy ===== *)
theory ConfSchema
  imports ConfListener MgmtAcl
begin

text \<open>
  \<open>internal/conf/schema.go\<close> and the files of single settings beside it: which values \<open>tacctl.yaml\<close> may hold at
  which path. A refusal is a value of \<open>conf_problem\<close>, one constructor per message. What \<open>regexp.Compile\<close> says of a
  pattern and whether \<open>time.Parse\<close> takes a time are parameters.
\<close>

record schema_env =
  se_unicode :: unicode
  se_num :: pynum
  se_regex :: "string \<Rightarrow> string option"
  se_time :: "string \<Rightarrow> bool"

section \<open>The rules\<close>

datatype conf_type =
    CInt | CNullableString | CEnum | CAclName | CInterfaceName | CCidrList | CHostPort | CListener | CBackendList
  | CCiscoCmdList | CCommandRules | CJunosRegexList | CSudoCommandList | CBreakGlassList | CSnmpClients | CSnmpText
  | CBlockList | CBool | CServerAddresses | CServerName | CHoldAddress | CHoldSince | CHoldText
  | CLockdownGroups | CLockdownPending

definition list_types :: "conf_type list" where
  "list_types =
     [CCidrList, CCiscoCmdList, CCommandRules, CBackendList, CJunosRegexList, CSudoCommandList, CBreakGlassList,
      CSnmpClients, CBlockList, CLockdownGroups, CLockdownPending, CServerAddresses]"

record rule =
  r_type :: conf_type
  r_min :: "int option"
  r_max :: "int option"
  r_values :: "string list"
  r_default :: "yval option"
  r_depth :: nat
  r_tail :: string

definition plain_rule :: "conf_type \<Rightarrow> rule" where
  "plain_rule t = \<lparr>r_type = t, r_min = None, r_max = None, r_values = [], r_default = None, r_depth = 1, r_tail = []\<rparr>"

definition int_rule :: "int \<Rightarrow> int \<Rightarrow> rule" where
  "int_rule lo hi = (plain_rule CInt)\<lparr>r_min := Some lo, r_max := Some hi\<rparr>"

definition int_default :: "int \<Rightarrow> int \<Rightarrow> int \<Rightarrow> rule" where
  "int_default lo hi def = (int_rule lo hi)\<lparr>r_default := Some (YInt def)\<rparr>"

definition enum_rule :: "string list \<Rightarrow> rule" where
  "enum_rule vs = (plain_rule CEnum)\<lparr>r_values := vs\<rparr>"

definition enum_default :: "string list \<Rightarrow> string \<Rightarrow> rule" where
  "enum_default vs def = (enum_rule vs)\<lparr>r_default := Some (YStr def)\<rparr>"

definition acl_default :: "string \<Rightarrow> rule" where
  "acl_default def = (plain_rule CAclName)\<lparr>r_default := Some (YStr def)\<rparr>"

definition tailed :: "rule \<Rightarrow> string \<Rightarrow> rule" where
  "tailed r t = r\<lparr>r_tail := t\<rparr>"

definition deep :: "rule \<Rightarrow> rule" where
  "deep r = r\<lparr>r_depth := 2\<rparr>"

definition exact_rules :: "string list \<Rightarrow> (string \<times> rule) list" where
  "exact_rules backends =
     [(''password.max_age_days'', (plain_rule CInt)\<lparr>r_min := Some 1\<rparr>),
      (''password.min_length'', int_rule 8 64),
      (''secret.min_length'', int_rule 16 128),
      (''bcrypt.cost'', int_rule 10 14),
      (''scope.default'', plain_rule CNullableString),
      (''host.default_method'', enum_rule [''tacplus'', ''radius'']),
      (''linux.uid_min'', int_rule 1000 4294967293),
      (''linux.uid_max'', int_rule 1000 4294967293),
      (''mgmt_acl.names.cisco'', plain_rule CAclName),
      (''mgmt_acl.names.juniper'', plain_rule CAclName),
      (''mgmt_acl.permits'', plain_rule CCidrList),
      (''linux.engineer_sudo'', plain_rule CSudoCommandList),
      (''server.addresses'', plain_rule CServerAddresses),
      (''server.name'', plain_rule CServerName),
      (''backends.enabled'', (plain_rule CBackendList)\<lparr>r_values := backends, r_default := Some (YList [YStr ''tacacs''])\<rparr>),
      (''backends.tacacs.level'', int_default 0 100 20),
      (''backends.tacacs.metrics_address'', (plain_rule CHostPort)\<lparr>r_default := Some (YStr ''127.0.0.1:8080'')\<rparr>),
      (''snmp.version'', enum_rule [''v2c'', ''v3'']),
      (''snmp.port'', int_default 1 65535 161),
      (''snmp.timeout'', int_default 1 10 2),
      (''snmp.v3.auth'', enum_rule [''sha'', ''sha256'']),
      (''snmp.v3.priv'', enum_rule [''aes128'']),
      (''device.config.max_concurrency'', int_default 1 64 8),
      (''device.config.transport'', enum_default [''auto'', ''netconf'', ''ssh''] ''auto''),
      (''device.config.timeout'', int_default 10 600 90),
      (''device.config.confirm_timeout'', int_default 1 60 5),
      (''device.apply.confirm_timeout'', int_default 3 60 10),
      (''device.apply.pause'', int_default 0 3600 60),
      (''device.apply.transport'', enum_default [''auto'', ''cli'', ''netconf''] ''cli''),
      (''audit.strict'', (plain_rule CBool)\<lparr>r_default := Some (YBool False)\<rparr>),
      (''device.timeout_scale'', int_default 1 10 1),
      (''breakglass.firewall'', enum_default [''reject'', ''drop'', ''off''] ''reject''),
      (''reports.max_size'', int_default 0 report_max_size_cap (10 * 2 ^ 20)),
      (''reports.max_count'', int_default 0 report_max_count_cap 100)]"

definition wti_levels :: "string list" where
  "wti_levels = [''viewonly'', ''user'', ''superuser'', ''administrator'']"

definition conf_tiers :: "string list" where
  "conf_tiers = [''readonly'', ''operator'', ''engineer'', ''superuser'']"

definition mgmt_modes :: "string list" where
  "mgmt_modes = [''ssh-only'', ''strict'']"

definition snmp_scope_wildcards :: "(string \<times> rule) list" where
  "snmp_scope_wildcards =
     [(''snmp_scope.'', tailed (enum_rule [''v2c'', ''v3'']) ''version''),
      (''snmp_scope.'', tailed (int_rule 1 65535) ''port''),
      (''snmp_scope.'', tailed (int_rule 1 10) ''timeout''),
      (''snmp_scope.'', tailed (enum_rule [''sha'', ''sha256'']) ''v3.auth''),
      (''snmp_scope.'', tailed (enum_rule [''aes128'']) ''v3.priv''),
      (''snmp_scope.'', tailed (plain_rule CSnmpText) ''contact''),
      (''snmp_scope.'', tailed ((plain_rule CSnmpClients)\<lparr>r_default := Some (YList [])\<rparr>) ''clients'')]"

definition hold_wildcards :: "(string \<times> rule) list" where
  "hold_wildcards =
     [(''breakglass_hold.'', tailed (plain_rule CHoldAddress) ''address''),
      (''breakglass_hold.'', tailed (plain_rule CHoldSince) ''since''),
      (''breakglass_hold.'', tailed (plain_rule CHoldText) ''by''),
      (''breakglass_hold.'', tailed (plain_rule CHoldText) ''reason'')]"

definition lockdown_wildcards :: "(string \<times> rule) list" where
  "lockdown_wildcards =
     [(''emergency.lockdown.'', tailed (plain_rule CLockdownGroups) ''groups''),
      (''emergency.lockdown.'', tailed (plain_rule CHoldSince) ''since''),
      (''emergency.lockdown.'', tailed (plain_rule CHoldText) ''by''),
      (''emergency.lockdown.'', tailed (plain_rule CHoldText) ''reason''),
      (''emergency.lockdown.'', tailed (plain_rule CLockdownPending) ''pending'')]"

definition netconf_scope_wildcards :: "(string \<times> rule) list" where
  "netconf_scope_wildcards =
     [(''netconf_scope.'', tailed (enum_rule [''enable'', ''disable'']) ''state''),
      (''netconf_scope.'', tailed (int_rule 1 250) ''connection_limit''),
      (''netconf_scope.'', tailed (int_rule 1 250) ''rate_limit'')]"

definition timeout_scale_wildcards :: "(string \<times> rule) list" where
  "timeout_scale_wildcards = [(''timeout_scale_scope.'', int_rule 1 10)]"

definition wildcards :: "(string \<times> rule) list" where
  "wildcards =
     [(''privileges.'', plain_rule CCiscoCmdList),
      (''commands.'', plain_rule CCommandRules),
      (''aaa.order.'', enum_default [''tacacs-first'', ''local-first''] ''tacacs-first''),
      (''exec_timeout.'', int_default 0 60 60),
      (''tacacs_group.'', acl_default ''TACACS-GROUP''),
      (''radius_group.'', acl_default ''RADIUS-GROUP''),
      (''cisco.source_interface.'', plain_rule CInterfaceName),
      (''scope_auth_method.'', enum_rule [''tacacs'', ''radius'']),
      (''scope_mgmt_acl.names.cisco.'', acl_default ''VTY-ACL''),
      (''scope_mgmt_acl.names.juniper.'', acl_default ''MGMT-ACL''),
      (''scope_mgmt_acl.permits.'', (plain_rule CCidrList)\<lparr>r_default := Some (YList [])\<rparr>),
      (''scope_mgmt_acl.mode.'', enum_rule mgmt_modes),
      (''listeners.'', deep (plain_rule CListener)),
      (''junos.'', deep (plain_rule CJunosRegexList)),
      (''wti_level.'', enum_rule wti_levels),
      (''tier.'', enum_rule conf_tiers),
      (''breakglass_scope.'', deep (plain_rule CBreakGlassList)),
      (''blocks.'', deep (plain_rule CBlockList)),
      (''blocks_device.'', deep (plain_rule CBlockList))] @
     snmp_scope_wildcards @ hold_wildcards @ lockdown_wildcards @ netconf_scope_wildcards @ timeout_scale_wildcards"

text \<open>\<open>RuleFor\<close>: an exact key, else the first wildcard that fits.\<close>

definition wildcard_fits :: "string \<Rightarrow> string \<times> rule \<Rightarrow> bool" where
  "wildcard_fits path w \<longleftrightarrow>
     (if \<not> has_prefix path (fst w) then False
      else let rest = drop (length (fst w)) path
           in if r_tail (snd w) \<noteq> []
              then (case cut_suffix rest (''.'' @ r_tail (snd w)) of
                      None \<Rightarrow> False | Some name \<Rightarrow> name \<noteq> [] \<and> CHR ''.'' \<notin> set name)
              else let parts = path_parts rest in length parts = r_depth (snd w) \<and> [] \<notin> set parts)"

definition rule_for :: "string list \<Rightarrow> string \<Rightarrow> rule option" where
  "rule_for backends path =
     (case map_of (exact_rules backends) path of
        Some r \<Rightarrow> Some r
      | None \<Rightarrow> map_option snd (first_where (wildcard_fits path) wildcards))"

definition implicit_default :: "string list \<Rightarrow> string \<Rightarrow> yval option" where
  "implicit_default backends path =
     (case rule_for backends path of
        None \<Rightarrow> None
      | Some r \<Rightarrow>
          if r_type r = CListener then
            (let parts = path_parts path
             in (case listener_backend_by_id (parts ! 1) of
                   None \<Rightarrow> None
                 | Some b \<Rightarrow> map_option YMap (default_value b (parts ! 2))))
          else r_default r)"

section \<open>Problems\<close>

datatype text_problem =
    TextEmpty | TextNotUtf8 | TextTooLong nat | TextControl | TextBlank | TextQuestionMark | TextLength

datatype server_address_problem = NotIpAddress | Ipv4Mapped | BroadcastAddress | Unspecified | Loopback | LinkLocalOrMulticast

datatype elem_problem =
    ElNotString
  | ElBadAcl string acl_error
  | ElNotBackend yval
  | ElTwice yval
  | ElBadCommand string
  | ElTooLong nat
  | ElNotRule
  | ElRuleName yval
  | ElCatchallNotLast
  | ElAction yval
  | ElMatchNotList
  | ElMatchNotString nat
  | ElMatchRegex nat string
  | ElMatchDead nat string string
  | ElUnknownKeys "string list"
  | ElRegexEmpty string | ElRegexPerl string | ElRegexInvalid string
  | ElNotSudoCommand string | ElSudoTooLong string | ElSudoUnclean string
  | ElNotNameRole string | ElBreakGlassName string | ElBreakGlassRole string | ElRootNotAdmin string
  | ElNotBlock string
  | ElNotGroupName string
  | ElNotHostName string
  | ElSnmpClient string client_problem
  | ElServerAddress string server_address_problem

datatype conf_problem =
    UnknownKey
  | NoListInput conf_type
  | NeedsListInput conf_type
  | NotAnInteger
  | BelowMin int int
  | AboveMax int int
  | NotStringOrNull
  | PatternMismatch
  | NotTrueOrFalse
  | EnumNotString "string list"
  | EnumValue "string list" string
  | ValueNotString
  | NameLength nat nat nat
  | AclShape
  | InterfaceShape
  | WantsListOf conf_type
  | ListEmpty
  | ListTooLong nat nat
  | AtElement nat elem_problem
  | HostPortBad host_port_problem
  | ListenerBad listener_problem
  | CatchallCount nat
  | JunosAttrUnsupported string
  | JunosAttr
  | JunosTooLong string nat nat
  | OnlyUsersField
  | DeviceInKey
  | DeviceKeyCase string
  | ScopeInKey
  | VendorInKey
  | ServerAddressCount
  | ServerNameBad string server_name_problem
  | HoldNotOneAddress
  | HoldNotAddress
  | HoldNotCanonical string
  | NotATime
  | TextBad text_problem

end
