(* ===== verification/ConfValidate.thy ===== *)
theory ConfValidate
  imports ConfSchema
begin

text \<open>
  \<open>Schema.Validate\<close> of \<open>internal/conf/schema.go\<close>, with the checks of \<open>breakglass.go\<close>, \<open>breakglass_hold.go\<close>,
  \<open>blocks.go\<close>, \<open>junos.go\<close>, \<open>lockdown.go\<close>, \<open>serveraddr.go\<close> and \<open>snmp.go\<close> that it dispatches to, and the scan of
  the whole file behind \<open>config validate\<close> (\<open>validate.go\<close>).
\<close>

section \<open>Patterns and texts\<close>

definition chop_newline :: "string \<Rightarrow> string" where
  "chop_newline s = (if s \<noteq> [] \<and> last s = CHR 0x0A then butlast s else s)"

definition interface_types :: "string list" where
  "interface_types =
     [''Loopback'', ''GigabitEthernet'', ''TenGigabitEthernet'', ''TwentyFiveGigE'', ''FortyGigabitEthernet'',
      ''HundredGigE'', ''FastEthernet'', ''Ethernet'', ''Serial'', ''Vlan'', ''Port-channel'', ''Tunnel'', ''BVI'',
      ''Management'']"

fun interface_number :: "string \<Rightarrow> bool \<Rightarrow> bool" where
  "interface_number [] digit = digit"
| "interface_number (c # s) digit =
     (if is_digit c then interface_number s True
      else digit \<and> c \<in> set ''/.:'' \<and> interface_number s False)"

definition interface_name :: "string \<Rightarrow> bool" where
  "interface_name s \<longleftrightarrow> list_ex (\<lambda>t. has_prefix s t \<and> interface_number (drop (length t) s) False) interface_types"

function utf8_valid :: "string \<Rightarrow> bool" where
  "utf8_valid s =
     (if s = [] then True else let (r, w) = decode_rune s in \<not> (r = 0xFFFD \<and> w = 1) \<and> utf8_valid (drop w s))"
  by pat_completeness auto
termination
proof (relation "measure length", goal_cases)
  case (2 s x xa y)
  then show ?case using decode_rune_width [of s] by (cases s) (auto simp: prod_eq_iff)
qed simp

declare utf8_valid.simps [simp del]

definition has_control :: "nat \<Rightarrow> string \<Rightarrow> bool" where
  "has_control below s \<longleftrightarrow> list_ex (\<lambda>r. r < below \<or> r = 0x7F) (runes_of s)"

definition hold_reason_problem :: "string \<Rightarrow> text_problem option" where
  "hold_reason_problem s =
     (if trim_space s = [] then Some TextEmpty
      else if \<not> utf8_valid s then Some TextNotUtf8
      else if rune_count s > 256 then Some (TextTooLong 256)
      else if has_control 0x20 s then Some TextControl
      else None)"

definition hold_by_problem :: "string \<Rightarrow> text_problem option" where
  "hold_by_problem s =
     (if s = [] \<or> rune_count s > 64 then Some TextLength
      else if has_control 0x21 s then Some TextBlank
      else None)"

definition snmp_text_problem :: "string \<Rightarrow> text_problem option" where
  "snmp_text_problem s =
     (if s = [] \<or> trim_space s = [] then Some TextEmpty
      else if \<not> utf8_valid s then Some TextNotUtf8
      else if rune_count s > 120 then Some (TextTooLong 120)
      else if has_control 0x20 s then Some TextControl
      else if CHR ''?'' \<in> set s then Some TextQuestionMark
      else None)"

text \<open>\<open>cidr.Parse\<close> of an address without a slash, a percent sign or a space; the address part of its canonical form.\<close>

definition before_slash :: "string \<Rightarrow> string" where
  "before_slash s = rev (drop 1 (dropWhile (\<lambda>c. c \<noteq> CHR ''/'') (rev s)))"

definition hold_address_problem :: "string \<Rightarrow> conf_problem option" where
  "hold_address_problem s =
     (if list_ex (\<lambda>c. c \<in> set ''/% '') s then Some HoldNotOneAddress
      else case parse_net s of
        None \<Rightarrow> Some HoldNotAddress
      | Some n \<Rightarrow> let c = before_slash (net_string n) in if c \<noteq> s then Some (HoldNotCanonical c) else None)"

definition hold_problem :: "schema_env \<Rightarrow> conf_type \<Rightarrow> string \<Rightarrow> yval \<Rightarrow> conf_problem option" where
  "hold_problem E t path v =
     (case str_of_val v of
        None \<Rightarrow> Some ValueNotString
      | Some s \<Rightarrow>
          if t = CHoldAddress then hold_address_problem s
          else if t = CHoldSince then (if se_time E s then None else Some NotATime)
          else map_option TextBad (if cut_suffix path ''.reason'' \<noteq> None then hold_reason_problem s else hold_by_problem s))"

section \<open>Lists\<close>

text \<open>The first element, with its index, that the check refuses.\<close>

fun first_element :: "nat \<Rightarrow> ('a list \<Rightarrow> 'a \<Rightarrow> elem_problem option) \<Rightarrow> 'a list \<Rightarrow> 'a list \<Rightarrow> conf_problem option" where
  "first_element i f seen [] = None"
| "first_element i f seen (x # xs) =
     (case f seen x of Some p \<Rightarrow> Some (AtElement i p) | None \<Rightarrow> first_element (Suc i) f (seen @ [x]) xs)"

definition each :: "(yval list \<Rightarrow> yval \<Rightarrow> elem_problem option) \<Rightarrow> yval list \<Rightarrow> conf_problem option" where
  "each f items = first_element 0 f [] items"

definition string_elem :: "(string list \<Rightarrow> string \<Rightarrow> elem_problem option) \<Rightarrow> yval list \<Rightarrow> yval \<Rightarrow> elem_problem option" where
  "string_elem f seen x =
     (case str_of_val x of None \<Rightarrow> Some ElNotString | Some s \<Rightarrow> f (List.map_filter str_of_val seen) s)"

definition acl_elem :: "schema_env \<Rightarrow> string list \<Rightarrow> string \<Rightarrow> elem_problem option" where
  "acl_elem E seen s = map_option (ElBadAcl s) (acl_problem (se_unicode E) s)"

definition backend_elem :: "string list \<Rightarrow> yval list \<Rightarrow> yval \<Rightarrow> elem_problem option" where
  "backend_elem known seen x =
     (if \<not> in_strings x known then Some (ElNotBackend x)
      else if list_ex (\<lambda>p. py_equal p x) seen then Some (ElTwice x)
      else None)"

definition cisco_cmd_elem :: "string list \<Rightarrow> string \<Rightarrow> elem_problem option" where
  "cisco_cmd_elem seen s0 =
     (case split_priv_entry s0 of
        (_, cmd, ok) \<Rightarrow>
          let s = (if ok then cmd else s0)
          in if \<not> match_priv (chop_newline s) then Some (ElBadCommand s)
             else if rune_count s > 64 then Some (ElTooLong (rune_count s))
             else None)"

definition junos_elem :: "schema_env \<Rightarrow> string list \<Rightarrow> string \<Rightarrow> elem_problem option" where
  "junos_elem E seen s =
     (if trim_space s = [] then Some (ElRegexEmpty s)
      else if list_ex (\<lambda>i. has_prefix (drop i s) ''(?'') [0..<length s] then Some (ElRegexPerl s)
      else if se_regex E s \<noteq> None then Some (ElRegexInvalid s)
      else if s \<in> set seen then Some (ElTwice (YStr s))
      else None)"

definition sudo_command :: "string \<Rightarrow> bool" where
  "sudo_command s \<longleftrightarrow> length s \<ge> 2 \<and> hd s = CHR ''/'' \<and>
     list_all (\<lambda>c. is_letter c \<or> is_digit c \<or> c \<in> set ''._+/-'') (tl s)"

definition holds_text :: "string \<Rightarrow> string \<Rightarrow> bool" where
  "holds_text s t \<longleftrightarrow> list_ex (\<lambda>i. has_prefix (drop i s) t) [0..<Suc (length s)]"

definition sudo_elem :: "string list \<Rightarrow> string \<Rightarrow> elem_problem option" where
  "sudo_elem seen s =
     (if \<not> sudo_command s then Some (ElNotSudoCommand s)
      else if length s > 255 then Some (ElSudoTooLong s)
      else if holds_text (''/'' @ s @ ''/'') ''/../'' \<or> holds_text (''/'' @ s @ ''/'') ''/./'' \<or> holds_text s ''//'' \<or>
           cut_suffix s ''/'' \<noteq> None then Some (ElSudoUnclean s)
      else if s \<in> set seen then Some (ElTwice (YStr s))
      else None)"

definition break_glass_roles :: "string list" where
  "break_glass_roles = [''admin'', ''operator'', ''readonly'']"

definition break_glass_elem :: "unicode \<Rightarrow> string list \<Rightarrow> string \<Rightarrow> elem_problem option" where
  "break_glass_elem U seen s =
     (case cut_at (CHR '':'') s of
        (name, role, found) \<Rightarrow>
          if \<not> found then Some (ElNotNameRole s)
          else if \<not> match_break_glass name then Some (ElBreakGlassName name)
          else if role \<notin> set break_glass_roles then Some (ElBreakGlassRole name)
          else if name = ''root'' \<and> role \<noteq> ''admin'' then Some (ElRootNotAdmin name)
          else if to_lower U name \<in> set (map (\<lambda>t. to_lower U (fst (cut_at (CHR '':'') t))) seen) then Some (ElTwice (YStr name))
          else None)"

definition known_blocks :: "string list" where
  "known_blocks = [''snmp'', ''system'']"

definition block_elem :: "string list \<Rightarrow> string \<Rightarrow> elem_problem option" where
  "block_elem seen s =
     (if s \<notin> set known_blocks then Some (ElNotBlock s)
      else if s \<in> set seen then Some (ElTwice (YStr s))
      else None)"

definition group_elem :: "string list \<Rightarrow> string \<Rightarrow> elem_problem option" where
  "group_elem seen s =
     (if \<not> match_group s then Some (ElNotGroupName s)
      else if s \<in> set seen then Some (ElTwice (YStr s))
      else None)"

definition host_name :: "string \<Rightarrow> bool" where
  "host_name s \<longleftrightarrow> s \<noteq> [] \<and> is_letter (hd s) \<and>
     list_all (\<lambda>c. is_letter c \<or> is_digit c \<or> c \<in> set ''._-'') (tl s) \<and> length s \<le> 253"

definition pending_elem :: "string list \<Rightarrow> string \<Rightarrow> elem_problem option" where
  "pending_elem seen s =
     (if \<not> host_name s then Some (ElNotHostName s)
      else if s \<in> set seen then Some (ElTwice (YStr s))
      else None)"

definition snmp_client_elem :: "string list \<Rightarrow> string \<Rightarrow> elem_problem option" where
  "snmp_client_elem seen s =
     (case snmp_client_problem s of
        Some why \<Rightarrow> Some (ElSnmpClient s why)
      | None \<Rightarrow> if s \<in> set seen then Some (ElTwice (YStr s)) else None)"

text \<open>A list of strings: first that every element is one, then each of them (\<open>SNMPClientsProblem\<close>).\<close>

definition snmp_clients_problem :: "yval list \<Rightarrow> conf_problem option" where
  "snmp_clients_problem items =
     (case each (string_elem (\<lambda>_ _. None)) items of
        Some p \<Rightarrow> Some p
      | None \<Rightarrow>
          if length items > max_snmp_clients then Some (ListTooLong max_snmp_clients (length items))
          else each (string_elem snmp_client_elem) items)"

definition junos_arg :: "string \<Rightarrow> string" where
  "junos_arg attr = map (\<lambda>c. if c = CHR ''_'' then CHR ''-'' else c) attr"

definition junos_limit :: "string \<Rightarrow> nat" where
  "junos_limit attr = 255 - length (junos_arg attr) - 1"

definition junos_value :: "string list \<Rightarrow> string" where
  "junos_value items = join ''|'' (map (\<lambda>it. ''('' @ it @ '')'') items)"

definition junos_attrs :: "string list" where
  "junos_attrs = [''deny_commands'', ''deny_configuration'']"

definition last_segment :: "string \<Rightarrow> string" where
  "last_segment path = last (path_parts path)"

definition junos_list_problem :: "schema_env \<Rightarrow> string \<Rightarrow> yval list \<Rightarrow> conf_problem option" where
  "junos_list_problem E path items =
     (let attr = last_segment path
      in if attr \<notin> set junos_attrs then
           (if has_prefix attr ''allow_'' then Some (JunosAttrUnsupported attr) else Some JunosAttr)
         else case each (string_elem (junos_elem E)) items of
           Some p \<Rightarrow> Some p
         | None \<Rightarrow>
             let n = length (junos_value (List.map_filter str_of_val items))
             in if n > junos_limit attr then Some (JunosTooLong (junos_arg attr) n (junos_limit attr)) else None)"

definition break_glass_list_problem :: "unicode \<Rightarrow> string \<Rightarrow> yval list \<Rightarrow> conf_problem option" where
  "break_glass_list_problem U path items =
     (if last_segment path \<noteq> ''users'' then Some OnlyUsersField
      else if items = [] then Some ListEmpty
      else if length items > 16 then Some (ListTooLong 16 (length items))
      else each (string_elem (break_glass_elem U)) items)"

text \<open>\<open>HoldKey\<close> and \<open>HoldDevice\<close>: a device's name as one segment of a path.\<close>

definition hold_key :: "string \<Rightarrow> string" where
  "hold_key device = map (\<lambda>c. if c = CHR ''.'' then CHR ''~'' else c) device"

definition hold_device :: "string \<Rightarrow> string" where
  "hold_device key = map (\<lambda>c. if c = CHR ''~'' then CHR ''.'' else c) key"

definition device_name_ok :: "string \<Rightarrow> bool" where
  "device_name_ok s \<longleftrightarrow> s \<noteq> [] \<and> (is_letter (hd s) \<or> is_digit (hd s)) \<and>
     list_all (\<lambda>c. is_letter c \<or> is_digit c \<or> c \<in> set ''._-'') (tl s) \<and> length s \<le> 253 \<and>
     \<not> holds_text s ''..'' \<and> cut_suffix s ''.'' = None"

definition blocks_device_key :: "unicode \<Rightarrow> string \<Rightarrow> string" where
  "blocks_device_key U device = hold_key (to_lower U device)"

definition block_vendors :: "string list" where
  "block_vendors = [''juniper'', ''cisco'']"

definition block_items_problem :: "string \<Rightarrow> yval list \<Rightarrow> conf_problem option" where
  "block_items_problem vendor items =
     (if vendor \<notin> set block_vendors then Some VendorInKey
      else if items = [] then Some ListEmpty
      else each (string_elem block_elem) items)"

definition block_list_problem :: "unicode \<Rightarrow> string \<Rightarrow> yval list \<Rightarrow> conf_problem option" where
  "block_list_problem U path items =
     (if has_prefix path ''blocks_device.'' then
        (case cut_at (CHR ''.'') (drop (length ''blocks_device.'') path) of
           (key, vendor, _) \<Rightarrow>
             if \<not> device_name_ok (hold_device key) then Some DeviceInKey
             else if key \<noteq> blocks_device_key U (hold_device key) then Some (DeviceKeyCase (blocks_device_key U (hold_device key)))
             else block_items_problem vendor items)
      else
        (case cut_at (CHR ''.'') (if has_prefix path ''blocks.'' then drop (length ''blocks.'') path else path) of
           (scope, vendor, _) \<Rightarrow>
             if \<not> match_scope scope then Some ScopeInKey else block_items_problem vendor items))"

definition bounded_list_problem :: "nat \<Rightarrow> (string list \<Rightarrow> string \<Rightarrow> elem_problem option) \<Rightarrow> yval list \<Rightarrow> conf_problem option" where
  "bounded_list_problem bound f items =
     (if items = [] then Some ListEmpty
      else if length items > bound then Some (ListTooLong bound (length items))
      else each (string_elem f) items)"

text \<open>\<open>netip.ParseAddr\<close> of an address without a zone: the family and the bits.\<close>

definition netip_addr :: "string \<Rightarrow> (bool \<times> u128) option" where
  "netip_addr s =
     (case ip4 s of
        Some a \<Rightarrow> Some (False, mk128 0 (ucast a))
      | None \<Rightarrow> map_option (\<lambda>a. (True, a)) (ip6_addr s))"

definition server_address_problem_of :: "string \<Rightarrow> server_address_problem option" where
  "server_address_problem_of s =
     (case netip_addr (trim_space s) of
        None \<Rightarrow> Some NotIpAddress
      | Some (v6, a) \<Rightarrow>
          let hi = u_hi a; lo = u_lo a
          in if v6 \<and> hi = 0 \<and> drop_bit 32 lo = 0xFFFF then Some Ipv4Mapped
             else if \<not> v6 \<and> lo = 0xFFFFFFFF then Some BroadcastAddress
             else if hi = 0 \<and> lo = 0 then Some Unspecified
             else if (if v6 then hi = 0 \<and> lo = 1 else drop_bit 24 lo = 127) then Some Loopback
             else if (if v6 then drop_bit 54 hi = 0x3FA \<or> drop_bit 56 hi = 0xFF
                      else drop_bit 16 lo = 0xA9FE \<or> drop_bit 28 lo = 0xE) then Some LinkLocalOrMulticast
             else None)"

definition server_addresses_problem :: "yval list \<Rightarrow> conf_problem option" where
  "server_addresses_problem items =
     (if items = [] then Some ListEmpty
      else if length items > 1 then Some ServerAddressCount
      else each (string_elem (\<lambda>_ s. map_option (ElServerAddress s) (server_address_problem_of s))) items)"

section \<open>Command rules\<close>

fun match_problem :: "schema_env \<Rightarrow> string \<Rightarrow> nat \<Rightarrow> yval list \<Rightarrow> elem_problem option" where
  "match_problem E name j [] = None"
| "match_problem E name j (mv # mvs) =
     (case str_of_val mv of
        None \<Rightarrow> Some (ElMatchNotString j)
      | Some rx \<Rightarrow>
          (case se_regex E rx of
             Some why \<Rightarrow> Some (ElMatchRegex j why)
           | None \<Rightarrow>
               if command_match_is_dead name rx then Some (ElMatchDead j rx name) else match_problem E name (Suc j) mvs))"

definition rule_problem :: "schema_env \<Rightarrow> bool \<Rightarrow> yval \<Rightarrow> elem_problem option" where
  "rule_problem E is_last item =
     (case map_of_val item of
        None \<Rightarrow> Some ElNotRule
      | Some m \<Rightarrow>
          (case str_of_val (yval_at m ''name'') of
             None \<Rightarrow> Some (ElRuleName (yval_at m ''name''))
           | Some name \<Rightarrow>
               if \<not> (match_cmd (chop_newline name) \<or> chop_newline name = ''*'') then Some (ElRuleName (YStr name))
               else if name = ''*'' \<and> \<not> is_last then Some ElCatchallNotLast
               else if \<not> in_strings (yval_at m ''action'') [''permit'', ''deny''] then Some (ElAction (yval_at m ''action''))
               else (case (if yval_at m ''match'' = YNull then Some [] else list_of_val (yval_at m ''match'')) of
                  None \<Rightarrow> Some ElMatchNotList
                | Some matches \<Rightarrow>
                    (case match_problem E name 0 matches of
                       Some p \<Rightarrow> Some p
                     | None \<Rightarrow>
                         let extra = sorted_extra m [''name'', ''action'', ''match'']
                         in if extra \<noteq> [] then Some (ElUnknownKeys extra) else None))))"

fun rules_problem_from :: "schema_env \<Rightarrow> nat \<Rightarrow> yval list \<Rightarrow> conf_problem option" where
  "rules_problem_from E i [] = None"
| "rules_problem_from E i (x # xs) =
     (case rule_problem E (xs = []) x of Some p \<Rightarrow> Some (AtElement i p) | None \<Rightarrow> rules_problem_from E (Suc i) xs)"

definition is_catchall :: "yval \<Rightarrow> bool" where
  "is_catchall v = (case map_of_val v of Some m \<Rightarrow> yval_at m ''name'' = YStr ''*'' | None \<Rightarrow> False)"

definition command_rules_problem :: "schema_env \<Rightarrow> yval list \<Rightarrow> conf_problem option" where
  "command_rules_problem E items =
     (if items = [] then Some ListEmpty
      else case rules_problem_from E 0 items of
        Some p \<Rightarrow> Some p
      | None \<Rightarrow>
          let n = length (filter is_catchall items) in if n \<noteq> 1 then Some (CatchallCount n) else None)"

section \<open>\<open>Validate\<close>\<close>

definition with_items :: "conf_type \<Rightarrow> (yval list \<Rightarrow> conf_problem option) \<Rightarrow> yval \<Rightarrow> conf_problem option" where
  "with_items t f v = (case list_of_val v of None \<Rightarrow> Some (WantsListOf t) | Some items \<Rightarrow> f items)"

definition with_text :: "(string \<Rightarrow> conf_problem option) \<Rightarrow> yval \<Rightarrow> conf_problem option" where
  "with_text f v = (case str_of_val v of None \<Rightarrow> Some ValueNotString | Some s \<Rightarrow> f s)"

definition int_problem :: "rule \<Rightarrow> yval \<Rightarrow> conf_problem option" where
  "int_problem r v =
     (case v of
        YInt n \<Rightarrow>
          (case r_min r of
             Some lo \<Rightarrow>
               if n < lo then Some (BelowMin lo n)
               else (case r_max r of Some hi \<Rightarrow> if n > hi then Some (AboveMax hi n) else None | None \<Rightarrow> None)
           | None \<Rightarrow> (case r_max r of Some hi \<Rightarrow> if n > hi then Some (AboveMax hi n) else None | None \<Rightarrow> None))
      | _ \<Rightarrow> Some NotAnInteger)"

definition type_problem :: "schema_env \<Rightarrow> rule \<Rightarrow> string \<Rightarrow> yval \<Rightarrow> conf_problem option" where
  "type_problem E r path v =
     (case r_type r of
        CInt \<Rightarrow> int_problem r v
      | CNullableString \<Rightarrow>
          (case v of
             YNull \<Rightarrow> None
           | YStr s \<Rightarrow> if \<not> match_scope (chop_newline s) then Some PatternMismatch else None
           | _ \<Rightarrow> Some NotStringOrNull)
      | CBool \<Rightarrow> if is_bool v then None else Some NotTrueOrFalse
      | CEnum \<Rightarrow>
          (case str_of_val v of
             None \<Rightarrow> Some (EnumNotString (r_values r))
           | Some s \<Rightarrow> if s \<notin> set (r_values r) then Some (EnumValue (r_values r) s) else None)
      | CAclName \<Rightarrow>
          with_text (\<lambda>s. let n = rune_count s
            in if n < 1 \<or> n > 63 then Some (NameLength 1 63 n)
               else if \<not> match_acl (chop_newline s) then Some AclShape else None) v
      | CInterfaceName \<Rightarrow>
          with_text (\<lambda>s. let n = rune_count s
            in if n < 2 \<or> n > 63 then Some (NameLength 2 63 n)
               else if \<not> interface_name s then Some InterfaceShape else None) v
      | CCidrList \<Rightarrow> with_items CCidrList (each (string_elem (acl_elem E))) v
      | CHostPort \<Rightarrow> map_option HostPortBad (host_port_problem_of (se_num E) v)
      | CListener \<Rightarrow>
          map_option ListenerBad (listener_problem_of (se_num E) (path_parts path ! 1) (path_parts path ! 2) v)
      | CBackendList \<Rightarrow> with_items CBackendList (\<lambda>items. if items = [] then Some ListEmpty else each (backend_elem (r_values r)) items) v
      | CCiscoCmdList \<Rightarrow> with_items CCiscoCmdList (each (string_elem cisco_cmd_elem)) v
      | CCommandRules \<Rightarrow> with_items CCommandRules (command_rules_problem E) v
      | CJunosRegexList \<Rightarrow> with_items CJunosRegexList (junos_list_problem E path) v
      | CBreakGlassList \<Rightarrow> with_items CBreakGlassList (break_glass_list_problem (se_unicode E) path) v
      | CBlockList \<Rightarrow> with_items CBlockList (block_list_problem (se_unicode E) path) v
      | CLockdownGroups \<Rightarrow> with_items CLockdownGroups (bounded_list_problem 64 group_elem) v
      | CLockdownPending \<Rightarrow> with_items CLockdownPending (bounded_list_problem 4096 pending_elem) v
      | CHoldAddress \<Rightarrow> hold_problem E CHoldAddress path v
      | CHoldSince \<Rightarrow> hold_problem E CHoldSince path v
      | CHoldText \<Rightarrow> hold_problem E CHoldText path v
      | CSnmpClients \<Rightarrow> with_items CSnmpClients snmp_clients_problem v
      | CSnmpText \<Rightarrow> with_text (\<lambda>s. map_option TextBad (snmp_text_problem s)) v
      | CServerAddresses \<Rightarrow> with_items CServerAddresses server_addresses_problem v
      | CServerName \<Rightarrow> with_text (\<lambda>s. map_option (ServerNameBad s) (server_name_problem_of s)) v
      | CSudoCommandList \<Rightarrow> with_items CSudoCommandList (\<lambda>items. if items = [] then Some ListEmpty else each (string_elem sudo_elem) items) v)"

definition validate :: "schema_env \<Rightarrow> string list \<Rightarrow> string \<Rightarrow> yval \<Rightarrow> bool \<Rightarrow> conf_problem option" where
  "validate E backends path v is_list =
     (case rule_for backends path of
        None \<Rightarrow> Some UnknownKey
      | Some r \<Rightarrow>
          if is_list \<and> r_type r \<notin> set list_types then Some (NoListInput (r_type r))
          else if \<not> is_list \<and> r_type r \<in> set list_types then Some (NeedsListInput (r_type r))
          else type_problem E r path v)"

definition is_list_val :: "yval \<Rightarrow> bool" where
  "is_list_val v = (list_of_val v \<noteq> None)"

text \<open>\<open>ValidateFile\<close>, of the mapping the file holds: the leaves outside \<open>listeners\<close>, then the listeners.\<close>

datatype file_problem = LeafProblem string conf_problem | ListenersProblem listeners_problem

definition validate_overrides :: "schema_env \<Rightarrow> string list \<Rightarrow> ymap \<Rightarrow> file_problem list" where
  "validate_overrides E backends d =
     List.map_filter (\<lambda>(p, v). map_option (LeafProblem p) (validate E backends p v (is_list_val v)))
       (walk_leaves (filter (\<lambda>p. fst p \<noteq> ''listeners'') d) []) @
     map ListenersProblem (listeners_problems (se_num E) (YMap d) None)"

end
