(* ===== verification/ConfFile.thy ===== *)
theory ConfFile
  imports ConfValidate StoreFile
begin

text \<open>
  The writes of \<open>internal/conf/write.go\<close> and \<open>rollback.go\<close>: what one process does to \<open>tacctl.yaml\<close> while it holds
  the lock, with what the operating system does as a record of outcomes. The directory, the steps of a
  replacement and \<open>EmitChecked\<close> are those of the store file; the emitter and the reader of YAML are parameters of
  which nothing is assumed, and so is the defaults document.
\<close>

section \<open>Reading\<close>

text \<open>\<open>ReadOverrides\<close>: the mapping, and whether the file cannot be used.\<close>

definition read_overrides :: "yaml_lib \<Rightarrow> io \<Rightarrow> directory \<Rightarrow> ymap \<times> bool" where
  "read_overrides Y io D =
     (if d_store D = None then ([], False)
      else case read_file (io_load io) D of
        None \<Rightarrow> ([], True)
      | Some data \<Rightarrow>
          (case y_read Y data of
             Inl _ \<Rightarrow> ([], True)
           | Inr YNull \<Rightarrow> ([], False)
           | Inr (YMap m) \<Rightarrow> (m, False)
           | Inr _ \<Rightarrow> ([], True)))"

text \<open>\<open>Reload\<close>, and \<open>View\<close> over a merged view read elsewhere.\<close>

definition reload :: "yaml_lib \<Rightarrow> io \<Rightarrow> ymap \<Rightarrow> directory \<Rightarrow> conf_view" where
  "reload Y io dflt D =
     (case read_overrides Y io D of
        (o', problem) \<Rightarrow>
          \<lparr>cv_overrides = o', cv_problem = problem, cv_missing = (d_store D = None), cv_merged = conf_merge dflt o'\<rparr>)"

section \<open>Errors and outcomes\<close>

record conf_io =
  ci_mkdir :: bool
  ci_apply_lock :: bool
  ci_dir_lock :: bool
  ci_remove :: bool
  ci_dir_close :: bool
  ci_io :: io

datatype conf_error =
    MkdirFailed
  | ApplyLockFailed
  | DirLockFailed
  | ParseRefused
  | ValueRefused string conf_problem
  | ListenerClash string listeners_problem
  | BadJson string
  | CheckRefused string
  | RemoveFailed
  | EmitFailed store_error
  | ReplaceFailed store_error
  | DirCloseFailed

definition conf_header :: string where
  "conf_header =
     ''# tacctl overrides. Hand-edits are fine as long as the YAML stays'' @ [CHR 0x0A] @
     ''# valid. View effective posture: '' @ [CHR 0x27] @ ''tacctl config dump'' @ [CHR 0x27] @ ''.'' @ [CHR 0x0A, CHR 0x0A]"

section \<open>Writing\<close>

definition conf_steps :: "write_step list" where
  "conf_steps = [CreateTemp, WriteTemp, SyncTemp, ChmodTemp, CloseTemp, RenameTemp]"

definition sync_dir :: "conf_io \<Rightarrow> directory \<Rightarrow> conf_error option \<times> directory" where
  "sync_dir c D = ((if ci_dir_close c then None else Some DirCloseFailed), D)"

definition conf_replace :: "conf_io \<Rightarrow> string \<Rightarrow> directory \<Rightarrow> conf_error option \<times> directory" where
  "conf_replace c data D =
     (case run_steps (ci_io c) data conf_steps D of
        (Some e, D') \<Rightarrow> (Some (ReplaceFailed e), D')
      | (None, D') \<Rightarrow> sync_dir c D')"

text \<open>The end of \<open>write\<close>, \<open>edit\<close> and \<open>UnsetMany\<close>: the file goes with its last override.\<close>

definition put_overrides :: "yaml_lib \<Rightarrow> conf_io \<Rightarrow> ymap \<Rightarrow> directory \<Rightarrow> conf_error option \<times> directory" where
  "put_overrides Y c d D =
     (if d = [] then
        (if d_store D = None then sync_dir c D
         else if ci_remove c then sync_dir c (D\<lparr>d_store := None\<rparr>)
         else (Some RemoveFailed, D))
      else case emit_checked Y (YMap d) conf_header of
        Inl e \<Rightarrow> (Some (EmitFailed e), D)
      | Inr text \<Rightarrow> conf_replace c text D)"

text \<open>A read-modify-write: \<open>fn\<close> says what the overrides become, \<open>None\<close> where nothing is to be written.\<close>

definition conf_edit ::
  "yaml_lib \<Rightarrow> conf_io \<Rightarrow> (ymap \<Rightarrow> conf_error + ymap option) \<Rightarrow> directory \<Rightarrow> conf_error option \<times> directory" where
  "conf_edit Y c fn D =
     (if \<not> ci_mkdir c then (Some MkdirFailed, D)
      else if \<not> ci_apply_lock c then (Some ApplyLockFailed, D)
      else if \<not> ci_dir_lock c then (Some DirLockFailed, D)
      else case read_overrides Y (ci_io c) D of
        (o', problem) \<Rightarrow>
          if problem then (Some ParseRefused, D)
          else case fn o' of
            Inl e \<Rightarrow> (Some e, D)
          | Inr None \<Rightarrow> (None, D)
          | Inr (Some d) \<Rightarrow> put_overrides Y c d D)"

section \<open>One value\<close>

definition default_for :: "ymap \<Rightarrow> string list \<Rightarrow> string \<Rightarrow> yval option" where
  "default_for dflt backends path =
     (let v = get_nested dflt path in if v \<noteq> YNull then Some v else implicit_default backends path)"

text \<open>A value that equals the default is not stored; without a default the value is compared with null.\<close>

definition store_value :: "ymap \<Rightarrow> string list \<Rightarrow> ymap \<Rightarrow> string \<Rightarrow> yval \<Rightarrow> ymap" where
  "store_value dflt backends d path v =
     (if py_equal (nil_if_none (default_for dflt backends path)) v then unset_nested d path else set_nested d path v)"

datatype write_mode = ModeSet | ModeSetList | ModeSetJson | ModeUnset

text \<open>The check of \<open>write\<close>, and the value it stores: a listener in its compact form.\<close>

definition checked_value ::
  "schema_env \<Rightarrow> string list \<Rightarrow> write_mode \<Rightarrow> string \<Rightarrow> yval \<Rightarrow> string option \<Rightarrow> conf_error + yval" where
  "checked_value E backends mode path v json_err =
     (case mode of
        ModeUnset \<Rightarrow> Inr v
      | ModeSetJson \<Rightarrow>
          (case json_err of
             Some why \<Rightarrow> Inl (BadJson why)
           | None \<Rightarrow>
               (case validate E backends path v (is_list_val v) of
                  Some p \<Rightarrow> Inl (ValueRefused path p)
                | None \<Rightarrow>
                    Inr (case rule_for backends path of
                       Some r \<Rightarrow>
                         if r_type r = CListener
                         then (case listener_backend_by_id (path_parts path ! 1) of
                                 Some lb \<Rightarrow> YMap (listener_compact lb v) | None \<Rightarrow> v)
                         else v
                     | None \<Rightarrow> v)))
      | _ \<Rightarrow>
          (case validate E backends path v (mode = ModeSetList) of
             Some p \<Rightarrow> Inl (ValueRefused path p) | None \<Rightarrow> Inr v))"

definition conf_change ::
  "schema_env \<Rightarrow> ymap \<Rightarrow> string list \<Rightarrow> write_mode \<Rightarrow> string \<Rightarrow> yval \<Rightarrow> string option \<Rightarrow> ymap \<Rightarrow> conf_error + ymap option" where
  "conf_change E dflt backends mode path v json_err d =
     (case checked_value E backends mode path v json_err of
        Inl e \<Rightarrow> Inl e
      | Inr w \<Rightarrow>
          let d' = (if mode = ModeUnset then unset_nested d path else store_value dflt backends d path w);
              clash = (if has_prefix path ''listeners.'' \<and> mode \<noteq> ModeUnset
                       then listeners_problems (se_num E) (YMap d') (Some path) else [])
          in (case clash of p # _ \<Rightarrow> Inl (ListenerClash path p) | [] \<Rightarrow> Inr (Some d')))"

definition conf_write ::
  "yaml_lib \<Rightarrow> schema_env \<Rightarrow> ymap \<Rightarrow> string list \<Rightarrow> conf_io \<Rightarrow> write_mode \<Rightarrow> string \<Rightarrow> yval \<Rightarrow> string option \<Rightarrow> directory \<Rightarrow>
     conf_error option \<times> directory" where
  "conf_write Y E dflt backends c mode path v json_err D =
     conf_edit Y c (conf_change E dflt backends mode path v json_err) D"

definition conf_set ::
  "yaml_lib \<Rightarrow> schema_env \<Rightarrow> ymap \<Rightarrow> string list \<Rightarrow> conf_io \<Rightarrow> string \<Rightarrow> string \<Rightarrow> directory \<Rightarrow> conf_error option \<times> directory" where
  "conf_set Y E dflt backends c path text D =
     conf_write Y E dflt backends c ModeSet path (coerce_scalar (se_num E) (se_unicode E) text) None D"

definition conf_set_list ::
  "yaml_lib \<Rightarrow> schema_env \<Rightarrow> ymap \<Rightarrow> string list \<Rightarrow> conf_io \<Rightarrow> string \<Rightarrow> string list \<Rightarrow> directory \<Rightarrow> conf_error option \<times> directory" where
  "conf_set_list Y E dflt backends c path items D =
     conf_write Y E dflt backends c ModeSetList path (YList (map YStr items)) None D"

definition conf_set_value ::
  "yaml_lib \<Rightarrow> schema_env \<Rightarrow> ymap \<Rightarrow> string list \<Rightarrow> conf_io \<Rightarrow> string \<Rightarrow> yval \<Rightarrow> directory \<Rightarrow> conf_error option \<times> directory" where
  "conf_set_value Y E dflt backends c path v D = conf_write Y E dflt backends c ModeSetJson path v None D"

definition conf_unset ::
  "yaml_lib \<Rightarrow> schema_env \<Rightarrow> ymap \<Rightarrow> string list \<Rightarrow> conf_io \<Rightarrow> string \<Rightarrow> directory \<Rightarrow> conf_error option \<times> directory" where
  "conf_unset Y E dflt backends c path D = conf_write Y E dflt backends c ModeUnset path YNull None D"

section \<open>Several values\<close>

fun first_refusal :: "schema_env \<Rightarrow> string list \<Rightarrow> (string \<times> yval) list \<Rightarrow> conf_error option" where
  "first_refusal E backends [] = None"
| "first_refusal E backends ((p, v) # ps) =
     (case validate E backends p v (is_list_val v) of
        Some why \<Rightarrow> Some (ValueRefused p why) | None \<Rightarrow> first_refusal E backends ps)"

definition values_change ::
  "schema_env \<Rightarrow> ymap \<Rightarrow> string list \<Rightarrow> (string \<times> yval) list \<Rightarrow> (ymap \<Rightarrow> string option) \<Rightarrow> ymap \<Rightarrow> conf_error + ymap option" where
  "values_change E dflt backends pairs check d =
     (case check d of
        Some why \<Rightarrow> Inl (CheckRefused why)
      | None \<Rightarrow>
          (case first_refusal E backends pairs of
             Some e \<Rightarrow> Inl e
           | None \<Rightarrow> Inr (Some (foldl (\<lambda>d p. store_value dflt backends d (fst p) (snd p)) d pairs))))"

definition set_values_if ::
  "yaml_lib \<Rightarrow> schema_env \<Rightarrow> ymap \<Rightarrow> string list \<Rightarrow> conf_io \<Rightarrow> (string \<times> yval) list \<Rightarrow> (ymap \<Rightarrow> string option) \<Rightarrow> directory \<Rightarrow>
     conf_error option \<times> directory" where
  "set_values_if Y E dflt backends c pairs check D = conf_edit Y c (values_change E dflt backends pairs check) D"

text \<open>\<open>UnsetMany\<close>: the directory must exist; otherwise an edit that removes what is there.\<close>

definition unset_many_change :: "string list \<Rightarrow> ymap \<Rightarrow> conf_error + ymap option" where
  "unset_many_change paths d =
     (let step = (\<lambda>(changed, d) p. (changed \<or> get_nested d p \<noteq> YNull \<or> has_leaf d p, unset_nested d p));
          (changed, d') = foldl step (False, d) paths
      in Inr (if changed then Some d' else None))"

definition unset_many :: "yaml_lib \<Rightarrow> conf_io \<Rightarrow> string list \<Rightarrow> directory \<Rightarrow> conf_error option \<times> directory" where
  "unset_many Y c paths D = conf_edit Y (c\<lparr>ci_mkdir := True\<rparr>) (unset_many_change paths) D"

end
