(* ===== verification/ConfFileProps.thy ===== *)
theory ConfFileProps
  imports ConfListenerProps ConfFile
begin

text \<open>
  What the writes of \<open>internal/conf/write.go\<close> keep: the validity of the file, and the directory where a write fails.
\<close>

section \<open>The rules\<close>

lemma hd_split_append: "c \<in> set s \<Longrightarrow> hd (split_on c (s @ t)) = hd (split_on c s)"
proof (induction s)
  case (Cons x s)
  show ?case
  proof (cases "x = c")
    case False
    with Cons have "c \<in> set s" by simp
    obtain v vs w ws where "split_on c (s @ t) = v # vs" "split_on c s = w # ws"
      by (metis list.exhaust split_on_nonempty)
    with Cons.IH [OF \<open>c \<in> set s\<close>] False show ?thesis by simp
  qed simp
qed simp

lemmas rule_shapes =
  plain_rule_def int_rule_def int_default_def enum_rule_def enum_default_def acl_default_def tailed_def deep_def

definition exact_ok :: "string \<times> rule \<Rightarrow> bool" where
  "exact_ok x \<longleftrightarrow> r_type (snd x) \<noteq> CListener \<and> hd (path_parts (fst x)) \<noteq> [] \<and> hd (path_parts (fst x)) \<noteq> ''listeners''"

lemma exact_rule_head: "(p, r) \<in> set (exact_rules backends) \<Longrightarrow> exact_ok (p, r)"
proof -
  have "list_all exact_ok (exact_rules backends)"
    by (simp add: exact_rules_def exact_ok_def path_parts_def rule_shapes)
  then show "(p, r) \<in> set (exact_rules backends) \<Longrightarrow> exact_ok (p, r)" by (auto simp: list_all_iff)
qed

definition wildcard_ok :: "string \<times> rule \<Rightarrow> bool" where
  "wildcard_ok x \<longleftrightarrow>
     CHR ''.'' \<in> set (fst x) \<and> hd (path_parts (fst x)) \<noteq> [] \<and>
     (hd (path_parts (fst x)) = ''listeners'' \<longleftrightarrow> r_type (snd x) = CListener) \<and>
     (r_type (snd x) = CListener \<longrightarrow> fst x = ''listeners.'' \<and> r_tail (snd x) = [] \<and> r_depth (snd x) = 2)"

lemma wildcard_head: "(p, r) \<in> set wildcards \<Longrightarrow> wildcard_ok (p, r)"
proof -
  have "list_all wildcard_ok wildcards"
    by (simp add: wildcards_def snmp_scope_wildcards_def hold_wildcards_def lockdown_wildcards_def
      netconf_scope_wildcards_def timeout_scale_wildcards_def path_parts_def rule_shapes wildcard_ok_def)
  then show "(p, r) \<in> set wildcards \<Longrightarrow> wildcard_ok (p, r)" by (auto simp: list_all_iff)
qed

lemma rule_for_cases:
  assumes "rule_for backends path = Some r"
  obtains "(path, r) \<in> set (exact_rules backends)"
  | p where "(p, r) \<in> set wildcards" "wildcard_fits path (p, r)"
  using assms first_where_Some [of "wildcard_fits path" wildcards]
  by (auto simp: rule_for_def map_of_SomeD split: option.splits)

lemma wildcard_fits_prefix: "wildcard_fits path w \<Longrightarrow> \<exists>rest. path = fst w @ rest"
  by (auto simp: wildcard_fits_def has_prefix_def split: if_splits) (metis append_take_drop_id)

lemma rule_head:
  assumes "rule_for backends path = Some r"
  shows "hd (path_parts path) \<noteq> []" "hd (path_parts path) = ''listeners'' \<longleftrightarrow> r_type r = CListener"
proof -
  have "hd (path_parts path) \<noteq> [] \<and> (hd (path_parts path) = ''listeners'' \<longleftrightarrow> r_type r = CListener)"
    using assms
  proof (cases rule: rule_for_cases)
    case 1
    then show ?thesis using exact_rule_head by (auto simp: exact_ok_def)
  next
    case (2 p)
    obtain rest where path: "path = p @ rest" using wildcard_fits_prefix [OF 2(2)] by auto
    note w = wildcard_head [OF 2(1), unfolded wildcard_ok_def fst_conv snd_conv]
    then have "hd (path_parts path) = hd (path_parts p)"
      unfolding path path_parts_def by (intro hd_split_append) simp
    with w show ?thesis by simp
  qed
  then show "hd (path_parts path) \<noteq> []" "hd (path_parts path) = ''listeners'' \<longleftrightarrow> r_type r = CListener" by auto
qed

lemma has_prefix_append: "has_prefix s p \<longleftrightarrow> (\<exists>rest. s = p @ rest)"
  unfolding has_prefix_def by (metis append_eq_conv_conj append_take_drop_id)

lemma listeners_parts: "path_parts (''listeners.'' @ rest) = ''listeners'' # path_parts rest"
  using split_on_append_sep [of "CHR ''.''" "''listeners''" rest] by (simp add: path_parts_def)

lemma listener_rule:
  assumes "rule_for backends path = Some r" "r_type r = CListener"
  obtains b n where "path = listener_path b n" "path_parts path = [''listeners'', b, n]"
  using assms(1)
proof (cases rule: rule_for_cases)
  case 1
  with assms(2) exact_rule_head show ?thesis by (auto simp: exact_ok_def)
next
  case (2 p)
  note w = wildcard_head [OF 2(1), unfolded wildcard_ok_def fst_conv snd_conv]
  with assms(2) have p: "p = ''listeners.''" "r_tail r = []" "r_depth r = 2" by auto
  obtain rest where path: "path = p @ rest" using wildcard_fits_prefix [OF 2(2)] by auto
  have "has_prefix (''listeners.'' @ rest) ''listeners.''" by (simp add: has_prefix_def)
  with 2(2) have len: "length (path_parts rest) = 2"
    unfolding path p(1) wildcard_fits_def Let_def by (simp add: p)
  then obtain b n where bn: "path_parts rest = [b, n]" by (auto simp: numeral_2_eq_2 length_Suc_conv)
  then have "rest = b @ ''.'' @ n" using join_split [of "CHR ''.''" rest] by (simp add: path_parts_def)
  moreover have "path_parts path = ''listeners'' # path_parts rest"
    unfolding path p(1) by (rule listeners_parts)
  ultimately show ?thesis using that [of b n] bn by (simp add: path p listener_path_def)
qed

lemma listeners_prefix: "has_prefix path ''listeners.'' \<Longrightarrow> hd (path_parts path) = ''listeners''"
  unfolding has_prefix_append by (elim exE) (simp only: listeners_parts list.sel)

section \<open>Accepted values\<close>

lemma with_items_None: "with_items t f v = None \<Longrightarrow> \<exists>l. v = YList l"
  by (cases v) (auto simp: with_items_def)

lemma type_problem_list: "type_problem E r path v = None \<Longrightarrow> r_type r \<in> set list_types \<Longrightarrow> \<exists>l. v = YList l"
  by (cases "r_type r"; simp add: type_problem_def list_types_def; drule with_items_None; assumption)

lemma type_problem_no_list: "type_problem E r path (YList l) = None \<Longrightarrow> r_type r \<in> set list_types"
  by (cases "r_type r"; simp add: type_problem_def list_types_def with_text_def int_problem_def hold_problem_def
      is_bool_def host_port_problem_of_def listener_problem_of_def split: option.splits if_splits)

lemma type_problem_no_map: "type_problem E r path (YMap m) = None \<Longrightarrow> r_type r = CListener"
  by (cases "r_type r"; simp add: type_problem_def with_items_def with_text_def int_problem_def hold_problem_def
      is_bool_def host_port_problem_of_def)

lemma type_problem_shape:
  assumes "type_problem E r path v = None"
  shows "is_list_val v \<longleftrightarrow> r_type r \<in> set list_types" "r_type r \<noteq> CListener \<Longrightarrow> map_of_val v = None"
  using assms type_problem_list [OF assms] type_problem_no_list [of E r path] type_problem_no_map [of E r path]
  by (cases v; auto simp: is_list_val_def)+

lemma validate_Some:
  assumes "validate E backends path v b = None"
  obtains r where "rule_for backends path = Some r" "type_problem E r path v = None"
  using assms by (auto simp: validate_def split: option.splits if_splits)

lemma validate_is_list: "validate E backends path v b = None \<Longrightarrow> validate E backends path v (is_list_val v) = None"
  by (erule validate_Some) (simp add: validate_def type_problem_shape)

section \<open>The file as leaves and listeners\<close>

lemma parallel_hd: "ps \<noteq> [] \<Longrightarrow> qs \<noteq> [] \<Longrightarrow> hd ps \<noteq> hd qs \<Longrightarrow> parallel ps qs"
  by (cases ps; cases qs) (auto simp: parallel_def)

lemma yget_walk: "yget d k = walk_parts (YMap d) [k]"
  by (simp add: walk_parts_Cons split: option.split)

lemma yget_set_other: "ps \<noteq> [] \<Longrightarrow> hd ps \<noteq> k \<Longrightarrow> yget (set_parts d ps v) k = yget d k"
  unfolding yget_walk by (rule walk_set_other) (simp add: parallel_hd)

lemma yget_unset_other: "unset_parts d ps = Some d' \<Longrightarrow> ps \<noteq> [] \<Longrightarrow> hd ps \<noteq> k \<Longrightarrow> yget d' k = yget d k"
  unfolding yget_walk by (rule walk_unset_other) (auto intro: parallel_hd)

lemma listeners_problems_cong:
  "yget d' ''listeners'' = yget d ''listeners'' \<Longrightarrow> listeners_problems P (YMap d') only = listeners_problems P (YMap d) only"
proof -
  assume same: "yget d' ''listeners'' = yget d ''listeners''"
  then have "own_listeners (YMap d') = own_listeners (YMap d)"
    by (intro ext) (simp add: own_listeners_def listeners_section_def mget_def)
  then have all: "all_listeners P (YMap d') = all_listeners P (YMap d)"
    by (simp add: all_listeners_def listeners_effective_def)
  show ?thesis unfolding listeners_problems_def all by (simp add: same listeners_section_def mget_def)
qed

definition leaves_valid :: "schema_env \<Rightarrow> string list \<Rightarrow> ymap \<Rightarrow> bool" where
  "leaves_valid E backends d \<longleftrightarrow>
     (\<forall>ps v. leaf_at d ps v \<longrightarrow> hd ps \<noteq> ''listeners'' \<longrightarrow> validate E backends (path_text ps) v (is_list_val v) = None)"

lemma leaf_at_ydel: "leaf_at (ydel d k) ps v \<longleftrightarrow> leaf_at d ps v \<and> hd ps \<noteq> k"
  by (cases ps) (auto simp: leaf_at_def walk_parts_Cons split: if_splits)

lemma validate_overrides_Nil:
  assumes "wf_tree (YMap d)"
  shows "validate_overrides E backends d = [] \<longleftrightarrow>
    leaves_valid E backends d \<and> listeners_problems (se_num E) (YMap d) None = []"
proof -
  have "filter (\<lambda>p. fst p \<noteq> ''listeners'') d = ydel d ''listeners''" by (simp add: ydel_def)
  moreover have "set (walk_leaves (ydel d ''listeners'') []) =
      {(path_text ps, v) | ps v. leaf_at d ps v \<and> hd ps \<noteq> ''listeners''}"
    using set_walk_leaves [OF wf_tree_ydel [OF assms]] by (simp add: leaf_at_ydel)
  ultimately show ?thesis
    by (fastforce simp: validate_overrides_def map_filter_Nil leaves_valid_def)
qed

lemma foldl_child_join: "p \<noteq> [] \<Longrightarrow> path_text (p # ps) = join ''.'' (p # ps)"
proof -
  have "join ''.'' (p # ps) = p @ concat (map ((#) (CHR ''.'')) ps)" for p ps
    by (induction ps arbitrary: p) simp_all
  then show "p \<noteq> [] \<Longrightarrow> path_text (p # ps) = join ''.'' (p # ps)"
    by (simp add: path_text_def child_path_def foldl_child_path)
qed

lemma path_text_parts: "hd (path_parts path) \<noteq> [] \<Longrightarrow> path_text (path_parts path) = path"
  using foldl_child_join [of "hd (path_parts path)" "tl (path_parts path)"] join_split [of "CHR ''.''" path]
  by (simp add: path_parts_def)

section \<open>A change outside the listeners\<close>

lemma leaves_valid_set:
  assumes "leaves_valid E backends d" "validate E backends path w b = None" "map_of_val w = None"
  shows "leaves_valid E backends (set_nested d path w)"
  unfolding leaves_valid_def
proof (intro allI impI)
  fix ps v
  assume *: "leaf_at (set_nested d path w) ps v" "hd ps \<noteq> ''listeners''"
  obtain r where "rule_for backends path = Some r" using assms(2) by (rule validate_Some)
  then have "path_text (path_parts path) = path" by (intro path_text_parts rule_head)
  with leaf_set [OF *(1) assms(3)] assms(1) *(2) validate_is_list [OF assms(2)]
  show "validate E backends (path_text ps) v (is_list_val v) = None" by (auto simp: leaves_valid_def)
qed

lemma leaves_valid_unset: "leaves_valid E backends d \<Longrightarrow> leaves_valid E backends (unset_nested d path)"
  using leaf_unset by (fastforce simp: leaves_valid_def)

lemma leaves_valid_elsewhere:
  assumes "leaves_valid E backends d" "path_parts path = ''listeners'' # ps"
  shows "leaves_valid E backends (set_nested d path w)"
proof -
  have "leaf_at (set_nested d path w) qs v \<Longrightarrow> hd qs \<noteq> ''listeners'' \<Longrightarrow> leaf_at d qs v" for qs v
    using walk_set_other [of "path_parts path" qs d w] parallel_hd [of "path_parts path" qs] assms(2)
    by (auto simp: leaf_at_def set_nested_def)
  with assms(1) show ?thesis by (auto simp: leaves_valid_def)
qed

lemma listeners_untouched:
  assumes "hd (path_parts path) \<noteq> ''listeners''"
  shows "listeners_problems P (YMap (set_nested d path w)) only = listeners_problems P (YMap d) only"
    "listeners_problems P (YMap (unset_nested d path)) only = listeners_problems P (YMap d) only"
proof -
  have ne: "path_parts path \<noteq> []" by (simp add: path_parts_def)
  show "listeners_problems P (YMap (set_nested d path w)) only = listeners_problems P (YMap d) only"
    using assms ne by (intro listeners_problems_cong) (simp add: set_nested_def yget_set_other)
  show "listeners_problems P (YMap (unset_nested d path)) only = listeners_problems P (YMap d) only"
    using assms ne by (intro listeners_problems_cong) (simp add: unset_nested_def yget_unset_other split: option.split)
qed

lemma valid_outside:
  assumes "wf_tree (YMap d)" "validate_overrides E backends d = []" "hd (path_parts path) \<noteq> ''listeners''"
  shows "validate_overrides E backends (unset_nested d path) = []"
    "validate E backends path w b = None \<Longrightarrow> wf_tree w \<Longrightarrow> validate_overrides E backends (set_nested d path w) = []"
proof -
  show "validate_overrides E backends (unset_nested d path) = []"
    using assms by (simp add: validate_overrides_Nil unset_nested_wf leaves_valid_unset listeners_untouched)
  assume w: "validate E backends path w b = None" "wf_tree w"
  from w(1) obtain r where r: "rule_for backends path = Some r" "type_problem E r path w = None" by (rule validate_Some)
  with assms(3) have "map_of_val w = None" using rule_head type_problem_shape by blast
  with assms w show "validate_overrides E backends (set_nested d path w) = []"
    by (simp add: validate_overrides_Nil set_nested_wf leaves_valid_set listeners_untouched)
qed

section \<open>A change of a listener\<close>

lemma valid_listener:
  assumes wf: "wf_tree (YMap d)" "wf_tree (YMap d')"
    and valid: "validate_overrides E backends d = []"
    and d': "d' = set_nested d path w \<and> listener_problem_of (se_num E) b n w = None \<or> d' = unset_nested d path"
    and path: "path = listener_path b n" "path_parts path = [''listeners'', b, n]"
    and check: "listeners_problems (se_num E) (YMap d') (Some path) = []"
  shows "validate_overrides E backends d' = []"
proof -
  note before = valid [unfolded validate_overrides_Nil [OF wf(1)] listeners_problems_Nil [OF wf(1)]]
  have leaves: "leaves_valid E backends d'"
    using d' before leaves_valid_unset leaves_valid_elsewhere [of E backends d path "[b, n]" w] path(2) by auto
  have step: "(case unset_parts d [''listeners'', b, n] of None \<Rightarrow> d' = d | Some x \<Rightarrow> d' = x)" if "d' = unset_nested d path"
    using that path(2) by (auto simp: unset_nested_def split: option.split)
  have ok: "section_ok (se_num E) d'"
  proof (cases "d' = unset_nested d path")
    case True
    with step before section_ok_unset show ?thesis by (fastforce split: option.splits)
  next
    case False
    with d' path(2) have "d' = set_parts d [''listeners'', b, n] w" "listener_problem_of (se_num E) b n w = None"
      by (auto simp: set_nested_def)
    with before section_ok_set show ?thesis by blast
  qed
  have same: "listener_at d' b' n' = listener_at d b' n'" if "(b', n') \<noteq> (b, n)" for b' n'
  proof -
    have par: "parallel [''listeners'', b, n] [''listeners'', b', n']"
      using that by (auto simp: parallel_def)
    show ?thesis
    proof (cases "d' = unset_nested d path")
      case True
      show ?thesis
      proof (cases "unset_parts d [''listeners'', b, n]")
        case (Some x)
        with step [OF True] walk_unset_other [OF Some par] show ?thesis by simp
      qed (use step [OF True] in simp)
    next
      case False
      with d' path(2) have "d' = set_parts d [''listeners'', b, n] w" by (auto simp: set_nested_def)
      with walk_set_other [OF par, of d w] show ?thesis by simp
    qed
  qed
  have "clash_problems (se_num E) None [] (all_listeners (se_num E) (YMap d')) = []"
  proof (rule clash_check_suffices [OF same wf])
    show "clash_problems (se_num E) None [] (all_listeners (se_num E) (YMap d)) = []" using before by blast
    show "clash_problems (se_num E) (Some (listener_path b n)) [] (all_listeners (se_num E) (YMap d')) = []"
      using listeners_problems_only [OF ok check] by (simp only: path(1))
  qed
  with leaves ok show ?thesis by (simp add: validate_overrides_Nil [OF wf(2)] listeners_problems_Nil [OF wf(2)])
qed

lemma listener_compact_wf: "wf_tree (YMap (listener_compact lb v))"
proof -
  have py_true: "wf_tree (YMap m) \<Longrightarrow> wf_tree (snd p) \<Longrightarrow> wf_tree (YMap (set_truthy m p))" for m p
    by (simp add: set_truthy_def wf_tree_yset)
  have "wf_tree (YMap (compact_tls l))" for l
    by (simp add: compact_tls_def py_true)
  moreover have "wf_tree (YMap (ymake [(''network'', YStr a), (''address'', YStr b)]))" for a b
    by (simp add: ymake_def wf_tree.simps wf_ymap_def ykeys_def)
  ultimately show ?thesis by (simp add: listener_compact_def Let_def wf_tree_yset)
qed

text \<open>The value that a write stores, and what it was checked for.\<close>

lemma checked_value_valid:
  assumes "checked_value E backends mode path v json_err = Inr w" "mode \<noteq> ModeUnset" "wf_tree v"
  shows "wf_tree w" "\<exists>b. validate E backends path w b = None"
proof -
  have "wf_tree w \<and> (\<exists>b. validate E backends path w b = None)"
  proof (cases mode)
    case ModeSetJson
    with assms(1) have v: "validate E backends path v (is_list_val v) = None"
      by (auto simp: checked_value_def split: option.splits)
    obtain r where r: "rule_for backends path = Some r" "type_problem E r path v = None" using v by (rule validate_Some)
    show ?thesis
    proof (cases "r_type r = CListener")
      case True
      from listener_rule [OF r(1) True] obtain b n where p: "path_parts path = [''listeners'', b, n]" .
      from r(2) True p have "listener_problem_of (se_num E) b n v = None" by (simp add: type_problem_def)
      moreover from listener_valid_map [OF this] obtain lb where lb: "listener_backend_by_id b = Some lb" by blast
      ultimately have "listener_problem_of (se_num E) b n (YMap (listener_compact lb v)) = None" by (rule compact_valid)
      with p r(1) True have "validate E backends path (YMap (listener_compact lb v)) False = None"
        by (simp add: validate_def type_problem_def list_types_def)
      moreover have "w = YMap (listener_compact lb v)"
        using assms(1) ModeSetJson v r(1) True p lb by (simp add: checked_value_def split: option.splits)
      ultimately show ?thesis using listener_compact_wf by blast
    next
      case False
      with assms ModeSetJson v r(1) show ?thesis by (auto simp: checked_value_def split: option.splits)
    qed
  qed (use assms in \<open>auto simp: checked_value_def split: option.splits\<close>)
  then show "wf_tree w" "\<exists>b. validate E backends path w b = None" by auto
qed

section \<open>The change\<close>

text \<open>
  C8: a change of \<open>tacctl.yaml\<close> that \<open>write\<close> accepts (\<open>Set\<close>, \<open>SetList\<close>, \<open>SetValue\<close>, or \<open>Unset\<close> outside the
  listeners) leaves a file that \<open>ValidateFile\<close> has nothing to say about, if it had nothing to say before: every
  leaf that is left is known and valid, the stored compact form of a listener is valid, and the check of the one
  listener that changed is enough for all pairs of listeners in effect, the defaults included.
\<close>

theorem conf_change_keeps_file_valid:
  assumes "wf_tree (YMap d)" "wf_tree v"
    and "validate_overrides E backends d = []"
    and "conf_change E dflt backends mode path v json_err d = Inr (Some d')"
    and "mode = ModeUnset \<Longrightarrow> hd (path_parts path) \<noteq> ''listeners''"
  shows "wf_tree (YMap d') \<and> validate_overrides E backends d' = []"
proof (cases "mode = ModeUnset")
  case True
  with assms(4) have "d' = unset_nested d path" by (simp add: conf_change_def checked_value_def)
  with assms True show ?thesis by (simp add: unset_nested_wf valid_outside)
next
  case False
  then obtain w where w: "checked_value E backends mode path v json_err = Inr w"
      "d' = store_value dflt backends d path w"
      "has_prefix path ''listeners.'' \<Longrightarrow> listeners_problems (se_num E) (YMap d') (Some path) = []"
    using assms(4) by (auto simp: conf_change_def Let_def split: sum.splits list.splits if_splits)
  note v = checked_value_valid [OF w(1) False assms(2)]
  from v(2) obtain b r where r: "rule_for backends path = Some r" "type_problem E r path w = None"
      "validate E backends path w b = None"
    using validate_Some by metis
  have wf: "wf_tree (YMap d')"
    using assms(1) v(1) by (simp add: w(2) store_value_def unset_nested_wf set_nested_wf)
  show ?thesis
  proof (cases "r_type r = CListener")
    case False
    with rule_head [OF r(1)] valid_outside [OF assms(1,3)] r(3) v(1) have "validate_overrides E backends d' = []"
      unfolding w(2) store_value_def by simp
    with wf show ?thesis by simp
  next
    case True
    from listener_rule [OF r(1) True] obtain k n where p: "path = listener_path k n" "path_parts path = [''listeners'', k, n]" .
    have "has_prefix path ''listeners.''" unfolding p(1) listener_path_def has_prefix_append by blast
    moreover have "listener_problem_of (se_num E) k n w = None" using r(2) True p(2) by (simp add: type_problem_def)
    ultimately have "validate_overrides E backends d' = []"
      using w by (intro valid_listener [OF assms(1) wf assms(3) _ p, of w]) (auto simp: store_value_def)
    with wf show ?thesis by simp
  qed
qed

end
