(* ===== verification/ConfRollback.thy ===== *)
theory ConfRollback
  imports ConfFile
begin

text \<open>
  \<open>internal/conf/rollback.go\<close>: the key families of each release, the leaves of \<open>tacctl.yaml\<close> that an older
  release does not know, and (\<open>unset_many\<close> of \<open>ConfFile\<close>) their removal. A family is a path, and whether it stands
  for every key under it.
\<close>

type_synonym family = "string \<times> bool"

definition known_022 :: "family list" where
  "known_022 =
     [(''password.max_age_days'', False), (''password.min_length'', False), (''secret.min_length'', False),
      (''bcrypt.cost'', False), (''scope.default'', False), (''host.default_method'', False),
      (''linux.uid_min'', False), (''linux.uid_max'', False), (''mgmt_acl.names.cisco'', False),
      (''mgmt_acl.names.juniper'', False), (''mgmt_acl.permits'', False), (''backends.enabled'', False),
      (''backends.tacacs.level'', False), (''backends.tacacs.metrics_address'', False), (''snmp.version'', False),
      (''snmp.port'', False), (''snmp.timeout'', False), (''snmp.v3.auth'', False), (''snmp.v3.priv'', False),
      (''privileges.'', True), (''commands.'', True), (''aaa.order.'', True), (''exec_timeout.'', True),
      (''tacacs_group.'', True), (''radius_group.'', True), (''scope_auth_method.'', True),
      (''scope_mgmt_acl.names.cisco.'', True), (''scope_mgmt_acl.names.juniper.'', True),
      (''scope_mgmt_acl.permits.'', True), (''listeners.'', True), (''junos.'', True), (''wti_level.'', True),
      (''tier.'', True)]"

definition added_023 :: "family list" where
  "added_023 = [(''linux.engineer_sudo'', False), (''snmp_scope.'', True), (''breakglass_scope.'', True)]"

definition added_024 :: "family list" where
  "added_024 =
     [(''device.config.max_concurrency'', False), (''device.config.transport'', False), (''device.config.timeout'', False)]"

definition added_025 :: "family list" where
  "added_025 = [(''cisco.source_interface.'', True), (''device.config.confirm_timeout'', False), (''breakglass_hold.'', True)]"

definition added_027 :: "family list" where
  "added_027 = [(''blocks.'', True), (''blocks_device.'', True)]"

definition added_029 :: "family list" where
  "added_029 = [(''device.apply.confirm_timeout'', False), (''device.apply.pause'', False)]"

definition added_0210 :: "family list" where
  "added_0210 = [(''netconf_scope.'', True), (''device.apply.transport'', False)]"

definition added_0217 :: "family list" where
  "added_0217 = [(''audit.strict'', False)]"

definition added_0219 :: "family list" where
  "added_0219 = [(''emergency.lockdown.'', True)]"

definition added_0220 :: "family list" where
  "added_0220 = [(''scope_mgmt_acl.mode.'', True)]"

definition added_0221 :: "family list" where
  "added_0221 = [(''server.addresses'', False)]"

definition added_0222 :: "family list" where
  "added_0222 = [(''server.name'', False), (''device.timeout_scale'', False), (''timeout_scale_scope.'', True)]"

definition added_0224 :: "family list" where
  "added_0224 = [(''breakglass.firewall'', False)]"

definition added_0226 :: "family list" where
  "added_0226 = [(''reports.max_size'', False), (''reports.max_count'', False)]"

definition family_matches :: "family \<Rightarrow> string \<Rightarrow> bool" where
  "family_matches f path \<longleftrightarrow>
     (if \<not> snd f then path = fst f
      else has_prefix path (fst f) \<or> path = (case cut_suffix (fst f) ''.'' of None \<Rightarrow> fst f | Some p \<Rightarrow> p))"

definition in_families :: "family list \<Rightarrow> string \<Rightarrow> bool" where
  "in_families fs path \<longleftrightarrow> list_ex (\<lambda>f. family_matches f path) fs"

definition under_listeners :: "string \<Rightarrow> bool" where
  "under_listeners path \<longleftrightarrow> path = ''listeners'' \<or> has_prefix path ''listeners.''"

definition family_unknown_022 :: "string \<Rightarrow> bool" where
  "family_unknown_022 path \<longleftrightarrow> \<not> under_listeners path \<and> \<not> in_families known_022 path"

definition family_unknown_023 :: "string \<Rightarrow> bool" where
  "family_unknown_023 path \<longleftrightarrow> \<not> under_listeners path \<and> \<not> in_families known_022 path \<and> \<not> in_families added_023 path"

definition unknown_022 :: "string list \<Rightarrow> string \<Rightarrow> bool" where
  "unknown_022 backends path \<longleftrightarrow> family_unknown_022 path \<or> \<not> under_listeners path \<and> rule_for backends path = None"

definition unknown_023 :: "string list \<Rightarrow> string \<Rightarrow> bool" where
  "unknown_023 backends path \<longleftrightarrow> family_unknown_023 path \<or> \<not> under_listeners path \<and> rule_for backends path = None"

text \<open>The leaves of the overrides, in the order of the file, that a release does not know.\<close>

definition leaf_keys :: "(string \<Rightarrow> bool) \<Rightarrow> ymap \<Rightarrow> string list" where
  "leaf_keys unknown overrides = filter unknown (map fst (walk_leaves overrides []))"

definition rollback_keys_0225 :: "ymap \<Rightarrow> string list" where
  "rollback_keys_0225 = leaf_keys (in_families added_0226)"

definition rollback_keys_0223 :: "ymap \<Rightarrow> string list" where
  "rollback_keys_0223 = leaf_keys (\<lambda>p. in_families added_0224 p \<or> in_families added_0226 p)"

definition rollback_keys_0221 :: "ymap \<Rightarrow> string list" where
  "rollback_keys_0221 = leaf_keys (\<lambda>p. in_families added_0222 p \<or> in_families added_0224 p \<or> in_families added_0226 p)"

definition unknown_0220 :: "string \<Rightarrow> bool" where
  "unknown_0220 p \<longleftrightarrow>
     in_families added_0221 p \<or> in_families added_0222 p \<or> in_families added_0224 p \<or> in_families added_0226 p"

definition rollback_keys_0220 :: "ymap \<Rightarrow> string list" where
  "rollback_keys_0220 = leaf_keys unknown_0220"

definition rollback_keys_0218 :: "ymap \<Rightarrow> string list" where
  "rollback_keys_0218 = leaf_keys (\<lambda>p. in_families added_0219 p \<or> in_families added_0220 p \<or> unknown_0220 p)"

definition rollback_keys_0216 :: "ymap \<Rightarrow> string list" where
  "rollback_keys_0216 =
     leaf_keys (\<lambda>p. in_families added_0217 p \<or> in_families added_0219 p \<or> in_families added_0220 p \<or> unknown_0220 p)"

definition rollback_keys_029 :: "ymap \<Rightarrow> string list" where
  "rollback_keys_029 =
     leaf_keys (\<lambda>p. in_families added_0210 p \<or> in_families added_0217 p \<or> in_families added_0219 p \<or>
       in_families added_0220 p \<or> unknown_0220 p)"

definition rollback_keys_023 :: "string list \<Rightarrow> ymap \<Rightarrow> string list" where
  "rollback_keys_023 backends = leaf_keys (unknown_023 backends)"

definition rollback_keys_022 :: "string list \<Rightarrow> ymap \<Rightarrow> string list" where
  "rollback_keys_022 backends = leaf_keys (unknown_022 backends)"

end
