(* ===== verification/ConfRollbackProps.thy ===== *)
theory ConfRollbackProps
  imports ConfFileProps ConfRollback
begin

text \<open>
  What a rollback leaves in \<open>tacctl.yaml\<close>: the removal of the leaves an older release does not know is exact.
\<close>

section \<open>The removal of leaves\<close>

lemma leaves_parallel:
  assumes "leaf_at d ps v" "leaf_at d qs w"
  shows "ps = qs \<or> parallel qs ps"
proof -
  have no: "\<not> leaf_at d (us @ rs) x" if "leaf_at d us y" "rs \<noteq> []" for us rs x y
    using that by (auto simp: leaf_at_def walk_append walk_nonmap)
  consider "ps = qs" | rs where "ps = qs @ rs" "rs \<noteq> []" | rs where "qs = ps @ rs" "rs \<noteq> []" | "parallel qs ps"
    by (metis append_Nil2 parallel_def prefix_def)
  then show ?thesis using assms no by cases blast+
qed

definition apart :: "ymap \<Rightarrow> string list \<Rightarrow> bool" where
  "apart d qs \<longleftrightarrow> (\<forall>ps v. leaf_at d ps v \<longrightarrow> ps = qs \<or> parallel qs ps)"

lemma leaf_unset_iff:
  assumes "apart d qs" "path_parts path = qs"
  shows "leaf_at (unset_nested d path) ps v \<longleftrightarrow> leaf_at d ps v \<and> ps \<noteq> qs"
proof
  assume l: "leaf_at (unset_nested d path) ps v"
  moreover have "ps \<noteq> qs" using l walk_unset [OF assms(2), of d] by (auto simp: leaf_at_def)
  ultimately show "leaf_at d ps v \<and> ps \<noteq> qs" using leaf_unset by blast
next
  assume "leaf_at d ps v \<and> ps \<noteq> qs"
  moreover from this assms(1) have "parallel qs ps" by (auto simp: apart_def)
  ultimately show "leaf_at (unset_nested d path) ps v"
    by (auto simp: leaf_at_def unset_nested_def assms(2) walk_unset_other split: option.split)
qed

lemma leaf_unset_all:
  "\<forall>path \<in> set paths. apart d (path_parts path) \<Longrightarrow>
     leaf_at (foldl unset_nested d paths) ps v \<longleftrightarrow> leaf_at d ps v \<and> ps \<notin> path_parts ` set paths"
proof (induction paths arbitrary: d)
  case (Cons path paths)
  have step: "leaf_at (unset_nested d path) ps v \<longleftrightarrow> leaf_at d ps v \<and> ps \<noteq> path_parts path" for ps v
    using Cons.prems by (intro leaf_unset_iff) simp_all
  then have "\<forall>p \<in> set paths. apart (unset_nested d path) (path_parts p)"
    using Cons.prems by (simp add: apart_def)
  from Cons.IH [OF this] step show ?case by auto
qed simp

section \<open>Plain keys\<close>

text \<open>Every key of the document is one part of a dotted path.\<close>

fun plain_keys :: "yval \<Rightarrow> bool" where
  "plain_keys (YMap m) = list_all (\<lambda>p. fst p \<noteq> [] \<and> CHR ''.'' \<notin> set (fst p) \<and> plain_keys (snd p)) m"
| "plain_keys _ = True"

lemma plain_walk: "plain_keys v \<Longrightarrow> walk_parts v ps = Some w \<Longrightarrow> \<forall>p \<in> set ps. p \<noteq> [] \<and> CHR ''.'' \<notin> set p"
proof (induction v ps rule: walk_parts.induct)
  case (2 v p ps)
  then obtain m x where m: "v = YMap m" "yget m p = Some x" "walk_parts x ps = Some w"
    by (cases v) (auto simp: walk_parts_Cons walk_nonmap split: option.splits)
  then have "p \<noteq> [] \<and> CHR ''.'' \<notin> set p \<and> plain_keys x"
    using 2(2) yget_in_set [OF m(2)] by (auto simp: list_all_iff)
  with 2(1) [of m x] m show ?case by auto
qed simp

lemma leaf_path_parts:
  assumes "plain_keys (YMap d)" "leaf_at d ps v"
  shows "path_parts (path_text ps) = ps"
proof -
  obtain p qs where ps: "ps = p # qs" using assms(2) by (cases ps) (auto simp: leaf_at_def)
  have "\<forall>q \<in> set ps. q \<noteq> [] \<and> CHR ''.'' \<notin> set q" using plain_walk [OF assms(1)] assms(2) unfolding leaf_at_def by blast
  with ps show ?thesis by (simp add: foldl_child_join path_parts_def split_join)
qed

lemma has_leaf_at: "leaf_at d ps v \<Longrightarrow> has_leaf_parts d ps"
  by (induction d ps rule: has_leaf_parts.induct)
    (auto simp: leaf_at_def walk_parts_Cons walk_nonmap yhas_def split: option.splits yval.splits)

section \<open>What a rollback leaves\<close>

lemma set_leaf_keys:
  "wf_tree (YMap d) \<Longrightarrow> set (leaf_keys unknown d) = {path_text ps | ps v. leaf_at d ps v \<and> unknown (path_text ps)}"
  by (force simp: leaf_keys_def set_walk_leaves)

lemma unset_many_fold:
  "foldl (\<lambda>(changed, d) p. (changed \<or> P d p, unset_nested d p)) (b, d) paths =
     (fst (foldl (\<lambda>(changed, d) p. (changed \<or> P d p, unset_nested d p)) (b, d) paths), foldl unset_nested d paths)"
  by (induction paths arbitrary: b d) auto

lemma unset_many_changed:
  "b \<Longrightarrow> fst (foldl (\<lambda>(changed, d) p. (changed \<or> P d p, unset_nested d p)) (b, d) paths)"
  by (induction paths arbitrary: b d) auto

lemma unset_many_first:
  "P d p \<Longrightarrow> fst (foldl (\<lambda>(changed, d) p. (changed \<or> P d p, unset_nested d p)) (False, d) (p # paths))"
  by (simp add: unset_many_changed)

lemma unset_leaves:
  assumes "wf_tree (YMap d)" "plain_keys (YMap d)"
  shows "unset_many_change (leaf_keys unknown d) d =
    Inr (if leaf_keys unknown d = [] then None else Some (foldl unset_nested d (leaf_keys unknown d)))"
proof (cases "leaf_keys unknown d")
  case Nil
  then show ?thesis by (simp add: unset_many_change_def)
next
  case (Cons p paths)
  then have "p \<in> set (leaf_keys unknown d)" by simp
  then obtain ps v where "p = path_text ps" "leaf_at d ps v" unfolding set_leaf_keys [OF assms(1)] by blast
  then have "has_leaf d p" by (simp add: has_leaf_def leaf_path_parts [OF assms(2)] has_leaf_at)
  then show ?thesis
    unfolding Cons unset_many_change_def Let_def
    by (subst unset_many_fold)
      (simp only: prod.case unset_many_first [where P = "\<lambda>d p. get_nested d p \<noteq> YNull \<or> has_leaf d p"] simp_thms if_True
        list.distinct if_False)
qed

text \<open>
  C21: the removal of the keys that an older release does not know is exact. Where the keys of the file hold no dot,
  \<open>UnsetMany\<close> of \<open>RollbackKeys<release>\<close> leaves every leaf the release knows, with its value, and no other leaf;
  nothing is written only where every leaf is known.
\<close>

theorem rollback_removes_exactly_unknown:
  assumes "wf_tree (YMap d)" "plain_keys (YMap d)"
  shows "\<exists>out. unset_many_change (leaf_keys unknown d) d = Inr out \<and>
    (\<forall>ps v. leaf_at (case out of None \<Rightarrow> d | Some d' \<Rightarrow> d') ps v \<longleftrightarrow> leaf_at d ps v \<and> \<not> unknown (path_text ps))"
proof -
  have keys: "set (leaf_keys unknown d) = {path_text ps | ps v. leaf_at d ps v \<and> unknown (path_text ps)}"
    by (rule set_leaf_keys [OF assms(1)])
  have parts: "path_parts ` set (leaf_keys unknown d) = {ps. \<exists>v. leaf_at d ps v \<and> unknown (path_text ps)}"
    unfolding keys using leaf_path_parts [OF assms(2)] by (force simp: image_iff)
  have "\<forall>path \<in> set (leaf_keys unknown d). apart d (path_parts path)"
    unfolding keys apart_def using leaf_path_parts [OF assms(2)] leaves_parallel by fastforce
  then have all: "leaf_at (foldl unset_nested d (leaf_keys unknown d)) ps v \<longleftrightarrow> leaf_at d ps v \<and> \<not> unknown (path_text ps)" for ps v
    unfolding leaf_unset_all [OF \<open>\<forall>path \<in> _. _\<close>] parts by (auto simp: leaf_at_def)
  show ?thesis unfolding unset_leaves [OF assms] using all by (cases "leaf_keys unknown d") auto
qed

end
