(* ===== verification/ConfRecords.thy ===== *)
theory ConfRecords
  imports ConfFile
begin

text \<open>
  The records that \<open>internal/conf\<close> keeps under one key: the emergency lockdown of a scope (\<open>lockdown.go\<close>), the
  break-glass holds (\<open>breakglass_hold.go\<close>), the manifest of a device's configuration blocks (\<open>blocks.go\<close>) and the
  single settings with a reader of their own (\<open>mgmtacl.go\<close>, \<open>tiersetting.go\<close>, \<open>serveraddr.go\<close>). A writer is what
  its callback makes of the overrides: \<open>Inl\<close> the refusal, \<open>Inr None\<close> where nothing is to be written.
\<close>

section \<open>The emergency lockdown\<close>

record lockdown =
  ld_scope :: string
  ld_groups :: "string list"
  ld_pending :: "string list"
  ld_since :: string
  ld_by :: string
  ld_reason :: string

datatype lockdown_defect = LockdownNotRecord | LockdownNoGroups

record lockdown_record = lockdown +
  ld_defect :: "lockdown_defect option"

definition lockdown_path :: "string \<Rightarrow> string \<Rightarrow> string" where
  "lockdown_path scope leaf = ''emergency.lockdown.'' @ scope @ ''.'' @ leaf"

definition ld_lifted :: "('a) lockdown_scheme \<Rightarrow> bool" where
  "ld_lifted l \<longleftrightarrow> ld_groups l = [] \<and> ld_pending l \<noteq> []"

definition ld_locks :: "('a) lockdown_scheme \<Rightarrow> string \<Rightarrow> bool" where
  "ld_locks l g \<longleftrightarrow> g \<in> set (ld_groups l)"

definition text_leaf :: "ymap \<Rightarrow> string \<Rightarrow> string" where
  "text_leaf m k = (case yget m k of Some (YStr s) \<Rightarrow> s | _ \<Rightarrow> [])"

definition text_items :: "(string \<Rightarrow> bool) \<Rightarrow> ymap \<Rightarrow> string \<Rightarrow> string list" where
  "text_items P m k =
     filter P (List.map_filter str_of_val (case list_of_val (yval_at m k) of None \<Rightarrow> [] | Some l \<Rightarrow> l))"

definition lockdown_record_of :: "string \<times> yval \<Rightarrow> lockdown_record" where
  "lockdown_record_of p =
     (case map_of_val (snd p) of
        None \<Rightarrow> \<lparr>ld_scope = fst p, ld_groups = [], ld_pending = [], ld_since = [], ld_by = [], ld_reason = [],
                 ld_defect = Some LockdownNotRecord\<rparr>
      | Some m \<Rightarrow>
          let groups = text_items match_group m ''groups''; pending = text_items host_name m ''pending''
          in \<lparr>ld_scope = fst p, ld_groups = groups, ld_pending = pending, ld_since = text_leaf m ''since'',
              ld_by = text_leaf m ''by'', ld_reason = text_leaf m ''reason'',
              ld_defect = (if groups = [] \<and> pending = [] then Some LockdownNoGroups else None)\<rparr>)"

definition lockdown_map :: "ymap \<Rightarrow> ymap option" where
  "lockdown_map view =
     (case yget view ''emergency'' of
        Some (YMap em) \<Rightarrow> (case yget em ''lockdown'' of Some (YMap m) \<Rightarrow> Some m | _ \<Rightarrow> None)
      | _ \<Rightarrow> None)"

definition lockdown_records_of :: "ymap \<Rightarrow> lockdown_record list" where
  "lockdown_records_of view =
     (case lockdown_map view of None \<Rightarrow> [] | Some m \<Rightarrow> sort_key ld_scope (map lockdown_record_of m))"

definition lockdowns_of :: "ymap \<Rightarrow> lockdown_record list" where
  "lockdowns_of view = filter (\<lambda>r. ld_groups r \<noteq> []) (lockdown_records_of view)"

definition lockdown_lifts :: "ymap \<Rightarrow> lockdown_record list" where
  "lockdown_lifts view = filter ld_lifted (lockdown_records_of view)"

definition lockdown_defects :: "ymap \<Rightarrow> lockdown_record list" where
  "lockdown_defects view = filter (\<lambda>r. ld_defect r \<noteq> None) (lockdown_records_of view)"

text \<open>\<open>LockedGroups\<close>: a map from scopes, where a later record of a scope would win.\<close>

definition conf_locked_groups :: "ymap \<Rightarrow> string \<rightharpoonup> string list" where
  "conf_locked_groups view = foldl (\<lambda>out l. out(ld_scope l \<mapsto> ld_groups l)) Map.empty (lockdowns_of view)"

text \<open>\<open>unsetLockdown\<close>: what it returns, and the overrides after it.\<close>

definition unset_lockdown :: "ymap \<Rightarrow> string \<Rightarrow> bool \<times> ymap" where
  "unset_lockdown d scope =
     (case yget d ''emergency'' of
        Some (YMap em) \<Rightarrow>
          (case yget em ''lockdown'' of
             Some (YMap m) \<Rightarrow>
               if yget m scope = None then (False, d)
               else let m' = ydel m scope;
                        em' = (if m' = [] then ydel em ''lockdown'' else yset em ''lockdown'' (YMap m'))
                    in (True, if em' = [] then ydel d ''emergency'' else yset d ''emergency'' (YMap em'))
           | _ \<Rightarrow> (False, d))
      | _ \<Rightarrow> (False, d))"

definition strings_val :: "string list \<Rightarrow> yval" where
  "strings_val ss = YList (map YStr ss)"

definition lockdown_pairs :: "string \<Rightarrow> lockdown \<Rightarrow> (string \<times> yval) list" where
  "lockdown_pairs scope l =
     (if ld_groups l \<noteq> [] then [(lockdown_path scope ''groups'', strings_val (ld_groups l))] else []) @
     [(lockdown_path scope ''since'', YStr (ld_since l)), (lockdown_path scope ''by'', YStr (ld_by l))] @
     (if ld_reason l \<noteq> [] then [(lockdown_path scope ''reason'', YStr (ld_reason l))] else []) @
     (if ld_pending l \<noteq> [] then [(lockdown_path scope ''pending'', strings_val (ld_pending l))] else [])"

definition plain_lockdown :: "lockdown_record \<Rightarrow> lockdown" where
  "plain_lockdown r =
     \<lparr>ld_scope = ld_scope r, ld_groups = ld_groups r, ld_pending = ld_pending r, ld_since = ld_since r,
      ld_by = ld_by r, ld_reason = ld_reason r\<rparr>"

text \<open>The record of the scope that the callback gets: the last with a group or a host to wait for.\<close>

definition current_lockdown :: "ymap \<Rightarrow> string \<Rightarrow> lockdown option" where
  "current_lockdown d scope =
     foldl (\<lambda>cur r. if ld_scope r = scope \<and> (ld_groups r \<noteq> [] \<or> ld_pending r \<noteq> []) then Some (plain_lockdown r) else cur)
       None (lockdown_records_of d)"

definition set_pairs :: "ymap \<Rightarrow> (string \<times> yval) list \<Rightarrow> ymap" where
  "set_pairs d pairs = foldl (\<lambda>d p. set_nested d (fst p) (snd p)) d pairs"

definition update_lockdown_change ::
  "schema_env \<Rightarrow> string list \<Rightarrow> string \<Rightarrow> (lockdown option \<Rightarrow> conf_error + lockdown option) \<Rightarrow> ymap \<Rightarrow> conf_error + ymap option" where
  "update_lockdown_change E backends scope fn d =
     (let cur = current_lockdown d scope
      in case fn cur of
        Inl e \<Rightarrow> Inl e
      | Inr None \<Rightarrow> (case unset_lockdown d scope of (changed, d') \<Rightarrow> Inr (if changed then Some d' else None))
      | Inr (Some l) \<Rightarrow>
          let l = l\<lparr>ld_scope := scope\<rparr>; pairs = lockdown_pairs scope l
          in case first_refusal E backends pairs of
            Some e \<Rightarrow> Inl e
          | None \<Rightarrow>
              if (case cur of None \<Rightarrow> False
                  | Some c \<Rightarrow> ld_groups c = ld_groups l \<and> ld_pending c = ld_pending l \<and> ld_since c = ld_since l \<and>
                      ld_by c = ld_by l \<and> ld_reason c = ld_reason l)
              then Inr None
              else Inr (Some (set_pairs (snd (unset_lockdown d scope)) pairs)))"

definition update_lockdown ::
  "yaml_lib \<Rightarrow> schema_env \<Rightarrow> string list \<Rightarrow> conf_io \<Rightarrow> string \<Rightarrow> (lockdown option \<Rightarrow> conf_error + lockdown option) \<Rightarrow> directory \<Rightarrow>
     conf_error option \<times> directory" where
  "update_lockdown Y E backends c scope fn D = conf_edit Y c (update_lockdown_change E backends scope fn) D"

definition keys_under :: "string \<Rightarrow> ymap \<Rightarrow> string list" where
  "keys_under pre overrides = filter (\<lambda>p. has_prefix p pre) (map fst (walk_leaves overrides []))"

definition lockdown_keys_of :: "ymap \<Rightarrow> string list" where
  "lockdown_keys_of overrides = keys_under ''emergency.lockdown.'' overrides"

section \<open>The break-glass holds\<close>

record hold =
  h_device :: string
  h_address :: string
  h_since :: string
  h_by :: string
  h_reason :: string

datatype hold_defect = HoldNotRecord | HoldNoAddress | HoldBadAddress string | HoldDottedKey string string

record hold_record = hold +
  h_key :: string
  h_usable :: bool
  h_defect :: "hold_defect option"

definition hold_path :: "string \<Rightarrow> string \<Rightarrow> string" where
  "hold_path device leaf = ''breakglass_hold.'' @ hold_key device @ ''.'' @ leaf"

definition hold_address_usable :: "string \<Rightarrow> bool" where
  "hold_address_usable s \<longleftrightarrow> netip_addr s \<noteq> None"

definition hold_record_of :: "string \<times> yval \<Rightarrow> hold_record" where
  "hold_record_of p =
     (case map_of_val (snd p) of
        None \<Rightarrow> \<lparr>h_device = hold_device (fst p), h_address = [], h_since = [], h_by = [], h_reason = [],
                 h_key = fst p, h_usable = False, h_defect = Some HoldNotRecord\<rparr>
      | Some m \<Rightarrow>
          let a = text_leaf m ''address''
          in \<lparr>h_device = hold_device (fst p), h_address = a, h_since = text_leaf m ''since'',
              h_by = text_leaf m ''by'', h_reason = text_leaf m ''reason'', h_key = fst p,
              h_usable = (a \<noteq> [] \<and> hold_address_usable a),
              h_defect =
                (if a = [] then Some HoldNoAddress
                 else if \<not> hold_address_usable a then Some (HoldBadAddress a)
                 else if CHR ''.'' \<in> set (fst p) then Some (HoldDottedKey (fst p) (hold_key (fst p)))
                 else None)\<rparr>)"

definition hold_records_of :: "yval option \<Rightarrow> hold_record list" where
  "hold_records_of v = (case v of Some (YMap m) \<Rightarrow> sort_key h_device (map hold_record_of m) | _ \<Rightarrow> [])"

definition plain_hold :: "hold_record \<Rightarrow> hold" where
  "plain_hold r =
     \<lparr>h_device = h_device r, h_address = h_address r, h_since = h_since r, h_by = h_by r, h_reason = h_reason r\<rparr>"

definition holds_in :: "yval option \<Rightarrow> hold list" where
  "holds_in v = map plain_hold (filter h_usable (hold_records_of v))"

definition holds_of :: "ymap \<Rightarrow> hold list" where
  "holds_of view = holds_in (yget view ''breakglass_hold'')"

definition hold_defects :: "ymap \<Rightarrow> hold_record list" where
  "hold_defects merged = filter (\<lambda>r. h_defect r \<noteq> None) (hold_records_of (conf_value merged ''breakglass_hold''))"

definition hold_records_named :: "ymap \<Rightarrow> string \<Rightarrow> hold_record list" where
  "hold_records_named merged device =
     filter (\<lambda>r. h_device r = device) (hold_records_of (conf_value merged ''breakglass_hold''))"

definition hold_kind :: "string \<Rightarrow> string set \<Rightarrow> string" where
  "hold_kind name host_names = (if name \<in> host_names then ''host'' else ''device'')"

definition held_addresses :: "ymap \<Rightarrow> string list" where
  "held_addresses view = foldl (\<lambda>out h. add_new out (h_address h)) [] (holds_of view)"

definition hold_pairs :: "hold \<Rightarrow> (string \<times> yval) list" where
  "hold_pairs h =
     [(hold_path (h_device h) ''address'', YStr (h_address h)), (hold_path (h_device h) ''since'', YStr (h_since h)),
      (hold_path (h_device h) ''by'', YStr (h_by h)), (hold_path (h_device h) ''reason'', YStr (h_reason h))]"

text \<open>\<open>SetHoldIf\<close>, and \<open>SetHold\<close> with a check that accepts.\<close>

definition set_hold_if ::
  "yaml_lib \<Rightarrow> schema_env \<Rightarrow> ymap \<Rightarrow> string list \<Rightarrow> conf_io \<Rightarrow> hold \<Rightarrow> (hold list \<Rightarrow> string option) \<Rightarrow> directory \<Rightarrow>
     conf_error option \<times> directory" where
  "set_hold_if Y E dflt backends c h check D =
     set_values_if Y E dflt backends c (hold_pairs h) (\<lambda>d. check (holds_of d)) D"

definition set_hold ::
  "yaml_lib \<Rightarrow> schema_env \<Rightarrow> ymap \<Rightarrow> string list \<Rightarrow> conf_io \<Rightarrow> hold \<Rightarrow> directory \<Rightarrow> conf_error option \<times> directory" where
  "set_hold Y E dflt backends c h D = set_values_if Y E dflt backends c (hold_pairs h) (\<lambda>_. None) D"

text \<open>\<open>SetHoldsIf\<close>: each hold is checked against the usable ones and those accepted before it.\<close>

fun accept_holds ::
  "(hold list \<Rightarrow> hold \<Rightarrow> string option) \<Rightarrow> hold list \<Rightarrow> hold list \<Rightarrow> hold list \<times> (hold \<times> string) list" where
  "accept_holds check existing [] = ([], [])"
| "accept_holds check existing (h # hs) =
     (case check existing h of
        Some why \<Rightarrow> (case accept_holds check existing hs of (ws, ss) \<Rightarrow> (ws, (h, why) # ss))
      | None \<Rightarrow> (case accept_holds check (existing @ [h]) hs of (ws, ss) \<Rightarrow> (h # ws, ss)))"

fun first_text_refusal :: "schema_env \<Rightarrow> string list \<Rightarrow> (string \<times> yval) list \<Rightarrow> conf_error option" where
  "first_text_refusal E backends [] = None"
| "first_text_refusal E backends ((p, v) # ps) =
     (case validate E backends p v False of
        Some why \<Rightarrow> Some (ValueRefused p why) | None \<Rightarrow> first_text_refusal E backends ps)"

definition set_holds_change ::
  "schema_env \<Rightarrow> string list \<Rightarrow> hold list \<Rightarrow> (hold list \<Rightarrow> hold \<Rightarrow> string option) \<Rightarrow> ymap \<Rightarrow> conf_error + ymap option" where
  "set_holds_change E backends hs check d =
     (let pairs = concat (map hold_pairs (fst (accept_holds check (holds_of d) hs)))
      in if pairs = [] then Inr None
         else case first_text_refusal E backends pairs of
           Some e \<Rightarrow> Inl e | None \<Rightarrow> Inr (Some (set_pairs d pairs)))"

definition set_holds_if ::
  "yaml_lib \<Rightarrow> schema_env \<Rightarrow> string list \<Rightarrow> conf_io \<Rightarrow> hold list \<Rightarrow> (hold list \<Rightarrow> hold \<Rightarrow> string option) \<Rightarrow> directory \<Rightarrow>
     conf_error option \<times> directory" where
  "set_holds_if Y E backends c hs check D = conf_edit Y c (set_holds_change E backends hs check) D"

text \<open>\<open>UnsetHolds\<close>: every entry of a device, whatever the spelling of its key.\<close>

definition unset_holds_change :: "string list \<Rightarrow> ymap \<Rightarrow> conf_error + ymap option" where
  "unset_holds_change devices d =
     (case yget d ''breakglass_hold'' of
        Some (YMap m) \<Rightarrow>
          let mine = filter (\<lambda>k. hold_device k \<in> set devices) (ykeys m); m' = foldl ydel m mine
          in if mine = [] then Inr None
             else Inr (Some (if m' = [] then ydel d ''breakglass_hold'' else yset d ''breakglass_hold'' (YMap m')))
      | _ \<Rightarrow> Inr None)"

definition unset_holds :: "yaml_lib \<Rightarrow> conf_io \<Rightarrow> string list \<Rightarrow> directory \<Rightarrow> conf_error option \<times> directory" where
  "unset_holds Y c devices D = conf_edit Y c (unset_holds_change devices) D"

definition unset_hold :: "yaml_lib \<Rightarrow> conf_io \<Rightarrow> string \<Rightarrow> directory \<Rightarrow> conf_error option \<times> directory" where
  "unset_hold Y c device D = unset_holds Y c [device] D"

definition hold_keys_of :: "ymap \<Rightarrow> string list" where
  "hold_keys_of overrides = keys_under ''breakglass_hold.'' overrides"

section \<open>The blocks of a device\<close>

definition blocks_path :: "string \<Rightarrow> string \<Rightarrow> string" where
  "blocks_path scope vendor = ''blocks.'' @ scope @ ''.'' @ vendor"

definition blocks_device_path :: "unicode \<Rightarrow> string \<Rightarrow> string \<Rightarrow> string" where
  "blocks_device_path U device vendor = ''blocks_device.'' @ blocks_device_key U device @ ''.'' @ vendor"

definition block_devices :: "unicode \<Rightarrow> ymap \<Rightarrow> string list" where
  "block_devices U merged =
     foldl (\<lambda>out key. let d = hold_device key
         in if \<not> device_name_ok d then out else add_new out (to_lower U d))
       [] (conf_get_keys merged ''blocks_device'')"

text \<open>\<open>strings.EqualFold\<close> is the parameter \<open>fold_eq\<close>.\<close>

definition block_device_keys :: "(string \<Rightarrow> string \<Rightarrow> bool) \<Rightarrow> ymap \<Rightarrow> string \<Rightarrow> string list" where
  "block_device_keys fold_eq m device = filter (\<lambda>k. fold_eq (hold_device k) device) (ykeys m)"

definition unset_block_device_change :: "(string \<Rightarrow> string \<Rightarrow> bool) \<Rightarrow> string \<Rightarrow> ymap \<Rightarrow> conf_error + ymap option" where
  "unset_block_device_change fold_eq device d =
     (case yget d ''blocks_device'' of
        Some (YMap m) \<Rightarrow>
          let keys = block_device_keys fold_eq m device; m' = foldl ydel m keys
          in if keys = [] then Inr None
             else Inr (Some (if m' = [] then ydel d ''blocks_device'' else yset d ''blocks_device'' (YMap m')))
      | _ \<Rightarrow> Inr None)"

definition unset_block_device ::
  "yaml_lib \<Rightarrow> conf_io \<Rightarrow> (string \<Rightarrow> string \<Rightarrow> bool) \<Rightarrow> string \<Rightarrow> directory \<Rightarrow> conf_error option \<times> directory" where
  "unset_block_device Y c fold_eq device D = conf_edit Y c (unset_block_device_change fold_eq device) D"

definition move_block_device_change ::
  "unicode \<Rightarrow> (string \<Rightarrow> string \<Rightarrow> bool) \<Rightarrow> string \<Rightarrow> string \<Rightarrow> ymap \<Rightarrow> conf_error + ymap option" where
  "move_block_device_change U fold_eq old new d =
     (case yget d ''blocks_device'' of
        Some (YMap m) \<Rightarrow>
          let from = block_device_keys fold_eq m old
          in if from = [] then Inr None
             else if block_device_keys fold_eq m new \<noteq> [] then Inl (CheckRefused new)
             else
               let step = (\<lambda>(merged, m) k.
                     (case yget m k of
                        Some (YMap sm) \<Rightarrow> foldl (\<lambda>out p. yset out (fst p) (snd p)) merged sm
                      | _ \<Rightarrow> merged,
                      ydel m k));
                   (merged, m') = foldl step ([], m) from
               in Inr (Some (yset d ''blocks_device'' (YMap (yset m' (blocks_device_key U new) (YMap merged)))))
      | _ \<Rightarrow> Inr None)"

definition move_block_device ::
  "yaml_lib \<Rightarrow> conf_io \<Rightarrow> unicode \<Rightarrow> (string \<Rightarrow> string \<Rightarrow> bool) \<Rightarrow> string \<Rightarrow> string \<Rightarrow> directory \<Rightarrow> conf_error option \<times> directory" where
  "move_block_device Y c U fold_eq old new D =
     (if fold_eq old new then (None, D) else conf_edit Y c (move_block_device_change U fold_eq old new) D)"

section \<open>Single settings\<close>

definition mgmt_acl_mode :: "pyfmt \<Rightarrow> ymap \<Rightarrow> string \<Rightarrow> string" where
  "mgmt_acl_mode F merged scope =
     (if scope = [] then ''ssh-only''
      else if conf_get F merged (''scope_mgmt_acl.mode.'' @ scope) [] = Some ''strict'' then ''strict'' else ''ssh-only'')"

definition mgmt_acl_strict_scopes :: "ymap \<Rightarrow> string list" where
  "mgmt_acl_strict_scopes overrides =
     sort_strings (List.map_filter
       (\<lambda>(p, v). if has_prefix p ''scope_mgmt_acl.mode.'' \<and> v = YStr ''strict''
                 then Some (drop (length ''scope_mgmt_acl.mode.'') p) else None)
       (walk_leaves overrides []))"

definition has_infix :: "string \<Rightarrow> string \<Rightarrow> bool" where
  "has_infix s t \<longleftrightarrow> list_ex (\<lambda>i. has_prefix (drop i s) t) [0..<Suc (length s)]"

definition has_service_colon :: "unicode \<Rightarrow> string \<Rightarrow> bool" where
  "has_service_colon U s \<longleftrightarrow>
     list_ex (\<lambda>w. has_infix (to_lower U s) w) ['':tcp/'', '':udp/'', '':icmp'', '':*'']"

definition acl_service_entry :: "unicode \<Rightarrow> string \<Rightarrow> bool" where
  "acl_service_entry U s =
     (case parse_entry U s of
        Inr e \<Rightarrow> \<not> entry_plain e
      | Inl _ \<Rightarrow> CHR '':'' \<in> set s \<and> \<not> has_infix s ''::'' \<and> has_service_colon U s)"

definition mgmt_acl_service_entries :: "unicode \<Rightarrow> ymap \<Rightarrow> (string \<times> string) list" where
  "mgmt_acl_service_entries U overrides =
     concat (map (\<lambda>(p, v).
       if p \<noteq> ''mgmt_acl.permits'' \<and> \<not> has_prefix p ''scope_mgmt_acl.permits.'' then []
       else map (Pair p) (filter (acl_service_entry U)
              (List.map_filter str_of_val (case list_of_val v of None \<Rightarrow> [] | Some l \<Rightarrow> l))))
       (walk_leaves overrides []))"

definition non_blank_lines :: "string list \<Rightarrow> string list" where
  "non_blank_lines raw = filter (\<lambda>l. l \<noteq> []) (map trim_space (split_on (CHR 0x0A) (join [CHR 0x0A] raw)))"

definition mgmt_acl_list :: "pyfmt \<Rightarrow> ymap \<Rightarrow> string \<Rightarrow> string list \<times> bool" where
  "mgmt_acl_list F merged scope =
     (let own = (if scope = [] then [] else non_blank_lines (conf_get_list F merged (''scope_mgmt_acl.permits.'' @ scope)))
      in if own \<noteq> [] then (own, True) else (non_blank_lines (conf_get_list F merged ''mgmt_acl.permits''), False))"

text \<open>\<open>GroupTierSetting\<close>, with \<open>tier.InvalidSetting\<close> for what cannot be a tier.\<close>

definition group_tier_setting :: "ymap \<Rightarrow> string \<Rightarrow> string" where
  "group_tier_setting merged g =
     (case conf_value merged ''tier'' of
        None \<Rightarrow> []
      | Some (YMap m) \<Rightarrow>
          (case yget m g of None \<Rightarrow> [] | Some (YStr s) \<Rightarrow> if s \<noteq> [] then s else ''invalid'' | _ \<Rightarrow> ''invalid'')
      | _ \<Rightarrow> ''invalid'')"

definition server_name :: "pyfmt \<Rightarrow> ymap \<Rightarrow> string" where
  "server_name F merged =
     (case conf_get F merged ''server.name'' [] of
        None \<Rightarrow> [] | Some v \<Rightarrow> if server_name_problem_of v \<noteq> None then [] else v)"

end
