(* ===== verification/ConfRecordsProps.thy ===== *)
theory ConfRecordsProps
  imports ConfRollbackProps ConfRecords
begin

text \<open>
  The records read back: what the readers of the lockdowns and the holds see after a write of one of them.
\<close>

declare walk_parts.simps(2) [simp del] unset_parts.simps(3) [simp del] set_parts.simps(3) [simp del]

section \<open>Paths with a name and a leaf\<close>

lemma last_sep:
  assumes "n @ c # t = s @ c # l" "c \<notin> set t" "c \<notin> set l"
  shows "n = s \<and> t = l"
proof -
  have take: "takeWhile (\<lambda>x. x \<noteq> c) (rev (n @ c # t)) = rev t" if "c \<notin> set t" for n t
    using that by (simp add: takeWhile_append2 takeWhile_append)
  have "rev t = rev l" using take [OF assms(2), of n] take [OF assms(3), of s] assms(1) by simp
  with assms(1) show ?thesis by simp
qed

lemma cut_suffix_Some: "cut_suffix s suf = Some n \<Longrightarrow> s = n @ suf"
  by (auto simp: cut_suffix_def split: if_splits) (metis append_take_drop_id)

definition tail_family :: "string \<Rightarrow> (string \<times> conf_type) list \<Rightarrow> string \<times> rule \<Rightarrow> bool" where
  "tail_family pre tails x \<longleftrightarrow>
     (hd (path_parts (fst x)) = hd (path_parts pre) \<longrightarrow>
        fst x = pre \<and> (r_tail (snd x), r_type (snd x)) \<in> set tails)"

lemma wildcard_fits_tail:
  "wildcard_fits (p @ rest) (p, r) \<Longrightarrow> r_tail r \<noteq> [] \<Longrightarrow>
     \<exists>name. cut_suffix rest (''.'' @ r_tail r) = Some name \<and> name \<noteq> [] \<and> CHR ''.'' \<notin> set name"
  by (simp add: wildcard_fits_def has_prefix_def Let_def split: option.splits)

lemma tailed_rule:
  assumes rule: "rule_for backends (pre @ scope @ ''.'' @ leaf) = Some r"
    and pre: "CHR ''.'' \<in> set pre" and leaf: "CHR ''.'' \<notin> set leaf"
    and exact: "list_all (\<lambda>x. hd (path_parts (fst x)) \<noteq> hd (path_parts pre)) (exact_rules backends)"
    and wild: "list_all (tail_family pre tails) wildcards"
    and tails: "list_all (\<lambda>x. fst x \<noteq> [] \<and> CHR ''.'' \<notin> set (fst x)) tails"
  shows "CHR ''.'' \<notin> set scope \<and> scope \<noteq> [] \<and> (leaf, r_type r) \<in> set tails"
proof -
  let ?path = "pre @ scope @ ''.'' @ leaf"
  have head: "hd (path_parts ?path) = hd (path_parts pre)"
    using pre by (simp only: path_parts_def hd_split_append)
  from rule show ?thesis
  proof (cases rule: rule_for_cases)
    case 1
    with exact head show ?thesis by (auto simp: list_all_iff)
  next
    case (2 p)
    from wildcard_fits_prefix [OF 2(2)] obtain rest where rest: "?path = p @ rest" by auto
    have "CHR ''.'' \<in> set p" using wildcard_head [OF 2(1)] by (simp add: wildcard_ok_def)
    then have "hd (path_parts p) = hd (path_parts pre)"
      using head unfolding rest by (simp only: path_parts_def hd_split_append)
    with wild 2(1) have w: "p = pre" "(r_tail r, r_type r) \<in> set tails" by (auto simp: list_all_iff tail_family_def)
    with tails have t: "r_tail r \<noteq> []" "CHR ''.'' \<notin> set (r_tail r)" by (auto simp: list_all_iff)
    obtain name where n: "cut_suffix (scope @ ''.'' @ leaf) (''.'' @ r_tail r) = Some name" "name \<noteq> []" "CHR ''.'' \<notin> set name"
      using wildcard_fits_tail [OF 2(2) [unfolded w(1)] t(1)] by blast
    from n(1) have "scope @ CHR ''.'' # leaf = name @ CHR ''.'' # r_tail r"
      by (simp add: cut_suffix_Some)
    from last_sep [OF this leaf t(2)] have "scope = name" "leaf = r_tail r" by simp_all
    with n w show ?thesis by simp
  qed
qed

lemma path_parts_last: "CHR ''.'' \<notin> set leaf \<Longrightarrow> CHR ''.'' \<notin> set scope \<Longrightarrow>
    path_parts (scope @ ''.'' @ leaf) = [scope, leaf]"
  by (simp add: path_parts_def split_on_append_sep split_on_no_sep)

section \<open>Several leaves of one record\<close>

lemma walk_set_pairs_other:
  "\<forall>p \<in> set pairs. parallel (path_parts (fst p)) qs \<Longrightarrow>
     walk_parts (YMap (set_pairs d pairs)) qs = walk_parts (YMap d) qs"
  unfolding set_pairs_def by (induction pairs arbitrary: d) (simp_all add: set_nested_def walk_set_other)

lemma set_pairs_wf:
  "wf_tree (YMap d) \<Longrightarrow> \<forall>p \<in> set pairs. wf_tree (snd p) \<Longrightarrow> wf_tree (YMap (set_pairs d pairs))"
  unfolding set_pairs_def by (induction pairs arbitrary: d) (simp_all add: set_nested_wf)

lemma set_pairs_Cons: "set_pairs d (p # pairs) = set_pairs (set_nested d (fst p) (snd p)) pairs"
  by (simp add: set_pairs_def)

lemma parallel_siblings: "j \<noteq> k \<Longrightarrow> parallel (pre @ [j]) (pre @ [k])"
  by (auto simp: parallel_def)

lemma walk_set_pairs:
  assumes "\<forall>k \<in> fst ` set kvs. path_parts (mk k) = pre @ [k]" "distinct (map fst kvs)"
  shows "walk_parts (YMap (set_pairs d (map (\<lambda>p. (mk (fst p), snd p)) kvs))) (pre @ [k]) =
    (case map_of kvs k of Some v \<Rightarrow> Some v | None \<Rightarrow> walk_parts (YMap d) (pre @ [k]))"
  using assms
proof (induction kvs arbitrary: d)
  case Nil
  then show ?case by (simp add: set_pairs_def)
next
  case (Cons p kvs)
  have pp: "path_parts (mk (fst p)) = pre @ [fst p]" using Cons.prems by simp
  have same: "walk_parts (YMap (set_nested d (mk (fst p)) (snd p))) (pre @ [fst p]) = Some (snd p)"
    by (simp add: set_nested_def pp walk_set_same)
  have other: "walk_parts (YMap (set_nested d (mk (fst p)) (snd p))) (pre @ [k]) = walk_parts (YMap d) (pre @ [k])" if "k \<noteq> fst p"
    using that by (simp add: set_nested_def pp walk_set_other parallel_siblings)
  have "map_of kvs (fst p) = None" using Cons.prems by (simp add: map_of_eq_None_iff)
  with Cons same other show ?case by (cases "k = fst p") (simp_all add: set_pairs_Cons split: option.split)
qed

lemma first_refusal_None:
  "first_refusal E backends pairs = None \<Longrightarrow> p \<in> set pairs \<Longrightarrow>
     validate E backends (fst p) (snd p) (is_list_val (snd p)) = None"
  by (induction E backends pairs rule: first_refusal.induct) (auto split: option.splits)

lemma text_leaf_walk: "walk_parts (YMap d) pre = Some (YMap m) \<Longrightarrow>
    text_leaf m k = (case walk_parts (YMap d) (pre @ [k]) of Some (YStr s) \<Rightarrow> s | _ \<Rightarrow> [])"
  by (simp add: text_leaf_def walk_append walk_parts_Cons split: option.split)

section \<open>The lockdown\<close>

definition groups_at :: "yval option \<Rightarrow> string list option" where
  "groups_at v =
     (case v of Some (YMap m) \<Rightarrow> let g = text_items match_group m ''groups'' in if g = [] then None else Some g | _ \<Rightarrow> None)"

lemma foldl_upd_other: "s \<notin> f ` set xs \<Longrightarrow> foldl (\<lambda>out x. out(f x \<mapsto> g x)) M xs s = M s"
  by (induction xs arbitrary: M) auto

lemma foldl_upd_same:
  "x \<in> set xs \<Longrightarrow> distinct (map f xs) \<Longrightarrow> foldl (\<lambda>out x. out(f x \<mapsto> g x)) M xs (f x) = Some (g x)"
  by (induction xs arbitrary: M) (auto simp: foldl_upd_other)

lemma lockdown_map_walk:
  "lockdown_map view = (case walk_parts (YMap view) [''emergency'', ''lockdown''] of Some (YMap m) \<Rightarrow> Some m | _ \<Rightarrow> None)"
  by (auto simp: lockdown_map_def walk_parts_Cons walk_nonmap split: option.split yval.split)

lemma lockdown_map_get:
  "walk_parts (YMap view) [''emergency'', ''lockdown'', s] =
     (case lockdown_map view of None \<Rightarrow> None | Some m \<Rightarrow> yget m s)"
  using walk_append [of "YMap view" "[''emergency'', ''lockdown'']" "[s]"]
  by (auto simp: lockdown_map_walk walk_parts_Cons walk_nonmap split: option.split yval.split)

lemma record_groups: "groups_at (Some v) = (let g = ld_groups (lockdown_record_of (s, v)) in if g = [] then None else Some g)"
  by (cases v) (simp_all add: groups_at_def lockdown_record_of_def Let_def)

lemma record_scope [simp]: "ld_scope (lockdown_record_of p) = fst p"
  by (simp add: lockdown_record_of_def Let_def split: option.split)

lemma lockdown_map_wf: "wf_tree (YMap view) \<Longrightarrow> lockdown_map view = Some m \<Longrightarrow> wf_ymap m"
  using walk_wf [of "YMap view" "[''emergency'', ''lockdown'']"] wf_tree_map
  by (auto simp: lockdown_map_walk split: option.splits yval.splits)

lemma locked_groups_at:
  assumes "wf_tree (YMap view)"
  shows "conf_locked_groups view s = groups_at (walk_parts (YMap view) [''emergency'', ''lockdown'', s])"
proof (cases "lockdown_map view")
  case None
  then show ?thesis
    by (simp add: conf_locked_groups_def lockdowns_of_def lockdown_records_of_def lockdown_map_get groups_at_def)
next
  case (Some m)
  have wf: "wf_ymap m" by (rule lockdown_map_wf [OF assms Some])
  let ?rs = "lockdowns_of view"
  have rs: "set ?rs = {r. \<exists>s v. (s, v) \<in> set m \<and> r = lockdown_record_of (s, v) \<and> ld_groups r \<noteq> []}"
    by (auto simp: lockdowns_of_def lockdown_records_of_def Some)
  have "mset (map ld_scope (lockdown_records_of view)) = mset (map fst m)"
    by (simp add: lockdown_records_of_def Some image_mset.compositionality comp_def)
  then have "distinct (map ld_scope (lockdown_records_of view))"
    using wf by (metis (no_types) distinct_map mset_eq_imp_distinct_iff wf_ymap_def ykeys_def)
  then have dist: "distinct (map ld_scope ?rs)" by (auto simp: lockdowns_of_def distinct_map inj_on_def)
  show ?thesis
  proof (cases "groups_at (yget m s)")
    case None
    then have "s \<notin> ld_scope ` set ?rs"
      using yget_mem [OF wf] record_groups by (fastforce simp: rs Let_def split: if_splits)
    with None Some show ?thesis by (simp add: conf_locked_groups_def foldl_upd_other lockdown_map_get)
  next
    case (Some g)
    then obtain v where v: "yget m s = Some v" by (cases "yget m s") (auto simp: groups_at_def)
    with Some record_groups [of v s] have g: "ld_groups (lockdown_record_of (s, v)) = g" "g \<noteq> []"
      by (auto simp: Let_def split: if_splits)
    with v have "lockdown_record_of (s, v) \<in> set ?rs" using yget_mem [OF wf] by (auto simp: rs)
    from foldl_upd_same [OF this dist, of ld_groups Map.empty] g
    have "conf_locked_groups view s = Some g" by (simp add: conf_locked_groups_def)
    with Some v \<open>lockdown_map view = Some m\<close> show ?thesis by (simp add: lockdown_map_get)
  qed
qed

text \<open>The removal is that of a dotted path, with the same pruning.\<close>

lemma unset_lockdown_parts:
  "snd (unset_lockdown d scope) =
     (case walk_parts (YMap d) [''emergency'', ''lockdown'', scope] of
        None \<Rightarrow> d
      | Some _ \<Rightarrow> (case unset_parts d [''emergency'', ''lockdown'', scope] of None \<Rightarrow> d | Some d' \<Rightarrow> d'))"
  by (auto simp: unset_lockdown_def unset_parts.simps(3) walk_parts_Cons walk_nonmap Let_def split: option.split yval.split)

lemma unset_lockdown_changed:
  "fst (unset_lockdown d scope) \<longleftrightarrow> walk_parts (YMap d) [''emergency'', ''lockdown'', scope] \<noteq> None"
  by (auto simp: unset_lockdown_def walk_parts_Cons walk_nonmap Let_def split: option.split yval.split)

lemma unset_lockdown_wf: "wf_tree (YMap d) \<Longrightarrow> wf_tree (YMap (snd (unset_lockdown d scope)))"
  by (simp add: unset_lockdown_parts unset_parts_wf split: option.split)

lemma unset_lockdown_walk:
  "walk_parts (YMap (snd (unset_lockdown d scope))) [''emergency'', ''lockdown'', s] =
     (if s = scope then None else walk_parts (YMap d) [''emergency'', ''lockdown'', s])"
proof -
  have par: "s \<noteq> scope \<Longrightarrow> parallel [''emergency'', ''lockdown'', scope] [''emergency'', ''lockdown'', s]"
    using parallel_siblings [of scope s "[''emergency'', ''lockdown'']"] by simp
  show ?thesis
    using walk_unset_same walk_unset_none [of d "[''emergency'', ''lockdown'', scope]"] walk_unset_other [OF _ par]
    by (auto simp: unset_lockdown_parts split: option.split)
qed

definition lockdown_tails :: "(string \<times> conf_type) list" where
  "lockdown_tails =
     [(''groups'', CLockdownGroups), (''since'', CHoldSince), (''by'', CHoldText), (''reason'', CHoldText),
      (''pending'', CLockdownPending)]"

lemma lockdown_family: "list_all (tail_family ''emergency.lockdown.'' lockdown_tails) wildcards"
  by (simp add: wildcards_def snmp_scope_wildcards_def hold_wildcards_def lockdown_wildcards_def
      netconf_scope_wildcards_def timeout_scale_wildcards_def path_parts_def rule_shapes tail_family_def
      lockdown_tails_def)

lemma lockdown_exact_rules: "list_all (\<lambda>x. hd (path_parts (fst x)) \<noteq> hd (path_parts ''emergency.lockdown.'')) (exact_rules backends)"
  by (simp add: exact_rules_def path_parts_def)

lemma lockdown_rule:
  assumes "rule_for backends (lockdown_path scope leaf) = Some r" "CHR ''.'' \<notin> set leaf"
  shows "CHR ''.'' \<notin> set scope" "scope \<noteq> []" "(leaf, r_type r) \<in> set lockdown_tails"
proof -
  have "list_all (\<lambda>x. fst x \<noteq> [] \<and> CHR ''.'' \<notin> set (fst x)) lockdown_tails" by (simp add: lockdown_tails_def)
  from tailed_rule [OF assms(1) [unfolded lockdown_path_def] _ assms(2) lockdown_exact_rules lockdown_family this]
  show "CHR ''.'' \<notin> set scope" "scope \<noteq> []" "(leaf, r_type r) \<in> set lockdown_tails" by simp_all
qed

lemma lockdown_path_parts:
  assumes "CHR ''.'' \<notin> set scope" "CHR ''.'' \<notin> set leaf"
  shows "path_parts (lockdown_path scope leaf) = [''emergency'', ''lockdown'', scope] @ [leaf]"
proof -
  have "path_parts (lockdown_path scope leaf) =
      split_on (CHR ''.'') (''emergency'' @ CHR ''.'' # (''lockdown'' @ CHR ''.'' # (scope @ CHR ''.'' # leaf)))"
    by (simp add: path_parts_def lockdown_path_def)
  also have "\<dots> = [''emergency'', ''lockdown'', scope] @ [leaf]"
    using assms by (subst split_on_append_sep, simp, subst split_on_append_sep, simp, simp add: split_on_append_sep split_on_no_sep)
  finally show ?thesis .
qed

definition lockdown_leaves :: "lockdown \<Rightarrow> (string \<times> yval) list" where
  "lockdown_leaves l =
     (if ld_groups l \<noteq> [] then [(''groups'', strings_val (ld_groups l))] else []) @
     [(''since'', YStr (ld_since l)), (''by'', YStr (ld_by l))] @
     (if ld_reason l \<noteq> [] then [(''reason'', YStr (ld_reason l))] else []) @
     (if ld_pending l \<noteq> [] then [(''pending'', strings_val (ld_pending l))] else [])"

lemma lockdown_pairs_leaves:
  "lockdown_pairs scope l = map (\<lambda>p. (lockdown_path scope (fst p), snd p)) (lockdown_leaves l)"
  by (simp add: lockdown_pairs_def lockdown_leaves_def)

lemma lockdown_leaves_props:
  "distinct (map fst (lockdown_leaves l))" "(''since'', YStr (ld_since l)) \<in> set (lockdown_leaves l)"
  "\<forall>k \<in> fst ` set (lockdown_leaves l). CHR ''.'' \<notin> set k" "\<forall>p \<in> set (lockdown_leaves l). wf_tree (snd p)"
  "map_of (lockdown_leaves l) ''groups'' = (if ld_groups l = [] then None else Some (strings_val (ld_groups l)))"
  by (auto simp: lockdown_leaves_def strings_val_def list_all_iff)

lemma text_items_strings: "yval_at m k = strings_val ss \<Longrightarrow> text_items P m k = filter P ss"
  by (simp add: text_items_def strings_val_def List.map_filter_def comp_def)

lemma each_ok: "first_element i (string_elem f) seen (map YStr ss) = None \<Longrightarrow> s \<in> set ss \<Longrightarrow> \<exists>seen. f seen s = None"
  by (induction ss arbitrary: i seen) (auto simp: string_elem_def split: option.splits)

lemma valid_groups:
  assumes "type_problem E r path (strings_val gs) = None" "r_type r = CLockdownGroups"
  shows "filter match_group gs = gs"
proof -
  have "first_element 0 (string_elem group_elem) [] (map YStr gs) = None"
    using assms by (simp add: type_problem_def with_items_def strings_val_def bounded_list_problem_def each_def split: if_splits)
  from each_ok [OF this] show ?thesis by (force simp: filter_id_conv group_elem_def split: if_splits)
qed

lemma walk_parent_map: "walk_parts v (ps @ [k]) \<noteq> None \<Longrightarrow> \<exists>m. walk_parts v ps = Some (YMap m)"
proof -
  have "walk_parts w [k] \<noteq> None \<Longrightarrow> \<exists>m. w = YMap m" for w by (cases w) (simp_all add: walk_nonmap)
  then show "walk_parts v (ps @ [k]) \<noteq> None \<Longrightarrow> \<exists>m. walk_parts v ps = Some (YMap m)"
    by (simp add: walk_append split: option.splits)
qed

text \<open>What is at the record after the leaves are written over a document that has none.\<close>

lemma written_groups:
  assumes none: "walk_parts (YMap d) [''emergency'', ''lockdown'', scope] = None"
    and scope: "CHR ''.'' \<notin> set scope" and groups: "filter match_group (ld_groups l) = ld_groups l"
  shows "groups_at (walk_parts (YMap (set_pairs d (lockdown_pairs scope l))) [''emergency'', ''lockdown'', scope]) =
    (if ld_groups l = [] then None else Some (ld_groups l))"
proof -
  let ?pre = "[''emergency'', ''lockdown'', scope]" and ?d = "set_pairs d (lockdown_pairs scope l)"
  have at: "walk_parts (YMap ?d) (?pre @ [k]) = map_of (lockdown_leaves l) k" for k
  proof -
    have "walk_parts (YMap d) (?pre @ [k]) = None" by (simp only: walk_append none option.case)
    moreover have "\<forall>k \<in> fst ` set (lockdown_leaves l). path_parts (lockdown_path scope k) = ?pre @ [k]"
      using lockdown_leaves_props(3) [of l] lockdown_path_parts [OF scope] by blast
    ultimately show ?thesis
      unfolding lockdown_pairs_leaves walk_set_pairs [OF \<open>\<forall>k \<in> _. _\<close> lockdown_leaves_props(1)]
      by (simp split: option.split)
  qed
  have "walk_parts (YMap ?d) (?pre @ [''since'']) \<noteq> None"
    unfolding at using lockdown_leaves_props(2) [of l] by (auto simp: map_of_eq_None_iff image_iff) force
  then obtain m where m: "walk_parts (YMap ?d) ?pre = Some (YMap m)"
    using walk_parent_map by blast
  then have "yget m ''groups'' = map_of (lockdown_leaves l) ''groups''"
    using at [of "''groups''"] by (simp only: walk_append option.case) (simp add: walk_parts_Cons split: option.splits)
  then have "yval_at m ''groups'' = (if ld_groups l = [] then YNull else strings_val (ld_groups l))"
    by (simp add: lockdown_leaves_props yval_at_def)
  then have "text_items match_group m ''groups'' = ld_groups l"
    using groups text_items_strings [of m "''groups''" "ld_groups l" match_group]
    by (cases "ld_groups l = []") (simp_all add: text_items_def List.map_filter_def)
  with m show ?thesis by (simp add: groups_at_def)
qed

lemma update_untouched:
  assumes scope: "CHR ''.'' \<notin> set scope" and s: "s \<noteq> scope"
  shows "walk_parts (YMap (set_pairs d (lockdown_pairs scope l))) [''emergency'', ''lockdown'', s] =
    walk_parts (YMap d) [''emergency'', ''lockdown'', s]"
proof (rule walk_set_pairs_other, rule ballI)
  fix p
  assume "p \<in> set (lockdown_pairs scope l)"
  then obtain q where "q \<in> set (lockdown_leaves l)" "fst p = lockdown_path scope (fst q)"
    by (auto simp: lockdown_pairs_leaves)
  then have "path_parts (fst p) = [''emergency'', ''lockdown'', scope] @ [fst q]"
    using lockdown_leaves_props(3) [of l] lockdown_path_parts [OF scope] by auto
  with s show "parallel (path_parts (fst p)) [''emergency'', ''lockdown'', s]"
    by (auto simp: parallel_def)
qed

lemma current_lockdown_groups:
  assumes "wf_tree (YMap d)" "current_lockdown d scope = Some c"
  shows "groups_at (walk_parts (YMap d) [''emergency'', ''lockdown'', scope]) =
    (if ld_groups c = [] then None else Some (ld_groups c))"
proof -
  have found: "foldl (\<lambda>cur r. if P r then Some (plain_lockdown r) else cur) x rs = Some c \<Longrightarrow>
      x = Some c \<or> (\<exists>r \<in> set rs. P r \<and> c = plain_lockdown r)" for P x rs
    by (induction rs arbitrary: x) (fastforce split: if_splits)+
  obtain r where r: "r \<in> set (lockdown_records_of d)" "ld_scope r = scope" "c = plain_lockdown r"
    using found [OF assms(2) [unfolded current_lockdown_def]] by auto
  then obtain m v where m: "lockdown_map d = Some m" "(scope, v) \<in> set m" "r = lockdown_record_of (scope, v)"
    by (cases "lockdown_map d") (auto simp: lockdown_records_of_def)
  with yget_mem [OF lockdown_map_wf [OF assms(1) m(1)]]
  have "walk_parts (YMap d) [''emergency'', ''lockdown'', scope] = Some v" by (simp add: lockdown_map_get)
  with record_groups [of v scope] m(3) r(3) show ?thesis by (simp add: plain_lockdown_def Let_def)
qed

lemma lockdown_removed:
  assumes "wf_tree (YMap d)" "fn (current_lockdown d scope) = Inr None"
    and "update_lockdown_change E backends scope fn d = Inr out"
  shows "conf_locked_groups (case out of None \<Rightarrow> d | Some d' \<Rightarrow> d') s =
    (if s = scope then None else conf_locked_groups d s)"
proof -
  let ?u = "unset_lockdown d scope"
  have out: "out = (if fst ?u then Some (snd ?u) else None)"
    using assms(2,3) by (auto simp: update_lockdown_change_def case_prod_unfold)
  have "walk_parts (YMap (case out of None \<Rightarrow> d | Some d' \<Rightarrow> d')) [''emergency'', ''lockdown'', s] =
      (if s = scope then None else walk_parts (YMap d) [''emergency'', ''lockdown'', s])"
    using unset_lockdown_walk [of d scope s] unset_lockdown_changed [of d scope] by (auto simp: out)
  moreover have "wf_tree (YMap (case out of None \<Rightarrow> d | Some d' \<Rightarrow> d'))"
    using assms(1) by (simp add: out unset_lockdown_wf)
  ultimately show ?thesis using assms(1) by (simp add: locked_groups_at groups_at_def)
qed

lemma lockdown_written:
  assumes "wf_tree (YMap d)" "fn (current_lockdown d scope) = Inr (Some l0)"
    and "update_lockdown_change E backends scope fn d = Inr out"
  shows "conf_locked_groups (case out of None \<Rightarrow> d | Some d' \<Rightarrow> d') s =
    (if s = scope then (if ld_groups l0 = [] then None else Some (ld_groups l0)) else conf_locked_groups d s)"
proof -
  define l where "l = l0\<lparr>ld_scope := scope\<rparr>"
  have l: "ld_groups l = ld_groups l0" by (simp add: l_def)
  have valid: "first_refusal E backends (lockdown_pairs scope l) = None"
    using assms(2,3) by (auto simp: update_lockdown_change_def l_def Let_def split: option.splits)
  have since: "(lockdown_path scope ''since'', YStr (ld_since l)) \<in> set (lockdown_pairs scope l)"
    by (simp add: lockdown_pairs_def)
  from first_refusal_None [OF valid this] obtain rs where "rule_for backends (lockdown_path scope ''since'') = Some rs"
    by (auto elim: validate_Some)
  then have scope: "CHR ''.'' \<notin> set scope" by (rule lockdown_rule) simp
  have groups: "filter match_group (ld_groups l) = ld_groups l"
  proof (cases "ld_groups l = []")
    case False
    then have "(lockdown_path scope ''groups'', strings_val (ld_groups l)) \<in> set (lockdown_pairs scope l)"
      by (simp add: lockdown_pairs_def)
    from first_refusal_None [OF valid this] obtain rg where rg: "rule_for backends (lockdown_path scope ''groups'') = Some rg"
      "type_problem E rg (lockdown_path scope ''groups'') (strings_val (ld_groups l)) = None"
      by (auto elim: validate_Some)
    from lockdown_rule(3) [OF rg(1)] have "r_type rg = CLockdownGroups" by (simp add: lockdown_tails_def)
    with rg(2) show ?thesis by (rule valid_groups)
  qed simp
  let ?base = "snd (unset_lockdown d scope)" and ?new = "set_pairs (snd (unset_lockdown d scope)) (lockdown_pairs scope l)"
  consider "out = Some ?new" | c where "out = None" "current_lockdown d scope = Some c" "ld_groups c = ld_groups l"
    using assms(2,3) valid by (auto simp: update_lockdown_change_def l_def Let_def split: if_splits option.splits)
  then show ?thesis
  proof cases
    case 1
    have "groups_at (walk_parts (YMap ?new) [''emergency'', ''lockdown'', scope]) =
        (if ld_groups l = [] then None else Some (ld_groups l))"
      using written_groups [OF _ scope groups] unset_lockdown_walk [of d scope scope] by simp
    moreover have "wf_tree (YMap ?new)"
      using lockdown_leaves_props(4) [of l]
      by (auto simp: lockdown_pairs_leaves intro!: set_pairs_wf unset_lockdown_wf [OF assms(1)])
    moreover have "s \<noteq> scope \<Longrightarrow> walk_parts (YMap ?new) [''emergency'', ''lockdown'', s] =
        walk_parts (YMap d) [''emergency'', ''lockdown'', s]"
      using update_untouched [OF scope] unset_lockdown_walk [of d scope s] by simp
    ultimately show ?thesis using 1 l assms(1) by (simp add: locked_groups_at)
  next
    case (2 c)
    with current_lockdown_groups [OF assms(1) 2(2)] l show ?thesis by (simp add: locked_groups_at [OF assms(1)])
  qed
qed

text \<open>
  C11: an accepted \<open>UpdateLockdown\<close> of a scope changes what \<open>LockedGroups\<close> answers for that scope to the groups of
  the record that the callback returned (none where it removed the record, or returned one that locks no group),
  and for no other scope; this is also so where nothing is written because the record is there already.
\<close>

theorem update_lockdown_locked_groups:
  assumes "wf_tree (YMap d)" "fn (current_lockdown d scope) = Inr r"
    and "update_lockdown_change E backends scope fn d = Inr out"
  shows "conf_locked_groups (case out of None \<Rightarrow> d | Some d' \<Rightarrow> d') s =
    (if s = scope then (case r of None \<Rightarrow> None | Some l \<Rightarrow> if ld_groups l = [] then None else Some (ld_groups l))
     else conf_locked_groups d s)"
  using assms lockdown_removed lockdown_written by (cases r) simp_all

end
