(* ===== verification/ConfHoldProps.thy ===== *)
theory ConfHoldProps
  imports ConfRecordsProps
begin

text \<open>
  The break-glass holds read back: what the readers see after holds are written or removed.
\<close>

declare walk_parts.simps(2) [simp del] unset_parts.simps(3) [simp del] set_parts.simps(3) [simp del]

section \<open>Reading\<close>

abbreviation hold_at :: "ymap \<Rightarrow> string \<Rightarrow> yval option" where
  "hold_at d k \<equiv> walk_parts (YMap d) [''breakglass_hold'', k]"

abbreviation hold_records :: "ymap \<Rightarrow> hold_record list" where
  "hold_records d \<equiv> hold_records_of (yget d ''breakglass_hold'')"

lemma hold_records_at:
  assumes "wf_tree (YMap d)"
  shows "set (hold_records d) = {hold_record_of (k, v) | k v. hold_at d k = Some v}"
proof (cases "\<exists>m. yget d ''breakglass_hold'' = Some (YMap m)")
  case True
  then obtain m where m: "yget d ''breakglass_hold'' = Some (YMap m)" by blast
  have "wf_ymap m" using wf_tree_get [OF assms m] by (rule wf_tree_map)
  from yget_mem [OF this] have "set (hold_records d) = {hold_record_of (k, v) | k v. yget m k = Some v}"
    by (force simp: hold_records_of_def m)
  moreover have "hold_at d k = yget m k" for k by (simp add: walk_parts_Cons m split: option.split)
  ultimately show ?thesis by simp
next
  case False
  moreover have "\<forall>m. w \<noteq> YMap m \<Longrightarrow> walk_parts w [k] = None" for w k
    by (cases w) (simp_all add: walk_nonmap)
  ultimately have "hold_records d = []" "hold_at d k = None" for k
    by (auto simp: hold_records_of_def walk_parts_Cons split: option.split yval.split)
  then show ?thesis by simp
qed

lemma hold_record_key [simp]: "h_key (hold_record_of p) = fst p" "h_device (hold_record_of p) = hold_device (fst p)"
  by (simp_all add: hold_record_of_def Let_def split: option.split)

section \<open>Writing\<close>

definition hold_leaves :: "hold \<Rightarrow> (string \<times> yval) list" where
  "hold_leaves h =
     [(''address'', YStr (h_address h)), (''since'', YStr (h_since h)), (''by'', YStr (h_by h)), (''reason'', YStr (h_reason h))]"

lemma hold_pairs_leaves: "hold_pairs h = map (\<lambda>p. (hold_path (h_device h) (fst p), snd p)) (hold_leaves h)"
  by (simp add: hold_pairs_def hold_leaves_def)

lemma hold_key_dots: "CHR ''.'' \<notin> set (hold_key device)"
  by (auto simp: hold_key_def)

lemma hold_path_parts:
  assumes "CHR ''.'' \<notin> set leaf"
  shows "path_parts (hold_path device leaf) = [''breakglass_hold'', hold_key device] @ [leaf]"
proof -
  have "path_parts (hold_path device leaf) =
      split_on (CHR ''.'') (''breakglass_hold'' @ CHR ''.'' # (hold_key device @ CHR ''.'' # leaf))"
    by (simp add: path_parts_def hold_path_def)
  also have "\<dots> = [''breakglass_hold'', hold_key device] @ [leaf]"
    using assms hold_key_dots [of device] by (subst split_on_append_sep, simp, simp add: split_on_append_sep split_on_no_sep)
  finally show ?thesis .
qed

text \<open>The record that a written hold is read back as.\<close>

definition written_record :: "hold \<Rightarrow> hold_record" where
  "written_record h =
     \<lparr>h_device = hold_device (hold_key (h_device h)), h_address = h_address h, h_since = h_since h, h_by = h_by h,
      h_reason = h_reason h, h_key = hold_key (h_device h), h_usable = True, h_defect = None\<rparr>"

lemma one_hold:
  assumes "h_address h \<noteq> []" "hold_address_usable (h_address h)"
  shows "\<exists>v. hold_at (set_pairs d (hold_pairs h)) (hold_key (h_device h)) = Some v \<and>
    hold_record_of (hold_key (h_device h), v) = written_record h"
proof -
  let ?pre = "[''breakglass_hold'', hold_key (h_device h)]" and ?d = "set_pairs d (hold_pairs h)"
  have "\<forall>k \<in> fst ` set (hold_leaves h). path_parts (hold_path (h_device h) k) = ?pre @ [k]"
    by (simp add: hold_leaves_def hold_path_parts)
  moreover have "distinct (map fst (hold_leaves h))" by (simp add: hold_leaves_def)
  ultimately have at: "walk_parts (YMap ?d) (?pre @ [k]) =
      (case map_of (hold_leaves h) k of Some v \<Rightarrow> Some v | None \<Rightarrow> walk_parts (YMap d) (?pre @ [k]))" for k
    unfolding hold_pairs_leaves by (rule walk_set_pairs)
  have "walk_parts (YMap ?d) (?pre @ [''address'']) \<noteq> None" unfolding at by (simp add: hold_leaves_def)
  then obtain m where m: "walk_parts (YMap ?d) ?pre = Some (YMap m)" using walk_parent_map by blast
  have "text_leaf m ''address'' = h_address h" "text_leaf m ''since'' = h_since h" "text_leaf m ''by'' = h_by h"
    "text_leaf m ''reason'' = h_reason h"
    unfolding text_leaf_walk [OF m] at by (simp_all add: hold_leaves_def)
  with m assms show ?thesis
    using hold_key_dots by (auto simp: hold_record_of_def written_record_def Let_def)
qed

lemma other_hold:
  assumes "k \<noteq> hold_key (h_device h)"
  shows "hold_at (set_pairs d (hold_pairs h)) k = hold_at d k"
proof (rule walk_set_pairs_other, rule ballI)
  fix p
  assume "p \<in> set (hold_pairs h)"
  then obtain q where "q \<in> set (hold_leaves h)" "fst p = hold_path (h_device h) (fst q)"
    by (auto simp: hold_pairs_leaves)
  then have "path_parts (fst p) = [''breakglass_hold'', hold_key (h_device h)] @ [fst q]"
    by (auto simp: hold_leaves_def hold_path_parts)
  with assms show "parallel (path_parts (fst p)) [''breakglass_hold'', k]" by (auto simp: parallel_def)
qed

lemma set_pairs_append: "set_pairs d (ps @ qs) = set_pairs (set_pairs d ps) qs"
  by (simp add: set_pairs_def)

lemma several_other:
  "k \<notin> (hold_key \<circ> h_device) ` set hs \<Longrightarrow> hold_at (set_pairs d (concat (map hold_pairs hs))) k = hold_at d k"
proof (induction hs arbitrary: d)
  case (Cons g hs)
  then have "k \<noteq> hold_key (h_device g)" "k \<notin> (hold_key \<circ> h_device) ` set hs" by auto
  with Cons.IH [of "set_pairs d (hold_pairs g)"] other_hold [of k g d] show ?case by (simp add: set_pairs_append)
qed (simp add: set_pairs_def)

lemma several_same:
  "\<forall>h \<in> set hs. h_address h \<noteq> [] \<and> hold_address_usable (h_address h) \<Longrightarrow> distinct (map (hold_key \<circ> h_device) hs) \<Longrightarrow>
     h \<in> set hs \<Longrightarrow> \<exists>v. hold_at (set_pairs d (concat (map hold_pairs hs))) (hold_key (h_device h)) = Some v \<and>
       hold_record_of (hold_key (h_device h), v) = written_record h"
proof (induction hs arbitrary: d)
  case (Cons g hs)
  show ?case
  proof (cases "h \<in> set hs")
    case True
    with Cons.prems Cons.IH [of "set_pairs d (hold_pairs g)"] show ?thesis by (simp add: set_pairs_append)
  next
    case False
    with Cons.prems have h: "h = g" "hold_key (h_device g) \<notin> (hold_key \<circ> h_device) ` set hs" by auto
    from Cons.prems one_hold [of g d] several_other [OF h(2), of "set_pairs d (hold_pairs g)"]
    show ?thesis unfolding h(1) by (simp only: list.map concat.simps set_pairs_append list.set) auto
  qed
qed simp

section \<open>Accepted holds\<close>

lemma accepted_checked:
  "fst (accept_holds check existing hs) = us @ w # vs \<Longrightarrow> check (existing @ us) w = None"
proof (induction check existing hs arbitrary: us rule: accept_holds.induct)
  case (2 check existing h hs)
  show ?case
  proof (cases "check existing h")
    case None
    with 2 show ?thesis by (cases us) (auto simp: case_prod_unfold)
  next
    case (Some why)
    with 2 show ?thesis by (auto simp: case_prod_unfold)
  qed
qed simp

definition hold_tails :: "(string \<times> conf_type) list" where
  "hold_tails = [(''address'', CHoldAddress), (''since'', CHoldSince), (''by'', CHoldText), (''reason'', CHoldText)]"

lemma hold_family: "list_all (tail_family ''breakglass_hold.'' hold_tails) wildcards"
  by (simp add: wildcards_def snmp_scope_wildcards_def hold_wildcards_def lockdown_wildcards_def
      netconf_scope_wildcards_def timeout_scale_wildcards_def path_parts_def rule_shapes tail_family_def
      hold_tails_def)

lemma hold_exact: "list_all (\<lambda>x. hd (path_parts (fst x)) \<noteq> hd (path_parts ''breakglass_hold.'')) (exact_rules backends)"
  by (simp add: exact_rules_def path_parts_def)

lemma first_text_refusal_None:
  "first_text_refusal E backends pairs = None \<Longrightarrow> p \<in> set pairs \<Longrightarrow> validate E backends (fst p) (snd p) False = None"
  by (induction E backends pairs rule: first_text_refusal.induct) (auto split: option.splits)

lemma address_valid:
  assumes "validate E backends (hold_path device ''address'') (YStr a) False = None"
  shows "a \<noteq> [] \<and> hold_address_usable a"
proof -
  obtain r where r: "rule_for backends (hold_path device ''address'') = Some r"
      "type_problem E r (hold_path device ''address'') (YStr a) = None"
    using assms by (rule validate_Some)
  have tails: "list_all (\<lambda>x. fst x \<noteq> [] \<and> CHR ''.'' \<notin> set (fst x)) hold_tails" by (simp add: hold_tails_def)
  have "(''address'', r_type r) \<in> set hold_tails"
    using tailed_rule [OF r(1) [unfolded hold_path_def] _ _ hold_exact hold_family tails] by simp
  then have "r_type r = CHoldAddress" by (simp add: hold_tails_def)
  with r(2) have "hold_address_problem a = None" by (simp add: type_problem_def hold_problem_def)
  then obtain n where n: "CHR ''/'' \<notin> set a" "CHR ''%'' \<notin> set a" "parse_net a = Some n"
    by (auto simp: hold_address_problem_def list_ex_iff split: if_splits option.splits)
  then have "cut_at (CHR ''/'') a = (a, [], False)" "cut_at (CHR ''%'') a = (a, [], False)" by (simp_all add: cut_at_def)
  with n(3) have "netip_addr a \<noteq> None"
    by (auto simp: parse_net_def netip_addr_def parse4_def parse6_def ip6_def split: option.splits)
  moreover from this have "a \<noteq> []" by (auto simp: netip_addr_def ip4_def ip6_addr_def)
  ultimately show ?thesis by (simp add: hold_address_usable_def)
qed

text \<open>What the pairs of some holds make of the entries of a document.\<close>

lemma written_holds:
  assumes "wf_tree (YMap d)" "distinct (map (hold_key \<circ> h_device) ws)"
    and "\<forall>h \<in> set ws. h_address h \<noteq> [] \<and> hold_address_usable (h_address h)"
  shows "set (hold_records (set_pairs d (concat (map hold_pairs ws)))) =
    {r \<in> set (hold_records d). h_key r \<notin> (hold_key \<circ> h_device) ` set ws} \<union> written_record ` set ws" (is "set (hold_records ?d) = ?r")
proof
  have wf: "wf_tree (YMap ?d)"
    by (intro set_pairs_wf assms(1)) (auto simp: hold_pairs_def)
  have at: "hold_at ?d k = hold_at d k" if "k \<notin> (hold_key \<circ> h_device) ` set ws" for k
    by (rule several_other [OF that])
  have new: "\<exists>v. hold_at ?d (hold_key (h_device h)) = Some v \<and> hold_record_of (hold_key (h_device h), v) = written_record h"
    if "h \<in> set ws" for h
    by (rule several_same [OF assms(3,2) that])
  show "set (hold_records ?d) \<subseteq> ?r"
  proof
    fix r
    assume "r \<in> set (hold_records ?d)"
    then obtain k v where r: "r = hold_record_of (k, v)" "hold_at ?d k = Some v" by (auto simp: hold_records_at [OF wf])
    show "r \<in> ?r"
    proof (cases "k \<in> (hold_key \<circ> h_device) ` set ws")
      case True
      then obtain h where "h \<in> set ws" "k = hold_key (h_device h)" by auto
      with new [of h] r show ?thesis by auto
    next
      case False
      with at [OF False] r(2) have "hold_at d k = Some v" by simp
      with r(1) False show ?thesis by (auto simp: hold_records_at [OF assms(1)])
    qed
  qed
  show "?r \<subseteq> set (hold_records ?d)"
  proof (intro Un_least subsetI)
    fix r
    assume "r \<in> {r \<in> set (hold_records d). h_key r \<notin> (hold_key \<circ> h_device) ` set ws}"
    then obtain k v where 1: "r = hold_record_of (k, v)" "hold_at d k = Some v" "k \<notin> (hold_key \<circ> h_device) ` set ws"
      by (auto simp: hold_records_at [OF assms(1)])
    with at [OF 1(3)] show "r \<in> set (hold_records ?d)" by (auto simp: hold_records_at [OF wf])
  next
    fix r
    assume "r \<in> written_record ` set ws"
    then obtain h where h: "h \<in> set ws" "r = written_record h" by blast
    from new [OF h(1)] obtain v where v: "hold_at ?d (hold_key (h_device h)) = Some v"
      "hold_record_of (hold_key (h_device h), v) = written_record h" by blast
    then have "hold_record_of (hold_key (h_device h), v) \<in> set (hold_records ?d)" unfolding hold_records_at [OF wf] by blast
    with v(2) h(2) show "r \<in> set (hold_records ?d)" by simp
  qed
qed

lemma set_held_addresses: "set (held_addresses d) = h_address ` set (holds_of d)"
proof -
  have "set (foldl (\<lambda>out h. add_new out (h_address h)) acc xs) = set acc \<union> h_address ` set xs" for acc and xs :: "hold list"
    by (induction xs arbitrary: acc) (auto simp: add_new_def)
  then show ?thesis by (simp add: held_addresses_def)
qed

lemma record_carved: "written_record h \<in> set (hold_records d) \<Longrightarrow> h_address h \<in> set (held_addresses d)"
proof -
  assume "written_record h \<in> set (hold_records d)"
  then have "plain_hold (written_record h) \<in> set (holds_of d)"
    by (auto simp: holds_of_def holds_in_def written_record_def)
  moreover have "h_address (plain_hold (written_record h)) = h_address h" by (simp add: plain_hold_def written_record_def)
  ultimately show ?thesis unfolding set_held_addresses by (metis imageI)
qed

text \<open>
  C12: \<open>SetHoldsIf\<close> writes the holds its check accepted, each against the usable holds of the file and those
  accepted before it, and nothing else: where the devices of the written holds have different keys, the entries
  read back are those of other keys, as they were, and for each written hold an entry that is usable, has no
  defect and holds its address, time, user and reason. Every address that is written is carved out.
\<close>

theorem set_holds_read_back:
  assumes "wf_tree (YMap d)" "set_holds_change E backends hs check d = Inr (Some d')"
    and "fst (accept_holds check (holds_of d) hs) = ws" "distinct (map (hold_key \<circ> h_device) ws)"
  shows "set (hold_records_of (yget d' ''breakglass_hold'')) =
      {r \<in> set (hold_records_of (yget d ''breakglass_hold'')). h_key r \<notin> (hold_key \<circ> h_device) ` set ws} \<union>
      written_record ` set ws \<and>
    (\<forall>us w vs. ws = us @ w # vs \<longrightarrow> check (holds_of d @ us) w = None) \<and>
    h_address ` set ws \<subseteq> set (held_addresses d')"
proof -
  let ?pairs = "concat (map hold_pairs ws)"
  have d': "d' = set_pairs d ?pairs" and valid: "first_text_refusal E backends ?pairs = None"
    using assms(2,3) by (auto simp: set_holds_change_def Let_def split: if_splits option.splits)
  have ok: "\<forall>h \<in> set ws. h_address h \<noteq> [] \<and> hold_address_usable (h_address h)"
  proof
    fix h
    assume "h \<in> set ws"
    then have "(hold_path (h_device h) ''address'', YStr (h_address h)) \<in> set ?pairs" by (auto simp: hold_pairs_def)
    from first_text_refusal_None [OF valid this] show "h_address h \<noteq> [] \<and> hold_address_usable (h_address h)"
      by (simp add: address_valid)
  qed
  note records = written_holds [OF assms(1,4) ok, folded d']
  have "check (holds_of d @ us) w = None" if "ws = us @ w # vs" for us w vs
    using accepted_checked [of check "holds_of d" hs us w vs] assms(3) that by simp
  moreover have "h_address ` set ws \<subseteq> set (held_addresses d')"
    using records by (auto intro!: record_carved)
  ultimately show ?thesis using records by blast
qed

section \<open>Removing\<close>

lemma foldl_ydel: "foldl ydel m ks = filter (\<lambda>p. fst p \<notin> set ks) m"
  by (induction ks arbitrary: m) (auto simp: ydel_def intro: filter_cong)

text \<open>
  C25: after \<open>UnsetHolds\<close> no entry of the devices is left, whatever spelling its key has, and every other entry is
  read as before and in its order.
\<close>

theorem unset_holds_read_back:
  assumes "unset_holds_change devices d = Inr out"
  shows "hold_records_of (yget (case out of None \<Rightarrow> d | Some d' \<Rightarrow> d') ''breakglass_hold'') =
    filter (\<lambda>r. h_device r \<notin> set devices) (hold_records_of (yget d ''breakglass_hold''))"
proof (cases "\<exists>m. yget d ''breakglass_hold'' = Some (YMap m)")
  case True
  then obtain m where m: "yget d ''breakglass_hold'' = Some (YMap m)" by blast
  let ?mine = "filter (\<lambda>k. hold_device k \<in> set devices) (ykeys m)"
  let ?m = "filter (\<lambda>p. hold_device (fst p) \<notin> set devices) m"
  have m': "foldl ydel m ?mine = ?m"
    unfolding foldl_ydel by (rule filter_cong) (auto simp: ykeys_def)
  have "filter (\<lambda>r. h_device r \<notin> set devices) (sort_key h_device (map hold_record_of m)) =
      sort_key h_device (map hold_record_of ?m)"
    by (simp add: filter_sort filter_map comp_def)
  moreover have "?mine = [] \<Longrightarrow> ?m = m"
    by (auto simp: filter_empty_conv filter_id_conv ykeys_def)
  ultimately show ?thesis
    using assms m by (auto simp: unset_holds_change_def m' Let_def hold_records_of_def split: if_splits)
next
  case False
  then have "hold_records d = []" by (auto simp: hold_records_of_def split: option.split yval.split)
  moreover have "out = None" using assms False by (auto simp: unset_holds_change_def split: option.splits yval.splits)
  ultimately show ?thesis by simp
qed

end
