(* ===== verification/ConfWitness.thy ===== *)
theory ConfWitness
  imports ConfFileProps ConfRollbackProps ConfHoldProps MgmtAclProps
begin

text \<open>
  Concrete documents on which the theorems of \<open>internal/conf\<close> apply: a first setting, a rollback, a lockdown, a hold
  that is written and one that is removed.
\<close>

definition plain_env :: schema_env where
  "plain_env = \<lparr>se_unicode = ascii_only, se_num = \<lparr>pn_digit = \<lambda>_. None, pn_parse_float = \<lambda>_. None\<rparr>,
     se_regex = \<lambda>_. None, se_time = \<lambda>_. True\<rparr>"

definition old_file :: ymap where
  "old_file = [(''reports'', YMap [(''max_size'', YInt 5)]), (''bcrypt'', YMap [(''cost'', YInt 12)])]"

theorem rollback_removes_exactly_unknown_witness:
  "leaf_keys (in_families added_0226) old_file = [''reports.max_size''] \<and>
   (\<exists>out. unset_many_change (leaf_keys (in_families added_0226) old_file) old_file = Inr out \<and>
      (\<forall>ps v. leaf_at (case out of None \<Rightarrow> old_file | Some d' \<Rightarrow> d') ps v \<longleftrightarrow>
         leaf_at old_file ps v \<and> \<not> in_families added_0226 (path_text ps)))"
proof
  show "leaf_keys (in_families added_0226) old_file = [''reports.max_size'']" by code_simp
  have "wf_tree (YMap old_file)" "plain_keys (YMap old_file)" by code_simp+
  from rollback_removes_exactly_unknown [OF this] show "\<exists>out. unset_many_change (leaf_keys (in_families added_0226) old_file) old_file = Inr out \<and>
      (\<forall>ps v. leaf_at (case out of None \<Rightarrow> old_file | Some d' \<Rightarrow> d') ps v \<longleftrightarrow>
         leaf_at old_file ps v \<and> \<not> in_families added_0226 (path_text ps))" .
qed

definition locked_file :: ymap where
  "locked_file = [(''emergency'', YMap [(''lockdown'', YMap [(''lab'', YMap [(''groups'', YList [YStr ''ops''])])])])]"

theorem update_lockdown_locked_groups_witness:
  "conf_locked_groups locked_file ''lab'' = Some [''ops''] \<and>
   update_lockdown_change plain_env [''tacacs''] ''lab'' (\<lambda>_. Inr None) locked_file = Inr (Some []) \<and>
   conf_locked_groups [] ''lab'' = None"
proof -
  have wf: "wf_tree (YMap locked_file)" by code_simp
  have c: "update_lockdown_change plain_env [''tacacs''] ''lab'' (\<lambda>_. Inr None) locked_file = Inr (Some [])" by code_simp
  from update_lockdown_locked_groups [OF wf refl c, of "''lab''"] have "conf_locked_groups [] ''lab'' = None" by simp
  moreover have "conf_locked_groups locked_file ''lab'' = Some [''ops'']" by code_simp
  ultimately show ?thesis using c by simp
qed

definition held_file :: ymap where
  "held_file = [(''breakglass_hold'', YMap [(''sw1'', YMap [(''address'', YStr ''::'')]), (''sw2~lan'', YMap [(''address'', YStr ''::'')])])]"

theorem unset_holds_read_back_witness:
  "unset_holds_change [''sw2.lan''] held_file = Inr (Some [(''breakglass_hold'', YMap [(''sw1'', YMap [(''address'', YStr ''::'')])])]) \<and>
   hold_records_of (Some (YMap [(''sw1'', YMap [(''address'', YStr ''::'')])])) =
     filter (\<lambda>r. h_device r \<notin> {''sw2.lan''}) (hold_records_of (yget held_file ''breakglass_hold''))"
proof -
  have c: "unset_holds_change [''sw2.lan''] held_file = Inr (Some [(''breakglass_hold'', YMap [(''sw1'', YMap [(''address'', YStr ''::'')])])])"
    by code_simp
  from unset_holds_read_back [OF c] c show ?thesis by (simp add: yget_Cons)
qed

lemma defaults_do_not_clash: "listeners_problems (se_num plain_env) (YMap []) None = []"
  by code_simp

theorem conf_change_keeps_file_valid_witness:
  "conf_change plain_env [] [''tacacs''] ModeSet ''bcrypt.cost'' (YInt 13) None [] =
     Inr (Some [(''bcrypt'', YMap [(''cost'', YInt 13)])]) \<and>
   validate_overrides plain_env [''tacacs''] [(''bcrypt'', YMap [(''cost'', YInt 13)])] = []"
proof -
  have c: "conf_change plain_env [] [''tacacs''] ModeSet ''bcrypt.cost'' (YInt 13) None [] =
      Inr (Some [(''bcrypt'', YMap [(''cost'', YInt 13)])])" by code_simp
  have v: "validate_overrides plain_env [''tacacs''] [] = []"
    using defaults_do_not_clash by (simp add: validate_overrides_def List.map_filter_simps)
  have "wf_tree (YMap [])" "wf_tree (YInt 13)" by code_simp+
  note change = conf_change_keeps_file_valid [OF this v c]
  have "ModeSet = ModeUnset \<Longrightarrow> hd (path_parts ''bcrypt.cost'') \<noteq> ''listeners''" by (rule write_mode.distinct [THEN notE])
  from change [OF this] show ?thesis by (rule conjI [OF c conjunct2])
qed

definition the_hold :: hold where
  "the_hold = \<lparr>h_device = ''s'', h_address = ''::'', h_since = ''t'', h_by = ''a'', h_reason = ''x''\<rparr>"

lemma hold_rules:
  "rule_for [''tacacs''] ''breakglass_hold.s.address'' = Some (tailed (plain_rule CHoldAddress) ''address'')"
  "rule_for [''tacacs''] ''breakglass_hold.s.since'' = Some (tailed (plain_rule CHoldSince) ''since'')"
  "rule_for [''tacacs''] ''breakglass_hold.s.by'' = Some (tailed (plain_rule CHoldText) ''by'')"
  "rule_for [''tacacs''] ''breakglass_hold.s.reason'' = Some (tailed (plain_rule CHoldText) ''reason'')"
  by code_simp+

lemma hold_address_text: "hold_address_problem ''::'' = None"
  by code_simp

lemma hold_by_text: "hold_by_problem ''a'' = None"
  by code_simp

lemma hold_reason_text: "hold_reason_problem ''x'' = None"
  by code_simp

lemma hold_accepted: "first_text_refusal plain_env [''tacacs''] (hold_pairs the_hold) = None"
proof -
  have "hold_path ''s'' tail = ''breakglass_hold.s.'' @ tail" for tail by (simp add: hold_path_def hold_key_def)
  moreover have "cut_suffix ''breakglass_hold.s.by'' ''.reason'' = None" "cut_suffix ''breakglass_hold.s.reason'' ''.reason'' \<noteq> None"
    by code_simp+
  ultimately show ?thesis
    by (simp add: hold_pairs_def the_hold_def validate_def hold_rules tailed_def plain_rule_def list_types_def
        type_problem_def hold_problem_def hold_address_text hold_by_text hold_reason_text plain_env_def)
qed

theorem set_holds_read_back_witness:
  "set_holds_change plain_env [''tacacs''] [the_hold] (\<lambda>_ _. None) [] = Inr (Some (set_pairs [] (hold_pairs the_hold))) \<and>
   set (hold_records_of (yget (set_pairs [] (hold_pairs the_hold)) ''breakglass_hold'')) = {written_record the_hold} \<and>
   ''::'' \<in> set (held_addresses (set_pairs [] (hold_pairs the_hold)))"
proof -
  have a: "accept_holds (\<lambda>_ _. None) (holds_of []) [the_hold] = ([the_hold], [])" by simp
  have c: "set_holds_change plain_env [''tacacs''] [the_hold] (\<lambda>_ _. None) [] = Inr (Some (set_pairs [] (hold_pairs the_hold)))"
    using a hold_accepted by (simp add: set_holds_change_def hold_pairs_def)
  have "wf_tree (YMap [])" by code_simp
  from set_holds_read_back [OF this c, of "[the_hold]"] a c show ?thesis
    by (simp add: hold_records_of_def the_hold_def)
qed

end
