(* ===== verification/Policy.thy ===== *)
theory Policy
  imports ConfRecords
begin

text \<open>
  \<open>internal/policy\<close>: the command rules of a group as \<open>name|action|match,match\<close> lines, edited as lines and
  written back by parsing them (\<open>policy.go\<close>), the healing of rules whose match can never fire, the shipped rules of
  earlier releases (\<open>previous_defaults.go\<close>), and the other settings of groups and scopes (\<open>groupset.go\<close>,
  \<open>tiergroups.go\<close>, \<open>netconf.go\<close>, \<open>timeoutscale.go\<close>, \<open>breakglass.go\<close>, \<open>orphans.go\<close>).
  A write is the value that goes to \<open>SetValue\<close>, or the removal of the key, and the write of \<open>ConfFile\<close> for it.
\<close>

section \<open>Rule lines\<close>

definition commands_path :: "string \<Rightarrow> string" where
  "commands_path g = ''commands.'' @ g"

definition privileges_path :: "string \<Rightarrow> string" where
  "privileges_path g = ''privileges.'' @ g"

definition rule_line :: "pyfmt \<Rightarrow> ymap \<Rightarrow> string" where
  "rule_line F m =
     (let name = (case yget m ''name'' of None \<Rightarrow> [] | Some v \<Rightarrow> conf_str F v);
          action = (case yget m ''action'' of None \<Rightarrow> ''permit'' | Some v \<Rightarrow> conf_str F v);
          matches = (case yget m ''match'' of Some (YList l) \<Rightarrow> map (conf_str F) l | _ \<Rightarrow> [])
      in name @ ''|'' @ action @ ''|'' @ join '','' matches)"

definition lines_of :: "pyfmt \<Rightarrow> yval option \<Rightarrow> string list" where
  "lines_of F v =
     (case v of Some (YList rules) \<Rightarrow> map (rule_line F) (List.map_filter map_of_val rules) | _ \<Rightarrow> [])"

definition group_lines :: "pyfmt \<Rightarrow> ymap \<Rightarrow> string \<Rightarrow> string list" where
  "group_lines F merged g = lines_of F (conf_value merged (commands_path g))"

definition default_lines :: "pyfmt \<Rightarrow> ymap \<Rightarrow> string \<Rightarrow> string list" where
  "default_lines F dflt g =
     (case yget dflt ''commands'' of Some (YMap m) \<Rightarrow> lines_of F (yget m g) | _ \<Rightarrow> [])"

text \<open>\<open>Field\<close> counts from 1.\<close>

definition field :: "string \<Rightarrow> nat \<Rightarrow> string" where
  "field line n = (let f = split_on (CHR ''|'') line in if n - 1 < length f then f ! (n - 1) else [])"

definition default_action_of :: "string list \<Rightarrow> string" where
  "default_action_of lines =
     (if lines = [] then ''permit''
      else if field (last lines) 1 = ''*'' then field (last lines) 2 else ''deny'')"

definition blank :: "string \<Rightarrow> bool" where
  "blank s \<longleftrightarrow> trim_space s = []"

text \<open>One line of \<open>Write\<close>: \<open>SplitN\<close> in three at the bar, the matches at the commas.\<close>

definition parse_line :: "string \<Rightarrow> yval" where
  "parse_line line =
     (case cut_at (CHR ''|'') line of
        (name, rest, bar) \<Rightarrow>
          if \<not> bar then YMap [(''name'', YStr name), (''action'', YStr ''permit'')]
          else case cut_at (CHR ''|'') rest of
            (action, ms, bar2) \<Rightarrow>
              let matches = (if bar2 then filter (\<lambda>m. m \<noteq> []) (split_on (CHR '','') ms) else [])
              in YMap ([(''name'', YStr name), (''action'', YStr action)] @
                       (if matches = [] then [] else [(''match'', YList (map YStr matches))])))"

definition rules_of_lines :: "string list \<Rightarrow> yval list" where
  "rules_of_lines lines =
     map parse_line (filter (\<lambda>l. py_strip l \<noteq> []) (concat (map (split_on (CHR 0x0A)) lines)))"

text \<open>What \<open>Write\<close> asks of the configuration: \<open>None\<close> removes the key.\<close>

definition write_of :: "string list \<Rightarrow> yval option" where
  "write_of lines = (let rules = rules_of_lines lines in if rules = [] then None else Some (YList rules))"

definition put_value ::
  "yaml_lib \<Rightarrow> schema_env \<Rightarrow> ymap \<Rightarrow> string list \<Rightarrow> conf_io \<Rightarrow> string \<Rightarrow> yval option \<Rightarrow> directory \<Rightarrow> conf_error option \<times> directory" where
  "put_value Y E dflt backends c path v D =
     (case v of
        None \<Rightarrow> conf_unset Y E dflt backends c path D
      | Some w \<Rightarrow> conf_set_value Y E dflt backends c path w D)"

definition write_rules ::
  "yaml_lib \<Rightarrow> schema_env \<Rightarrow> ymap \<Rightarrow> string list \<Rightarrow> conf_io \<Rightarrow> string \<Rightarrow> string list \<Rightarrow> directory \<Rightarrow> conf_error option \<times> directory" where
  "write_rules Y E dflt backends c g lines D = put_value Y E dflt backends c (commands_path g) (write_of lines) D"

section \<open>Edits of the lines\<close>

definition without_name :: "string list \<Rightarrow> string \<Rightarrow> string list" where
  "without_name lines name = filter (\<lambda>l. field l 1 \<noteq> name) lines"

definition non_blank :: "string list \<Rightarrow> string list" where
  "non_blank lines = filter (\<lambda>l. \<not> blank l) lines"

definition update_catchall :: "string list \<Rightarrow> string \<Rightarrow> string list" where
  "update_catchall lines action = non_blank (without_name lines ''*'' @ [''*|'' @ action @ ''|''])"

definition catchall_line :: "string list \<Rightarrow> string" where
  "catchall_line lines = ''*|'' @ default_action_of lines @ ''|''"

definition insert_rule :: "string list \<Rightarrow> string \<Rightarrow> string \<Rightarrow> string \<Rightarrow> string list" where
  "insert_rule lines name action matches =
     non_blank (without_name lines ''*'' @ [name @ ''|'' @ action @ ''|'' @ matches, catchall_line lines])"

definition remove_rule :: "string list \<Rightarrow> string \<Rightarrow> string list" where
  "remove_rule lines name = without_name lines name"

fun index_where :: "('a \<Rightarrow> bool) \<Rightarrow> 'a list \<Rightarrow> nat option" where
  "index_where P [] = None"
| "index_where P (x # xs) = (if P x then Some 0 else map_option Suc (index_where P xs))"

text \<open>\<open>Where\<close>: at the start, before the first rule of a name, or (neither, or the catch-all) at the end.\<close>

datatype rule_place = AtFirst | BeforeRule string

definition insert_rule_at :: "string list \<Rightarrow> string \<Rightarrow> string \<Rightarrow> string \<Rightarrow> rule_place \<Rightarrow> string list option" where
  "insert_rule_at lines name action matches place =
     (let ls = non_blank (without_name lines ''*'')
      in map_option (\<lambda>at. take at ls @ [name @ ''|'' @ action @ ''|'' @ matches] @ drop at ls @ [catchall_line lines])
           (case place of
              AtFirst \<Rightarrow> Some 0
            | BeforeRule n \<Rightarrow>
                if n = [] \<or> n = ''*'' then Some (length ls) else index_where (\<lambda>l. field l 1 = n) ls))"

definition line_matches :: "string \<Rightarrow> string" where
  "line_matches line =
     (case cut_at (CHR ''|'') line of
        (_, rest, bar) \<Rightarrow>
          if \<not> bar then []
          else case cut_at (CHR ''|'') rest of (_, ms, bar2) \<Rightarrow> if bar2 then ms else [])"

definition selects :: "string \<Rightarrow> string list option \<Rightarrow> string \<Rightarrow> string \<Rightarrow> bool" where
  "selects name matches action l \<longleftrightarrow>
     field l 1 = name \<and> (case matches of None \<Rightarrow> True | Some ms \<Rightarrow> line_matches l = join '','' ms) \<and>
     (action = [] \<or> field l 2 = action)"

definition rules_where :: "string list \<Rightarrow> string \<Rightarrow> string list option \<Rightarrow> string \<Rightarrow> (nat \<times> string) list" where
  "rules_where lines name matches action =
     filter (\<lambda>p. selects name matches action (snd p)) (zip [1..<Suc (length lines)] lines)"

datatype rule_removal = NothingRemoved | AmbiguousRules nat | RemovedRules "(nat \<times> string) list" "string list"

definition remove_rule_where :: "string list \<Rightarrow> string \<Rightarrow> string list option \<Rightarrow> string \<Rightarrow> bool \<Rightarrow> rule_removal" where
  "remove_rule_where lines name matches action every =
     (let gone = rules_where lines name matches action
      in if gone = [] then NothingRemoved
         else if length gone > 1 \<and> \<not> every then AmbiguousRules (length gone)
         else RemovedRules gone
                (map snd (filter (\<lambda>p. fst p \<notin> fst ` set gone) (zip [1..<Suc (length lines)] lines))))"

text \<open>\<open>BareSiblings\<close>: of the \<open>name|priv_lvl|class\<close> lines, the groups at the level of a group that have no rules.\<close>

definition bare_siblings :: "(string \<Rightarrow> string list) \<Rightarrow> string list \<Rightarrow> string \<Rightarrow> string \<times> string list" where
  "bare_siblings lines groups g =
     (let level = foldl (\<lambda>p l. if field l 1 = g then field l 2 else p) [] groups
      in if level = [] then ([], [])
         else (level,
               filter (\<lambda>other. lines other = [])
                 (map (\<lambda>l. field l 1)
                   (filter (\<lambda>l. field l 1 \<noteq> [] \<and> field l 1 \<noteq> g \<and> field l 2 = level) groups))))"

fun write_each ::
  "(string \<Rightarrow> directory \<Rightarrow> conf_error option \<times> directory) \<Rightarrow> string list \<Rightarrow> string list \<Rightarrow> directory \<Rightarrow>
     string list \<times> conf_error option \<times> directory" where
  "write_each w done [] D = (done, None, D)"
| "write_each w done (g # gs) D =
     (case w g D of (Some e, D') \<Rightarrow> (done, Some e, D') | (None, D') \<Rightarrow> write_each w (done @ [g]) gs D')"

definition seed_siblings ::
  "yaml_lib \<Rightarrow> schema_env \<Rightarrow> ymap \<Rightarrow> string list \<Rightarrow> conf_io \<Rightarrow> (string \<Rightarrow> string list) \<Rightarrow> string list \<Rightarrow> string \<Rightarrow>
     directory \<Rightarrow> string list \<times> conf_error option \<times> directory" where
  "seed_siblings Y E dflt backends c lines groups g D =
     write_each (\<lambda>other. write_rules Y E dflt backends c other [''*|permit|'']) [] (snd (bare_siblings lines groups g)) D"

definition default_rules :: "pyfmt \<Rightarrow> ymap \<Rightarrow> string \<Rightarrow> (string \<times> string list) option" where
  "default_rules F dflt g =
     (let lines = default_lines F dflt g
      in if lines = [] then None
         else Some (foldl (\<lambda>(action, permits) l.
                case cut_at (CHR ''|'') l of
                  (name, rest, bar) \<Rightarrow>
                    let act = fst (cut_at (CHR ''|'') rest)
                    in if \<not> bar then (action, permits)
                       else if name = ''*'' then (act, permits)
                       else if act = ''permit'' then (action, add_new permits name)
                       else (action, permits)) (''deny'', []) lines))"

definition apply_default_rules ::
  "yaml_lib \<Rightarrow> schema_env \<Rightarrow> pyfmt \<Rightarrow> ymap \<Rightarrow> string list \<Rightarrow> conf_io \<Rightarrow> string \<Rightarrow> directory \<Rightarrow> bool \<times> conf_error option \<times> directory" where
  "apply_default_rules Y E F dflt backends c g D =
     (let lines = default_lines F dflt g
      in if lines = [] then (False, None, D) else (True, write_rules Y E dflt backends c g lines D))"

section \<open>Privileges\<close>

definition privileges :: "pyfmt \<Rightarrow> ymap \<Rightarrow> string \<Rightarrow> string list" where
  "privileges F merged g = conf_get_list F merged (privileges_path g)"

definition default_privileges :: "pyfmt \<Rightarrow> ymap \<Rightarrow> string \<Rightarrow> string list" where
  "default_privileges F dflt g =
     (case yget dflt ''privileges'' of
        Some (YMap m) \<Rightarrow> (case yget m g of Some (YList l) \<Rightarrow> map (conf_str F) l | _ \<Rightarrow> [])
      | _ \<Rightarrow> [])"

definition write_privileges ::
  "yaml_lib \<Rightarrow> schema_env \<Rightarrow> ymap \<Rightarrow> string list \<Rightarrow> conf_io \<Rightarrow> string \<Rightarrow> string list \<Rightarrow> directory \<Rightarrow> conf_error option \<times> directory" where
  "write_privileges Y E dflt backends c g cmds D =
     conf_set_list Y E dflt backends c (privileges_path g) (list_items (join [CHR 0x0A] cmds @ [CHR 0x0A])) D"

definition clear_privileges ::
  "yaml_lib \<Rightarrow> schema_env \<Rightarrow> ymap \<Rightarrow> string list \<Rightarrow> conf_io \<Rightarrow> string \<Rightarrow> directory \<Rightarrow> conf_error option \<times> directory" where
  "clear_privileges Y E dflt backends c g D = conf_unset Y E dflt backends c (privileges_path g) D"

definition builtin_names :: "string list" where
  "builtin_names = [''readonly'', ''operator'', ''superuser'']"

definition empty_privilege_overrides :: "pyfmt \<Rightarrow> ymap \<Rightarrow> conf_view \<Rightarrow> string list" where
  "empty_privilege_overrides F dflt v =
     filter (\<lambda>g. has_override (cv_overrides v) (privileges_path g) \<and> privileges F (cv_merged v) g = [] \<and>
                 default_privileges F dflt g \<noteq> []) builtin_names"

section \<open>Healing\<close>

text \<open>One rule: the rule without its dead matches, and whether that changed it.\<close>

definition dead_match :: "yval option \<Rightarrow> yval \<Rightarrow> bool" where
  "dead_match name x =
     (case (name, x) of (Some (YStr n), YStr rx) \<Rightarrow> command_match_is_dead n rx | _ \<Rightarrow> False)"

definition heal_rule :: "yval \<Rightarrow> yval \<times> bool" where
  "heal_rule r =
     (case r of
        YMap m \<Rightarrow>
          (case yget m ''match'' of
             Some (YList matches) \<Rightarrow>
               let kept = filter (\<lambda>x. \<not> dead_match (yget m ''name'') x) matches
               in if matches = [] \<or> length kept = length matches then (r, False)
                  else (YMap (if kept \<noteq> [] then yset (ymake m) ''match'' (YList kept) else ydel (ymake m) ''match''), True)
           | _ \<Rightarrow> (r, False))
      | _ \<Rightarrow> (r, False))"

definition heal_rules :: "yval list \<Rightarrow> yval list \<times> bool" where
  "heal_rules rules = (map (fst \<circ> heal_rule) rules, list_ex (snd \<circ> heal_rule) rules)"

type_synonym shipped_rule = "string \<times> string \<times> string list"

definition shipped_value :: "shipped_rule \<Rightarrow> yval" where
  "shipped_value r =
     (case r of (name, action, ms) \<Rightarrow>
        YMap ([(''name'', YStr name), (''action'', YStr action)] @ (if ms = [] then [] else [(''match'', YList (map YStr ms))])))"

definition prev_show_full :: string where
  "prev_show_full = ''^(running-config view full)( .*)?$''"

definition prev_clear_023 :: string where
  "prev_clear_023 =
     ''^(counters|line|(ip )?arp '' @ [CHR 0x5C] @ ''S+|arp-cache '' @ [CHR 0x5C] @
     ''S+|mac address-table dynamic '' @ [CHR 0x5C] @ ''S+)( .*)?$''"

definition previous_defaults :: "string \<Rightarrow> shipped_rule list list" where
  "previous_defaults g =
     (if g = ''operator'' then
        [[(''show'', ''permit'', []), (''ping'', ''permit'', []), (''traceroute'', ''permit'', []),
          (''terminal'', ''permit'', []), (''*'', ''deny'', [])],
         [(''show'', ''deny'', [prev_show_full]), (''show'', ''permit'', []), (''dir'', ''permit'', []),
          (''ping'', ''permit'', []), (''traceroute'', ''permit'', []), (''terminal'', ''permit'', []),
          (''ssh'', ''permit'', []), (''telnet'', ''permit'', []), (''monitor'', ''permit'', [''^(capture)( .*)?$'']),
          (''clear'', ''permit'', [prev_clear_023]), (''undebug'', ''permit'', []), (''exit'', ''permit'', []),
          (''logout'', ''permit'', []), (''*'', ''deny'', [])]]
      else if g = ''readonly'' then
        [[(''show'', ''permit'', []), (''ping'', ''permit'', []), (''traceroute'', ''permit'', []), (''*'', ''deny'', [])],
         [(''show'', ''deny'', [prev_show_full]), (''show'', ''permit'', []), (''dir'', ''permit'', []),
          (''ping'', ''permit'', []), (''traceroute'', ''permit'', []), (''terminal'', ''permit'', [''^(length|width)( .*)?$'']),
          (''exit'', ''permit'', []), (''logout'', ''permit'', []), (''*'', ''deny'', [])]]
      else [])"

definition previous_privileges :: "string \<Rightarrow> string list list" where
  "previous_privileges g =
     (if g = ''operator'' then
        [[''exec all: ping'', ''exec all: traceroute'', ''exec all: monitor capture'', ''clear counters'', ''clear line'',
          ''clear ip arp'', ''clear arp-cache'', ''clear mac address-table dynamic'', ''undebug all'']]
      else [])"

definition is_previous_default :: "string \<Rightarrow> yval \<Rightarrow> bool" where
  "is_previous_default g v = list_ex (\<lambda>gen. py_equal v (YList (map shipped_value gen))) (previous_defaults g)"

definition is_previous_privileges :: "string \<Rightarrow> yval \<Rightarrow> bool" where
  "is_previous_privileges g v = list_ex (\<lambda>gen. py_equal v (YList (map YStr gen))) (previous_privileges g)"

text \<open>What healing does to the override of one group: \<open>None\<close> leaves it, \<open>Some None\<close> drops it.\<close>

definition heal_group :: "ymap \<Rightarrow> string \<Rightarrow> yval \<Rightarrow> yval option option" where
  "heal_group dflt g v =
     (case v of
        YList rules \<Rightarrow>
          (case heal_rules rules of
             (healed, changed) \<Rightarrow>
               if \<not> changed then None
               else if (case yget dflt ''commands'' of
                          Some (YMap dm) \<Rightarrow> (case yget dm g of Some def \<Rightarrow> py_equal (YList healed) def | None \<Rightarrow> False)
                        | _ \<Rightarrow> False) \<or> is_previous_default g (YList healed)
               then Some None
               else Some (Some (YList healed)))
      | _ \<Rightarrow> None)"

definition heal_plan :: "ymap \<Rightarrow> conf_view \<Rightarrow> (string \<times> yval option) list" where
  "heal_plan dflt v =
     (if cv_problem v then []
      else case yget (cv_overrides v) ''commands'' of
        Some (YMap groups) \<Rightarrow>
          List.map_filter (\<lambda>g. map_option (Pair g) (heal_group dflt g (yval_at groups g))) (sort_strings (ykeys groups))
      | _ \<Rightarrow> [])"

fun heal_steps ::
  "(string \<Rightarrow> yval option \<Rightarrow> directory \<Rightarrow> conf_error option \<times> directory) \<Rightarrow> (string \<times> yval option) list \<Rightarrow>
     directory \<Rightarrow> (string \<times> bool) list \<times> conf_error option \<times> directory" where
  "heal_steps w [] D = ([], None, D)"
| "heal_steps w ((g, v) # steps) D =
     (case w g v D of
        (Some e, D') \<Rightarrow> ([], Some e, D')
      | (None, D') \<Rightarrow> (case heal_steps w steps D' of (out, e, D'') \<Rightarrow> ((g, v = None) # out, e, D'')))"

definition heal_dead_matches ::
  "yaml_lib \<Rightarrow> schema_env \<Rightarrow> ymap \<Rightarrow> string list \<Rightarrow> conf_io \<Rightarrow> conf_view \<Rightarrow> directory \<Rightarrow>
     (string \<times> bool) list \<times> conf_error option \<times> directory" where
  "heal_dead_matches Y E dflt backends c v D =
     heal_steps (\<lambda>g w. put_value Y E dflt backends c (commands_path g) w) (heal_plan dflt v) D"

end
