(* ===== verification/PolicySettings.thy ===== *)
theory PolicySettings
  imports Policy ModelViews
begin

text \<open>
  The other settings of \<open>internal/policy\<close>: the Junos deny sets, the WTI level and the tier of a group
  (\<open>groupset.go\<close>, \<open>tiergroups.go\<close>), SNMP, NETCONF and the timing scale of a scope (\<open>snmp.go\<close>, \<open>netconf.go\<close>,
  \<open>timeoutscale.go\<close>), its break-glass users (\<open>breakglass.go\<close>), and the settings of groups that are gone
  (\<open>orphans.go\<close>).
\<close>

section \<open>Groups\<close>

definition junos_path :: "string \<Rightarrow> string \<Rightarrow> string" where
  "junos_path g attr = ''junos.'' @ g @ ''.'' @ attr"

definition wti_path :: "string \<Rightarrow> string" where
  "wti_path g = ''wti_level.'' @ g"

definition tier_path :: "string \<Rightarrow> string" where
  "tier_path g = ''tier.'' @ g"

definition junos_set :: "pyfmt \<Rightarrow> ymap \<Rightarrow> string \<Rightarrow> string \<Rightarrow> string list" where
  "junos_set F merged g attr = conf_get_list F merged (junos_path g attr)"

definition write_junos_set ::
  "yaml_lib \<Rightarrow> schema_env \<Rightarrow> ymap \<Rightarrow> string list \<Rightarrow> conf_io \<Rightarrow> string \<Rightarrow> string \<Rightarrow> string list \<Rightarrow> directory \<Rightarrow>
     conf_error option \<times> directory" where
  "write_junos_set Y E dflt backends c g attr items D =
     (if items = [] then conf_unset Y E dflt backends c (junos_path g attr) D
      else conf_set_list Y E dflt backends c (junos_path g attr) items D)"

definition wti_floor :: "string \<Rightarrow> int" where
  "wti_floor level =
     (if level = ''user'' then 5 else if level = ''superuser'' then 10 else if level = ''administrator'' then 15 else 0)"

text \<open>\<open>radius.WTISuper\<close>: the value and the label of the band.\<close>

definition wti_bands :: "(int \<times> int \<times> string) list" where
  "wti_bands = [(15, 3, ''Administrator''), (10, 2, ''SuperUser''), (5, 1, ''User''), (0, 0, ''ViewOnly'')]"

definition wti_super :: "int \<Rightarrow> int \<times> string" where
  "wti_super lvl = snd (case first_where (\<lambda>b. lvl \<ge> fst b) wti_bands of Some b \<Rightarrow> b | None \<Rightarrow> last wti_bands)"

definition wti_level_of :: "int \<Rightarrow> string" where
  "wti_level_of lvl = map ascii_lower (snd (wti_super lvl))"

definition wti_level :: "pyfmt \<Rightarrow> ymap \<Rightarrow> string \<Rightarrow> int \<Rightarrow> string \<times> bool" where
  "wti_level F merged g lvl =
     (case conf_get F merged (wti_path g) [] of
        Some v \<Rightarrow> if v \<noteq> [] then (v, True) else (wti_level_of lvl, False)
      | None \<Rightarrow> (wti_level_of lvl, False))"

definition write_level ::
  "yaml_lib \<Rightarrow> schema_env \<Rightarrow> ymap \<Rightarrow> string list \<Rightarrow> conf_io \<Rightarrow> string \<Rightarrow> string \<Rightarrow> directory \<Rightarrow> conf_error option \<times> directory" where
  "write_level Y E dflt backends c path level D =
     (if level = [] \<or> level = ''auto'' then conf_unset Y E dflt backends c path D
      else conf_set Y E dflt backends c path level D)"

definition write_wti_level ::
  "yaml_lib \<Rightarrow> schema_env \<Rightarrow> ymap \<Rightarrow> string list \<Rightarrow> conf_io \<Rightarrow> string \<Rightarrow> string \<Rightarrow> directory \<Rightarrow> conf_error option \<times> directory" where
  "write_wti_level Y E dflt backends c g level D = write_level Y E dflt backends c (wti_path g) level D"

definition write_group_tier ::
  "yaml_lib \<Rightarrow> schema_env \<Rightarrow> ymap \<Rightarrow> string list \<Rightarrow> conf_io \<Rightarrow> string \<Rightarrow> string \<Rightarrow> directory \<Rightarrow> conf_error option \<times> directory" where
  "write_group_tier Y E dflt backends c g level D = write_level Y E dflt backends c (tier_path g) level D"

text \<open>\<open>TierProblem\<close>: the group whose setting cannot be a tier, or that \<open>tier\<close> is no mapping.\<close>

datatype tier_problem = TierNotMapping | TierOfGroup string

definition tier_problem_of :: "ymap \<Rightarrow> tier_problem option" where
  "tier_problem_of merged =
     (case conf_value merged ''tier'' of
        None \<Rightarrow> None
      | Some (YMap m) \<Rightarrow>
          map_option TierOfGroup (first_where (\<lambda>g. group_tier_setting merged g = ''invalid'') (ykeys m))
      | Some _ \<Rightarrow> Some TierNotMapping)"

definition stale_kinds :: "(string \<times> string) list" where
  "stale_kinds = [(''tier'', ''tier''), (''wti_level'', ''wti-level''), (''junos'', ''junos'')]"

definition kinds_of :: "ymap \<Rightarrow> string \<Rightarrow> string list" where
  "kinds_of merged g =
     map snd (filter (\<lambda>k. g \<in> set (conf_get_keys merged (fst k))) stale_kinds)"

definition stale_groups :: "ymap \<Rightarrow> (string \<Rightarrow> bool) \<Rightarrow> (string \<times> string list) list" where
  "stale_groups merged present =
     map (\<lambda>g. (g, kinds_of merged g))
       (sort_strings (dedup (filter (\<lambda>g. \<not> present g) (concat (map (\<lambda>k. conf_get_keys merged (fst k)) stale_kinds)))))"

fun unset_each ::
  "(string \<Rightarrow> directory \<Rightarrow> conf_error option \<times> directory) \<Rightarrow> string list \<Rightarrow> directory \<Rightarrow> conf_error option \<times> directory" where
  "unset_each w [] D = (None, D)"
| "unset_each w (p # ps) D = (case w p D of (Some e, D') \<Rightarrow> (Some e, D') | (None, D') \<Rightarrow> unset_each w ps D')"

definition forget_group ::
  "yaml_lib \<Rightarrow> schema_env \<Rightarrow> ymap \<Rightarrow> string list \<Rightarrow> conf_io \<Rightarrow> string \<Rightarrow> directory \<Rightarrow> conf_error option \<times> directory" where
  "forget_group Y E dflt backends c g D =
     unset_each (conf_unset Y E dflt backends c) [''junos.'' @ g, wti_path g, tier_path g] D"

definition needs_tier :: "string \<Rightarrow> int option \<Rightarrow> bool" where
  "needs_tier g lvl \<longleftrightarrow> (case lvl of None \<Rightarrow> False | Some l \<Rightarrow> l \<ge> 15 \<and> g \<noteq> ''superuser'')"

definition unset_tier_groups :: "ymap \<Rightarrow> (string \<times> int option) list \<Rightarrow> string list" where
  "unset_tier_groups merged groups =
     map fst (filter (\<lambda>(g, lvl). needs_tier g lvl \<and> group_tier_setting merged g = []) groups)"

text \<open>\<open>PinGroups\<close>: a snapshot first, then one write after the other.\<close>

definition pin_groups ::
  "yaml_lib \<Rightarrow> schema_env \<Rightarrow> ymap \<Rightarrow> string list \<Rightarrow> conf_io \<Rightarrow> string list \<Rightarrow> conf_error option \<Rightarrow> directory \<Rightarrow>
     string list \<times> conf_error option \<times> directory" where
  "pin_groups Y E dflt backends c groups snapshot D =
     (if groups = [] then ([], None, D)
      else case snapshot of
        Some e \<Rightarrow> ([], Some e, D)
      | None \<Rightarrow> write_each (\<lambda>g. write_group_tier Y E dflt backends c g ''superuser'') [] groups D)"

definition orphan_keys :: "ymap \<Rightarrow> string list \<Rightarrow> (string \<Rightarrow> bool) \<Rightarrow> string list" where
  "orphan_keys merged families present =
     concat (map (\<lambda>fam. map (\<lambda>n. fam @ ''.'' @ n)
       (sort_strings (filter (\<lambda>n. \<not> present n) (conf_get_keys merged fam)))) families)"

section \<open>Scopes\<close>

definition conf_num :: "pyfmt \<Rightarrow> ymap \<Rightarrow> string \<Rightarrow> int" where
  "conf_num F merged path =
     (case conf_get F merged path [] of
        None \<Rightarrow> 0 | Some v \<Rightarrow> (case go_atoi v of None \<Rightarrow> 0 | Some n \<Rightarrow> n))"

definition conf_text :: "pyfmt \<Rightarrow> ymap \<Rightarrow> string \<Rightarrow> string" where
  "conf_text F merged path = (case conf_get F merged path [] of None \<Rightarrow> [] | Some v \<Rightarrow> v)"

definition snmp_path :: "string \<Rightarrow> string \<Rightarrow> string" where
  "snmp_path scope k = ''snmp_scope.'' @ scope @ ''.'' @ k"

definition netconf_path :: "string \<Rightarrow> string \<Rightarrow> string" where
  "netconf_path scope k = ''netconf_scope.'' @ scope @ ''.'' @ k"

definition scale_path :: "string \<Rightarrow> string" where
  "scale_path scope = ''timeout_scale_scope.'' @ scope"

record snmp_scope =
  ss_version :: string
  ss_port :: int
  ss_timeout :: int
  ss_auth :: string
  ss_priv :: string
  ss_contact :: string
  ss_clients :: "string list"

definition snmp_clients_of :: "pyfmt \<Rightarrow> ymap \<Rightarrow> string \<Rightarrow> string list" where
  "snmp_clients_of F merged scope = conf_get_list F merged (snmp_path scope ''clients'')"

definition snmp_settings :: "pyfmt \<Rightarrow> ymap \<Rightarrow> string \<Rightarrow> snmp_scope" where
  "snmp_settings F merged scope =
     \<lparr>ss_version = conf_text F merged (snmp_path scope ''version''), ss_port = conf_num F merged (snmp_path scope ''port''),
      ss_timeout = conf_num F merged (snmp_path scope ''timeout''), ss_auth = conf_text F merged (snmp_path scope ''v3.auth''),
      ss_priv = conf_text F merged (snmp_path scope ''v3.priv''), ss_contact = conf_text F merged (snmp_path scope ''contact''),
      ss_clients = snmp_clients_of F merged scope\<rparr>"

text \<open>\<open>AddSNMPClients\<close> and \<open>RemoveSNMPClients\<close>: the new list, what changed it and what did not.\<close>

definition add_clients :: "string list \<Rightarrow> string list \<Rightarrow> string list \<times> string list \<times> string list" where
  "add_clients cur entries =
     foldl (\<lambda>(cur, added, skipped) e.
       if e \<in> set cur then (cur, added, skipped @ [e]) else (cur @ [e], added @ [e], skipped)) (cur, [], []) entries"

definition remove_clients :: "string list \<Rightarrow> string list \<Rightarrow> string list \<times> string list \<times> string list" where
  "remove_clients cur entries =
     foldl (\<lambda>(cur, removed, missing) e.
       if e \<in> set cur then (remove1 e cur, removed @ [e], missing) else (cur, removed, missing @ [e])) (cur, [], []) entries"

definition change_clients ::
  "yaml_lib \<Rightarrow> schema_env \<Rightarrow> ymap \<Rightarrow> string list \<Rightarrow> conf_io \<Rightarrow> string \<Rightarrow> string list \<times> string list \<times> string list \<Rightarrow>
     directory \<Rightarrow> conf_error option \<times> directory" where
  "change_clients Y E dflt backends c scope change D =
     (case change of (cur, changed, _) \<Rightarrow>
        if changed = [] then (None, D) else conf_set_list Y E dflt backends c (snmp_path scope ''clients'') cur D)"

definition snmp_keys :: "string list" where
  "snmp_keys = [''version'', ''port'', ''timeout'', ''v3.auth'', ''v3.priv'', ''contact'', ''clients'']"

definition netconf_keys :: "string list" where
  "netconf_keys = [''state'', ''connection_limit'', ''rate_limit'']"

definition scope_has_keys :: "(string \<Rightarrow> string) \<Rightarrow> string list \<Rightarrow> ymap \<Rightarrow> bool" where
  "scope_has_keys path keys overrides \<longleftrightarrow> list_ex (\<lambda>k. has_override overrides (path k)) keys"

record netconf_settings =
  nc_state :: string
  nc_connections :: int
  nc_rate :: int

definition netconf_settings_of :: "pyfmt \<Rightarrow> ymap \<Rightarrow> string \<Rightarrow> netconf_settings" where
  "netconf_settings_of F merged scope =
     \<lparr>nc_state = conf_text F merged (netconf_path scope ''state''),
      nc_connections = conf_num F merged (netconf_path scope ''connection_limit''),
      nc_rate = conf_num F merged (netconf_path scope ''rate_limit'')\<rparr>"

definition set_netconf_limit ::
  "yaml_lib \<Rightarrow> schema_env \<Rightarrow> ymap \<Rightarrow> string list \<Rightarrow> conf_io \<Rightarrow> string \<Rightarrow> string \<Rightarrow> int \<Rightarrow> directory \<Rightarrow> conf_error option \<times> directory" where
  "set_netconf_limit Y E dflt backends c scope k n D =
     (if n = 0 then conf_unset Y E dflt backends c (netconf_path scope k) D
      else conf_set Y E dflt backends c (netconf_path scope k) (int_text n) D)"

text \<open>
  \<open>MoveSNMPScope\<close>, \<open>MoveNetconfScope\<close>: each key of the file goes to the new name (or goes), with the view as it
  was read; what could not be stored under the new name is named.
\<close>

fun move_scope ::
  "yaml_lib \<Rightarrow> schema_env \<Rightarrow> ymap \<Rightarrow> string list \<Rightarrow> conf_io \<Rightarrow> conf_view \<Rightarrow> (string \<Rightarrow> string) \<Rightarrow> (string \<Rightarrow> string) option \<Rightarrow>
     string list \<Rightarrow> string list \<Rightarrow> directory \<Rightarrow> string list \<times> conf_error option \<times> directory" where
  "move_scope Y E dflt backends c v from to lost [] D = (lost, None, D)"
| "move_scope Y E dflt backends c v from to lost (k # ks) D =
     (if \<not> has_override (cv_overrides v) (from k) then move_scope Y E dflt backends c v from to lost ks D
      else case conf_unset Y E dflt backends c (from k) D of
        (Some e, D') \<Rightarrow> (lost, Some e, D')
      | (None, D') \<Rightarrow>
          (case to of
             None \<Rightarrow> move_scope Y E dflt backends c v from to lost ks D'
           | Some t \<Rightarrow>
               (case conf_set_value Y E dflt backends c (t k) (nil_if_none (conf_value (cv_merged v) (from k))) D' of
                  (Some e, D'') \<Rightarrow> move_scope Y E dflt backends c v from to (lost @ [from k]) ks D''
                | (None, D'') \<Rightarrow> move_scope Y E dflt backends c v from to lost ks D'')))"

definition read_scale :: "pyfmt \<Rightarrow> conf_view \<Rightarrow> string \<Rightarrow> int" where
  "read_scale F v path =
     (if \<not> has_override (cv_overrides v) path then 0
      else case go_atoi (conf_text F (cv_merged v) path) of
        None \<Rightarrow> 0 | Some n \<Rightarrow> if n < 1 \<or> n > 10 then 0 else n)"

definition scale_of_scope :: "pyfmt \<Rightarrow> conf_view \<Rightarrow> string \<Rightarrow> int" where
  "scale_of_scope F v scope = (if scope = [] then 0 else read_scale F v (scale_path scope))"

definition set_scale ::
  "yaml_lib \<Rightarrow> schema_env \<Rightarrow> ymap \<Rightarrow> string list \<Rightarrow> conf_io \<Rightarrow> string \<Rightarrow> int \<Rightarrow> directory \<Rightarrow> conf_error option \<times> directory" where
  "set_scale Y E dflt backends c scope n D = conf_set Y E dflt backends c (scale_path scope) (int_text n) D"

section \<open>Break-glass users\<close>

definition break_glass_path :: "string \<Rightarrow> string" where
  "break_glass_path scope = ''breakglass_scope.'' @ scope @ ''.users''"

definition split_break_glass :: "string \<Rightarrow> (string \<times> string) option" where
  "split_break_glass entry =
     (case cut_at (CHR '':'') entry of
        (name, role, found) \<Rightarrow>
          if \<not> found \<or> \<not> match_break_glass name \<or> role \<notin> {''admin'', ''operator'', ''readonly''} then None
          else Some (name, role))"

definition break_glass_users :: "pyfmt \<Rightarrow> ymap \<Rightarrow> string \<Rightarrow> (string \<times> string) list" where
  "break_glass_users F merged scope = List.map_filter split_break_glass (conf_get_list F merged (break_glass_path scope))"

definition break_glass_match ::
  "pyfmt \<Rightarrow> (string \<Rightarrow> string \<Rightarrow> bool) \<Rightarrow> ymap \<Rightarrow> string \<Rightarrow> string list \<Rightarrow> ((string \<times> string) \<times> string) option" where
  "break_glass_match F fold_eq merged name scopes =
     first_where (\<lambda>x. fold_eq (fst (fst x)) name)
       (concat (map (\<lambda>s. map (\<lambda>u. (u, s)) (break_glass_users F merged s)) scopes))"

definition write_break_glass_users ::
  "yaml_lib \<Rightarrow> schema_env \<Rightarrow> ymap \<Rightarrow> string list \<Rightarrow> conf_io \<Rightarrow> string \<Rightarrow> (string \<times> string) list \<Rightarrow> directory \<Rightarrow>
     conf_error option \<times> directory" where
  "write_break_glass_users Y E dflt backends c scope users D =
     (if users = [] then conf_unset Y E dflt backends c (break_glass_path scope) D
      else conf_set_list Y E dflt backends c (break_glass_path scope) (map (\<lambda>u. fst u @ '':'' @ snd u) users) D)"

end
