(* ===== verification/PolicyProps.thy ===== *)
theory PolicyProps
  imports PolicySettings
begin

text \<open>
  The command rules: lines and values are each other's inverse where the values hold no separator, an insertion
  keeps the order of the rules and the catch-all last, a removal takes what was selected, and healing leaves no
  match that can never fire.
\<close>

section \<open>Lines with a bar are not blank\<close>

lemma trim_front_keeps: "c \<in> set s \<Longrightarrow> \<forall>p \<in> set seqs. c \<notin> set p \<Longrightarrow> c \<in> set (trim_front seqs s)"
proof (induction seqs s rule: trim_front.induct)
  case (1 seqs s)
  show ?case
  proof (cases "strip_one seqs s")
    case None
    with 1 show ?thesis by (simp add: trim_front_id)
  next
    case (Some t)
    then obtain p where p: "p \<in> set seqs" "take (length p) s = p" "t = drop (length p) s"
      by (auto simp: strip_one_def split: option.splits dest!: first_where_Some)
    then have "set s = set p \<union> set t" by (metis append_take_drop_id set_append)
    with 1(2,3) p(1) have "c \<in> set t" by auto
    with 1(1) [OF Some] 1(3) Some show ?thesis by (subst trim_front.simps) simp
  qed
qed

lemma trim_seqs_keeps: "c \<in> set s \<Longrightarrow> \<forall>p \<in> set seqs. c \<notin> set p \<Longrightarrow> c \<in> set (trim_seqs seqs s)"
  by (simp add: trim_seqs_def trim_front_keeps)

lemma bar_not_blank: "CHR ''|'' \<in> set s \<Longrightarrow> py_strip s \<noteq> []" "CHR ''|'' \<in> set s \<Longrightarrow> \<not> blank s"
proof -
  have no: "\<forall>p \<in> set space_seqs. CHR ''|'' \<notin> set p" by (simp add: space_seqs_def)
  assume s: "CHR ''|'' \<in> set s"
  have "CHR ''|'' \<in> set (py_strip s)" unfolding py_strip_def by (rule trim_seqs_keeps [OF s]) (use no in auto)
  then show "py_strip s \<noteq> []" by auto
  have "CHR ''|'' \<in> set (trim_space s)" unfolding trim_space_def by (rule trim_seqs_keeps [OF s no])
  then show "\<not> blank s" by (auto simp: blank_def)
qed

section \<open>Fields\<close>

lemma field_1: "field line 1 = fst (cut_at (CHR ''|'') line)"
proof (cases "CHR ''|'' \<in> set line")
  case True
  then obtain a b where "line = a @ CHR ''|'' # b" "CHR ''|'' \<notin> set a" using split_list_first by metis
  then show ?thesis by (simp add: field_def split_on_append_sep cut_at_found)
qed (simp add: field_def split_on_no_sep cut_at_none)

lemma field_2: "CHR ''|'' \<notin> set name \<Longrightarrow> field (name @ ''|'' @ rest) 2 = fst (cut_at (CHR ''|'') rest)"
  using field_1 [of rest] by (simp add: field_def split_on_append_sep)

lemma field_1_Suc: "field line (Suc 0) = fst (cut_at (CHR ''|'') line)"
  using field_1 by simp

lemma field_no_bar: "CHR ''|'' \<notin> set (field line n)"
  by (auto simp: field_def Let_def dest: split_on_parts [THEN conjunct1, OF nth_mem])

lemma catchall_fields: "field (catchall_line lines) 1 = ''*''" "field (catchall_line lines) 2 = default_action_of lines"
proof -
  have "CHR ''|'' \<notin> set (default_action_of lines)"
    by (simp add: default_action_of_def field_no_bar)
  then show "field (catchall_line lines) 2 = default_action_of lines"
    using field_2 [of "''*''" "default_action_of lines @ ''|''"] cut_at_found [of "CHR ''|''" "default_action_of lines" "[]"]
    by (simp add: catchall_line_def)
  show "field (catchall_line lines) 1 = ''*''"
    using cut_at_found [of "CHR ''|''" "''*''"] by (simp add: field_1_Suc catchall_line_def)
qed

section \<open>The round trip\<close>

text \<open>A rule whose parts hold no separator of the line that carries it.\<close>

definition separable :: "shipped_rule \<Rightarrow> bool" where
  "separable r \<longleftrightarrow>
     (case r of (name, action, ms) \<Rightarrow>
        (\<forall>c \<in> set name \<union> set action. c \<noteq> CHR ''|'' \<and> c \<noteq> CHR 0x0A) \<and>
        (\<forall>m \<in> set ms. m \<noteq> [] \<and> CHR '','' \<notin> set m \<and> CHR 0x0A \<notin> set m))"

definition shipped_line :: "shipped_rule \<Rightarrow> string" where
  "shipped_line r = (case r of (name, action, ms) \<Rightarrow> name @ ''|'' @ action @ ''|'' @ join '','' ms)"

lemma rule_line_shipped:
  "rule_line F (case shipped_value r of YMap m \<Rightarrow> m | _ \<Rightarrow> []) = shipped_line r"
  by (cases r) (simp add: rule_line_def shipped_value_def shipped_line_def yget_Cons conf_str_def comp_def)

lemma lines_of_shipped: "lines_of F (Some (YList (map shipped_value rs))) = map shipped_line rs"
proof (induction rs)
  case (Cons r rs)
  obtain m where m: "shipped_value r = YMap m" by (cases r) (simp add: shipped_value_def)
  with Cons rule_line_shipped [of F r] show ?case by (simp add: lines_of_def List.map_filter_simps)
qed (simp add: lines_of_def List.map_filter_simps)

lemma split_join_matches: "\<forall>m \<in> set ms. m \<noteq> [] \<and> c \<notin> set m \<Longrightarrow> filter (\<lambda>m. m \<noteq> []) (split_on c (join [c] ms)) = ms"
  by (cases "ms = []") (simp_all add: split_join filter_id_conv)

lemma parse_shipped_line:
  assumes "separable r"
  shows "parse_line (shipped_line r) = shipped_value r"
proof -
  obtain name action ms where r: "r = (name, action, ms)" by (cases r) auto
  have s: "CHR ''|'' \<notin> set name" "CHR ''|'' \<notin> set action" "\<forall>m \<in> set ms. m \<noteq> [] \<and> CHR '','' \<notin> set m"
    using assms by (auto simp: separable_def r)
  have 1: "cut_at (CHR ''|'') (shipped_line r) = (name, action @ CHR ''|'' # join '','' ms, True)"
    using cut_at_found [OF s(1), of "action @ CHR ''|'' # join '','' ms"] by (simp add: shipped_line_def r)
  have 2: "cut_at (CHR ''|'') (action @ CHR ''|'' # join '','' ms) = (action, join '','' ms, True)"
    by (rule cut_at_found [OF s(2)])
  show ?thesis using split_join_matches [OF s(3)] by (simp add: parse_line_def 1 [unfolded r] 2 shipped_value_def r)
qed

lemma no_newline: "separable r \<Longrightarrow> CHR 0x0A \<notin> set (shipped_line r)"
proof -
  assume sep: "separable r"
  obtain name action ms where r: "r = (name, action, ms)" by (cases r) auto
  have "CHR 0x0A \<notin> set (join '','' ms)"
  proof
    assume "CHR 0x0A \<in> set (join '','' ms)"
    with set_join [of "'',''" ms] have "CHR 0x0A \<in> set '','' \<union> (\<Union>w \<in> set ms. set w)" by blast
    with sep show False by (auto simp: separable_def r)
  qed
  with sep show ?thesis by (auto simp: separable_def shipped_line_def r)
qed

text \<open>
  C27: the lines carry the rules without loss where no name and action holds a bar or a line break and no match is
  empty or holds a comma or a line break: what \<open>Write\<close> stores for the lines of a list of such rules is the list.
\<close>

theorem rules_round_trip:
  assumes "\<forall>r \<in> set rs. separable r"
  shows "rules_of_lines (lines_of F (Some (YList (map shipped_value rs)))) = map shipped_value rs"
  using assms unfolding lines_of_shipped
proof (induction rs)
  case (Cons r rs)
  have "CHR ''|'' \<in> set (shipped_line r)" by (cases r) (simp add: shipped_line_def)
  with bar_not_blank(1) Cons no_newline [of r] show ?case
    by (simp add: rules_of_lines_def split_on_no_sep parse_shipped_line)
qed (simp add: rules_of_lines_def)

section \<open>Insertion and removal\<close>

lemma index_where_Some: "index_where P xs = Some i \<Longrightarrow> i < length xs \<and> P (xs ! i) \<and> (\<forall>x \<in> set (take i xs). \<not> P x)"
  by (induction xs arbitrary: i) (auto split: if_splits)

lemma index_where_None: "index_where P xs = None \<longleftrightarrow> (\<forall>x \<in> set xs. \<not> P x)"
  by (induction xs) auto

lemma inserted_catchall:
  assumes "CHR ''|'' \<notin> set name" "name \<noteq> ''*''" "us @ vs = non_blank (without_name lines ''*'')"
  shows "filter (\<lambda>l. field l 1 = ''*'') (us @ [name @ ''|'' @ action @ ''|'' @ matches] @ vs @ [catchall_line lines]) =
      [catchall_line lines]"
    "default_action_of (us @ [name @ ''|'' @ action @ ''|'' @ matches] @ vs @ [catchall_line lines]) = default_action_of lines"
proof -
  let ?new = "name @ ''|'' @ action @ ''|'' @ matches"
  have new: "field ?new 1 = name"
    using cut_at_found [OF assms(1), of "action @ ''|'' @ matches"] by (simp add: field_1_Suc)
  have "\<forall>l \<in> set (us @ vs). field l 1 \<noteq> ''*''" unfolding assms(3) by (simp add: non_blank_def without_name_def)
  then show "filter (\<lambda>l. field l 1 = ''*'') (us @ [?new] @ vs @ [catchall_line lines]) = [catchall_line lines]"
    using new assms(2) by (simp add: catchall_fields [unfolded One_nat_def] filter_empty_conv)
  show "default_action_of (us @ [?new] @ vs @ [catchall_line lines]) = default_action_of lines"
    by (simp add: default_action_of_def [of "us @ _"] catchall_fields [unfolded One_nat_def])
qed

text \<open>
  C26: an insertion adds one rule and the catch-all, and nothing else: the other rules keep their order, the new one
  is first, or right before the first rule of the name asked for, or last before the catch-all; the catch-all is
  the last line, the only one, and keeps the default action of the group. It is refused only where the name to
  insert before is that of no rule.
\<close>

theorem insert_rule_at_correct:
  assumes "CHR ''|'' \<notin> set name" "name \<noteq> ''*''"
  shows "case insert_rule_at lines name action matches place of
      None \<Rightarrow> (\<exists>n. place = BeforeRule n \<and> n \<noteq> [] \<and> n \<noteq> ''*'' \<and>
                  (\<forall>l \<in> set (non_blank (without_name lines ''*'')). field l 1 \<noteq> n))
    | Some out \<Rightarrow>
        \<exists>us vs. out = us @ [name @ ''|'' @ action @ ''|'' @ matches] @ vs @ [catchall_line lines] \<and>
          us @ vs = non_blank (without_name lines ''*'') \<and>
          filter (\<lambda>l. field l 1 = ''*'') out = [catchall_line lines] \<and>
          default_action_of out = default_action_of lines \<and>
          (case place of
             AtFirst \<Rightarrow> us = []
           | BeforeRule n \<Rightarrow>
               if n = [] \<or> n = ''*'' then vs = []
               else vs \<noteq> [] \<and> field (hd vs) 1 = n \<and> (\<forall>u \<in> set us. field u 1 \<noteq> n))"
proof -
  let ?ls = "non_blank (without_name lines ''*'')" and ?new = "name @ ''|'' @ action @ ''|'' @ matches"
  have fin: ?thesis
    if r: "insert_rule_at lines name action matches place = Some (us @ [?new] @ vs @ [catchall_line lines])"
      and uv: "us @ vs = ?ls"
      and pl: "case place of
           AtFirst \<Rightarrow> us = []
         | BeforeRule n \<Rightarrow>
             if n = [] \<or> n = ''*'' then vs = []
             else vs \<noteq> [] \<and> field (hd vs) 1 = n \<and> (\<forall>u \<in> set us. field u 1 \<noteq> n)" for us vs
    unfolding r option.case by (intro exI [of _ us] exI [of _ vs] conjI refl uv inserted_catchall [OF assms uv] pl)
  show ?thesis
  proof (cases place)
    case AtFirst
    then show ?thesis by (intro fin [of "[]" ?ls]) (simp_all add: insert_rule_at_def Let_def)
  next
    case (BeforeRule n)
    show ?thesis
    proof (cases "n = [] \<or> n = ''*''")
      case True
      with BeforeRule show ?thesis by (intro fin [of ?ls "[]"]) (simp_all add: insert_rule_at_def Let_def)
    next
      case False
      show ?thesis
      proof (cases "index_where (\<lambda>l. field l 1 = n) ?ls")
        case None
        then have "\<forall>l \<in> set ?ls. field l 1 \<noteq> n" by (simp only: index_where_None not_False_eq_True)
        with None False BeforeRule show ?thesis by (auto simp: insert_rule_at_def Let_def)
      next
        case (Some i)
        note i = index_where_Some [OF Some]
        then have d: "drop i ?ls \<noteq> []" "field (hd (drop i ?ls)) 1 = n" by (simp_all add: hd_drop_conv_nth)
        show ?thesis
        proof (rule fin [of "take i ?ls" "drop i ?ls"])
          show "insert_rule_at lines name action matches place =
              Some (take i ?ls @ [?new] @ drop i ?ls @ [catchall_line lines])"
            using Some False BeforeRule by (simp add: insert_rule_at_def Let_def)
        qed (use i d False BeforeRule in simp_all)
      qed
    qed
  qed
qed

lemma filter_zip_snd: "length is = length xs \<Longrightarrow> map snd (filter (\<lambda>p. P (snd p)) (zip is xs)) = filter P xs"
  by (induction "is" xs rule: list_induct2) auto

lemma filter_zip_other:
  "length is = length xs \<Longrightarrow> distinct is \<Longrightarrow>
     filter (\<lambda>p. fst p \<notin> fst ` set (filter (\<lambda>p. P (snd p)) (zip is xs))) (zip is xs) =
     filter (\<lambda>p. \<not> P (snd p)) (zip is xs)"
  by (rule filter_cong [OF refl]) (auto simp: in_set_zip nth_eq_iff_index_eq)

text \<open>
  A removal takes the rules it selects and no other, in one step: nothing where none is selected, a refusal with
  their number where several are and not all were asked for, and else the lines that are left keep their order and
  what went is listed with its numbers.
\<close>

theorem remove_rule_where_correct:
  "case remove_rule_where lines name matches action every of
     NothingRemoved \<Rightarrow> filter (selects name matches action) lines = []
   | AmbiguousRules n \<Rightarrow> \<not> every \<and> 1 < n \<and> n = length (filter (selects name matches action) lines)
   | RemovedRules gone keep \<Rightarrow>
       gone = filter (\<lambda>p. selects name matches action (snd p)) (zip [1..<Suc (length lines)] lines) \<and>
       map snd gone = filter (selects name matches action) lines \<and> gone \<noteq> [] \<and>
       keep = filter (\<lambda>l. \<not> selects name matches action l) lines"
proof -
  let ?P = "selects name matches action" and ?z = "zip [1..<Suc (length lines)] lines"
  have len: "length [1..<Suc (length lines)] = length lines" by (simp del: upt_Suc)
  note on = filter_zip_snd [OF len, of ?P] and off = filter_zip_snd [OF len, of "\<lambda>l. \<not> ?P l"]
    and rest = filter_zip_other [OF len distinct_upt, of ?P]
  have n: "length (filter (\<lambda>p. ?P (snd p)) ?z) = length (filter ?P lines)" using on by (metis length_map)
  show ?thesis
    unfolding remove_rule_where_def rules_where_def Let_def rest
    using on off n by (auto simp del: upt_Suc)
qed

section \<open>Healing\<close>

definition rule_matches_of :: "yval \<Rightarrow> yval list" where
  "rule_matches_of r = (case r of YMap m \<Rightarrow> (case yget m ''match'' of Some (YList ms) \<Rightarrow> ms | _ \<Rightarrow> []) | _ \<Rightarrow> [])"

definition rule_name_of :: "yval \<Rightarrow> yval option" where
  "rule_name_of r = (case r of YMap m \<Rightarrow> yget m ''name'' | _ \<Rightarrow> None)"

definition live :: "yval \<Rightarrow> yval list" where
  "live r = filter (\<lambda>x. \<not> dead_match (rule_name_of r) x) (rule_matches_of r)"

lemma yget_ymake: "wf_ymap m \<Longrightarrow> ymake m = m"
  by (rule ymake_distinct)

lemma heal_rule_live:
  assumes "case r of YMap m \<Rightarrow> wf_ymap m | _ \<Rightarrow> True"
  shows "rule_matches_of (fst (heal_rule r)) = live r" "rule_name_of (fst (heal_rule r)) = rule_name_of r"
    "snd (heal_rule r) \<longleftrightarrow> live r \<noteq> rule_matches_of r" "\<not> snd (heal_rule r) \<Longrightarrow> fst (heal_rule r) = r"
proof -
  have w: "ymake m = m" if "r = YMap m" for m
    using assms that by (simp add: ymake_distinct)
  have len: "length (filter P xs) = length xs \<longleftrightarrow> filter P xs = xs" for P and xs :: "yval list"
    by (metis filter_True length_filter_less less_irrefl)
  show "rule_matches_of (fst (heal_rule r)) = live r" "rule_name_of (fst (heal_rule r)) = rule_name_of r"
    "snd (heal_rule r) \<longleftrightarrow> live r \<noteq> rule_matches_of r" "\<not> snd (heal_rule r) \<Longrightarrow> fst (heal_rule r) = r"
    by (cases r; force simp: heal_rule_def rule_matches_of_def live_def rule_name_of_def Let_def len w
          split: option.splits yval.splits)+
qed

lemma heal_rule_wf: "case r of YMap m \<Rightarrow> wf_ymap m | _ \<Rightarrow> True \<Longrightarrow>
    case fst (heal_rule r) of YMap m \<Rightarrow> wf_ymap m | _ \<Rightarrow> True"
  by (auto simp: heal_rule_def Let_def split: yval.splits option.splits)

lemma heal_rule_fixed:
  assumes "case r of YMap m \<Rightarrow> wf_ymap m | _ \<Rightarrow> True"
  shows "heal_rule (fst (heal_rule r)) = (fst (heal_rule r), False)"
proof -
  let ?h = "fst (heal_rule r)"
  note w = heal_rule_wf [OF assms]
  have "live ?h = rule_matches_of ?h"
    using heal_rule_live(1,2) [OF assms] by (simp add: live_def)
  with heal_rule_live(3) [OF w] have "\<not> snd (heal_rule ?h)" by simp
  with heal_rule_live(4) [OF w] show ?thesis by (simp add: prod_eq_iff)
qed

text \<open>
  C28: healing leaves each rule its name and, in order, the matches that can fire; it says that it changed something
  exactly when one of them could not; a list it has nothing to do on is kept as it is, and what it makes needs no
  second healing.
\<close>

theorem heal_rules_correct:
  assumes "\<forall>r \<in> set rules. case r of YMap m \<Rightarrow> wf_ymap m | _ \<Rightarrow> True"
  shows "map rule_matches_of (fst (heal_rules rules)) = map live rules \<and>
    map rule_name_of (fst (heal_rules rules)) = map rule_name_of rules \<and>
    (snd (heal_rules rules) \<longleftrightarrow> map live rules \<noteq> map rule_matches_of rules) \<and>
    (\<not> snd (heal_rules rules) \<longrightarrow> fst (heal_rules rules) = rules) \<and>
    heal_rules (fst (heal_rules rules)) = (fst (heal_rules rules), False)"
  using assms
proof (induction rules)
  case (Cons r rs)
  note h = heal_rule_live [of r] and f = heal_rule_fixed [of r]
  from Cons h f show ?case by (auto simp: heal_rules_def)
qed (simp add: heal_rules_def)

text \<open>A rule whose only match can never fire permits no command; healed it has no match and permits every one.\<close>

lemma healing_widens:
  "heal_rule (YMap [(''name'', YStr ''show''), (''action'', YStr ''permit''), (''match'', YList [YStr ''^show .*$''])]) =
     (YMap [(''name'', YStr ''show''), (''action'', YStr ''permit'')], True)"
  by code_simp

theorem heal_rules_correct_witness:
  "let rules = [YMap [(''name'', YStr ''show''), (''match'', YList [YStr ''^show .*$'', YStr ''^version$''])], YStr ''x'']
   in map rule_matches_of (fst (heal_rules rules)) = map live rules \<and> snd (heal_rules rules)"
proof -
  let ?rules = "[YMap [(''name'', YStr ''show''), (''match'', YList [YStr ''^show .*$'', YStr ''^version$''])], YStr ''x'']"
  have "\<forall>r \<in> set ?rules. case r of YMap m \<Rightarrow> wf_ymap m | _ \<Rightarrow> True" by (simp add: wf_ymap_def ykeys_def)
  note h = heal_rules_correct [OF this]
  have "snd (heal_rules ?rules)" by code_simp
  with h show ?thesis by (simp only: Let_def)
qed

theorem insert_rule_at_correct_witness:
  "CHR ''|'' \<notin> set ''show'' \<and> ''show'' \<noteq> ''*'' \<and>
   insert_rule_at [''ping|permit|'', ''*|deny|''] ''show'' ''permit'' [] (BeforeRule ''ping'') =
     Some [''show|permit|'', ''ping|permit|'', ''*|deny|'']"
proof -
  have h: "CHR ''|'' \<notin> set ''show''" "''show'' \<noteq> ''*''" by simp_all
  note insert_rule_at_correct [where lines = "[''ping|permit|'', ''*|deny|'']" and action = "''permit''" and matches = "[]"
      and place = "BeforeRule ''ping''", OF h]
  moreover have "insert_rule_at [''ping|permit|'', ''*|deny|''] ''show'' ''permit'' [] (BeforeRule ''ping'') =
     Some [''show|permit|'', ''ping|permit|'', ''*|deny|'']" by code_simp
  ultimately show ?thesis using h by blast
qed

theorem rules_round_trip_witness:
  "\<forall>F. rules_of_lines (lines_of F (Some (YList (map shipped_value [(''show'', ''permit'', [''^version$'', ''^clock$'']), (''*'', ''deny'', [])])))) =
     map shipped_value [(''show'', ''permit'', [''^version$'', ''^clock$'']), (''*'', ''deny'', [])]"
proof (intro allI rules_round_trip)
  show "\<forall>r \<in> set [(''show'', ''permit'', [''^version$'', ''^clock$'']), (''*'', ''deny'', [])]. separable r"
    by (simp add: separable_def)
qed

end
