(* ===== verification/UidLedger.thy ===== *)
theory UidLedger
  imports PolicySettings Tier
begin

text \<open>
  \<open>internal/hosts\<close>: the numbers tacctl gives to users on Linux hosts. The range (\<open>range.go\<close>), awk's comparisons
  (\<open>awk.go\<close>), the ledger \<open>linux-uids\<close> and its operations (\<open>uids.go\<close>), the lines sent to a host and the accounts
  it is asked to remove (\<open>hosts.go\<close>, \<open>accounts.go\<close>), and whether the namespace of a host can hold the range
  (\<open>idmap.go\<close>). The file is the \<open>d_store\<close> of a directory. What the system answers is in the record \<open>ledger_io\<close>:
  \<open>li_read n\<close> says whether the read number \<open>n\<close> of one operation works. \<open>strconv.ParseFloat\<close> is the parameter \<open>pf\<close>.
\<close>

section \<open>Ranges\<close>

record uid_range =
  ur_min :: int
  ur_max :: int

definition default_range :: uid_range where
  "default_range = \<lparr>ur_min = 80000, ur_max = 89999\<rparr>"

definition legacy_range :: uid_range where
  "legacy_range = \<lparr>ur_min = 20000, ur_max = 29999\<rparr>"

definition range_text :: "uid_range \<Rightarrow> string" where
  "range_text r = int_text (ur_min r) @ ''-'' @ int_text (ur_max r)"

definition range_size :: "uid_range \<Rightarrow> int" where
  "range_size r = ur_max r - ur_min r + 1"

definition range_has :: "uid_range \<Rightarrow> int \<Rightarrow> bool" where
  "range_has r n \<longleftrightarrow> n \<ge> ur_min r \<and> n \<le> ur_max r"

definition uid_number :: "string \<Rightarrow> int option" where
  "uid_number s =
     (if s = [] \<or> hd s = CHR ''0'' \<or> \<not> list_all is_digit s \<or> length s > 10 then None else Some (int (dec_val s)))"

definition range_contains :: "uid_range \<Rightarrow> string \<Rightarrow> bool" where
  "range_contains r uid \<longleftrightarrow> (case uid_number uid of None \<Rightarrow> False | Some n \<Rightarrow> range_has r n)"

definition range_overlaps :: "uid_range \<Rightarrow> uid_range \<Rightarrow> bool" where
  "range_overlaps r q \<longleftrightarrow> ur_min r \<le> ur_max q \<and> ur_min q \<le> ur_max r"

definition range_zero :: "uid_range \<Rightarrow> bool" where
  "range_zero r \<longleftrightarrow> ur_min r = 0 \<and> ur_max r = 0"

definition parse_range :: "string \<Rightarrow> uid_range option" where
  "parse_range s =
     (case cut_at (CHR ''-'') (trim_space s) of
        (lo, hi, found) \<Rightarrow>
          if \<not> found then None
          else (case (uid_number lo, uid_number hi) of
                  (Some a, Some b) \<Rightarrow> Some \<lparr>ur_min = a, ur_max = b\<rparr>
                | _ \<Rightarrow> None))"

definition systemd_reserved :: "uid_range list" where
  "systemd_reserved =
     [\<lparr>ur_min = 60001, ur_max = 60513\<rparr>, \<lparr>ur_min = 61184, ur_max = 65519\<rparr>, \<lparr>ur_min = 65534, ur_max = 65535\<rparr>]"

definition useradd_range :: uid_range where
  "useradd_range = \<lparr>ur_min = 1000, ur_max = 60000\<rparr>"

datatype range_problem =
  MinAboveMax | BelowSystem | AboveLast | RangeSize int | ReservedBySystemd uid_range | ContainerUids

definition range_problem_of :: "uid_range \<Rightarrow> range_problem option" where
  "range_problem_of r =
     (if ur_min r > ur_max r then Some MinAboveMax
      else if ur_min r < 1000 then Some BelowSystem
      else if ur_max r > 4294967293 then Some AboveLast
      else if range_size r < 1000 then Some (RangeSize (range_size r))
      else case first_where (range_overlaps r) systemd_reserved of
        Some q \<Rightarrow> Some (ReservedBySystemd q)
      | None \<Rightarrow> if ur_max r \<ge> 524288 then Some ContainerUids else None)"

definition range_warning :: "uid_range \<Rightarrow> bool" where
  "range_warning r \<longleftrightarrow> range_overlaps r useradd_range"

section \<open>awk\<close>

definition trim_set :: "string \<Rightarrow> string \<Rightarrow> string" where
  "trim_set cs s = rev (dropWhile (\<lambda>c. c \<in> set cs) (rev (dropWhile (\<lambda>c. c \<in> set cs) s)))"

definition awk_number :: "(string \<Rightarrow> 64 word option) \<Rightarrow> string \<Rightarrow> 64 word option" where
  "awk_number pf s =
     (let t = trim_set [CHR '' '', CHR 0x09, CHR 0x0A] s
      in if t = [] \<or> \<not> list_all (\<lambda>c. c \<in> set ''0123456789+-.eE'') t then None else pf t)"

definition awk_equal :: "(string \<Rightarrow> 64 word option) \<Rightarrow> string \<Rightarrow> string \<Rightarrow> bool" where
  "awk_equal pf a b \<longleftrightarrow>
     (case (awk_number pf a, awk_number pf b) of (Some x, Some y) \<Rightarrow> float_eq x y | _ \<Rightarrow> a = b)"

definition awk_field :: "string list \<Rightarrow> nat \<Rightarrow> string" where
  "awk_field fs n = (if n - 1 < length fs then fs ! (n - 1) else [])"

definition awk_records :: "string \<Rightarrow> string list" where
  "awk_records text =
     (if text = [] then []
      else split_on (CHR 0x0A) (if last text = CHR 0x0A then butlast text else text))"

section \<open>The ledger\<close>

record ledger_io =
  li_lock :: bool
  li_open :: bool
  li_times :: bool
  li_read :: "nat \<Rightarrow> bool"
  li_io :: io
  li_backup :: bool
  li_replace :: "nat option"

datatype ledger_error =
    LedgerBusy
  | TouchOpen
  | TouchTimes
  | LedgerUnread
  | LedgerFull
  | LedgerWrite store_error
  | LedgerReplace nat
  | LedgerBackup
  | UidHeld string
  | RangeOverlap uid_range
  | RangeTooSmall string string int
  | UidCollision string string string string

definition ledger_range :: "uid_range \<Rightarrow> uid_range" where
  "ledger_range r = (if range_zero r then default_range else r)"

definition touch :: "ledger_io \<Rightarrow> directory \<Rightarrow> ledger_error option \<times> directory" where
  "touch L D =
     (if \<not> li_open L then (Some TouchOpen, D)
      else let D' = (if d_store D = None then D\<lparr>d_store := Some (Regular [])\<rparr> else D)
           in (if li_times L then None else Some TouchTimes, D'))"

text \<open>\<open>os.ReadFile\<close>: no text where there is no file.\<close>

definition ledger_text :: "bool \<Rightarrow> directory \<Rightarrow> ledger_error + string option" where
  "ledger_text ok D =
     (if \<not> ok then Inl LedgerUnread
      else case d_store D of
        None \<Rightarrow> Inr None
      | Some (Regular t) \<Rightarrow> Inr (Some t)
      | Some OtherNode \<Rightarrow> Inl LedgerUnread)"

definition is_comment :: "string \<Rightarrow> bool" where
  "is_comment l = has_prefix l ''#''"

definition comments_of :: "string \<Rightarrow> string list" where
  "comments_of text = filter is_comment (awk_records text)"

definition records_of :: "string \<Rightarrow> string list" where
  "records_of text = filter (\<lambda>l. \<not> is_comment l) (awk_records text)"

definition read_ledger :: "bool \<Rightarrow> directory \<Rightarrow> ledger_error + (string list \<times> string list)" where
  "read_ledger ok D =
     (case ledger_text ok D of
        Inl e \<Rightarrow> Inl e
      | Inr None \<Rightarrow> Inr ([], [])
      | Inr (Some t) \<Rightarrow> Inr (comments_of t, records_of t))"

definition rec_name :: "string \<Rightarrow> string" where
  "rec_name r = awk_field (split_on (CHR '':'') r) 1"

definition rec_uid :: "string \<Rightarrow> string" where
  "rec_uid r = awk_field (split_on (CHR '':'') r) 2"

subsection \<open>The record of the range\<close>

definition trim_hash :: "string \<Rightarrow> string" where
  "trim_hash c = (if has_prefix c ''#'' then drop 1 c else c)"

definition read_record_line :: "uid_range option \<times> uid_range list \<Rightarrow> string \<Rightarrow> uid_range option \<times> uid_range list" where
  "read_record_line cp c =
     (case cp of (cur, prev) \<Rightarrow>
        (let f = go_fields (trim_hash c)
         in if length f < 2 then (cur, prev)
            else if f ! 0 = ''range'' then
              (case parse_range (f ! 1) of Some r \<Rightarrow> (Some r, prev) | None \<Rightarrow> (cur, prev))
            else if f ! 0 = ''previous'' then (cur, prev @ List.map_filter parse_range (drop 1 f))
            else (cur, prev)))"

text \<open>\<open>parseRecord\<close>; the range it returns may be the zero range, which \<open>record_range\<close> takes as none.\<close>

definition parse_record :: "string list \<Rightarrow> uid_range option \<times> uid_range list" where
  "parse_record comments = foldl read_record_line (None, []) comments"

definition record_range :: "uid_range option \<Rightarrow> uid_range option" where
  "record_range cur = (case cur of Some r \<Rightarrow> if range_zero r then None else Some r | None \<Rightarrow> None)"

definition record_lines :: "uid_range \<Rightarrow> uid_range list \<Rightarrow> string list" where
  "record_lines cur prev =
     (''# range '' @ range_text cur) # (if prev = [] then [] else [''# previous '' @ join '' '' (map range_text prev)])"

section \<open>Readers\<close>

definition numbers_of :: "string list \<Rightarrow> (string \<times> string) list" where
  "numbers_of recs =
     foldl (\<lambda>out r. if rec_name r = [] \<or> rec_name r \<in> fst ` set out then out else out @ [(rec_name r, rec_uid r)]) [] recs"

definition lookup_in :: "(string \<Rightarrow> 64 word option) \<Rightarrow> string list \<Rightarrow> string \<Rightarrow> string" where
  "lookup_in pf recs name =
     (case first_where (\<lambda>r. awk_equal pf (rec_name r) name) recs of None \<Rightarrow> [] | Some r \<Rightarrow> rec_uid r)"

definition holder_in :: "(string \<Rightarrow> 64 word option) \<Rightarrow> string list \<Rightarrow> string \<Rightarrow> string" where
  "holder_in pf recs uid =
     (case first_where (\<lambda>r. awk_equal pf (rec_uid r) uid) recs of None \<Rightarrow> [] | Some r \<Rightarrow> rec_name r)"

definition lookup :: "(string \<Rightarrow> 64 word option) \<Rightarrow> bool \<Rightarrow> string \<Rightarrow> directory \<Rightarrow> ledger_error + string" where
  "lookup pf ok name D = map_sum id (\<lambda>p. lookup_in pf (snd p) name) (read_ledger ok D)"

definition holder :: "(string \<Rightarrow> 64 word option) \<Rightarrow> bool \<Rightarrow> string \<Rightarrow> directory \<Rightarrow> ledger_error + string" where
  "holder pf ok uid D = map_sum id (\<lambda>p. holder_in pf (snd p) uid) (read_ledger ok D)"

definition highest :: "uid_range \<Rightarrow> string list \<Rightarrow> int" where
  "highest r recs =
     foldl (\<lambda>m rec. case uid_number (rec_uid rec) of
         None \<Rightarrow> m | Some n \<Rightarrow> if range_has r n \<and> n > m then n else m) (ur_min r - 1) recs"

definition next_uid :: "uid_range \<Rightarrow> string list \<Rightarrow> string option" where
  "next_uid r recs = (let m = highest r recs in if m + 1 > ur_max r then None else Some (int_text (m + 1)))"

section \<open>Writers\<close>

text \<open>\<open>writeAtomic\<close>, and \<open>replaceFile\<close>, which removes the file and writes it anew.\<close>

definition ledger_steps :: "write_step list" where
  "ledger_steps = [CreateTemp, WriteTemp, SyncTemp, CloseTemp, ChmodTemp, RenameTemp]"

definition write_atomic :: "ledger_io \<Rightarrow> string \<Rightarrow> directory \<Rightarrow> ledger_error option \<times> directory" where
  "write_atomic L text D =
     (case run_steps (li_io L) text ledger_steps D of (e, D') \<Rightarrow> (map_option LedgerWrite e, D'))"

text \<open>The steps of \<open>replaceFile\<close> in order: unlink, open, write, close, chmod; \<open>li_replace\<close> names the one that fails.\<close>

definition replace_file :: "ledger_io \<Rightarrow> string \<Rightarrow> directory \<Rightarrow> ledger_error option \<times> directory" where
  "replace_file L text D =
     (case li_replace L of
        None \<Rightarrow> (None, D\<lparr>d_store := Some (Regular text)\<rparr>)
      | Some n \<Rightarrow>
          (Some (LedgerReplace n),
           if n = 0 then D
           else if n = 1 then D\<lparr>d_store := None\<rparr>
           else if n = 2 then D\<lparr>d_store := Some (Regular (take (io_partial (li_io L)) text))\<rparr>
           else D\<lparr>d_store := Some (Regular text)\<rparr>))"

definition end_line :: "string \<Rightarrow> string" where
  "end_line t = t @ [CHR 0x0A]"

definition lines_text :: "string list \<Rightarrow> string" where
  "lines_text ls = concat (map end_line ls)"

definition uid_line :: "string \<Rightarrow> string \<Rightarrow> string" where
  "uid_line name uid = name @ '':'' @ uid"

definition ledger_before :: "uid_range \<Rightarrow> string option \<Rightarrow> string" where
  "ledger_before r data =
     (let t = (case data of None \<Rightarrow> [] | Some t \<Rightarrow> t)
      in if t = [] then lines_text (record_lines r [])
         else if last t \<noteq> CHR 0x0A then end_line t else t)"

text \<open>\<open>For\<close>; the three reads are those of \<open>Lookup\<close>, of \<open>next\<close> and of the text that the line is added to.\<close>

definition uid_for ::
  "(string \<Rightarrow> 64 word option) \<Rightarrow> uid_range \<Rightarrow> ledger_io \<Rightarrow> string \<Rightarrow> directory \<Rightarrow> (ledger_error + string) \<times> directory" where
  "uid_for pf r L name D =
     (case touch L D of
        (Some e, D1) \<Rightarrow> (Inl e, D1)
      | (None, D1) \<Rightarrow>
          (case lookup pf (li_read L 0) name D1 of
             Inl e \<Rightarrow> (Inl e, D1)
           | Inr uid \<Rightarrow>
               if uid \<noteq> [] then (Inr uid, D1)
               else (case read_ledger (li_read L 1) D1 of
                  Inl e \<Rightarrow> (Inl e, D1)
                | Inr (_, recs) \<Rightarrow>
                    (case next_uid (ledger_range r) recs of
                       None \<Rightarrow> (Inl LedgerFull, D1)
                     | Some uid \<Rightarrow>
                         (case ledger_text (li_read L 2) D1 of
                            Inl e \<Rightarrow> (Inl e, D1)
                          | Inr data \<Rightarrow>
                              (case write_atomic L (ledger_before (ledger_range r) data @ end_line (uid_line name uid)) D1 of
                                 (Some e, D2) \<Rightarrow> (Inl e, D2)
                               | (None, D2) \<Rightarrow> (Inr uid, D2)))))))"

definition assign ::
  "(string \<Rightarrow> 64 word option) \<Rightarrow> uid_range \<Rightarrow> ledger_io \<Rightarrow> nat \<Rightarrow> string \<Rightarrow> string \<Rightarrow> directory \<Rightarrow> ledger_error option \<times> directory" where
  "assign pf r L k name uid D =
     (case read_ledger (li_read L k) D of
        Inl e \<Rightarrow> (Some e, D)
      | Inr (comments, recs) \<Rightarrow>
          replace_file L
            (lines_text
               ((if comments = [] \<and> recs = [] then record_lines (ledger_range r) [] else comments) @
                filter (\<lambda>l. \<not> awk_equal pf (rec_name l) name) recs @ [uid_line name uid])) D)"

text \<open>\<open>assignUID\<close> of \<open>config linux uid\<close>: the check of the holder and the write under one lock.\<close>

definition assign_uid ::
  "(string \<Rightarrow> 64 word option) \<Rightarrow> uid_range \<Rightarrow> ledger_io \<Rightarrow> string \<Rightarrow> string \<Rightarrow> directory \<Rightarrow> ledger_error option \<times> directory" where
  "assign_uid pf r L name uid D =
     (if \<not> li_lock L then (Some LedgerBusy, D)
      else case holder pf (li_read L 0) uid D of
        Inl e \<Rightarrow> (Some e, D)
      | Inr h \<Rightarrow>
          if h \<noteq> [] \<and> h \<noteq> name then (Some (UidHeld h), D)
          else case touch L D of
            (Some e, D1) \<Rightarrow> (Some e, D1)
          | (None, D1) \<Rightarrow> assign pf r L 1 name uid D1)"

definition renamed_line :: "(string \<Rightarrow> 64 word option) \<Rightarrow> string \<Rightarrow> string \<Rightarrow> string \<Rightarrow> string" where
  "renamed_line pf old new l =
     (if \<not> is_comment l \<and> awk_equal pf (rec_name l) old then uid_line new (rec_uid l) else l)"

text \<open>
  \<open>Rename\<close>: whether the name moved. The scan stops at a line of the new name, so only whether there is one of each
  name counts.
\<close>

definition rename_uid ::
  "(string \<Rightarrow> 64 word option) \<Rightarrow> ledger_io \<Rightarrow> nat \<Rightarrow> string \<Rightarrow> string \<Rightarrow> directory \<Rightarrow> (ledger_error + bool) \<times> directory" where
  "rename_uid pf L k old new D =
     (case ledger_text (li_read L k) D of
        Inl e \<Rightarrow> (Inl e, D)
      | Inr None \<Rightarrow> (Inr False, D)
      | Inr (Some t) \<Rightarrow>
          if list_ex (\<lambda>l. awk_equal pf (rec_name l) new) (records_of t) \<or>
             \<not> list_ex (\<lambda>l. awk_equal pf (rec_name l) old) (records_of t) then (Inr False, D)
          else case write_atomic L (lines_text (map (renamed_line pf old new) (awk_records t))) D of
            (Some e, D') \<Rightarrow> (Inl e, D')
          | (None, D') \<Rightarrow> (Inr True, D'))"

record uid_move =
  um_moved :: bool
  um_uid :: string
  um_held_by :: string
  um_error :: "ledger_error option"

definition no_move :: "ledger_error option \<Rightarrow> uid_move" where
  "no_move e = \<lparr>um_moved = False, um_uid = [], um_held_by = [], um_error = e\<rparr>"

definition move_user ::
  "(string \<Rightarrow> 64 word option) \<Rightarrow> ledger_io \<Rightarrow> string \<Rightarrow> string \<Rightarrow> directory \<Rightarrow> uid_move \<times> directory" where
  "move_user pf L old new D =
     (if \<not> li_lock L then (no_move (Some LedgerBusy), D)
      else case lookup pf (li_read L 0) old D of
        Inl e \<Rightarrow> (no_move (Some e), D)
      | Inr uid \<Rightarrow>
          if uid = [] then (no_move None, D)
          else case rename_uid pf L 1 old new D of
            (Inl e, D') \<Rightarrow> ((no_move (Some e))\<lparr>um_uid := uid\<rparr>, D')
          | (Inr True, D') \<Rightarrow> ((no_move None)\<lparr>um_moved := True, um_uid := uid\<rparr>, D')
          | (Inr False, D') \<Rightarrow>
              (case lookup pf (li_read L 2) new D' of
                 Inl e \<Rightarrow> ((no_move (Some e))\<lparr>um_uid := uid\<rparr>, D')
               | Inr h \<Rightarrow> ((no_move None)\<lparr>um_uid := uid, um_held_by := h\<rparr>, D')))"

section \<open>Renumbering\<close>

definition unrecorded :: "string list \<Rightarrow> uid_range \<Rightarrow> uid_range" where
  "unrecorded recs to =
     (if list_ex (\<lambda>r. range_contains legacy_range (rec_uid r)) recs then legacy_range
      else if to \<noteq> default_range \<and> list_ex (\<lambda>r. range_contains default_range (rec_uid r)) recs then default_range
      else to)"

text \<open>The name of the first line with a number among those that stay.\<close>

definition held_by :: "uid_range \<Rightarrow> string list \<Rightarrow> string \<Rightarrow> string option" where
  "held_by from recs uid =
     map_option rec_name (first_where (\<lambda>r. \<not> range_contains from (rec_uid r) \<and> rec_uid r = uid) recs)"

fun move_records ::
  "uid_range \<Rightarrow> uid_range \<Rightarrow> (string \<Rightarrow> string option) \<Rightarrow> string list \<Rightarrow> ledger_error + (string list \<times> nat)" where
  "move_records from to held [] = Inr ([], 0)"
| "move_records from to held (r # rs) =
     (let keep = (\<lambda>line k. map_sum id (\<lambda>(out, n). (line # out, n + k)) (move_records from to held rs))
      in case (if range_contains from (rec_uid r) then uid_number (rec_uid r) else None) of
           None \<Rightarrow> keep r 0
         | Some old \<Rightarrow>
             (let n = old + (ur_min to - ur_min from); nu = int_text n
              in if \<not> range_has to n then Inl (RangeTooSmall (rec_name r) (rec_uid r) n)
                 else if ur_min to = ur_min from then keep r 0
                 else case held nu of
                   Some h \<Rightarrow>
                     if h \<noteq> rec_name r then Inl (UidCollision (rec_name r) (rec_uid r) nu h)
                     else keep (join '':'' ((split_on (CHR '':'') r)[1 := nu])) 1
                 | None \<Rightarrow> keep (join '':'' ((split_on (CHR '':'') r)[1 := nu])) 1))"

definition other_comments :: "string list \<Rightarrow> string list" where
  "other_comments comments =
     filter (\<lambda>c. \<not> (let f = go_fields (trim_hash c) in f \<noteq> [] \<and> (hd f = ''range'' \<or> hd f = ''previous''))) comments"

definition lines_joined :: "string list \<Rightarrow> string" where
  "lines_joined ls = join [CHR 0x0A] ls @ [CHR 0x0A]"

record renumbering =
  rn_from :: uid_range
  rn_moved :: nat
  rn_changed :: bool

text \<open>
  What \<open>RenumberTo\<close> makes of the comments and the records it read: the range the file was numbered for, and the
  text with the number of entries moved.
\<close>

definition renumber_plan ::
  "uid_range \<Rightarrow> string list \<Rightarrow> string list \<Rightarrow> uid_range \<times> (ledger_error + (string \<times> nat))" where
  "renumber_plan to comments recs =
     (case parse_record comments of (cur, prev) \<Rightarrow>
        let from = (case record_range cur of Some r \<Rightarrow> r | None \<Rightarrow> unrecorded recs to)
        in (from,
            case (if ur_min to = ur_min from then None else first_where (range_overlaps to) (from # prev)) of
              Some p \<Rightarrow> Inl (RangeOverlap p)
            | None \<Rightarrow>
                map_sum id (\<lambda>(out, n).
                  (lines_joined (record_lines to (if ur_min to = ur_min from then prev else prev @ [from]) @
                     other_comments comments @ out), n))
                  (move_records from to (held_by from recs) recs)))"

text \<open>\<open>RenumberTo\<close>, with the copy it left in \<open>backup\<close>. The error of the second read is dropped.\<close>

definition renumber_to ::
  "uid_range \<Rightarrow> ledger_io \<Rightarrow> bool \<Rightarrow> directory \<Rightarrow> (ledger_error + renumbering) \<times> string option \<times> directory" where
  "renumber_to r L dry D =
     (let to = ledger_range r
      in case ledger_text (li_read L 0) D of
           Inl e \<Rightarrow> (Inl e, None, D)
         | Inr None \<Rightarrow> (Inr \<lparr>rn_from = to, rn_moved = 0, rn_changed = False\<rparr>, None, D)
         | Inr (Some data) \<Rightarrow>
             (case (case read_ledger (li_read L 1) D of Inl _ \<Rightarrow> ([], []) | Inr cr \<Rightarrow> cr) of
                (comments, recs) \<Rightarrow>
                  (case renumber_plan to comments recs of
                     (from, Inl e) \<Rightarrow> (Inl e, None, D)
                   | (from, Inr (text, n)) \<Rightarrow>
                       let res = \<lparr>rn_from = from, rn_moved = n, rn_changed = True\<rparr>
                       in if text = data then (Inr (res\<lparr>rn_changed := False\<rparr>), None, D)
                          else if dry then (Inr res, None, D)
                          else if n > 0 \<and> \<not> li_backup L then (Inl LedgerBackup, None, D)
                          else (case write_atomic L text D of
                                  (Some e, D') \<Rightarrow> (Inl e, (if n > 0 then Some data else None), D')
                                | (None, D') \<Rightarrow> (Inr res, (if n > 0 then Some data else None), D')))))"

section \<open>What a host gets\<close>

definition linux_shape :: "string \<Rightarrow> bool" where
  "linux_shape s \<longleftrightarrow> s \<noteq> [] \<and> (is_lower (hd s) \<or> hd s = CHR ''_'') \<and>
     list_all (\<lambda>c. is_lower c \<or> is_digit c \<or> c = CHR ''_'' \<or> c = CHR ''-'') (tl s) \<and> length s \<le> 32"

definition linux_name :: "string \<Rightarrow> bool" where
  "linux_name s \<longleftrightarrow> s \<noteq> ''root'' \<and> linux_shape s"

definition user_count :: "string list \<Rightarrow> nat" where
  "user_count rows = length (filter (\<lambda>r. linux_name (fst (cut_at (CHR ''|'') r))) rows)"

text \<open>\<open>ScopeUsers\<close>: the lines for the host, as name, tier and number, and the users to keep. \<open>L i\<close> is what the
  system answers to the allocation of row \<open>i\<close>.\<close>

fun scope_users ::
  "(string \<Rightarrow> 64 word option) \<Rightarrow> uid_range \<Rightarrow> (nat \<Rightarrow> ledger_io) \<Rightarrow> (string \<Rightarrow> string) \<Rightarrow> nat \<Rightarrow> string list \<Rightarrow> directory \<Rightarrow>
     (ledger_error + ((string \<times> tier \<times> string) list \<times> string list)) \<times> directory" where
  "scope_users pf r L tiers i [] D = (Inr ([], []), D)"
| "scope_users pf r L tiers i (u # us) D =
     (case cut_at (CHR ''|'') u of
        (name, privlvl, _) \<Rightarrow>
          if name = [] \<or> name = ''root'' \<or> \<not> linux_shape name then scope_users pf r L tiers (Suc i) us D
          else let t = for_group (tiers name) privlvl
               in if t = NoTier then
                    (case scope_users pf r L tiers (Suc i) us D of
                       (res, D') \<Rightarrow> (map_sum id (\<lambda>(out, keep). (out, name # keep)) res, D'))
                  else case uid_for pf r (L i) name D of
                    (Inl e, D1) \<Rightarrow> (Inl e, D1)
                  | (Inr uid, D1) \<Rightarrow>
                      (case scope_users pf r L tiers (Suc i) us D1 of
                         (res, D') \<Rightarrow>
                           (map_sum id (\<lambda>(out, keep).
                              if range_contains (ledger_range r) uid then ((name, t, uid) # out, keep)
                              else (out, name # keep)) res, D')))"

text \<open>\<open>Removed\<close>: the accounts of a host that its script is to delete.\<close>

record account =
  ac_name :: string
  ac_uid :: string
  ac_gecos :: string
  ac_home :: string

definition parse_passwd :: "string \<Rightarrow> account list" where
  "parse_passwd text =
     List.map_filter (\<lambda>l.
       let f = split_on (CHR '':'') l
       in if length f < 7 \<or> f ! 0 = [] then None
          else Some \<lparr>ac_name = f ! 0, ac_uid = f ! 2, ac_gecos = f ! 4, ac_home = f ! 5\<rparr>) (split_on (CHR 0x0A) text)"

definition tacctl_gecos :: "string \<Rightarrow> string \<Rightarrow> bool" where
  "tacctl_gecos name gecos \<longleftrightarrow> gecos \<in> {name @ '' (TACACS+)'', name @ '' (RADIUS)'', ''TACACS+ user (tacctl)''}"

definition home_dir :: "string \<Rightarrow> bool" where
  "home_dir s \<longleftrightarrow> has_prefix s ''/home/'' \<and> drop 6 s \<noteq> [] \<and> CHR ''/'' \<notin> set (drop 6 s)"

definition removed_accounts ::
  "(string \<Rightarrow> 64 word option) \<Rightarrow> uid_range \<Rightarrow> string list \<Rightarrow> string list \<Rightarrow> (string \<Rightarrow> bool) \<Rightarrow> account list \<Rightarrow> account list" where
  "removed_accounts pf r comments recs current accts =
     (let ranges = ledger_range r # snd (parse_record comments);
          held = map snd (filter (\<lambda>p. current (fst p)) (numbers_of recs))
      in filter (\<lambda>a. \<not> current (ac_name a) \<and> ac_uid a \<notin> set held \<and>
             list_ex (\<lambda>q. range_contains q (ac_uid a)) ranges \<and> tacctl_gecos (ac_name a) (ac_gecos a) \<and>
             home_dir (ac_home a) \<and> lookup_in pf recs (ac_name a) \<noteq> []) accts)"

section \<open>The maps of a user namespace\<close>

record id_maps =
  im_uid :: "uid_range list"
  im_gid :: "uid_range list"

datatype ns_section = NoMap | UidMap | GidMap

text \<open>An \<open>int64\<close>, and the sum of two: it wraps.\<close>

definition wrap64 :: "int \<Rightarrow> int" where
  "wrap64 n = (n + 2 ^ 63) mod 2 ^ 64 - 2 ^ 63"

definition map_line :: "string \<Rightarrow> uid_range option" where
  "map_line l =
     (let f = go_fields l
      in if length f \<noteq> 3 then None
         else case (go_atoi (f ! 0), go_atoi (f ! 2)) of
           (Some a, Some n) \<Rightarrow> if n \<le> 0 then None else Some \<lparr>ur_min = a, ur_max = wrap64 (a + n - 1)\<rparr>
         | _ \<Rightarrow> None)"

definition read_map_line :: "ns_section \<times> id_maps \<Rightarrow> string \<Rightarrow> ns_section \<times> id_maps" where
  "read_map_line sm l =
     (case sm of (cur, m) \<Rightarrow>
        if trim_space l = ''uid_map'' then (UidMap, m)
        else if trim_space l = ''gid_map'' then (GidMap, m)
        else case map_line l of
          None \<Rightarrow> (cur, m)
        | Some r \<Rightarrow>
            (case cur of
               NoMap \<Rightarrow> (cur, m)
             | UidMap \<Rightarrow> (cur, m\<lparr>im_uid := im_uid m @ [r]\<rparr>)
             | GidMap \<Rightarrow> (cur, m\<lparr>im_gid := im_gid m @ [r]\<rparr>)))"

definition parse_id_maps :: "string \<Rightarrow> id_maps" where
  "parse_id_maps out = snd (foldl read_map_line (NoMap, \<lparr>im_uid = [], im_gid = []\<rparr>) (split_on (CHR 0x0A) out))"

text \<open>One pass of the loop of \<open>covers\<close>: \<open>Inl\<close> where it returns true, else the next number and whether it moved.\<close>

fun cover_pass :: "uid_range list \<Rightarrow> int \<Rightarrow> int \<Rightarrow> bool \<Rightarrow> unit + (int \<times> bool)" where
  "cover_pass [] hi nxt moved = Inr (nxt, moved)"
| "cover_pass (x # xs) hi nxt moved =
     (if range_has x nxt then
        (if ur_max x \<ge> hi then Inl () else cover_pass xs hi (ur_max x + 1) True)
      else cover_pass xs hi nxt moved)"

partial_function (option) cover_loop :: "uid_range list \<Rightarrow> int \<Rightarrow> int \<Rightarrow> bool option" where
  "cover_loop rs hi nxt =
     (case cover_pass rs hi nxt False of
        Inl _ \<Rightarrow> Some True
      | Inr (n, moved) \<Rightarrow> if \<not> moved then Some False else cover_loop rs hi n)"

definition range_covers :: "uid_range list \<Rightarrow> uid_range \<Rightarrow> bool option" where
  "range_covers rs r = cover_loop rs (ur_max r) (ur_min r)"

datatype map_lack = LacksUid "uid_range list" | LacksGid "uid_range list"

definition maps_lack :: "id_maps \<Rightarrow> uid_range \<Rightarrow> map_lack option option" where
  "maps_lack m r =
     Option.bind (if im_uid m = [] then Some True else range_covers (im_uid m) r) (\<lambda>u.
       if \<not> u then Some (Some (LacksUid (im_uid m)))
       else map_option (\<lambda>g. if g then None else Some (LacksGid (im_gid m)))
              (if im_gid m = [] then Some True else range_covers (im_gid m) r))"

end
