(* ===== verification/UidLedgerProps.thy ===== *)
theory UidLedgerProps
  imports UidLedger
begin

text \<open>
  The numbers of users on hosts: a number goes to one user only, an allocation is above all that are in the ledger, a
  rename keeps the number, and the loop that asks whether a namespace holds the range ends with the right answer.
\<close>

section \<open>Numbers\<close>

lemma char_zero: "char_of (48 :: nat) = CHR ''0''"
  by code_simp

lemma itoa_dec_val: "s \<noteq> [] \<Longrightarrow> list_all is_digit s \<Longrightarrow> hd s \<noteq> CHR ''0'' \<Longrightarrow> itoa (dec_val s) = s"
proof (induction s rule: rev_induct)
  case (snoc c s)
  have c: "is_digit c" using snoc.prems by simp
  then have d: "digit_val c < 10" "char_of (48 + digit_val c) = c"
    by (auto simp: is_digit_def digit_val_def)
  show ?case
  proof (cases "s = []")
    case True
    with d show ?thesis by (simp add: dec_val_def itoa_small char_zero)
  next
    case False
    with snoc have IH: "itoa (dec_val s) = s" by simp
    have "dec_val s \<noteq> 0"
    proof
      assume "dec_val s = 0"
      with IH have "s = itoa 0" by simp
      also have "itoa 0 = ''0''" by (simp add: itoa_small char_zero)
      finally show False using snoc.prems by simp
    qed
    then have "itoa (dec_val s * 10 + digit_val c) = itoa (dec_val s) @ [c]"
      using d by (subst itoa_step) (auto simp: div_mult_self3)
    with IH show ?thesis by (simp add: dec_val_append)
  qed
qed simp

lemma uid_number_text: "uid_number s = Some n \<Longrightarrow> s = int_text n \<and> 0 < n \<and> list_all is_digit s"
proof -
  assume s: "uid_number s = Some n"
  then have p: "s \<noteq> []" "hd s \<noteq> CHR ''0''" "list_all is_digit s" "n = int (dec_val s)"
    by (auto simp: uid_number_def split: if_splits)
  note i = itoa_dec_val [OF p(1,3,2)]
  have "dec_val s \<noteq> 0"
  proof
    assume "dec_val s = 0"
    with i have "s = itoa 0" by simp
    then have "s = ''0''" by (simp add: itoa_small char_zero)
    with p show False by simp
  qed
  with i p show ?thesis by (simp add: int_text_def)
qed

lemma int_text_number: "0 < n \<Longrightarrow> n < 10 ^ 10 \<Longrightarrow> uid_number (int_text n) = Some n"
proof -
  assume n: "0 < n" "n < 10 ^ 10"
  then have "nat n < 10 ^ 10" "0 < nat n" by auto
  from length_itoa_le [OF this(1)] hd_itoa [OF this(2)] n show ?thesis
    by (auto simp: uid_number_def int_text_def list_all_iff dec_val_itoa itoa_digits)
qed

lemma uid_number_inj: "uid_number s = Some n \<Longrightarrow> uid_number t = Some n \<Longrightarrow> s = t"
  using uid_number_text by metis

lemma dec_val_less: "list_all is_digit s \<Longrightarrow> dec_val s < 10 ^ length s"
proof (induction s rule: rev_induct)
  case (snoc c s)
  then have "digit_val c < 10" "dec_val s < 10 ^ length s" by (auto simp: is_digit_def digit_val_def)
  then show ?case by (simp add: dec_val_append)
qed (simp add: dec_val_def)

lemma uid_number_small: "uid_number s = Some n \<Longrightarrow> 0 < n \<and> n < 10 ^ 10"
proof -
  assume s: "uid_number s = Some n"
  then have "length s \<le> 10" "list_all is_digit s" "n = int (dec_val s)" by (auto simp: uid_number_def split: if_splits)
  then have "dec_val s < 10 ^ length s" "(10 :: nat) ^ length s \<le> 10 ^ 10"
    using dec_val_less power_increasing [OF \<open>length s \<le> 10\<close>, of "10 :: nat"] by simp_all
  with \<open>n = _\<close> uid_number_text [OF s] show ?thesis by simp
qed

lemma range_contains_iff: "range_contains r s \<longleftrightarrow> (\<exists>n. uid_number s = Some n \<and> range_has r n)"
  by (auto simp: range_contains_def split: option.splits)

section \<open>Lines and records\<close>

lemma split_on_append: "split_on c (s @ c # t) = split_on c s @ split_on c t"
proof (induction "length s" arbitrary: s rule: less_induct)
  case less
  show ?case
  proof (cases "c \<in> set s")
    case True
    then obtain a b where s: "s = a @ c # b" "c \<notin> set a" using split_list_first by metis
    with less.hyps [of b] show ?thesis by (simp add: split_on_append_sep)
  qed (simp add: split_on_append_sep split_on_no_sep)
qed

lemma lines_text_join: "ls \<noteq> [] \<Longrightarrow> lines_text ls = join [CHR 0x0A] ls @ [CHR 0x0A]"
proof (induction "[CHR 0x0A]" ls rule: join.induct)
  case (3 w v ws)
  then show ?case by (simp add: lines_text_def end_line_def)
qed (simp_all add: lines_text_def end_line_def)

lemma awk_records_lines: "\<forall>l \<in> set ls. CHR 0x0A \<notin> set l \<Longrightarrow> awk_records (lines_text ls) = ls"
  by (cases "ls = []") (simp add: awk_records_def lines_text_def, simp add: lines_text_join awk_records_def split_join)

lemma awk_records_joined: "ls \<noteq> [] \<Longrightarrow> \<forall>l \<in> set ls. CHR 0x0A \<notin> set l \<Longrightarrow> awk_records (lines_joined ls) = ls"
  using awk_records_lines [of ls] by (simp add: lines_text_join lines_joined_def)

lemma awk_records_no_newline: "l \<in> set (awk_records t) \<Longrightarrow> CHR 0x0A \<notin> set l"
  by (auto simp: awk_records_def dest: split_on_parts split: if_splits)

lemma awk_records_append:
  assumes "t \<noteq> []" "CHR 0x0A \<notin> set l"
  shows "awk_records ((if last t \<noteq> CHR 0x0A then end_line t else t) @ end_line l) = awk_records t @ [l]"
proof -
  have "awk_records (u @ CHR 0x0A # end_line l) = split_on (CHR 0x0A) u @ [l]" for u
    using assms(2) by (simp add: awk_records_def end_line_def butlast_append split_on_append split_on_no_sep)
  from this [of t] this [of "butlast t"] assms(1) show ?thesis
    by (cases t rule: rev_cases) (auto simp: awk_records_def end_line_def)
qed

lemma range_text_plain: "c \<in> set (range_text r) \<Longrightarrow> is_digit c \<or> c = CHR ''-''"
  by (auto simp: range_text_def int_text_def itoa_digits split: if_splits)

lemma record_lines_plain: "l \<in> set (record_lines r qs) \<Longrightarrow> CHR 0x0A \<notin> set l \<and> is_comment l"
proof -
  have d: "CHR 0x0A \<notin> set (range_text q)" for q using range_text_plain [of "CHR 0x0A" q] by (auto simp: is_digit_def)
  have "CHR 0x0A \<notin> set (join '' '' (map range_text qs))"
  proof
    assume "CHR 0x0A \<in> set (join '' '' (map range_text qs))"
    with set_join [of "'' ''" "map range_text qs"] d show False by auto
  qed
  with d show "l \<in> set (record_lines r qs) \<Longrightarrow> CHR 0x0A \<notin> set l \<and> is_comment l"
    by (auto simp: record_lines_def is_comment_def has_prefix_def split: if_splits)
qed

lemma uid_line_parts:
  assumes "CHR '':'' \<notin> set name" "CHR '':'' \<notin> set uid"
  shows "rec_name (uid_line name uid) = name" "rec_uid (uid_line name uid) = uid"
  using assms by (simp_all add: rec_name_def rec_uid_def uid_line_def awk_field_def split_on_append_sep split_on_no_sep)

lemma rec_name_plain: "CHR '':'' \<notin> set (rec_name r)" "CHR '':'' \<notin> set (rec_uid r)"
proof -
  have "CHR '':'' \<notin> set (split_on (CHR '':'') r ! n)" if "n < length (split_on (CHR '':'') r)" for n
    using split_on_parts nth_mem [OF that] by blast
  then show "CHR '':'' \<notin> set (rec_name r)" "CHR '':'' \<notin> set (rec_uid r)" by (simp_all add: rec_name_def rec_uid_def awk_field_def)
qed

section \<open>awk's comparison\<close>

text \<open>What the proofs take from \<open>strconv.ParseFloat\<close>: no text that starts with a letter is a number, the decimal
  numbers of at most ten digits are and each has a value of its own, and no text of awk's characters is NaN.\<close>

definition awk_text :: "string \<Rightarrow> bool" where
  "awk_text s \<longleftrightarrow> list_all (\<lambda>c. c \<in> set ''0123456789+-.eE'') s"

definition float_parser :: "(string \<Rightarrow> 64 word option) \<Rightarrow> bool" where
  "float_parser pf \<longleftrightarrow>
     (\<forall>s. awk_text s \<and> s \<noteq> [] \<and> is_letter (hd s) \<longrightarrow> pf s = None) \<and>
     (\<forall>s. uid_number s \<noteq> None \<longrightarrow> pf s \<noteq> None) \<and>
     (\<forall>s t x y. uid_number s \<noteq> None \<and> uid_number t \<noteq> None \<and> pf s = Some x \<and> pf t = Some y \<and> float_eq x y \<longrightarrow> s = t) \<and>
     (\<forall>s x. awk_text s \<and> pf s = Some x \<longrightarrow> float_eq x x)"

lemma trim_set_plain: "\<forall>c \<in> set s. c \<notin> set cs \<Longrightarrow> trim_set cs s = s"
proof -
  assume s: "\<forall>c \<in> set s. c \<notin> set cs"
  have d: "\<forall>c \<in> set t. c \<notin> set cs \<Longrightarrow> dropWhile (\<lambda>c. c \<in> set cs) t = t" for t by (cases t) auto
  from s d [of "rev s"] have "dropWhile (\<lambda>c. c \<in> set cs) (rev s) = rev s" by simp
  with d [OF s] show ?thesis by (simp add: trim_set_def)
qed

lemma awk_equal_refl: "float_parser pf \<Longrightarrow> awk_equal pf s s"
  by (auto simp: awk_equal_def awk_number_def float_parser_def awk_text_def Let_def split: option.splits if_splits)

lemma linux_name_no_number:
  assumes "float_parser pf" "linux_shape s"
  shows "awk_number pf s = None"
proof -
  have chars: "\<forall>c \<in> set s. is_lower c \<or> is_digit c \<or> c = CHR ''_'' \<or> c = CHR ''-''"
    using assms(2) by (cases s) (auto simp: linux_shape_def list_all_iff)
  then have "\<forall>c \<in> set s. c \<notin> set [CHR '' '', CHR 0x09, CHR 0x0A]" by (auto simp: is_lower_def is_digit_def)
  then have t: "trim_set [CHR '' '', CHR 0x09, CHR 0x0A] s = s" by (rule trim_set_plain)
  have "hd s = CHR ''_'' \<Longrightarrow> \<not> list_all (\<lambda>c. c \<in> set ''0123456789+-.eE'') s"
    using assms(2) by (cases s) (auto simp: linux_shape_def)
  moreover have "pf s = None" if "is_lower (hd s)" "list_all (\<lambda>c. c \<in> set ''0123456789+-.eE'') s"
    using assms that by (auto simp: float_parser_def awk_text_def linux_shape_def is_letter_def)
  ultimately show ?thesis using assms(2) by (auto simp: awk_number_def t linux_shape_def)
qed

lemma awk_equal_name: "float_parser pf \<Longrightarrow> linux_shape s \<Longrightarrow> awk_equal pf a s \<longleftrightarrow> a = s"
  using linux_name_no_number by (auto simp: awk_equal_def split: option.splits)

lemma digit_awk: "is_digit c \<Longrightarrow> c \<in> set ''0123456789+-.eE''"
proof -
  assume "is_digit c"
  then have "code_of c = code_of (CHR ''0'') \<or> code_of c = code_of (CHR ''1'') \<or> code_of c = code_of (CHR ''2'') \<or>
      code_of c = code_of (CHR ''3'') \<or> code_of c = code_of (CHR ''4'') \<or> code_of c = code_of (CHR ''5'') \<or>
      code_of c = code_of (CHR ''6'') \<or> code_of c = code_of (CHR ''7'') \<or> code_of c = code_of (CHR ''8'') \<or>
      code_of c = code_of (CHR ''9'')"
    unfolding is_digit_def by simp presburger
  then show ?thesis unfolding code_of_inj by auto
qed

lemma uid_number_awk: "uid_number s \<noteq> None \<Longrightarrow> awk_number pf s = pf s"
proof -
  assume "uid_number s \<noteq> None"
  then obtain n where n: "uid_number s = Some n" by blast
  then have s: "s \<noteq> []" "list_all is_digit s" by (auto simp: uid_number_def split: if_splits)
  then have "\<forall>c \<in> set s. c \<notin> set [CHR '' '', CHR 0x09, CHR 0x0A]" by (auto simp: list_all_iff is_digit_def)
  then have t: "trim_set [CHR '' '', CHR 0x09, CHR 0x0A] s = s" by (rule trim_set_plain)
  have "list_all (\<lambda>c. c \<in> set ''0123456789+-.eE'') s" using s(2) digit_awk unfolding list_all_iff by blast
  with s(1) show ?thesis unfolding awk_number_def t Let_def by simp
qed

lemma awk_equal_uid:
  assumes "float_parser pf" "uid_number s \<noteq> None" "uid_number t \<noteq> None"
  shows "awk_equal pf s t \<longleftrightarrow> s = t"
proof
  assume eq: "awk_equal pf s t"
  have "pf s \<noteq> None" "pf t \<noteq> None" using assms unfolding float_parser_def by blast+
  then obtain x y where "pf s = Some x" "pf t = Some y" by blast
  with eq assms show "s = t" by (auto simp: awk_equal_def uid_number_awk float_parser_def)
qed (use awk_equal_refl [OF assms(1)] in simp)

section \<open>The ledger as a function of its text\<close>

definition ledger_of :: "directory \<Rightarrow> string" where
  "ledger_of D = (case d_store D of Some (Regular t) \<Rightarrow> t | _ \<Rightarrow> [])"

abbreviation recs_of :: "directory \<Rightarrow> string list" where
  "recs_of D \<equiv> records_of (ledger_of D)"

lemma records_of_Nil [simp]: "records_of [] = []" "comments_of [] = []"
  by (simp_all add: records_of_def comments_of_def awk_records_def)

lemma read_ledger_Inr: "read_ledger ok D = Inr (cs, rs) \<Longrightarrow> cs = comments_of (ledger_of D) \<and> rs = recs_of D"
  by (auto simp: read_ledger_def ledger_text_def ledger_of_def split: if_splits option.splits node.splits)

lemma ledger_text_Inr: "ledger_text ok D = Inr t \<Longrightarrow> ledger_of D = (case t of None \<Rightarrow> [] | Some x \<Rightarrow> x)"
  by (auto simp: ledger_text_def ledger_of_def split: if_splits option.splits node.splits)

lemma lookup_Inr: "lookup pf ok name D = Inr uid \<Longrightarrow> uid = lookup_in pf (recs_of D) name"
  by (auto simp: lookup_def map_sum_def split: sum.splits dest: read_ledger_Inr)

lemma holder_Inr: "holder pf ok uid D = Inr h \<Longrightarrow> h = holder_in pf (recs_of D) uid"
  by (auto simp: holder_def map_sum_def split: sum.splits dest: read_ledger_Inr)

lemma touch_ledger: "touch L D = (e, D') \<Longrightarrow> ledger_of D' = ledger_of D"
  by (auto simp: touch_def ledger_of_def Let_def split: if_splits option.splits)

lemma ledger_steps_before: "n < 6 \<Longrightarrow> d_store (foldl (do_step data) D (take n ledger_steps)) = d_store D"
proof -
  assume "n < 6"
  then have "n \<in> {0, 1, 2, 3, 4, 5}" by auto
  then show ?thesis by (auto simp: ledger_steps_def)
qed

lemma write_atomic_ledger:
  "write_atomic L data D = (e, D') \<Longrightarrow> ledger_of D' = (if e = None then data else ledger_of D)"
proof -
  assume w: "write_atomic L data D = (e, D')"
  obtain r where r: "run_steps (li_io L) data ledger_steps D = (r, D')" "e = map_option LedgerWrite r"
    using w by (auto simp: write_atomic_def split: prod.splits)
  have len: "length ledger_steps = 6" by (simp add: ledger_steps_def)
  show ?thesis
  proof (cases r)
    case None
    with run_steps_cases [OF r(1)] r(2) show ?thesis by (simp add: ledger_steps_def ledger_of_def)
  next
    case (Some x)
    with run_steps_cases [OF r(1)] obtain n where "n < 6" "d_store D' = d_store (foldl (do_step data) D (take n ledger_steps))"
      by (auto simp: len)
    with ledger_steps_before [of n data D] r(2) Some show ?thesis by (simp add: ledger_of_def)
  qed
qed

lemma records_appended:
  assumes "CHR 0x0A \<notin> set l" "\<not> is_comment l"
  shows "records_of (ledger_before r (Some t) @ end_line l) = records_of t @ [l]"
    "comments_of (ledger_before r (Some t) @ end_line l) = (if t = [] then record_lines r [] else comments_of t)"
proof -
  have "awk_records (ledger_before r (Some t) @ end_line l) = (if t = [] then record_lines r [] else awk_records t) @ [l]"
  proof (cases "t = []")
    case True
    have "lines_text (record_lines r []) @ end_line l = lines_text (record_lines r [] @ [l])"
      by (simp add: lines_text_def)
    moreover have "\<forall>x \<in> set (record_lines r [] @ [l]). CHR 0x0A \<notin> set x"
      using record_lines_plain [of _ r "[]"] assms(1) by auto
    ultimately show ?thesis using True by (simp add: ledger_before_def awk_records_lines)
  next
    case False
    with awk_records_append [OF False assms(1)] show ?thesis by (auto simp: ledger_before_def Let_def)
  qed
  moreover have "filter is_comment (record_lines r []) = record_lines r []" "filter (\<lambda>l. \<not> is_comment l) (record_lines r []) = []"
    using record_lines_plain [of _ r "[]"] by (auto simp: filter_empty_conv filter_id_conv)
  moreover have "t = [] \<Longrightarrow> records_of t = []" by simp
  ultimately show "records_of (ledger_before r (Some t) @ end_line l) = records_of t @ [l]"
    "comments_of (ledger_before r (Some t) @ end_line l) = (if t = [] then record_lines r [] else comments_of t)"
    using assms(2) by (auto simp: records_of_def comments_of_def)
qed

lemma ledger_before_None: "ledger_before r None = ledger_before r (Some [])"
  by (simp add: ledger_before_def)

section \<open>Allocation\<close>

lemma highest_bounds:
  "foldl (\<lambda>m rec. case uid_number (rec_uid rec) of None \<Rightarrow> m | Some n \<Rightarrow> if range_has r n \<and> n > m then n else m) m0 recs \<ge> m0 \<and>
   (\<forall>rec \<in> set recs. \<forall>n. uid_number (rec_uid rec) = Some n \<and> range_has r n \<longrightarrow>
      n \<le> foldl (\<lambda>m rec. case uid_number (rec_uid rec) of None \<Rightarrow> m | Some n \<Rightarrow> if range_has r n \<and> n > m then n else m) m0 recs)"
proof (induction recs arbitrary: m0)
  case (Cons a recs)
  from Cons [of "case uid_number (rec_uid a) of None \<Rightarrow> m0 | Some n \<Rightarrow> if range_has r n \<and> n > m0 then n else m0"]
  show ?case by (force split: option.splits if_splits)
qed simp

lemma next_uid_above:
  assumes "next_uid r recs = Some uid"
  shows "\<exists>n. uid = int_text n \<and> range_has r n \<and>
    (\<forall>rec \<in> set recs. \<forall>m. uid_number (rec_uid rec) = Some m \<and> range_has r m \<longrightarrow> m < n)"
  using assms highest_bounds [where r = r and ?m0.0 = "ur_min r - 1" and recs = recs]
  by (force simp: next_uid_def highest_def Let_def range_has_def split: if_splits)

definition usable_range :: "uid_range \<Rightarrow> bool" where
  "usable_range r \<longleftrightarrow> range_problem_of (ledger_range r) = None"

lemma usable_bounds: "usable_range r \<Longrightarrow> 0 < ur_min (ledger_range r) \<and> ur_max (ledger_range r) < 10 ^ 10"
  by (auto simp: usable_range_def range_problem_of_def split: if_splits)

lemma uid_text_number: "usable_range r \<Longrightarrow> range_has (ledger_range r) n \<Longrightarrow> uid_number (int_text n) = Some n"
  using usable_bounds [of r] by (intro int_text_number) (auto simp: range_has_def)

lemma linux_name_plain:
  assumes "linux_shape s"
  shows "CHR '':'' \<notin> set s" "CHR 0x0A \<notin> set s" "s \<noteq> []" "\<not> is_comment (s @ t)"
proof -
  have "\<forall>c \<in> set s. is_lower c \<or> is_digit c \<or> c = CHR ''_'' \<or> c = CHR ''-''" "s \<noteq> []"
    using assms by (cases s; auto simp: linux_shape_def list_all_iff)+
  then show "CHR '':'' \<notin> set s" "CHR 0x0A \<notin> set s" "s \<noteq> []" "\<not> is_comment (s @ t)"
    by (auto simp: is_lower_def is_digit_def is_comment_def has_prefix_def neq_Nil_conv)
qed

lemma int_text_plain: "0 < n \<Longrightarrow> c \<in> set (int_text n) \<Longrightarrow> is_digit c"
  by (auto simp: int_text_def itoa_digits split: if_splits)

lemma lookup_append: "lookup_in pf rs name = [] \<Longrightarrow> \<forall>r \<in> set rs. rec_uid r \<noteq> [] \<Longrightarrow>
    lookup_in pf (rs @ [l]) name = (if awk_equal pf (rec_name l) name then rec_uid l else [])"
  by (induction rs) (auto simp: lookup_in_def split: if_splits option.splits)
text \<open>
  A ledger as tacctl writes it: every entry has a name and a number, and the entries of one number are of one name.
\<close>

definition sound_ledger :: "string list \<Rightarrow> bool" where
  "sound_ledger recs \<longleftrightarrow>
     (\<forall>a \<in> set recs. rec_name a \<noteq> [] \<and> uid_number (rec_uid a) \<noteq> None) \<and>
     (\<forall>a \<in> set recs. \<forall>b \<in> set recs. rec_uid a = rec_uid b \<longrightarrow> rec_name a = rec_name b)"

lemma sound_subset: "sound_ledger rs \<Longrightarrow> set qs \<subseteq> set rs \<Longrightarrow> sound_ledger qs"
  unfolding sound_ledger_def by blast

lemma sound_Nil [simp]: "sound_ledger []"
  by (simp add: sound_ledger_def)

lemma sound_entry: "sound_ledger rs \<Longrightarrow> a \<in> set rs \<Longrightarrow> rec_name a \<noteq> [] \<and> uid_number (rec_uid a) \<noteq> None \<and> rec_uid a \<noteq> []"
proof -
  assume "sound_ledger rs" "a \<in> set rs"
  then have "rec_name a \<noteq> []" "uid_number (rec_uid a) \<noteq> None" unfolding sound_ledger_def by blast+
  then show ?thesis by (auto simp: uid_number_def)
qed

lemma sound_name: "sound_ledger rs \<Longrightarrow> a \<in> set rs \<Longrightarrow> b \<in> set rs \<Longrightarrow> rec_uid a = rec_uid b \<Longrightarrow> rec_name a = rec_name b"
  unfolding sound_ledger_def by blast

lemma soundI:
  "(\<And>a. a \<in> set rs \<Longrightarrow> rec_name a \<noteq> [] \<and> uid_number (rec_uid a) \<noteq> None) \<Longrightarrow>
   (\<And>a b. a \<in> set rs \<Longrightarrow> b \<in> set rs \<Longrightarrow> rec_uid a = rec_uid b \<Longrightarrow> rec_name a = rec_name b) \<Longrightarrow> sound_ledger rs"
  unfolding sound_ledger_def by blast

lemma sound_add:
  assumes "sound_ledger rs" "rec_name l \<noteq> []" "uid_number (rec_uid l) \<noteq> None"
    and "\<And>a. a \<in> set rs \<Longrightarrow> rec_uid a = rec_uid l \<Longrightarrow> rec_name a = rec_name l"
  shows "sound_ledger (rs @ [l])"
proof (rule soundI)
  fix a
  assume "a \<in> set (rs @ [l])"
  then show "rec_name a \<noteq> [] \<and> uid_number (rec_uid a) \<noteq> None" using assms(2,3) sound_entry [OF assms(1)] by auto
next
  fix a b
  assume "a \<in> set (rs @ [l])" "b \<in> set (rs @ [l])" and eq: "rec_uid a = rec_uid b"
  then consider "a \<in> set rs" "b \<in> set rs" | "a = l" | "b = l" by auto
  then show "rec_name a = rec_name b"
    using assms(4) [of a] assms(4) [of b] sound_name [OF assms(1), of a b] eq \<open>a \<in> _\<close> \<open>b \<in> _\<close> by cases auto
qed

lemma uid_for_cases:
  assumes "uid_for pf r L name D = (res, D')"
  shows "(ledger_of D' = ledger_of D \<and>
           (case res of Inl _ \<Rightarrow> True | Inr uid \<Rightarrow> uid \<noteq> [] \<and> uid = lookup_in pf (recs_of D) name)) \<or>
    (\<exists>uid. res = Inr uid \<and> lookup_in pf (recs_of D) name = [] \<and>
       next_uid (ledger_range r) (recs_of D) = Some uid \<and>
       ledger_of D' = ledger_before (ledger_range r) (Some (ledger_of D)) @ end_line (uid_line name uid))" (is "?same \<or> ?new")
proof -
  have before: "ledger_before (ledger_range r) t = ledger_before (ledger_range r) (Some (ledger_of D))"
    if "ledger_of D = (case t of None \<Rightarrow> [] | Some x \<Rightarrow> x)" for t
    using that by (simp add: ledger_before_None split: option.splits)
  obtain e D1 where t: "touch L D = (e, D1)" by (cases "touch L D")
  note same = touch_ledger [OF t]
  show ?thesis
  proof (cases "e = None \<and> lookup pf (li_read L 0) name D1 = Inr []")
    case False
    then show ?thesis
      using assms t same by (auto simp: uid_for_def split: option.splits sum.splits if_splits dest: lookup_Inr)
  next
    case True
    then have l: "lookup_in pf (recs_of D) name = []" using lookup_Inr same by metis
    show ?thesis
    proof (cases "read_ledger (li_read L 1) D1")
      case (Inl x)
      with True assms t same show ?thesis by (auto simp: uid_for_def)
    next
      case (Inr p)
      obtain cs rs where p: "p = (cs, rs)" by (cases p)
      with read_ledger_Inr [OF Inr [unfolded p]] same have rs: "rs = recs_of D" by simp
      show ?thesis
      proof (cases "\<exists>uid t. next_uid (ledger_range r) rs = Some uid \<and> ledger_text (li_read L 2) D1 = Inr t")
        case False
        with True Inr p assms t same show ?thesis by (auto simp: uid_for_def split: option.splits sum.splits)
      next
        case ok: True
        then obtain uid t where u: "next_uid (ledger_range r) rs = Some uid" "ledger_text (li_read L 2) D1 = Inr t" by blast
        with ledger_text_Inr [OF u(2)] same have "ledger_of D = (case t of None \<Rightarrow> [] | Some x \<Rightarrow> x)" by simp
        note b = before [OF this]
        obtain x D2 where w: "write_atomic L (ledger_before (ledger_range r) t @ end_line (uid_line name uid)) D1 = (x, D2)"
          by (cases "write_atomic L (ledger_before (ledger_range r) t @ end_line (uid_line name uid)) D1")
        have "(res, D') = (case x of Some e \<Rightarrow> (Inl e, D2) | None \<Rightarrow> (Inr uid, D2))"
          using assms True Inr p u w \<open>touch L D = (e, D1)\<close> by (simp add: uid_for_def)
        with write_atomic_ledger [OF w] same b u(1) rs l show ?thesis by (cases x) simp_all
      qed
    qed
  qed
qed

lemma allocation:
  assumes pf: "float_parser pf" and name: "linux_name name" and r: "usable_range r" and sound: "sound_ledger (recs_of D)"
    and new: "next_uid (ledger_range r) (recs_of D) = Some uid" "lookup_in pf (recs_of D) name = []"
    and wr: "ledger_of D' = ledger_before (ledger_range r) (Some (ledger_of D)) @ end_line (uid_line name uid)"
  shows "recs_of D' = recs_of D @ [uid_line name uid]" "sound_ledger (recs_of D')" "lookup_in pf (recs_of D') name = uid"
    "range_contains (ledger_range r) uid"
proof -
  have shape: "linux_shape name" using name by (simp add: linux_name_def)
  note plain = linux_name_plain [OF shape]
  from next_uid_above [OF new(1)] obtain n where n: "uid = int_text n" "range_has (ledger_range r) n"
    "\<forall>rec \<in> set (recs_of D). \<forall>m. uid_number (rec_uid rec) = Some m \<and> range_has (ledger_range r) m \<longrightarrow> m < n" by blast
  have num: "uid_number uid = Some n" using uid_text_number [OF r n(2)] n(1) by simp
  then have digits: "list_all is_digit uid" using uid_number_text by blast
  then have u: "CHR '':'' \<notin> set uid" "CHR 0x0A \<notin> set uid" by (auto simp: list_all_iff is_digit_def)
  note line = uid_line_parts [OF plain(1) u(1)]
  have l: "CHR 0x0A \<notin> set (uid_line name uid)" "\<not> is_comment (uid_line name uid)"
    using plain u by (auto simp: uid_line_def)
  show recs: "recs_of D' = recs_of D @ [uid_line name uid]"
    unfolding wr by (rule records_appended(1) [OF l])
  have "rec_uid a \<noteq> uid" if "a \<in> set (recs_of D)" for a
    using n(2,3) num that by fastforce
  then show "sound_ledger (recs_of D')"
    unfolding recs using plain(3) num by (intro sound_add [OF sound]) (auto simp: line)
  have "\<forall>a \<in> set (recs_of D). rec_uid a \<noteq> []" using sound_entry [OF sound] by blast
  from lookup_append [OF new(2) this] show "lookup_in pf (recs_of D') name = uid"
    unfolding recs by (simp add: line awk_equal_refl [OF pf])
  show "range_contains (ledger_range r) uid" using num n(2) by (simp add: range_contains_iff)
qed

text \<open>
  C29: \<open>For\<close> answers the number the ledger has for the user, or adds one line with a number of the range that is
  above every number of the range in the file; the lines before it stay, the next lookup finds the number, and a
  refusal or a failed write leaves the ledger as it was. No entry is without a number and no number is of two users,
  if that was so before.
\<close>

theorem uid_for_correct:
  assumes "float_parser pf" "linux_name name" "usable_range r" "sound_ledger (recs_of D)"
    and "uid_for pf r L name D = (res, D')"
  shows "sound_ledger (recs_of D') \<and>
    (case res of
       Inl e \<Rightarrow> ledger_of D' = ledger_of D
     | Inr uid \<Rightarrow>
         lookup_in pf (recs_of D') name = uid \<and>
         (if lookup_in pf (recs_of D) name \<noteq> [] then ledger_of D' = ledger_of D
          else recs_of D' = recs_of D @ [uid_line name uid] \<and>
            (\<exists>n. uid = int_text n \<and> range_has (ledger_range r) n \<and>
              (\<forall>rec \<in> set (recs_of D). \<forall>m. uid_number (rec_uid rec) = Some m \<and> range_has (ledger_range r) m \<longrightarrow> m < n))))"
  using uid_for_cases [OF assms(5)]
proof (elim disjE exE conjE)
  assume "ledger_of D' = ledger_of D"
    "case res of Inl _ \<Rightarrow> True | Inr uid \<Rightarrow> uid \<noteq> [] \<and> uid = lookup_in pf (recs_of D) name"
  with assms(4) show ?thesis by (auto split: sum.splits)
next
  fix uid
  assume new: "res = Inr uid" "lookup_in pf (recs_of D) name = []" "next_uid (ledger_range r) (recs_of D) = Some uid"
    "ledger_of D' = ledger_before (ledger_range r) (Some (ledger_of D)) @ end_line (uid_line name uid)"
  note a = allocation [OF assms(1-4) new(3,2,4)]
  with next_uid_above [OF new(3)] new(1,2) show ?thesis by (simp del: One_nat_def)
qed

section \<open>The other changes\<close>

lemma match_user_plain:
  assumes "match_user s"
  shows "CHR '':'' \<notin> set s" "CHR 0x0A \<notin> set s" "s \<noteq> []" "\<not> is_comment (s @ t)"
proof -
  have "\<forall>c \<in> set s. is_word c" "s \<noteq> []" using assms by (auto simp: match_user_def list_all_iff)
  then show "CHR '':'' \<notin> set s" "CHR 0x0A \<notin> set s" "s \<noteq> []" "\<not> is_comment (s @ t)"
    by (auto simp: is_word_def is_letter_def is_lower_def is_upper_def is_digit_def is_comment_def has_prefix_def neq_Nil_conv)
qed

lemma uid_line_kept:
  assumes "match_user name" "uid_number uid \<noteq> None"
  shows "rec_name (uid_line name uid) = name" "rec_uid (uid_line name uid) = uid"
    "CHR 0x0A \<notin> set (uid_line name uid)" "\<not> is_comment (uid_line name uid)"
proof -
  have "list_all is_digit uid" using assms(2) uid_number_text by blast
  then have u: "CHR '':'' \<notin> set uid" "CHR 0x0A \<notin> set uid" by (auto simp: list_all_iff is_digit_def)
  note n = match_user_plain [OF assms(1)]
  from uid_line_parts [OF n(1) u(1)] show "rec_name (uid_line name uid) = name" "rec_uid (uid_line name uid) = uid" .
  from n u show "CHR 0x0A \<notin> set (uid_line name uid)" "\<not> is_comment (uid_line name uid)" by (auto simp: uid_line_def)
qed

lemma records_lines:
  assumes "\<forall>l \<in> set cs. is_comment l \<and> CHR 0x0A \<notin> set l" "\<forall>l \<in> set rs. \<not> is_comment l \<and> CHR 0x0A \<notin> set l"
  shows "records_of (lines_text (cs @ rs)) = rs" "comments_of (lines_text (cs @ rs)) = cs"
proof -
  have "awk_records (lines_text (cs @ rs)) = cs @ rs" using assms by (intro awk_records_lines) auto
  with assms show "records_of (lines_text (cs @ rs)) = rs" "comments_of (lines_text (cs @ rs)) = cs"
    by (auto simp: records_of_def comments_of_def filter_id_conv filter_empty_conv)
qed

lemma record_plain: "l \<in> set (records_of t) \<Longrightarrow> \<not> is_comment l \<and> CHR 0x0A \<notin> set l"
  "l \<in> set (comments_of t) \<Longrightarrow> is_comment l \<and> CHR 0x0A \<notin> set l"
  using awk_records_no_newline by (auto simp: records_of_def comments_of_def)

lemma replace_file_ledger:
  "replace_file L text D = (e, D') \<Longrightarrow> li_replace L \<noteq> Some 2 \<Longrightarrow> ledger_of D' \<in> {ledger_of D, [], text}"
  by (auto simp: replace_file_def ledger_of_def split: option.splits if_splits)

lemma held_number:
  assumes pf: "float_parser pf" and sound: "sound_ledger rs" and uid: "uid_number uid \<noteq> None"
    and h: "holder_in pf rs uid = [] \<or> holder_in pf rs uid = name" and a: "a \<in> set rs" "rec_uid a = uid"
  shows "rec_name a = name"
proof -
  have eq: "awk_equal pf (rec_uid b) uid \<longleftrightarrow> rec_uid b = uid" if "b \<in> set rs" for b
    using awk_equal_uid [OF pf _ uid] sound_entry [OF sound that] by blast
  obtain b where b: "first_where (\<lambda>r. awk_equal pf (rec_uid r) uid) rs = Some b"
    using a eq by (cases "first_where (\<lambda>r. awk_equal pf (rec_uid r) uid) rs") auto
  from first_where_Some [OF b] eq have "b \<in> set rs" "rec_uid b = uid" by auto
  with sound_name [OF sound a(1)] sound_entry [OF sound] a(2) have "rec_name a = rec_name b" "rec_name b \<noteq> []" by auto
  with b h show ?thesis by (auto simp: holder_in_def)
qed

definition assigned_text :: "(string \<Rightarrow> 64 word option) \<Rightarrow> uid_range \<Rightarrow> string \<Rightarrow> string \<Rightarrow> string \<Rightarrow> string" where
  "assigned_text pf r name uid t =
     lines_text ((if comments_of t = [] \<and> records_of t = [] then record_lines (ledger_range r) [] else comments_of t) @
       filter (\<lambda>l. \<not> awk_equal pf (rec_name l) name) (records_of t) @ [uid_line name uid])"

lemma assign_uid_cases:
  assumes "assign_uid pf r L name uid D = (e, D')"
  shows "ledger_of D' = ledger_of D \<or>
    holder_in pf (recs_of D) uid \<in> {[], name} \<and>
    (\<exists>D1 x. ledger_of D1 = ledger_of D \<and> replace_file L (assigned_text pf r name uid (ledger_of D)) D1 = (x, D'))"
proof -
  obtain x D1 where t: "touch L D = (x, D1)" by (cases "touch L D")
  note same = touch_ledger [OF t]
  show ?thesis
  proof (cases "li_lock L \<and> holder pf (li_read L 0) uid D \<in> {Inr [], Inr name} \<and> x = None")
    case False
    then show ?thesis using assms t same by (auto simp: assign_uid_def split: if_splits sum.splits option.splits)
  next
    case True
    then have h: "holder_in pf (recs_of D) uid \<in> {[], name}" using holder_Inr by fastforce
    from True assms t have a: "assign pf r L 1 name uid D1 = (e, D')" by (auto simp: assign_uid_def split: if_splits)
    show ?thesis
    proof (cases "read_ledger (li_read L 1) D1")
      case (Inl y)
      with a same show ?thesis by (simp add: assign_def)
    next
      case (Inr p)
      obtain cs rs where p: "p = (cs, rs)" by (cases p)
      from read_ledger_Inr [OF Inr [unfolded p]] same have "cs = comments_of (ledger_of D)" "rs = recs_of D" by simp_all
      with a Inr p have "replace_file L (assigned_text pf r name uid (ledger_of D)) D1 = (e, D')"
        by (simp add: assign_def assigned_text_def)
      with same h show ?thesis by blast
    qed
  qed
qed

lemma assigned_sound:
  assumes pf: "float_parser pf" and name: "match_user name" and u: "uid_number uid \<noteq> None"
    and sound: "sound_ledger (records_of t)" and h: "holder_in pf (records_of t) uid \<in> {[], name}"
  shows "records_of (assigned_text pf r name uid t) = filter (\<lambda>l. \<not> awk_equal pf (rec_name l) name) (records_of t) @ [uid_line name uid]"
    "sound_ledger (records_of (assigned_text pf r name uid t))"
proof -
  note line = uid_line_kept [OF name u]
  let ?kept = "filter (\<lambda>l. \<not> awk_equal pf (rec_name l) name) (records_of t)"
  show recs: "records_of (assigned_text pf r name uid t) = ?kept @ [uid_line name uid]"
    using record_plain [of _ t] record_lines_plain [of _ "ledger_range r" "[]"] line
    unfolding assigned_text_def by (intro records_lines) auto
  show "sound_ledger (records_of (assigned_text pf r name uid t))"
    unfolding recs
  proof (rule sound_add)
    show "sound_ledger ?kept" by (rule sound_subset [OF sound]) auto
    show "rec_name (uid_line name uid) \<noteq> []" using match_user_plain(3) [OF name] by (simp add: line)
    show "uid_number (rec_uid (uid_line name uid)) \<noteq> None" using u by (simp add: line)
    fix a
    assume "a \<in> set ?kept" "rec_uid a = rec_uid (uid_line name uid)"
    then show "rec_name a = rec_name (uid_line name uid)"
      using held_number [OF pf sound u, of name a] h by (simp add: line)
  qed
qed

lemma assign_uid_sound:
  assumes "float_parser pf" "match_user name" "range_contains (ledger_range r) uid" "sound_ledger (recs_of D)"
    and "li_replace L \<noteq> Some 2" "assign_uid pf r L name uid D = (e, D')"
  shows "sound_ledger (recs_of D')"
proof -
  have u: "uid_number uid \<noteq> None" using assms(3) by (auto simp: range_contains_iff)
  consider "ledger_of D' = ledger_of D" | D1 x where "holder_in pf (recs_of D) uid \<in> {[], name}" "ledger_of D1 = ledger_of D"
      "replace_file L (assigned_text pf r name uid (ledger_of D)) D1 = (x, D')"
    using assign_uid_cases [OF assms(6)] by blast
  then show ?thesis
  proof cases
    case 1
    with assms(4) show ?thesis by simp
  next
    case (2 D1 x)
    from replace_file_ledger [OF 2(3) assms(5)] 2(2) have "ledger_of D' \<in> {ledger_of D, [], assigned_text pf r name uid (ledger_of D)}" by simp
    with assigned_sound(2) [OF assms(1,2) u assms(4) 2(1)] assms(4) show ?thesis by auto
  qed
qed

lemma rename_sound:
  assumes new: "match_user new" and sound: "sound_ledger (recs_of D)"
    and run: "rename_uid pf L k old new D = (res, D')"
  shows "sound_ledger (recs_of D')"
proof -
  let ?f = "renamed_line pf old new" and ?t = "ledger_of D"
  have line: "\<not> is_comment (?f l) \<and> CHR 0x0A \<notin> set (?f l) \<and> rec_uid (?f l) = rec_uid l \<and>
      rec_name (?f l) = (if awk_equal pf (rec_name l) old then new else rec_name l)" if "l \<in> set (recs_of D)" for l
    using uid_line_kept [OF new, of "rec_uid l"] sound_entry [OF sound that] record_plain(1) [OF that]
    by (simp add: renamed_line_def)
  have "?f l = l" if "is_comment l" for l using that by (simp add: renamed_line_def)
  then have "records_of (lines_text (map ?f (awk_records ?t))) = map ?f (recs_of D)"
  proof -
    have part: "is_comment (?f l) \<longleftrightarrow> is_comment l" "CHR 0x0A \<notin> set (?f l)" if "l \<in> set (awk_records ?t)" for l
      using line [of l] that \<open>is_comment l \<Longrightarrow> ?f l = l\<close> awk_records_no_newline [OF that]
      by (cases "is_comment l"; auto simp: records_of_def)+
    then have "awk_records (lines_text (map ?f (awk_records ?t))) = map ?f (awk_records ?t)"
      by (intro awk_records_lines) auto
    moreover have "filter (\<lambda>l. \<not> is_comment (?f l)) (awk_records ?t) = filter (\<lambda>l. \<not> is_comment l) (awk_records ?t)"
      by (rule filter_cong) (use part in auto)
    ultimately show ?thesis by (simp add: records_of_def filter_map comp_def)
  qed
  moreover have "sound_ledger (map ?f (recs_of D))"
  proof (rule soundI)
    fix a
    assume "a \<in> set (map ?f (recs_of D))"
    then show "rec_name a \<noteq> [] \<and> uid_number (rec_uid a) \<noteq> None"
      using line sound_entry [OF sound] match_user_plain(3) [OF new] by (auto split: if_splits)
  next
    fix a b
    assume "a \<in> set (map ?f (recs_of D))" "b \<in> set (map ?f (recs_of D))" "rec_uid a = rec_uid b"
    then obtain a0 b0 where ab: "a0 \<in> set (recs_of D)" "b0 \<in> set (recs_of D)" "a = ?f a0" "b = ?f b0" by auto
    with line [of a0] line [of b0] \<open>rec_uid a = rec_uid b\<close> have "rec_uid a0 = rec_uid b0" by simp
    from sound_name [OF sound ab(1,2) this] line [OF ab(1)] line [OF ab(2)] ab(3,4) show "rec_name a = rec_name b" by simp
  qed
  moreover have "ledger_of D' = ?t \<or> ledger_of D' = lines_text (map ?f (awk_records ?t))"
    using run by (auto simp: rename_uid_def split: sum.splits option.splits if_splits prod.splits
        dest!: ledger_text_Inr write_atomic_ledger)
  ultimately show ?thesis using sound by auto
qed

lemma move_user_sound:
  assumes "match_user new" "sound_ledger (recs_of D)" "move_user pf L old new D = (m, D')"
  shows "sound_ledger (recs_of D')"
proof -
  obtain res D1 where rn: "rename_uid pf L 1 old new D = (res, D1)" by (cases "rename_uid pf L 1 old new D")
  from rename_sound [OF assms(1,2) rn] assms(2,3) rn show ?thesis
    by (auto simp: move_user_def split: if_splits sum.splits bool.splits)
qed

section \<open>What the hosts get\<close>

text \<open>The changes that commands make, whatever the system answers; a write that was torn in the middle is left out.\<close>

inductive ledger_step :: "(string \<Rightarrow> 64 word option) \<Rightarrow> uid_range \<Rightarrow> directory \<Rightarrow> directory \<Rightarrow> bool" for pf r where
  allocate: "linux_name name \<Longrightarrow> uid_for pf r L name D = (res, D') \<Longrightarrow> ledger_step pf r D D'"
| assign_number: "match_user name \<Longrightarrow> range_contains (ledger_range r) uid \<Longrightarrow> li_replace L \<noteq> Some 2 \<Longrightarrow>
    assign_uid pf r L name uid D = (e, D') \<Longrightarrow> ledger_step pf r D D'"
| move: "match_user new \<Longrightarrow> move_user pf L old new D = (m, D') \<Longrightarrow> ledger_step pf r D D'"

lemma uid_for_sound:
  assumes "float_parser pf" "linux_name name" "usable_range r" "sound_ledger (recs_of D)" "uid_for pf r L name D = (res, D')"
  shows "sound_ledger (recs_of D')"
  using uid_for_cases [OF assms(5)] allocation(2) [OF assms(1-4)] assms(4) by auto

lemma steps_sound:
  assumes "float_parser pf" "usable_range r" "(ledger_step pf r)\<^sup>*\<^sup>* D D'" "sound_ledger (recs_of D)"
  shows "sound_ledger (recs_of D')"
  using assms(3,4)
proof (induction rule: rtranclp_induct)
  case (step D1 D2)
  from step(2) show ?case
  proof cases
    case (allocate name L res)
    from uid_for_sound [OF assms(1) this(1) assms(2) step(3) this(2)] step(4) show ?thesis by simp
  next
    case (assign_number name uid L e)
    from assign_uid_sound [OF assms(1) this(1,2) _ this(3,4)] step(3,4) show ?thesis by simp
  next
    case (move new L old m)
    from move_user_sound [OF this(1) _ this(2)] step(3,4) show ?thesis by simp
  qed
qed

lemma lookup_entry:
  assumes "float_parser pf" "linux_shape name" "lookup_in pf rs name = uid" "uid \<noteq> []"
  shows "\<exists>a \<in> set rs. rec_name a = name \<and> rec_uid a = uid"
proof -
  obtain a where a: "first_where (\<lambda>r. awk_equal pf (rec_name r) name) rs = Some a" "rec_uid a = uid"
    using assms(3,4) by (auto simp: lookup_in_def split: option.splits)
  from first_where_Some [OF a(1)] a(2) awk_equal_name [OF assms(1,2)] show ?thesis by auto
qed

lemma lookup_kept:
  assumes "lookup_in pf rs name \<noteq> []"
  shows "lookup_in pf (rs @ qs) name = lookup_in pf rs name"
proof -
  have add: "first_where P rs = Some a \<Longrightarrow> first_where P (rs @ qs) = Some a" for P and a :: string
    by (induction rs) (auto split: if_splits)
  obtain a where "first_where (\<lambda>r. awk_equal pf (rec_name r) name) rs = Some a"
    using assms unfolding lookup_in_def by (metis option.exhaust option.simps(4))
  with add show ?thesis by (simp add: lookup_in_def)
qed

lemma uid_for_keeps:
  assumes "float_parser pf" "linux_name name" "usable_range r" "sound_ledger (recs_of D)" "uid_for pf r L name D = (Inr uid, D')"
  shows "lookup_in pf (recs_of D') name = uid" "uid \<noteq> []"
    "lookup_in pf (recs_of D) other \<noteq> [] \<Longrightarrow> lookup_in pf (recs_of D') other = lookup_in pf (recs_of D) other"
proof -
  have num: "lookup_in pf (recs_of D') name = uid \<and> uid \<noteq> [] \<and>
    (lookup_in pf (recs_of D) other \<noteq> [] \<longrightarrow> lookup_in pf (recs_of D') other = lookup_in pf (recs_of D) other)"
    using uid_for_cases [OF assms(5)]
  proof (elim disjE exE conjE)
    fix u
    assume new: "Inr uid = (Inr u :: ledger_error + string)" "lookup_in pf (recs_of D) name = []"
      "next_uid (ledger_range r) (recs_of D) = Some u"
      "ledger_of D' = ledger_before (ledger_range r) (Some (ledger_of D)) @ end_line (uid_line name u)"
    note a = allocation [OF assms(1-4) new(3,2,4)]
    have "u \<noteq> []" using a(4) by (auto simp: range_contains_iff uid_number_def)
    with a new(1) lookup_kept show ?thesis by simp
  qed auto
  then show "lookup_in pf (recs_of D') name = uid" "uid \<noteq> []"
    "lookup_in pf (recs_of D) other \<noteq> [] \<Longrightarrow> lookup_in pf (recs_of D') other = lookup_in pf (recs_of D) other" by auto
qed

definition host_line :: "(string \<Rightarrow> 64 word option) \<Rightarrow> uid_range \<Rightarrow> directory \<Rightarrow> string \<times> tier \<times> string \<Rightarrow> bool" where
  "host_line pf r D l \<longleftrightarrow> linux_name (fst l) \<and> fst (snd l) \<noteq> NoTier \<and> range_contains (ledger_range r) (snd (snd l)) \<and>
     lookup_in pf (recs_of D) (fst l) = snd (snd l)"

lemma scope_users_lines:
  assumes pf: "float_parser pf" and r: "usable_range r"
  shows "scope_users pf r L tiers i us D = (res, D') \<Longrightarrow> sound_ledger (recs_of D) \<Longrightarrow>
    sound_ledger (recs_of D') \<and>
    (\<forall>n. lookup_in pf (recs_of D) n \<noteq> [] \<longrightarrow> isl res \<or> lookup_in pf (recs_of D') n = lookup_in pf (recs_of D) n) \<and>
    (\<forall>out keep. res = Inr (out, keep) \<longrightarrow> list_all (host_line pf r D') out)"
proof (induction us arbitrary: i D res)
  case (Cons v us)
  obtain name privlvl b where cut: "cut_at (CHR ''|'') v = (name, privlvl, b)" by (cases "cut_at (CHR ''|'') v")
  show ?case
  proof (cases "name = [] \<or> name = ''root'' \<or> \<not> linux_shape name")
    case True
    with Cons.IH [of "Suc i" D res] Cons.prems cut show ?thesis by simp
  next
    case False
    then have name: "linux_name name" by (simp add: linux_name_def)
    let ?t = "for_group (tiers name) privlvl"
    show ?thesis
    proof (cases "?t = NoTier")
      case True
      obtain res1 D1 where rest: "scope_users pf r L tiers (Suc i) us D = (res1, D1)" by (cases "scope_users pf r L tiers (Suc i) us D")
      with Cons.prems cut False True have "res = map_sum id (\<lambda>(out, keep). (out, name # keep)) res1" "D' = D1" by auto
      with Cons.IH [OF rest [unfolded \<open>D' = D1\<close> [symmetric]] Cons.prems(2)] show ?thesis by (cases res1) auto
    next
      case tier: False
      obtain res0 D1 where u: "uid_for pf r (L i) name D = (res0, D1)" by (cases "uid_for pf r (L i) name D")
      note s1 = uid_for_sound [OF pf name r Cons.prems(2) u]
      show ?thesis
      proof (cases res0)
        case (Inl e)
        with u s1 Cons.prems cut False tier show ?thesis by (auto simp: Let_def)
      next
        case (Inr uid)
        note k = uid_for_keeps [OF pf name r Cons.prems(2) u [unfolded Inr]]
        obtain res1 D2 where rest: "scope_users pf r L tiers (Suc i) us D1 = (res1, D2)" by (cases "scope_users pf r L tiers (Suc i) us D1")
        with Cons.prems cut False tier u Inr have res: "res = map_sum id (\<lambda>(out, keep).
            if range_contains (ledger_range r) uid then ((name, ?t, uid) # out, keep) else (out, name # keep)) res1" "D' = D2"
          by (auto simp: Let_def)
        note IH = Cons.IH [OF rest [folded res(2)] s1]
        have "lookup_in pf (recs_of D') name = uid" if "\<not> isl res1"
          using IH k(1,2) that by (cases res1) auto
        moreover have "lookup_in pf (recs_of D) n \<noteq> [] \<Longrightarrow> isl res1 \<or> lookup_in pf (recs_of D') n = lookup_in pf (recs_of D) n" for n
          using IH k(3) [of n] by metis
        ultimately show ?thesis using IH name tier res(1) by (cases res1) (auto simp: host_line_def split: if_splits)
      qed
    qed
  qed
qed simp


section \<open>Whether a namespace holds the range\<close>

definition in_ranges :: "uid_range list \<Rightarrow> int \<Rightarrow> bool" where
  "in_ranges rs n \<longleftrightarrow> (\<exists>x \<in> set rs. range_has x n)"

lemma cover_pass_Inl:
  "cover_pass xs hi nxt moved = Inl u \<Longrightarrow> \<forall>n. nxt \<le> n \<and> n \<le> hi \<longrightarrow> in_ranges xs n"
proof (induction xs hi nxt moved rule: cover_pass.induct)
  case (2 x xs hi nxt moved)
  show ?case
  proof (cases "range_has x nxt")
    case True
    show ?thesis
    proof (cases "ur_max x \<ge> hi")
      case True
      with \<open>range_has x nxt\<close> show ?thesis by (auto simp: in_ranges_def range_has_def)
    next
      case False
      with 2 True have "\<forall>n. ur_max x + 1 \<le> n \<and> n \<le> hi \<longrightarrow> in_ranges xs n" by simp
      moreover have "in_ranges (x # xs) n" if "nxt \<le> n" "n \<le> ur_max x" for n
        using that \<open>range_has x nxt\<close> by (auto simp: in_ranges_def range_has_def)
      ultimately show ?thesis by (force simp: in_ranges_def)
    qed
  next
    case False
    with 2 show ?thesis by (auto simp: in_ranges_def)
  qed
qed simp

lemma cover_pass_Inr:
  "cover_pass xs hi nxt moved = Inr (n, m) \<Longrightarrow>
     nxt \<le> n \<and> (nxt \<le> hi \<longrightarrow> n \<le> hi) \<and> (\<forall>i. nxt \<le> i \<and> i < n \<longrightarrow> in_ranges xs i) \<and>
     (m \<longrightarrow> moved \<or> nxt < n) \<and> (\<not> m \<longrightarrow> \<not> moved \<and> n = nxt \<and> \<not> in_ranges xs nxt)"
proof (induction xs hi nxt moved rule: cover_pass.induct)
  case (2 x xs hi nxt moved)
  show ?case
  proof (cases "range_has x nxt")
    case True
    with 2 have "\<not> ur_max x \<ge> hi" by auto
    with 2 True have IH: "ur_max x + 1 \<le> n \<and> (ur_max x + 1 \<le> hi \<longrightarrow> n \<le> hi) \<and> (\<forall>i. ur_max x + 1 \<le> i \<and> i < n \<longrightarrow> in_ranges xs i) \<and> m"
      by auto
    have "in_ranges (x # xs) i" if "nxt \<le> i" "i < n" for i
      using that IH True by (cases "i \<le> ur_max x") (auto simp: in_ranges_def range_has_def)
    with IH True \<open>\<not> ur_max x \<ge> hi\<close> show ?thesis by (auto simp: range_has_def)
  next
    case False
    with 2 show ?thesis by (auto simp: in_ranges_def)
  qed
qed (auto simp: in_ranges_def)

lemma cover_loop_total: "nxt \<le> hi \<or> nxt = lo \<Longrightarrow>
   \<exists>b. cover_loop rs hi nxt = Some b \<and> (b \<longleftrightarrow> (\<forall>n. nxt \<le> n \<and> n \<le> hi \<longrightarrow> in_ranges rs n) \<and> (hi < nxt \<longrightarrow> in_ranges rs nxt))"
proof (induction "nat (hi + 1 - nxt)" arbitrary: nxt rule: less_induct)
  case less
  show ?case
  proof (cases "cover_pass rs hi nxt False")
    case (Inl u)
    have "in_ranges rs nxt" if "hi < nxt"
    proof (rule ccontr)
      assume n: "\<not> in_ranges rs nxt"
      have "cover_pass xs hi nxt False = Inr (nxt, False)" if "\<not> in_ranges xs nxt" for xs
        using that by (induction xs) (auto simp: in_ranges_def)
      with n Inl show False by simp
    qed
    with Inl cover_pass_Inl [OF Inl] show ?thesis by (subst cover_loop.simps) auto
  next
    case (Inr p)
    obtain n m where p: "p = (n, m)" by (cases p)
    note c = cover_pass_Inr [OF Inr [unfolded p]]
    show ?thesis
    proof (cases m)
      case False
      with c have s: "n = nxt" "\<not> in_ranges rs nxt" by auto
      have "nxt \<le> hi \<or> hi < nxt" by auto
      with s Inr p False show ?thesis by (subst cover_loop.simps) (auto intro!: exI [of _ nxt])
    next
      case True
      with c have lt: "nxt < n" by auto
      have le: "nxt \<le> hi"
      proof (rule ccontr)
        assume "\<not> nxt \<le> hi"
        have "cover_pass xs hi nxt False \<in> {Inl (), Inr (nxt, False)}" for xs
          using \<open>\<not> nxt \<le> hi\<close> by (induction xs) (auto simp: range_has_def)
        with Inr p lt show False by (metis (no_types) insert_iff singletonD sum.distinct(1) sum.inject(2) prod.inject less_irrefl)
      qed
      with c have n: "n \<le> hi" by auto
      from less.hyps [of n] lt le n obtain b where
        b: "cover_loop rs hi n = Some b" "b \<longleftrightarrow> (\<forall>i. n \<le> i \<and> i \<le> hi \<longrightarrow> in_ranges rs i)" by auto
      have "(\<forall>i. n \<le> i \<and> i \<le> hi \<longrightarrow> in_ranges rs i) \<longleftrightarrow> (\<forall>i. nxt \<le> i \<and> i \<le> hi \<longrightarrow> in_ranges rs i)"
        using c lt by (metis linorder_not_less order_trans order_less_imp_le)
      with b Inr p True le show ?thesis by (subst cover_loop.simps) auto
    qed
  qed
qed

text \<open>
  C34: the loop of \<open>covers\<close> ends on every list of ranges, and its answer is true exactly when each number of the range
  is in one of them.
\<close>

theorem range_covers_total:
  "if ur_min r \<le> ur_max r
   then range_covers rs r = Some (\<forall>n. range_has r n \<longrightarrow> (\<exists>x \<in> set rs. range_has x n))
   else range_covers rs r = Some (\<exists>x \<in> set rs. range_has x (ur_min r))"
proof -
  obtain b where "cover_loop rs (ur_max r) (ur_min r) = Some b"
    "b \<longleftrightarrow> (\<forall>n. ur_min r \<le> n \<and> n \<le> ur_max r \<longrightarrow> in_ranges rs n) \<and> (ur_max r < ur_min r \<longrightarrow> in_ranges rs (ur_min r))"
    using cover_loop_total [of "ur_min r" "ur_max r" "ur_min r" rs] by auto
  then show ?thesis by (auto simp: range_covers_def in_ranges_def range_has_def [of r])
qed

end
