(* ===== verification/UidWitness.thy ===== *)
theory UidWitness
  imports UidLedgerProps
begin

text \<open>
  The ledger on a concrete server: its first two users, and three things that the code does to it that its own
  comments exclude.
\<close>

section \<open>A concrete ledger\<close>

text \<open>A reader of decimal numbers, each with a value of its own.\<close>

definition plain_float :: "string \<Rightarrow> 64 word option" where
  "plain_float s = map_option word_of_int (uid_number s)"

lemma word_small:
  assumes "0 < n" "n < 10 ^ 10"
  shows "uint (word_of_int n :: 64 word) = n" "\<not> float_nan (word_of_int n)" "take_bit 63 (word_of_int n :: 64 word) \<noteq> 0"
proof -
  show u: "uint (word_of_int n :: 64 word) = n"
    using assms by (simp add: uint_word_of_int_eq take_bit_int_eq_self)
  have tb: "take_bit LENGTH(64) n = n" using assms by (simp add: take_bit_int_eq_self)
  have "uint (drop_bit 52 (word_of_int n :: 64 word)) = n div 2 ^ 52"
    unfolding unsigned_drop_bit_eq u tb by (rule drop_bit_eq_div)
  also have "\<dots> = 0" using assms by simp
  finally have "uint (drop_bit 52 (word_of_int n :: 64 word)) = 0" .
  then have "drop_bit 52 (word_of_int n :: 64 word) = 0" by (metis uint_0_iff)
  then show "\<not> float_nan (word_of_int n)" by (simp add: float_nan_def)
  have "uint (take_bit 63 (word_of_int n :: 64 word)) = n"
    using assms unfolding unsigned_take_bit_eq u by (simp add: take_bit_int_eq_self)
  with assms(1) show "take_bit 63 (word_of_int n :: 64 word) \<noteq> 0" by auto
qed

lemma plain_float_parser: "float_parser plain_float"
proof -
  have val: "\<exists>n. uid_number s = Some n \<and> x = word_of_int n \<and> 0 < n \<and> n < 10 ^ 10" if "plain_float s = Some x" for s x
    using that uid_number_small by (auto simp: plain_float_def)
  have "s = t" if s: "plain_float s = Some x" and t: "plain_float t = Some y" and eq: "float_eq x y" for s t x y
  proof -
    obtain n m where n: "uid_number s = Some n" "x = word_of_int n" "0 < n" "n < 10 ^ 10"
      and m: "uid_number t = Some m" "y = word_of_int m" "0 < m" "m < 10 ^ 10" using val [OF s] val [OF t] by blast
    with eq word_small(3) [OF n(3,4)] have "x = y" by (auto simp: float_eq_def)
    then have "n = m" using word_small(1) [OF n(3,4)] word_small(1) [OF m(3,4)] unfolding n(2) m(2) by metis
    with n m uid_number_inj show ?thesis by blast
  qed
  moreover have "plain_float s = None" if "s \<noteq> []" "is_letter (hd s)" for s
    using that by (cases s) (auto simp: plain_float_def uid_number_def is_letter_def is_lower_def is_upper_def is_digit_def)
  moreover have "float_eq x x" if "plain_float s = Some x" for s x
    using val [OF that] word_small by (auto simp: float_eq_def)
  ultimately show ?thesis unfolding float_parser_def by (intro conjI) (blast, simp add: plain_float_def, blast, blast)
qed

definition sample_dir :: directory where
  "sample_dir = \<lparr>d_store = None, d_temp = None\<rparr>"

definition calm :: ledger_io where
  "calm = \<lparr>li_lock = True, li_open = True, li_times = True, li_read = \<lambda>_. True,
     li_io = \<lparr>io_lock = True, io_load = True, io_compare = True, io_fail = None, io_partial = 0, io_remove = True\<rparr>,
     li_backup = True, li_replace = None\<rparr>"

definition one_user :: directory where
  "one_user = \<lparr>d_store = Some (Regular (''# range 80000-89999'' @ [CHR 0x0A] @ ''ann:80000'' @ [CHR 0x0A])), d_temp = None\<rparr>"

lemma sample_numbers:
  "uid_number ''80000'' = Some 80000" "uid_number ''80001'' = Some 80001" "int_text 80000 = ''80000''" "int_text 80001 = ''80001''" "int_text 89999 = ''89999''"
proof -
  show n: "uid_number ''80000'' = Some 80000" "uid_number ''80001'' = Some 80001" 
    by (simp_all add: uid_number_def dec_val_def digit_val_def is_digit_def)
  from n [THEN uid_number_text] show "int_text 80000 = ''80000''" "int_text 80001 = ''80001''" by simp_all
  have "uid_number ''89999'' = Some 89999" 
    by (simp add: uid_number_def dec_val_def digit_val_def is_digit_def)
  from uid_number_text [OF this] show "int_text 89999 = ''89999''" by simp
qed

lemma first_user: "uid_for plain_float default_range calm ''ann'' sample_dir = (Inr ''80000'', one_user)"
  by (simp add: uid_for_def touch_def lookup_def read_ledger_def ledger_text_def sample_dir_def calm_def lookup_in_def
      next_uid_def highest_def ledger_range_def range_zero_def default_range_def ledger_before_def Let_def sample_numbers
      write_atomic_def ledger_steps_def record_lines_def range_text_def lines_text_def end_line_def uid_line_def one_user_def)

lemma second_user: "uid_for plain_float default_range calm ''bob'' one_user =
    (Inr ''80001'', one_user\<lparr>d_store := Some (Regular (ledger_of one_user @ ''bob:80001'' @ [CHR 0x0A]))\<rparr>)"
proof -
  have r: "recs_of one_user = [''ann:80000'']" "comments_of (ledger_of one_user) = [''# range 80000-89999'']" by code_simp+
  have l: "lookup_in plain_float [''ann:80000''] ''bob'' = []" by code_simp
  have u: "rec_uid ''ann:80000'' = ''80000''" by code_simp
  have t: "ledger_text True one_user = Inr (Some (ledger_of one_user))" by code_simp
  have rl: "read_ledger True one_user = Inr (comments_of (ledger_of one_user), recs_of one_user)" by (simp add: read_ledger_def t)
  have b: "ledger_before default_range (Some (ledger_of one_user)) = ledger_of one_user" by code_simp
  have n: "next_uid default_range [''ann:80000''] = Some ''80001''"
    by (simp add: next_uid_def highest_def u sample_numbers default_range_def range_has_def)
  have tc: "touch calm one_user = (None, one_user)" by code_simp
  have c: "li_read calm = (\<lambda>_. True)" "io_fail (li_io calm) = None" by (simp_all add: calm_def)
  have d: "ledger_range default_range = default_range" by code_simp
  have w: "write_atomic calm x one_user = (None, one_user\<lparr>d_store := Some (Regular x)\<rparr>)" for x
    by (simp add: write_atomic_def ledger_steps_def c) (simp add: one_user_def)
  show ?thesis
    by (simp add: uid_for_def tc lookup_def rl r l c n t b d w end_line_def uid_line_def)
qed

theorem uid_for_correct_witness:
  "let D' = snd (uid_for plain_float default_range calm ''ann'' sample_dir)
   in fst (uid_for plain_float default_range calm ''ann'' sample_dir) = Inr ''80000'' \<and>
      sound_ledger (recs_of D') \<and> lookup_in plain_float (recs_of D') ''ann'' = ''80000''"
proof -
  have h: "linux_name ''ann''" "usable_range default_range" "sound_ledger (recs_of sample_dir)"
    by (simp_all add: linux_name_def linux_shape_def is_lower_def usable_range_def ledger_range_def range_zero_def
        default_range_def range_problem_of_def range_size_def systemd_reserved_def range_overlaps_def ledger_of_def sample_dir_def)
  from uid_for_correct [OF plain_float_parser h first_user] show ?thesis by (simp add: first_user)
qed


theorem range_covers_total_witness:
  "range_covers [\<lparr>ur_min = 80000, ur_max = 145535\<rparr>, \<lparr>ur_min = 0, ur_max = 79999\<rparr>] \<lparr>ur_min = 79990, ur_max = 80010\<rparr> = Some True"
proof -
  let ?rs = "[\<lparr>ur_min = 80000, ur_max = 145535\<rparr>, \<lparr>ur_min = 0, ur_max = 79999\<rparr>]" and ?r = "\<lparr>ur_min = 79990, ur_max = 80010\<rparr>"
  have "\<forall>n. range_has ?r n \<longrightarrow> (\<exists>x \<in> set ?rs. range_has x n)" by (auto simp: range_has_def)
  with range_covers_total [of ?r ?rs] show ?thesis by simp
qed

section \<open>What the comments exclude\<close>

text \<open>
  \<open>Assign\<close> drops the line with the number a user had: where that was the highest of the range the next allocation
  gives it to another user.
\<close>

lemma number_given_again:
  "holder_in plain_float [''bob:80001''] ''80000'' = [] \<and>
   records_of (assigned_text plain_float default_range ''bob'' ''80000'' (''bob:80001'' @ [CHR 0x0A])) = [''bob:80000''] \<and>
   next_uid default_range [''bob:80000''] = Some ''80001''"
proof (intro conjI)
  have u: "rec_uid ''bob:80001'' = ''80001''" "rec_uid ''bob:80000'' = ''80000''" "rec_name ''bob:80001'' = ''bob''" by code_simp+
  have "\<not> awk_equal plain_float ''80001'' ''80000''"
    using awk_equal_uid [OF plain_float_parser, of "''80001''" "''80000''"] by (simp add: sample_numbers)
  then show "holder_in plain_float [''bob:80001''] ''80000'' = []" by (simp add: holder_in_def u)
  have t: "records_of (''bob:80001'' @ [CHR 0x0A]) = [''bob:80001'']" "match_user ''bob''" by code_simp+
  have sound: "sound_ledger [''bob:80001'']" by (simp add: sound_ledger_def u sample_numbers)
  from assigned_sound(1) [OF plain_float_parser t(2), of "''80000''" "''bob:80001'' @ [CHR 0x0A]" default_range]
  show "records_of (assigned_text plain_float default_range ''bob'' ''80000'' (''bob:80001'' @ [CHR 0x0A])) = [''bob:80000'']"
    using sound t \<open>\<not> awk_equal plain_float ''80001'' ''80000''\<close>
    by (simp add: sample_numbers holder_in_def u awk_equal_refl [OF plain_float_parser] uid_line_def)
  show "next_uid default_range [''bob:80000''] = Some ''80001''"
    by (simp add: next_uid_def highest_def u sample_numbers default_range_def range_has_def)
qed

text \<open>
  \<open>RenumberTo\<close> drops the error of its second read: where that one fails the ledger is replaced by its first line,
  and no copy is made.
\<close>

lemma second_read_drops_ledger:
  "renumber_to default_range (calm\<lparr>li_read := \<lambda>n. n = 0\<rparr>) False one_user =
     (Inr \<lparr>rn_from = default_range, rn_moved = 0, rn_changed = True\<rparr>, None,
      one_user\<lparr>d_store := Some (Regular (''# range 80000-89999'' @ [CHR 0x0A]))\<rparr>)"
  by (simp add: renumber_to_def ledger_range_def range_zero_def default_range_def ledger_text_def one_user_def calm_def
      read_ledger_def renumber_plan_def parse_record_def record_range_def unrecorded_def other_comments_def record_lines_def
      range_text_def sample_numbers lines_joined_def write_atomic_def ledger_steps_def Let_def)

text \<open>A \<open>config linux uid\<close> that fails after the old file is gone leaves no ledger.\<close>

lemma assign_loses_ledger:
  "replace_file (calm\<lparr>li_replace := Some 1\<rparr>) t D = (Some (LedgerReplace 1), D\<lparr>d_store := None\<rparr>)"
  by (simp add: replace_file_def)

end
