(* ===== verification/PlanTables.thy ===== *)
theory PlanTables
  imports ApplyTypes NameFormats
begin

text \<open>
  The data that guards a change of a Junos device (\<open>internal/devconf/plan\<close>): the words of a statement and how they are
  written back (\<open>plan.go\<close>), the table of the objects tacctl owns (\<open>owned.go\<close>), what the rendering says about each
  row (\<open>junosRows\<close> of \<open>junos.go\<close>), and the statements that are never emitted.
\<close>

section \<open>Words\<close>

text \<open>
  \<open>range s\<close> with \<open>WriteRune\<close>: the runes of a string as they are written; a byte that starts no valid sequence becomes
  U+FFFD.
\<close>

function written_runes :: "string \<Rightarrow> string list" where
  "written_runes s =
     (if s = [] then []
      else let (r, w) = decode_rune s
           in (if r = 0xFFFD \<and> w = 1 then [CHR 0xEF, CHR 0xBF, CHR 0xBD] else take w s) # written_runes (drop w s))"
  by pat_completeness auto
termination
proof (relation "measure length")
  fix s :: string and r w x
  assume "s \<noteq> []" "x = decode_rune s" "(r, w) = x"
  then show "(drop w s, s) \<in> measure length" using decode_rune_width [of s] by (cases s) (auto simp: prod_eq_iff)
qed simp

declare written_runes.simps [simp del]

text \<open>
  The loop of \<open>splitTokens\<close>: the word read so far, whether there is one, the open quote, whether the rune before was a
  backslash inside double quotes.
\<close>

definition flush_word :: "bool \<Rightarrow> string \<Rightarrow> string list" where
  "flush_word has w = (if has \<or> w \<noteq> [] then [w] else [])"

fun split_runes :: "string \<Rightarrow> bool \<Rightarrow> char option \<Rightarrow> bool \<Rightarrow> string list \<Rightarrow> string list" where
  "split_runes w has quote esc [] = flush_word has w"
| "split_runes w has quote esc (r # rs) =
     (if esc then split_runes (w @ r) has quote False rs
      else if quote = Some (CHR 0x22) \<and> r = [CHR 0x5C] then split_runes (w @ r) has quote True rs
      else case quote of
        Some q \<Rightarrow> if r = [q] then split_runes w has None False rs else split_runes (w @ r) has quote False rs
      | None \<Rightarrow>
          if r = [CHR 0x22] \<or> r = [CHR 0x27] then split_runes w True (Some (hd r)) False rs
          else if r = [CHR '' ''] \<or> r = [CHR 0x09] then flush_word has w @ split_runes [] False None False rs
          else split_runes (w @ r) has None False rs)"

definition split_tokens :: "string \<Rightarrow> string list" where
  "split_tokens s = split_runes [] False None False (written_runes s)"

fun quote_bytes :: "string \<Rightarrow> string" where
  "quote_bytes [] = []"
| "quote_bytes (c # s) =
     (if c = CHR 0x5C then (case s of [] \<Rightarrow> [c, c] | d # t \<Rightarrow> c # d # quote_bytes t)
      else if c = CHR 0x22 then CHR 0x5C # c # quote_bytes s
      else c # quote_bytes s)"

definition needs_quotes :: "char list" where
  "needs_quotes = [CHR '' '', CHR 0x09, CHR 0x22, CHR 0x27, CHR 0x5C, CHR '';'', CHR ''['', CHR '']'', CHR 0x7B, CHR 0x7D]"

definition quote_tok :: "string \<Rightarrow> string" where
  "quote_tok t = (if t = [] \<or> list_ex (\<lambda>c. c \<in> set needs_quotes) t then CHR 0x22 # quote_bytes t @ [CHR 0x22] else t)"

definition join_tokens :: "string list \<Rightarrow> string" where
  "join_tokens ts = join '' '' (map quote_tok ts)"

text \<open>\<open>strings.Contains\<close>, and \<open>reMarks\<close>: the mark of an elided secret somewhere in a text.\<close>

fun contains_text :: "string \<Rightarrow> string \<Rightarrow> bool" where
  "contains_text [] sub \<longleftrightarrow> sub = []"
| "contains_text (c # s) sub \<longleftrightarrow> has_prefix (c # s) sub \<or> contains_text s sub"

definition label_ends :: "string \<Rightarrow> bool" where
  "label_ends s =
     (case s of [] \<Rightarrow> False
      | c # t \<Rightarrow> is_digit c \<and> c \<noteq> CHR ''0'' \<and> (case dropWhile is_digit t of [] \<Rightarrow> False | d # _ \<Rightarrow> d = CHR ''>''))"

definition mark_at :: "string \<Rightarrow> bool" where
  "mark_at s \<longleftrightarrow> has_prefix s ''<secret>'' \<or> has_prefix s ''<secret:'' \<and> label_ends (drop 8 s) \<or>
     has_prefix s ''<other:'' \<and> label_ends (drop 7 s)"

fun has_mark :: "string \<Rightarrow> bool" where
  "has_mark [] = False"
| "has_mark (c # s) = (mark_at (c # s) \<or> has_mark s)"

section \<open>The ownership table\<close>

datatype mode = ModeWhole | ModeLeaves | ModeRenderedLeaves | ModeList | ModeSingle | ModeAbsent | ModeAdditive

text \<open>A row, without what the report says about it.\<close>

record owned_row =
  or_id :: string
  or_section :: string
  or_pattern :: "string list"
  or_mode :: mode
  or_depth :: nat
  or_block :: bool

definition orow :: "string \<Rightarrow> string \<Rightarrow> string list \<Rightarrow> mode \<Rightarrow> nat \<Rightarrow> bool \<Rightarrow> owned_row" where
  "orow i sec pat m depth b =
     \<lparr>or_id = i, or_section = sec, or_pattern = pat, or_mode = m, or_depth = depth, or_block = b\<rparr>"

definition roles_rows :: "owned_row list" where
  "roles_rows =
    [orow ''junos.roles.class'' ''roles'' [''system'', ''login'', ''class'', ''$''] ModeWhole 0 False,
     orow ''junos.roles.user-class'' ''roles'' [''system'', ''login'', ''user'', ''$'', ''class''] ModeSingle 6 False]"

definition aaa_rows :: "owned_row list" where
  "aaa_rows =
    [orow ''junos.aaa.order'' ''aaa'' [''system'', ''authentication-order''] ModeList 0 False,
     orow ''junos.aaa.events'' ''aaa'' [''system'', ''accounting'', ''events''] ModeLeaves 4 False,
     orow ''junos.aaa.destination'' ''aaa'' [''system'', ''accounting'', ''destination''] ModeLeaves 4 False,
     orow ''junos.aaa.tacplus'' ''aaa'' [''system'', ''tacplus-server'', ''$''] ModeRenderedLeaves 0 False,
     orow ''junos.aaa.radius'' ''aaa'' [''system'', ''radius-server'', ''$''] ModeRenderedLeaves 0 False]"

definition snmp_rows :: "owned_row list" where
  "snmp_rows =
    [orow ''junos.snmp.client-list'' ''snmp'' [''snmp'', ''client-list'', ''$''] ModeWhole 0 False,
     orow ''junos.snmp.community'' ''snmp'' [''snmp'', ''community'', ''$''] ModeWhole 0 False,
     orow ''junos.snmp.block-community'' ''snmp'' [''snmp'', ''community'', ''$''] ModeWhole 0 True,
     orow ''junos.snmp.trap-group'' ''snmp'' [''snmp'', ''trap-group'', ''$''] ModeWhole 0 True,
     orow ''junos.snmp.trap-options'' ''snmp'' [''snmp'', ''trap-options'', ''$''] ModeSingle 0 True,
     orow ''junos.snmp.v3-user'' ''snmp'' [''snmp'', ''v3'', ''usm'', ''local-engine'', ''user'', ''$''] ModeWhole 0 False,
     orow ''junos.snmp.v3-group'' ''snmp'' [''snmp'', ''v3'', ''vacm'', ''security-to-group'', ''security-model'', ''usm'', ''security-name'', ''$''] ModeWhole 0 False,
     orow ''junos.snmp.v3-access'' ''snmp'' [''snmp'', ''v3'', ''vacm'', ''access'', ''group'', ''$''] ModeWhole 0 False,
     orow ''junos.snmp.view'' ''snmp'' [''snmp'', ''view'', ''$''] ModeWhole 0 False,
     orow ''junos.snmp.location'' ''snmp'' [''snmp'', ''location''] ModeSingle 0 False,
     orow ''junos.snmp.contact'' ''snmp'' [''snmp'', ''contact''] ModeSingle 0 False,
     orow ''junos.snmp.description'' ''snmp'' [''snmp'', ''description''] ModeSingle 0 False]"

definition system_rows :: "owned_row list" where
  "system_rows =
    [orow ''junos.system.login-message'' ''system'' [''system'', ''login'', ''message''] ModeSingle 0 True,
     orow ''junos.system.announcement'' ''system'' [''system'', ''login'', ''announcement''] ModeSingle 0 True,
     orow ''junos.system.syslog-facility-override'' ''system'' [''system'', ''syslog'', ''host'', ''$'', ''facility-override''] ModeSingle 0 True,
     orow ''junos.system.syslog-log-prefix'' ''system'' [''system'', ''syslog'', ''host'', ''$'', ''log-prefix''] ModeSingle 0 True,
     orow ''junos.system.syslog-explicit-priority'' ''system'' [''system'', ''syslog'', ''host'', ''$'', ''explicit-priority''] ModeAdditive 0 True,
     orow ''junos.system.syslog-host'' ''system'' [''system'', ''syslog'', ''host'', ''$'', ''$''] ModeSingle 0 True,
     orow ''junos.system.syslog-time-format'' ''system'' [''system'', ''syslog'', ''time-format'', ''$''] ModeAdditive 0 True,
     orow ''junos.system.syslog-source-address'' ''system'' [''system'', ''syslog'', ''source-address''] ModeSingle 0 True,
     orow ''junos.system.retry-option'' ''system'' [''system'', ''login'', ''retry-options'', ''$''] ModeSingle 0 True,
     orow ''junos.system.password-policy'' ''system'' [''system'', ''login'', ''password'', ''$''] ModeSingle 0 True,
     orow ''junos.system.domain-name'' ''system'' [''system'', ''domain-name''] ModeSingle 0 True,
     orow ''junos.system.time-zone'' ''system'' [''system'', ''time-zone''] ModeSingle 0 True,
     orow ''junos.system.ntp-boot-server'' ''system'' [''system'', ''ntp'', ''boot-server''] ModeSingle 0 True,
     orow ''junos.system.ntp-source-address'' ''system'' [''system'', ''ntp'', ''source-address''] ModeSingle 0 True,
     orow ''junos.system.ntp-server-version'' ''system'' [''system'', ''ntp'', ''server'', ''$'', ''version''] ModeSingle 0 True,
     orow ''junos.system.ntp-server-key'' ''system'' [''system'', ''ntp'', ''server'', ''$'', ''key''] ModeSingle 0 True,
     orow ''junos.system.ntp-server-routing-instance'' ''system'' [''system'', ''ntp'', ''server'', ''$'', ''routing-instance''] ModeSingle 0 True,
     orow ''junos.system.absent-telnet'' ''system'' [''system'', ''services'', ''telnet''] ModeAbsent 0 True,
     orow ''junos.system.absent-ftp'' ''system'' [''system'', ''services'', ''ftp''] ModeAbsent 0 True,
     orow ''junos.system.absent-finger'' ''system'' [''system'', ''services'', ''finger''] ModeAbsent 0 True,
     orow ''junos.system.absent-xnm-clear-text'' ''system'' [''system'', ''services'', ''xnm-clear-text''] ModeAbsent 0 True,
     orow ''junos.system.absent-web-management'' ''system'' [''system'', ''services'', ''web-management''] ModeAbsent 0 True,
     orow ''junos.system.domain-search'' ''system'' [''system'', ''domain-search'', ''$''] ModeAdditive 0 True,
     orow ''junos.system.name-server'' ''system'' [''system'', ''name-server'', ''$''] ModeAdditive 0 True,
     orow ''junos.system.ntp-server'' ''system'' [''system'', ''ntp'', ''server'', ''$''] ModeAdditive 0 True,
     orow ''junos.system.ntp-key'' ''system'' [''system'', ''ntp'', ''authentication-key'', ''$''] ModeAdditive 0 True,
     orow ''junos.system.ntp-trusted-key'' ''system'' [''system'', ''ntp'', ''trusted-key'', ''$''] ModeAdditive 0 True]"

definition netconf_rows :: "owned_row list" where
  "netconf_rows =
    [orow ''junos.netconf.connection-limit'' ''netconf'' [''system'', ''services'', ''netconf'', ''ssh'', ''connection-limit''] ModeSingle 0 False,
     orow ''junos.netconf.rate-limit'' ''netconf'' [''system'', ''services'', ''netconf'', ''ssh'', ''rate-limit''] ModeSingle 0 False,
     orow ''junos.netconf.ssh'' ''netconf'' [''system'', ''services'', ''netconf'', ''ssh''] ModeSingle 0 False]"

definition mgmt_acl_rows :: "owned_row list" where
  "mgmt_acl_rows =
    [orow ''junos.mgmt-acl.filter'' ''mgmt-acl'' [''firewall'', ''family'', ''inet'', ''filter'', ''$''] ModeWhole 0 False]"

definition junos_owned :: "owned_row list" where
  "junos_owned = roles_rows @ aaa_rows @ snmp_rows @ system_rows @ netconf_rows @ mgmt_acl_rows"

text \<open>\<open>matchPrefix\<close>: a pattern at the start of a path; the last word at a \<open>$\<close> is the object's name.\<close>

fun match_words :: "string list \<Rightarrow> string list \<Rightarrow> string option \<Rightarrow> string option option" where
  "match_words [] path name = Some name"
| "match_words (p # ps) [] name = None"
| "match_words (p # ps) (w # ws) name =
     (if p = ''$'' then match_words ps ws (Some w) else if p = w then match_words ps ws name else None)"

definition match_prefix :: "string list \<Rightarrow> string list \<Rightarrow> string option option" where
  "match_prefix pat path = match_words pat path None"

section \<open>The rendering\<close>

text \<open>\<open>devices.Section\<close>, without the origins and the marks of secrets.\<close>

record rendered_section =
  rs_name :: string
  rs_lines :: "string list"
  rs_block :: "bool list"
  rs_forbid :: "string list"
  rs_absent :: bool

definition no_section :: rendered_section where
  "no_section = \<lparr>rs_name = [], rs_lines = [], rs_block = [], rs_forbid = [], rs_absent = False\<rparr>"

text \<open>\<open>junosRows\<close>: a row with what the rendering says of it. The maps of the code are lists here.\<close>

record jrow =
  jr_row :: owned_row
  jr_names :: "string list"
  jr_keys :: "string list"
  jr_kinds :: "(string \<times> string) list"
  jr_has :: bool

definition set_path :: "string \<Rightarrow> string list option" where
  "set_path l =
     (let t = split_tokens (trim_space l) in if length t < 2 \<or> hd t \<noteq> ''set'' then None else Some (tl t))"

definition from_block :: "rendered_section \<Rightarrow> nat \<Rightarrow> bool" where
  "from_block e i \<longleftrightarrow> i < length (rs_block e) \<and> rs_block e ! i"

definition row_statements :: "rendered_section \<Rightarrow> owned_row \<Rightarrow> (string list \<times> string option) list" where
  "row_statements e r =
     List.map_filter (\<lambda>(i, l). case set_path l of
         None \<Rightarrow> None
       | Some t \<Rightarrow> if or_block r \<noteq> from_block e i then None
                  else map_option (\<lambda>n. (t, n)) (match_prefix (or_pattern r) t))
       (enumerate 0 (rs_lines e))"

definition junos_row :: "rendered_section \<Rightarrow> owned_row \<Rightarrow> jrow" where
  "junos_row e r =
     (let n = length (or_pattern r); ms = row_statements e r
      in \<lparr>jr_row = r, jr_names = List.map_filter snd ms,
          jr_keys = (if or_mode r = ModeSingle then map (\<lambda>m. join '' '' (take n (fst m))) ms else []),
          jr_kinds = List.map_filter (\<lambda>m. if length (fst m) > n
            then Some ((case snd m of None \<Rightarrow> [] | Some x \<Rightarrow> x), fst m ! n) else None) ms,
          jr_has = (if or_mode r = ModeAbsent then join '' '' (or_pattern r) \<in> set (rs_forbid e) else ms \<noteq> [])\<rparr>)"

definition junos_rows :: "string \<Rightarrow> rendered_section \<Rightarrow> jrow list" where
  "junos_rows sec e = map (junos_row e) (filter (\<lambda>r. or_section r = sec) junos_owned)"

section \<open>NETCONF\<close>

definition netconf_prefix :: "string list" where
  "netconf_prefix = [''system'', ''services'', ''netconf'']"

definition netconf_statement :: "string list \<Rightarrow> bool" where
  "netconf_statement path \<longleftrightarrow> take 3 path = netconf_prefix"

definition netconf_limit :: "string \<Rightarrow> bool" where
  "netconf_limit w =
     (case go_atoi w of None \<Rightarrow> False | Some n \<Rightarrow> 1 \<le> n \<and> n \<le> 250 \<and> itoa (nat n) = w)"

definition netconf_statement_allowed :: "string \<Rightarrow> bool" where
  "netconf_statement_allowed l =
     (let t = split_tokens (trim_space l); path = tl t
      in if length t < 2 \<or> \<not> netconf_statement path then False
         else if hd t = ''delete'' then length path = 3
         else if hd t = ''set'' then
           (if length path = 4 \<and> path ! 3 = ''ssh'' then True
            else length path = 6 \<and> path ! 3 = ''ssh'' \<and> path ! 4 \<in> {''connection-limit'', ''rate-limit''} \<and>
              netconf_limit (path ! 5))
         else False)"

section \<open>What is never emitted\<close>

record never_row =
  nr_id :: string
  nr_family :: string
  nr_prefix :: string
  nr_contains :: string

definition nrow :: "string \<Rightarrow> string \<Rightarrow> string \<Rightarrow> string \<Rightarrow> never_row" where
  "nrow i fam p c = \<lparr>nr_id = i, nr_family = fam, nr_prefix = p, nr_contains = c\<rparr>"

definition never_emitted :: "never_row list" where
  "never_emitted =
    [nrow ''junos.netconf'' ''junos'' ''system services netconf'' [],
     nrow ''junos.ssh'' ''junos'' ''system services ssh'' [],
     nrow ''junos.root'' ''junos'' ''system root-authentication'' [],
     nrow ''junos.lo0'' ''junos'' ''interfaces lo0'' [],
     nrow ''junos.groups'' ''junos'' ''groups'' [],
     nrow ''junos.apply-groups'' ''junos'' ''apply-groups'' [],
     nrow ''junos.breakglass'' ''junos'' ''system login user'' '' authentication '',
     nrow ''ios.enable-secret'' ''ios'' ''enable secret'' [],
     nrow ''ios.enable-password'' ''ios'' ''enable password'' [],
     nrow ''ios.username'' ''ios'' ''username'' [],
     nrow ''ios.netconf-yang'' ''ios'' ''netconf-yang'' [],
     nrow ''ios.transport'' ''ios'' ''transport input'' [],
     nrow ''ios.ip-ssh'' ''ios'' ''ip ssh'' []]"

definition system_ssh_statement :: "string \<Rightarrow> bool" where
  "system_ssh_statement s =
     (let f = go_fields s in length f \<ge> 3 \<and> f ! 0 = ''ip'' \<and> f ! 1 = ''ssh'' \<and>
        f ! 2 \<in> {''version'', ''time-out'', ''authentication-retries''})"

definition verb_prefixes :: "string list" where
  "verb_prefixes = [''set '', ''delete '', ''insert '', ''deactivate '', ''activate '']"

definition without_verb :: "string \<Rightarrow> string" where
  "without_verb s = (case first_where (has_prefix s) verb_prefixes of None \<Rightarrow> s | Some w \<Rightarrow> drop (length w) s)"

definition never_row_matches :: "string \<Rightarrow> string \<Rightarrow> string \<Rightarrow> string \<Rightarrow> never_row \<Rightarrow> bool" where
  "never_row_matches fam sec raw txt r \<longleftrightarrow>
     nr_family r = fam \<and>
     \<not> (nr_id r = ''junos.netconf'' \<and> sec = ''netconf'' \<and> netconf_statement_allowed raw) \<and>
     \<not> (nr_id r = ''ios.ip-ssh'' \<and> sec = ''system'' \<and> system_ssh_statement txt) \<and>
     (txt = nr_prefix r \<or> has_prefix txt (nr_prefix r @ '' '')) \<and> contains_text ('' '' @ txt @ '' '') (nr_contains r)"

text \<open>\<open>neverMatch\<close>; a line without an op is \<open>None\<close>.\<close>

definition never_match :: "string \<Rightarrow> string \<Rightarrow> op option \<Rightarrow> string list \<Rightarrow> string \<Rightarrow> string option" where
  "never_match fam sec oper ctx raw =
     (let t = trim_space raw; txt = (if fam = ''junos'' then without_verb t else t)
      in if fam \<noteq> ''junos'' \<and> oper = Some OpNo \<and> ctx = [] \<and> txt = ''aaa new-model'' then Some ''ios.no-aaa-new-model''
         else if fam \<noteq> ''junos'' \<and> oper = Some OpNo \<and> ctx = [] \<and> has_prefix txt ''line '' then Some ''ios.no-line''
         else map_option nr_id (first_where (never_row_matches fam sec raw txt) never_emitted))"

end
