(* ===== verification/PlanAllow.thy ===== *)
theory PlanAllow
  imports PlanTables
begin

text \<open>
  \<open>internal/devconf/plan/allowed.go\<close>: the check a line must pass before an apply types it on a Junos device, with
  \<open>junosStatementOK\<close> of \<open>emit.go\<close> and \<open>expandBrackets\<close> of \<open>simulate.go\<close>. A refusal is a value; the statement it shows
  is not modelled.
\<close>

section \<open>The shape of a statement\<close>

datatype stmt_problem = NotTrimmed | ControlChar | StructureChar | BareVerb | BadInsert | NotAVerb

fun bare_structure :: "bool \<Rightarrow> string \<Rightarrow> bool" where
  "bare_structure quoted [] = False"
| "bare_structure quoted (c # s) =
     (if c = CHR 0x22 then bare_structure (\<not> quoted) s
      else if \<not> quoted \<and> c \<in> {CHR ''|'', CHR '';'', CHR 0x7B, CHR 0x7D, CHR 0x60} then True
      else bare_structure quoted s)"

definition insert_shape :: "string list \<Rightarrow> bool" where
  "insert_shape t \<longleftrightarrow>
     length t \<ge> 5 \<and> t ! (length t - 3) \<in> {''before'', ''after''} \<and> t ! (length t - 2) = ''term''"

definition junos_statement_ok :: "string \<Rightarrow> stmt_problem option" where
  "junos_statement_ok l =
     (if l \<noteq> trim_space l \<or> l = [] then Some NotTrimmed
      else if has_prefix l ''#'' then None
      else if list_ex (\<lambda>c. c = CHR 0x0D \<or> c = CHR 0x0A \<or> c = CHR 0x09) l then Some ControlChar
      else if bare_structure False l then Some StructureChar
      else let t = split_tokens l
        in if hd t = ''set'' \<or> hd t = ''delete'' then (if length t < 2 then Some BareVerb else None)
           else if hd t = ''insert'' then (if insert_shape t then None else Some BadInsert)
           else Some NotAVerb)"

text \<open>\<open>quoteOutside\<close>: inside double quotes, after a backslash there.\<close>

fun quote_outside :: "bool \<Rightarrow> bool \<Rightarrow> string \<Rightarrow> bool" where
  "quote_outside inq esc [] = False"
| "quote_outside inq esc (c # s) =
     (if esc then quote_outside inq False s
      else if inq \<and> c = CHR 0x5C then quote_outside inq True s
      else if c = CHR 0x22 then quote_outside (\<not> inq) False s
      else if c = CHR 0x27 \<and> \<not> inq then True
      else quote_outside inq False s)"

section \<open>Lists of values\<close>

fun ntp_server_leaves :: "string list \<Rightarrow> string list \<Rightarrow> string list list" where
  "ntp_server_leaves base [] = []"
| "ntp_server_leaves base (w # ws) =
     (if w = ''prefer'' then (base @ [w]) # ntp_server_leaves base ws
      else case ws of [] \<Rightarrow> [base @ [w]] | v # rest \<Rightarrow> (base @ [w, v]) # ntp_server_leaves base rest)"

fun ntp_key_leaves :: "string list \<Rightarrow> string list \<Rightarrow> string list list" where
  "ntp_key_leaves base [] = []"
| "ntp_key_leaves base [w] = [base @ [w]]"
| "ntp_key_leaves base (w # v # ws) = (base @ [w, v]) # ntp_key_leaves base ws"

definition split_leaves :: "string list \<Rightarrow> string list list" where
  "split_leaves t =
     (if length t < 5 \<or> t ! 0 \<noteq> ''system'' \<or> t ! 1 \<noteq> ''ntp'' then [t]
      else if t ! 2 = ''server'' then ntp_server_leaves (take 4 t) (drop 4 t)
      else if t ! 2 = ''authentication-key'' then (if length t \<le> 6 then [t] else ntp_key_leaves (take 4 t) (drop 4 t))
      else [t])"

text \<open>\<open>expandBrackets\<close>: the words before the first \<open>[\<close>, those up to the next \<open>]\<close>, and the rest.\<close>

definition bracket_parts :: "string list \<Rightarrow> (string list \<times> string list \<times> string list) option" where
  "bracket_parts t =
     (let before = takeWhile (\<lambda>w. w \<noteq> ''['') t; rest = dropWhile (\<lambda>w. w \<noteq> ''['') t
      in if ''['' \<notin> set t \<or> '']'' \<notin> set rest then None
         else Some (before, takeWhile (\<lambda>w. w \<noteq> '']'') (tl rest), tl (dropWhile (\<lambda>w. w \<noteq> '']'') rest)))"

lemma bracket_parts_fewer:
  assumes "bracket_parts t = Some (a, items, b)" "x \<in> set items"
  shows "count_list (a @ [x] @ b) '']'' < count_list t '']''"
proof -
  let ?r = "dropWhile (\<lambda>w. w \<noteq> ''['') t"
  from assms(1) have p: "''['' \<in> set t" "'']'' \<in> set ?r" "a = takeWhile (\<lambda>w. w \<noteq> ''['') t"
    "items = takeWhile (\<lambda>w. w \<noteq> '']'') (tl ?r)" "b = tl (dropWhile (\<lambda>w. w \<noteq> '']'') ?r)"
    by (auto simp: bracket_parts_def Let_def split: if_splits)
  have x: "x \<noteq> '']''" using assms(2) set_takeWhileD p(4) by fastforce
  obtain d where d: "dropWhile (\<lambda>w. w \<noteq> '']'') ?r = '']'' # d"
  proof (cases "dropWhile (\<lambda>w. w \<noteq> '']'') ?r")
    case Nil
    with p(2) show ?thesis by (auto simp: dropWhile_eq_Nil_conv)
  next
    case (Cons y d)
    with hd_dropWhile [of "\<lambda>w. w \<noteq> '']''" ?r] that show ?thesis by auto
  qed
  have "count_list t '']'' = count_list (a @ ?r) '']''" using p(3) by simp
  then have "count_list t '']'' = count_list a '']'' + count_list ?r '']''" by (simp only: count_list_append)
  moreover have "count_list ?r '']'' = count_list (takeWhile (\<lambda>w. w \<noteq> '']'') ?r @ '']'' # d) '']''"
    using d takeWhile_dropWhile_id [of "\<lambda>w. w \<noteq> '']''" ?r] by (simp only: )
  then have "count_list ?r '']'' \<ge> 1 + count_list d '']''"
    by (simp only: count_list_append count_list.simps refl if_True)
  moreover have "b = d" using p(5) d by simp
  moreover have "count_list [x] '']'' = 0" using x by simp
  ultimately show ?thesis by (simp only: count_list_append)
qed

function expand_brackets :: "string list \<Rightarrow> string list list" where
  "expand_brackets t =
     (if ''['' \<notin> set t then split_leaves t
      else case bracket_parts t of
        None \<Rightarrow> [t]
      | Some (a, items, b) \<Rightarrow> concat (map (\<lambda>x. expand_brackets (a @ [x] @ b)) items))"
  by pat_completeness auto
termination
  by (relation "measure (\<lambda>t. count_list t '']'')") (auto dest: bracket_parts_fewer simp del: append.simps)

declare expand_brackets.simps [simp del]

section \<open>The allow-list\<close>

record never_hierarchy =
  nh_id :: string
  nh_pattern :: "string list"
  nh_anywhere :: string

definition nhrow :: "string \<Rightarrow> string list \<Rightarrow> string \<Rightarrow> never_hierarchy" where
  "nhrow i p a = \<lparr>nh_id = i, nh_pattern = p, nh_anywhere = a\<rparr>"

definition allow_never :: "never_hierarchy list" where
  "allow_never =
    [nhrow ''junos.root-authentication'' [''system'', ''root-authentication''] [],
     nhrow ''junos.services'' [''system'', ''services''] [],
     nhrow ''junos.interfaces'' [''interfaces''] [],
     nhrow ''junos.groups'' [''groups''] [],
     nhrow ''junos.apply-groups'' [''apply-groups''] [],
     nhrow ''junos.user-authentication'' [''system'', ''login'', ''user'', ''?''] ''authentication'',
     nhrow ''junos.user-root'' [''system'', ''login'', ''user'', ''root''] [],
     nhrow ''junos.user-uid'' [''system'', ''login'', ''user'', ''?''] ''uid'']"

text \<open>\<open>Allow\<close>; no sections and no rendering are \<open>None\<close> and the empty list.\<close>

record allow =
  al_vendor :: string
  al_sections :: "string list option"
  al_expected :: "rendered_section list option"
  al_login :: string
  al_class :: string

definition expected_sections :: "allow \<Rightarrow> rendered_section list" where
  "expected_sections a = (case al_expected a of None \<Rightarrow> [] | Some e \<Rightarrow> e)"

definition section_planned :: "allow \<Rightarrow> string \<Rightarrow> bool" where
  "section_planned a n \<longleftrightarrow> (case al_sections a of None \<Rightarrow> True | Some ss \<Rightarrow> n \<in> set ss)"

definition allow_ready :: "allow \<Rightarrow> bool" where
  "allow_ready a \<longleftrightarrow> expected_sections a \<noteq> [] \<or> al_sections a = Some []"

definition junos_plan_order :: "string list" where
  "junos_plan_order = [''roles'', ''aaa'', ''snmp'', ''system'', ''netconf'', ''mgmt-acl'']"

definition planned_sections :: "allow \<Rightarrow> string list" where
  "planned_sections a = filter (section_planned a) junos_plan_order"

text \<open>\<open>patternPrefix\<close>, called with a pattern that is not longer than the path.\<close>

fun pattern_prefix :: "string list \<Rightarrow> string list \<Rightarrow> bool" where
  "pattern_prefix [] path = True"
| "pattern_prefix (p # ps) [] = False"
| "pattern_prefix (p # ps) (w # ws) = ((p = ''?'' \<or> p = w) \<and> pattern_prefix ps ws)"

datatype refusal =
    NoAllowList | CommentLine | BadStatement stmt_problem | SingleQuote | ElidedSecret | NoPath
  | NeverEmitted string | NeverWritten string | OwnUser | Abbreviated string | OwnClass
  | WholeObject | UnderAdditive | UnnamedObject | WholeHierarchy | OutsidePlan

text \<open>\<open>Never\<close> of an \<open>AllowError\<close>.\<close>

fun refused_never :: "refusal \<Rightarrow> bool" where
  "refused_never (NeverEmitted _) = True"
| "refused_never (NeverWritten _) = True"
| "refused_never OwnUser = True"
| "refused_never (Abbreviated _) = True"
| "refused_never OwnClass = True"
| "refused_never _ = False"

definition path_key :: "string list \<Rightarrow> string" where
  "path_key p = join [CHR 0x00] p"

text \<open>\<open>rendered\<close>: every statement of the line is one of a rendered \<open>set\<close> line.\<close>

definition rendered_keys :: "allow \<Rightarrow> string list" where
  "rendered_keys a =
     concat (map (\<lambda>e. concat (map (\<lambda>raw.
       let t = split_tokens raw in if length t < 2 \<or> hd t \<noteq> ''set'' then [] else map path_key (expand_brackets (tl t)))
       (rs_lines e))) (expected_sections a))"

definition rendered :: "allow \<Rightarrow> string \<Rightarrow> bool" where
  "rendered a l \<longleftrightarrow>
     (let t = split_tokens l
      in if length t < 2 \<or> hd t \<noteq> ''set'' then False
         else list_all (\<lambda>p. path_key p \<in> set (rendered_keys a)) (expand_brackets (tl t)))"

definition last_section :: "allow \<Rightarrow> string \<Rightarrow> rendered_section option" where
  "last_section a n = first_where (\<lambda>e. rs_name e = n) (rev (expected_sections a))"

definition netconf_allowed :: "allow \<Rightarrow> string \<Rightarrow> bool" where
  "netconf_allowed a l \<longleftrightarrow>
     (if \<not> netconf_statement_allowed l \<or> \<not> section_planned a ''netconf'' then False
      else case last_section a ''netconf'' of
        None \<Rightarrow> False
      | Some e \<Rightarrow> if hd (split_tokens (trim_space l)) = ''delete'' then rs_absent e else \<not> rs_absent e \<and> rendered a l)"

definition absent_allowed :: "allow \<Rightarrow> string \<Rightarrow> string list \<Rightarrow> bool" where
  "absent_allowed a verb path \<longleftrightarrow>
     (if verb \<noteq> ''delete'' \<or> length path \<noteq> 3 \<or> take 2 path \<noteq> [''system'', ''services''] then False
      else if \<not> list_ex (\<lambda>r. or_mode r = ModeAbsent \<and> join '' '' (or_pattern r) = join '' '' path) junos_owned then False
      else if \<not> section_planned a ''system'' then False
      else case al_expected a of
        None \<Rightarrow> True
      | Some es \<Rightarrow> (case first_where (\<lambda>e. rs_name e = ''system'') es of
          None \<Rightarrow> False | Some e \<Rightarrow> join '' '' path \<in> set (rs_forbid e)))"

definition never_hierarchy_of :: "string list \<Rightarrow> never_hierarchy option" where
  "never_hierarchy_of path =
     first_where (\<lambda>r. pattern_prefix (nh_pattern r) path \<and>
         (nh_anywhere r = [] \<or> nh_anywhere r \<in> set (drop (length (nh_pattern r)) path))) allow_never"

definition abbreviates :: "string \<Rightarrow> string list \<Rightarrow> nat \<Rightarrow> nat \<Rightarrow> bool" where
  "abbreviates word path start i \<longleftrightarrow>
     \<not> (i > start \<and> path ! (i - 1) = ''class'') \<and> path ! i \<noteq> [] \<and> length (path ! i) < length word \<and> has_prefix word (path ! i)"

definition abbreviated :: "string list \<Rightarrow> never_hierarchy option" where
  "abbreviated path =
     first_where (\<lambda>r. nh_anywhere r \<noteq> [] \<and> length path > length (nh_pattern r) \<and> pattern_prefix (nh_pattern r) path \<and>
         list_ex (abbreviates (nh_anywhere r) path (length (nh_pattern r))) [length (nh_pattern r) ..< length path])
       allow_never"

text \<open>What one row says of a path: nothing, that it holds it, or why not.\<close>

datatype row_answer = NoAnswer | Holds | WholeThere | AdditiveThere | UnnamedThere

definition row_answer :: "allow \<Rightarrow> string \<Rightarrow> string list \<Rightarrow> jrow \<Rightarrow> row_answer" where
  "row_answer a verb path j =
     (let r = jr_row j
      in if or_mode r = ModeAbsent then NoAnswer
         else case match_prefix (or_pattern r) path of
           None \<Rightarrow> NoAnswer
         | Some name \<Rightarrow>
             if name \<noteq> None \<and> al_expected a \<noteq> None \<and> the name \<notin> set (jr_names j) then UnnamedThere
             else if or_depth r > 0 \<and> length path > or_depth r then NoAnswer
             else if verb = ''delete'' \<and> (or_mode r = ModeAdditive \<or> or_mode r = ModeSingle) then AdditiveThere
             else if verb = ''delete'' \<and> or_mode r \<noteq> ModeList \<and> length path \<le> length (or_pattern r) then WholeThere
             else Holds)"

definition expected_of :: "allow \<Rightarrow> string \<Rightarrow> rendered_section" where
  "expected_of a n = (case last_section a n of None \<Rightarrow> no_section | Some e \<Rightarrow> e)"

definition row_answers :: "allow \<Rightarrow> string \<Rightarrow> string list \<Rightarrow> row_answer list" where
  "row_answers a verb path =
     concat (map (\<lambda>n. map (row_answer a verb path) (junos_rows n (expected_of a n))) (planned_sections a))"

definition emitted_line :: "allow \<Rightarrow> string \<Rightarrow> bool" where
  "emitted_line a l \<longleftrightarrow>
     list_ex (\<lambda>n. list_ex (\<lambda>e. rs_name e = n \<and> list_ex (\<lambda>raw. split_tokens raw = split_tokens l) (rs_lines e))
       (expected_sections a)) (planned_sections a)"

definition is_ancestor :: "allow \<Rightarrow> string list \<Rightarrow> bool" where
  "is_ancestor a path \<longleftrightarrow>
     list_ex (\<lambda>n. list_ex (\<lambda>r. or_section r = n \<and> length path < length (or_pattern r) \<and> pattern_prefix path (or_pattern r))
       junos_owned) (planned_sections a)"

definition hierarchy :: "allow \<Rightarrow> string \<Rightarrow> string \<Rightarrow> string list \<Rightarrow> refusal option" where
  "hierarchy a l verb path =
     (let ans = row_answers a verb path
      in if Holds \<in> set ans then None
         else if verb = ''set'' \<and> al_expected a \<noteq> None \<and> emitted_line a l then None
         else if WholeThere \<in> set ans then Some WholeObject
         else if AdditiveThere \<in> set ans then Some UnderAdditive
         else if UnnamedThere \<in> set ans then Some UnnamedObject
         else if verb = ''delete'' \<and> is_ancestor a path then Some WholeHierarchy
         else Some OutsidePlan)"

definition first_some :: "('a \<Rightarrow> 'b option) \<Rightarrow> 'a list \<Rightarrow> 'b option" where
  "first_some f xs = (case first_where (\<lambda>x. f x \<noteq> None) xs of None \<Rightarrow> None | Some x \<Rightarrow> f x)"

definition login_object :: "string \<Rightarrow> string \<Rightarrow> string list \<Rightarrow> bool" where
  "login_object kind name path \<longleftrightarrow> name \<noteq> [] \<and> length path \<ge> 4 \<and> take 4 path = [''system'', ''login'', kind, name]"

text \<open>The path of a statement: an insert's without its last three words.\<close>

definition statement_path :: "string list \<Rightarrow> string list" where
  "statement_path t = (if hd t = ''insert'' then take (length t - 4) (tl t) else tl t)"

definition check_path :: "allow \<Rightarrow> string \<Rightarrow> string \<Rightarrow> string list \<Rightarrow> refusal option" where
  "check_path a l verb path =
     (if path = [] then Some NoPath
      else if netconf_statement path \<and> netconf_allowed a l then None
      else if absent_allowed a verb path then None
      else case never_match ''junos'' [] None [] l of
        Some i \<Rightarrow> Some (NeverEmitted i)
      | None \<Rightarrow> (case never_hierarchy_of path of
          Some r \<Rightarrow> Some (NeverWritten (nh_id r))
        | None \<Rightarrow>
            if login_object ''user'' (al_login a) path then Some OwnUser
            else case abbreviated path of
              Some r \<Rightarrow> Some (Abbreviated (nh_id r))
            | None \<Rightarrow>
                if login_object ''class'' (al_class a) path \<and> \<not> rendered a l then Some OwnClass
                else first_some (hierarchy a l verb) (expand_brackets path)))"

definition allow_check :: "unicode \<Rightarrow> allow \<Rightarrow> string \<Rightarrow> refusal option" where
  "allow_check U a l =
     (if \<not> family_junos U (al_vendor a) then Some NoAllowList
      else if has_prefix l ''#'' then Some CommentLine
      else case junos_statement_ok l of
        Some p \<Rightarrow> Some (BadStatement p)
      | None \<Rightarrow>
          if quote_outside False False l then Some SingleQuote
          else if has_mark l \<or> contains_text l ''<SECRET>'' then Some ElidedSecret
          else let t = split_tokens l in check_path a l (hd t) (statement_path t))"

datatype delta_refusal = DeltaNoAllowList | DeltaNotReady | LineNotPlanned nat | LineRefused nat refusal

fun check_lines :: "unicode \<Rightarrow> allow \<Rightarrow> nat \<Rightarrow> line list \<Rightarrow> delta_refusal option" where
  "check_lines U a i [] = None"
| "check_lines U a i (l # ls) =
     (if \<not> section_planned a (l_section l) then Some (LineNotPlanned i)
      else case allow_check U a (l_text l) of Some r \<Rightarrow> Some (LineRefused i r) | None \<Rightarrow> check_lines U a (Suc i) ls)"

definition delta_allow :: "allow \<Rightarrow> delta \<Rightarrow> allow" where
  "delta_allow a d = a\<lparr>al_vendor := d_vendor d, al_sections := Some (delta_planned d)\<rparr>"

definition allow_check_delta :: "unicode \<Rightarrow> allow \<Rightarrow> delta \<Rightarrow> delta_refusal option" where
  "allow_check_delta U a d =
     (if \<not> family_junos U (d_vendor d) then Some DeltaNoAllowList
      else if d_lines d \<noteq> [] \<and> \<not> allow_ready (delta_allow a d) then Some DeltaNotReady
      else check_lines U (delta_allow a d) 1 (d_lines d))"

end
