(* ===== verification/JunosEdit.thy ===== *)
theory JunosEdit
  imports PlanAllow
begin

text \<open>
  The editor of Junos configurations of \<open>internal/devconf/plan/simulate.go\<close>: a configuration is its statements in order,
  and the lines of a delta are applied to it as the device would.
\<close>

record jstmt =
  js_head :: string
  js_path :: "string list"

definition set_jstmt :: "string list \<Rightarrow> jstmt" where
  "set_jstmt p = \<lparr>js_head = ''set'', js_path = p\<rparr>"

definition stmt_text :: "jstmt \<Rightarrow> string" where
  "stmt_text s = js_head s @ '' '' @ join_tokens (js_path s)"

definition config_text :: "jstmt list \<Rightarrow> string" where
  "config_text c = concat (map (\<lambda>s. stmt_text s @ [CHR 0x0A]) c)"

text \<open>\<open>add\<close>: after the last statement that shares the most words with the new one, its last word apart.\<close>

fun common_words :: "string list \<Rightarrow> string list \<Rightarrow> nat" where
  "common_words (x # xs) (y # ys) = (if x = y then Suc (common_words xs ys) else 0)"
| "common_words _ _ = 0"

fun best_place :: "string list \<Rightarrow> nat \<Rightarrow> jstmt list \<Rightarrow> nat \<times> nat \<Rightarrow> nat \<times> nat" where
  "best_place p i [] (best, at) = (best, at)"
| "best_place p i (x # xs) (best, at) =
     (let k = common_words (js_path x) (butlast p)
      in best_place p (Suc i) xs (if k > best \<or> k = best \<and> k > 0 then (k, Suc i) else (best, at)))"

definition add_stmt :: "jstmt list \<Rightarrow> jstmt \<Rightarrow> jstmt list" where
  "add_stmt c s =
     (if s \<in> set c then c
      else let at = snd (best_place (js_path s) 0 c (0, length c)) in take at c @ [s] @ drop at c)"

definition line_stmts :: "string \<Rightarrow> string \<Rightarrow> jstmt list" where
  "line_stmts head rest = map (\<lambda>p. \<lparr>js_head = head, js_path = p\<rparr>) (expand_brackets (split_tokens rest))"

definition parse_line_into :: "jstmt list \<Rightarrow> string \<Rightarrow> jstmt list" where
  "parse_line_into c raw =
     (let l = trim_space raw; (head, rest, found) = cut_at (CHR '' '') l
      in if l = [] \<or> has_prefix l ''#'' \<or> head \<notin> {''set'', ''deactivate''} then c
         else foldl add_stmt c (line_stmts head rest))"

definition parse_junos :: "string \<Rightarrow> jstmt list" where
  "parse_junos s = foldl parse_line_into [] (split_on (CHR 0x0A) s)"

definition config_add :: "jstmt list \<Rightarrow> string \<Rightarrow> jstmt list" where
  "config_add c s = (let (head, rest, found) = cut_at (CHR '' '') (trim_space s) in foldl add_stmt c (line_stmts head rest))"

fun config_remove :: "string \<Rightarrow> jstmt list \<Rightarrow> jstmt list \<times> bool" where
  "config_remove s [] = ([], False)"
| "config_remove s (x # xs) =
     (if stmt_text x = s then (xs, True) else let (ys, b) = config_remove s xs in (x # ys, b))"

section \<open>Changes\<close>

definition junos_flags :: "string set" where
  "junos_flags = {''restrict'', ''except''}"

definition junos_single_keys :: "string list list" where
  "junos_single_keys =
    [[''snmp'', ''location''], [''snmp'', ''contact''], [''snmp'', ''description''], [''snmp'', ''name''],
     [''snmp'', ''trap-options'', ''source-address''],
     [''system'', ''tacplus-server'', ''*'', ''secret''], [''system'', ''tacplus-server'', ''*'', ''port''],
     [''system'', ''tacplus-server'', ''*'', ''timeout''], [''system'', ''tacplus-server'', ''*'', ''retry''],
     [''system'', ''tacplus-server'', ''*'', ''source-address''],
     [''system'', ''radius-server'', ''*'', ''secret''], [''system'', ''radius-server'', ''*'', ''port''],
     [''system'', ''radius-server'', ''*'', ''timeout''],
     [''system'', ''login'', ''user'', ''*'', ''class''], [''system'', ''login'', ''user'', ''*'', ''uid''],
     [''system'', ''login'', ''class'', ''*'', ''idle-timeout''],
     [''snmp'', ''community'', ''*'', ''authorization''], [''snmp'', ''community'', ''*'', ''client-list-name''],
     [''snmp'', ''trap-group'', ''*'', ''version''],
     [''system'', ''host-name''],
     [''system'', ''login'', ''message''], [''system'', ''login'', ''announcement''], [''system'', ''domain-name''],
     [''system'', ''time-zone''],
     [''system'', ''syslog'', ''host'', ''*'', ''*''], [''system'', ''syslog'', ''host'', ''*'', ''facility-override''],
     [''system'', ''syslog'', ''host'', ''*'', ''log-prefix''], [''system'', ''syslog'', ''source-address''],
     [''system'', ''login'', ''retry-options'', ''*''], [''system'', ''login'', ''password'', ''*''],
     [''system'', ''ntp'', ''boot-server''], [''system'', ''ntp'', ''source-address''],
     [''system'', ''ntp'', ''server'', ''*'', ''version''], [''system'', ''ntp'', ''server'', ''*'', ''key''],
     [''system'', ''ntp'', ''server'', ''*'', ''routing-instance''],
     [''system'', ''ntp'', ''authentication-key'', ''*'', ''type''], [''system'', ''ntp'', ''authentication-key'', ''*'', ''value'']]"

fun key_matches :: "string list \<Rightarrow> string list \<Rightarrow> bool" where
  "key_matches [] path = True"
| "key_matches (k # ks) [] = False"
| "key_matches (k # ks) (w # ws) = ((k = ''*'' \<or> k = w) \<and> key_matches ks ws)"

text \<open>\<open>singleKeyLen\<close>: whether the last word is the value of a single-valued leaf.\<close>

definition single_valued :: "string list \<Rightarrow> bool" where
  "single_valued path \<longleftrightarrow> list_ex (\<lambda>k. length path = length k + 1 \<and> key_matches k path) junos_single_keys"

text \<open>Replacing the first statement that fits.\<close>

fun replace_first :: "('a \<Rightarrow> bool) \<Rightarrow> 'a \<Rightarrow> 'a list \<Rightarrow> 'a list" where
  "replace_first P y [] = []"
| "replace_first P y (x # xs) = (if P x then y # xs else x # replace_first P y xs)"

fun replace_only :: "('a \<Rightarrow> bool) \<Rightarrow> 'a \<Rightarrow> 'a list \<Rightarrow> 'a list" where
  "replace_only P y [] = []"
| "replace_only P y (x # xs) = (if P x then y # filter (\<lambda>z. \<not> P z) xs else x # replace_only P y xs)"

definition flagged :: "string list \<Rightarrow> bool" where
  "flagged path \<longleftrightarrow> length path > 1 \<and> last path \<in> junos_flags"

definition is_set_of :: "string list \<Rightarrow> jstmt \<Rightarrow> bool" where
  "is_set_of path s \<longleftrightarrow> js_head s = ''set'' \<and> js_path s = path"

definition same_key :: "string list \<Rightarrow> jstmt \<Rightarrow> bool" where
  "same_key path s \<longleftrightarrow> js_head s = ''set'' \<and> length (js_path s) = length path \<and> butlast (js_path s) = butlast path"

definition has_flag_of :: "string list \<Rightarrow> jstmt \<Rightarrow> bool" where
  "has_flag_of path s \<longleftrightarrow>
     js_head s = ''set'' \<and> length (js_path s) = length path + 1 \<and> last (js_path s) \<in> junos_flags \<and> butlast (js_path s) = path"

definition set_stmt :: "jstmt list \<Rightarrow> string list \<Rightarrow> jstmt list" where
  "set_stmt c path =
     (if flagged path \<and> list_ex (is_set_of (butlast path)) c then replace_first (is_set_of (butlast path)) (set_jstmt path) c
      else if \<not> flagged path \<and> list_ex (has_flag_of path) c then c
      else if single_valued path \<and> list_ex (same_key path) c then replace_only (same_key path) (set_jstmt path) c
      else add_stmt c (set_jstmt path))"

definition lies_under :: "string list \<Rightarrow> jstmt \<Rightarrow> bool" where
  "lies_under path s \<longleftrightarrow> length (js_path s) \<ge> length path \<and> take (length path) (js_path s) = path"

definition delete_stmts :: "jstmt list \<Rightarrow> string list \<Rightarrow> jstmt list" where
  "delete_stmts c path =
     (if flagged path \<and> list_ex (is_set_of path) c then replace_first (is_set_of path) (set_jstmt (butlast path)) c
      else filter (\<lambda>s. \<not> lies_under path s) c)"

datatype edit_error = CannotApply | CannotInsert | NoTerm string | NotAnEdit

text \<open>Where the moved term goes: before the first or after the last statement of the other.\<close>

definition first_place :: "('a \<Rightarrow> bool) \<Rightarrow> 'a list \<Rightarrow> nat" where
  "first_place P xs = length (takeWhile (\<lambda>x. \<not> P x) xs)"

definition after_last :: "('a \<Rightarrow> bool) \<Rightarrow> 'a list \<Rightarrow> nat" where
  "after_last P xs = length xs - length (takeWhile (\<lambda>x. \<not> P x) (rev xs))"

definition insert_term :: "jstmt list \<Rightarrow> string list \<Rightarrow> edit_error option \<times> jstmt list" where
  "insert_term c t =
     (if length t \<noteq> 10 \<or> t ! 0 \<noteq> ''firewall'' \<or> t ! 5 \<noteq> ''term'' \<or> t ! 7 \<notin> {''before'', ''after''} \<or> t ! 8 \<noteq> ''term''
      then (Some CannotInsert, c)
      else let b = take 5 t @ [''term'', t ! 6]; a = take 5 t @ [''term'', t ! 9];
               moved = filter (lies_under b) c; rest = filter (\<lambda>s. \<not> lies_under b s) c
        in if moved = [] then (Some (NoTerm (t ! 6)), c)
           else if \<not> list_ex (lies_under a) rest then (Some (NoTerm (t ! 9)), c)
           else let at = (if t ! 7 = ''before'' then first_place (lies_under a) rest else after_last (lies_under a) rest)
             in (None, take at rest @ moved @ drop at rest))"

definition apply_line :: "jstmt list \<Rightarrow> string \<Rightarrow> edit_error option \<times> jstmt list" where
  "apply_line c l =
     (let t = split_tokens l
      in if length t < 2 then (Some CannotApply, c)
         else if hd t = ''set'' then (None, foldl set_stmt c (expand_brackets (tl t)))
         else if hd t = ''delete'' then (None, delete_stmts c (tl t))
         else if hd t = ''insert'' then insert_term c (tl t)
         else (Some NotAnEdit, c))"

fun junos_apply :: "jstmt list \<Rightarrow> line list \<Rightarrow> edit_error option \<times> jstmt list" where
  "junos_apply c [] = (None, c)"
| "junos_apply c (l # ls) =
     (case apply_line c (l_text l) of (Some e, c') \<Rightarrow> (Some e, c') | (None, c') \<Rightarrow> junos_apply c' ls)"

end
