(* ===== verification/JunosEditProps.thy ===== *)
theory JunosEditProps
  imports JunosEdit
begin

text \<open>
  What an edit of a Junos configuration leaves alone: the statements that none of its paths touches stay, in their
  order. Also what a \<open>set\<close> of a single-valued leaf and an \<open>insert\<close> do, and that the words of a statement are read back
  from its text.
\<close>

section \<open>Frames\<close>

text \<open>A path a \<open>set\<close> may replace beside its own: the entry of a flag, another value of a leaf.\<close>

definition beside :: "string list \<Rightarrow> string list \<Rightarrow> bool" where
  "beside p s \<longleftrightarrow>
     s = p \<or> flagged p \<and> s = butlast p \<or> single_valued p \<and> length s = length p \<and> butlast s = butlast p"

text \<open>A path a \<open>delete\<close> may change.\<close>

definition within :: "string list \<Rightarrow> string list \<Rightarrow> bool" where
  "within p s \<longleftrightarrow> take (length p) s = p \<or> flagged p \<and> s = butlast p"

lemma beside_self [simp]: "beside p p" by (simp add: beside_def)

lemma filter_add_stmt: "\<not> Q s \<Longrightarrow> filter Q (add_stmt c s) = filter Q c"
proof -
  assume "\<not> Q s"
  moreover have "filter Q (take n c) @ filter Q (drop n c) = filter Q c" for n
    by (metis append_take_drop_id filter_append)
  ultimately show ?thesis by (simp add: add_stmt_def Let_def)
qed

lemma filter_replace_first: "\<forall>x \<in> set c. P x \<longrightarrow> \<not> Q x \<Longrightarrow> \<not> Q y \<Longrightarrow> filter Q (replace_first P y c) = filter Q c"
  by (induction c) auto

lemma filter_drop_matching: "\<forall>x \<in> set c. P x \<longrightarrow> \<not> Q x \<Longrightarrow> filter (\<lambda>z. \<not> P z \<and> Q z) c = filter Q c"
  by (induction c) auto

lemma filter_replace_only: "\<forall>x \<in> set c. P x \<longrightarrow> \<not> Q x \<Longrightarrow> \<not> Q y \<Longrightarrow> filter Q (replace_only P y c) = filter Q c"
  by (induction c) (auto simp: filter_drop_matching)

lemma set_stmt_frame:
  assumes "\<And>s. beside p s \<Longrightarrow> \<not> K s"
  shows "filter (\<lambda>s. K (js_path s)) (set_stmt c p) = filter (\<lambda>s. K (js_path s)) c"
proof -
  have "\<not> K p" using assms by simp
  moreover have "\<not> K (js_path s)" if "flagged p" "is_set_of (butlast p) s" for s
    using assms [of "js_path s"] that by (simp add: beside_def is_set_of_def)
  moreover have "\<not> K (js_path s)" if "single_valued p" "same_key p s" for s
    using assms [of "js_path s"] that by (simp add: beside_def same_key_def)
  ultimately show ?thesis
    by (auto simp: set_stmt_def set_jstmt_def filter_add_stmt filter_replace_first filter_replace_only)
qed

lemma sets_frame:
  assumes "\<And>p s. p \<in> set ps \<Longrightarrow> beside p s \<Longrightarrow> \<not> K s"
  shows "filter (\<lambda>s. K (js_path s)) (foldl set_stmt c ps) = filter (\<lambda>s. K (js_path s)) c"
  using assms
proof (induction ps arbitrary: c)
  case (Cons p ps)
  then have "filter (\<lambda>s. K (js_path s)) (set_stmt c p) = filter (\<lambda>s. K (js_path s)) c"
    by (intro set_stmt_frame) (meson list.set_intros(1))
  moreover have "filter (\<lambda>s. K (js_path s)) (foldl set_stmt (set_stmt c p) ps) = filter (\<lambda>s. K (js_path s)) (set_stmt c p)"
    by (rule Cons.IH) (meson Cons.prems list.set_intros(2))
  ultimately show ?case by simp
qed simp

lemma delete_frame:
  assumes "\<And>s. within p s \<Longrightarrow> \<not> K s"
  shows "filter (\<lambda>s. K (js_path s)) (delete_stmts c p) = filter (\<lambda>s. K (js_path s)) c"
proof -
  have "\<not> K (butlast p)" if "flagged p" using assms that by (simp add: within_def)
  moreover have "\<not> K (js_path s)" if "is_set_of p s" for s
    using assms [of "js_path s"] that by (simp add: within_def is_set_of_def)
  moreover have "\<not> K (js_path s)" if "lies_under p s" for s
    using assms [of "js_path s"] that by (simp add: within_def lies_under_def)
  ultimately show ?thesis
    by (auto simp: delete_stmts_def set_jstmt_def filter_replace_first filter_drop_matching)
qed

lemma insert_frame:
  assumes "\<And>s. length t = 10 \<Longrightarrow> hd t = ''firewall'' \<Longrightarrow> t ! 5 = ''term'' \<Longrightarrow> take 7 s = take 7 t \<Longrightarrow> \<not> K s"
  shows "filter (\<lambda>s. K (js_path s)) (snd (insert_term c t)) = filter (\<lambda>s. K (js_path s)) c"
proof (cases "length t = 10 \<and> t ! 0 = ''firewall'' \<and> t ! 5 = ''term''")
  case False
  then show ?thesis by (auto simp: insert_term_def)
next
  case True
  let ?b = "take 5 t @ [''term'', t ! 6]"
  have b: "?b = take 7 t" using True by (simp add: take_Suc_conv_app_nth eval_nat_numeral)
  have away: "\<not> K (js_path s)" if "lies_under ?b s" for s
    using assms [of "js_path s"] that True b by (cases t) (auto simp: lies_under_def)
  let ?rest = "filter (\<lambda>s. \<not> lies_under ?b s) c"
  have "filter (\<lambda>s. K (js_path s)) (filter (lies_under ?b) c) = []" using away by (auto simp: filter_empty_conv)
  moreover have "filter (\<lambda>s. K (js_path s)) ?rest = filter (\<lambda>s. K (js_path s)) c"
    using away by (simp add: filter_drop_matching)
  moreover have "filter (\<lambda>s. K (js_path s)) (take n ?rest) @ filter (\<lambda>s. K (js_path s)) (drop n ?rest)
      = filter (\<lambda>s. K (js_path s)) ?rest" for n
    by (metis append_take_drop_id filter_append)
  ultimately show ?thesis using True by (auto simp: insert_term_def Let_def)
qed

section \<open>Leaves and terms\<close>

text \<open>After a \<open>set\<close> of a single-valued leaf it is the only value of the leaf.\<close>

lemma replace_only_one: "list_ex P c \<Longrightarrow> P y \<Longrightarrow> filter P (replace_only P y c) = [y]"
  by (induction c) (auto simp: filter_empty_conv)

lemma filter_add_new: "filter P c = [] \<Longrightarrow> P s \<Longrightarrow> filter P (add_stmt c s) = [s]"
proof -
  assume f: "filter P c = []" and s: "P s"
  then have "s \<notin> set c" by (auto simp: filter_empty_conv)
  moreover have "filter P (take n c) = []" "filter P (drop n c) = []" for n
    using f by (auto simp: filter_empty_conv dest: in_set_takeD in_set_dropD)
  ultimately show ?thesis using s by (simp add: add_stmt_def Let_def)
qed

lemma set_single_value:
  assumes "single_valued p" "\<not> flagged p" "\<not> list_ex (has_flag_of p) c"
  shows "filter (same_key p) (set_stmt c p) = [set_jstmt p]"
proof -
  have "same_key p (set_jstmt p)" by (simp add: same_key_def set_jstmt_def)
  with assms show ?thesis
    by (cases "list_ex (same_key p) c")
      (auto simp: set_stmt_def replace_only_one intro!: filter_add_new simp: filter_empty_conv list_ex_iff)
qed

lemma mset_insert_term: "mset (snd (insert_term c t)) = mset c"
proof -
  have "mset (take n xs @ filter P c @ drop n xs) = mset c" if "xs = filter (\<lambda>s. \<not> P s) c" for n P and xs :: "jstmt list"
  proof -
    have "mset (take n xs) + mset (drop n xs) = mset xs" by (metis append_take_drop_id mset_append)
    then have "mset (take n xs @ filter P c @ drop n xs) = mset (filter P c) + mset xs"
      by (simp add: union_ac del: mset_filter)
    then show ?thesis using that by (simp add: mset_filter multiset_partition)
  qed
  then show ?thesis by (auto simp: insert_term_def Let_def simp del: mset_append)
qed

section \<open>Words\<close>

lemma written_runes_ascii: "list_all (\<lambda>c. code_of c < 0x80) s \<Longrightarrow> written_runes s = map (\<lambda>c. [c]) s"
proof (induction s)
  case (Cons c s)
  then have "decode_rune (c # s) = (code_of c, 1)" by (simp add: decode_rune_def Let_def)
  with Cons show ?case by (subst written_runes.simps) simp
qed (simp add: written_runes.simps)

text \<open>A word as the device prints it: a double quote only after a backslash, and no backslash at the end.\<close>

fun printed_word :: "string \<Rightarrow> bool" where
  "printed_word [] = True"
| "printed_word (c # s) =
     (if c = CHR 0x5C then (case s of [] \<Rightarrow> False | d # t \<Rightarrow> printed_word t) else c \<noteq> CHR 0x22 \<and> printed_word s)"

lemma quote_bytes_printed: "printed_word t \<Longrightarrow> quote_bytes t = t"
  by (induction t rule: printed_word.induct) (auto split: if_splits list.splits)

lemma split_quoted:
  "printed_word t \<Longrightarrow> split_runes w has (Some (CHR 0x22)) False (map (\<lambda>c. [c]) t @ [CHR 0x22] # rest) =
     split_runes (w @ t) has None False rest"
proof (induction t arbitrary: w rule: printed_word.induct)
  case (2 c s)
  then show ?case by (cases "c = CHR 0x5C"; cases s) auto
qed simp

lemma split_bare:
  "\<not> list_ex (\<lambda>c. c \<in> set needs_quotes) t \<Longrightarrow>
     split_runes w has None False (map (\<lambda>c. [c]) t @ rest) = split_runes (w @ t) has None False rest"
  by (induction t arbitrary: w) (auto simp: needs_quotes_def)

lemma split_quote_tok:
  assumes "printed_word t"
  obtains has where "split_runes [] False None False (map (\<lambda>c. [c]) (quote_tok t) @ rest) = split_runes t has None False rest"
    "has \<or> t \<noteq> []"
proof (cases "t = [] \<or> list_ex (\<lambda>c. c \<in> set needs_quotes) t")
  case True
  with split_quoted [OF assms, of "[]" True rest] that [of True] show ?thesis
    by (simp add: quote_tok_def quote_bytes_printed [OF assms])
next
  case False
  with split_bare [of t "[]" False rest] that [of False] show ?thesis by (simp add: quote_tok_def)
qed

lemma split_joined: "list_all printed_word ts \<Longrightarrow> split_runes [] False None False (map (\<lambda>c. [c]) (join_tokens ts)) = ts"
proof (induction ts)
  case Nil
  then show ?case by (simp add: join_tokens_def flush_word_def)
next
  case (Cons t ts)
  then have t: "printed_word t" by simp
  show ?case
  proof (cases ts)
    case Nil
    obtain has where "split_runes [] False None False (map (\<lambda>c. [c]) (quote_tok t) @ []) = split_runes t has None False []"
      "has \<or> t \<noteq> []" using split_quote_tok [OF t] by metis
    with Nil show ?thesis by (simp add: join_tokens_def flush_word_def)
  next
    case (Cons u us)
    then have j: "join_tokens (t # ts) = quote_tok t @ '' '' @ join_tokens ts" by (simp add: join_tokens_def)
    obtain has where "split_runes [] False None False (map (\<lambda>c. [c]) (quote_tok t) @ [CHR '' ''] # map (\<lambda>c. [c]) (join_tokens ts))
        = split_runes t has None False ([CHR '' ''] # map (\<lambda>c. [c]) (join_tokens ts))" "has \<or> t \<noteq> []"
      using split_quote_tok [OF t] by metis
    with Cons.IH Cons.prems j show ?thesis by (simp add: flush_word_def)
  qed
qed

lemma quote_bytes_set: "set (quote_bytes t) \<subseteq> set t \<union> {CHR 0x5C, CHR 0x22}"
proof (induction t rule: quote_bytes.induct)
  case (2 c s)
  show ?case
  proof (cases "c = CHR 0x5C")
    case True
    with 2(1) show ?thesis by (cases s) auto
  next
    case False
    with 2(2,3) show ?thesis by (cases "c = CHR 0x22") auto
  qed
qed simp

lemma join_tokens_ascii:
  assumes "\<forall>t \<in> set ts. \<forall>c \<in> set t. code_of c < 0x80"
  shows "list_all (\<lambda>c. code_of c < 0x80) (join_tokens ts)"
proof -
  have "\<forall>c \<in> set (quote_tok t). code_of c < 0x80" if "t \<in> set ts" for t
    using assms that quote_bytes_set [of t] by (auto simp: quote_tok_def)
  moreover have "set (join '' '' ws) \<subseteq> (\<Union>w \<in> set ws. set w) \<union> {CHR '' ''}" for ws
    by (induction "'' '' :: string" ws rule: join.induct) auto
  ultimately show ?thesis by (fastforce simp: join_tokens_def list_all_iff)
qed



end
