(* ===== verification/PlanAllowProps.thy ===== *)
theory PlanAllowProps
  imports JunosEditProps
begin

text \<open>
  What the allow-list is for, stated on the configuration of the device: a delta that passes it, applied line by
  line, changes only statements of the plan (under an owned row with an object the rendering names, or rendered), and
  never a credential, an interface, a group or the login that applies it.
\<close>

section \<open>Patterns\<close>

definition wild :: "string \<Rightarrow> bool" where
  "wild w \<longleftrightarrow> w = ''$'' \<or> w = ''?'' \<or> w = ''*''"

text \<open>Two patterns that one path may match, as far as both go.\<close>

fun compat :: "string list \<Rightarrow> string list \<Rightarrow> bool" where
  "compat (x # xs) (y # ys) \<longleftrightarrow> (wild x \<or> wild y \<or> x = y) \<and> compat xs ys"
| "compat _ _ \<longleftrightarrow> True"

definition fits :: "string list \<Rightarrow> string list \<Rightarrow> bool" where
  "fits pat p \<longleftrightarrow> length pat \<le> length p \<and> (\<forall>i < length pat. wild (pat ! i) \<or> pat ! i = p ! i)"

lemma fits_Nil [simp]: "fits [] p" by (simp add: fits_def)

lemma fits_Cons [simp]: "fits (x # xs) (y # ys) \<longleftrightarrow> (wild x \<or> x = y) \<and> fits xs ys"
  by (auto simp: fits_def nth_Cons split: nat.splits)

lemma fits_Cons_Nil [simp]: "\<not> fits (x # xs) []" by (simp add: fits_def)

lemma match_words_fits: "match_words pat p n = Some m \<Longrightarrow> fits pat p"
  by (induction pat p n rule: match_words.induct) (auto simp: wild_def split: if_splits)

lemma pattern_prefix_fits: "pattern_prefix pat p \<Longrightarrow> fits pat p"
  by (induction pat p rule: pattern_prefix.induct) (auto simp: wild_def)

lemma key_matches_fits: "key_matches k p \<Longrightarrow> fits k p"
  by (induction k p rule: key_matches.induct) (auto simp: wild_def)

lemma fits_length: "fits pat p \<Longrightarrow> length pat \<le> length p" by (simp add: fits_def)

lemma fits_compat: "fits a p \<Longrightarrow> fits b q \<Longrightarrow> take m p = take m q \<Longrightarrow> length a \<le> m \<or> length b \<le> m \<Longrightarrow> compat a b"
proof (induction a b arbitrary: p q m rule: compat.induct)
  case (1 x xs y ys)
  then obtain v ps w qs where p: "p = v # ps" "q = w # qs" by (cases p; cases q) auto
  from 1(5) obtain k where m: "m = Suc k" by (cases m) auto
  with 1(2-5) p show ?case by (auto intro: "1.IH" [of ps qs k])
qed auto

lemma match_words_append: "match_words pat p n = Some m \<Longrightarrow> match_words pat (p @ r) n = Some m"
  by (induction pat p n rule: match_words.induct) (auto split: if_splits)

lemma match_words_take: "length pat \<le> k \<Longrightarrow> match_words pat (take k p) n = match_words pat p n"
proof (induction pat p n arbitrary: k rule: match_words.induct)
  case (3 p ps w ws name)
  then obtain j where "k = Suc j" by (cases k) auto
  with 3 show ?case by auto
qed auto

lemma match_prefix_extends: "match_prefix pat p = Some m \<Longrightarrow> take (length p) s = p \<Longrightarrow> match_prefix pat s = Some m"
  unfolding match_prefix_def by (metis append_take_drop_id match_words_append)

lemma match_prefix_butlast:
  "length pat < length p \<Longrightarrow> length s = length p \<Longrightarrow> butlast s = butlast p \<Longrightarrow> match_prefix pat s = match_prefix pat p"
  unfolding match_prefix_def butlast_conv_take
  by (metis One_nat_def Suc_pred less_Suc_eq_le less_nat_zero_code match_words_take neq0_conv)

lemma pattern_prefix_append: "pattern_prefix pat p \<Longrightarrow> pattern_prefix pat (p @ r)"
  by (induction pat p rule: pattern_prefix.induct) auto

lemma pattern_prefix_take: "length pat \<le> k \<Longrightarrow> pattern_prefix pat (take k p) = pattern_prefix pat p"
proof (induction pat p arbitrary: k rule: pattern_prefix.induct)
  case (3 p ps w ws)
  then obtain j where "k = Suc j" by (cases k) auto
  with 3 show ?case by auto
qed auto

section \<open>What is protected\<close>

definition protected_patterns :: "string list list" where
  "protected_patterns =
    [[''system'', ''root-authentication''], [''system'', ''services''], [''interfaces''], [''groups''], [''apply-groups''],
     [''system'', ''login'', ''user'', ''root''], [''system'', ''login'', ''user'', ''?'', ''authentication''],
     [''system'', ''login'', ''user'', ''?'', ''uid'']]"

definition never_path :: "string \<Rightarrow> string list \<Rightarrow> bool" where
  "never_path login p \<longleftrightarrow> list_ex (\<lambda>pat. pattern_prefix pat p) protected_patterns \<or> login_object ''user'' login p"

text \<open>The services a plan may turn off or set: NETCONF, and those the table requires to be absent.\<close>

definition open_services :: "string list" where
  "open_services = ''netconf'' # map (\<lambda>r. or_pattern r ! 2) (filter (\<lambda>r. or_mode r = ModeAbsent) junos_owned)"

definition guarded_path :: "string \<Rightarrow> string list \<Rightarrow> bool" where
  "guarded_path login p \<longleftrightarrow> never_path login p \<and> take 3 p \<notin> set (map (\<lambda>x. [''system'', ''services'', x]) open_services)"

text \<open>What the tables do not reach, by computation over them.\<close>

definition user_pattern :: "string list" where
  "user_pattern = [''system'', ''login'', ''user'', ''?'']"

lemma rows_beside_protected:
  "list_all (\<lambda>r. list_all (\<lambda>pat. length (or_pattern r) < length pat \<longrightarrow> \<not> compat (or_pattern r) pat)
     (user_pattern # protected_patterns)) junos_owned"
  by code_simp

lemma keys_beside_protected:
  "list_all (\<lambda>k. list_all (\<lambda>pat. length pat = Suc (length k) \<longrightarrow> \<not> compat k pat)
     (user_pattern # protected_patterns)) junos_single_keys"
  by code_simp

lemma keys_beside_rows:
  "list_all (\<lambda>r. list_all (\<lambda>k. length (or_pattern r) = Suc (length k) \<longrightarrow> \<not> compat k (or_pattern r)) junos_single_keys)
     junos_owned"
  by code_simp

section \<open>Never\<close>

lemma protected_length: "pat \<in> set protected_patterns \<Longrightarrow> length pat \<le> 5"
  by (auto simp: protected_patterns_def)

lemma never_path_append: "never_path login p \<Longrightarrow> never_path login (p @ r)"
  by (auto simp: never_path_def list_ex_iff login_object_def intro: pattern_prefix_append)

lemma never_path_extends: "never_path login p \<Longrightarrow> take (length p) s = p \<Longrightarrow> never_path login s"
  by (metis append_take_drop_id never_path_append)

lemma never_path_butlast: "never_path login (butlast p) \<Longrightarrow> never_path login p"
  by (metis append_butlast_last_id butlast.simps(1) never_path_append)

text \<open>The pattern of a protected path: one of the table, or the login's own user.\<close>

lemma never_path_pattern:
  assumes "never_path login s"
  obtains pat where "pat \<in> set (user_pattern # protected_patterns)" "fits pat s" "length pat \<le> 5"
    "\<And>p. length pat \<le> length p \<Longrightarrow> take (length pat) p = take (length pat) s \<Longrightarrow> never_path login p"
proof (cases "login_object ''user'' login s")
  case True
  then have "s = [''system'', ''login'', ''user'', login] @ drop 4 s" unfolding login_object_def by (metis append_take_drop_id)
  then obtain r where "s = ''system'' # ''login'' # ''user'' # login # r" by simp
  then have "fits user_pattern s" by (simp add: user_pattern_def wild_def)
  then show ?thesis using True by (intro that [of user_pattern]) (auto simp: user_pattern_def never_path_def login_object_def numeral_eq_Suc)
next
  case False
  with assms obtain pat where p: "pat \<in> set protected_patterns" "pattern_prefix pat s"
    by (auto simp: never_path_def list_ex_iff)
  show ?thesis
  proof (rule that [of pat])
    show "never_path login q" if "take (length pat) q = take (length pat) s" for q
      using p that pattern_prefix_take [of pat "length pat" q] pattern_prefix_take [of pat "length pat" s]
      by (auto simp: never_path_def list_ex_iff)
  qed (use p pattern_prefix_fits protected_length in auto)
qed

lemma take_of_butlast: "butlast s = butlast p \<Longrightarrow> length s = length p \<Longrightarrow> n < length p \<Longrightarrow> take n s = take n p"
  by (metis butlast_conv_take less_imp_le_nat less_Suc_eq_le min.absorb1 Suc_pred take_take gr_implies_not0 neq0_conv One_nat_def)

lemma single_valued_key:
  assumes "single_valued p"
  obtains k where "k \<in> set junos_single_keys" "length p = Suc (length k)" "fits k p"
  using assms key_matches_fits by (auto simp: single_valued_def list_ex_iff)

lemma never_beside:
  assumes "\<not> never_path login p" "beside p s"
  shows "\<not> never_path login s"
proof
  assume n: "never_path login s"
  from assms(2) consider "s = p" | "s = butlast p" | "single_valued p" "length s = length p" "butlast s = butlast p"
    by (auto simp: beside_def)
  then show False
  proof cases
    case 3
    obtain k where k: "k \<in> set junos_single_keys" "length p = Suc (length k)" "fits k p" using single_valued_key [OF 3(1)] .
    obtain pat where pat: "pat \<in> set (user_pattern # protected_patterns)" "fits pat s"
      "\<And>q. length pat \<le> length q \<Longrightarrow> take (length pat) q = take (length pat) s \<Longrightarrow> never_path login q"
      using never_path_pattern [OF n] by metis
    have same: "take j p = take j s" if "j < length p" for j using take_of_butlast [OF 3(3) 3(2) that] by simp
    show False
    proof (cases "length pat < length p")
      case True
      then show False using pat(3) [of p] same assms(1) by simp
    next
      case False
      with fits_length [OF pat(2)] 3(2) have l: "length pat = Suc (length k)" using k(2) by simp
      have "compat k pat" by (rule fits_compat [OF k(3) pat(2) same [of "length k"]]) (use k(2) in auto)
      with keys_beside_protected k(1) pat(1) l show False by (auto simp: list_all_iff)
    qed
  qed (use n assms(1) never_path_butlast in blast)+
qed

section \<open>What the check accepts\<close>

lemma never_list_path: "never_hierarchy_of p = None \<Longrightarrow> \<not> login_object ''user'' login p \<Longrightarrow> \<not> never_path login p"
proof
  assume n: "never_hierarchy_of p = None" "\<not> login_object ''user'' login p" "never_path login p"
  then have r: "\<not> (pattern_prefix (nh_pattern r) p \<and> (nh_anywhere r = [] \<or> nh_anywhere r \<in> set (drop (length (nh_pattern r)) p)))"
    if "r \<in> set allow_never" for r using that by (auto simp: never_hierarchy_of_def first_where_None)
  from n(2,3) obtain pat where pat: "pat \<in> set protected_patterns" "pattern_prefix pat p"
    by (auto simp: never_path_def list_ex_iff)
  have deep: "\<not> pattern_prefix [''system'', ''login'', ''user'', ''?'', w] p"
    if "nhrow i [''system'', ''login'', ''user'', ''?''] w \<in> set allow_never" "w \<noteq> []" "w \<noteq> ''?''" for i w
  proof
    note w = that
    assume a: "pattern_prefix [''system'', ''login'', ''user'', ''?'', w] p"
    then obtain x rest where "p = ''system'' # ''login'' # ''user'' # x # w # rest"
      using w(3) by (cases p; cases "tl p"; cases "tl (tl p)"; cases "tl (tl (tl p))"; cases "tl (tl (tl (tl p)))") auto
    with r [OF w(1)] w(2) show False by (simp add: nhrow_def)
  qed
  from pat r [of "nhrow ''junos.root-authentication'' [''system'', ''root-authentication''] []"]
    r [of "nhrow ''junos.services'' [''system'', ''services''] []"] r [of "nhrow ''junos.interfaces'' [''interfaces''] []"]
    r [of "nhrow ''junos.groups'' [''groups''] []"] r [of "nhrow ''junos.apply-groups'' [''apply-groups''] []"]
    r [of "nhrow ''junos.user-root'' [''system'', ''login'', ''user'', ''root''] []"]
    deep [of "''junos.user-authentication''" "''authentication''"] deep [of "''junos.user-uid''" "''uid''"]
  show False by (auto simp: protected_patterns_def allow_never_def nhrow_def)
qed

text \<open>A line that passes: a statement of NETCONF or of a service to be absent, or one no never row holds and some row
  does.\<close>

lemma accepted:
  assumes "allow_check U a l = None"
  obtains "hd (split_tokens l) \<in> {''set'', ''delete'', ''insert''}" "trim_space l = l"
    "hd (split_tokens l) = ''insert'' \<Longrightarrow> insert_shape (split_tokens l)"
    "statement_path (split_tokens l) \<noteq> []"
    "netconf_statement (statement_path (split_tokens l)) \<and> netconf_allowed a l \<or>
     absent_allowed a (hd (split_tokens l)) (statement_path (split_tokens l)) \<or>
     \<not> never_path (al_login a) (statement_path (split_tokens l)) \<and>
       (\<forall>q \<in> set (expand_brackets (statement_path (split_tokens l))). hierarchy a l (hd (split_tokens l)) q = None)"
proof -
  let ?t = "split_tokens l" and ?p = "statement_path (split_tokens l)"
  from assms have ok: "junos_statement_ok l = None" "\<not> has_prefix l ''#''" "check_path a l (hd ?t) ?p = None"
    by (auto simp: allow_check_def Let_def split: if_splits option.splits)
  have first_some_None: "first_some f xs = None \<Longrightarrow> \<forall>x \<in> set xs. f x = None" for f :: "string list \<Rightarrow> refusal option" and xs
    by (auto simp: first_some_def first_where_None split: option.splits dest: first_where_Some)
  from ok(1,2) have "hd ?t \<in> {''set'', ''delete'', ''insert''}" "trim_space l = l" "hd ?t = ''insert'' \<longrightarrow> insert_shape ?t"
    by (auto simp: junos_statement_ok_def Let_def split: if_splits)
  moreover from ok(3) have "?p \<noteq> []" by (auto simp: check_path_def)
  moreover from ok(3) have "netconf_statement ?p \<and> netconf_allowed a l \<or> absent_allowed a (hd ?t) ?p \<or>
      \<not> never_path (al_login a) ?p \<and> (\<forall>q \<in> set (expand_brackets ?p). hierarchy a l (hd ?t) q = None)"
    using never_list_path by (auto simp: check_path_def split: if_splits option.splits dest!: first_some_None)
  ultimately show thesis using that by blast
qed

lemma hierarchy_cases:
  assumes "hierarchy a l verb q = None"
  obtains n r where "n \<in> set (planned_sections a)" "r \<in> set (junos_rows n (expected_of a n))" "row_answer a verb q r = Holds"
  | "verb = ''set''" "emitted_line a l"
  using assms by (auto simp: hierarchy_def Let_def row_answers_def split: if_splits)

lemma row_holds:
  assumes "row_answer a verb q j = Holds"
  obtains name where "match_prefix (or_pattern (jr_row j)) q = Some name" "or_mode (jr_row j) \<noteq> ModeAbsent"
    "name = None \<or> al_expected a = None \<or> the name \<in> set (jr_names j)"
  using assms by (auto simp: row_answer_def Let_def split: if_splits option.splits)

lemma junos_row_owned: "j \<in> set (junos_rows n e) \<Longrightarrow> jr_row j \<in> set junos_owned"
  by (auto simp: junos_rows_def junos_row_def Let_def)

lemma match_prefix_fits: "match_prefix pat p = Some m \<Longrightarrow> fits pat p"
  unfolding match_prefix_def by (rule match_words_fits)

section \<open>Lists and leaves\<close>

lemma ntp_server_leaves_base: "q \<in> set (ntp_server_leaves base ws) \<Longrightarrow> \<exists>r. r \<noteq> [] \<and> q = base @ r"
  by (induction base ws rule: ntp_server_leaves.induct) (auto split: if_splits list.splits)

lemma ntp_key_leaves_base: "q \<in> set (ntp_key_leaves base ws) \<Longrightarrow> \<exists>r. r \<noteq> [] \<and> q = base @ r"
  by (induction base ws rule: ntp_key_leaves.induct) auto

lemma split_leaves_cases:
  assumes "q \<in> set (split_leaves t)"
  obtains "q = t" | r where "length t \<ge> 5" "take 2 t = [''system'', ''ntp'']" "r \<noteq> []" "q = take 4 t @ r"
proof (cases "q = t")
  case False
  with assms have "length t \<ge> 5" "t ! 0 = ''system''" "t ! 1 = ''ntp''"
    "q \<in> set (ntp_server_leaves (take 4 t) (drop 4 t)) \<union> set (ntp_key_leaves (take 4 t) (drop 4 t))"
    by (auto simp: split_leaves_def split: if_splits)
  moreover from this(4) obtain r where "r \<noteq> []" "q = take 4 t @ r"
    using ntp_server_leaves_base ntp_key_leaves_base by blast
  moreover have "take 2 t = [t ! 0, t ! 1]" using \<open>length t \<ge> 5\<close> by (cases t; cases "tl t") (auto simp: numeral_2_eq_2)
  ultimately show ?thesis using that(2) by simp
qed (use that in blast)

text \<open>The first leaf is the beginning of the statement.\<close>

lemma split_leaves_first:
  obtains q where "q \<in> set (split_leaves t)" "take (length q) t = q"
proof (cases "split_leaves t = [t]")
  case False
  then have l: "length t \<ge> 5" and s: "split_leaves t = ntp_server_leaves (take 4 t) (drop 4 t) \<or>
      split_leaves t = ntp_key_leaves (take 4 t) (drop 4 t)"
    by (auto simp: split_leaves_def split: if_splits)
  obtain w ws where d: "drop 4 t = w # ws" using l by (cases "drop 4 t") auto
  obtain b where b: "b = take 4 t" by blast
  have t: "t = b @ w # ws" unfolding b d [symmetric] by simp
  from s d b obtain r r' where r: "b @ r \<in> set (split_leaves t)" "w # ws = r @ r'"
    by (cases ws) (fastforce split: if_splits)+
  have "take (length (b @ r)) t = b @ r" unfolding t r(2) by simp
  with r(1) that show ?thesis by blast
qed (use that in force)

lemma no_list: "''['' \<notin> set t \<Longrightarrow> expand_brackets t = split_leaves t"
  by (simp add: expand_brackets.simps)

lemma statement_path_words: "set (statement_path t) \<subseteq> set t"
  by (cases t) (auto simp: statement_path_def dest: in_set_takeD)

section \<open>Protected statements stay\<close>

lemma open_services_eq: "open_services = [''netconf'', ''telnet'', ''ftp'', ''finger'', ''xnm-clear-text'', ''web-management'']"
  by code_simp

lemma not_guarded_open: "x \<in> set open_services \<Longrightarrow> take 3 s = [''system'', ''services'', x] \<Longrightarrow> \<not> guarded_path login s"
  by (auto simp: guarded_path_def)

lemma not_guarded_never: "\<not> never_path login s \<Longrightarrow> \<not> guarded_path login s"
  by (simp add: guarded_path_def)

lemma not_guarded_head:
  "hd s = ''firewall'' \<or> take 2 s = [''system'', ''ntp''] \<Longrightarrow> s \<noteq> [] \<Longrightarrow> \<not> guarded_path login s"
  by (cases s; cases "tl s") (auto simp: guarded_path_def never_path_def login_object_def protected_patterns_def numeral_eq_Suc)

lemma never_within:
  assumes "\<not> never_path (al_login a) p" "''['' \<notin> set p"
    "\<forall>q \<in> set (expand_brackets p). hierarchy a l verb q = None" "verb \<noteq> ''set''" "within p s"
  shows "\<not> never_path (al_login a) s"
proof
  assume n: "never_path (al_login a) s"
  from assms(5) consider "take (length p) s = p" | "s = butlast p" by (auto simp: within_def)
  then show False
  proof cases
    case 1
    obtain pat where pat: "pat \<in> set (user_pattern # protected_patterns)" "fits pat s" "length pat \<le> 5"
      "\<And>q. length pat \<le> length q \<Longrightarrow> take (length pat) q = take (length pat) s \<Longrightarrow> never_path (al_login a) q"
      using never_path_pattern [OF n] by metis
    have short: "length p < length pat"
    proof (rule ccontr)
      assume "\<not> length p < length pat"
      with 1 pat(4) [of p] assms(1) show False by (metis linorder_not_less min.absorb1 take_take)
    qed
    with pat(3) have "split_leaves p = [p]" by (simp add: split_leaves_def)
    with assms(2-4) obtain n j where j: "j \<in> set (junos_rows n (expected_of a n))" "row_answer a verb p j = Holds"
      by (auto simp: no_list elim: hierarchy_cases)
    then obtain m where m: "match_prefix (or_pattern (jr_row j)) p = Some m" by (auto elim: row_holds)
    have f: "fits (or_pattern (jr_row j)) p" by (rule match_prefix_fits [OF m])
    have "compat (or_pattern (jr_row j)) pat"
      by (rule fits_compat [OF f pat(2), of "length p"]) (use 1 fits_length [OF f] in auto)
    with rows_beside_protected junos_row_owned [OF j(1)] pat(1) fits_length [OF f] short show False
      by (auto simp: list_all_iff)
  qed (use n assms(1) never_path_butlast in blast)
qed

text \<open>A statement of NETCONF that passes is one of three.\<close>

lemma netconf_allowed_path:
  assumes "netconf_allowed a l" "trim_space l = l"
  obtains "hd (split_tokens l) = ''delete''" "tl (split_tokens l) = netconf_prefix"
  | r where "hd (split_tokens l) = ''set''" "tl (split_tokens l) = netconf_prefix @ r" "r \<noteq> []"
proof -
  let ?t = "split_tokens l"
  from assms have t: "take 3 (tl ?t) = netconf_prefix"
    "hd ?t = ''delete'' \<and> length (tl ?t) = 3 \<or> hd ?t = ''set'' \<and> length (tl ?t) > 3"
    by (auto simp: netconf_allowed_def netconf_statement_allowed_def netconf_statement_def Let_def split: if_splits)
  show thesis
  proof (cases "hd ?t = ''delete'' \<and> length (tl ?t) = 3")
    case True
    with t(1) that(1) show thesis by simp
  next
    case False
    with t(2) have s: "hd ?t = ''set''" "length (tl ?t) > 3" by auto
    with t(1) have "tl ?t = netconf_prefix @ drop 3 (tl ?t)" by (metis append_take_drop_id)
    with s that(2) show thesis by (metis drop_eq_Nil2 not_less)
  qed
qed

lemma absent_allowed_path:
  assumes "absent_allowed a verb p"
  obtains x where "verb = ''delete''" "p = [''system'', ''services'', x]" "x \<in> set open_services" "x \<noteq> ''netconf''"
proof -
  from assms have v: "verb = ''delete''" "length p = 3" "take 2 p = [''system'', ''services'']"
    and r: "list_ex (\<lambda>r. or_mode r = ModeAbsent \<and> join '' '' (or_pattern r) = join '' '' p) junos_owned"
    by (auto simp: absent_allowed_def split: if_splits)
  from v(2,3) obtain x where p: "p = [''system'', ''services'', x]"
    by (cases p; cases "tl p"; cases "tl (tl p)") (auto simp: numeral_eq_Suc)
  from r have "x \<in> {''telnet'', ''ftp'', ''finger'', ''xnm-clear-text'', ''web-management''}"
    by (auto simp: p junos_owned_def roles_rows_def aaa_rows_def snmp_rows_def system_rows_def netconf_rows_def
        mgmt_acl_rows_def orow_def)
  with v(1) p that show thesis by (auto simp: open_services_eq)
qed

lemma take_append_le: "take n s = take n (p @ r) \<Longrightarrow> n \<le> length p \<Longrightarrow> take n s = take n p"
  by simp

lemma beside_netconf:
  assumes "beside (netconf_prefix @ r) s" "r \<noteq> []"
  shows "take 3 s = netconf_prefix"
proof -
  have b: "butlast (netconf_prefix @ r) = netconf_prefix @ butlast r" using assms(2) by (simp add: butlast_append)
  from assms(1) consider "s = netconf_prefix @ r" | "butlast s = netconf_prefix @ butlast r" | "s = netconf_prefix @ butlast r"
    by (auto simp: beside_def b)
  then show ?thesis
  proof cases
    case 2
    then have "take 3 (butlast s) = netconf_prefix" by (simp add: netconf_prefix_def)
    then show ?thesis by (auto simp: butlast_conv_take min_def netconf_prefix_def split: if_splits dest: arg_cong [where f = length])
  qed (simp_all add: netconf_prefix_def)
qed

lemma beside_ntp:
  assumes "beside p s" "take 2 p = [''system'', ''ntp'']" "length p \<ge> 4"
  shows "take 2 s = [''system'', ''ntp'']" "s \<noteq> []"
proof -
  have "take 2 s = take 2 p \<and> s \<noteq> []"
    using assms take_of_butlast [of s p 2] by (auto simp: beside_def butlast_conv_take)
  with assms(2) show "take 2 s = [''system'', ''ntp'']" "s \<noteq> []" by auto
qed

text \<open>The paths that one line sets or deletes are not guarded.\<close>

lemma accepted_set:
  assumes "allow_check U a l = None" "''['' \<notin> set (split_tokens l)" "hd (split_tokens l) = ''set''"
    "q \<in> set (expand_brackets (tl (split_tokens l)))" "beside q s"
  shows "\<not> guarded_path (al_login a) s"
  using assms(1)
proof (rule accepted)
  let ?p = "tl (split_tokens l)"
  have sp: "statement_path (split_tokens l) = ?p" using assms(3) by (simp add: statement_path_def)
  have nb: "''['' \<notin> set ?p" using assms(2) by (cases "split_tokens l") auto
  assume tr: "trim_space l = l"
    and "netconf_statement (statement_path (split_tokens l)) \<and> netconf_allowed a l \<or>
     absent_allowed a (hd (split_tokens l)) (statement_path (split_tokens l)) \<or>
     \<not> never_path (al_login a) (statement_path (split_tokens l)) \<and>
       (\<forall>q \<in> set (expand_brackets (statement_path (split_tokens l))). hierarchy a l (hd (split_tokens l)) q = None)"
  then consider "netconf_allowed a l" | "\<not> never_path (al_login a) ?p"
    using assms(3) by (auto simp: sp elim: absent_allowed_path)
  then show ?thesis
  proof cases
    case 1
    from 1 tr obtain r where r: "?p = netconf_prefix @ r" "r \<noteq> []"
      by (rule netconf_allowed_path) (use assms(3) in auto)
    with assms(4) nb have "q = ?p" by (auto simp: no_list netconf_prefix_def elim!: split_leaves_cases)
    with assms(5) r have "take 3 s = netconf_prefix" using beside_netconf by metis
    then show ?thesis by (intro not_guarded_open [of "''netconf''"]) (simp_all add: open_services_eq netconf_prefix_def)
  next
    case 2
    from assms(4) nb have "q \<in> set (split_leaves ?p)" by (simp add: no_list)
    then show ?thesis
    proof (rule split_leaves_cases)
      assume "q = ?p"
      with never_beside [OF 2] assms(5) show ?thesis by (intro not_guarded_never) auto
    next
      fix r assume r: "length ?p \<ge> 5" "take 2 ?p = [''system'', ''ntp'']" "r \<noteq> []" "q = take 4 ?p @ r"
      then have "take 2 q = [''system'', ''ntp'']" "length q \<ge> 4" by simp_all
      with beside_ntp [OF assms(5)] show ?thesis by (intro not_guarded_head) auto
    qed
  qed
qed

lemma accepted_delete:
  assumes "allow_check U a l = None" "''['' \<notin> set (split_tokens l)" "hd (split_tokens l) = ''delete''"
    "within (tl (split_tokens l)) s"
  shows "\<not> guarded_path (al_login a) s"
  using assms(1)
proof (rule accepted)
  let ?p = "tl (split_tokens l)"
  have sp: "statement_path (split_tokens l) = ?p" using assms(3) by (simp add: statement_path_def)
  have nb: "''['' \<notin> set ?p" using assms(2) by (cases "split_tokens l") auto
  have whole: "\<not> guarded_path (al_login a) s" if "?p = [''system'', ''services'', x]" "x \<in> set open_services" for x
  proof -
    have "\<not> flagged ?p" using that by (auto simp: flagged_def junos_flags_def open_services_eq)
    with assms(4) that(1) have "take 3 s = [''system'', ''services'', x]" by (simp add: within_def numeral_eq_Suc)
    then show ?thesis by (rule not_guarded_open [OF that(2)])
  qed
  assume tr: "trim_space l = l"
    and "netconf_statement (statement_path (split_tokens l)) \<and> netconf_allowed a l \<or>
     absent_allowed a (hd (split_tokens l)) (statement_path (split_tokens l)) \<or>
     \<not> never_path (al_login a) (statement_path (split_tokens l)) \<and>
       (\<forall>q \<in> set (expand_brackets (statement_path (split_tokens l))). hierarchy a l (hd (split_tokens l)) q = None)"
  then consider "netconf_allowed a l" | "absent_allowed a ''delete'' ?p"
    | "\<not> never_path (al_login a) ?p" "\<forall>q \<in> set (expand_brackets ?p). hierarchy a l ''delete'' q = None"
    using assms(3) by (auto simp: sp)
  then show ?thesis
  proof cases
    case 1
    from 1 tr have "?p = netconf_prefix" by (rule netconf_allowed_path) (use assms(3) in auto)
    with whole [of "''netconf''"] show ?thesis by (simp add: netconf_prefix_def open_services_eq)
  next
    case 2
    then show ?thesis using whole by (auto elim: absent_allowed_path)
  next
    case 3
    with never_within [OF 3(1) nb 3(2) _ assms(4)] show ?thesis by (intro not_guarded_never) simp
  qed
qed

lemma accepted_line_frame:
  assumes "allow_check U a l = None" "''['' \<notin> set (split_tokens l)"
  shows "filter (\<lambda>s. guarded_path (al_login a) (js_path s)) (snd (apply_line c l)) =
    filter (\<lambda>s. guarded_path (al_login a) (js_path s)) c"
proof -
  let ?t = "split_tokens l"
  have "\<not> guarded_path (al_login a) s" if "length t = 10" "hd t = ''firewall''" "take 7 s = take 7 t" for s t :: "string list"
    using that by (intro not_guarded_head) (cases s; cases t; auto)+
  then have i: "filter (\<lambda>s. guarded_path (al_login a) (js_path s)) (snd (insert_term c (tl ?t))) =
      filter (\<lambda>s. guarded_path (al_login a) (js_path s)) c"
    by (intro insert_frame)
  have d: "filter (\<lambda>s. guarded_path (al_login a) (js_path s)) (delete_stmts c (tl ?t)) =
      filter (\<lambda>s. guarded_path (al_login a) (js_path s)) c" if "hd ?t = ''delete''"
    using accepted_delete [OF assms that] by (intro delete_frame)
  have s: "filter (\<lambda>s. guarded_path (al_login a) (js_path s)) (foldl set_stmt c (expand_brackets (tl ?t))) =
      filter (\<lambda>s. guarded_path (al_login a) (js_path s)) c" if "hd ?t = ''set''"
    using accepted_set [OF assms that] by (intro sets_frame)
  show ?thesis using i d s by (simp add: apply_line_def Let_def)
qed

lemma accepted_lines_frame:
  assumes "\<forall>l \<in> set ls. allow_check U (A l) (l_text l) = None \<and> al_login (A l) = login \<and> ''['' \<notin> set (split_tokens (l_text l))"
  shows "filter (\<lambda>s. guarded_path login (js_path s)) (snd (junos_apply c ls)) = filter (\<lambda>s. guarded_path login (js_path s)) c"
  using assms
proof (induction ls arbitrary: c)
  case (Cons l ls)
  then have "filter (\<lambda>s. guarded_path login (js_path s)) (snd (apply_line c (l_text l))) =
      filter (\<lambda>s. guarded_path login (js_path s)) c"
    using accepted_line_frame [of U "A l" "l_text l" c] by auto
  with Cons show ?case by (auto split: prod.splits option.splits)
qed simp

text \<open>C1: Whatever configuration a device has, a delta that the allow-list admits (its lines without value lists),
  typed on it line by line, leaves every protected statement as it was and in its place among the others: the
  root account, the interfaces, the configuration groups, the authentication and uid of every local user, the whole of
  the user that applies it, and every service but NETCONF and those the tables require to be absent.\<close>

theorem allowed_delta_keeps_credentials:
  assumes "allow_check_delta U a d = None" "\<forall>l \<in> set (d_lines d). ''['' \<notin> set (split_tokens (l_text l))"
  shows "filter (\<lambda>s. guarded_path (al_login a) (js_path s)) (snd (junos_apply c (d_lines d))) =
    filter (\<lambda>s. guarded_path (al_login a) (js_path s)) c"
proof -
  have "allow_check U (delta_allow a d) (l_text l) = None" if "check_lines U (delta_allow a d) i ls = None" "l \<in> set ls" for i l ls
    using that by (induction ls arbitrary: i) (auto split: if_splits option.splits)
  with assms have "\<forall>l \<in> set (d_lines d). allow_check U (delta_allow a d) (l_text l) = None \<and>
      al_login (delta_allow a d) = al_login a \<and> ''['' \<notin> set (split_tokens (l_text l))"
    by (auto simp: allow_check_delta_def delta_allow_def split: if_splits)
  then show ?thesis by (rule accepted_lines_frame)
qed

section \<open>The plan\<close>

text \<open>A statement under an owned row of a planned section, its object one the rendering names.\<close>

definition row_admits :: "allow \<Rightarrow> string list \<Rightarrow> jrow \<Rightarrow> bool" where
  "row_admits a p j \<longleftrightarrow> or_mode (jr_row j) \<noteq> ModeAbsent \<and>
     (case match_prefix (or_pattern (jr_row j)) p of
        None \<Rightarrow> False
      | Some name \<Rightarrow> name = None \<or> al_expected a = None \<or> the name \<in> set (jr_names j))"

definition in_rows :: "allow \<Rightarrow> string list \<Rightarrow> bool" where
  "in_rows a p \<longleftrightarrow> list_ex (\<lambda>n. list_ex (row_admits a p) (junos_rows n (expected_of a n))) (planned_sections a)"

text \<open>The statements that the planned sections of the rendering set.\<close>

definition emitted_paths :: "allow \<Rightarrow> string list list" where
  "emitted_paths a =
     concat (map (\<lambda>e. concat (map (\<lambda>raw. expand_brackets (tl (split_tokens raw))) (rs_lines e)))
       (filter (\<lambda>e. rs_name e \<in> set (planned_sections a)) (expected_sections a)))"

definition open_service :: "allow \<Rightarrow> string list \<Rightarrow> bool" where
  "open_service a s \<longleftrightarrow> take 3 s = netconf_prefix \<and> section_planned a ''netconf'' \<and> last_section a ''netconf'' \<noteq> None \<or>
     absent_allowed a ''delete'' (take 3 s)"

definition plan_reaches :: "allow \<Rightarrow> string list \<Rightarrow> bool" where
  "plan_reaches a s \<longleftrightarrow> in_rows a s \<or> (\<exists>f \<in> junos_flags. in_rows a (s @ [f])) \<or>
     list_ex (\<lambda>q. beside q s) (emitted_paths a) \<or> open_service a s"

lemma in_rows_extends:
  assumes "in_rows a p" "take (length p) s = p"
  shows "in_rows a s"
proof -
  from assms(1) obtain n j where j: "n \<in> set (planned_sections a)" "j \<in> set (junos_rows n (expected_of a n))" "row_admits a p j"
    by (auto simp: in_rows_def list_ex_iff)
  then obtain m where "match_prefix (or_pattern (jr_row j)) p = Some m" by (auto simp: row_admits_def split: option.splits)
  with match_prefix_extends [OF this assms(2)] j(3) have "row_admits a s j" by (simp add: row_admits_def)
  with j(1,2) show ?thesis by (auto simp: in_rows_def list_ex_iff)
qed

lemma in_rows_beside:
  assumes "in_rows a p" "beside p s"
  shows "in_rows a s \<or> (\<exists>f \<in> junos_flags. in_rows a (s @ [f]))"
proof -
  from assms(2) consider "s = p" | "flagged p" "s = butlast p" | "single_valued p" "length s = length p" "butlast s = butlast p"
    by (auto simp: beside_def)
  then show ?thesis
  proof cases
    case 2
    then have "p = s @ [last p]" "last p \<in> junos_flags" by (cases p rule: rev_cases; simp add: flagged_def)+
    with assms(1) show ?thesis by metis
  next
    case 3
    obtain k where k: "k \<in> set junos_single_keys" "length p = Suc (length k)" "fits k p" using single_valued_key [OF 3(1)] .
    from assms(1) obtain n j where j: "n \<in> set (planned_sections a)" "j \<in> set (junos_rows n (expected_of a n))" "row_admits a p j"
      by (auto simp: in_rows_def list_ex_iff)
    then obtain m where m: "match_prefix (or_pattern (jr_row j)) p = Some m" by (auto simp: row_admits_def split: option.splits)
    note f = match_prefix_fits [OF m]
    have "length (or_pattern (jr_row j)) < length p"
    proof (rule ccontr)
      assume "\<not> length (or_pattern (jr_row j)) < length p"
      with fits_length [OF f] k(2) have "length (or_pattern (jr_row j)) = Suc (length k)" by simp
      moreover have "compat k (or_pattern (jr_row j))" by (rule fits_compat [OF k(3) f refl, of "length k"]) simp
      ultimately show False using keys_beside_rows k(1) junos_row_owned [OF j(2)] by (auto simp: list_all_iff)
    qed
    then have "match_prefix (or_pattern (jr_row j)) s = match_prefix (or_pattern (jr_row j)) p"
      using 3 by (intro match_prefix_butlast)
    with j have "row_admits a s j" by (simp add: row_admits_def)
    with j show ?thesis by (auto simp: in_rows_def list_ex_iff)
  qed (use assms in auto)
qed

lemma hierarchy_in_rows: "hierarchy a l verb q = None \<Longrightarrow> in_rows a q \<or> verb = ''set'' \<and> emitted_line a l"
  by (erule hierarchy_cases) (auto simp: in_rows_def list_ex_iff row_admits_def elim!: row_holds intro!: bexI)

lemma netconf_no_list:
  assumes "netconf_allowed a l" "trim_space l = l"
  shows "''['' \<notin> set (tl (split_tokens l))"
proof -
  let ?p = "tl (split_tokens l)"
  have digits: "w \<noteq> ''[''" if "netconf_limit w" for w
  proof
    assume "w = ''[''"
    with that obtain n where "itoa n = ''[''" by (auto simp: netconf_limit_def split: option.splits)
    then have "is_digit (CHR ''['')" using itoa_digits by (metis list.set_intros(1))
    then show False by (simp add: is_digit_def)
  qed
  have parts: "w \<in> set (take 3 ?p) \<or> (\<exists>i. 3 \<le> i \<and> i < length ?p \<and> w = ?p ! i)" if w: "w \<in> set ?p" for w
  proof -
    from w obtain i where i: "i < length ?p" "w = ?p ! i" by (auto simp: in_set_conv_nth)
    show ?thesis
    proof (cases "i < 3")
      case True
      with i have "i < length (take 3 ?p)" "take 3 ?p ! i = w" by simp_all
      then show ?thesis using nth_mem by metis
    next
      case False
      with i show ?thesis by (intro disjI2 exI [of _ i]) simp
    qed
  qed
  from assms have p: "take 3 ?p = netconf_prefix"
    "length ?p = 3 \<or> length ?p = 4 \<and> ?p ! 3 = ''ssh'' \<or>
     length ?p = 6 \<and> ?p ! 3 = ''ssh'' \<and> ?p ! 4 \<in> {''connection-limit'', ''rate-limit''} \<and> netconf_limit (?p ! 5)"
    by (auto simp: netconf_allowed_def netconf_statement_allowed_def netconf_statement_def Let_def split: if_splits)
  have "?p ! i \<noteq> ''[''" if "3 \<le> i" "i < length ?p" for i
  proof -
    from that p(2) have "i = 3 \<and> ?p ! 3 = ''ssh'' \<or> i = 4 \<and> ?p ! 4 \<in> {''connection-limit'', ''rate-limit''} \<or>
        i = 5 \<and> netconf_limit (?p ! 5)" by auto
    then show ?thesis using digits by auto
  qed
  with parts p(1) show ?thesis by (fastforce simp: netconf_prefix_def)
qed

lemma netconf_open: "netconf_allowed a l \<Longrightarrow> take 3 s = netconf_prefix \<Longrightarrow> plan_reaches a s"
  by (auto simp: netconf_allowed_def plan_reaches_def open_service_def split: if_splits option.splits)

lemma emitted_pathsI:
  "e \<in> set (expected_sections a) \<Longrightarrow> rs_name e \<in> set (planned_sections a) \<Longrightarrow> raw \<in> set (rs_lines e) \<Longrightarrow>
     q \<in> set (expand_brackets (tl (split_tokens raw))) \<Longrightarrow> q \<in> set (emitted_paths a)"
  by (auto simp: emitted_paths_def)

lemma plan_set:
  assumes "allow_check U a l = None" "hd (split_tokens l) = ''set''"
    "q \<in> set (expand_brackets (tl (split_tokens l)))" "beside q s"
  shows "plan_reaches a s"
  using assms(1)
proof (rule accepted)
  let ?p = "tl (split_tokens l)"
  have sp: "statement_path (split_tokens l) = ?p" using assms(2) by (simp add: statement_path_def)
  assume tr: "trim_space l = l"
    and "netconf_statement (statement_path (split_tokens l)) \<and> netconf_allowed a l \<or>
     absent_allowed a (hd (split_tokens l)) (statement_path (split_tokens l)) \<or>
     \<not> never_path (al_login a) (statement_path (split_tokens l)) \<and>
       (\<forall>q \<in> set (expand_brackets (statement_path (split_tokens l))). hierarchy a l (hd (split_tokens l)) q = None)"
  then consider "netconf_allowed a l" | "hierarchy a l ''set'' q = None"
    using assms(2,3) by (auto simp: sp elim: absent_allowed_path)
  then show ?thesis
  proof cases
    case 1
    from 1 tr obtain r where r: "?p = netconf_prefix @ r" "r \<noteq> []"
      by (rule netconf_allowed_path) (use assms(2) in auto)
    with assms(3) netconf_no_list [OF 1 tr] have "q = ?p" by (auto simp: no_list netconf_prefix_def elim!: split_leaves_cases)
    with assms(4) r have "take 3 s = netconf_prefix" using beside_netconf by metis
    then show ?thesis by (rule netconf_open [OF 1])
  next
    case 2
    from hierarchy_in_rows [OF this] show ?thesis
    proof
      assume "in_rows a q"
      from in_rows_beside [OF this assms(4)] show ?thesis by (auto simp: plan_reaches_def)
    next
      assume "''set'' = ''set'' \<and> emitted_line a l"
      then obtain n e raw where "n \<in> set (planned_sections a)" "e \<in> set (expected_sections a)" "rs_name e = n"
        "raw \<in> set (rs_lines e)" "split_tokens raw = split_tokens l"
        by (auto simp: emitted_line_def list_ex_iff)
      with assms(3) have "q \<in> set (emitted_paths a)" by (intro emitted_pathsI [of e _ raw]) auto
      with assms(4) show ?thesis by (auto simp: plan_reaches_def list_ex_iff)
    qed
  qed
qed

lemma plan_delete:
  assumes "allow_check U a l = None" "''['' \<notin> set (split_tokens l)" "hd (split_tokens l) = ''delete''"
    "within (tl (split_tokens l)) s"
  shows "plan_reaches a s"
  using assms(1)
proof (rule accepted)
  let ?p = "tl (split_tokens l)"
  have sp: "statement_path (split_tokens l) = ?p" using assms(3) by (simp add: statement_path_def)
  have nb: "''['' \<notin> set ?p" using assms(2) by (cases "split_tokens l") auto
  assume tr: "trim_space l = l"
    and "netconf_statement (statement_path (split_tokens l)) \<and> netconf_allowed a l \<or>
     absent_allowed a (hd (split_tokens l)) (statement_path (split_tokens l)) \<or>
     \<not> never_path (al_login a) (statement_path (split_tokens l)) \<and>
       (\<forall>q \<in> set (expand_brackets (statement_path (split_tokens l))). hierarchy a l (hd (split_tokens l)) q = None)"
  then consider "netconf_allowed a l" | "absent_allowed a ''delete'' ?p"
    | "\<forall>q \<in> set (split_leaves ?p). hierarchy a l ''delete'' q = None"
    using assms(3) by (auto simp: sp no_list [OF nb])
  then show ?thesis
  proof cases
    case 1
    from 1 tr have p: "?p = netconf_prefix" by (rule netconf_allowed_path) (use assms(3) in auto)
    then have "\<not> flagged ?p" by (simp add: flagged_def junos_flags_def netconf_prefix_def)
    with assms(4) p have "take 3 s = netconf_prefix" by (simp add: within_def netconf_prefix_def numeral_eq_Suc)
    then show ?thesis by (rule netconf_open [OF 1])
  next
    case 2
    then obtain x where x: "?p = [''system'', ''services'', x]" "x \<in> set open_services" by (rule absent_allowed_path)
    then have "\<not> flagged ?p" by (auto simp: flagged_def junos_flags_def open_services_eq)
    with assms(4) x have "take 3 s = ?p" by (simp add: within_def numeral_eq_Suc)
    with 2 show ?thesis by (simp add: plan_reaches_def open_service_def)
  next
    case 3
    obtain q where q: "q \<in> set (split_leaves ?p)" "take (length q) ?p = q" by (rule split_leaves_first)
    from 3 q(1) have "hierarchy a l ''delete'' q = None" by blast
    from hierarchy_in_rows [OF this] have "in_rows a q" by simp
    then have rows: "in_rows a ?p" by (rule in_rows_extends [OF _ q(2)])
    from assms(4) consider "take (length ?p) s = ?p" | "flagged ?p" "s = butlast ?p" by (auto simp: within_def)
    then show ?thesis
    proof cases
      case 1
      with rows show ?thesis by (auto simp: plan_reaches_def intro: in_rows_extends)
    next
      case 2
      then have "?p = s @ [last ?p]" "last ?p \<in> junos_flags" by (cases ?p rule: rev_cases; simp add: flagged_def)+
      with rows show ?thesis unfolding plan_reaches_def by metis
    qed
  qed
qed

lemma plan_insert:
  assumes "allow_check U a l = None" "''['' \<notin> set (split_tokens l)" "hd (split_tokens l) = ''insert''"
    "length (tl (split_tokens l)) = 10" "hd (tl (split_tokens l)) = ''firewall''" "take 7 s = take 7 (tl (split_tokens l))"
  shows "plan_reaches a s"
  using assms(1)
proof (rule accepted)
  let ?t = "split_tokens l"
  let ?p = "take 7 (tl ?t)"
  have "length ?t = 11" using assms(4) by simp
  then have sp: "statement_path ?t = ?p" using assms(3) by (simp add: statement_path_def)
  have nb: "''['' \<notin> set ?p" using assms(2) by (cases ?t) (auto dest: in_set_takeD)
  have "?p ! 0 = ''firewall''" using assms(4,5) by (cases "tl ?t") auto
  then have leaves: "split_leaves ?p = [?p]" by (simp add: split_leaves_def)
  assume tr: "trim_space l = l"
    and "netconf_statement (statement_path ?t) \<and> netconf_allowed a l \<or> absent_allowed a (hd ?t) (statement_path ?t) \<or>
     \<not> never_path (al_login a) (statement_path ?t) \<and>
       (\<forall>q \<in> set (expand_brackets (statement_path ?t)). hierarchy a l (hd ?t) q = None)"
  then consider "netconf_allowed a l" | "hierarchy a l ''insert'' ?p = None"
    using assms(3) leaves by (auto simp: sp no_list [OF nb] elim: absent_allowed_path)
  then have "in_rows a ?p"
  proof cases
    case 1
    then show ?thesis using tr by (rule netconf_allowed_path) (use assms(3) in auto)
  next
    case 2
    from hierarchy_in_rows [OF this] show ?thesis by simp
  qed
  then have "in_rows a s" by (rule in_rows_extends) (use assms(4,6) in simp)
  then show ?thesis by (simp add: plan_reaches_def)
qed

lemma plan_line_frame:
  assumes "allow_check U a l = None" "hd (split_tokens l) \<noteq> ''set'' \<longrightarrow> ''['' \<notin> set (split_tokens l)"
  shows "filter (\<lambda>s. \<not> plan_reaches a (js_path s)) (snd (apply_line c l)) = filter (\<lambda>s. \<not> plan_reaches a (js_path s)) c"
proof -
  let ?t = "split_tokens l" and ?K = "\<lambda>p. \<not> plan_reaches a p"
  have i: "filter (\<lambda>s. ?K (js_path s)) (snd (insert_term c (tl ?t))) = filter (\<lambda>s. ?K (js_path s)) c" if "hd ?t = ''insert''"
    using plan_insert [OF assms(1) _ that] assms(2) that by (intro insert_frame [where K = ?K]) simp
  have d: "filter (\<lambda>s. ?K (js_path s)) (delete_stmts c (tl ?t)) = filter (\<lambda>s. ?K (js_path s)) c" if "hd ?t = ''delete''"
    using plan_delete [OF assms(1) _ that] assms(2) that by (intro delete_frame [where K = ?K]) simp
  have s: "filter (\<lambda>s. ?K (js_path s)) (foldl set_stmt c (expand_brackets (tl ?t))) = filter (\<lambda>s. ?K (js_path s)) c"
    if "hd ?t = ''set''"
    using plan_set [OF assms(1) that] by (intro sets_frame [where K = ?K]) simp
  show ?thesis using i d s by (auto simp: apply_line_def Let_def)
qed

text \<open>C10: Whatever configuration a device has, a delta that the allow-list admits (its deletes and inserts without
  value lists), typed on it line by line, changes only what is the plan's: a statement that is not under an owned row of a
  planned section with an object the rendering names, is not rendered (nor another value of a rendered leaf, nor the
  entry of a rendered flag) and is no service the rendering states stays as it was, in its place among the others.\<close>

theorem allowed_delta_stays_in_plan:
  assumes "allow_check_delta U a d = None"
    "\<forall>l \<in> set (d_lines d). hd (split_tokens (l_text l)) \<noteq> ''set'' \<longrightarrow> ''['' \<notin> set (split_tokens (l_text l))"
  shows "filter (\<lambda>s. \<not> plan_reaches (delta_allow a d) (js_path s)) (snd (junos_apply c (d_lines d))) =
    filter (\<lambda>s. \<not> plan_reaches (delta_allow a d) (js_path s)) c"
proof -
  let ?K = "\<lambda>s. \<not> plan_reaches (delta_allow a d) (js_path s)"
  have lines: "filter ?K (snd (junos_apply c ls)) = filter ?K c"
    if "check_lines U (delta_allow a d) i ls = None" "set ls \<subseteq> set (d_lines d)" for i ls
    using that
  proof (induction ls arbitrary: i c)
    case (Cons l ls)
    then have "allow_check U (delta_allow a d) (l_text l) = None" "check_lines U (delta_allow a d) (Suc i) ls = None"
      by (auto split: if_splits option.splits)
    moreover from this(1) Cons.prems assms(2) have "filter ?K (snd (apply_line c (l_text l))) = filter ?K c"
      by (intro plan_line_frame) auto
    ultimately show ?case using Cons by (auto split: prod.splits option.splits)
  qed simp
  with assms(1) show ?thesis by (auto simp: allow_check_delta_def split: if_splits)
qed

end
