(* ===== verification/PlanWitness.thy ===== *)
theory PlanWitness
  imports PlanAllowProps ApplyProps
begin

text \<open>
  The allow-list and the transaction together, concrete deltas on which the theorems apply, and two statements the
  allow-list lets through although no row admits them.
\<close>

section \<open>The held session\<close>

definition loaded_lines :: "event list \<Rightarrow> line list" where
  "loaded_lines evs = List.map_filter (\<lambda>e. case e of Typed (TLoad l) b \<Rightarrow> Some l | _ \<Rightarrow> None) evs"

lemma loaded_line_at:
  assumes "l \<in> set (loaded_lines evs)"
  obtains xs b ys where "evs = xs @ Typed (TLoad l) b # ys"
proof -
  from assms obtain b where "Typed (TLoad l) b \<in> set evs"
    by (auto simp: loaded_lines_def List.map_filter_def split: event.splits cmd.splits)
  with that show thesis by (auto dest!: split_list)
qed

text \<open>C2: A transaction whose allow-list is \<open>Allow\<close> with the rendering and the login never types a statement
  that touches a protected one: whatever the device, the planner and the callbacks answer, and wherever the transaction
  stops, the statements loaded into the session (those without value lists), applied to any configuration, leave its
  credentials, interfaces, groups and the applying user as they were.\<close>

theorem session_keeps_credentials:
  assumes "\<And>d cls t. e_allow E d cls t \<Longrightarrow> allow_check U (delta_allow (A\<lparr>al_class := cls\<rparr>) d) t = None"
    and "\<forall>l \<in> set (loaded_lines (r_log (run_transaction E reviewed w))). ''['' \<notin> set (split_tokens (l_text l))"
  shows "filter (\<lambda>s. guarded_path (al_login A) (js_path s))
      (snd (junos_apply c (loaded_lines (r_log (run_transaction E reviewed w))))) =
    filter (\<lambda>s. guarded_path (al_login A) (js_path s)) c"
proof -
  let ?r = "run_transaction E reviewed w"
  let ?A = "\<lambda>d. delta_allow (A\<lparr>al_class := login_class E ?r\<rparr>) d"
  have "\<exists>d. allow_check U (?A d) (l_text l) = None" if l: "l \<in> set (loaded_lines (r_log ?r))" for l
  proof -
    obtain xs b ys where log: "r_log ?r = xs @ Typed (TLoad l) b # ys" using loaded_line_at [OF l] .
    from run_has_path [of E reviewed w] obtain ph where
      "path (\<lambda>d l. e_allow E d (login_class E ?r) (l_text l)) (r_id ?r) (r_log ?r) ph" by blast
    from path_prefix [OF this log] path_in_order
    have "in_order (\<lambda>d l. e_allow E d (login_class E ?r) (l_text l)) (r_id ?r) xs (TLoad l)" by blast
    with assms(1) show ?thesis by auto
  qed
  then obtain f where "\<forall>l \<in> set (loaded_lines (r_log ?r)). allow_check U (?A (f l)) (l_text l) = None" by metis
  with assms(2) show ?thesis
    by (intro accepted_lines_frame [where A = "\<lambda>l. ?A (f l)" and U = U]) (auto simp: delta_allow_def)
qed

section \<open>A concrete rendering\<close>

definition plain_letters :: unicode where
  "plain_letters = \<lparr>u_plain = (\<lambda>_. True), u_lower = id\<rparr>"

definition lab_sections :: "rendered_section list" where
  "lab_sections =
    [no_section\<lparr>rs_name := ''roles'', rs_lines := [''set system login class NET-OPS permissions view'']\<rparr>,
     no_section\<lparr>rs_name := ''system'', rs_lines := [''set system host-name r1'']\<rparr>]"

definition lab_allow :: allow where
  "lab_allow = \<lparr>al_vendor = ''junos'', al_sections = None, al_expected = Some lab_sections, al_login = ''ann'', al_class = []\<rparr>"

definition roles_delta :: delta where
  "roles_delta = \<lparr>d_vendor = ''junos'',
     d_lines = [\<lparr>l_section = ''roles'', l_op = OpSet, l_text = ''set system login class NET-OPS permissions view'', l_context = []\<rparr>,
       \<lparr>l_section = ''roles'', l_op = OpDelete, l_text = ''delete system login class NET-OPS allow-commands'', l_context = []\<rparr>],
     d_sections = [(''roles'', ''planned'')], d_placeholders = 0\<rparr>"

lemma junos_vendor: "family_junos plain_letters ''junos''"
proof -
  have "trim_space ''junos'' = ''junos''" by (simp add: trim_space_plain plain_char_def)
  moreover have "to_lower plain_letters ''junos'' = ''junos''" by code_simp
  ultimately show ?thesis by (simp add: family_junos_def)
qed

text \<open>The parts of the check that need no table, for a line of words.\<close>

lemma check_of_words:
  assumes "family_junos U (al_vendor a)" "l \<noteq> []" "plain_char (hd l)" "plain_char (last l)" "\<not> has_prefix l ''#''"
    "\<not> list_ex (\<lambda>c. c = CHR 0x0D \<or> c = CHR 0x0A \<or> c = CHR 0x09) l" "\<not> bare_structure False l"
    "\<not> quote_outside False False l" "\<not> has_mark l" "\<not> contains_text l ''<SECRET>''"
    "split_tokens l = verb # p" "p \<noteq> []" "verb \<in> {''set'', ''delete''}"
  shows "allow_check U a l = check_path a l verb p"
  using assms trim_space_led(2) [OF assms(2-4)]
  by (auto simp: allow_check_def junos_statement_ok_def Let_def statement_path_def)

lemma never_match_words:
  assumes "l \<noteq> []" "plain_char (hd l)" "plain_char (last l)"
    "list_all (\<lambda>r. nr_family r = ''junos'' \<longrightarrow>
       \<not> ((without_verb l = nr_prefix r \<or> has_prefix (without_verb l) (nr_prefix r @ '' '')) \<and>
         contains_text ('' '' @ without_verb l @ '' '') (nr_contains r))) never_emitted"
  shows "never_match ''junos'' [] None [] l = None"
proof -
  have "first_where (never_row_matches ''junos'' [] l (without_verb l)) never_emitted = None"
    using assms(4) by (auto simp: first_where_None never_row_matches_def list_all_iff)
  then show ?thesis by (simp add: never_match_def trim_space_led(2) [OF assms(1-3)] Let_def)
qed

lemma hierarchy_holds:
  assumes "or_section r \<in> set (planned_sections a)" "r \<in> set junos_owned"
    "row_answer a verb q (junos_row (expected_of a (or_section r)) r) = Holds"
  shows "hierarchy a l verb q = None"
proof -
  have "junos_row (expected_of a (or_section r)) r \<in> set (junos_rows (or_section r) (expected_of a (or_section r)))"
    using assms(2) by (auto simp: junos_rows_def)
  with assms(1,3) have "Holds \<in> set (row_answers a verb q)" by (force simp: row_answers_def)
  then show ?thesis by (simp add: hierarchy_def)
qed

abbreviation class_line :: string where
  "class_line \<equiv> ''set system login class NET-OPS permissions view''"

abbreviation class_delete :: string where
  "class_delete \<equiv> ''delete system login class NET-OPS allow-commands''"

abbreviation class_row :: owned_row where
  "class_row \<equiv> orow ''junos.roles.class'' ''roles'' [''system'', ''login'', ''class'', ''$''] ModeWhole 0 False"

lemma class_words:
  "split_tokens class_line = [''set'', ''system'', ''login'', ''class'', ''NET-OPS'', ''permissions'', ''view'']"
  "split_tokens class_delete = [''delete'', ''system'', ''login'', ''class'', ''NET-OPS'', ''allow-commands'']"
  by (simp_all add: split_tokens_def written_runes_ascii flush_word_def)

lemma class_row_name:
  "al_expected a = Some lab_sections \<Longrightarrow> expected_of a ''roles'' = hd lab_sections"
  "''NET-OPS'' \<in> set (jr_names (junos_row (hd lab_sections) class_row))"
proof -
  show "al_expected a = Some lab_sections \<Longrightarrow> expected_of a ''roles'' = hd lab_sections"
    by (simp add: expected_of_def last_section_def expected_sections_def lab_sections_def no_section_def)
  have "trim_space class_line = class_line" by (intro trim_space_led) (simp_all add: plain_char_def)
  then have "set_path class_line = Some [''system'', ''login'', ''class'', ''NET-OPS'', ''permissions'', ''view'']"
    by (simp add: set_path_def class_words)
  then show "''NET-OPS'' \<in> set (jr_names (junos_row (hd lab_sections) class_row))"
    by (simp add: junos_row_def Let_def row_statements_def lab_sections_def no_section_def orow_def from_block_def
        match_prefix_def List.map_filter_def)
qed

lemma class_holds:
  assumes "al_expected a = Some lab_sections" "section_planned a ''roles''"
    "q = [''system'', ''login'', ''class'', ''NET-OPS''] @ r" "r \<noteq> []"
  shows "hierarchy a l verb q = None"
proof (rule hierarchy_holds [of class_row])
  show "or_section class_row \<in> set (planned_sections a)"
    using assms(2) by (simp add: orow_def planned_sections_def junos_plan_order_def)
  show "class_row \<in> set junos_owned" by (simp add: junos_owned_def roles_rows_def)
  have "row_answer a verb q (junos_row (hd lab_sections) class_row) = Holds"
    using class_row_name(2) assms
    by (cases r) (simp_all add: row_answer_def junos_row_def Let_def orow_def match_prefix_def)
  then show "row_answer a verb q (junos_row (expected_of a (or_section class_row)) class_row) = Holds"
    by (simp add: orow_def class_row_name(1) [OF assms(1), unfolded orow_def])
qed

lemma class_line_checks:
  "\<not> has_prefix class_line ''#''" "\<not> list_ex (\<lambda>c. c = CHR 0x0D \<or> c = CHR 0x0A \<or> c = CHR 0x09) class_line"
  "\<not> bare_structure False class_line" "\<not> quote_outside False False class_line" "\<not> has_mark class_line"
  "\<not> contains_text class_line ''<SECRET>''"
  by (simp_all add: mark_at_def has_prefix_def)

lemma class_delete_checks:
  "\<not> has_prefix class_delete ''#''" "\<not> list_ex (\<lambda>c. c = CHR 0x0D \<or> c = CHR 0x0A \<or> c = CHR 0x09) class_delete"
  "\<not> bare_structure False class_delete" "\<not> quote_outside False False class_delete" "\<not> has_mark class_delete"
  "\<not> contains_text class_delete ''<SECRET>''"
  by (simp_all add: mark_at_def has_prefix_def)

lemma class_not_never:
  "never_match ''junos'' [] None [] class_line = None" "never_match ''junos'' [] None [] class_delete = None"
proof -
  show "never_match ''junos'' [] None [] class_line = None"
    by (intro never_match_words) (simp, simp add: plain_char_def, simp add: plain_char_def, code_simp)
  show "never_match ''junos'' [] None [] class_delete = None"
    by (intro never_match_words) (simp, simp add: plain_char_def, simp add: plain_char_def, code_simp)
qed

lemma class_lines_accepted:
  "allow_check plain_letters (delta_allow lab_allow roles_delta) class_line = None"
  "allow_check plain_letters (delta_allow lab_allow roles_delta) class_delete = None"
proof -
  let ?a = "delta_allow lab_allow roles_delta"
  have v: "family_junos plain_letters (al_vendor ?a)" by (simp add: delta_allow_def roles_delta_def junos_vendor)
  have u: "al_login ?a = ''ann''" "al_class ?a = []" by (simp_all add: delta_allow_def lab_allow_def)
  have e: "al_expected ?a = Some lab_sections" "section_planned ?a ''roles''"
    by (simp_all add: delta_allow_def lab_allow_def section_planned_def roles_delta_def delta_planned_def)
  have paths: "netconf_statement p = False" "never_hierarchy_of p = None" "login_object ''user'' ''ann'' p = False"
    "login_object ''class'' [] p = False" "abbreviated p = None" "expand_brackets p = [p]"
    if "p = [''system'', ''login'', ''class'', ''NET-OPS'', ''permissions'', ''view''] \<or>
        p = [''system'', ''login'', ''class'', ''NET-OPS'', ''allow-commands'']" for p
    using that by (elim disjE; hypsubst; code_simp)+
  have h: "hierarchy ?a l v ([''system'', ''login'', ''class'', ''NET-OPS'', ''permissions'', ''view'']) = None"
    "hierarchy ?a l v ([''system'', ''login'', ''class'', ''NET-OPS'', ''allow-commands'']) = None" for l v
    using class_holds [of ?a _ "[''permissions'', ''view'']"] class_holds [of ?a _ "[''allow-commands'']"] e by simp_all
  have "allow_check plain_letters ?a class_line = check_path ?a class_line ''set'' [''system'', ''login'', ''class'', ''NET-OPS'', ''permissions'', ''view'']"
    using v class_line_checks class_words by (intro check_of_words) (simp_all add: plain_char_def)
  also have "\<dots> = None"
    using paths [OF disjI1 [OF refl]] h(1) class_not_never(1) u
    by (simp add: check_path_def absent_allowed_def first_some_def first_where_def)
  finally show "allow_check plain_letters ?a class_line = None" .
  have "allow_check plain_letters ?a class_delete = check_path ?a class_delete ''delete'' [''system'', ''login'', ''class'', ''NET-OPS'', ''allow-commands'']"
    using v class_delete_checks class_words by (intro check_of_words) (simp_all add: plain_char_def)
  also have "\<dots> = None"
    using paths [OF disjI2 [OF refl]] h(2) class_not_never(2) u
    by (simp add: check_path_def absent_allowed_def first_some_def first_where_def)
  finally show "allow_check plain_letters ?a class_delete = None" .
qed

section \<open>The theorems applied\<close>

definition lab_config :: "jstmt list" where
  "lab_config =
    [set_jstmt [''system'', ''login'', ''user'', ''ann'', ''authentication'', ''ssh-rsa'', ''AAAA''],
     set_jstmt [''system'', ''login'', ''class'', ''NET-OPS'', ''allow-commands'', ''show .*''],
     set_jstmt [''system'', ''login'', ''class'', ''OTHER'', ''permissions'', ''all'']]"

lemma roles_delta_accepted:
  "allow_check_delta plain_letters lab_allow roles_delta = None"
  "\<forall>l \<in> set (d_lines roles_delta). ''['' \<notin> set (split_tokens (l_text l))"
proof -
  have "d_vendor roles_delta = ''junos''" "allow_ready (delta_allow lab_allow roles_delta)"
    "section_planned (delta_allow lab_allow roles_delta) ''roles''"
    by (simp_all add: roles_delta_def allow_ready_def delta_allow_def lab_allow_def expected_sections_def lab_sections_def
        section_planned_def delta_planned_def)
  moreover have "d_lines roles_delta = [\<lparr>l_section = ''roles'', l_op = OpSet, l_text = class_line, l_context = []\<rparr>,
      \<lparr>l_section = ''roles'', l_op = OpDelete, l_text = class_delete, l_context = []\<rparr>]"
    by (simp add: roles_delta_def)
  ultimately show "allow_check_delta plain_letters lab_allow roles_delta = None"
    "\<forall>l \<in> set (d_lines roles_delta). ''['' \<notin> set (split_tokens (l_text l))"
    using class_lines_accepted class_words by (simp_all add: allow_check_delta_def junos_vendor)
qed

theorem allowed_delta_keeps_credentials_witness:
  "filter (\<lambda>s. guarded_path ''ann'' (js_path s)) (snd (junos_apply lab_config (d_lines roles_delta))) =
     [set_jstmt [''system'', ''login'', ''user'', ''ann'', ''authentication'', ''ssh-rsa'', ''AAAA'']]"
proof -
  have "filter (\<lambda>s. guarded_path ''ann'' (js_path s)) lab_config =
      [set_jstmt [''system'', ''login'', ''user'', ''ann'', ''authentication'', ''ssh-rsa'', ''AAAA'']]" by code_simp
  with allowed_delta_keeps_credentials [OF roles_delta_accepted, of lab_config] show ?thesis
    by (simp add: lab_allow_def)
qed

theorem allowed_delta_stays_in_plan_witness:
  "filter (\<lambda>s. \<not> plan_reaches (delta_allow lab_allow roles_delta) (js_path s)) (snd (junos_apply lab_config (d_lines roles_delta))) =
     filter (\<lambda>s. \<not> plan_reaches (delta_allow lab_allow roles_delta) (js_path s)) lab_config"
  using allowed_delta_stays_in_plan [OF roles_delta_accepted(1), of lab_config] roles_delta_accepted(2) by blast

text \<open>A transaction that sets the rendered name of the device.\<close>

abbreviation name_line :: string where
  "name_line \<equiv> ''set system host-name r1''"

definition guarded_env :: "nat env" where
  "guarded_env = lab_env\<lparr>e_allow := \<lambda>d c t. d = lab_delta \<and> c = ''super'' \<and> t = name_line\<rparr>"

lemma name_line_accepted:
  "split_tokens name_line = [''set'', ''system'', ''host-name'', ''r1'']"
  "allow_check plain_letters (delta_allow (lab_allow\<lparr>al_class := ''super''\<rparr>) lab_delta) name_line = None"
proof -
  let ?a = "delta_allow (lab_allow\<lparr>al_class := ''super''\<rparr>) lab_delta" and ?p = "[''system'', ''host-name'', ''r1'']"
  show w: "split_tokens name_line = [''set'', ''system'', ''host-name'', ''r1'']"
    by (simp add: split_tokens_def written_runes_ascii flush_word_def)
  have v: "family_junos plain_letters (al_vendor ?a)" by (simp add: delta_allow_def lab_delta_def junos_vendor)
  have "\<not> has_prefix name_line ''#''" "\<not> list_ex (\<lambda>c. c = CHR 0x0D \<or> c = CHR 0x0A \<or> c = CHR 0x09) name_line"
    "\<not> bare_structure False name_line" "\<not> quote_outside False False name_line" "\<not> has_mark name_line"
    "\<not> contains_text name_line ''<SECRET>''"
    by (simp_all add: mark_at_def has_prefix_def)
  with v w have "allow_check plain_letters ?a name_line = check_path ?a name_line ''set'' ?p"
    by (intro check_of_words) (simp_all add: plain_char_def)
  also have "\<dots> = None"
  proof -
    have "never_match ''junos'' [] None [] name_line = None"
      by (intro never_match_words) (simp, simp add: plain_char_def, simp add: plain_char_def, code_simp)
    moreover have "netconf_statement ?p = False" "never_hierarchy_of ?p = None" "login_object ''user'' ''ann'' ?p = False"
      "login_object ''class'' ''super'' ?p = False" "abbreviated ?p = None" "expand_brackets ?p = [?p]"
      by code_simp+
    moreover have "emitted_line ?a name_line"
      using w by (simp add: emitted_line_def planned_sections_def junos_plan_order_def section_planned_def delta_allow_def
          lab_delta_def delta_planned_def expected_sections_def lab_allow_def lab_sections_def no_section_def)
    ultimately show ?thesis
      by (simp add: check_path_def absent_allowed_def first_some_def hierarchy_def Let_def delta_allow_def lab_allow_def)
  qed
  finally show "allow_check plain_letters ?a name_line = None" .
qed

lemma guarded_run_lines:
  "loaded_lines (r_log (run_transaction guarded_env (Some lab_delta) 0)) = d_lines lab_delta"
  by code_simp

theorem session_keeps_credentials_witness:
  "filter (\<lambda>s. guarded_path ''ann'' (js_path s)) (snd (junos_apply lab_config
       (loaded_lines (r_log (run_transaction guarded_env (Some lab_delta) 0))))) =
     [set_jstmt [''system'', ''login'', ''user'', ''ann'', ''authentication'', ''ssh-rsa'', ''AAAA'']]"
proof -
  have allow: "allow_check plain_letters (delta_allow (lab_allow\<lparr>al_class := cls\<rparr>) d) t = None"
    if "e_allow guarded_env d cls t" for d cls t
    using that name_line_accepted(2) by (simp add: guarded_env_def)
  have "\<forall>l \<in> set (loaded_lines (r_log (run_transaction guarded_env (Some lab_delta) 0))). ''['' \<notin> set (split_tokens (l_text l))"
    unfolding guarded_run_lines using name_line_accepted(1) by (simp add: lab_delta_def)
  from session_keeps_credentials [of guarded_env, OF allow this, of lab_config]
  have "filter (\<lambda>s. guarded_path ''ann'' (js_path s)) (snd (junos_apply lab_config
       (loaded_lines (r_log (run_transaction guarded_env (Some lab_delta) 0))))) =
      filter (\<lambda>s. guarded_path ''ann'' (js_path s)) lab_config" by (simp add: lab_allow_def)
  moreover have "filter (\<lambda>s. guarded_path ''ann'' (js_path s)) lab_config =
      [set_jstmt [''system'', ''login'', ''user'', ''ann'', ''authentication'', ''ssh-rsa'', ''AAAA'']]" by code_simp
  ultimately show ?thesis by simp
qed

section \<open>What a list of values lets through\<close>

text \<open>A list without values expands to no statement, so no row is asked: the line passes whatever the plan is.\<close>

lemma empty_list_passes:
  assumes "family_junos U (al_vendor a)"
  shows "allow_check U a ''delete firewall [ ]'' = None"
proof -
  let ?l = "''delete firewall [ ]''" and ?p = "[''firewall'', ''['', '']'']"
  have w: "split_tokens ?l = ''delete'' # ?p" by (simp add: split_tokens_def written_runes_ascii flush_word_def)
  have "\<not> has_prefix ?l ''#''" "\<not> list_ex (\<lambda>c. c = CHR 0x0D \<or> c = CHR 0x0A \<or> c = CHR 0x09) ?l"
    "\<not> bare_structure False ?l" "\<not> quote_outside False False ?l" "\<not> has_mark ?l" "\<not> contains_text ?l ''<SECRET>''"
    by (simp_all add: mark_at_def has_prefix_def)
  with assms w have "allow_check U a ?l = check_path a ?l ''delete'' ?p"
    by (intro check_of_words) (simp_all add: plain_char_def)
  moreover have "never_match ''junos'' [] None [] ?l = None"
    by (intro never_match_words) (simp, simp add: plain_char_def, simp add: plain_char_def, code_simp)
  moreover have "netconf_statement ?p = False" "never_hierarchy_of ?p = None" "abbreviated ?p = None" "expand_brackets ?p = []"
    by code_simp+
  moreover have "login_object k n ?p = False" for k n by (simp add: login_object_def)
  moreover have "absent_allowed a v ?p = False" for v by (simp add: absent_allowed_def numeral_eq_Suc)
  ultimately show ?thesis by (simp add: check_path_def first_some_def)
qed

text \<open>
  The guard of the login's own class reads the path before its lists are expanded: a class written as a list of one is
  not seen, although the statement is the same.
\<close>

lemma list_hides_own_class:
  "allow_check plain_letters (lab_allow\<lparr>al_class := ''NET-OPS''\<rparr>) ''set system login class NET-OPS permissions all'' = Some OwnClass"
  "allow_check plain_letters (lab_allow\<lparr>al_class := ''NET-OPS''\<rparr>) ''set system login class [ NET-OPS ] permissions all'' = None"
  "expand_brackets [''system'', ''login'', ''class'', ''['', ''NET-OPS'', '']'', ''permissions'', ''all''] =
     expand_brackets [''system'', ''login'', ''class'', ''NET-OPS'', ''permissions'', ''all'']"
proof -
  let ?a = "lab_allow\<lparr>al_class := ''NET-OPS''\<rparr>"
  let ?l = "''set system login class NET-OPS permissions all''" and ?m = "''set system login class [ NET-OPS ] permissions all''"
  let ?p = "[''system'', ''login'', ''class'', ''NET-OPS'', ''permissions'', ''all'']"
  let ?q = "[''system'', ''login'', ''class'', ''['', ''NET-OPS'', '']'', ''permissions'', ''all'']"
  have w: "split_tokens ?l = ''set'' # ?p" "split_tokens ?m = ''set'' # ?q"
    by (simp_all add: split_tokens_def written_runes_ascii flush_word_def)
  have v: "family_junos plain_letters (al_vendor ?a)" "al_login ?a = ''ann''" "al_class ?a = ''NET-OPS''"
    "al_expected ?a = Some lab_sections" "section_planned ?a ''roles''"
    by (simp_all add: lab_allow_def junos_vendor section_planned_def)
  have n: "never_match ''junos'' [] None [] ?l = None" "never_match ''junos'' [] None [] ?m = None"
  proof -
    show "never_match ''junos'' [] None [] ?l = None"
      by (intro never_match_words) (simp, simp add: plain_char_def, simp add: plain_char_def, code_simp)
    show "never_match ''junos'' [] None [] ?m = None"
      by (intro never_match_words) (simp, simp add: plain_char_def, simp add: plain_char_def, code_simp)
  qed
  have e: "expand_brackets ?q = [?p]" "expand_brackets ?p = [?p]" by code_simp+
  then show "expand_brackets ?q = expand_brackets ?p" by simp
  have "\<not> has_prefix ?l ''#''" "\<not> list_ex (\<lambda>c. c = CHR 0x0D \<or> c = CHR 0x0A \<or> c = CHR 0x09) ?l"
    "\<not> bare_structure False ?l" "\<not> quote_outside False False ?l" "\<not> has_mark ?l" "\<not> contains_text ?l ''<SECRET>''"
    by (simp_all add: mark_at_def has_prefix_def)
  with v w have "allow_check plain_letters ?a ?l = check_path ?a ?l ''set'' ?p"
    by (intro check_of_words) (simp_all add: plain_char_def)
  moreover have "rendered_keys ?a = [path_key [''system'', ''login'', ''class'', ''NET-OPS'', ''permissions'', ''view''],
      path_key [''system'', ''host-name'', ''r1'']]"
    using class_words(1) name_line_accepted(1)
    by (simp add: rendered_keys_def expected_sections_def v(4) lab_sections_def no_section_def no_list split_leaves_def)
  then have "\<not> rendered ?a ?l" using w(1) e(2) by (simp add: rendered_def path_key_def)
  moreover have "netconf_statement ?p = False" "never_hierarchy_of ?p = None" "login_object ''user'' ''ann'' ?p = False"
    "login_object ''class'' ''NET-OPS'' ?p" "abbreviated ?p = None" by code_simp+
  ultimately show "allow_check plain_letters ?a ?l = Some OwnClass"
    using n(1) v by (simp add: check_path_def absent_allowed_def)
  have "\<not> has_prefix ?m ''#''" "\<not> list_ex (\<lambda>c. c = CHR 0x0D \<or> c = CHR 0x0A \<or> c = CHR 0x09) ?m"
    "\<not> bare_structure False ?m" "\<not> quote_outside False False ?m" "\<not> has_mark ?m" "\<not> contains_text ?m ''<SECRET>''"
    by (simp_all add: mark_at_def has_prefix_def)
  with v w have "allow_check plain_letters ?a ?m = check_path ?a ?m ''set'' ?q"
    by (intro check_of_words) (simp_all add: plain_char_def)
  moreover have "hierarchy ?a ?m ''set'' ?p = None" using class_holds [OF v(4,5), of ?p "[''permissions'', ''all'']"] by simp
  moreover have "netconf_statement ?q = False" "never_hierarchy_of ?q = None" "login_object ''user'' ''ann'' ?q = False"
    "login_object ''class'' ''NET-OPS'' ?q = False" "abbreviated ?q = None" by code_simp+
  ultimately show "allow_check plain_letters ?a ?m = None"
    using n(2) v e(1) by (simp add: check_path_def absent_allowed_def first_some_def)
qed

end
