(* ===== verification/Spec2Isabelle.thy ===== *)
theory Spec2Isabelle
  imports
    StoreFile SnmpClients CidrProps Tier ModelViewProps ApplyProps MgmtAclProps
    ConfWitness PolicyProps UidWitness PlanWitness
begin

text \<open>
  A verification development for \<open>tacctl\<close> (Go), the tool that manages the users, groups and
  network scopes of TACACS+ and RADIUS servers and changes the configuration of the devices that use them.

  \<^bold>\<open>The program.\<close> Two files on the server are the truth: the store \<open>store.yaml\<close> (\<open>internal/store\<close>: users, groups,
  scopes with their prefixes, command filters) and \<open>tacctl.yaml\<close> (\<open>internal/conf\<close>: overrides of a defaults document,
  with records of lockdowns and break-glass holds). A command of the CLI is let through by the caller gate
  (\<open>internal/tier\<close>), changes one of the files under its lock, and the typed model (\<open>internal/model\<close>) is read from
  the store for the views and for the renderers of the daemons' files. Networks (\<open>internal/cidr\<close>), names
  (\<open>internal/names\<close>), hashes (\<open>internal/hash\<close>) and the management ACL (\<open>internal/mgmtacl\<close>) have packages of
  their own; \<open>internal/policy\<close> edits the rules of groups in \<open>tacctl.yaml\<close>. What reaches outside is the ledger
  of the numbers of users on Linux hosts (\<open>internal/hosts\<close>) and the transaction on a device
  (\<open>internal/devapply\<close>).

  \<^bold>\<open>Groundwork.\<close>
  \<^item> \<open>Prelude\<close>: the stable sort of Go's \<open>sort.SliceStable\<close>, whose contract is the locale \<open>strict_weak\<close>; it is
    interpreted on every order the program sorts by (\<open>routing_order\<close>, \<open>item_order\<close>, \<open>display_order\<close>, \<open>key_order\<close>,
    \<open>pair_order\<close>, \<open>service_order\<close>, \<open>acl_order\<close>, \<open>bytes_order\<close>). Lists and association lists.
  \<^item> \<open>GoStrings\<close>: the functions of \<open>strings\<close>, \<open>strconv\<close> and \<open>utf8\<close> that the sources use, on byte strings.
  \<^item> \<open>Yaml\<close>: the values of \<open>yamlpy/value.go\<close> and \<open>Equal\<close> of \<open>check.go\<close>. The ordered mapping is the contract
    \<open>ordered_map\<close>, interpreted on \<open>Map\<close>'s operations.
  \<^item> \<open>Names\<close>, \<open>NameFormats\<close>: \<open>internal/names\<close>, where a regular expression of the code is a recogniser, and the sizes
    of \<open>report_limits.go\<close> with their 64-bit wrap-around.
  \<^item> \<open>Hash\<close>: \<open>internal/hash/hash.go\<close>.

  \<^bold>\<open>Networks.\<close> \<open>Addr128\<close> (\<open>u128\<close>), \<open>Cidr\<close> (\<open>parse.go\<close>, \<open>cidr.go\<close>), \<open>NetSets\<close> (\<open>subtract.go\<close>), \<open>CidrLists\<close>
  (\<open>ParseList\<close>, \<open>shellquote/xargs.go\<close>), \<open>SnmpClients\<close> (\<open>snmp.go\<close>). The abstract specification of a network is the
  set of its addresses, \<open>net_addrs\<close>: containment is inclusion and subtraction is the difference of sets
  (\<open>NetSets\<close>, \<open>CidrProps\<close>, contract \<open>prefix_algebra\<close>); \<open>CidrRoundtrip\<close> shows that the canonical form parses back,
  \<open>CidrOrder\<close> what the two sort keys order.

  \<^bold>\<open>The store.\<close> A document is an ordered mapping, as in the code. \<open>Store\<close> (\<open>store.go\<close>, \<open>cidrs.go\<close>), \<open>StoreOps\<close>
  (\<open>ops.go\<close>: an operation gives the changed document and an error), \<open>StoreNormalize\<close> (\<open>normalize.go\<close>),
  \<open>StoreValidate\<close> (\<open>validate.go\<close>: a problem per message, in order), \<open>StoreFile\<close> (\<open>file.go\<close>: the file, a temporary
  file and a record of what the operating system answers). \<open>StoreOpsProps\<close>: the invariant \<open>wf_doc\<close> and the
  references across operations. \<open>StoreValid\<close>: what an accepted store guarantees. \<open>StoreCanon\<close>, \<open>StoreDisk\<close>: the canonical
  form and the form on disk are fixed points. \<open>StoreFile\<close>: a mutation replaces the file by a validated store or leaves it.

  \<^bold>\<open>The model.\<close> \<open>Model\<close> (\<open>model.go\<close>, \<open>lookup.go\<close>, \<open>lockdown.go\<close>, \<open>userscopes.go\<close>, \<open>breakglass.go\<close>,
  \<open>store/pyfmt.go\<close>) and \<open>ModelViews\<close> (\<open>views.go\<close>). \<open>ModelProps\<close>: which scope answers an address, and that carving the
  prefixes for a break-glass user does not change it. \<open>ModelViewProps\<close>: the model of a validated store satisfies
  what the routing theorems assume, so the two validators agree.

  \<^bold>\<open>The gate.\<close> \<open>Tier\<close> (\<open>tier.go\<close>): the table of rows, the sudoers drop-in printed from it and the gate that reads
  it. The drop-in never grants what the gate denies.

  \<^bold>\<open>The configuration.\<close> \<open>ConfDoc\<close> (\<open>config.go\<close>, the paths of \<open>write.go\<close>), \<open>ConfListener\<close> (\<open>listener.go\<close>),
  \<open>ConfSchema\<close> and \<open>ConfValidate\<close> (\<open>schema.go\<close>, \<open>validate.go\<close> and the files of single settings), \<open>ConfFile\<close> (the
  writes), \<open>ConfRollback\<close> (\<open>rollback.go\<close>), \<open>ConfRecords\<close> (\<open>lockdown.go\<close>, \<open>breakglass_hold.go\<close>, \<open>blocks.go\<close>).
  \<open>ConfDocProps\<close> holds the laws of dotted paths that the rest uses; \<open>ConfFileProps\<close> that an accepted change keeps a valid
  file valid, with \<open>ConfListenerProps\<close> for the rule that crosses keys; \<open>ConfRollbackProps\<close>, \<open>ConfRecordsProps\<close> and
  \<open>ConfHoldProps\<close> what is read back after a write; \<open>ConfWitness\<close> concrete documents.
  \<open>Policy\<close>, \<open>PolicySettings\<close> and \<open>PolicyProps\<close>: \<open>internal/policy\<close> on top of it, rules as lines.
  \<open>MgmtAcl\<close>, \<open>MgmtAclProps\<close>: \<open>internal/mgmtacl\<close>.

  \<^bold>\<open>The hosts.\<close> \<open>UidLedger\<close> (\<open>range.go\<close>, \<open>awk.go\<close>, \<open>uids.go\<close>, \<open>idmap.go\<close>, the pure parts of \<open>hosts.go\<close> and
  \<open>accounts.go\<close>), \<open>UidLedgerProps\<close> (the invariant \<open>sound_ledger\<close> over the step relation \<open>ledger_step\<close>) and
  \<open>UidWitness\<close>.

  \<^bold>\<open>The transaction.\<close> \<open>ApplyTypes\<close> (\<open>outcome.go\<close>, \<open>transport.go\<close>, \<open>choose.go\<close>, the pure part of the reconciliation, and
  the data of \<open>devconf/plan\<close>) and \<open>Apply\<close> (\<open>driver.go\<close>, \<open>reconcile.go\<close>), in continuation-passing style, where every
  early return drops what follows. \<open>ApplyProps\<close>: the log of every transaction is a path of an abstract protocol
  (\<open>inductive\<close>), and an exit tells what was typed and what it rests on.

  \<^bold>\<open>What a transaction may type.\<close> \<open>PlanTables\<close> (\<open>devconf/plan\<close>: the words of a statement in \<open>plan.go\<close>, the ownership
  table and the never list of \<open>owned.go\<close>, \<open>junosRows\<close> of \<open>junos.go\<close>, \<open>netconf.go\<close>), \<open>PlanAllow\<close> (\<open>allowed.go\<close>: the check of every line,
  with \<open>junosStatementOK\<close> of \<open>emit.go\<close> and the expansion of lists), \<open>JunosEdit\<close> (\<open>simulate.go\<close>: the configuration of a
  device as statements in order, and what \<open>set\<close>, \<open>delete\<close> and \<open>insert\<close> do to it). \<open>JunosEditProps\<close>: frames of the edits, and
  the words of a statement read back from its text. \<open>PlanAllowProps\<close>: an admitted delta leaves credentials and what is
  outside the plan alone; the tables enter as facts computed over all rows. \<open>PlanWitness\<close>: the same for whatever the
  transaction of \<open>Apply\<close> types, and two lines that pass although no row admits them.
\<close>

text \<open>
  \<^bold>\<open>Parameters.\<close> Code that is not in the repository, and what the system answers, are arguments: the bcrypt
  functions, the tables of Unicode (\<open>unicode\<close>: spaces, printable runes, lower case, case folding), the emitter and the
  reader of YAML (\<open>yaml_lib\<close>, of which nothing is assumed: a write is checked by reading it back), the outcome of every
  system call (\<open>io\<close>, \<open>ledger_io\<close>), Python's number formats, \<open>strconv.ParseFloat\<close> (assumed to read the decimal digits
  of a number as that number, \<open>float_parser\<close>), the regular expression compiler, the defaults document, the answers of
  \<open>getent\<close> and \<open>id\<close> to the gate, and the transport, planner, clock and callbacks of a transaction, which may answer
  anything or panic.

  \<^bold>\<open>Bounds.\<close> Nothing runs on fuel. Recursion is structural or has a measure; the loop of \<open>range_covers\<close> is a
  \<open>partial_function\<close> and is proved to end with the right answer. Machine integers are kept where they can wrap (addresses,
  ports, sizes of reports, offsets of id maps); Go's \<open>int\<close> is an integer elsewhere, where the values are the lengths of
  lists or bounded by a check of the code. The nesting of YAML values is cut at the code's depth of 64.

  \<^bold>\<open>Not modelled.\<close> The wording of messages (a message is a constructor), the arguments, prompts and printing of
  \<open>internal/cli\<close>; the texts of devices (\<open>internal/devconf\<close> readers, its planners, and the editor of IOS configurations)
  and the sessions that carry them (\<open>internal/devssh\<close>, the two transports of \<open>internal/devapply\<close>); the templates of \<open>internal/render\<close>,
  \<open>internal/backend\<close>, \<open>internal/blocks\<close> and \<open>internal/devices\<close>; the migrations of \<open>internal/lifecycle\<close>, \<open>internal/snapshot\<close>
  and the legacy half of \<open>internal/model\<close>; the YAML text itself (\<open>internal/pyyaml\<close> and the emitter); terminals,
  installation and enrolment. Locks are not modelled as objects: a transition is what one process does while it holds
  the lock, and a failure to take it is one of the outcomes.
\<close>

end
